(* ===== verification/FOS_Prelude.thy ===== *)
theory FOS_Prelude
  imports Main "HOL-Library.Word"
begin

text \<open>
  Shared vocabulary of the development: the fixed-width integer types of
  \<^verbatim>\<open>inc/types.h\<close>, the way a C function of the kernel can fail to return a value
  (\<open>kerror\<close>), sequencing of fallible calls (\<open>bindE\<close>), the \<open>NULL\<close>-aware first/last
  selectors used for the intrusive lists, and generic facts on words and lists that every
  component uses.  Facts about machine words are collected in \<open>word_facts\<close>, the
  unfolding equations of the source's macros in \<open>macro_defs\<close>.
\<close>

unbundle bit_operations_syntax

named_theorems word_facts \<open>facts about machine words shared by the components\<close>
named_theorems macro_defs \<open>defining equations of the macros of the C headers\<close>

type_synonym u8 = "8 word"
type_synonym u16 = "16 word"
type_synonym u32 = "32 word"
type_synonym i32 = "32 word"

section \<open>Calls that do not return a value\<close>

text \<open>
  \<open>Panic\<close> is a call of the kernel's \<open>panic\<close> (or a failed \<open>assert\<close>), which never
  returns; \<open>Spin\<close> is a busy-wait loop that no step of the calling processor can end;
  \<open>Fault\<close> is a load or a store through a pointer that the code has not checked
  (a \<open>NULL\<close> dereference).
\<close>

datatype kerror = Panic string | Spin | Fault

type_synonym 'a res = "kerror + 'a"

primrec bindE :: "'e + 'a \<Rightarrow> ('a \<Rightarrow> 'e + 'b) \<Rightarrow> 'e + 'b" where
  "bindE (Inl e) f = Inl e"
| "bindE (Inr x) f = f x"

lemma bindE_eq_Inr_iff: "bindE m f = Inr y \<longleftrightarrow> (\<exists>x. m = Inr x \<and> f x = Inr y)"
  by (cases m) auto

lemma bindE_InrE [elim!]:
  assumes "bindE m f = Inr y"
  obtains x where "m = Inr x" and "f x = Inr y"
  using assms by (auto simp: bindE_eq_Inr_iff)

lemma bindE_assoc: "bindE (bindE m f) g = bindE m (\<lambda>x. bindE (f x) g)"
  by (cases m) auto

lemma bindE_split: "P (bindE m f) \<longleftrightarrow> (\<forall>e. m = Inl e \<longrightarrow> P (Inl e)) \<and> (\<forall>x. m = Inr x \<longrightarrow> P (f x))"
  by (cases m) auto

section \<open>First and last element, with NULL for none\<close>

definition first_of :: "'a list \<Rightarrow> 'a option \<Rightarrow> 'a option" where
  "first_of xs d = (case xs of [] \<Rightarrow> d | x # _ \<Rightarrow> Some x)"

definition last_of :: "'a option \<Rightarrow> 'a list \<Rightarrow> 'a option" where
  "last_of d xs = (if xs = [] then d else Some (last xs))"

lemma first_of_simps [simp]: "first_of [] d = d" "first_of (x # xs) d = Some x"
  by (simp_all add: first_of_def)

lemma last_of_simps [simp]:
  "last_of d [] = d" "last_of d (xs @ [x]) = Some x" "last_of d (x # xs) = last_of (Some x) xs"
  by (simp_all add: last_of_def)

lemma first_of_append: "first_of (xs @ ys) d = first_of xs (first_of ys d)"
  by (cases xs) auto

lemma last_of_append: "last_of d (xs @ ys) = last_of (last_of d xs) ys"
  by (induction xs arbitrary: d) auto

lemma first_of_None_iff: "first_of xs None = None \<longleftrightarrow> xs = []"
  by (cases xs) auto

lemma last_of_None_iff: "last_of None xs = None \<longleftrightarrow> xs = []"
  by (simp add: last_of_def)

section \<open>Machine words\<close>

lemma unat_of_nat_u32 [word_facts]: "n < 2 ^ 32 \<Longrightarrow> unat (word_of_nat n :: u32) = n"
  by (simp add: unat_of_nat take_bit_nat_eq_self)

lemma word_of_nat_Suc_u32: "(word_of_nat (Suc n) :: u32) = word_of_nat n + 1"
  by simp

lemma unat_u32_lt: "unat (x :: u32) < 4294967296"
  using unsigned_less [of x, where 'a = nat] by simp

lemma unat_u32_plus:
  "unat (a :: u32) + unat b < 4294967296 \<Longrightarrow> unat (a + b) = unat a + unat b"
  by (simp add: unat_word_ariths)

lemma unat_u32_minus: "b \<le> a \<Longrightarrow> unat (a - b :: u32) = unat a - unat b"
  by (simp add: unat_sub)

lemma unat_u32_mult:
  "unat (a :: u32) * unat b < 4294967296 \<Longrightarrow> unat (a * b) = unat a * unat b"
  by (simp add: unat_word_ariths)

lemma unat_2pow: "n < 32 \<Longrightarrow> unat (2 ^ n :: u32) = 2 ^ n"
proof -
  assume "n < 32"
  then have "(2 ^ n :: nat) < 2 ^ 32" by (rule power_strict_increasing) simp
  moreover have "(2 ^ n :: u32) = word_of_nat (2 ^ n)" by simp
  ultimately show ?thesis by (simp only: unat_of_nat_u32)
qed

lemma unat_ucast_16_32 [simp]: "unat (ucast (x :: u16) :: u32) = unat x"
proof -
  have "unat x < 2 ^ 16" using unsigned_less [of x, where 'a = nat] by simp
  then show ?thesis by (simp add: unsigned_ucast_eq take_bit_nat_eq_self)
qed

lemma unat_ucast_32_16: "unat (x :: u32) < 65536 \<Longrightarrow> unat (ucast x :: u16) = unat x"
  by (simp add: unsigned_ucast_eq take_bit_nat_eq_self)

lemma ucast_16_32_eq_0_iff [simp]: "(ucast (x :: u16) :: u32) = 0 \<longleftrightarrow> x = 0"
  by (metis unat_eq_zero unat_ucast_16_32)

lemma unat_u16_plus_1: "unat (x :: u16) < 65535 \<Longrightarrow> unat (x + 1) = unat x + 1"
  by (simp add: unat_word_ariths)

lemma unat_u16_minus_1: "0 < unat (x :: u16) \<Longrightarrow> unat (x - 1) = unat x - 1"
  by (simp add: unat_sub word_le_nat_alt)

lemma push_bit_12_of_nat: "push_bit 12 (word_of_nat i :: u32) = word_of_nat (4096 * i)"
  by (simp add: push_bit_eq_mult)

lemma unat_drop_bit_12: "unat (drop_bit 12 (x :: u32)) = unat x div 4096"
  by (simp add: unat_drop_bit_eq drop_bit_eq_div unat_div_distrib)

lemmas u32_to_nat = word_le_nat_alt word_less_nat_alt unat_u32_plus unat_u32_minus
  unat_u32_mult unat_mod_distrib unat_div_distrib

section \<open>Single bits of 32-bit words\<close>

declare bit_numeral_word_iff [simp del] bit_neg_numeral_word_iff [simp del]

lemma bit_u32_lt: "bit (x :: u32) n \<Longrightarrow> n < 32"
  using bit_imp_le_length [of x n] by simp

lemma bit_FFF: "bit (0xFFF :: u32) n \<longleftrightarrow> n < 12"
proof -
  have "(0xFFF :: u32) = mask 12" by (simp add: mask_eq_exp_minus_1)
  then show ?thesis by (simp only: bit_mask_iff) auto
qed

lemma bit_not_FFF: "bit (- 0x1000 :: u32) n \<longleftrightarrow> 12 \<le> n \<and> n < 32"
proof -
  have "(- 0x1000 :: u32) = NOT 0xFFF" by simp
  then show ?thesis by (simp only: bit_not_iff bit_FFF possible_bit_word) auto
qed

lemma bit_E00: "bit (0xE00 :: u32) n \<longleftrightarrow> 9 \<le> n \<and> n < 12"
proof -
  have "(0xE00 :: u32) = push_bit 9 (mask 3)" by (simp add: push_bit_eq_mult mask_eq_exp_minus_1)
  then show ?thesis by (simp only: bit_push_bit_iff bit_mask_iff) auto
qed

lemma bit_200: "bit (0x200 :: u32) n \<longleftrightarrow> n = 9"
proof -
  have "(0x200 :: u32) = 2 ^ 9" by simp
  then show ?thesis by (simp only: bit_exp_iff) auto
qed

lemma bit_low:
  assumes "(x :: u32) < 4096" and "12 \<le> n"
  shows "\<not> bit x n"
proof -
  have "take_bit 12 x = x" using assms(1) by (simp add: take_bit_eq_mod mod_word_less)
  then show ?thesis using assms(2) by (metis bit_take_bit_iff not_le)
qed

lemmas u32_bits = bit_not_FFF bit_FFF bit_E00 bit_200 bit_and_iff bit_or_iff bit_not_iff bit_push_bit_iff bit_drop_bit_eq bit_1_iff possible_bit_word

lemma and_1_iff: "(e :: u32) AND 1 = 1 \<longleftrightarrow> bit e 0"
  by (simp add: and_one_eq odd_iff_mod_2_eq_one bit_0)

lemma and_200_iff: "(e :: u32) AND 0x200 = 0 \<longleftrightarrow> \<not> bit e 9"
proof
  assume "e AND 0x200 = 0"
  then have "bit (e AND 0x200) 9 = bit (0 :: u32) 9" by (simp only:)
  then show "\<not> bit e 9" by (simp add: u32_bits)
next
  assume "\<not> bit e 9"
  then show "e AND 0x200 = 0" by (intro bit_word_eqI) (auto simp: u32_bits)
qed

end
