(* ===== verification/FOS_Mmu.thy ===== *)
theory FOS_Mmu
  imports FOS_Prelude
begin

text \<open>
  The address-arithmetic macros and the memory-layout constants of \<^verbatim>\<open>inc/types.h\<close>,
  \<^verbatim>\<open>inc/mmu.h\<close>, \<^verbatim>\<open>inc/memlayout.h\<close> and \<^verbatim>\<open>kern/mem/memory_manager.h\<close>, on
  32-bit words, with the facts about page rounding and about the three fields of a linear
  address that the memory components rest on.
\<close>

section \<open>Constants\<close>

abbreviation (input) PAGE_SIZE :: u32 where "PAGE_SIZE \<equiv> 4096"
abbreviation (input) PTSIZE :: u32 where "PTSIZE \<equiv> 4194304"

abbreviation (input) PERM_PRESENT :: u32 where "PERM_PRESENT \<equiv> 0x001"
abbreviation (input) PERM_WRITEABLE :: u32 where "PERM_WRITEABLE \<equiv> 0x002"
abbreviation (input) PERM_USER :: u32 where "PERM_USER \<equiv> 0x004"
abbreviation (input) PERM_USED :: u32 where "PERM_USED \<equiv> 0x020"
abbreviation (input) PERM_MODIFIED :: u32 where "PERM_MODIFIED \<equiv> 0x040"
abbreviation (input) PERM_BUFFERED :: u32 where "PERM_BUFFERED \<equiv> 0x200"
abbreviation (input) PERM_UHPAGE :: u32 where "PERM_UHPAGE \<equiv> 0x400"
abbreviation (input) PERM_AVAILABLE :: u32 where "PERM_AVAILABLE \<equiv> 0xE00"

abbreviation (input) KERNEL_BASE :: u32 where "KERNEL_BASE \<equiv> 0xF0000000"
abbreviation (input) USER_TOP :: u32 where "USER_TOP \<equiv> 0xEEC00000"
abbreviation (input) USTACKTOP :: u32 where "USTACKTOP \<equiv> 0xEEBFE000"
abbreviation (input) USER_LIMIT :: u32 where "USER_LIMIT \<equiv> 0xEF800000"
abbreviation (input) KERNEL_HEAP_START :: u32 where "KERNEL_HEAP_START \<equiv> 0xF6000000"
abbreviation (input) KERNEL_HEAP_MAX :: u32 where "KERNEL_HEAP_MAX \<equiv> 0xFFFFF000"
abbreviation (input) USER_HEAP_START :: u32 where "USER_HEAP_START \<equiv> 0x80000000"
abbreviation (input) USER_HEAP_MAX :: u32 where "USER_HEAP_MAX \<equiv> 0xA0000000"

section \<open>Rounding macros\<close>

definition ROUNDDOWN :: "u32 \<Rightarrow> u32 \<Rightarrow> u32" where
  [macro_defs]: "ROUNDDOWN a n = a - a mod n"

definition ROUNDUP :: "u32 \<Rightarrow> u32 \<Rightarrow> u32" where
  [macro_defs]: "ROUNDUP a n = ROUNDDOWN (a + n - 1) n"

section \<open>Fields of a linear address and of a table entry\<close>

definition PPN :: "u32 \<Rightarrow> u32" where
  [macro_defs]: "PPN la = drop_bit 12 la"

definition PDX :: "u32 \<Rightarrow> u32" where
  [macro_defs]: "PDX la = drop_bit 22 la AND 0x3FF"

definition PTX :: "u32 \<Rightarrow> u32" where
  [macro_defs]: "PTX la = drop_bit 12 la AND 0x3FF"

definition PGOFF :: "u32 \<Rightarrow> u32" where
  [macro_defs]: "PGOFF la = la AND 0xFFF"

definition PGADDR :: "u32 \<Rightarrow> u32 \<Rightarrow> u32 \<Rightarrow> u32" where
  [macro_defs]: "PGADDR d t off = push_bit 22 d OR push_bit 12 t OR off"

definition EXTRACT_ADDRESS :: "u32 \<Rightarrow> u32" where
  [macro_defs]: "EXTRACT_ADDRESS entry = entry AND NOT 0xFFF"

definition CONSTRUCT_ENTRY :: "u32 \<Rightarrow> u32 \<Rightarrow> u32" where
  [macro_defs]: "CONSTRUCT_ENTRY phys_frame_address permissions = phys_frame_address OR permissions"

definition CHECK_IF_KERNEL_ADDRESS :: "u32 \<Rightarrow> bool" where
  [macro_defs]: "CHECK_IF_KERNEL_ADDRESS va \<longleftrightarrow> USER_TOP \<le> va \<and> va \<le> 0xFFFFFFFF"

section \<open>Rounding facts\<close>

lemma unat_ROUNDDOWN: "unat (ROUNDDOWN a n) = unat a - unat a mod unat n"
proof -
  have "a mod n \<le> a" by (simp add: word_le_nat_alt unat_mod_distrib)
  then show ?thesis by (simp add: ROUNDDOWN_def unat_u32_minus unat_mod_distrib)
qed

lemma unat_ROUNDDOWN': "unat (ROUNDDOWN a n) = (unat a div unat n) * unat n"
  by (simp add: unat_ROUNDDOWN minus_mod_eq_div_mult)

lemma ROUNDDOWN_le: "ROUNDDOWN a n \<le> a"
  by (simp add: word_le_nat_alt unat_ROUNDDOWN)

lemma ROUNDDOWN_dvd: "unat n dvd unat (ROUNDDOWN a n)"
  by (simp add: unat_ROUNDDOWN')

lemma ROUNDDOWN_gap: "0 < n \<Longrightarrow> unat a < unat (ROUNDDOWN a n) + unat n"
  using dividend_less_div_times [of "unat n" "unat a"]
  by (simp add: unat_ROUNDDOWN' word_less_nat_alt)

lemma ROUNDDOWN_idem: "unat n dvd unat a \<Longrightarrow> ROUNDDOWN a n = a"
  by (simp add: word_unat_eq_iff unat_ROUNDDOWN)

lemma unat_ROUNDUP:
  assumes "0 < n" and "unat a + unat n \<le> 4294967296"
  shows "unat (ROUNDUP a n) = ((unat a + unat n - 1) div unat n) * unat n"
proof -
  have "0 < unat n" using assms(1) by (simp add: word_less_nat_alt)
  then have "unat (a + (n - 1)) = unat a + (unat n - 1)"
    using assms(2) by (subst unat_u32_plus) (auto simp: unat_u32_minus word_le_nat_alt)
  then have "unat (a + n - 1) = unat a + unat n - 1"
    using \<open>0 < unat n\<close> by (simp add: algebra_simps)
  then show ?thesis by (simp add: ROUNDUP_def unat_ROUNDDOWN')
qed

end
