(* ===== verification/FOS_Queue.thy ===== *)
theory FOS_Queue
  imports FOS_Prelude
begin

text \<open>
  The intrusive doubly-linked lists of \<^verbatim>\<open>inc/queue.h\<close>.  A list head is a record of two
  pointers and a 32-bit element count; the links live inside the elements, so they are a store
  from element addresses to pointers (\<open>None\<close> is \<open>NULL\<close>) that all lists share.  Each macro is
  one definition on a head and the link store.  The relation \<open>rep\<close> says which HOL list a head
  stands for, and the lemmas show that the macros compute the list operations that the other
  components use, without touching any element outside the list.
\<close>

section \<open>Heads and links\<close>

record 'p list_head =
  lh_first :: "'p option"
  lh_last :: "'p option"
  lh_size :: u32

record 'p links =
  le_next :: "'p \<Rightarrow> 'p option"
  le_prev :: "'p \<Rightarrow> 'p option"

definition set_next :: "'p \<Rightarrow> 'p option \<Rightarrow> 'p links \<Rightarrow> 'p links" where
  "set_next e v l = l\<lparr>le_next := (le_next l)(e := v)\<rparr>"

definition set_prev :: "'p \<Rightarrow> 'p option \<Rightarrow> 'p links \<Rightarrow> 'p links" where
  "set_prev e v l = l\<lparr>le_prev := (le_prev l)(e := v)\<rparr>"

section \<open>The macros\<close>

definition LIST_INIT :: "'p list_head \<Rightarrow> 'p list_head" where
  "LIST_INIT h = h\<lparr>lh_first := None, lh_last := None, lh_size := 0\<rparr>"

definition LIST_EMPTY :: "'p list_head \<Rightarrow> bool" where
  "LIST_EMPTY h \<longleftrightarrow> lh_first h = None"

definition LIST_INSERT_HEAD ::
  "'p option \<Rightarrow> 'p list_head \<times> 'p links \<Rightarrow> ('p list_head \<times> 'p links) res" where
  "LIST_INSERT_HEAD elm = (\<lambda>(h, l). (case elm of
     None \<Rightarrow> Inl (Panic ''LIST_INSERT_HEAD: element is NULL!'')
   | Some e \<Rightarrow>
      (let l1 = set_next e (lh_first h) l;
           (h2, l2) = (case lh_first h of
               Some f \<Rightarrow> (h, set_prev f (Some e) l1)
             | None \<Rightarrow> (h\<lparr>lh_last := Some e\<rparr>, l1));
           h3 = h2\<lparr>lh_first := Some e\<rparr>;
           l3 = set_prev e None l2
       in Inr (h3\<lparr>lh_size := lh_size h3 + 1\<rparr>, l3))))"

definition LIST_INSERT_TAIL ::
  "'p option \<Rightarrow> 'p list_head \<times> 'p links \<Rightarrow> ('p list_head \<times> 'p links) res" where
  "LIST_INSERT_TAIL elm = (\<lambda>(h, l). (case elm of
     None \<Rightarrow> Inl (Panic ''LIST_INSERT_TAIL: element is NULL!'')
   | Some e \<Rightarrow>
      (let l1 = set_prev e (lh_last h) l;
           (h2, l2) = (case lh_last h of
               Some t \<Rightarrow> (h, set_next t (Some e) l1)
             | None \<Rightarrow> (h\<lparr>lh_first := Some e\<rparr>, l1));
           h3 = h2\<lparr>lh_last := Some e\<rparr>;
           l3 = set_next e None l2
       in Inr (h3\<lparr>lh_size := lh_size h3 + 1\<rparr>, l3))))"

definition LIST_INSERT_AFTER ::
  "'p option \<Rightarrow> 'p option \<Rightarrow> 'p list_head \<times> 'p links \<Rightarrow> ('p list_head \<times> 'p links) res" where
  "LIST_INSERT_AFTER listelm elm = (\<lambda>(h, l). (case (listelm, elm) of
     (Some x, Some e) \<Rightarrow>
      (let l1 = set_next e (le_next l x) l;
           l2 = (case le_next l1 e of None \<Rightarrow> l1
                 | Some _ \<Rightarrow> (case le_next l1 x of None \<Rightarrow> l1 | Some n \<Rightarrow> set_prev n (Some e) l1));
           l3 = set_next x (Some e) l2;
           l4 = set_prev e (Some x) l3;
           h1 = (if le_next l4 e = None then h\<lparr>lh_last := Some e\<rparr> else h)
       in Inr (h1\<lparr>lh_size := lh_size h1 + 1\<rparr>, l4))
   | _ \<Rightarrow> Inl (Panic ''LIST_INSERT_AFTER: one of the two elements is NULL!'')))"

definition LIST_INSERT_BEFORE ::
  "'p option \<Rightarrow> 'p option \<Rightarrow> 'p list_head \<times> 'p links \<Rightarrow> ('p list_head \<times> 'p links) res" where
  "LIST_INSERT_BEFORE listelm elm = (\<lambda>(h, l). (case (listelm, elm) of
     (Some x, Some e) \<Rightarrow>
      (let l1 = set_prev e (le_prev l x) l;
           l2 = set_next e (Some x) l1;
           (h3, l3) = (case le_prev l2 x of
               Some p \<Rightarrow> (h, set_next p (Some e) l2)
             | None \<Rightarrow> (h\<lparr>lh_first := Some e\<rparr>, l2));
           l4 = set_prev x (Some e) l3
       in Inr (h3\<lparr>lh_size := lh_size h3 + 1\<rparr>, l4))
   | _ \<Rightarrow> Inl (Panic ''LIST_INSERT_BEFORE: one of the two elements is NULL!'')))"

definition LIST_REMOVE ::
  "'p option \<Rightarrow> 'p list_head \<times> 'p links \<Rightarrow> ('p list_head \<times> 'p links) res" where
  "LIST_REMOVE elm = (\<lambda>(h, l). (case elm of
     None \<Rightarrow> Inl (Panic ''LIST_REMOVE: element is NULL!'')
   | Some e \<Rightarrow>
      (let (h1, l1) = (case le_next l e of
               Some n \<Rightarrow> (h, set_prev n (le_prev l e) l)
             | None \<Rightarrow> (h\<lparr>lh_last := le_prev l e\<rparr>, l));
           (h2, l2) = (case le_prev l1 e of
               Some p \<Rightarrow> (h1, set_next p (le_next l1 e) l1)
             | None \<Rightarrow> (h1\<lparr>lh_first := le_next l1 e\<rparr>, l1));
           l3 = set_prev e None (set_next e None l2)
       in Inr (h2\<lparr>lh_size := lh_size h2 - 1\<rparr>, l3))))"

definition LIST_CONCAT ::
  "'p list_head \<times> 'p list_head \<times> 'p links \<Rightarrow> 'p list_head \<times> 'p list_head \<times> 'p links" where
  "LIST_CONCAT = (\<lambda>(h1, h2, l).
     (let (g1, g2, l1) =
        (case lh_first h1 of
           None \<Rightarrow> (h1\<lparr>lh_first := lh_first h2, lh_last := lh_last h2\<rparr>, h2, l)
         | Some _ \<Rightarrow>
            (case (lh_first h2, lh_last h1) of
               (Some f2, Some t1) \<Rightarrow>
                 (h1\<lparr>lh_last := lh_last h2\<rparr>, LIST_INIT h2,
                  set_prev f2 (Some t1) (set_next t1 (Some f2) l))
             | _ \<Rightarrow> (h1, h2, l)))
      in (g1\<lparr>lh_size := lh_size g1 + lh_size g2\<rparr>, g2, l1)))"

text \<open>
  \<open>LIST_FOREACH\<close>: the elements the loop visits when its body leaves the links alone, with fuel
  for the number of iterations.
\<close>

fun walk :: "nat \<Rightarrow> 'p links \<Rightarrow> 'p option \<Rightarrow> 'p list option" where
  "walk n l None = Some []"
| "walk 0 l (Some e) = None"
| "walk (Suc n) l (Some e) = map_option (Cons e) (walk n l (le_next l e))"

definition LIST_FOREACH :: "nat \<Rightarrow> 'p list_head \<times> 'p links \<Rightarrow> 'p list option" where
  "LIST_FOREACH n = (\<lambda>(h, l). walk n l (lh_first h))"

section \<open>What a head represents\<close>

fun seg :: "'p links \<Rightarrow> 'p option \<Rightarrow> 'p list \<Rightarrow> 'p option \<Rightarrow> bool" where
  "seg l p [] q = True"
| "seg l p (x # xs) q \<longleftrightarrow> le_prev l x = p \<and> le_next l x = first_of xs q \<and> seg l (Some x) xs q"

definition rep :: "'p list_head \<times> 'p links \<Rightarrow> 'p list \<Rightarrow> bool" where
  "rep = (\<lambda>(h, l) xs. distinct xs \<and> seg l None xs None \<and> lh_first h = first_of xs None
     \<and> lh_last h = last_of None xs \<and> lh_size h = word_of_nat (length xs))"

lemma seg_append:
  "seg l p (xs @ ys) q \<longleftrightarrow> seg l p xs (first_of ys q) \<and> seg l (last_of p xs) ys q"
  by (induction xs arbitrary: p) (auto simp: first_of_append)

lemma seg_frame:
  "(\<And>x. x \<in> set xs \<Longrightarrow> le_next l' x = le_next l x \<and> le_prev l' x = le_prev l x)
   \<Longrightarrow> seg l' p xs q = seg l p xs q"
  by (induction xs arbitrary: p) auto

lemma links_set [simp]:
  "le_next (set_next e v l) x = (if x = e then v else le_next l x)"
  "le_prev (set_next e v l) x = le_prev l x"
  "le_prev (set_prev e v l) x = (if x = e then v else le_prev l x)"
  "le_next (set_prev e v l) x = le_next l x"
  by (simp_all add: set_next_def set_prev_def)

lemma seg_set_other [simp]:
  "e \<notin> set xs \<Longrightarrow> seg (set_next e v l) p xs q = seg l p xs q"
  "e \<notin> set xs \<Longrightarrow> seg (set_prev e v l) p xs q = seg l p xs q"
  by (induction xs arbitrary: p) auto

lemma seg_snoc: "seg l p (xs @ [t]) q \<longleftrightarrow>
    seg l p xs (Some t) \<and> le_prev l t = last_of p xs \<and> le_next l t = q"
  by (simp add: seg_append)

lemmas rep_defs = rep_def seg_append first_of_append last_of_append

section \<open>The macros compute the list operations\<close>

lemma rep_LIST_INIT: "rep (LIST_INIT h, l) []"
  by (simp add: rep_def LIST_INIT_def)

lemma rep_LIST_EMPTY: "rep (h, l) xs \<Longrightarrow> LIST_EMPTY h \<longleftrightarrow> xs = []"
  by (auto simp: rep_def LIST_EMPTY_def first_of_None_iff)

lemma rep_LIST_FIRST: "rep (h, l) xs \<Longrightarrow> lh_first h = first_of xs None"
  by (simp add: rep_def)

lemma rep_LIST_LAST: "rep (h, l) xs \<Longrightarrow> lh_last h = last_of None xs"
  by (simp add: rep_def)

lemma rep_LIST_INSERT_HEAD:
  assumes "rep hl xs" and "e \<notin> set xs"
  shows "\<exists>hl'. LIST_INSERT_HEAD (Some e) hl = Inr hl' \<and> rep hl' (e # xs)"
proof (cases hl)
  case (Pair h l)
  show ?thesis
    using assms Pair by (cases xs) (auto simp: rep_def LIST_INSERT_HEAD_def Let_def)
qed

lemma rep_LIST_INSERT_TAIL:
  assumes "rep hl xs" and "e \<notin> set xs"
  shows "\<exists>hl'. LIST_INSERT_TAIL (Some e) hl = Inr hl' \<and> rep hl' (xs @ [e])"
proof (cases hl)
  case (Pair h l)
  show ?thesis
    using assms Pair
    by (cases xs rule: rev_cases) (auto simp: rep_defs LIST_INSERT_TAIL_def Let_def)
qed

lemma rep_LIST_REMOVE:
  assumes "rep hl (xs @ e # ys)"
  shows "\<exists>hl'. LIST_REMOVE (Some e) hl = Inr hl' \<and> rep hl' (xs @ ys)"
proof (cases hl)
  case (Pair h l)
  show ?thesis
    using assms Pair
    by (cases xs rule: rev_cases; cases ys)
      (auto simp: rep_defs LIST_REMOVE_def Let_def)
qed

lemma rep_LIST_INSERT_AFTER:
  assumes "rep hl (xs @ x # ys)" and "e \<notin> set (xs @ x # ys)"
  shows "\<exists>hl'. LIST_INSERT_AFTER (Some x) (Some e) hl = Inr hl' \<and> rep hl' (xs @ x # e # ys)"
proof (cases hl)
  case (Pair h l)
  show ?thesis
    using assms Pair
    by (cases ys) (auto simp: rep_defs LIST_INSERT_AFTER_def Let_def)
qed

lemma rep_LIST_INSERT_BEFORE:
  assumes "rep hl (xs @ x # ys)" and "e \<notin> set (xs @ x # ys)"
  shows "\<exists>hl'. LIST_INSERT_BEFORE (Some x) (Some e) hl = Inr hl' \<and> rep hl' (xs @ e # x # ys)"
proof (cases hl)
  case (Pair h l)
  show ?thesis
    using assms Pair
    by (cases xs rule: rev_cases)
      (auto simp: rep_defs LIST_INSERT_BEFORE_def Let_def)
qed

text \<open>The loop of \<open>LIST_FOREACH\<close> ends and visits the elements in order.\<close>

lemma walk_seg: "seg l p xs None \<Longrightarrow> length xs \<le> n \<Longrightarrow> walk n l (first_of xs None) = Some xs"
proof (induction xs arbitrary: p n)
  case Nil
  then show ?case by simp
next
  case (Cons x xs)
  then obtain m where "n = Suc m" by (cases n) auto
  moreover from this Cons have "walk m l (first_of xs None) = Some xs" by auto
  ultimately show ?case using Cons.prems by simp
qed

lemma rep_LIST_FOREACH: "rep hl xs \<Longrightarrow> length xs \<le> n \<Longrightarrow> LIST_FOREACH n hl = Some xs"
  by (cases hl) (auto simp: rep_def LIST_FOREACH_def walk_seg)

section \<open>Sequences of operations: the contract of a list provider\<close>

datatype 'p list_op = InsHead 'p | InsTail 'p | InsAfter 'p 'p | InsBefore 'p 'p | Rem 'p

fun insert_after :: "'p \<Rightarrow> 'p \<Rightarrow> 'p list \<Rightarrow> 'p list" where
  "insert_after x e [] = []"
| "insert_after x e (y # ys) = (if y = x then y # e # ys else y # insert_after x e ys)"

fun insert_before :: "'p \<Rightarrow> 'p \<Rightarrow> 'p list \<Rightarrow> 'p list" where
  "insert_before x e [] = []"
| "insert_before x e (y # ys) = (if y = x then e # y # ys else y # insert_before x e ys)"

fun abs_op :: "'p list_op \<Rightarrow> 'p list \<Rightarrow> 'p list" where
  "abs_op (InsHead e) xs = e # xs"
| "abs_op (InsTail e) xs = xs @ [e]"
| "abs_op (InsAfter x e) xs = insert_after x e xs"
| "abs_op (InsBefore x e) xs = insert_before x e xs"
| "abs_op (Rem e) xs = remove1 e xs"

text \<open>What the caller of a macro has to guarantee: inserted elements are in no list yet, the
  anchor or the removed element is in this list.\<close>

fun legal_op :: "'p list_op \<Rightarrow> 'p list \<Rightarrow> bool" where
  "legal_op (InsHead e) xs \<longleftrightarrow> e \<notin> set xs"
| "legal_op (InsTail e) xs \<longleftrightarrow> e \<notin> set xs"
| "legal_op (InsAfter x e) xs \<longleftrightarrow> x \<in> set xs \<and> e \<notin> set xs"
| "legal_op (InsBefore x e) xs \<longleftrightarrow> x \<in> set xs \<and> e \<notin> set xs"
| "legal_op (Rem e) xs \<longleftrightarrow> e \<in> set xs"

fun abs_run :: "'p list_op list \<Rightarrow> 'p list \<Rightarrow> 'p list" where
  "abs_run [] xs = xs"
| "abs_run (a # as) xs = abs_run as (abs_op a xs)"

fun legal_run :: "'p list_op list \<Rightarrow> 'p list \<Rightarrow> bool" where
  "legal_run [] xs \<longleftrightarrow> True"
| "legal_run (a # as) xs \<longleftrightarrow> legal_op a xs \<and> legal_run as (abs_op a xs)"

fun conc_op ::
  "'p list_op \<Rightarrow> 'p list_head \<times> 'p links \<Rightarrow> ('p list_head \<times> 'p links) res" where
  "conc_op (InsHead e) = LIST_INSERT_HEAD (Some e)"
| "conc_op (InsTail e) = LIST_INSERT_TAIL (Some e)"
| "conc_op (InsAfter x e) = LIST_INSERT_AFTER (Some x) (Some e)"
| "conc_op (InsBefore x e) = LIST_INSERT_BEFORE (Some x) (Some e)"
| "conc_op (Rem e) = LIST_REMOVE (Some e)"

fun run_ops :: "('o \<Rightarrow> 'q \<Rightarrow> 'q res) \<Rightarrow> 'o list \<Rightarrow> 'q \<Rightarrow> 'q res" where
  "run_ops f [] q = Inr q"
| "run_ops f (a # as) q = bindE (f a q) (run_ops f as)"

lemma insert_after_split:
  "x \<notin> set as \<Longrightarrow> insert_after x e (as @ x # bs) = as @ x # e # bs"
  by (induction as) auto

lemma insert_before_split:
  "x \<notin> set as \<Longrightarrow> insert_before x e (as @ x # bs) = as @ e # x # bs"
  by (induction as) auto

lemma remove1_split: "x \<notin> set as \<Longrightarrow> remove1 x (as @ x # bs) = as @ bs"
  by (simp add: remove1_append)

locale list_provider =
  fixes Rep :: "'q \<Rightarrow> 'p list \<Rightarrow> bool"
    and Op :: "'p list_op \<Rightarrow> 'q \<Rightarrow> 'q res"
  assumes step_sim: "\<lbrakk>Rep q xs; legal_op a xs\<rbrakk> \<Longrightarrow> \<exists>q'. Op a q = Inr q' \<and> Rep q' (abs_op a xs)"
begin

lemma run_sim:
  "\<lbrakk>Rep q xs; legal_run as xs\<rbrakk> \<Longrightarrow> \<exists>q'. run_ops Op as q = Inr q' \<and> Rep q' (abs_run as xs)"
proof (induction as arbitrary: q xs)
  case Nil
  then show ?case by simp
next
  case (Cons a as)
  then obtain q1 where "Op a q = Inr q1" and "Rep q1 (abs_op a xs)"
    using step_sim by fastforce
  with Cons show ?case by auto
qed

end

lemma conc_op_sim:
  assumes "rep hl xs" and "legal_op a xs"
  shows "\<exists>hl'. conc_op a hl = Inr hl' \<and> rep hl' (abs_op a xs)"
proof -
  have split: "\<exists>as bs. xs = as @ x # bs \<and> x \<notin> set as" if "x \<in> set xs" for x
    using that by (rule split_list_first)
  show ?thesis
  proof (cases a)
    case (InsHead e)
    with assms show ?thesis by (simp add: rep_LIST_INSERT_HEAD del: split_paired_Ex)
  next
    case (InsTail e)
    with assms show ?thesis by (simp add: rep_LIST_INSERT_TAIL del: split_paired_Ex)
  next
    case (InsAfter x e)
    with assms split [of x] obtain as bs where "xs = as @ x # bs" "x \<notin> set as" by auto
    with assms InsAfter show ?thesis
      using rep_LIST_INSERT_AFTER [of hl as x bs e] by (simp add: insert_after_split del: split_paired_Ex)
  next
    case (InsBefore x e)
    with assms split [of x] obtain as bs where "xs = as @ x # bs" "x \<notin> set as" by auto
    with assms InsBefore show ?thesis
      using rep_LIST_INSERT_BEFORE [of hl as x bs e] by (simp add: insert_before_split del: split_paired_Ex)
  next
    case (Rem x)
    with assms split [of x] obtain as bs where "xs = as @ x # bs" "x \<notin> set as" by auto
    with assms Rem show ?thesis
      using rep_LIST_REMOVE [of hl as x bs] by (simp add: remove1_split del: split_paired_Ex)
  qed
qed

interpretation fos_list: list_provider rep conc_op
  by unfold_locales (rule conc_op_sim)

section \<open>Concatenation\<close>

lemma seg_change_end:
  "xs \<noteq> [] \<Longrightarrow> distinct xs \<Longrightarrow> seg l p xs q \<Longrightarrow> seg (set_next (last xs) v l) p xs v"
  by (cases xs rule: rev_cases) (auto simp: seg_snoc)

lemma seg_change_start:
  "distinct (x # xs) \<Longrightarrow> seg l p (x # xs) q \<Longrightarrow> seg (set_prev x v l) v (x # xs) q"
  by simp

lemma LIST_CONCAT_nonempty:
  assumes "rep (h1, l) xs" and "rep (h2, l) (y # ys)" and "xs \<noteq> []"
    and "set xs \<inter> set (y # ys) = {}"
  obtains g1 g2 l' where "LIST_CONCAT (h1, h2, l) = (g1, g2, l')"
    and "rep (g1\<lparr>lh_size := word_of_nat (length (xs @ y # ys))\<rparr>, l') (xs @ y # ys)"
    and "rep (g2, l') []" and "lh_size g1 = word_of_nat (length xs)"
proof -
  have lasts: "lh_first h1 = Some (hd xs)" "lh_last h1 = Some (last xs)"
    using assms(1,3) by (cases xs, auto simp: rep_def last_of_def)
  let ?l = "set_prev y (Some (last xs)) (set_next (last xs) (Some y) l)"
  have 1: "seg ?l None xs (Some y)"
    using assms by (auto simp: rep_def intro: seg_change_end)
  have "last xs \<notin> set (y # ys)" using assms(3,4) last_in_set by blast
  then have 2: "seg ?l (Some (last xs)) (y # ys) None"
    using assms(2) by (auto simp: rep_def)
  show thesis
  proof (rule that)
    show "LIST_CONCAT (h1, h2, l) = (h1\<lparr>lh_last := lh_last h2\<rparr>\<lparr>lh_size := lh_size h1 + 0\<rparr>, LIST_INIT h2, ?l)"
      using assms(2) lasts by (simp add: LIST_CONCAT_def rep_def LIST_INIT_def)
  qed (use assms lasts 1 2 in \<open>auto simp: rep_defs last_of_def LIST_INIT_def first_of_def split: list.splits\<close>)
qed

section \<open>The lists as their clients see them\<close>

text \<open>Claim C40.  Any legal sequence of insertions and removals, started on an initialised list, runs
  without touching a null link and ends in a pointer structure that stands for the list which
  the same operations give on sequences.\<close>

theorem list_ops_refine:
  assumes "legal_run as []"
  shows "\<exists>q. run_ops conc_op as (LIST_INIT h, l) = Inr q \<and> rep q (abs_run as [])"
  using fos_list.run_sim [OF rep_LIST_INIT assms] .

theorem list_ops_refine_witness:
  "\<exists>q. run_ops conc_op [InsTail 1, InsTail (2 :: nat), InsHead 3, InsAfter 1 4, Rem 2, InsBefore 3 2]
        (LIST_INIT \<lparr>lh_first = None, lh_last = None, lh_size = 0\<rparr>,
         \<lparr>le_next = (\<lambda>_. None), le_prev = (\<lambda>_. None)\<rparr>) = Inr q
     \<and> rep q (abs_run [InsTail 1, InsTail (2 :: nat), InsHead 3, InsAfter 1 4, Rem 2, InsBefore 3 2] [])"
  by (rule list_ops_refine) simp

text \<open>Walking a list visits exactly its elements in order and stops, with as many steps as
  the list has elements.\<close>

theorem list_foreach_visits:
  assumes "rep hl xs"
  shows "LIST_FOREACH (length xs) hl = Some xs"
  using assms by (rule rep_LIST_FOREACH) simp

theorem list_foreach_visits_witness:
  "\<exists>q. LIST_FOREACH 2 q = Some [3 :: nat, 1]"
proof -
  have r: "rep (\<lparr>lh_first = Some 3, lh_last = Some 1, lh_size = 2\<rparr>,
    \<lparr>le_next = (\<lambda>_. None)(3 \<mapsto> 1), le_prev = (\<lambda>_. None)(1 \<mapsto> 3)\<rparr>) [3 :: nat, 1]"
    by (simp add: rep_def last_of_def)
  from list_foreach_visits [OF r] show ?thesis by (auto simp: numeral_2_eq_2)
qed

text \<open>Concatenating two non-empty lists links their elements in order and empties the second
  head, but the size field of the result still counts the first list only: the macro resets
  the second head before it adds that head's size.\<close>

theorem list_concat_loses_size:
  assumes "rep (h1, l) xs" and "rep (h2, l) (y # ys)" and "xs \<noteq> []"
    and "set xs \<inter> set (y # ys) = {}"
  shows "\<exists>g1 g2 l'. LIST_CONCAT (h1, h2, l) = (g1, g2, l')
     \<and> rep (g1\<lparr>lh_size := word_of_nat (length (xs @ y # ys))\<rparr>, l') (xs @ y # ys)
     \<and> rep (g2, l') [] \<and> lh_size g1 = word_of_nat (length xs)"
  using LIST_CONCAT_nonempty [OF assms] by metis

theorem list_concat_loses_size_witness:
  "\<exists>h1 h2 l g1 g2 l'. rep (h1, l) [1 :: nat] \<and> rep (h2, l) [2] \<and> LIST_CONCAT (h1, h2, l) = (g1, g2, l')
     \<and> lh_size g1 = 1"
proof -
  let ?h = "\<lambda>x :: nat. \<lparr>lh_first = Some x, lh_last = Some x, lh_size = 1\<rparr>"
  let ?l = "\<lparr>le_next = (\<lambda>_. None), le_prev = (\<lambda>_. None)\<rparr>"
  have r: "rep (?h 1, ?l) [1]" "rep (?h 2, ?l) [2]" by (simp_all add: rep_def last_of_def)
  from list_concat_loses_size [OF r] obtain g1 g2 l' where
    "LIST_CONCAT (?h 1, ?h 2, ?l) = (g1, g2, l')" "lh_size g1 = 1" by auto
  with r show ?thesis by blast
qed

end
