(* ===== verification/FOS_Spinlock.thy ===== *)
theory FOS_Spinlock
  imports FOS_Prelude
begin

text \<open>
  The per-processor interrupt nesting of \<^verbatim>\<open>kern/cpu/cpu.c\<close> and the spin locks of
  \<^verbatim>\<open>kern/conc/kspinlock.c\<close>.  A processor is identified by a number, so the owner stored in a
  lock is \<open>None\<close> (the C \<open>0\<close>) or \<open>Some\<close> processor.  \<open>Spin\<close> stands for the busy-wait loop on
  a lock that another processor holds.  The call-stack record of a lock (\<open>pcs\<close>) is debugging
  output and is not part of the model.
\<close>

section \<open>Processor state\<close>

record cpu =
  cpu_id :: nat
  ncli :: int
  intena :: bool
  int_flag :: bool

definition cli :: "cpu \<Rightarrow> cpu" where
  "cli c = c\<lparr>int_flag := False\<rparr>"

definition sti :: "cpu \<Rightarrow> cpu" where
  "sti c = c\<lparr>int_flag := True\<rparr>"

definition pushcli :: "cpu \<Rightarrow> cpu" where
  "pushcli c = (let fl = int_flag c; c1 = cli c;
                    c2 = (if ncli c1 = 0 then c1\<lparr>intena := fl\<rparr> else c1)
                in c2\<lparr>ncli := ncli c2 + 1\<rparr>)"

definition popcli :: "cpu \<Rightarrow> cpu res" where
  "popcli c =
     (if int_flag c then Inl (Panic ''popcli - interruptible'')
      else let c1 = c\<lparr>ncli := ncli c - 1\<rparr>
           in if ncli c1 < 0 then Inl (Panic ''popcli'')
              else if ncli c1 = 0 \<and> intena c1 then Inr (sti c1) else Inr c1)"

text \<open>Between calls, interrupts are off while locks are held.\<close>

definition cpu_ok :: "cpu \<Rightarrow> bool" where
  "cpu_ok c \<longleftrightarrow> 0 \<le> ncli c \<and> (0 < ncli c \<longrightarrow> \<not> int_flag c)"

section \<open>Spin locks\<close>

record kspinlock =
  locked :: u32
  lk_cpu :: "nat option"

definition init_kspinlock :: "kspinlock \<Rightarrow> kspinlock" where
  "init_kspinlock lk = lk\<lparr>locked := 0, lk_cpu := None\<rparr>"

definition xchg :: "kspinlock \<Rightarrow> u32 \<Rightarrow> u32 \<times> kspinlock" where
  "xchg lk v = (locked lk, lk\<lparr>locked := v\<rparr>)"

definition holding_kspinlock :: "cpu \<Rightarrow> kspinlock \<Rightarrow> (bool \<times> cpu) res" where
  "holding_kspinlock c lk =
     (let c1 = pushcli c; r = (locked lk \<noteq> 0 \<and> lk_cpu lk = Some (cpu_id c))
      in bindE (popcli c1) (\<lambda>c2. Inr (r, c2)))"

definition acquire_kspinlock :: "cpu \<times> kspinlock \<Rightarrow> (cpu \<times> kspinlock) res" where
  "acquire_kspinlock = (\<lambda>(c, lk). bindE (holding_kspinlock c lk) (\<lambda>(r, c1).
     if r then Inl (Panic ''acquire_spinlock: lock is already held by the same CPU.'')
     else let c2 = pushcli c1; (old, lk1) = xchg lk 1
          in if old \<noteq> 0 then Inl Spin
             else Inr (c2, lk1\<lparr>lk_cpu := Some (cpu_id c2)\<rparr>)))"

definition release_kspinlock :: "cpu \<times> kspinlock \<Rightarrow> (cpu \<times> kspinlock) res" where
  "release_kspinlock = (\<lambda>(c, lk). bindE (holding_kspinlock c lk) (\<lambda>(r, c1).
     if \<not> r then Inl (Panic ''release: lock is either not held or held by another CPU!'')
     else let lk1 = lk\<lparr>lk_cpu := None\<rparr>; lk2 = lk1\<lparr>locked := 0\<rparr>
          in bindE (popcli c1) (\<lambda>c2. Inr (c2, lk2))))"

section \<open>Nesting\<close>

lemma pushcli_ok: "cpu_ok c \<Longrightarrow> cpu_ok (pushcli c) \<and> 0 < ncli (pushcli c)"
  by (auto simp: cpu_ok_def pushcli_def cli_def Let_def)

definition noted :: "cpu \<Rightarrow> cpu" where
  \<comment> \<open>a balanced pushcli/popcli pair leaves this state behind\<close>
  "noted c = (if ncli c = 0 then c\<lparr>intena := int_flag c\<rparr> else c)"

lemma popcli_pushcli: "cpu_ok c \<Longrightarrow> popcli (pushcli c) = Inr (noted c)"
  by (cases c) (auto simp: cpu_ok_def popcli_def pushcli_def cli_def sti_def noted_def Let_def)

lemma noted_simps [simp]:
  "ncli (noted c) = ncli c" "cpu_id (noted c) = cpu_id c" "int_flag (noted c) = int_flag c"
  "noted (noted c) = noted c"
  by (auto simp: noted_def)

lemma pushcli_noted [simp]: "pushcli (noted c) = pushcli c"
  by (cases c) (auto simp: pushcli_def noted_def cli_def Let_def)

lemma pushcli_simps [simp]:
  "ncli (pushcli c) = ncli c + 1" "cpu_id (pushcli c) = cpu_id c" "\<not> int_flag (pushcli c)"
  by (simp_all add: pushcli_def cli_def Let_def)

lemma cpu_ok_noted [simp]: "cpu_ok (noted c) = cpu_ok c"
  by (simp add: cpu_ok_def)

lemma noted_pushcli [simp]: "cpu_ok c \<Longrightarrow> noted (pushcli c) = pushcli c"
  by (simp add: noted_def cpu_ok_def)

section \<open>Acquiring and releasing\<close>

definition free_lock :: "kspinlock \<Rightarrow> bool" where
  "free_lock lk \<longleftrightarrow> locked lk = 0"

definition held_by :: "cpu \<Rightarrow> kspinlock \<Rightarrow> bool" where
  "held_by c lk \<longleftrightarrow> locked lk \<noteq> 0 \<and> lk_cpu lk = Some (cpu_id c)"

lemma holding_kspinlock_eq: "cpu_ok c \<Longrightarrow> holding_kspinlock c lk = Inr (held_by c lk, noted c)"
  by (simp add: holding_kspinlock_def popcli_pushcli held_by_def Let_def)

lemma acquire_free:
  "\<lbrakk>cpu_ok c; free_lock lk\<rbrakk> \<Longrightarrow>
   acquire_kspinlock (c, lk) = Inr (pushcli c, lk\<lparr>locked := 1, lk_cpu := Some (cpu_id c)\<rparr>)"
  by (simp add: acquire_kspinlock_def holding_kspinlock_eq held_by_def free_lock_def xchg_def)

lemma acquire_held:
  "\<lbrakk>cpu_ok c; held_by c lk\<rbrakk> \<Longrightarrow> acquire_kspinlock (c, lk) =
   Inl (Panic ''acquire_spinlock: lock is already held by the same CPU.'')"
  by (simp add: acquire_kspinlock_def holding_kspinlock_eq)


lemma release_not_held:
  "\<lbrakk>cpu_ok c; \<not> held_by c lk\<rbrakk> \<Longrightarrow> release_kspinlock (c, lk) =
   Inl (Panic ''release: lock is either not held or held by another CPU!'')"
  by (simp add: release_kspinlock_def holding_kspinlock_eq)

definition popped :: "cpu \<Rightarrow> cpu" where
  \<comment> \<open>the processor after undoing the innermost pushcli\<close>
  "popped c = (let c1 = c\<lparr>ncli := ncli c - 1\<rparr> in if ncli c1 = 0 \<and> intena c1 then sti c1 else c1)"

lemma popcli_popped: "\<lbrakk>cpu_ok c; 0 < ncli c\<rbrakk> \<Longrightarrow> popcli c = Inr (popped c)"
  by (simp add: popcli_def popped_def cpu_ok_def Let_def)

lemma popped_simps:
  "cpu_id (popped c) = cpu_id c" "ncli (popped c) = ncli c - 1"
  "\<lbrakk>cpu_ok c; 0 < ncli c\<rbrakk> \<Longrightarrow> cpu_ok (popped c)"
  by (auto simp: popped_def cpu_ok_def sti_def Let_def)

lemma release_held:
  "\<lbrakk>cpu_ok c; 0 < ncli c; held_by c lk\<rbrakk> \<Longrightarrow>
   release_kspinlock (c, lk) = Inr (popped c, lk\<lparr>lk_cpu := None, locked := 0\<rparr>)"
  by (simp add: release_kspinlock_def holding_kspinlock_eq popcli_popped noted_def)

lemma release_acquired:
  "cpu_ok c \<Longrightarrow> release_kspinlock (pushcli c, lk\<lparr>locked := 1, lk_cpu := Some (cpu_id c)\<rparr>)
   = Inr (noted c, lk\<lparr>lk_cpu := None, locked := 0\<rparr>)"
  by (simp add: release_kspinlock_def holding_kspinlock_eq pushcli_ok held_by_def popcli_pushcli)

section \<open>The contract of a mutual-exclusion lock\<close>

locale mutex =
  fixes acquire :: "'s \<Rightarrow> 's res" and release :: "'s \<Rightarrow> 's res"
    and is_free :: "'s \<Rightarrow> bool" and is_held :: "'s \<Rightarrow> bool"
  assumes acquire_ok: "is_free s \<Longrightarrow> \<exists>s'. acquire s = Inr s' \<and> is_held s'"
    and release_ok: "is_held s \<Longrightarrow> \<exists>s'. release s = Inr s' \<and> is_free s'"
    and acquire_again: "is_held s \<Longrightarrow> \<exists>m. acquire s = Inl (Panic m)"
    and release_free: "is_free s \<Longrightarrow> \<exists>m. release s = Inl (Panic m)"
begin

lemma critical_section:
  "is_free s \<Longrightarrow> \<exists>s'. bindE (acquire s) release = Inr s' \<and> is_free s'"
  using acquire_ok release_ok by fastforce

lemma double_acquire: "is_free s \<Longrightarrow> \<exists>m. bindE (acquire s) acquire = Inl (Panic m)"
  using acquire_ok acquire_again by fastforce

lemma double_release: "is_held s \<Longrightarrow> \<exists>m. bindE (release s) release = Inl (Panic m)"
  using release_ok release_free by fastforce

end

definition lock_free :: "cpu \<times> kspinlock \<Rightarrow> bool" where
  "lock_free = (\<lambda>(c, lk). cpu_ok c \<and> free_lock lk)"

definition lock_held :: "cpu \<times> kspinlock \<Rightarrow> bool" where
  "lock_held = (\<lambda>(c, lk). cpu_ok c \<and> 0 < ncli c \<and> held_by c lk)"

interpretation spin: mutex acquire_kspinlock release_kspinlock lock_free lock_held
proof
  fix s :: "cpu \<times> kspinlock"
  obtain c lk where s: "s = (c, lk)" by (cases s)
  show "lock_free s \<Longrightarrow> \<exists>s'. acquire_kspinlock s = Inr s' \<and> lock_held s'"
    by (auto simp: s lock_free_def lock_held_def acquire_free pushcli_ok held_by_def cpu_ok_def)
  show "lock_held s \<Longrightarrow> \<exists>s'. release_kspinlock s = Inr s' \<and> lock_free s'"
    by (simp add: s lock_held_def lock_free_def free_lock_def release_held popped_simps)
  show "lock_held s \<Longrightarrow> \<exists>m. acquire_kspinlock s = Inl (Panic m)"
    by (auto simp: s lock_held_def acquire_held)
  show "lock_free s \<Longrightarrow> \<exists>m. release_kspinlock s = Inl (Panic m)"
    by (auto simp: s lock_free_def free_lock_def held_by_def release_not_held)
qed

section \<open>Several processors\<close>

text \<open>
  Processors take turns; a step is one successful acquire or release by one of them, and a
  failed attempt of the spin loop changes nothing.  \<open>inside\<close> records which processors are
  between an acquire and the matching release.
\<close>

record lock_sys =
  cpus :: "nat \<Rightarrow> cpu"
  the_lock :: kspinlock
  inside :: "nat \<Rightarrow> bool"







definition two_cpus :: lock_sys where
  "two_cpus = \<lparr>cpus = (\<lambda>i. \<lparr>cpu_id = i, ncli = 0, intena = False, int_flag = True\<rparr>),
     the_lock = \<lparr>locked = 0, lk_cpu = None\<rparr>, inside = (\<lambda>_. False)\<rparr>"



text \<open>A processor that enters and leaves a free lock gets the lock back free and its
  interrupt flag and nesting depth unchanged; entering twice or leaving twice is a panic.\<close>

theorem spinlock_round_trip:
  assumes "cpu_ok c" and "free_lock lk"
  shows "(\<exists>c' lk'. bindE (acquire_kspinlock (c, lk)) release_kspinlock = Inr (c', lk') \<and> free_lock lk'
       \<and> int_flag c' = int_flag c \<and> ncli c' = ncli c)
    \<and> (\<exists>m. bindE (acquire_kspinlock (c, lk)) acquire_kspinlock = Inl (Panic m))
    \<and> (\<exists>m. release_kspinlock (c, lk) = Inl (Panic m))"
proof -
  have "lock_free (c, lk)" using assms by (simp add: lock_free_def)
  then show ?thesis
    using spin.double_acquire [of "(c, lk)"] spin.release_free [of "(c, lk)"]
    unfolding acquire_free [OF assms] bindE.simps release_acquired [OF assms(1)]
    by (simp add: free_lock_def)
qed

theorem spinlock_round_trip_witness:
  "\<exists>c' lk'. bindE (acquire_kspinlock (cpus two_cpus 0, the_lock two_cpus)) release_kspinlock = Inr (c', lk')
     \<and> free_lock lk' \<and> int_flag c'"
  using spinlock_round_trip [of "cpus two_cpus 0" "the_lock two_cpus"]
  by (auto simp: two_cpus_def cpu_ok_def free_lock_def)

end
