(* ===== verification/FOS_DynAlloc.thy ===== *)
theory FOS_DynAlloc
  imports FOS_Mmu
begin

text \<open>
  The block allocator of \<^verbatim>\<open>lib/dynamic_allocator.c\<close>, used by the kernel heap and by the user
  heap.  The page-information array is a function from indices, the list of free pages a list of
  such indices, and the free-block list of each size class a list of block addresses (the
  intrusive lists of \<^verbatim>\<open>inc/queue.h\<close>, in the list view that theory \<open>FOS_Queue\<close> justifies).
  The page allocator below (\<open>get_page\<close>, \<open>return_page\<close>) and \<open>memcpy\<close> are parameters acting on an
  environment \<open>'e\<close>: the kernel and the user library link different ones.  A call that ends in
  the busy-wait loop of the allocator returns \<open>Wait\<close>: the loop is left, and the call repeated, when
  another process clears the flag (\<open>alloc_block_resume\<close>).
\<close>

section \<open>State\<close>

abbreviation (input) DYN_ALLOC_MAX_SIZE :: u32 where "DYN_ALLOC_MAX_SIZE \<equiv> 33554432"
abbreviation (input) DYN_ALLOC_MAX_BLOCK_SIZE :: u32 where "DYN_ALLOC_MAX_BLOCK_SIZE \<equiv> 2048"
abbreviation (input) min_block_size :: u32 where "min_block_size \<equiv> 8"
abbreviation (input) max_block_size :: u32 where "max_block_size \<equiv> 2048"

record PageInfoElement =
  block_size :: u16
  num_of_free_blocks :: u16

record dyn_alloc =
  dynAllocStart :: u32
  dynAllocEnd :: u32
  pageBlockInfoArr :: "nat \<Rightarrow> PageInfoElement"
  freePagesList :: "nat list"
  freeBlockLists :: "nat \<Rightarrow> u32 list"
  blockedVar :: u32

datatype alloc_ret = Ret u32 | Wait

section \<open>Given functions\<close>

definition to_page_va :: "dyn_alloc \<Rightarrow> nat \<Rightarrow> u32 res" where
  "to_page_va s i = (if 8192 \<le> i then Inl (Panic ''to_page_va called with invalid pageInfoPtr'')
     else Inr (dynAllocStart s + push_bit 12 (word_of_nat i)))"

definition to_page_info :: "dyn_alloc \<Rightarrow> u32 \<Rightarrow> nat res" where
  "to_page_info s va =
     (let idx = unat (drop_bit 12 (va - dynAllocStart s))
      in if 8192 \<le> idx then Inl (Panic ''to_page_info called with invalid pa'') else Inr idx)"

section \<open>Initialisation\<close>

fun init_pages :: "nat list \<Rightarrow> dyn_alloc \<Rightarrow> dyn_alloc" where
  "init_pages [] s = s"
| "init_pages (i # is) s = init_pages is
     (s\<lparr>pageBlockInfoArr := (pageBlockInfoArr s)(i := \<lparr>block_size = 0, num_of_free_blocks = 0\<rparr>),
        freePagesList := freePagesList s @ [i]\<rparr>)"

definition initialize_dynamic_allocator :: "u32 \<Rightarrow> u32 \<Rightarrow> dyn_alloc \<Rightarrow> dyn_alloc res" where
  "initialize_dynamic_allocator daStart daEnd s =
     (if \<not> daEnd \<le> daStart + DYN_ALLOC_MAX_SIZE then Inl (Panic ''assertion failed'')
      else let s1 = s\<lparr>dynAllocStart := daStart, dynAllocEnd := daEnd\<rparr>;
               n = unat ((daEnd - daStart) div PAGE_SIZE);
               s2 = init_pages [0..<n] (s1\<lparr>freePagesList := []\<rparr>)
           in Inr (s2\<lparr>freeBlockLists := (\<lambda>k. if k < 9 then [] else freeBlockLists s2 k)\<rparr>))"

section \<open>Block size\<close>

definition page_index :: "dyn_alloc \<Rightarrow> u32 \<Rightarrow> nat" where
  "page_index s va = unat ((va - dynAllocStart s) div PAGE_SIZE)"

definition get_block_size :: "dyn_alloc \<Rightarrow> u32 \<Rightarrow> u32" where
  "get_block_size s va = ucast (block_size (pageBlockInfoArr s (page_index s va)))"

section \<open>Allocation\<close>

text \<open>The two loops that find the size class; \<open>None\<close> is running out of fuel.\<close>

fun class_loop :: "nat \<Rightarrow> u32 \<Rightarrow> u32 \<Rightarrow> nat \<Rightarrow> (u32 \<times> nat) option" where
  "class_loop 0 sz m idx = None"
| "class_loop (Suc fuel) sz m idx =
     (if m < sz \<and> m < max_block_size then class_loop fuel sz (m * 2) (Suc idx)
      else Some (m, idx))"

fun free_class_loop :: "nat \<Rightarrow> u32 \<Rightarrow> u32 \<Rightarrow> nat \<Rightarrow> nat option" where
  "free_class_loop 0 sz m idx = None"
| "free_class_loop (Suc fuel) sz m idx =
     (if m < sz then free_class_loop fuel sz (push_bit 1 m) (Suc idx) else Some idx)"

definition class_fuel :: nat where "class_fuel = 32"

text \<open>\<open>LIST_FIRST\<close>, \<open>LIST_REMOVE\<close> and the decrement of the page's counter.\<close>

definition take_block :: "nat \<Rightarrow> dyn_alloc \<Rightarrow> (u32 \<times> dyn_alloc) res" where
  "take_block k s = (case freeBlockLists s k of
     [] \<Rightarrow> Inl (Panic ''LIST_REMOVE: element is NULL!'')
   | b # bs \<Rightarrow>
      (let s1 = s\<lparr>freeBlockLists := (freeBlockLists s)(k := bs)\<rparr>
       in bindE (to_page_info s1 b) (\<lambda>i.
            let pi = pageBlockInfoArr s1 i
            in Inr (b, s1\<lparr>pageBlockInfoArr := (pageBlockInfoArr s1)
                  (i := pi\<lparr>num_of_free_blocks := num_of_free_blocks pi - 1\<rparr>)\<rparr>))))"

text \<open>The splitting loop of case 2: the blocks of a page, in the order they are inserted.\<close>

definition split_blocks :: "u32 \<Rightarrow> u32 \<Rightarrow> nat \<Rightarrow> u32 list" where
  "split_blocks pageVA bsz n = map (\<lambda>i. pageVA + word_of_nat i * bsz) [0..<n]"

definition split_page :: "nat \<Rightarrow> u32 \<Rightarrow> nat \<Rightarrow> u32 \<Rightarrow> dyn_alloc \<Rightarrow> dyn_alloc" where
  "split_page k bsz p pageVA s =
     (let n = PAGE_SIZE div bsz
      in s\<lparr>pageBlockInfoArr := (pageBlockInfoArr s)
             (p := \<lparr>block_size = ucast bsz, num_of_free_blocks = ucast n\<rparr>),
           freeBlockLists := (freeBlockLists s)
             (k := freeBlockLists s k @ split_blocks pageVA bsz (unat n))\<rparr>)"

definition alloc_block ::
  "(u32 \<Rightarrow> 'e \<Rightarrow> 'e res) \<Rightarrow> u32 \<Rightarrow> dyn_alloc \<times> 'e \<Rightarrow> (alloc_ret \<times> dyn_alloc \<times> 'e) res" where
  "alloc_block get_page sz = (\<lambda>(s, e).
     if \<not> sz \<le> DYN_ALLOC_MAX_BLOCK_SIZE then Inl (Panic ''assertion failed'')
     else if sz > max_block_size then Inl (Panic ''Block too large to allocate'')
     else if sz = 0 then Inr (Ret 0, s, e)
     else (case class_loop class_fuel sz min_block_size 0 of
        None \<Rightarrow> Inl Spin
      | Some (bsz, k) \<Rightarrow>
         if freeBlockLists s k \<noteq> [] then
           bindE (take_block k s) (\<lambda>(b, s1). Inr (Ret b, s1, e))
         else if freePagesList s \<noteq> [] then
           (let p = hd (freePagesList s); s1 = s\<lparr>freePagesList := tl (freePagesList s)\<rparr>
            in bindE (to_page_va s1 p) (\<lambda>pageVA.
               bindE (get_page pageVA e) (\<lambda>e1.
               bindE (take_block k (split_page k bsz p pageVA s1)) (\<lambda>(b, s2).
               Inr (Ret b, s2, e1)))))
         else (case find (\<lambda>i. freeBlockLists s i \<noteq> []) [k..<8] of
              Some i \<Rightarrow> bindE (take_block i s) (\<lambda>(b, s1). Inr (Ret b, s1, e))
            | None \<Rightarrow> Inr (Wait, s\<lparr>blockedVar := 1\<rparr>, e))))"

text \<open>The waiting process looks at the flag and repeats the call when it is clear.\<close>

definition alloc_block_resume ::
  "(u32 \<Rightarrow> 'e \<Rightarrow> 'e res) \<Rightarrow> u32 \<Rightarrow> dyn_alloc \<times> 'e \<Rightarrow> (alloc_ret \<times> dyn_alloc \<times> 'e) res" where
  "alloc_block_resume get_page sz = (\<lambda>(s, e).
     if blockedVar s \<noteq> 0 then Inr (Wait, s, e) else alloc_block get_page sz (s, e))"

section \<open>Freeing\<close>

definition free_block ::
  "(u32 \<Rightarrow> 'e \<Rightarrow> 'e res) \<Rightarrow> u32 \<Rightarrow> dyn_alloc \<times> 'e \<Rightarrow> (dyn_alloc \<times> 'e) res" where
  "free_block return_page va = (\<lambda>(s, e).
     if \<not> (dynAllocStart s \<le> va \<and> va < dynAllocEnd s) then Inl (Panic ''assertion failed'')
     else let p = page_index s va;
              bsz = ucast (block_size (pageBlockInfoArr s p)) :: u32
          in if bsz = 0 then Inl (Panic ''assertion failed'')
             else (case free_class_loop class_fuel bsz min_block_size 0 of
               None \<Rightarrow> Inl Spin
             | Some k \<Rightarrow>
                if 8 < k then Inl Fault
                else
                (let pi = pageBlockInfoArr s p;
                     pi1 = pi\<lparr>num_of_free_blocks := num_of_free_blocks pi + 1\<rparr>;
                     s1 = s\<lparr>pageBlockInfoArr := (pageBlockInfoArr s)(p := pi1)\<rparr>;
                     pageVA = dynAllocStart s + word_of_nat p * PAGE_SIZE;
                     total = PAGE_SIZE div bsz
                 in if total \<le> ucast (num_of_free_blocks pi1) then
                      (let s2 = s1\<lparr>freeBlockLists := (freeBlockLists s1)
                             (k := filter (\<lambda>b. \<not> (pageVA \<le> b \<and> b < pageVA + PAGE_SIZE))
                                     (freeBlockLists s1 k))\<rparr>
                       in bindE (return_page pageVA e) (\<lambda>e1.
                          Inr (s2\<lparr>freePagesList := p # freePagesList s2,
                                pageBlockInfoArr := (pageBlockInfoArr s2)
                                  (p := \<lparr>block_size = 0, num_of_free_blocks = 0\<rparr>)\<rparr>, e1)))
                    else Inr (s1\<lparr>freeBlockLists := (freeBlockLists s1)
                                   (k := freeBlockLists s1 k @ [va]),
                                 blockedVar := 0\<rparr>, e))))"

section \<open>Resizing\<close>

definition realloc_block ::
  "(u32 \<Rightarrow> 'e \<Rightarrow> 'e res) \<Rightarrow> (u32 \<Rightarrow> 'e \<Rightarrow> 'e res) \<Rightarrow> (u32 \<Rightarrow> u32 \<Rightarrow> u32 \<Rightarrow> 'e \<Rightarrow> 'e) \<Rightarrow>
   u32 \<Rightarrow> u32 \<Rightarrow> dyn_alloc \<times> 'e \<Rightarrow> (alloc_ret \<times> dyn_alloc \<times> 'e) res" where
  "realloc_block get_page return_page memcpy va new_size = (\<lambda>(s, e).
     if va = 0 then alloc_block get_page new_size (s, e)
     else if new_size = 0 then
       bindE (free_block return_page va (s, e)) (\<lambda>(s1, e1). Inr (Ret 0, s1, e1))
     else let sizeOfCurrent = get_block_size s va
          in if new_size \<le> sizeOfCurrent then Inr (Ret va, s, e)
             else bindE (alloc_block get_page new_size (s, e)) (\<lambda>(r, s1, e1).
                    case r of
                      Wait \<Rightarrow> Inr (Wait, s1, e1)
                    | Ret latest \<Rightarrow>
                       if latest = 0 then Inl Spin
                       else bindE (free_block return_page va (s1, memcpy latest va sizeOfCurrent e1))
                              (\<lambda>(s2, e2). Inr (Ret latest, s2, e2))))"

section \<open>Offsets, size classes and the invariant\<close>

definition off :: "dyn_alloc \<Rightarrow> u32 \<Rightarrow> nat" where
  "off s b = unat (b - dynAllocStart s)"

definition npages :: "dyn_alloc \<Rightarrow> nat" where
  "npages s = unat (dynAllocEnd s - dynAllocStart s) div 4096"

definition bsz :: "dyn_alloc \<Rightarrow> nat \<Rightarrow> nat" where
  "bsz s i = unat (block_size (pageBlockInfoArr s i))"

definition nfree :: "dyn_alloc \<Rightarrow> nat \<Rightarrow> nat" where
  "nfree s i = unat (num_of_free_blocks (pageBlockInfoArr s i))"

definition layout_ok :: "dyn_alloc \<Rightarrow> bool" where
  "layout_ok s \<longleftrightarrow> 4096 dvd unat (dynAllocStart s) \<and> 4096 dvd unat (dynAllocEnd s)
     \<and> 0 < dynAllocStart s \<and> dynAllocStart s \<le> dynAllocEnd s
     \<and> unat (dynAllocEnd s) - unat (dynAllocStart s) \<le> 33554432"

text \<open>Address \<open>b\<close> is a slot of a page that is cut into blocks of class \<open>k\<close>.\<close>

definition is_block :: "dyn_alloc \<Rightarrow> nat \<Rightarrow> u32 \<Rightarrow> bool" where
  "is_block s k b \<longleftrightarrow> off s b < 4096 * npages s \<and> 8 * 2 ^ k dvd off s b
     \<and> bsz s (off s b div 4096) = 8 * 2 ^ k"

definition in_page :: "dyn_alloc \<Rightarrow> nat \<Rightarrow> u32 \<Rightarrow> bool" where
  "in_page s i b \<longleftrightarrow> off s b div 4096 = i"

definition free_in :: "dyn_alloc \<Rightarrow> nat \<Rightarrow> nat \<Rightarrow> nat" where
  "free_in s k i = length (filter (in_page s i) (freeBlockLists s k))"

definition pages_ok :: "dyn_alloc \<Rightarrow> bool" where
  "pages_ok s \<longleftrightarrow> distinct (freePagesList s)
     \<and> (\<forall>i < npages s. bsz s i = 0 \<longleftrightarrow> i \<in> set (freePagesList s))
     \<and> (\<forall>i \<in> set (freePagesList s). i < npages s)
     \<and> (\<forall>i < npages s. bsz s i \<noteq> 0 \<longrightarrow>
          (\<exists>k \<le> 8. bsz s i = 8 * 2 ^ k \<and> nfree s i = free_in s k i))"

definition lists_ok :: "dyn_alloc \<Rightarrow> bool" where
  "lists_ok s \<longleftrightarrow>
     (\<forall>k \<le> 8. distinct (freeBlockLists s k) \<and> (\<forall>b \<in> set (freeBlockLists s k). is_block s k b))"

definition da_inv :: "dyn_alloc \<Rightarrow> bool" where
  "da_inv s \<longleftrightarrow> layout_ok s \<and> pages_ok s \<and> lists_ok s"

text \<open>Between calls no page is cut into blocks that are all free.\<close>

definition da_wf :: "dyn_alloc \<Rightarrow> bool" where
  "da_wf s \<longleftrightarrow> da_inv s \<and> (\<forall>i < npages s. bsz s i \<noteq> 0 \<longrightarrow> nfree s i < 4096 div bsz s i)"

text \<open>The abstract state: the blocks handed out and not yet freed.\<close>

definition live :: "dyn_alloc \<Rightarrow> u32 set" where
  "live s = {b. \<exists>k \<le> 8. is_block s k b \<and> b \<notin> set (freeBlockLists s k)}"

lemma npages_le: "layout_ok s \<Longrightarrow> npages s \<le> 8192"
proof -
  assume "layout_ok s"
  then have "unat (dynAllocEnd s - dynAllocStart s) \<le> 33554432"
    by (simp add: layout_ok_def unat_u32_minus)
  then show ?thesis by (simp add: npages_def)
qed

lemma page_index_off [simp]: "page_index s b = off s b div 4096"
  by (simp add: page_index_def off_def unat_div_distrib)

lemma off_start [simp]: "off s (dynAllocStart s + x) = unat x"
  by (simp add: off_def)

lemma off_inj: "off s a = off s b \<Longrightarrow> a = b"
  unfolding off_def word_unat_eq_iff [symmetric] by simp

lemma off_simps [simp]:
  "off (s\<lparr>freePagesList := a\<rparr>) = off s" "off (s\<lparr>freeBlockLists := f\<rparr>) = off s"
  "off (s\<lparr>pageBlockInfoArr := g\<rparr>) = off s" "off (s\<lparr>blockedVar := v\<rparr>) = off s"
  by (simp_all add: off_def fun_eq_iff)

lemma npages_simps [simp]:
  "npages (s\<lparr>freePagesList := a\<rparr>) = npages s" "npages (s\<lparr>freeBlockLists := f\<rparr>) = npages s"
  "npages (s\<lparr>pageBlockInfoArr := g\<rparr>) = npages s" "npages (s\<lparr>blockedVar := v\<rparr>) = npages s"
  by (simp_all add: npages_def)

lemma to_page_info_block:
  "layout_ok s \<Longrightarrow> off s b < 4096 * npages s \<Longrightarrow> to_page_info s b = Inr (off s b div 4096)"
  using npages_le [of s] by (auto simp: to_page_info_def off_def unat_drop_bit_12 Let_def)

lemma pow_class_le: "k \<le> 8 \<Longrightarrow> 8 * (2::nat) ^ k \<le> 2048"
  using power_increasing [of k 8 "2::nat"] by simp

lemma pow_class_dvd: "k \<le> 8 \<Longrightarrow> 8 * (2::nat) ^ k dvd 4096"
  using le_imp_power_dvd [of "k + 3" 12 "2::nat"] by (simp add: power_add mult.commute)

lemma unat_class: "k \<le> 8 \<Longrightarrow> unat (8 * 2 ^ k :: u32) = 8 * 2 ^ k"
  using unat_2pow [of "k + 3"] by (simp add: power_add mult.commute)

subsection \<open>The size-class loops\<close>

lemma class_loop_result:
  assumes "unat sz \<le> 2048"
  shows "\<lbrakk>k \<le> 8; 8 < k + fuel; k = 0 \<or> 4 * 2 ^ k < unat sz\<rbrakk> \<Longrightarrow>
    \<exists>j \<le> 8. class_loop fuel sz (8 * 2 ^ k) k = Some (8 * 2 ^ j, j) \<and> unat sz \<le> 8 * 2 ^ j
      \<and> (j = 0 \<or> 4 * 2 ^ j < unat sz)"
proof (induction fuel arbitrary: k)
  case 0
  then show ?case by simp
next
  case (Suc fuel)
  note u = unat_class [OF \<open>k \<le> 8\<close>]
  show ?case
  proof (cases "8 * 2 ^ k < sz \<and> 8 * 2 ^ k < (2048 :: u32)")
    case True
    then have lt: "8 * 2 ^ k < unat sz" "(2::nat) ^ k < 2 ^ 8"
      by (simp_all add: word_less_nat_alt u)
    then have "Suc k \<le> 8" using power_less_imp_less_exp [of "2::nat" k 8] by simp
    with Suc.IH [of "Suc k"] Suc.prems lt True show ?thesis by (simp add: ac_simps)
  next
    case False
    then have "unat sz \<le> 8 * 2 ^ k"
      using assms by (auto simp: word_less_nat_alt u not_less)
    with False Suc.prems show ?thesis by (auto intro!: exI [of _ k])
  qed
qed

lemma class_loop_class:
  assumes "sz \<le> 2048"
  obtains k where "k \<le> 8" and "class_loop class_fuel sz 8 0 = Some (8 * 2 ^ k, k)"
    and "unat sz \<le> 8 * 2 ^ k" and "k = 0 \<or> 4 * 2 ^ k < unat sz"
  using class_loop_result [of sz 0 class_fuel] assms
  by (auto simp: class_fuel_def word_le_nat_alt)

lemma free_class_loop_steps:
  "\<lbrakk>k \<le> 8; j \<le> k; k - j < fuel\<rbrakk> \<Longrightarrow> free_class_loop fuel (8 * 2 ^ k) (8 * 2 ^ j) j = Some k"
proof (induction fuel arbitrary: j)
  case 0
  then show ?case by simp
next
  case (Suc fuel)
  have lt: "(8 * 2 ^ j < (8 * 2 ^ k :: u32)) \<longleftrightarrow> j < k"
    using Suc.prems by (simp add: word_less_nat_alt unat_class)
  with Suc.IH [of "Suc j"] Suc.prems show ?case
    by (auto simp: push_bit_eq_mult ac_simps)
qed

lemma free_class_loop_class: "k \<le> 8 \<Longrightarrow> free_class_loop class_fuel (8 * 2 ^ k) 8 0 = Some k"
  using free_class_loop_steps [of k 0 class_fuel] by (simp add: class_fuel_def)

subsection \<open>Taking a block from a free list\<close>

lemmas da_inv_defs = da_inv_def layout_ok_def pages_ok_def lists_ok_def

lemma layout_ok_simps [simp]:
  "layout_ok (s\<lparr>freePagesList := a\<rparr>) = layout_ok s" "layout_ok (s\<lparr>freeBlockLists := f\<rparr>) = layout_ok s"
  "layout_ok (s\<lparr>pageBlockInfoArr := g\<rparr>) = layout_ok s" "layout_ok (s\<lparr>blockedVar := v\<rparr>) = layout_ok s"
  by (simp_all add: layout_ok_def)

lemma da_inv_blockD:
  "\<lbrakk>da_inv s; k \<le> 8; b \<in> set (freeBlockLists s k)\<rbrakk> \<Longrightarrow> is_block s k b"
  by (simp add: da_inv_defs)

lemma da_inv_nfree:
  assumes "da_inv s" and "i < npages s" and "bsz s i = 8 * 2 ^ k"
  shows "nfree s i = free_in s k i"
proof -
  from assms obtain j where "bsz s i = 8 * 2 ^ j" and "nfree s i = free_in s j i"
    by (auto simp: da_inv_defs)
  with assms show ?thesis by simp
qed

definition taken :: "dyn_alloc \<Rightarrow> nat \<Rightarrow> u32 \<Rightarrow> u32 list \<Rightarrow> dyn_alloc" where
  "taken s k b bs = (let i = off s b div 4096; pi = pageBlockInfoArr s i in
     s\<lparr>freeBlockLists := (freeBlockLists s)(k := bs),
       pageBlockInfoArr := (pageBlockInfoArr s)
         (i := pi\<lparr>num_of_free_blocks := num_of_free_blocks pi - 1\<rparr>)\<rparr>)"

lemma take_block_eq:
  assumes "da_inv s" and "k \<le> 8" and "freeBlockLists s k = b # bs"
  shows "take_block k s = Inr (b, taken s k b bs)"
proof -
  have "is_block s k b" using assms by (auto intro: da_inv_blockD)
  then show ?thesis
    using assms by (simp add: take_block_def to_page_info_block is_block_def da_inv_def taken_def Let_def)
qed

lemma taken_simps [simp]:
  "off (taken s k b bs) = off s" "npages (taken s k b bs) = npages s"
  "layout_ok (taken s k b bs) = layout_ok s" "freePagesList (taken s k b bs) = freePagesList s"
  "bsz (taken s k b bs) i = bsz s i"
  "freeBlockLists (taken s k b bs) = (freeBlockLists s)(k := bs)"
  "blockedVar (taken s k b bs) = blockedVar s"
  by (auto simp: taken_def Let_def bsz_def)

lemma in_page_cong: "off t = off s \<Longrightarrow> in_page t = in_page s"
  by (simp add: in_page_def fun_eq_iff)

lemma is_block_taken [simp]: "is_block (taken s k b bs) j a = is_block s j a"
  by (simp add: is_block_def)

lemma nfree_taken:
  assumes "da_inv s" and "k \<le> 8" and "freeBlockLists s k = b # bs"
  shows "nfree (taken s k b bs) i = (if i = off s b div 4096 then nfree s i - 1 else nfree s i)"
proof -
  let ?i = "off s b div 4096"
  have blk: "is_block s k b" using assms by (auto intro: da_inv_blockD)
  then have "nfree s ?i = free_in s k ?i"
    using assms by (intro da_inv_nfree) (auto simp: is_block_def)
  then have "0 < unat (num_of_free_blocks (pageBlockInfoArr s ?i))"
    using assms(3) by (simp add: nfree_def free_in_def in_page_def)
  then show ?thesis
    by (auto simp: nfree_def taken_def Let_def unat_u16_minus_1)
qed

lemma free_in_taken:
  assumes "freeBlockLists s k = b # bs"
  shows "free_in (taken s k b bs) j i =
    (if j = k \<and> i = off s b div 4096 then free_in s j i - 1 else free_in s j i)"
proof -
  have "in_page (taken s k b bs) = in_page s" by (rule in_page_cong) simp
  with assms show ?thesis by (auto simp: free_in_def) (simp_all add: in_page_def)
qed

lemma da_inv_taken:
  assumes inv: "da_inv s" and k: "k \<le> 8" and l: "freeBlockLists s k = b # bs"
  shows "da_inv (taken s k b bs)"
proof -
  let ?t = "taken s k b bs"
  have blk: "is_block s k b" using assms by (auto intro: da_inv_blockD)
  have "\<exists>j \<le> 8. bsz ?t i = 8 * 2 ^ j \<and> nfree ?t i = free_in ?t j i"
    if i: "i < npages s" "bsz s i \<noteq> 0" for i
  proof -
    from inv i obtain j where j: "j \<le> 8" "bsz s i = 8 * 2 ^ j" "nfree s i = free_in s j i"
      by (auto simp: da_inv_defs)
    have "i = off s b div 4096 \<Longrightarrow> j = k" using j(2) blk by (simp add: is_block_def)
    with j show ?thesis
      by (intro exI [of _ j]) (auto simp: nfree_taken [OF inv k l] free_in_taken [OF l])
  qed
  with inv l show ?thesis by (auto simp: da_inv_def pages_ok_def lists_ok_def)
qed

lemma live_taken:
  assumes inv: "da_inv s" and k: "k \<le> 8" and l: "freeBlockLists s k = b # bs"
  shows "live (taken s k b bs) = insert b (live s)" and "b \<notin> live s"
proof -
  have blk: "is_block s k b" using assms by (auto intro: da_inv_blockD)
  have "distinct (b # bs)" using inv k l by (auto simp: da_inv_def lists_ok_def dest: spec [of _ k])
  then show "live (taken s k b bs) = insert b (live s)"
    using blk k l by (auto simp: live_def)
  have "is_block s j b \<Longrightarrow> j = k" for j using blk by (simp add: is_block_def)
  then show "b \<notin> live s" using l by (auto simp: live_def)
qed

lemma da_wf_taken:
  assumes "da_inv s" and "k \<le> 8" and "freeBlockLists s k = b # bs"
    and "\<And>i. \<lbrakk>i < npages s; bsz s i \<noteq> 0; i \<noteq> off s b div 4096\<rbrakk> \<Longrightarrow> nfree s i < 4096 div bsz s i"
    and "nfree s (off s b div 4096) \<le> 4096 div bsz s (off s b div 4096)"
  shows "da_wf (taken s k b bs)"
proof -
  have blk: "is_block s k b" using assms by (auto intro: da_inv_blockD)
  then have "nfree s (off s b div 4096) = free_in s k (off s b div 4096)"
    using assms by (intro da_inv_nfree) (auto simp: is_block_def)
  then have "0 < nfree s (off s b div 4096)"
    using assms(3) by (simp add: free_in_def in_page_def)
  with assms show ?thesis
    by (auto simp: da_wf_def da_inv_taken nfree_taken)
qed

subsection \<open>Cutting a page into blocks\<close>

lemma per_page: "k \<le> 8 \<Longrightarrow> (512 div 2 ^ k) * (8 * 2 ^ k) = (4096 :: nat)"
proof -
  assume "k \<le> 8"
  then have "(2::nat) ^ k dvd 2 ^ 9" by (intro le_imp_power_dvd) simp
  then have "(512 div 2 ^ k) * 2 ^ k = (512 :: nat)" by simp
  then show ?thesis by (simp add: mult.commute)
qed

lemma split_page_simps [simp]:
  "off (split_page k z p va s) = off s" "npages (split_page k z p va s) = npages s"
  "layout_ok (split_page k z p va s) = layout_ok s"
  "freePagesList (split_page k z p va s) = freePagesList s"
  "blockedVar (split_page k z p va s) = blockedVar s"
  "dynAllocStart (split_page k z p va s) = dynAllocStart s"
  by (simp_all add: split_page_def Let_def layout_ok_def)

lemma split_blocks_off:
  assumes "p < 8192" and "k \<le> 8" and "i < 512 div 2 ^ k"
  shows "off s (dynAllocStart s + word_of_nat (4096 * p) + word_of_nat i * (8 * 2 ^ k))
     = 4096 * p + i * (8 * 2 ^ k)"
    and "(4096 * p + i * (8 * 2 ^ k)) div 4096 = p"
proof -
  have "Suc i * (8 * 2 ^ k) \<le> (512 div 2 ^ k) * (8 * 2 ^ k)"
    using assms(3) by (intro mult_le_mono) simp_all
  also have "\<dots> = 4096" using per_page [OF assms(2)] .
  finally have "i * (8 * 2 ^ k) + 8 * 2 ^ k \<le> 4096" by simp
  moreover have "0 < (2::nat) ^ k" by simp
  ultimately have lt: "i * (8 * 2 ^ k) < 4096" by linarith
  then show "(4096 * p + i * (8 * 2 ^ k)) div 4096 = p" by simp
  have "word_of_nat (4096 * p) + word_of_nat i * (8 * 2 ^ k) = (word_of_nat (4096 * p + i * (8 * 2 ^ k)) :: u32)"
    by simp
  moreover have "4096 * p + i * (8 * 2 ^ k) < 2 ^ 32" using lt assms(1) by simp
  ultimately show "off s (dynAllocStart s + word_of_nat (4096 * p) + word_of_nat i * (8 * 2 ^ k))
     = 4096 * p + i * (8 * 2 ^ k)"
    by (simp only: off_start add.assoc unat_of_nat_u32)
qed

lemma split_blocks_mem:
  assumes "p < 8192" and "k \<le> 8" and "va = dynAllocStart s + word_of_nat (4096 * p)"
  shows "b \<in> set (split_blocks va (8 * 2 ^ k) (512 div 2 ^ k)) \<longleftrightarrow>
     off s b div 4096 = p \<and> 8 * 2 ^ k dvd off s b" (is "?l \<longleftrightarrow> ?r")
proof
  assume ?l
  then obtain i where i: "i < 512 div 2 ^ k"
    and b: "b = dynAllocStart s + word_of_nat (4096 * p) + word_of_nat i * (8 * 2 ^ k)"
    using assms(3) by (auto simp: split_blocks_def)
  have "8 * 2 ^ k dvd 4096 * p" using pow_class_dvd [OF assms(2)] by (rule dvd_mult2)
  then show ?r
    using split_blocks_off(1) [OF assms(1,2) i, where s = s] split_blocks_off(2) [OF assms(1,2) i] b by (simp del: of_nat_mult)
next
  assume r: ?r
  define q where "q = off s b mod 4096 div (8 * 2 ^ k)"
  have "8 * 2 ^ k dvd off s b mod 4096"
    using r pow_class_dvd [OF assms(2)] by (simp add: dvd_mod_iff)
  then have "off s b mod 4096 = q * (8 * 2 ^ k)"
    unfolding q_def by (rule dvd_div_mult_self [symmetric])
  then have offb: "off s b = 4096 * p + q * (8 * 2 ^ k)"
    using r by (metis div_mult_mod_eq mult.commute)
  have "off s b mod 4096 < (512 div 2 ^ k) * (8 * 2 ^ k)"
    by (simp only: per_page [OF assms(2)] mod_less_divisor zero_less_numeral)
  then have q: "q < 512 div 2 ^ k"
    unfolding q_def by (rule less_mult_imp_div_less)
  have "b = dynAllocStart s + word_of_nat (4096 * p) + word_of_nat q * (8 * 2 ^ k)"
    using split_blocks_off(1) [OF assms(1,2) q, where s = s] offb by (intro off_inj [of s]) simp
  with q assms(3) show ?l by (auto simp: split_blocks_def)
qed

lemma distinct_split_blocks:
  fixes s :: dyn_alloc
  assumes "p < 8192" and "k \<le> 8"
  shows "distinct (split_blocks (dynAllocStart s + word_of_nat (4096 * p)) (8 * 2 ^ k) (512 div 2 ^ k))"
proof -
  have "inj_on (\<lambda>i. dynAllocStart s + word_of_nat (4096 * p) + word_of_nat i * (8 * 2 ^ k)) {0..<512 div 2 ^ k}"
  proof (rule inj_onI)
    fix i j
    assume "i \<in> {0..<512 div 2 ^ k}" "j \<in> {0..<512 div 2 ^ k}"
      and "dynAllocStart s + word_of_nat (4096 * p) + word_of_nat i * (8 * 2 ^ k)
         = dynAllocStart s + word_of_nat (4096 * p) + word_of_nat j * (8 * 2 ^ k)"
    then have "4096 * p + i * (8 * 2 ^ k) = 4096 * p + j * (8 * 2 ^ k)"
      using split_blocks_off(1) [OF assms, where s = s and i = i]
        split_blocks_off(1) [OF assms, where s = s and i = j] by simp
    then show "i = j" by simp
  qed
  then show ?thesis by (simp add: split_blocks_def distinct_map)
qed

text \<open>The state after case 2 has cut page \<open>p\<close> and before it takes the first block.\<close>

definition cut :: "dyn_alloc \<Rightarrow> nat \<Rightarrow> nat \<Rightarrow> nat list \<Rightarrow> dyn_alloc" where
  "cut s k p ps = split_page k (8 * 2 ^ k) p (dynAllocStart s + word_of_nat (4096 * p))
     (s\<lparr>freePagesList := ps\<rparr>)"

lemma cut_simps [simp]:
  "off (cut s k p ps) = off s" "npages (cut s k p ps) = npages s" "freePagesList (cut s k p ps) = ps"
  "layout_ok (cut s k p ps) = layout_ok s" "blockedVar (cut s k p ps) = blockedVar s"
  by (simp_all add: cut_def)

lemma unat_blocks_per_page: "k \<le> 8 \<Longrightarrow> unat ((4096 :: u32) div (8 * 2 ^ k)) = 512 div 2 ^ k"
  by (simp add: unat_div_distrib unat_class)

lemma cut_pages:
  assumes "k \<le> 8"
  shows "bsz (cut s k p ps) i = (if i = p then 8 * 2 ^ k else bsz s i)"
    and "nfree (cut s k p ps) i = (if i = p then 512 div 2 ^ k else nfree s i)"
    and "freeBlockLists (cut s k p ps) = (freeBlockLists s)(k := freeBlockLists s k
      @ split_blocks (dynAllocStart s + word_of_nat (4096 * p)) (8 * 2 ^ k) (512 div 2 ^ k))"
proof -
  have "unat (ucast (4096 div (8 * 2 ^ k) :: u32) :: u16) = 512 div 2 ^ k"
    using unat_ucast_32_16 [of "4096 div (8 * 2 ^ k)"] unat_blocks_per_page [OF assms]
      div_le_dividend [of 512 "2 ^ k"] by simp
  moreover have "unat (8 * 2 ^ k :: u32) \<le> 2048"
    using assms pow_class_le by (simp add: unat_class)
  ultimately show "bsz (cut s k p ps) i = (if i = p then 8 * 2 ^ k else bsz s i)"
    "nfree (cut s k p ps) i = (if i = p then 512 div 2 ^ k else nfree s i)"
    using assms
    by (simp_all add: cut_def split_page_def bsz_def nfree_def Let_def unat_ucast_32_16 unat_class)
  show "freeBlockLists (cut s k p ps) = (freeBlockLists s)(k := freeBlockLists s k
      @ split_blocks (dynAllocStart s + word_of_nat (4096 * p)) (8 * 2 ^ k) (512 div 2 ^ k))"
    using assms by (simp add: cut_def split_page_def Let_def unat_blocks_per_page)
qed

lemma free_in_cut:
  assumes "k \<le> 8" and "p < 8192" and "freeBlockLists s k = []"
  shows "free_in (cut s k p ps) j i =
    (if j = k then (if i = p then 512 div 2 ^ k else 0) else free_in s j i)"
proof -
  have page: "in_page (cut s k p ps) = in_page s" by (rule in_page_cong) simp
  let ?bs = "split_blocks (dynAllocStart s + word_of_nat (4096 * p)) (8 * 2 ^ k) (512 div 2 ^ k)"
  have "\<forall>b \<in> set ?bs. in_page s i b \<longleftrightarrow> i = p"
    using split_blocks_mem [OF assms(2,1) refl, where s = s] by (auto simp: in_page_def)
  then have "filter (in_page s i) ?bs = (if i = p then ?bs else [])"
    by (auto simp: filter_empty_conv)
  then have "length (filter (in_page s i) ?bs) = (if i = p then 512 div 2 ^ k else 0)"
    by (simp add: split_blocks_def)
  then show ?thesis
    using assms by (auto simp add: free_in_def page cut_pages split: if_splits)
qed

lemma is_block_cut:
  assumes "k \<le> 8" and "p < npages s" and "bsz s p = 0"
  shows "is_block (cut s k p ps) j b \<longleftrightarrow>
     is_block s j b \<or> (j = k \<and> off s b div 4096 = p \<and> 8 * 2 ^ k dvd off s b)"
  using assms by (auto simp: is_block_def cut_pages)

lemma da_inv_cut:
  assumes inv: "da_inv s" and k: "k \<le> 8" and l: "freeBlockLists s k = []"
    and ps: "freePagesList s = p # ps"
  shows "da_inv (cut s k p ps)" and "live (cut s k p ps) = live s"
proof -
  have p: "p < npages s" "bsz s p = 0" "p < 8192" "p \<notin> set ps"
    using inv ps npages_le [of s] by (auto simp: da_inv_def pages_ok_def)
  note blk = is_block_cut [OF k p(1,2)]
  note mem = split_blocks_mem [OF p(3) k refl, where s = s]
  let ?t = "cut s k p ps"
  have "\<exists>j \<le> 8. bsz ?t i = 8 * 2 ^ j \<and> nfree ?t i = free_in ?t j i"
    if i: "i < npages s" "bsz ?t i \<noteq> 0" for i
  proof (cases "i = p")
    case True
    with k show ?thesis
      by (intro exI [of _ k]) (simp add: cut_pages free_in_cut [OF k p(3) l])
  next
    case False
    with inv i k obtain j where "j \<le> 8" "bsz s i = 8 * 2 ^ j" "nfree s i = free_in s j i"
      by (auto simp: da_inv_defs cut_pages)
    with False k l show ?thesis
      by (intro exI [of _ j]) (auto simp: cut_pages free_in_cut [OF k p(3) l] free_in_def [of s k])
  qed
  then have "pages_ok ?t"
    using inv k p ps by (auto simp: da_inv_def pages_ok_def cut_pages)
  moreover have "lists_ok ?t"
    using inv k l distinct_split_blocks [OF p(3) k, of s] mem
    by (auto simp: da_inv_def lists_ok_def cut_pages blk)
  ultimately show "da_inv ?t" using inv by (simp add: da_inv_def)
  have no: "is_block s j b \<Longrightarrow> off s b div 4096 \<noteq> p" for j b
    using p(2) by (auto simp: is_block_def)
  have "is_block ?t j b \<and> b \<notin> set (freeBlockLists ?t j) \<longleftrightarrow>
      is_block s j b \<and> b \<notin> set (freeBlockLists s j)" for j b
    using k l mem [of b] no [of j b] by (auto simp: blk cut_pages)
  then show "live ?t = live s" by (simp add: live_def)
qed

subsection \<open>Allocation keeps the invariant and hands out a fresh block\<close>

lemma get_block_size_nat: "unat (get_block_size s b) = bsz s (off s b div 4096)"
  by (simp add: get_block_size_def bsz_def)

lemma layout_end: "layout_ok s \<Longrightarrow> unat (dynAllocEnd s) = unat (dynAllocStart s) + 4096 * npages s"
proof -
  assume l: "layout_ok s"
  then have "4096 dvd unat (dynAllocEnd s) - unat (dynAllocStart s)"
    by (simp add: layout_ok_def dvd_diff_nat)
  with l show ?thesis by (simp add: layout_ok_def npages_def unat_u32_minus word_le_nat_alt)
qed

lemma unat_block:
  assumes "layout_ok s" and "off s b < 4096 * npages s"
  shows "unat b = unat (dynAllocStart s) + off s b"
proof -
  have "unat (dynAllocStart s) + unat (b - dynAllocStart s) < 4294967296"
    using layout_end [OF assms(1)] assms(2) unat_u32_lt [of "dynAllocEnd s"] by (simp add: off_def)
  from unat_u32_plus [OF this] show ?thesis by (simp add: off_def)
qed

lemma layout_not_null: "layout_ok s \<Longrightarrow> off s b < 4096 * npages s \<Longrightarrow> b \<noteq> 0"
  using unat_block [of s b] by (auto simp: layout_ok_def word_less_nat_alt)

definition got :: "u32 \<Rightarrow> dyn_alloc \<Rightarrow> u32 \<Rightarrow> dyn_alloc \<Rightarrow> bool" where
  "got sz s b t \<longleftrightarrow> da_wf t \<and> live t = insert b (live s) \<and> b \<notin> live s \<and> b \<noteq> 0
     \<and> sz \<le> get_block_size t b \<and> dynAllocStart t = dynAllocStart s \<and> dynAllocEnd t = dynAllocEnd s"

lemma taken_bounds [simp]:
  "dynAllocStart (taken s k b bs) = dynAllocStart s" "dynAllocEnd (taken s k b bs) = dynAllocEnd s"
  by (simp_all add: taken_def Let_def)

lemma got_taken:
  assumes "da_inv s" and "k \<le> 8" and "freeBlockLists s k = b # bs" and "unat sz \<le> 8 * 2 ^ k"
    and "da_wf (taken s k b bs)"
  shows "got sz s b (taken s k b bs)"
proof -
  have blk: "is_block s k b" using assms by (auto intro: da_inv_blockD)
  then have "b \<noteq> 0" using assms(1) layout_not_null [of s b] by (simp add: is_block_def da_inv_def)
  moreover have "sz \<le> get_block_size (taken s k b bs) b"
    using blk assms(4) by (simp add: word_le_nat_alt get_block_size_nat is_block_def)
  ultimately show ?thesis
    using assms(5) live_taken [OF assms(1-3)] by (simp add: got_def)
qed

lemma got_take_block:
  assumes "da_wf s" and "k \<le> 8" and "freeBlockLists s k \<noteq> []" and "unat sz \<le> 8 * 2 ^ k"
  shows "\<exists>b t. take_block k s = Inr (b, t) \<and> got sz s b t"
proof -
  obtain b bs where l: "freeBlockLists s k = b # bs" using assms(3) by (cases "freeBlockLists s k") auto
  have inv: "da_inv s" using assms(1) by (simp add: da_wf_def)
  have blk: "is_block s k b" using inv assms(2) l by (auto intro: da_inv_blockD)
  have "da_wf (taken s k b bs)"
  proof (rule da_wf_taken [OF inv assms(2) l])
    show "nfree s (off s b div 4096) \<le> 4096 div bsz s (off s b div 4096)"
      using assms(1) blk less_mult_imp_div_less [of "off s b" "npages s" 4096]
      by (intro less_imp_le) (force simp: da_wf_def is_block_def)
  qed (use assms(1) in \<open>simp add: da_wf_def\<close>)
  then show ?thesis
    using take_block_eq [OF inv assms(2) l] got_taken [OF inv assms(2) l assms(4)] by simp
qed

lemma got_cut:
  assumes "da_wf s" and "k \<le> 8" and "freeBlockLists s k = []" and "freePagesList s = p # ps"
    and "unat sz \<le> 8 * 2 ^ k"
  shows "\<exists>t. take_block k (cut s k p ps) = Inr (dynAllocStart s + word_of_nat (4096 * p), t)
     \<and> got sz s (dynAllocStart s + word_of_nat (4096 * p)) t \<and> freePagesList t = ps
     \<and> (\<forall>i. bsz t i = (if i = p then 8 * 2 ^ k else bsz s i))"
proof -
  let ?c = "cut s k p ps" and ?va = "dynAllocStart s + word_of_nat (4096 * p)"
  have inv: "da_inv s" using assms(1) by (simp add: da_wf_def)
  note cinv = da_inv_cut [OF inv assms(2-4)]
  have p: "p < 8192" using inv assms(4) npages_le [of s] by (auto simp: da_inv_def pages_ok_def)
  have "0 < (512 :: nat) div 2 ^ k"
    using per_page [OF assms(2)] by (cases "512 div 2 ^ k :: nat") auto
  then obtain bs where l: "freeBlockLists ?c k = ?va # bs"
    using assms by (simp add: cut_pages split_blocks_def upt_conv_Cons)
  have offp: "off s ?va div 4096 = p"
    using p unat_of_nat_u32 [of "4096 * p"] by (simp only: off_start) simp
  have "da_wf (taken ?c k ?va bs)"
    using assms offp by (intro da_wf_taken [OF cinv(1) assms(2) l]) (auto simp: da_wf_def cut_pages)
  then have "got sz ?c ?va (taken ?c k ?va bs)"
    by (rule got_taken [OF cinv(1) assms(2) l assms(5)])
  moreover have "dynAllocStart ?c = dynAllocStart s" "dynAllocEnd ?c = dynAllocEnd s"
    by (simp_all add: cut_def split_page_def Let_def)
  ultimately show ?thesis
    using take_block_eq [OF cinv(1) assms(2) l] cinv(2) assms(2) by (simp add: got_def cut_pages)
qed

lemma to_page_va_free:
  "\<lbrakk>da_inv s; freePagesList s = p # ps\<rbrakk> \<Longrightarrow>
   to_page_va (s\<lparr>freePagesList := ps\<rparr>) p = Inr (dynAllocStart s + word_of_nat (4096 * p))"
  using npages_le [of s] by (auto simp: to_page_va_def push_bit_12_of_nat da_inv_def pages_ok_def)

text \<open>Every outcome of an allocation, branch by branch.\<close>

lemma alloc_block_cases:
  assumes wf: "da_wf s" and sz: "0 < sz" "sz \<le> 2048"
  obtains
    (reuse) b t where "alloc_block gp sz (s, e) = Inr (Ret b, t, e)" and "got sz s b t"
      and "freePagesList t = freePagesList s" and "bsz t = bsz s"
  | (fresh) p ps k t va where "freePagesList s = p # ps" and "k \<le> 8"
      and "va = dynAllocStart s + word_of_nat (4096 * p)"
      and "alloc_block gp sz (s, e) = bindE (gp va e) (\<lambda>e1. Inr (Ret va, t, e1))"
      and "got sz s va t" and "freePagesList t = ps"
      and "bsz t = (bsz s)(p := 8 * 2 ^ k)"
  | (wait) k where "alloc_block gp sz (s, e) = Inr (Wait, s\<lparr>blockedVar := 1\<rparr>, e)"
      and "freePagesList s = []" and "k \<le> 8" and "unat sz \<le> 8 * 2 ^ k"
      and "\<And>i. \<lbrakk>k \<le> i; i < 8\<rbrakk> \<Longrightarrow> freeBlockLists s i = []"
      and "freeBlockLists s k = []"
proof -
  have inv: "da_inv s" using wf by (simp add: da_wf_def)
  obtain k where k: "k \<le> 8" "class_loop class_fuel sz 8 0 = Some (8 * 2 ^ k, k)" "unat sz \<le> 8 * 2 ^ k"
    using sz(2) by (rule class_loop_class)
  have nz: "sz \<noteq> 0" using sz(1) by auto
  have start: "alloc_block gp sz (s, e) =
      (if freeBlockLists s k \<noteq> [] then bindE (take_block k s) (\<lambda>(b, s1). Inr (Ret b, s1, e))
       else if freePagesList s \<noteq> [] then
         (let p = hd (freePagesList s); s1 = s\<lparr>freePagesList := tl (freePagesList s)\<rparr>
          in bindE (to_page_va s1 p) (\<lambda>pageVA. bindE (gp pageVA e) (\<lambda>e1.
             bindE (take_block k (split_page k (8 * 2 ^ k) p pageVA s1)) (\<lambda>(b, s2). Inr (Ret b, s2, e1)))))
       else (case find (\<lambda>i. freeBlockLists s i \<noteq> []) [k..<8] of
            Some i \<Rightarrow> bindE (take_block i s) (\<lambda>(b, s1). Inr (Ret b, s1, e))
          | None \<Rightarrow> Inr (Wait, s\<lparr>blockedVar := 1\<rparr>, e)))"
    using sz nz k(2) by (simp add: alloc_block_def not_less [symmetric])
  have reuse_any: thesis
    if "i \<le> 8" "freeBlockLists s i \<noteq> []" "unat sz \<le> 8 * 2 ^ i"
      "alloc_block gp sz (s, e) = bindE (take_block i s) (\<lambda>(b, s1). Inr (Ret b, s1, e))" for i
  proof -
    from that(2) obtain b bs where l: "freeBlockLists s i = b # bs" by (cases "freeBlockLists s i") auto
    show thesis
      using reuse [of b "taken s i b bs"] that got_take_block [OF wf that(1-3)]
        take_block_eq [OF inv that(1) l] by (auto simp: fun_eq_iff)
  qed
  show thesis
  proof (cases "freeBlockLists s k = []")
    case False
    with k start show thesis by (intro reuse_any [of k]) simp_all
  next
    case empty: True
    show thesis
    proof (cases "freePagesList s")
      case (Cons p ps)
      from got_cut [OF wf k(1) empty Cons k(3)] show thesis
        using fresh [OF Cons k(1) refl] start empty Cons to_page_va_free [OF inv Cons]
        by (auto simp: cut_def Let_def fun_eq_iff)
    next
      case Nil
      show thesis
      proof (cases "find (\<lambda>i. freeBlockLists s i \<noteq> []) [k..<8]")
        case None
        have "freeBlockLists s i = []" if "k \<le> i" "i < 8" for i
          using None that by (auto simp: find_None_iff)
        with None show thesis
          using wait [OF _ Nil k(1,3) _ empty] start empty Nil by simp
      next
        case (Some i)
        then have i: "k \<le> i" "i < 8" "freeBlockLists s i \<noteq> []"
          by (auto simp: find_Some_iff in_set_conv_nth)
        then have "(2::nat) ^ k \<le> 2 ^ i" by (intro power_increasing) simp_all
        with k(3) have "unat sz \<le> 8 * 2 ^ i" by linarith
        with i Some start empty Nil show thesis by (intro reuse_any [of i]) simp_all
      qed
    qed
  qed
qed

subsection \<open>Freeing a live block\<close>

text \<open>The two results of \<open>free_block\<close>: the block joins its list, or its page is given back.\<close>

definition put_back :: "dyn_alloc \<Rightarrow> nat \<Rightarrow> u32 \<Rightarrow> dyn_alloc" where
  "put_back s k va = (let p = off s va div 4096; pi = pageBlockInfoArr s p in
     s\<lparr>pageBlockInfoArr := (pageBlockInfoArr s)
         (p := pi\<lparr>num_of_free_blocks := num_of_free_blocks pi + 1\<rparr>),
       freeBlockLists := (freeBlockLists s)(k := freeBlockLists s k @ [va]), blockedVar := 0\<rparr>)"

definition give_back :: "dyn_alloc \<Rightarrow> nat \<Rightarrow> nat \<Rightarrow> dyn_alloc" where
  "give_back s k p =
     s\<lparr>freeBlockLists := (freeBlockLists s)(k := filter (\<lambda>b. \<not> in_page s p b) (freeBlockLists s k)),
       freePagesList := p # freePagesList s,
       pageBlockInfoArr := (pageBlockInfoArr s)(p := \<lparr>block_size = 0, num_of_free_blocks = 0\<rparr>)\<rparr>"

lemma back_simps [simp]:
  "off (put_back s k va) = off s" "npages (put_back s k va) = npages s"
  "layout_ok (put_back s k va) = layout_ok s" "freePagesList (put_back s k va) = freePagesList s"
  "bsz (put_back s k va) i = bsz s i"
  "freeBlockLists (put_back s k va) = (freeBlockLists s)(k := freeBlockLists s k @ [va])"
  "off (give_back s k p) = off s" "npages (give_back s k p) = npages s"
  "layout_ok (give_back s k p) = layout_ok s"
  "freePagesList (give_back s k p) = p # freePagesList s"
  "bsz (give_back s k p) i = (if i = p then 0 else bsz s i)"
  "nfree (give_back s k p) i = (if i = p then 0 else nfree s i)"
  "freeBlockLists (give_back s k p) =
     (freeBlockLists s)(k := filter (\<lambda>b. \<not> in_page s p b) (freeBlockLists s k))"
  by (simp_all add: put_back_def give_back_def Let_def layout_ok_def bsz_def nfree_def)

lemma in_page_range:
  assumes "layout_ok s" and "off s b < 4096 * npages s" and "p < npages s"
  shows "in_page s p b \<longleftrightarrow> dynAllocStart s + word_of_nat p * 4096 \<le> b
     \<and> b < dynAllocStart s + word_of_nat p * 4096 + 4096"
proof -
  have fit: "unat (dynAllocStart s) + 4096 * p + 4096 \<le> unat (dynAllocEnd s)"
    using layout_end [OF assms(1)] assms(3) by simp
  have "unat (word_of_nat p * 4096 :: u32) = 4096 * p"
    using unat_of_nat_u32 [of "4096 * p"] npages_le [OF assms(1)] assms(3) by (simp add: mult.commute)
  then have lo: "unat (dynAllocStart s + word_of_nat p * 4096) = unat (dynAllocStart s) + 4096 * p"
    using fit unat_u32_lt [of "dynAllocEnd s"] by (subst unat_u32_plus) auto
  then have hi: "unat (dynAllocStart s + word_of_nat p * 4096 + 4096) = unat (dynAllocStart s) + 4096 * p + 4096"
    using fit unat_u32_lt [of "dynAllocEnd s"] by (subst unat_u32_plus) auto
  show ?thesis
    unfolding word_le_nat_alt word_less_nat_alt lo hi unat_block [OF assms(1,2)] in_page_def by auto
qed

lemma liveE:
  assumes "va \<in> live s" and "da_wf s"
  obtains k where "k \<le> 8" and "is_block s k va" and "va \<notin> set (freeBlockLists s k)"
    and "off s va div 4096 < npages s" and "nfree s (off s va div 4096) < 512 div 2 ^ k"
    and "nfree s (off s va div 4096) = free_in s k (off s va div 4096)"
proof -
  from assms obtain k where k: "k \<le> 8" "is_block s k va" "va \<notin> set (freeBlockLists s k)"
    by (auto simp: live_def)
  then have p: "off s va div 4096 < npages s" and bp: "bsz s (off s va div 4096) = 8 * 2 ^ k"
    by (auto simp: is_block_def)
  moreover from p bp assms(2) have "nfree s (off s va div 4096) < 4096 div (8 * 2 ^ k)"
    by (force simp: da_wf_def)
  moreover have "nfree s (off s va div 4096) = free_in s k (off s va div 4096)"
    using da_inv_nfree [OF _ p bp] assms(2) by (simp add: da_wf_def)
  ultimately show thesis using that k by simp
qed

lemma free_block_eq:
  assumes wf: "da_wf s" and k: "k \<le> 8" and blk: "is_block s k va"
    and nf: "nfree s (off s va div 4096) < 512 div 2 ^ k"
  shows "free_block rp va (s, e) =
    (if nfree s (off s va div 4096) + 1 = 512 div 2 ^ k
     then bindE (rp (dynAllocStart s + word_of_nat (off s va div 4096) * 4096) e)
            (\<lambda>e1. Inr (give_back s k (off s va div 4096), e1))
     else Inr (put_back s k va, e))"
proof -
  let ?p = "off s va div 4096"
  have inv: "da_inv s" and lay: "layout_ok s" using wf by (auto simp: da_wf_def da_inv_def)
  have o: "off s va < 4096 * npages s" and bp: "bsz s ?p = 8 * 2 ^ k"
    using blk by (auto simp: is_block_def)
  have range: "dynAllocStart s \<le> va" "va < dynAllocEnd s"
    using unat_block [OF lay o] layout_end [OF lay] o
    by (simp_all add: word_le_nat_alt word_less_nat_alt)
  have bw: "(ucast (block_size (pageBlockInfoArr s ?p)) :: u32) = 8 * 2 ^ k"
    using bp k by (simp add: word_unat_eq_iff bsz_def unat_class)
  have nf1: "unat (num_of_free_blocks (pageBlockInfoArr s ?p) + 1) = nfree s ?p + 1"
    using less_le_trans [OF nf div_le_dividend [of 512 "2 ^ k"]]
    by (subst unat_u16_plus_1) (auto simp: nfree_def)
  have full: "((4096 :: u32) div (8 * 2 ^ k) \<le> ucast (num_of_free_blocks (pageBlockInfoArr s ?p) + 1))
      \<longleftrightarrow> nfree s ?p + 1 = 512 div 2 ^ k"
    using nf by (auto simp: word_le_nat_alt unat_blocks_per_page [OF k] nf1)
  have filt: "filter (\<lambda>b. \<not> (dynAllocStart s + word_of_nat ?p * 4096 \<le> b
        \<and> b < dynAllocStart s + word_of_nat ?p * 4096 + 4096)) (freeBlockLists s k)
      = filter (\<lambda>b. \<not> in_page s ?p b) (freeBlockLists s k)"
    using da_inv_blockD [OF inv k] in_page_range [OF lay] o
    by (intro filter_cong) (auto simp: is_block_def)
  have "block_size (pageBlockInfoArr s ?p) \<noteq> 0" using bp by (auto simp: bsz_def)
  then show ?thesis
    using k range
    by (simp add: free_block_def Let_def bw free_class_loop_class full filt put_back_def give_back_def
        del: de_Morgan_conj)
qed

lemma nfree_put_back:
  "nfree s (off s va div 4096) < 512 \<Longrightarrow>
   nfree (put_back s k va) i = (if i = off s va div 4096 then nfree s i + 1 else nfree s i)"
  by (auto simp: put_back_def nfree_def Let_def unat_u16_plus_1)

lemma free_in_put_back:
  "free_in (put_back s k va) j i =
    (if j = k \<and> i = off s va div 4096 then free_in s j i + 1 else free_in s j i)"
proof -
  have "in_page (put_back s k va) = in_page s" by (rule in_page_cong) simp
  then show ?thesis by (auto simp: free_in_def) (simp_all add: in_page_def)
qed

lemma put_back_ok:
  assumes wf: "da_wf s" and k: "k \<le> 8" and blk: "is_block s k va"
    and new: "va \<notin> set (freeBlockLists s k)"
    and nf: "nfree s (off s va div 4096) + 1 < 512 div 2 ^ k"
  shows "da_wf (put_back s k va)" and "live (put_back s k va) = live s - {va}"
proof -
  let ?t = "put_back s k va" and ?p = "off s va div 4096"
  have inv: "da_inv s" using wf by (simp add: da_wf_def)
  have small: "nfree s ?p < 512" using nf div_le_dividend [of 512 "2 ^ k"] by linarith
  have isb: "is_block ?t j b = is_block s j b" for j b by (simp add: is_block_def)
  have "\<exists>j \<le> 8. bsz s i = 8 * 2 ^ j \<and> nfree ?t i = free_in ?t j i"
    if i: "i < npages s" "bsz s i \<noteq> 0" for i
  proof -
    from inv i obtain j where j: "j \<le> 8" "bsz s i = 8 * 2 ^ j" "nfree s i = free_in s j i"
      by (auto simp: da_inv_defs)
    have "i = ?p \<Longrightarrow> j = k" using j(2) blk by (simp add: is_block_def)
    with j show ?thesis
      by (intro exI [of _ j]) (auto simp: nfree_put_back [OF small] free_in_put_back)
  qed
  then have "da_inv ?t" using inv new k blk by (auto simp: da_inv_def pages_ok_def lists_ok_def isb)
  moreover have "nfree ?t i < 4096 div bsz s i" if "i < npages s" "bsz s i \<noteq> 0" for i
    using wf nf that blk by (auto simp: da_wf_def nfree_put_back [OF small] is_block_def)
  ultimately show "da_wf ?t" by (simp add: da_wf_def)
  have "is_block s j va \<Longrightarrow> j = k" for j using blk by (simp add: is_block_def)
  then have "is_block ?t j b \<and> b \<notin> set (freeBlockLists ?t j) \<longleftrightarrow>
      is_block s j b \<and> b \<notin> set (freeBlockLists s j) \<and> b \<noteq> va" for j b
    using new by (auto simp: isb)
  then show "live ?t = live s - {va}" by (auto simp: live_def)
qed

text \<open>When all other blocks of the page are free, nothing else in it is live: a counting argument
  over the slots of the page.\<close>

lemma only_live_in_page:
  assumes wf: "da_wf s" and k: "k \<le> 8" and blk: "is_block s k va"
    and new: "va \<notin> set (freeBlockLists s k)"
    and nf: "nfree s (off s va div 4096) + 1 = 512 div 2 ^ k"
    and b: "is_block s k b" "off s b div 4096 = off s va div 4096" "b \<noteq> va"
  shows "b \<in> set (freeBlockLists s k)"
proof -
  let ?p = "off s va div 4096"
  have inv: "da_inv s" and lay: "layout_ok s" using wf by (auto simp: da_wf_def da_inv_def)
  have p: "?p < npages s" "?p < 8192" "bsz s ?p = 8 * 2 ^ k"
    using blk npages_le [OF lay] by (auto simp: is_block_def)
  define slots where
    "slots = set (split_blocks (dynAllocStart s + word_of_nat (4096 * ?p)) (8 * 2 ^ k) (512 div 2 ^ k))"
  have mem: "x \<in> slots \<longleftrightarrow> off s x div 4096 = ?p \<and> 8 * 2 ^ k dvd off s x" for x
    unfolding slots_def by (rule split_blocks_mem [OF p(2) k refl])
  have card: "card slots = 512 div 2 ^ k"
    unfolding slots_def using distinct_split_blocks [OF p(2) k, of s]
    by (simp add: distinct_card) (simp add: split_blocks_def)
  let ?F = "set (filter (in_page s ?p) (freeBlockLists s k))"
  have dist: "distinct (freeBlockLists s k)" using inv k by (simp add: da_inv_def lists_ok_def)
  have cF: "card ?F = nfree s ?p"
    using dist da_inv_nfree [OF inv p(1,3)] by (simp only: distinct_card distinct_filter free_in_def)
  have sub: "?F \<subseteq> slots - {va}"
    using da_inv_blockD [OF inv k] new by (auto simp: mem is_block_def in_page_def)
  have va: "va \<in> slots" using blk by (simp add: mem is_block_def)
  then have "card (slots - {va}) = card ?F"
    using card cF nf by (simp add: slots_def)
  then have "?F = slots - {va}" using sub by (intro card_subset_eq) (simp_all add: slots_def)
  then show ?thesis using b mem [of b] by (auto simp: is_block_def)
qed

lemma give_back_ok:
  assumes wf: "da_wf s" and k: "k \<le> 8" and blk: "is_block s k va"
    and new: "va \<notin> set (freeBlockLists s k)"
    and nf: "nfree s (off s va div 4096) + 1 = 512 div 2 ^ k"
  shows "da_wf (give_back s k (off s va div 4096))"
    and "live (give_back s k (off s va div 4096)) = live s - {va}"
proof -
  let ?p = "off s va div 4096"
  let ?t = "give_back s k ?p"
  have inv: "da_inv s" using wf by (simp add: da_wf_def)
  have p: "?p < npages s" "bsz s ?p = 8 * 2 ^ k" using blk by (auto simp: is_block_def)
  have isb: "is_block ?t j b \<longleftrightarrow> is_block s j b \<and> off s b div 4096 \<noteq> ?p" for j b
    by (auto simp: is_block_def)
  have page: "in_page ?t = in_page s" by (rule in_page_cong) simp
  have fin: "i \<noteq> ?p \<Longrightarrow> free_in ?t j i = free_in s j i" for i j
    by (auto simp: free_in_def page in_page_def intro!: arg_cong [where f = length] filter_cong)
  have "?p \<notin> set (freePagesList s)" using inv p by (auto simp: da_inv_def pages_ok_def)
  moreover have "\<exists>j \<le> 8. bsz s i = 8 * 2 ^ j \<and> nfree s i = free_in ?t j i"
    if "i < npages s" "bsz s i \<noteq> 0" "i \<noteq> ?p" for i
    using inv that by (auto simp: da_inv_defs fin)
  ultimately have "pages_ok ?t"
    using inv p by (auto simp: da_inv_def pages_ok_def)
  moreover have cls: "is_block s j b \<Longrightarrow> off s b div 4096 = ?p \<Longrightarrow> j = k" for j b
    using p(2) by (simp add: is_block_def)
  then have "lists_ok ?t"
    using inv by (auto simp: da_inv_def lists_ok_def isb in_page_def)
  ultimately have "da_inv ?t" using inv by (simp add: da_inv_def)
  then show "da_wf ?t" using wf by (auto simp: da_wf_def)
  have "is_block ?t j b \<and> b \<notin> set (freeBlockLists ?t j) \<longleftrightarrow>
      is_block s j b \<and> b \<notin> set (freeBlockLists s j) \<and> b \<noteq> va" for j b
    using cls [of j b] only_live_in_page [OF assms, of b] new
    by (cases "j = k") (auto simp: isb in_page_def)
  then show "live ?t = live s - {va}" by (auto simp: live_def)
qed

lemma put_back_bounds:
  "dynAllocStart (put_back s k va) = dynAllocStart s" "dynAllocEnd (put_back s k va) = dynAllocEnd s"
  by (simp_all add: put_back_def Let_def)

lemma give_back_bounds:
  "dynAllocStart (give_back s k p) = dynAllocStart s" "dynAllocEnd (give_back s k p) = dynAllocEnd s"
  by (simp_all add: give_back_def)

lemma free_block_ok:
  assumes "da_wf s" and "va \<in> live s" and "free_block rp va (s, e) = Inr (t, e')"
  shows "da_wf t" and "live t = live s - {va}"
    and "dynAllocStart t = dynAllocStart s" and "dynAllocEnd t = dynAllocEnd s"
proof -
  from assms(2,1) obtain k where k: "k \<le> 8" "is_block s k va" "va \<notin> set (freeBlockLists s k)"
    and nf: "nfree s (off s va div 4096) < 512 div 2 ^ k" by (rule liveE)
  note eq = free_block_eq [OF assms(1) k(1,2) nf, of rp e]
  have "t = give_back s k (off s va div 4096) \<and> nfree s (off s va div 4096) + 1 = 512 div 2 ^ k
      \<or> t = put_back s k va \<and> nfree s (off s va div 4096) + 1 < 512 div 2 ^ k"
    using assms(3) nf unfolding eq by (auto split: if_splits)
  then consider (page) "t = give_back s k (off s va div 4096)" "nfree s (off s va div 4096) + 1 = 512 div 2 ^ k"
    | (block) "t = put_back s k va" "nfree s (off s va div 4096) + 1 < 512 div 2 ^ k"
    by blast
  then have "da_wf t \<and> live t = live s - {va} \<and> dynAllocStart t = dynAllocStart s
      \<and> dynAllocEnd t = dynAllocEnd s"
  proof cases
    case page
    with give_back_ok [OF assms(1) k] show ?thesis by (simp add: give_back_bounds)
  next
    case block
    with put_back_ok [OF assms(1) k] show ?thesis by (simp add: put_back_bounds)
  qed
  then show "da_wf t" "live t = live s - {va}"
    "dynAllocStart t = dynAllocStart s" "dynAllocEnd t = dynAllocEnd s"
    by blast+
qed

text \<open>The size recorded for another live block does not change.\<close>

lemma free_block_keeps_size:
  assumes "da_wf s" and "va \<in> live s" and "free_block rp va (s, e) = Inr (t, e')"
    and "b \<in> live s" and "b \<noteq> va"
  shows "get_block_size t b = get_block_size s b"
proof -
  from assms(2,1) obtain k where k: "k \<le> 8" "is_block s k va" "va \<notin> set (freeBlockLists s k)"
    and nf: "nfree s (off s va div 4096) < 512 div 2 ^ k" by (rule liveE)
  have "b \<in> live t" using free_block_ok(2) [OF assms(1-3)] assms(4,5) by simp
  then have "bsz t (off t b div 4096) \<noteq> 0" by (auto simp: live_def is_block_def)
  then have "off s b div 4096 \<noteq> off s va div 4096 \<or> t = put_back s k va"
    using assms(3) unfolding free_block_eq [OF assms(1) k(1,2) nf] by (auto split: if_splits)
  then have "bsz t (off t b div 4096) = bsz s (off s b div 4096)"
    using assms(3) unfolding free_block_eq [OF assms(1) k(1,2) nf] by (auto split: if_splits)
  then show ?thesis by (simp add: word_unat_eq_iff get_block_size_nat)
qed

subsection \<open>Initialisation\<close>

lemma init_pages_result:
  "init_pages is s = s\<lparr>pageBlockInfoArr := (\<lambda>i. if i \<in> set is
       then \<lparr>block_size = 0, num_of_free_blocks = 0\<rparr> else pageBlockInfoArr s i),
     freePagesList := freePagesList s @ is\<rparr>"
  by (induction "is" arbitrary: s) (auto intro!: arg_cong2 [where f = "\<lambda>a b. _\<lparr>pageBlockInfoArr := a, freePagesList := b\<rparr>"])

lemma initialize_ok:
  assumes "layout_ok (s\<lparr>dynAllocStart := a, dynAllocEnd := b\<rparr>)"
    and "unat a + 33554432 < 4294967296"
  shows "\<exists>t. initialize_dynamic_allocator a b s = Inr t \<and> da_wf t \<and> live t = {}
     \<and> dynAllocStart t = a \<and> dynAllocEnd t = b \<and> blockedVar t = blockedVar s \<and> freePagesList t = [0..<npages t]"
proof -
  let ?n = "unat (b - a) div 4096"
  have le: "a \<le> b" "unat b - unat a \<le> 33554432" using assms(1) by (auto simp: layout_ok_def)
  have "unat (a + 33554432) = unat a + 33554432" using assms(2) by (subst unat_u32_plus) auto
  then have "b \<le> a + 33554432" using le by (simp add: word_le_nat_alt)
  then obtain t where t: "initialize_dynamic_allocator a b s = Inr t"
    and f: "dynAllocStart t = a" "dynAllocEnd t = b" "freePagesList t = [0..<?n]" "blockedVar t = blockedVar s"
      "\<And>i. i < ?n \<Longrightarrow> pageBlockInfoArr t i = \<lparr>block_size = 0, num_of_free_blocks = 0\<rparr>"
      "\<And>k. k \<le> 8 \<Longrightarrow> freeBlockLists t k = []"
    by (simp add: initialize_dynamic_allocator_def init_pages_result unat_div_distrib Let_def)
  have n: "npages t = ?n" by (simp add: npages_def f)
  moreover have "layout_ok t" using assms(1) by (simp add: layout_ok_def f)
  ultimately have "da_wf t \<and> live t = {}"
    using f by (auto simp: da_wf_def da_inv_def pages_ok_def lists_ok_def bsz_def live_def is_block_def)
  with t f n show ?thesis by auto
qed

subsection \<open>Blocks do not overlap\<close>






section \<open>The page allocator below\<close>

text \<open>
  What the allocator relies on: \<open>get_page\<close> backs the page at the given address with memory and
  \<open>return_page\<close> takes the memory away, leaving the other pages alone.  Under that contract a page
  is backed exactly while it is cut into blocks, so every block handed out is backed.
\<close>

definition page_at :: "dyn_alloc \<Rightarrow> nat \<Rightarrow> u32" where
  "page_at s i = dynAllocStart s + word_of_nat (4096 * i)"

definition da_consistent ::
  "('e \<Rightarrow> bool) \<Rightarrow> ('e \<Rightarrow> u32 \<Rightarrow> bool) \<Rightarrow> (u32 \<Rightarrow> bool) \<Rightarrow> dyn_alloc \<times> 'e \<Rightarrow> bool" where
  "da_consistent env_ok backed in_range = (\<lambda>(s, e). da_wf s \<and> env_ok e
     \<and> (\<forall>i < npages s. backed e (page_at s i) \<longleftrightarrow> bsz s i \<noteq> 0)
     \<and> (\<forall>i < npages s. in_range (page_at s i)))"

lemma page_at_aligned:
  assumes "layout_ok s" and "i < npages s"
  shows "4096 dvd unat (page_at s i)" and "unat (page_at s i) = unat (dynAllocStart s) + 4096 * i"
proof -
  have "off s (page_at s i) = 4096 * i"
    using assms npages_le [OF assms(1)] unat_of_nat_u32 [of "4096 * i"]
    unfolding page_at_def off_start by simp
  then show "unat (page_at s i) = unat (dynAllocStart s) + 4096 * i"
    using unat_block [OF assms(1)] assms(2) by simp
  then show "4096 dvd unat (page_at s i)"
    using assms(1) by (simp add: layout_ok_def)
qed

lemma page_at_inj:
  "\<lbrakk>layout_ok s; i < npages s; j < npages s; page_at s i = page_at s j\<rbrakk> \<Longrightarrow> i = j"
  using page_at_aligned(2) [of s i] page_at_aligned(2) [of s j] by (metis add_left_cancel mult_cancel1 zero_neq_numeral)

lemma blockedVar_frame [simp]:
  "da_wf (s\<lparr>blockedVar := v\<rparr>) = da_wf s" "live (s\<lparr>blockedVar := v\<rparr>) = live s"
  "page_at (s\<lparr>blockedVar := v\<rparr>) = page_at s" "bsz (s\<lparr>blockedVar := v\<rparr>) = bsz s"
proof -
  let ?t = "s\<lparr>blockedVar := v\<rparr>"
  have page: "in_page ?t = in_page s" by (rule in_page_cong) simp
  show b: "bsz ?t = bsz s" by (simp add: bsz_def fun_eq_iff)
  have i: "is_block ?t = is_block s" by (simp add: is_block_def b fun_eq_iff)
  have n: "nfree ?t = nfree s" and f: "free_in ?t = free_in s"
    by (simp_all add: nfree_def free_in_def page fun_eq_iff)
  show "da_wf ?t = da_wf s" by (simp add: da_wf_def da_inv_def pages_ok_def lists_ok_def b i n f)
  show "live ?t = live s" by (simp add: live_def i)
  show "page_at ?t = page_at s" by (simp add: page_at_def fun_eq_iff)
qed

locale page_provider =
  fixes get_page :: "u32 \<Rightarrow> 'e \<Rightarrow> 'e res" and return_page :: "u32 \<Rightarrow> 'e \<Rightarrow> 'e res"
    and env_ok :: "'e \<Rightarrow> bool" and backed :: "'e \<Rightarrow> u32 \<Rightarrow> bool" and in_range :: "u32 \<Rightarrow> bool"
  assumes get_page_ok:
      "\<lbrakk>env_ok e; \<not> backed e va; in_range va; get_page va e = Inr e'\<rbrakk> \<Longrightarrow>
       env_ok e' \<and> (\<forall>x. in_range x \<longrightarrow> backed e' x = (x = va \<or> backed e x))"
    and return_page_ok:
      "\<lbrakk>env_ok e; backed e va; in_range va; return_page va e = Inr e'\<rbrakk> \<Longrightarrow>
       env_ok e' \<and> (\<forall>x. in_range x \<longrightarrow> backed e' x = (x \<noteq> va \<and> backed e x))"
begin

lemma alloc_block_consistent:
  assumes c: "da_consistent env_ok backed in_range (s, e)" and sz: "0 < sz" "sz \<le> 2048"
    and r: "alloc_block get_page sz (s, e) = Inr (r, t, e')"
  shows "da_consistent env_ok backed in_range (t, e')"
proof -
  have wf: "da_wf s" and ok: "env_ok e" and lay: "layout_ok s"
    using c by (auto simp: da_consistent_def da_wf_def da_inv_def)
  have rng: "in_range (page_at s i)" if "i < npages s" for i using c that by (simp add: da_consistent_def)
  have at: "page_at t = page_at s" "npages t = npages s" if "got sz s b t" for b
    using that by (auto simp: got_def page_at_def npages_def fun_eq_iff)
  from wf sz show ?thesis
  proof (cases rule: alloc_block_cases [where gp = get_page and e = e])
    case (reuse b u)
    with r c at show ?thesis by (auto simp: da_consistent_def got_def)
  next
    case (fresh p ps k u va)
    with r obtain e1 where e1: "get_page va e = Inr e1" and tu: "t = u" "e' = e1" by auto
    have p: "p < npages s" "bsz s p = 0"
      using wf fresh(1) by (auto simp: da_wf_def da_inv_def pages_ok_def)
    have va: "va = page_at s p" using fresh(3) by (simp add: page_at_def)
    have "\<not> backed e va" using c p va by (simp add: da_consistent_def)
    with get_page_ok [OF ok _ _ e1] rng [OF p(1)] va
    have "env_ok e1" and b: "\<And>x. in_range x \<Longrightarrow> backed e1 x = (x = va \<or> backed e x)" by auto
    moreover have "backed e1 (page_at s i) \<longleftrightarrow> bsz u i \<noteq> 0" if "i < npages s" for i
      using b [OF rng [OF that]] that c fresh(7) p va page_at_inj [OF lay that p(1)]
      by (auto simp: da_consistent_def)
    ultimately show ?thesis
      using fresh at tu rng by (auto simp: da_consistent_def got_def)
  next
    case (wait k)
    with r c show ?thesis by (auto simp: da_consistent_def)
  qed
qed

lemma free_block_consistent:
  assumes c: "da_consistent env_ok backed in_range (s, e)" and l: "va \<in> live s"
    and r: "free_block return_page va (s, e) = Inr (t, e')"
  shows "da_consistent env_ok backed in_range (t, e')"
proof -
  have wf: "da_wf s" and ok: "env_ok e" and lay: "layout_ok s"
    using c by (auto simp: da_consistent_def da_wf_def da_inv_def)
  from l wf obtain k where k: "k \<le> 8" "is_block s k va" "va \<notin> set (freeBlockLists s k)"
    and p: "off s va div 4096 < npages s"
    and nf: "nfree s (off s va div 4096) < 512 div 2 ^ k" by (rule liveE)
  have rng: "in_range (page_at s i)" if "i < npages s" for i using c that by (simp add: da_consistent_def)
  note eq = free_block_eq [OF wf k(1,2) nf, of return_page e]
  have wft: "da_wf t" using free_block_ok [OF wf l r] by blast
  have at: "page_at (give_back s k i) = page_at s" "page_at (put_back s k va) = page_at s" for i
    by (auto simp: page_at_def give_back_bounds put_back_bounds fun_eq_iff)
  let ?p = "off s va div 4096"
  show ?thesis
  proof (cases "nfree s ?p + 1 = 512 div 2 ^ k")
    case True
    have va: "dynAllocStart s + word_of_nat ?p * 4096 = page_at s ?p"
      by (simp add: page_at_def mult.commute)
    from True r obtain e1 where e1: "return_page (page_at s ?p) e = Inr e1"
      and tu: "t = give_back s k ?p" "e' = e1" unfolding eq va by auto
    have "backed e (page_at s ?p)" using c p k by (simp add: da_consistent_def is_block_def)
    with return_page_ok [OF ok _ _ e1] rng [OF p]
    have "env_ok e1" and b: "\<And>x. in_range x \<Longrightarrow> backed e1 x = (x \<noteq> page_at s ?p \<and> backed e x)" by auto
    moreover have "backed e1 (page_at s i) \<longleftrightarrow> bsz t i \<noteq> 0" if "i < npages s" for i
      using b [OF rng [OF that]] that c tu page_at_inj [OF lay that p]
      by (auto simp: da_consistent_def)
    ultimately show ?thesis using wft tu at rng by (auto simp: da_consistent_def)
  next
    case False
    with r have "t = put_back s k va" "e' = e" unfolding eq by simp_all
    with c wft at show ?thesis by (auto simp: da_consistent_def)
  qed
qed

end

section \<open>Properties of the block allocator\<close>

text \<open>A small allocator range of two pages, used to instantiate the properties.\<close>

definition da_example :: dyn_alloc where
  "da_example = \<lparr>dynAllocStart = 0xF6000000, dynAllocEnd = 0xF6002000,
     pageBlockInfoArr = (\<lambda>_. \<lparr>block_size = 0, num_of_free_blocks = 0\<rparr>),
     freePagesList = [0, 1], freeBlockLists = (\<lambda>_. []), blockedVar = 0\<rparr>"

definition page_ok_stub :: "u32 \<Rightarrow> unit \<Rightarrow> unit res" where
  "page_ok_stub va e = Inr e"

lemma da_example_wf: "da_wf da_example"
proof -
  have "npages da_example = 2" by (simp add: npages_def da_example_def)
  then show ?thesis
    by (auto simp: da_wf_def da_inv_def layout_ok_def pages_ok_def lists_ok_def bsz_def da_example_def)
qed

lemma class_loop_100: "class_loop class_fuel 100 8 0 = Some (128, 4)"
  by code_simp

text \<open>The first allocation of 100 bytes in the example: the first page is cut into blocks of 128.\<close>

definition da_example_1 :: dyn_alloc where
  "da_example_1 = (case take_block 4 (split_page 4 128 0 0xF6000000 (da_example\<lparr>freePagesList := [1]\<rparr>)) of
     Inr (b, t) \<Rightarrow> t | Inl _ \<Rightarrow> da_example)"

lemma da_example_alloc:
  "alloc_block page_ok_stub 100 (da_example, ()) = Inr (Ret 0xF6000000, da_example_1, ())"
  by (simp add: alloc_block_def class_loop_100 da_example_def da_example_1_def to_page_va_def page_ok_stub_def
      take_block_def split_page_def split_blocks_def to_page_info_def Let_def upt_conv_Cons)

text \<open>Claim C8.  From a well-formed allocator a successful request for between 1 and 2048 bytes
  returns a non-null block that was not live before, is live now, is at least as large as asked,
  and leaves the allocator well-formed with exactly that block added to the live ones.\<close>

theorem alloc_block_fresh:
  assumes "da_wf s" and "0 < sz" and "sz \<le> 2048"
    and "alloc_block gp sz (s, e) = Inr (Ret b, t, e')"
  shows "da_wf t \<and> b \<noteq> 0 \<and> b \<notin> live s \<and> live t = insert b (live s) \<and> sz \<le> get_block_size t b"
  using assms(1-3)
proof (cases rule: alloc_block_cases [where gp = gp and e = e])
  case (fresh p ps k u va)
  with assms(4) show ?thesis by (auto simp: got_def)
qed (use assms(4) in \<open>auto simp: got_def\<close>)

theorem alloc_block_fresh_witness:
  "da_wf da_example_1 \<and> (0xF6000000 :: u32) \<noteq> 0 \<and> 0xF6000000 \<notin> live da_example
   \<and> live da_example_1 = insert 0xF6000000 (live da_example)
   \<and> 100 \<le> get_block_size da_example_1 0xF6000000"
  by (rule alloc_block_fresh [OF da_example_wf _ _ da_example_alloc]) simp_all

lemma da_example_1_wf: "da_wf da_example_1" and da_example_1_live: "0xF6000000 \<in> live da_example_1"
  using da_example_alloc da_example_wf
  by (auto elim!: alloc_block_cases [where sz = 100 and s = da_example and gp = page_ok_stub and e = "()"]
      simp: got_def page_ok_stub_def)

lemma da_example_1_eq:
  "off da_example_1 0xF6000000 = 0" "nfree da_example_1 0 = 31" "bsz da_example_1 0 = 128"
  "npages da_example_1 = 2" "dynAllocStart da_example_1 = 0xF6000000"
  by (simp_all add: da_example_1_def da_example_def take_block_def split_page_def split_blocks_def
      to_page_info_def Let_def upt_conv_Cons off_def nfree_def bsz_def npages_def)

lemma da_example_free:
  "free_block page_ok_stub 0xF6000000 (da_example_1, ()) = Inr (give_back da_example_1 4 0, ())"
  using free_block_eq [OF da_example_1_wf, of 4 "0xF6000000" page_ok_stub "()"]
  by (simp add: is_block_def da_example_1_eq page_ok_stub_def)

lemma if_Inr_pair: "\<exists>t e. (if P then Inr (a, b) else Inr (c, d)) = Inr (t, e)"
  by simp

lemma free_block_total:
  assumes "da_wf s" and "va \<in> live s" and "\<And>p. \<exists>e'. rp p e = Inr e'"
  shows "\<exists>t e'. free_block rp va (s, e) = Inr (t, e') \<and> da_wf t \<and> live t = live s - {va}"
proof -
  from assms(2,1) obtain k where k: "k \<le> 8" "is_block s k va" "va \<notin> set (freeBlockLists s k)"
    and nf: "nfree s (off s va div 4096) < 512 div 2 ^ k" by (rule liveE)
  obtain e' where rp: "rp (dynAllocStart s + word_of_nat (off s va div 4096) * 4096) e = Inr e'"
    using assms(3) by blast
  have "\<exists>t e'. free_block rp va (s, e) = Inr (t, e')"
    unfolding free_block_eq [OF assms(1) k(1,2) nf] rp bindE.simps by (rule if_Inr_pair)
  then obtain t e'' where "free_block rp va (s, e) = Inr (t, e'')" by (elim exE)
  with free_block_ok(1,2) [OF assms(1,2) this] show ?thesis by (intro exI conjI)
qed

text \<open>Claim C9.  Freeing a live block succeeds whenever the page allocator below takes the page
  back, and removes exactly that block from the live ones; the allocator stays well-formed.\<close>

theorem free_block_removes:
  assumes "da_wf s" and "va \<in> live s" and "\<And>p. \<exists>e'. rp p e = Inr e'"
  shows "\<exists>t e'. free_block rp va (s, e) = Inr (t, e') \<and> da_wf t \<and> live t = live s - {va}"
  by (rule free_block_total [OF assms(1,2), of rp e, OF assms(3)])

theorem free_block_removes_witness:
  "\<exists>t e'. free_block page_ok_stub 0xF6000000 (da_example_1, ()) = Inr (t, e') \<and> da_wf t
     \<and> live t = live da_example_1 - {0xF6000000}"
  by (rule free_block_removes [OF da_example_1_wf da_example_1_live]) (simp add: page_ok_stub_def)




lemma alloc_block_total:
  assumes "da_wf s" and "0 < sz" and "sz \<le> 2048" and "\<And>va. \<exists>e'. gp va e = Inr e'"
  shows "(\<exists>b t e'. alloc_block gp sz (s, e) = Inr (Ret b, t, e'))
     \<or> (alloc_block gp sz (s, e) = Inr (Wait, s\<lparr>blockedVar := 1\<rparr>, e) \<and> freePagesList s = []
        \<and> (\<exists>k \<le> 8. unat sz \<le> 8 * 2 ^ k \<and> freeBlockLists s k = []))"
  using assms(1-3)
proof (cases rule: alloc_block_cases [where gp = gp and e = e])
  case (fresh p ps k u va)
  with assms(4) [of va] show ?thesis by auto
qed auto



text \<open>Growing a live block trades it for another one: the address that is
  returned was not live before, the old block is given up, no other block is touched, and the
  new block is at least as large as asked.\<close>

theorem realloc_block_spec:
  assumes "da_wf s" and "va \<in> live s" and "get_block_size s va < sz" and "sz \<le> 2048"
    and "realloc_block gp rp cp va sz (s, e) = Inr (Ret b, t, e')"
  shows "da_wf t \<and> b \<notin> live s \<and> live t = insert b (live s - {va}) \<and> sz \<le> get_block_size t b"
proof -
  have lay: "layout_ok s" using assms(1) by (simp add: da_wf_def da_inv_def)
  have va: "va \<noteq> 0" using assms(2) layout_not_null [OF lay] by (auto simp: live_def is_block_def)
  have sz: "0 < sz" using assms(3) by (simp add: word_less_nat_alt)
  with va assms(3,5) obtain u e1 where u: "alloc_block gp sz (s, e) = Inr (Ret b, u, e1)"
    and f: "free_block rp va (u, cp b va (get_block_size s va) e1) = Inr (t, e')"
    by (auto simp: realloc_block_def Let_def not_less [symmetric] split: alloc_ret.splits if_splits)
  have g: "da_wf u \<and> b \<noteq> 0 \<and> b \<notin> live s \<and> live u = insert b (live s) \<and> sz \<le> get_block_size u b"
    using assms(1) sz assms(4)
  proof (cases rule: alloc_block_cases [where gp = gp and e = e])
    case (fresh p ps k w x)
    with u show ?thesis by (auto simp: got_def)
  qed (use u in \<open>auto simp: got_def\<close>)
  then have "va \<in> live u" using assms(2) by simp
  note fr = free_block_ok [OF conjunct1 [OF g] this f]
  have "get_block_size t b = get_block_size u b"
    by (rule free_block_keeps_size [OF conjunct1 [OF g] \<open>va \<in> live u\<close> f]) (use g assms(2) in auto)
  then show ?thesis using g fr assms(2) by auto
qed

lemma realloc_block_grow:
  assumes "da_wf s" and "va \<in> live s" and "get_block_size s va < sz" and "sz \<le> 2048"
    and "\<And>va e. \<exists>e'. gp va e = Inr e'" and "\<And>p e. \<exists>e'. rp p e = Inr e'" and "freePagesList s \<noteq> []"
  shows "\<exists>b t e'. realloc_block gp rp cp va sz (s, e) = Inr (Ret b, t, e')"
proof -
  have lay: "layout_ok s" using assms(1) by (simp add: da_wf_def da_inv_def)
  have va: "va \<noteq> 0" using assms(2) layout_not_null [OF lay] by (auto simp: live_def is_block_def)
  have sz: "0 < sz" using assms(3) by (simp add: word_less_nat_alt)
  obtain b u e1 where u: "alloc_block gp sz (s, e) = Inr (Ret b, u, e1)"
    using alloc_block_total [OF assms(1) sz assms(4), of gp e] assms(5,7) by blast
  have g: "da_wf u \<and> live u = insert b (live s)"
    using assms(1) sz assms(4)
  proof (cases rule: alloc_block_cases [where gp = gp and e = e])
    case (fresh p ps k w x)
    with u show ?thesis by (auto simp: got_def)
  qed (use u in \<open>auto simp: got_def\<close>)
  then have l: "va \<in> live u" using assms(2) by simp
  obtain t e2 where f: "free_block rp va (u, cp b va (get_block_size s va) e1) = Inr (t, e2)"
    using free_block_total [OF conjunct1 [OF g] l, of rp "cp b va (get_block_size s va) e1", OF assms(6)]
    by (elim exE conjE)
  have "b \<noteq> 0"
    using g layout_not_null [of u b] by (auto simp: live_def is_block_def da_wf_def da_inv_def)
  moreover have "sz \<noteq> 0" using sz by auto
  ultimately show ?thesis
    using va assms(3) u f by (simp add: realloc_block_def Let_def not_less [symmetric])
qed

theorem realloc_block_spec_witness:
  "\<exists>b t. realloc_block page_ok_stub page_ok_stub (\<lambda>_ _ _ e. e) 0xF6000000 200 (da_example_1, ()) = Inr (Ret b, t, ())
     \<and> da_wf t \<and> b \<notin> live da_example_1 \<and> live t = insert b (live da_example_1 - {0xF6000000})
     \<and> 200 \<le> get_block_size t b"
proof -
  have sz: "get_block_size da_example_1 0xF6000000 < 200"
    using da_example_1_eq(3) by (simp add: get_block_size_def page_index_def da_example_1_eq bsz_def word_less_nat_alt)
  have ne: "freePagesList da_example_1 \<noteq> []"
    by (simp add: da_example_1_def da_example_def take_block_def split_page_def split_blocks_def
        to_page_info_def Let_def upt_conv_Cons)
  obtain b t e where r: "realloc_block page_ok_stub page_ok_stub (\<lambda>_ _ _ e. e) 0xF6000000 200 (da_example_1, ())
      = Inr (Ret b, t, e)"
    using realloc_block_grow [OF da_example_1_wf da_example_1_live sz, of page_ok_stub page_ok_stub
        "\<lambda>_ _ _ e. e" "()"] ne by (simp add: page_ok_stub_def) (elim exE)
  show ?thesis
    using realloc_block_spec [OF da_example_1_wf da_example_1_live sz _ r] r by auto
qed

end
