(* ===== verification/FOS_Frames.thy ===== *)
theory FOS_Frames
  imports FOS_Mmu FOS_Spinlock
begin

text \<open>
  Physical frames and page tables: \<^verbatim>\<open>kern/mem/memory_manager.c\<close> with the inline helpers of
  \<^verbatim>\<open>memory_manager.h\<close>, and the frame-to-heap translation \<open>kheap_virtual_address\<close> of
  \<^verbatim>\<open>kern/mem/kheap.c\<close> on which the lookup of a user page table rests.

  A \<open>FrameInfo\<close> pointer is the index of its element in \<open>frames_info\<close>, and the free list is the
  list of these indices (\<open>FOS_Queue\<close> justifies reading the intrusive lists this way).  A page
  directory or page table is named by the kernel virtual address of its page, and \<open>mem p i\<close> is
  the \<open>i\<close>-th 32-bit entry of the page at \<open>p\<close>; an access through the null pointer is a \<open>Fault\<close>.
  The translation cache is not modelled, so \<open>tlb_invalidate\<close> and \<open>tlbflush\<close> do nothing here.
  The state is an extensible record: the kernel heap and the environments add their own fields.
\<close>

section \<open>State\<close>

record FrameInfo =
  fi_va :: u32
  references :: u16
  fi_size :: u32
  fi_proc :: "nat option"
  isBuffered :: u8

record kmem =
  kcpu :: cpu
  mfllock :: kspinlock
  heap_lock :: kspinlock
  number_of_frames :: u32
  frames_info :: "nat \<Rightarrow> FrameInfo"
  free_frame_list :: "nat list"
  modified_frame_list :: "nat list"
  ptr_page_directory :: u32
  mem :: "u32 \<Rightarrow> nat \<Rightarrow> u32"

definition null_frame_info :: FrameInfo where
  "null_frame_info = \<lparr>fi_va = 0, references = 0, fi_size = 0, fi_proc = None, isBuffered = 0\<rparr>"

definition set_frame :: "nat \<Rightarrow> FrameInfo \<Rightarrow> 'a kmem_scheme \<Rightarrow> 'a kmem_scheme" where
  "set_frame f i s = s\<lparr>frames_info := (frames_info s)(f := i)\<rparr>"

section \<open>Words of a directory or table\<close>

definition load :: "u32 \<Rightarrow> u32 \<Rightarrow> 'a kmem_scheme \<Rightarrow> u32 res" where
  "load p i s = (if p = 0 then Inl Fault else Inr (mem s p (unat i)))"

definition store :: "u32 \<Rightarrow> u32 \<Rightarrow> u32 \<Rightarrow> 'a kmem_scheme \<Rightarrow> 'a kmem_scheme res" where
  "store p i v s = (if p = 0 then Inl Fault
     else Inr (s\<lparr>mem := (mem s)(p := (mem s p)(unat i := v))\<rparr>))"

section \<open>The two locks\<close>

definition mfl_enter :: "'a kmem_scheme \<Rightarrow> (bool \<times> 'a kmem_scheme) res" where
  "mfl_enter s = bindE (holding_kspinlock (kcpu s) (mfllock s)) (\<lambda>(held, c).
     if held then Inr (True, s\<lparr>kcpu := c\<rparr>)
     else bindE (acquire_kspinlock (c, mfllock s)) (\<lambda>(c1, lk). Inr (False, s\<lparr>kcpu := c1, mfllock := lk\<rparr>)))"

definition mfl_leave :: "bool \<Rightarrow> 'a kmem_scheme \<Rightarrow> 'a kmem_scheme res" where
  "mfl_leave lock_already_held s = (if lock_already_held then Inr s
     else bindE (release_kspinlock (kcpu s, mfllock s)) (\<lambda>(c, lk). Inr (s\<lparr>kcpu := c, mfllock := lk\<rparr>)))"

definition heap_acquire :: "'a kmem_scheme \<Rightarrow> 'a kmem_scheme res" where
  "heap_acquire s = bindE (acquire_kspinlock (kcpu s, heap_lock s)) (\<lambda>(c, lk).
     Inr (s\<lparr>kcpu := c, heap_lock := lk\<rparr>))"

definition heap_release :: "'a kmem_scheme \<Rightarrow> 'a kmem_scheme res" where
  "heap_release s = bindE (release_kspinlock (kcpu s, heap_lock s)) (\<lambda>(c, lk).
     Inr (s\<lparr>kcpu := c, heap_lock := lk\<rparr>))"

section \<open>Frames\<close>

definition to_physical_address :: "nat \<Rightarrow> u32" where
  "to_physical_address f = push_bit 12 (word_of_nat f)"

definition to_frame_info :: "u32 \<Rightarrow> 'a kmem_scheme \<Rightarrow> nat res" where
  "to_frame_info pa s = (if number_of_frames s \<le> PPN pa then Inl (Panic ''to_frame_info called with invalid pa'')
     else Inr (unat (PPN pa)))"

definition STATIC_KERNEL_PHYSICAL_ADDRESS :: "u32 \<Rightarrow> u32 res" where
  "STATIC_KERNEL_PHYSICAL_ADDRESS kva =
     (if kva < KERNEL_BASE then Inl (Panic ''K_PHYSICAL_ADDRESS called with invalid kva'')
      else Inr (kva - KERNEL_BASE))"

definition STATIC_KERNEL_VIRTUAL_ADDRESS :: "u32 \<Rightarrow> 'a kmem_scheme \<Rightarrow> u32 res" where
  "STATIC_KERNEL_VIRTUAL_ADDRESS pa s =
     (if number_of_frames s \<le> PPN pa then Inl (Panic ''K_VIRTUAL_ADDRESS called with invalid pa'')
      else Inr (pa + KERNEL_BASE))"

definition initialize_frame_info :: "nat \<Rightarrow> 'a kmem_scheme \<Rightarrow> 'a kmem_scheme" where
  "initialize_frame_info f s = set_frame f null_frame_info s"

fun mark_used :: "nat list \<Rightarrow> 'a kmem_scheme \<Rightarrow> 'a kmem_scheme" where
  "mark_used [] s = s"
| "mark_used (i # is) s = mark_used is (set_frame i ((frames_info s i)\<lparr>references := 1\<rparr>) s)"

fun mark_free :: "nat list \<Rightarrow> 'a kmem_scheme \<Rightarrow> 'a kmem_scheme" where
  "mark_free [] s = s"
| "mark_free (i # is) s =
     (let s1 = initialize_frame_info i s
      in mark_free is (s1\<lparr>free_frame_list := i # free_frame_list s1\<rparr>))"

text \<open>The argument is the physical address of the end of the memory that boot has handed out
  (\<open>ptr_free_mem\<close>); clearing the zero page and the temporary page and setting up the page file
  are not part of this state.\<close>

definition initialize_paging :: "u32 \<Rightarrow> 'a kmem_scheme \<Rightarrow> 'a kmem_scheme" where
  "initialize_paging free_mem_pa s =
     (let s1 = s\<lparr>free_frame_list := [], modified_frame_list := [], mfllock := init_kspinlock (mfllock s)\<rparr>;
          s2 = mark_used [0, 1, 2] s1;
          s3 = mark_free [3 ..< unat (ROUNDUP 0xA0000 PAGE_SIZE div PAGE_SIZE)] s2;
          s4 = mark_used [unat (0xA0000 div PAGE_SIZE) ..< unat (0x100000 div PAGE_SIZE)] s3;
          range_end = ROUNDUP free_mem_pa PAGE_SIZE;
          s5 = mark_used [unat (0x100000 div PAGE_SIZE) ..< unat (range_end div PAGE_SIZE)] s4
      in mark_free [unat (range_end div PAGE_SIZE) ..< unat (number_of_frames s)] s5)"

definition allocate_frame :: "'a kmem_scheme \<Rightarrow> (nat \<times> 'a kmem_scheme) res" where
  "allocate_frame s = bindE (mfl_enter s) (\<lambda>(held, s1).
     case free_frame_list s1 of
       [] \<Rightarrow> Inl (Panic ''ERROR: Kernel run out of memory... allocate_frame cannot find a free frame.'')
     | f # fs \<Rightarrow>
        (let s2 = s1\<lparr>free_frame_list := fs\<rparr>; s3 = initialize_frame_info f s2
         in bindE (mfl_leave held s3) (\<lambda>s4. Inr (f, s4))))"

text \<open>A \<open>None\<close> argument is the null pointer, which \<open>initialize_frame_info\<close> writes through.\<close>

definition free_frame :: "nat option \<Rightarrow> 'a kmem_scheme \<Rightarrow> 'a kmem_scheme res" where
  "free_frame fp s = bindE (mfl_enter s) (\<lambda>(held, s1).
     case fp of
       None \<Rightarrow> Inl Fault
     | Some f \<Rightarrow>
        (let s2 = initialize_frame_info f s1; s3 = s2\<lparr>free_frame_list := f # free_frame_list s2\<rparr>
         in mfl_leave held s3))"

definition decrement_references :: "nat \<Rightarrow> 'a kmem_scheme \<Rightarrow> 'a kmem_scheme res" where
  "decrement_references f s =
     (let r = references (frames_info s f) - 1;
          s1 = set_frame f ((frames_info s f)\<lparr>references := r\<rparr>) s
      in if r = 0 then free_frame (Some f) s1 else Inr s1)"

section \<open>From a physical address to its kernel-heap address\<close>

definition kheap_virtual_address :: "u32 \<Rightarrow> 'a kmem_scheme \<Rightarrow> (u32 \<times> 'a kmem_scheme) res" where
  "kheap_virtual_address pa s = bindE (heap_acquire s) (\<lambda>s1.
     if number_of_frames s1 * PAGE_SIZE \<le> pa then bindE (heap_release s1) (\<lambda>s2. Inr (0, s2))
     else bindE (to_frame_info pa s1) (\<lambda>f.
       let v = fi_va (frames_info s1 f) in
       if v = 0 then bindE (heap_release s1) (\<lambda>s2. Inr (0, s2))
       else if v < KERNEL_HEAP_START then bindE (heap_release s1) (\<lambda>s2. Inr (0, s2))
       else if KERNEL_HEAP_MAX \<le> v then bindE (heap_release s1) (\<lambda>s2. Inr (0, s2))
       else bindE (heap_release s1) (\<lambda>s2. Inr (v + (pa AND (PAGE_SIZE - 1)), s2))))"

section \<open>Page tables\<close>

abbreviation (input) TABLE_IN_MEMORY :: u32 where "TABLE_IN_MEMORY \<equiv> 0"
abbreviation (input) TABLE_NOT_EXIST :: u32 where "TABLE_NOT_EXIST \<equiv> 1"

definition table_pointer :: "u32 \<Rightarrow> u32 \<Rightarrow> 'a kmem_scheme \<Rightarrow> (u32 \<times> 'a kmem_scheme) res" where
  "table_pointer va page_directory_entry s =
     (if \<not> CHECK_IF_KERNEL_ADDRESS va then kheap_virtual_address (EXTRACT_ADDRESS page_directory_entry) s
      else bindE (STATIC_KERNEL_VIRTUAL_ADDRESS (EXTRACT_ADDRESS page_directory_entry) s) (\<lambda>p. Inr (p, s)))"

text \<open>The result is the return code and the table pointer.  For a non-null entry that is not
  present the code calls \<open>fault_handler(NULL)\<close>, which reads the trap frame through the null
  pointer.\<close>

definition get_page_table :: "u32 \<Rightarrow> u32 \<Rightarrow> 'a kmem_scheme \<Rightarrow> (u32 \<times> u32 \<times> 'a kmem_scheme) res" where
  "get_page_table dir va s = bindE (load dir (PDX va) s) (\<lambda>page_directory_entry.
     if page_directory_entry AND PERM_PRESENT = PERM_PRESENT then
       bindE (table_pointer va page_directory_entry s) (\<lambda>(p, s1). Inr (TABLE_IN_MEMORY, p, s1))
     else if page_directory_entry \<noteq> 0 then Inl Fault
     else Inr (TABLE_NOT_EXIST, 0, s))"

definition get_frame_info :: "u32 \<Rightarrow> u32 \<Rightarrow> 'a kmem_scheme \<Rightarrow> (nat option \<times> u32 \<times> 'a kmem_scheme) res" where
  "get_frame_info dir va s = bindE (get_page_table dir va s) (\<lambda>(ret, table, s1).
     if table \<noteq> 0 then
       bindE (load table (PTX va) s1) (\<lambda>page_table_entry.
         if (page_table_entry AND NOT 0xFFF) \<noteq> 0
            \<or> (page_table_entry AND (PERM_PRESENT OR PERM_BUFFERED)) \<noteq> 0
         then bindE (to_frame_info (EXTRACT_ADDRESS page_table_entry) s1) (\<lambda>f. Inr (Some f, table, s1))
         else Inr (None, table, s1))
     else Inr (None, table, s1))"

definition unmap_frame :: "u32 \<Rightarrow> u32 \<Rightarrow> 'a kmem_scheme \<Rightarrow> 'a kmem_scheme res" where
  "unmap_frame dir va s = bindE (get_frame_info dir va s) (\<lambda>(fp, table, s1).
     case fp of
       None \<Rightarrow> Inr s1
     | Some f \<Rightarrow>
        bindE (decrement_references f s1) (\<lambda>s2.
        bindE (load table (PTX va) s2) (\<lambda>entry.
        store table (PTX va) (entry AND PERM_AVAILABLE) s2)))"

text \<open>The creation of a missing table is an argument: it is \<open>create_page_table\<close> of this file, which
  allocates the table with \<open>kmalloc\<close> of the kernel heap above.\<close>

definition map_frame ::
  "(u32 \<Rightarrow> u32 \<Rightarrow> 'a kmem_scheme \<Rightarrow> (u32 \<times> 'a kmem_scheme) res) \<Rightarrow>
   u32 \<Rightarrow> nat \<Rightarrow> u32 \<Rightarrow> u32 \<Rightarrow> 'a kmem_scheme \<Rightarrow> 'a kmem_scheme res" where
  "map_frame create_table dir f va perm s =
     (let pa = to_physical_address f; s0 = set_frame f ((frames_info s f)\<lparr>fi_va := va\<rparr>) s
      in bindE (get_page_table dir va s0) (\<lambda>(ret, p, s1).
         bindE (if ret = TABLE_NOT_EXIST then create_table dir va s1 else Inr (p, s1)) (\<lambda>(table, s2).
         bindE (load table (PTX va) s2) (\<lambda>entry.
         if entry AND PERM_PRESENT = PERM_PRESENT \<and> EXTRACT_ADDRESS entry = pa then Inr s2
         else bindE (if entry AND PERM_PRESENT = PERM_PRESENT then unmap_frame dir va s2 else Inr s2) (\<lambda>s3.
              let s4 = set_frame f ((frames_info s3 f)\<lparr>references := references (frames_info s3 f) + 1\<rparr>) s3
              in bindE (load table (PTX va) s4) (\<lambda>old.
                 store table (PTX va)
                   (CONSTRUCT_ENTRY pa ((old AND PERM_AVAILABLE) OR perm OR PERM_PRESENT)) s4))))))"

definition loadtime_map_frame ::
  "(u32 \<Rightarrow> u32 \<Rightarrow> 'a kmem_scheme \<Rightarrow> (u32 \<times> 'a kmem_scheme) res) \<Rightarrow>
   u32 \<Rightarrow> nat \<Rightarrow> u32 \<Rightarrow> u32 \<Rightarrow> 'a kmem_scheme \<Rightarrow> 'a kmem_scheme res" where
  "loadtime_map_frame create_table dir f va perm s =
     bindE (load dir (PDX va) s) (\<lambda>pde.
     bindE (table_pointer va pde s) (\<lambda>(p, s1).
     bindE (if pde = 0 then create_table dir va s1 else Inr (p, s1)) (\<lambda>(table, s2).
     let s3 = set_frame f ((frames_info s2 f)\<lparr>references := references (frames_info s2 f) + 1\<rparr>) s2
     in store table (PTX va) (CONSTRUCT_ENTRY (to_physical_address f) (perm OR PERM_PRESENT)) s3)))"

text \<open>\<open>create_page_table\<close>, over the allocation and translation functions of the kernel heap.\<close>

definition clear_page :: "u32 \<Rightarrow> 'a kmem_scheme \<Rightarrow> 'a kmem_scheme" where
  "clear_page p s = s\<lparr>mem := (mem s)(p := (\<lambda>_. 0))\<rparr>"

definition create_page_table ::
  "(u32 \<Rightarrow> 'a kmem_scheme \<Rightarrow> (u32 \<times> 'a kmem_scheme) res) \<Rightarrow>
   (u32 \<Rightarrow> 'a kmem_scheme \<Rightarrow> (u32 \<times> 'a kmem_scheme) res) \<Rightarrow>
   u32 \<Rightarrow> u32 \<Rightarrow> 'a kmem_scheme \<Rightarrow> (u32 \<times> 'a kmem_scheme) res" where
  "create_page_table kmalloc kheap_physical_address dir va s =
     bindE (kmalloc PAGE_SIZE s) (\<lambda>(table, s1).
     if table = 0 then Inl (Panic ''NOT ENOUGH KERNEL HEAP SPACE'')
     else bindE (kheap_physical_address table s1) (\<lambda>(pa, s2).
          bindE (store dir (PDX va) (CONSTRUCT_ENTRY pa (PERM_PRESENT OR PERM_USER OR PERM_WRITEABLE)) s2) (\<lambda>s3.
          Inr (table, clear_page table s3))))"

section \<open>Counting free frames\<close>

record freeFramesCounters =
  freeBuffered :: nat
  freeNotBuffered :: nat
  modified :: nat

fun count_frames :: "(nat \<Rightarrow> FrameInfo) \<Rightarrow> nat list \<Rightarrow> nat \<Rightarrow> nat \<Rightarrow> nat \<times> nat" where
  "count_frames fi [] b u = (b, u)"
| "count_frames fi (f # fs) b u =
     (if isBuffered (fi f) \<noteq> 0 then count_frames fi fs (b + 1) u else count_frames fi fs b (u + 1))"

definition calculate_available_frames :: "'a kmem_scheme \<Rightarrow> (freeFramesCounters \<times> 'a kmem_scheme) res" where
  "calculate_available_frames s = bindE (mfl_enter s) (\<lambda>(held, s1).
     let (b, u) = count_frames (frames_info s1) (free_frame_list s1) 0 0;
         m = length (modified_frame_list s1)
     in bindE (mfl_leave held s1) (\<lambda>s2.
        Inr (\<lparr>freeBuffered = b, freeNotBuffered = u, modified = m\<rparr>, s2)))"

section \<open>The locks on an otherwise idle processor\<close>

definition unlocked :: kspinlock where
  "unlocked = \<lparr>locked = 0, lk_cpu = None\<rparr>"

definition held_lock :: "cpu \<Rightarrow> kspinlock" where
  "held_lock c = \<lparr>locked = 1, lk_cpu = Some (cpu_id c)\<rparr>"

text \<open>The frame lock is free, the interrupt state is settled (as any earlier lock operation leaves it).\<close>

definition calm :: "'a kmem_scheme \<Rightarrow> bool" where
  "calm s \<longleftrightarrow> cpu_ok (kcpu s) \<and> noted (kcpu s) = kcpu s \<and> mfllock s = unlocked"

definition heap_calm :: "'a kmem_scheme \<Rightarrow> bool" where
  "heap_calm s \<longleftrightarrow> calm s \<and> heap_lock s = unlocked"

lemma acquire_unlocked:
  "\<lbrakk>cpu_ok c\<rbrakk> \<Longrightarrow> acquire_kspinlock (c, unlocked) = Inr (pushcli c, held_lock c)"
  by (simp add: acquire_free free_lock_def unlocked_def held_lock_def)

lemma release_held_lock:
  "\<lbrakk>cpu_ok c; noted c = c\<rbrakk> \<Longrightarrow> release_kspinlock (pushcli c, held_lock c) = Inr (c, unlocked)"
  using release_acquired [of c unlocked] by (simp add: unlocked_def held_lock_def)

lemma holding_unlocked: "\<lbrakk>cpu_ok c; noted c = c\<rbrakk> \<Longrightarrow> holding_kspinlock c unlocked = Inr (False, c)"
  by (simp add: holding_kspinlock_eq held_by_def unlocked_def)

lemma mfl_enter_calm:
  "calm s \<Longrightarrow> mfl_enter s = Inr (False, s\<lparr>kcpu := pushcli (kcpu s), mfllock := held_lock (kcpu s)\<rparr>)"
  by (simp add: mfl_enter_def calm_def holding_unlocked acquire_unlocked)

lemma mfl_leave_held:
  "\<lbrakk>cpu_ok c; noted c = c; kcpu t = pushcli c; mfllock t = held_lock c\<rbrakk> \<Longrightarrow>
   mfl_leave False t = Inr (t\<lparr>kcpu := c, mfllock := unlocked\<rparr>)"
  by (simp add: mfl_leave_def release_held_lock)

lemma heap_acquire_calm:
  "heap_calm s \<Longrightarrow> heap_acquire s = Inr (s\<lparr>kcpu := pushcli (kcpu s), heap_lock := held_lock (kcpu s)\<rparr>)"
  by (simp add: heap_acquire_def heap_calm_def calm_def acquire_unlocked)

lemma heap_release_held:
  "\<lbrakk>cpu_ok c; noted c = c; kcpu t = pushcli c; heap_lock t = held_lock c\<rbrakk> \<Longrightarrow>
   heap_release t = Inr (t\<lparr>kcpu := c, heap_lock := unlocked\<rparr>)"
  by (simp add: heap_release_def release_held_lock)

lemma heap_acquire_nested:
  "\<lbrakk>cpu_ok c; kcpu t = pushcli c; heap_lock t = held_lock c\<rbrakk> \<Longrightarrow>
   heap_acquire t = Inl (Panic ''acquire_spinlock: lock is already held by the same CPU.'')"
  by (simp add: heap_acquire_def acquire_held pushcli_ok held_by_def held_lock_def)

lemma calm_pushed:
  "calm s \<Longrightarrow> calm (s\<lparr>kcpu := pushcli (kcpu s), heap_lock := lk\<rparr>)"
  by (simp add: calm_def pushcli_ok)

lemma calm_updates [simp]:
  "calm (s\<lparr>free_frame_list := a\<rparr>) = calm s" "calm (s\<lparr>frames_info := b\<rparr>) = calm s"
  "calm (s\<lparr>mem := m\<rparr>) = calm s" "calm (set_frame f i s) = calm s"
  "calm (s\<lparr>heap_lock := l\<rparr>) = calm s"
  by (simp_all add: calm_def set_frame_def)

lemma heap_calm_updates [simp]:
  "heap_calm (s\<lparr>free_frame_list := a\<rparr>) = heap_calm s" "heap_calm (s\<lparr>frames_info := b\<rparr>) = heap_calm s"
  "heap_calm (s\<lparr>mem := m\<rparr>) = heap_calm s" "heap_calm (set_frame f i s) = heap_calm s"
  by (simp_all add: heap_calm_def set_frame_def)

lemma restore_mfl:
  "\<lbrakk>calm s; t = s\<lparr>kcpu := pushcli (kcpu s), mfllock := held_lock (kcpu s), free_frame_list := fs, frames_info := fi\<rparr>\<rbrakk>
   \<Longrightarrow> mfl_leave False t = Inr (s\<lparr>free_frame_list := fs, frames_info := fi\<rparr>)"
  by (cases s) (auto simp: calm_def mfl_leave_held [where c = "kcpu s"])

section \<open>Exact behaviour of the frame operations\<close>

lemma allocate_frame_calm:
  assumes "calm s" and "free_frame_list s = f # fs"
  shows "allocate_frame s = Inr (f, set_frame f null_frame_info (s\<lparr>free_frame_list := fs\<rparr>))"
  using assms by (simp add: allocate_frame_def mfl_enter_calm initialize_frame_info_def set_frame_def Let_def
      restore_mfl [OF assms(1), where fs = fs and fi = "(frames_info s)(f := null_frame_info)"])

lemma allocate_frame_empty:
  "\<lbrakk>calm s; free_frame_list s = []\<rbrakk> \<Longrightarrow> \<exists>m. allocate_frame s = Inl (Panic m)"
  by (simp add: allocate_frame_def mfl_enter_calm)

lemma free_frame_calm:
  assumes "calm s"
  shows "free_frame (Some f) s = Inr (set_frame f null_frame_info (s\<lparr>free_frame_list := f # free_frame_list s\<rparr>))"
  using assms by (simp add: free_frame_def mfl_enter_calm initialize_frame_info_def set_frame_def Let_def
      restore_mfl [OF assms(1), where fs = "f # free_frame_list s" and fi = "(frames_info s)(f := null_frame_info)"])

lemma decrement_references_calm:
  assumes "calm s"
  shows "decrement_references f s = Inr
    (if references (frames_info s f) = 1 then set_frame f null_frame_info (s\<lparr>free_frame_list := f # free_frame_list s\<rparr>)
     else set_frame f ((frames_info s f)\<lparr>references := references (frames_info s f) - 1\<rparr>) s)"
proof -
  have "references (frames_info s f) - 1 = 0 \<longleftrightarrow> references (frames_info s f) = 1" by (simp add: diff_eq_eq)
  then show ?thesis using assms by (simp add: decrement_references_def Let_def free_frame_calm set_frame_def)
qed

text \<open>What \<open>kheap_virtual_address\<close> returns when the heap lock is free; the state is unchanged.\<close>

definition heap_va_of :: "'a kmem_scheme \<Rightarrow> u32 \<Rightarrow> u32" where
  "heap_va_of s pa =
     (let v = fi_va (frames_info s (unat (PPN pa))) in
      if number_of_frames s * PAGE_SIZE \<le> pa \<or> v = 0 \<or> v < KERNEL_HEAP_START \<or> KERNEL_HEAP_MAX \<le> v then 0
      else v + (pa AND 0xFFF))"

lemma restore_heap:
  "\<lbrakk>heap_calm s; t = s\<lparr>kcpu := pushcli (kcpu s), heap_lock := held_lock (kcpu s)\<rparr>\<rbrakk>
   \<Longrightarrow> heap_release t = Inr s"
  by (cases s) (auto simp: heap_calm_def calm_def heap_release_held [where c = "kcpu s"])

lemma kheap_virtual_address_calm:
  assumes "heap_calm s" and "PPN pa < number_of_frames s"
  shows "kheap_virtual_address pa s = Inr (heap_va_of s pa, s)"
  using assms
  by (simp add: kheap_virtual_address_def heap_acquire_calm restore_heap [OF assms(1) refl] heap_va_of_def
      to_frame_info_def Let_def not_le [symmetric])

section \<open>The fields of a page-table entry\<close>

definition frame_of :: "u32 \<Rightarrow> nat" where
  "frame_of e = unat (PPN (EXTRACT_ADDRESS e))"

definition present :: "u32 \<Rightarrow> bool" where
  "present e \<longleftrightarrow> e AND PERM_PRESENT = PERM_PRESENT"

lemma frame_of_drop: "frame_of e = unat (drop_bit 12 e)"
proof -
  have "drop_bit 12 (e AND NOT 0xFFF) = drop_bit 12 e"
    by (rule bit_word_eqI) (auto simp: u32_bits simp del: drop_bit_and dest: bit_u32_lt)
  then show ?thesis by (simp add: frame_of_def PPN_def EXTRACT_ADDRESS_def)
qed

lemma frame_of_eq: "frame_of e = unat e div 4096"
  by (simp add: frame_of_drop unat_drop_bit_12)

lemma frame_of_less: "frame_of e < 1048576"
  using unat_u32_lt [of e] by (simp add: frame_of_eq)

lemma EXTRACT_ADDRESS_eq: "EXTRACT_ADDRESS e = word_of_nat (4096 * frame_of e)"
proof -
  have "EXTRACT_ADDRESS e = push_bit 12 (drop_bit 12 e)"
    unfolding EXTRACT_ADDRESS_def by (rule bit_word_eqI) (auto simp: u32_bits)
  also have "drop_bit 12 e = word_of_nat (frame_of e)" by (simp add: frame_of_drop)
  finally show ?thesis by (simp only: push_bit_12_of_nat)
qed

lemma unat_EXTRACT_ADDRESS: "unat (EXTRACT_ADDRESS e) = 4096 * frame_of e"
  unfolding EXTRACT_ADDRESS_eq using frame_of_less [of e] by (intro unat_of_nat_u32) simp

lemma unat_to_physical_address: "f < 1048576 \<Longrightarrow> unat (to_physical_address f) = 4096 * f"
  unfolding to_physical_address_def push_bit_12_of_nat by (intro unat_of_nat_u32) simp

lemma EXTRACT_eq_pa: "f < 1048576 \<Longrightarrow> EXTRACT_ADDRESS e = to_physical_address f \<longleftrightarrow> frame_of e = f"
  using unat_EXTRACT_ADDRESS [of e] unat_to_physical_address [of f]
  by (auto simp: word_unat_eq_iff)

lemma frame_of_new: "\<lbrakk>f < 1048576; perm < 4096\<rbrakk> \<Longrightarrow> frame_of (CONSTRUCT_ENTRY (to_physical_address f) ((e AND 0xE00) OR perm OR 1)) = f"
proof -
  assume a: "f < 1048576" "perm < 4096"
  have l: "n < 20" if "bit (word_of_nat f :: u32) n" for n
  proof (rule ccontr)
    assume "\<not> n < 20"
    moreover have "take_bit 20 f = f" using a(1) by (simp add: take_bit_nat_eq_self)
    then have "take_bit 20 (word_of_nat f :: u32) = word_of_nat f" by (metis of_nat_take_bit)
    ultimately show False using that by (metis bit_take_bit_iff)
  qed
  have "drop_bit 12 (CONSTRUCT_ENTRY (to_physical_address f) ((e AND 0xE00) OR perm OR 1)) = word_of_nat f"
    unfolding CONSTRUCT_ENTRY_def to_physical_address_def
    by (rule bit_word_eqI) (auto simp: u32_bits bit_low [OF a(2)] dest: l)
  then show ?thesis using a(1) by (simp add: frame_of_drop unat_of_nat_u32)
qed

lemma new_entry_facts:
  fixes e perm :: u32
  defines "v f \<equiv> CONSTRUCT_ENTRY (to_physical_address f) ((e AND PERM_AVAILABLE) OR perm OR PERM_PRESENT)"
  shows "present (v f)" and "\<lbrakk>e AND 0x200 = 0; perm AND 0x200 = 0\<rbrakk> \<Longrightarrow> v f AND 0x200 = 0"
proof -
  show "present (v f)"
    by (simp add: v_def present_def and_1_iff CONSTRUCT_ENTRY_def u32_bits)
  show "v f AND 0x200 = 0" if "e AND 0x200 = 0" "perm AND 0x200 = 0"
    using that by (simp only: and_200_iff v_def CONSTRUCT_ENTRY_def to_physical_address_def)
      (simp add: u32_bits)
qed

lemma kept_entry_facts:
  "\<not> present (e AND PERM_AVAILABLE)" "(e AND PERM_AVAILABLE) AND NOT 0xFFF = 0"
  "e AND 0x200 = 0 \<Longrightarrow> (e AND PERM_AVAILABLE) AND 0x200 = 0"
proof -
  show "\<not> present (e AND PERM_AVAILABLE)" by (simp add: present_def and_1_iff u32_bits)
  show "(e AND PERM_AVAILABLE) AND NOT 0xFFF = 0" by (rule bit_word_eqI) (auto simp: u32_bits)
  show "e AND 0x200 = 0 \<Longrightarrow> (e AND PERM_AVAILABLE) AND 0x200 = 0"
    by (simp only: and_200_iff) (simp add: u32_bits)
qed

section \<open>Looking up a table\<close>

text \<open>\<open>table_ok s dir va p\<close>: the directory \<open>dir\<close> has a table for \<open>va\<close>, and \<open>p\<close> is the pointer the
  code reaches it by.  For a user address the lookup goes through the kernel heap and needs
  the heap lock.\<close>

definition table_ok :: "'a kmem_scheme \<Rightarrow> u32 \<Rightarrow> u32 \<Rightarrow> u32 \<Rightarrow> bool" where
  "table_ok s dir va p \<longleftrightarrow> dir \<noteq> 0 \<and> p \<noteq> 0 \<and>
     (let pde = mem s dir (unat (PDX va)) in
      present pde \<and> PPN (EXTRACT_ADDRESS pde) < number_of_frames s
      \<and> (if CHECK_IF_KERNEL_ADDRESS va then p = EXTRACT_ADDRESS pde + KERNEL_BASE
         else heap_calm s \<and> p = heap_va_of s (EXTRACT_ADDRESS pde)))"

lemma get_page_table_ok: "table_ok s dir va p \<Longrightarrow> get_page_table dir va s = Inr (TABLE_IN_MEMORY, p, s)"
  by (auto simp: table_ok_def get_page_table_def load_def table_pointer_def present_def Let_def not_le [symmetric]
      STATIC_KERNEL_VIRTUAL_ADDRESS_def kheap_virtual_address_calm split: if_splits)

lemma get_page_table_none:
  "\<lbrakk>dir \<noteq> 0; mem s dir (unat (PDX va)) = 0\<rbrakk> \<Longrightarrow> get_page_table dir va s = Inr (TABLE_NOT_EXIST, 0, s)"
  by (simp add: get_page_table_def load_def)

text \<open>For a kernel address the lookup depends on the directory alone.\<close>

lemma table_ok_kernel_cong:
  "\<lbrakk>CHECK_IF_KERNEL_ADDRESS va; number_of_frames t = number_of_frames s; mem t dir = mem s dir\<rbrakk> \<Longrightarrow>
   table_ok t dir va p \<longleftrightarrow> table_ok s dir va p"
  by (simp add: table_ok_def)

text \<open>Entries that the frame layer writes: never buffered, and a frame number only when present.\<close>

definition entry_ok :: "u32 \<Rightarrow> u32 \<Rightarrow> bool" where
  "entry_ok n e \<longleftrightarrow> e AND 0x200 = 0 \<and> (e AND NOT 0xFFF \<noteq> 0 \<longrightarrow> present e) \<and> (present e \<longrightarrow> frame_of e < unat n)"

lemma entry_ok_holds:
  assumes "entry_ok n e"
  shows "(e AND NOT 0xFFF) \<noteq> 0 \<or> e AND (PERM_PRESENT OR PERM_BUFFERED) \<noteq> 0 \<longleftrightarrow> present e"
proof -
  have "e AND (PERM_PRESENT OR PERM_BUFFERED) = (e AND 1) OR (e AND 0x200)"
    by (simp only: bit.conj_disj_distrib)
  then have *: "e AND (PERM_PRESENT OR PERM_BUFFERED) = e AND 1"
    using assms by (simp only: entry_ok_def) simp
  have "e AND 1 \<noteq> 0 \<longleftrightarrow> present e"
    by (simp add: present_def and_one_eq)
  then show ?thesis using assms unfolding * by (auto simp: entry_ok_def)
qed

lemma get_frame_info_ok:
  assumes "table_ok s dir va p" and "entry_ok (number_of_frames s) (mem s p (unat (PTX va)))"
  shows "get_frame_info dir va s =
    Inr (if present (mem s p (unat (PTX va))) then Some (frame_of (mem s p (unat (PTX va)))) else None, p, s)"
proof -
  let ?e = "mem s p (unat (PTX va))"
  have "p \<noteq> 0" using assms(1) by (simp add: table_ok_def)
  moreover have "to_frame_info (EXTRACT_ADDRESS ?e) s = Inr (frame_of ?e)" if "present ?e"
    using assms(2) that by (simp add: to_frame_info_def entry_ok_def frame_of_def word_le_nat_alt not_le)
  ultimately show ?thesis
    by (simp only: get_frame_info_def get_page_table_ok [OF assms(1)] load_def bindE.simps prod.case
        entry_ok_holds [OF assms(2)] if_False if_True not_False_eq_True simp_thms split: if_split) simp
qed

section \<open>Exact behaviour of mapping and unmapping\<close>

definition set_entry :: "u32 \<Rightarrow> nat \<Rightarrow> u32 \<Rightarrow> 'a kmem_scheme \<Rightarrow> 'a kmem_scheme" where
  "set_entry p i v s = s\<lparr>mem := (mem s)(p := (mem s p)(i := v))\<rparr>"

definition drop_ref :: "nat \<Rightarrow> 'a kmem_scheme \<Rightarrow> 'a kmem_scheme" where
  "drop_ref f s =
    (if references (frames_info s f) = 1 then set_frame f null_frame_info (s\<lparr>free_frame_list := f # free_frame_list s\<rparr>)
     else set_frame f ((frames_info s f)\<lparr>references := references (frames_info s f) - 1\<rparr>) s)"

definition add_ref :: "nat \<Rightarrow> 'a kmem_scheme \<Rightarrow> 'a kmem_scheme" where
  "add_ref f s = set_frame f ((frames_info s f)\<lparr>references := references (frames_info s f) + 1\<rparr>) s"

definition note_va :: "nat \<Rightarrow> u32 \<Rightarrow> 'a kmem_scheme \<Rightarrow> 'a kmem_scheme" where
  "note_va f va s = set_frame f ((frames_info s f)\<lparr>fi_va := va\<rparr>) s"

definition unmapped :: "u32 \<Rightarrow> nat \<Rightarrow> 'a kmem_scheme \<Rightarrow> 'a kmem_scheme" where
  "unmapped p i s = (if present (mem s p i)
     then set_entry p i (mem s p i AND PERM_AVAILABLE) (drop_ref (frame_of (mem s p i)) s) else s)"

definition mapped :: "nat \<Rightarrow> u32 \<Rightarrow> nat \<Rightarrow> u32 \<Rightarrow> 'a kmem_scheme \<Rightarrow> 'a kmem_scheme" where
  "mapped f p i perm s =
     (if present (mem s p i) \<and> frame_of (mem s p i) = f then s
      else let t = add_ref f (unmapped p i s)
           in set_entry p i (CONSTRUCT_ENTRY (to_physical_address f)
                ((mem t p i AND PERM_AVAILABLE) OR perm OR PERM_PRESENT)) t)"

lemmas frame_ops = set_entry_def set_frame_def drop_ref_def add_ref_def note_va_def

lemma frame_op_mem [simp]:
  "mem (set_frame f fi s) = mem s" "mem (drop_ref f s) = mem s" "mem (add_ref f s) = mem s"
  "mem (note_va f va s) = mem s" "mem (set_entry p i v s) = (mem s)(p := (mem s p)(i := v))"
  by (simp_all add: frame_ops)

lemma frame_op_kept [simp]:
  "number_of_frames (set_frame f i s) = number_of_frames s" "number_of_frames (drop_ref f s) = number_of_frames s"
  "number_of_frames (add_ref f s) = number_of_frames s" "number_of_frames (note_va f va s) = number_of_frames s"
  "number_of_frames (set_entry p j v s) = number_of_frames s"
  "number_of_frames (unmapped p j s) = number_of_frames s" "number_of_frames (mapped f p j pm s) = number_of_frames s"
  by (simp_all add: frame_ops unmapped_def mapped_def Let_def)

lemma set_entry_kept [simp]:
  "frames_info (set_entry p i v s) = frames_info s" "free_frame_list (set_entry p i v s) = free_frame_list s"
  by (simp_all add: set_entry_def)

lemma frame_op_calm [simp]:
  "calm (drop_ref f s) = calm s" "calm (add_ref f s) = calm s" "calm (note_va f va s) = calm s"
  "calm (set_entry p i v s) = calm s" "calm (unmapped p i s) = calm s" "calm (mapped f p i pm s) = calm s"
  by (simp_all add: calm_def frame_ops unmapped_def mapped_def Let_def)

lemma frame_op_heap_calm [simp]:
  "heap_calm (drop_ref f s) = heap_calm s" "heap_calm (add_ref f s) = heap_calm s"
  "heap_calm (note_va f va s) = heap_calm s" "heap_calm (set_entry p i v s) = heap_calm s"
  "heap_calm (unmapped p i s) = heap_calm s" "heap_calm (mapped f p i pm s) = heap_calm s"
  by (simp_all add: heap_calm_def) (simp_all add: frame_ops unmapped_def mapped_def Let_def)

lemma store_set_entry: "p \<noteq> 0 \<Longrightarrow> store p i v s = Inr (set_entry p (unat i) v s)"
  by (simp add: store_def set_entry_def)

lemma unmap_frame_ok:
  assumes "table_ok s dir va p" and "entry_ok (number_of_frames s) (mem s p (unat (PTX va)))" and "calm s"
  shows "unmap_frame dir va s = Inr (unmapped p (unat (PTX va)) s)"
proof -
  have p: "p \<noteq> 0" using assms(1) by (simp add: table_ok_def)
  have "decrement_references f s = Inr (drop_ref f s)" for f
    using decrement_references_calm [OF assms(3)] by (simp add: drop_ref_def)
  then show ?thesis
    by (simp add: unmap_frame_def get_frame_info_ok [OF assms(1,2)] load_def p store_set_entry unmapped_def)
qed

lemma table_ok_note_va:
  assumes "table_ok s dir va p"
    and "\<not> CHECK_IF_KERNEL_ADDRESS va \<Longrightarrow> f \<noteq> frame_of (mem s dir (unat (PDX va)))"
  shows "table_ok (note_va f w s) dir va p"
  using assms by (auto simp: table_ok_def Let_def heap_va_of_def frame_of_def note_va_def set_frame_def
      EXTRACT_ADDRESS_def PPN_def heap_calm_def calm_def)

lemma map_frame_ok:
  assumes t: "table_ok s dir va p" and e: "entry_ok (number_of_frames s) (mem s p (unat (PTX va)))"
    and c: "calm s" and f: "f < 1048576"
    and pin: "\<not> CHECK_IF_KERNEL_ADDRESS va \<Longrightarrow> f \<noteq> frame_of (mem s dir (unat (PDX va)))"
  shows "map_frame ct dir f va perm s = Inr (mapped f p (unat (PTX va)) perm (note_va f va s))"
proof -
  let ?s = "note_va f va s"
  have t': "table_ok ?s dir va p" by (rule table_ok_note_va [OF t pin])
  have p: "p \<noteq> 0" using t by (simp add: table_ok_def)
  have u: "unmap_frame dir va ?s = Inr (unmapped p (unat (PTX va)) ?s)"
    by (rule unmap_frame_ok [OF t']) (use e c in simp_all)
  have "unmapped p i ?s = ?s" if "\<not> present (mem s p i)" for i
    using that by (simp add: unmapped_def)
  then show ?thesis
    using u by (auto simp: map_frame_def Let_def note_va_def [symmetric] get_page_table_ok [OF t'] load_def p
        EXTRACT_eq_pa [OF f] mapped_def store_set_entry present_def [symmetric] add_ref_def [symmetric])
qed

section \<open>Reference counts\<close>

text \<open>
  \<open>T\<close> is the set of page tables under consideration and \<open>pins f\<close> the number of references to frame
  \<open>f\<close> that do not come from them (frames that boot reserved, tables outside \<open>T\<close>).  The
  invariant says that the count of every frame is exact and that the free list holds distinct
  frames that nobody references.
\<close>

definition slots :: "'a kmem_scheme \<Rightarrow> u32 set \<Rightarrow> nat \<Rightarrow> (u32 \<times> nat) set" where
  "slots s T f = {(p, i). p \<in> T \<and> i < 1024 \<and> present (mem s p i) \<and> frame_of (mem s p i) = f}"

definition mm_inv :: "'a kmem_scheme \<Rightarrow> u32 set \<Rightarrow> (nat \<Rightarrow> nat) \<Rightarrow> bool" where
  "mm_inv s T pins \<longleftrightarrow> finite T \<and> 0 \<notin> T \<and> unat (number_of_frames s) \<le> 1048576
     \<and> distinct (free_frame_list s)
     \<and> (\<forall>f \<in> set (free_frame_list s). f < unat (number_of_frames s) \<and> references (frames_info s f) = 0)
     \<and> (\<forall>p \<in> T. \<forall>i < 1024. entry_ok (number_of_frames s) (mem s p i))
     \<and> (\<forall>f < unat (number_of_frames s). unat (references (frames_info s f)) = pins f + card (slots s T f))"

lemma finite_slots [simp]: "finite T \<Longrightarrow> finite (slots s T f)"
  by (rule finite_subset [where B = "T \<times> {..<1024}"]) (auto simp: slots_def)

lemma slots_cong: "mem s = mem t \<Longrightarrow> slots s T f = slots t T f"
  by (simp add: slots_def)

lemma slots_set_entry:
  assumes "p \<in> T" and "i < 1024"
  shows "slots (set_entry p i v s) T f =
    (if present v \<and> frame_of v = f then insert (p, i) (slots s T f) else slots s T f - {(p, i)})"
  using assms by (auto simp: slots_def split: if_splits)

lemma card_slots_set_entry:
  assumes "finite T" and "p \<in> T" and "i < 1024"
  shows "card (slots (set_entry p i v s) T f) =
    card (slots s T f) - (if present (mem s p i) \<and> frame_of (mem s p i) = f then 1 else 0)
      + (if present v \<and> frame_of v = f then 1 else 0)"
proof -
  have "(p, i) \<in> slots s T f \<longleftrightarrow> present (mem s p i) \<and> frame_of (mem s p i) = f"
    using assms by (auto simp: slots_def)
  moreover from this have "0 < card (slots s T f)" if "present (mem s p i)" "frame_of (mem s p i) = f"
    using that assms(1) by (auto simp: card_gt_0_iff)
  ultimately show ?thesis
    using assms by (auto simp: slots_set_entry card_insert_if card_Diff_singleton_if)
qed

lemma mm_inv_entry: "\<lbrakk>mm_inv s T pins; p \<in> T; i < 1024\<rbrakk> \<Longrightarrow> entry_ok (number_of_frames s) (mem s p i)"
  by (simp add: mm_inv_def)

lemma mm_inv_referenced:
  assumes "mm_inv s T pins" and "p \<in> T" and "i < 1024" and "present (mem s p i)"
  shows "0 < unat (references (frames_info s (frame_of (mem s p i))))"
proof -
  have "frame_of (mem s p i) < unat (number_of_frames s)"
    using mm_inv_entry [OF assms(1-3)] assms(4) by (simp add: entry_ok_def)
  moreover have "0 < card (slots s T (frame_of (mem s p i)))"
    using assms by (auto simp: card_gt_0_iff mm_inv_def) (auto simp: slots_def)
  ultimately show ?thesis using assms(1) by (simp add: mm_inv_def)
qed

lemma unat_u16_eq_1: "unat (x :: u16) = 1 \<longleftrightarrow> x = 1"
  using word_unat_eq_iff [of x 1] by simp

lemma drop_ref_refs:
  "0 < unat (references (frames_info s f)) \<Longrightarrow>
   unat (references (frames_info (drop_ref f s) g)) =
     (if g = f then unat (references (frames_info s f)) - 1 else unat (references (frames_info s g)))"
  by (auto simp: drop_ref_def set_frame_def null_frame_info_def unat_u16_minus_1)

lemma drop_ref_free:
  "set (free_frame_list (drop_ref f s)) \<subseteq> insert f (set (free_frame_list s))"
  "f \<in> set (free_frame_list (drop_ref f s)) \<Longrightarrow> f \<notin> set (free_frame_list s) \<Longrightarrow> references (frames_info s f) = 1"
  "f \<notin> set (free_frame_list s) \<Longrightarrow> distinct (free_frame_list s) \<Longrightarrow> distinct (free_frame_list (drop_ref f s))"
  by (auto simp: drop_ref_def set_frame_def split: if_splits)

lemma mm_inv_unmapped:
  assumes inv: "mm_inv s T pins" and p: "p \<in> T" and i: "i < 1024"
  shows "mm_inv (unmapped p i s) T pins"
proof (cases "present (mem s p i)")
  case True
  let ?e = "mem s p i" and ?f = "frame_of (mem s p i)"
  let ?t = "set_entry p i (?e AND PERM_AVAILABLE) (drop_ref ?f s)"
  have eq: "unmapped p i s = ?t" using True by (simp add: unmapped_def)
  note r = mm_inv_referenced [OF inv p i True]
  have e: "entry_ok (number_of_frames s) ?e" by (rule mm_inv_entry [OF inv p i])
  have fin: "finite T" using inv by (simp add: mm_inv_def)
  have nf: "?f \<notin> set (free_frame_list s)" using inv r by (auto simp: mm_inv_def)
  have cards: "card (slots ?t T g) = card (slots s T g) - (if ?f = g then 1 else 0)" for g
    using card_slots_set_entry [OF fin p i, of _ "drop_ref ?f s" g] True kept_entry_facts(1) [of ?e]
    by (simp add: slots_cong [of "drop_ref ?f s" s])
  have cnt: "unat (references (frames_info ?t g)) = pins g + card (slots ?t T g)"
    if g: "g < unat (number_of_frames s)" for g
  proof (cases "g = ?f")
    case True
    have "0 < card (slots s T ?f)" using p i \<open>present ?e\<close> fin by (auto simp: card_gt_0_iff) (auto simp: slots_def)
    then show ?thesis using inv r g True by (simp add: cards drop_ref_refs mm_inv_def)
  next
    case False
    then show ?thesis using inv r g by (simp add: cards drop_ref_refs mm_inv_def)
  qed
  have fl: "\<forall>g \<in> set (free_frame_list ?t). g < unat (number_of_frames s) \<and> references (frames_info ?t g) = 0"
    using inv e nf True
    by (auto simp: mm_inv_def set_entry_def drop_ref_def set_frame_def null_frame_info_def entry_ok_def)
  have ents: "\<forall>q \<in> T. \<forall>j < 1024. entry_ok (number_of_frames s) (mem ?t q j)"
    using inv e kept_entry_facts [of ?e] by (auto simp: mm_inv_def entry_ok_def)
  show ?thesis
    unfolding eq using inv cnt fl ents nf drop_ref_free(3) [of ?f s] by (simp add: mm_inv_def)
qed (use inv in \<open>simp add: unmapped_def\<close>)

lemma mm_inv_note_va [simp]: "mm_inv (note_va f va s) T pins = mm_inv s T pins"
  by (auto simp: mm_inv_def note_va_def set_frame_def slots_def)

lemma unmapped_not_present: "\<not> present (mem (unmapped p i s) p i)"
  by (simp add: unmapped_def kept_entry_facts)

lemma unmapped_fields:
  "0 < unat (references (frames_info s g)) \<or> g \<notin> set (free_frame_list s) \<Longrightarrow>
   \<not> (present (mem s p i) \<and> frame_of (mem s p i) = g) \<Longrightarrow>
   frames_info (unmapped p i s) g = frames_info s g \<and>
   (g \<in> set (free_frame_list (unmapped p i s)) \<longleftrightarrow> g \<in> set (free_frame_list s))"
  by (auto simp: unmapped_def frame_ops)

lemma mm_inv_mapped:
  assumes inv: "mm_inv s T pins" and p: "p \<in> T" and i: "i < 1024"
    and f: "f < unat (number_of_frames s)" "f \<notin> set (free_frame_list s)"
    and room: "unat (references (frames_info s f)) < 65535"
    and perm: "perm < 4096" "perm AND 0x200 = 0"
  shows "mm_inv (mapped f p i perm s) T pins"
proof (cases "present (mem s p i) \<and> frame_of (mem s p i) = f")
  case False
  let ?u = "unmapped p i s"
  let ?v = "CONSTRUCT_ENTRY (to_physical_address f) ((mem ?u p i AND PERM_AVAILABLE) OR perm OR PERM_PRESENT)"
  let ?t = "set_entry p i ?v (add_ref f ?u)"
  have inv_u: "mm_inv ?u T pins" by (rule mm_inv_unmapped [OF inv p i])
  have keep: "frames_info ?u f = frames_info s f \<and> f \<notin> set (free_frame_list ?u)"
    using unmapped_fields [of s f p i] f(2) False by auto
  have f20: "f < 1048576" using f(1) inv by (simp add: mm_inv_def)
  have eq: "mapped f p i perm s = ?t"
    unfolding mapped_def Let_def if_not_P [OF False] by simp
  have fin: "finite T" using inv by (simp add: mm_inv_def)
  have v: "present ?v" "frame_of ?v = f" "?v AND 0x200 = 0"
    using new_entry_facts frame_of_new [OF f20 perm(1)] perm(2) mm_inv_entry [OF inv_u p i]
    by (simp_all add: entry_ok_def)
  have cards: "card (slots ?t T g) = card (slots ?u T g) + (if g = f then 1 else 0)" for g
    using card_slots_set_entry [OF fin p i, of ?v "add_ref f ?u" g] unmapped_not_present [of p i s] v
    by (auto simp: slots_cong [of "add_ref f ?u" ?u])
  have cnt: "unat (references (frames_info ?t g)) = pins g + card (slots ?t T g)"
    if "g < unat (number_of_frames s)" for g
    using inv_u that room keep unat_u16_plus_1 [of "references (frames_info s f)"]
    by (auto simp: cards mm_inv_def) (auto simp: frame_ops)
  have ents: "\<forall>q \<in> T. \<forall>j < 1024. entry_ok (number_of_frames s) (mem ?t q j)"
    using inv_u v f(1) by (auto simp: mm_inv_def entry_ok_def)
  show ?thesis
    unfolding eq using inv_u cnt ents keep
    by (simp add: mm_inv_def) (auto simp: frame_ops)
qed (use inv in \<open>simp add: mapped_def\<close>)

lemma PTX_less: "unat (PTX va) < 1024"
proof -
  have "PTX va \<le> 0x3FF" unfolding PTX_def by (simp add: word_and_le1)
  then show ?thesis by (simp add: word_le_nat_alt)
qed

lemma PDX_less: "unat (PDX va) < 1024"
proof -
  have "PDX va \<le> 0x3FF" unfolding PDX_def by (simp add: word_and_le1)
  then show ?thesis by (simp add: word_le_nat_alt)
qed

lemma mm_inv_allocate:
  assumes "mm_inv s T pins" and "free_frame_list s = f # fs"
  shows "mm_inv (set_frame f null_frame_info (s\<lparr>free_frame_list := fs\<rparr>)) T pins"
  using assms by (auto simp: mm_inv_def set_frame_def null_frame_info_def slots_def)

lemma mm_inv_free_unused:
  assumes inv: "mm_inv s T pins" and f: "f \<in> set (free_frame_list s)"
  shows "slots s T f = {}" and "pins f = 0" and "references (frames_info s f) = 0"
proof -
  have r: "references (frames_info s f) = 0" and "f < unat (number_of_frames s)"
    using inv f by (auto simp: mm_inv_def)
  then have "pins f + card (slots s T f) = 0" using inv by (metis (no_types) mm_inv_def unat_0)
  then show "slots s T f = {}" "pins f = 0" using inv by (auto simp: mm_inv_def)
  show "references (frames_info s f) = 0" by (rule r)
qed

section \<open>Starting up\<close>

lemma mark_used_eq:
  "frames_info (mark_used is s) f = (if f \<in> set is then (frames_info s f)\<lparr>references := 1\<rparr> else frames_info s f)"
  "free_frame_list (mark_used is s) = free_frame_list s"
  "number_of_frames (mark_used is s) = number_of_frames s" "mem (mark_used is s) = mem s"
  "kcpu (mark_used is s) = kcpu s" "mfllock (mark_used is s) = mfllock s"
  by (induction "is" arbitrary: s) (auto simp: set_frame_def)

lemma mark_free_eq:
  "frames_info (mark_free is s) f = (if f \<in> set is then null_frame_info else frames_info s f)"
  "free_frame_list (mark_free is s) = rev is @ free_frame_list s"
  "number_of_frames (mark_free is s) = number_of_frames s" "mem (mark_free is s) = mem s"
  "kcpu (mark_free is s) = kcpu s" "mfllock (mark_free is s) = mfllock s"
  by (induction "is" arbitrary: s) (auto simp: set_frame_def initialize_frame_info_def Let_def)

definition reserved :: "nat \<Rightarrow> nat \<Rightarrow> bool" where
  "reserved boot_end f \<longleftrightarrow> f < 3 \<or> 160 \<le> f \<and> f < boot_end"

lemma initialize_paging_eq:
  fixes s :: "'a kmem_scheme"
  assumes "B = unat (ROUNDUP pa PAGE_SIZE div PAGE_SIZE)" and "256 \<le> B"
  defines "t \<equiv> initialize_paging pa s"
  shows "free_frame_list t = rev [B ..< unat (number_of_frames s)] @ rev [3 ..< 160]"
    and "number_of_frames t = number_of_frames s" and "mfllock t = unlocked" and "kcpu t = kcpu s"
    and "references (frames_info t f) =
      (if f \<in> set (free_frame_list t) then 0 else if reserved B f then 1 else references (frames_info s f))"
proof -
  have c: "unat (ROUNDUP 0xA0000 PAGE_SIZE div PAGE_SIZE) = 160" "unat ((0xA0000 :: u32) div PAGE_SIZE) = 160"
    "unat ((0x100000 :: u32) div PAGE_SIZE) = 256"
    by (simp_all add: ROUNDUP_def ROUNDDOWN_def)
  have t: "t = mark_free [B ..< unat (number_of_frames s)] (mark_used [256 ..< B] (mark_used [160 ..< 256]
      (mark_free [3 ..< 160] (mark_used [0, 1, 2] (s\<lparr>free_frame_list := [], modified_frame_list := [],
         mfllock := init_kspinlock (mfllock s)\<rparr>)))))"
    unfolding t_def initialize_paging_def c assms(1) Let_def by (rule refl)
  show fl: "free_frame_list t = rev [B ..< unat (number_of_frames s)] @ rev [3 ..< 160]"
    by (simp add: t mark_free_eq mark_used_eq del: mark_used.simps upt_rec_numeral)
  show "number_of_frames t = number_of_frames s" "kcpu t = kcpu s"
    by (simp_all add: t mark_free_eq mark_used_eq del: mark_used.simps upt_rec_numeral)
  show "mfllock t = unlocked"
    by (simp add: t mark_free_eq mark_used_eq init_kspinlock_def unlocked_def del: mark_used.simps upt_rec_numeral)
  show "references (frames_info t f) =
      (if f \<in> set (free_frame_list t) then 0 else if reserved B f then 1 else references (frames_info s f))"
    unfolding fl using assms(2)
    by (auto simp: t mark_free_eq mark_used_eq reserved_def null_frame_info_def simp del: mark_used.simps upt_rec_numeral)
qed

text \<open>Initialising the paging structures gives exact reference counts: with the kernel image
  and the boot-time structures ending at page frame B, the frames 0 to 2, the I/O hole and the
  frames below B count one reference each and every other frame is on the free list, once.\<close>

theorem initialize_paging_counts:
  assumes "B = unat (ROUNDUP pa PAGE_SIZE div PAGE_SIZE)" and "256 \<le> B" and "B \<le> unat (number_of_frames s)"
    and "unat (number_of_frames s) \<le> 1048576"
  shows "mm_inv (initialize_paging pa s) {} (\<lambda>f. if reserved B f then 1 else 0)
    \<and> (\<forall>f < unat (number_of_frames s). f \<in> set (free_frame_list (initialize_paging pa s)) \<longleftrightarrow> \<not> reserved B f)"
proof -
  note eq = initialize_paging_eq [OF assms(1,2), of s]
  have mem_iff: "f \<in> set (free_frame_list (initialize_paging pa s)) \<longleftrightarrow> \<not> reserved B f"
    if "f < unat (number_of_frames s)" for f
    using that assms(2,3) by (auto simp: eq(1) reserved_def simp del: upt_rec_numeral)
  moreover have "mm_inv (initialize_paging pa s) {} (\<lambda>f. if reserved B f then 1 else 0)"
    unfolding mm_inv_def eq(2)
    using assms(2-4) mem_iff by (auto simp: eq(1,5) slots_def simp del: upt_rec_numeral)
  ultimately show ?thesis by blast
qed

definition frame_example :: kmem where
  "frame_example = \<lparr>kcpu = \<lparr>cpu_id = 0, ncli = 0, intena = True, int_flag = True\<rparr>, mfllock = unlocked,
     heap_lock = unlocked, number_of_frames = 1024,
     frames_info = (\<lambda>f. if f = 300 then null_frame_info\<lparr>references := 1\<rparr> else null_frame_info),
     free_frame_list = [500, 501], modified_frame_list = [], ptr_page_directory = 0xF0100000,
     mem = (\<lambda>p i. if p = 0xF0100000 \<and> i = 984 then 0x12C003 else 0)\<rparr>"

theorem initialize_paging_counts_witness:
  "mm_inv (initialize_paging 0x200000 frame_example) {} (\<lambda>f. if reserved 512 f then 1 else 0)
    \<and> 700 \<in> set (free_frame_list (initialize_paging 0x200000 frame_example))
    \<and> 300 \<notin> set (free_frame_list (initialize_paging 0x200000 frame_example))"
  using initialize_paging_counts [of 512 "0x200000" frame_example]
  by (simp add: ROUNDUP_def ROUNDDOWN_def frame_example_def reserved_def)

section \<open>The frame layer as its clients see it\<close>

text \<open>Allocating a frame takes one that no table and no other owner references, clears its
  record and keeps all counts exact; with no free frame left it panics and never returns one.\<close>

theorem allocate_frame_counts:
  assumes "mm_inv s T pins" and "calm s"
  shows "if free_frame_list s = [] then \<exists>m. allocate_frame s = Inl (Panic m)
    else \<exists>f t. allocate_frame s = Inr (f, t) \<and> mm_inv t T pins \<and> f \<notin> set (free_frame_list t)
       \<and> slots t T f = {} \<and> pins f = 0 \<and> frames_info t f = null_frame_info"
proof (cases "free_frame_list s")
  case (Cons f fs)
  then have "f \<in> set (free_frame_list s)" "f \<notin> set fs" using assms(1) by (auto simp: mm_inv_def)
  then show ?thesis
    using mm_inv_allocate [OF assms(1) Cons] mm_inv_free_unused [OF assms(1), of f]
    by (simp add: Cons allocate_frame_calm [OF assms(2) Cons]) (simp add: set_frame_def slots_def)
qed (use allocate_frame_empty [OF assms(2)] in simp)

lemma frame_example_inv: "mm_inv frame_example {0xF012C000} (\<lambda>f. if f = 300 then 1 else 0)"
proof -
  have "slots frame_example {0xF012C000} f = {}" for f
    by (auto simp: slots_def frame_example_def present_def)
  then show ?thesis
    by (auto simp: mm_inv_def) (auto simp: frame_example_def null_frame_info_def entry_ok_def present_def)
qed

lemma frame_example_calm: "calm frame_example"
  by (simp add: calm_def frame_example_def cpu_ok_def noted_def)

theorem allocate_frame_counts_witness:
  "\<exists>f t. allocate_frame frame_example = Inr (f, t) \<and> mm_inv t {0xF012C000} (\<lambda>f. if f = 300 then 1 else 0)
     \<and> slots t {0xF012C000} f = {}"
proof -
  have "free_frame_list frame_example \<noteq> []" by (simp add: frame_example_def)
  with allocate_frame_counts [OF frame_example_inv frame_example_calm] show ?thesis
    by (simp only: if_False) blast
qed

text \<open>Mapping an allocated frame at an address whose page table exists succeeds, keeps every
  reference count exact (the displaced frame loses a reference and is freed with its last one),
  leaves a present entry for the frame with the requested permissions plus the software bits of
  the old entry, and changes no other entry.\<close>

theorem map_frame_counts:
  assumes "mm_inv s T pins" and "calm s" and "table_ok s dir va p" and "p \<in> T"
    and "f < unat (number_of_frames s)" and "f \<notin> set (free_frame_list s)"
    and "unat (references (frames_info s f)) < 65535" and "perm < 4096" and "perm AND PERM_BUFFERED = 0"
    and "\<not> CHECK_IF_KERNEL_ADDRESS va \<Longrightarrow> f \<noteq> frame_of (mem s dir (unat (PDX va)))"
  shows "\<exists>t. map_frame ct dir f va perm s = Inr t \<and> mm_inv t T pins
    \<and> present (mem t p (unat (PTX va))) \<and> frame_of (mem t p (unat (PTX va))) = f
    \<and> (\<forall>q i. (q, i) \<noteq> (p, unat (PTX va)) \<longrightarrow> mem t q i = mem s q i)"
proof -
  let ?i = "unat (PTX va)" and ?s = "note_va f va s"
  have f: "f < 1048576" using assms(1,5) by (simp add: mm_inv_def)
  have eq: "map_frame ct dir f va perm s = Inr (mapped f p ?i perm ?s)"
    by (rule map_frame_ok [OF assms(3) mm_inv_entry [OF assms(1,4) PTX_less] assms(2) f assms(10)])
  have "mm_inv (mapped f p ?i perm ?s) T pins"
    by (rule mm_inv_mapped [OF _ assms(4) PTX_less])
      (use assms in \<open>simp_all add: note_va_def set_frame_def\<close>, simp_all add: note_va_def [symmetric] set_frame_def [symmetric])
  moreover have "present (mem (mapped f p ?i perm ?s) p ?i) \<and> frame_of (mem (mapped f p ?i perm ?s) p ?i) = f"
    using frame_of_new [OF f assms(8)] new_entry_facts(1) by (simp add: mapped_def Let_def)
  moreover have "\<forall>q i. (q, i) \<noteq> (p, ?i) \<longrightarrow> mem (mapped f p ?i perm ?s) q i = mem s q i"
    by (auto simp: mapped_def Let_def unmapped_def)
  ultimately show ?thesis using eq by blast
qed

lemma frame_example_table: "table_ok frame_example 0xF0100000 0xF6000000 0xF012C000"
  by (simp add: table_ok_def frame_example_def Let_def PDX_def present_def EXTRACT_ADDRESS_def PPN_def
      CHECK_IF_KERNEL_ADDRESS_def)

theorem map_frame_counts_witness:
  "\<exists>t. map_frame (\<lambda>_ _ _. Inl Fault) 0xF0100000 502 0xF6000000 2 frame_example = Inr t
     \<and> mm_inv t {0xF012C000} (\<lambda>f. if f = 300 then 1 else 0) \<and> frame_of (mem t 0xF012C000 0) = 502"
  using map_frame_counts [OF frame_example_inv frame_example_calm frame_example_table, of 502 2]
  by (fastforce simp: frame_example_def null_frame_info_def PTX_def CHECK_IF_KERNEL_ADDRESS_def)

text \<open>Unmapping an address whose page table exists succeeds, keeps every reference count
  exact, leaves an entry that is not present, and changes no other entry; the frame goes to
  the free list exactly when this was its last reference.\<close>

theorem unmap_frame_counts:
  assumes "mm_inv s T pins" and "calm s" and "table_ok s dir va p" and "p \<in> T"
  shows "\<exists>t. unmap_frame dir va s = Inr t \<and> mm_inv t T pins \<and> \<not> present (mem t p (unat (PTX va)))
    \<and> (\<forall>q i. (q, i) \<noteq> (p, unat (PTX va)) \<longrightarrow> mem t q i = mem s q i)
    \<and> (present (mem s p (unat (PTX va))) \<longrightarrow>
        (frame_of (mem s p (unat (PTX va))) \<in> set (free_frame_list t)
          \<longleftrightarrow> references (frames_info s (frame_of (mem s p (unat (PTX va))))) = 1))"
proof -
  let ?i = "unat (PTX va)" and ?t = "unmapped p (unat (PTX va)) s"
  have eq: "unmap_frame dir va s = Inr ?t"
    by (rule unmap_frame_ok [OF assms(3) mm_inv_entry [OF assms(1,4) PTX_less] assms(2)])
  have "\<forall>q i. (q, i) \<noteq> (p, ?i) \<longrightarrow> mem ?t q i = mem s q i" by (auto simp: unmapped_def)
  moreover have "frame_of (mem s p ?i) \<in> set (free_frame_list ?t) \<longleftrightarrow> references (frames_info s (frame_of (mem s p ?i))) = 1"
    if "present (mem s p ?i)"
  proof -
    have "frame_of (mem s p ?i) \<notin> set (free_frame_list s)"
      using mm_inv_referenced [OF assms(1,4) PTX_less that] assms(1) by (auto simp: mm_inv_def)
    then show ?thesis using that by (simp add: unmapped_def drop_ref_def set_frame_def)
  qed
  ultimately show ?thesis
    using eq mm_inv_unmapped [OF assms(1,4) PTX_less] unmapped_not_present by blast
qed

theorem unmap_frame_counts_witness:
  "\<exists>t. unmap_frame 0xF0100000 0xF6000000 frame_example = Inr t
     \<and> mm_inv t {0xF012C000} (\<lambda>f. if f = 300 then 1 else 0) \<and> \<not> present (mem t 0xF012C000 0)"
  using unmap_frame_counts [OF frame_example_inv frame_example_calm frame_example_table]
  by (fastforce simp: PTX_def)

end
