(* ===== verification/FOS_Paging.thy ===== *)
theory FOS_Paging
  imports FOS_Frames
begin

text \<open>
  The entry-level helpers of \<^verbatim>\<open>kern/mem/paging_helpers.c\<close>: reading and updating the permission
  bits of a page, translating an address, allocating one page.  The functions of that file that
  consist of a single \<open>panic\<close> (\<open>physical_to_virtual\<close>, \<open>alloc_shared_page\<close>) are not modelled;
  \<open>del_page_table\<close>, which frees the table with \<open>kfree\<close>, is in \<open>FOS_Kheap\<close>.
\<close>

section \<open>Table entries\<close>

definition pt_set_page_permissions ::
  "u32 \<Rightarrow> u32 \<Rightarrow> u32 \<Rightarrow> u32 \<Rightarrow> 'a kmem_scheme \<Rightarrow> 'a kmem_scheme res" where
  "pt_set_page_permissions directory va permissions_to_set permissions_to_clear s =
     bindE (get_page_table directory va s) (\<lambda>(ret, table, s1).
     if table \<noteq> 0 then
       bindE (load table (PTX va) s1) (\<lambda>e.
       bindE (store table (PTX va) (e OR permissions_to_set) s1) (\<lambda>s2.
       bindE (load table (PTX va) s2) (\<lambda>e2.
       store table (PTX va) (e2 AND NOT permissions_to_clear) s2)))
     else Inl (Panic ''function pt_set_page_permissions() called with invalid virtual address.''))"

definition pt_get_page_permissions :: "u32 \<Rightarrow> u32 \<Rightarrow> 'a kmem_scheme \<Rightarrow> (u32 \<times> 'a kmem_scheme) res" where
  "pt_get_page_permissions directory va s =
     bindE (get_page_table directory va s) (\<lambda>(ret, table, s1).
     if table = 0 then Inr (- 1, s1)
     else bindE (load table (PTX va) s1) (\<lambda>e. Inr (e, s1)))"

definition pt_clear_page_table_entry :: "u32 \<Rightarrow> u32 \<Rightarrow> 'a kmem_scheme \<Rightarrow> 'a kmem_scheme res" where
  "pt_clear_page_table_entry directory va s =
     bindE (get_page_table directory va s) (\<lambda>(ret, table, s1).
     if table = 0 then Inl (Panic ''Page table does not exist, can't call pt_clear_page_table_entry'')
     else store table (PTX va) 0 s1)"

section \<open>Addresses and references\<close>

definition virtual_to_physical :: "u32 \<Rightarrow> u32 \<Rightarrow> 'a kmem_scheme \<Rightarrow> (u32 \<times> 'a kmem_scheme) res" where
  "virtual_to_physical directory va s =
     bindE (get_page_table directory va s) (\<lambda>(ret, table, s1).
     if table = 0 then Inr (- 1, s1)
     else bindE (load table (PTX va) s1) (\<lambda>pte.
       if pte AND PERM_PRESENT = 0 then Inr (- 1, s1)
       else let physical_frame_address = pte AND 0xFFF; page_offset = va AND 0xFFF
            in Inr (physical_frame_address + page_offset, s1)))"

definition num_of_references :: "u32 \<Rightarrow> 'a kmem_scheme \<Rightarrow> u32 res" where
  "num_of_references pa s = bindE (to_frame_info pa s) (\<lambda>f. Inr (ucast (references (frames_info s f))))"

section \<open>Allocating a page\<close>

text \<open>\<open>allocate_frame\<close> and \<open>map_frame\<close> never return the error code \<open>E_NO_MEM\<close> (they return 0 or
  panic), so the two error exits of the code are not reachable and have no branch here.\<close>

definition alloc_page ::
  "(u32 \<Rightarrow> u32 \<Rightarrow> 'a kmem_scheme \<Rightarrow> (u32 \<times> 'a kmem_scheme) res) \<Rightarrow>
   u32 \<Rightarrow> u32 \<Rightarrow> u32 \<Rightarrow> bool \<Rightarrow> 'a kmem_scheme \<Rightarrow> (u32 \<times> 'a kmem_scheme) res" where
  "alloc_page create_table directory va perms set_to_zero s =
     bindE (get_frame_info directory va s) (\<lambda>(fp, table, s1).
     case fp of
       Some _ \<Rightarrow> Inr (1, s1)
     | None \<Rightarrow>
        bindE (allocate_frame s1) (\<lambda>(f, s2).
        bindE (map_frame create_table directory f va perms s2) (\<lambda>s3.
        Inr (0, if set_to_zero then clear_page va s3 else s3))))"

section \<open>Directory entries\<close>

definition pd_is_table_used :: "u32 \<Rightarrow> u32 \<Rightarrow> 'a kmem_scheme \<Rightarrow> u32 res" where
  "pd_is_table_used directory va s =
     bindE (load directory (PDX va) s) (\<lambda>e. Inr (if e AND PERM_USED = PERM_USED then 1 else 0))"

definition pd_set_table_unused :: "u32 \<Rightarrow> u32 \<Rightarrow> 'a kmem_scheme \<Rightarrow> 'a kmem_scheme res" where
  "pd_set_table_unused directory va s =
     bindE (load directory (PDX va) s) (\<lambda>e. store directory (PDX va) (e AND NOT PERM_USED) s)"

definition pd_clear_page_dir_entry :: "u32 \<Rightarrow> u32 \<Rightarrow> 'a kmem_scheme \<Rightarrow> 'a kmem_scheme res" where
  "pd_clear_page_dir_entry directory va s = store directory (PDX va) 0 s"

section \<open>Behaviour\<close>

lemma pt_set_page_permissions_ok:
  assumes "table_ok s dir va p"
  shows "pt_set_page_permissions dir va a c s =
    Inr (set_entry p (unat (PTX va)) ((mem s p (unat (PTX va)) OR a) AND NOT c) s)"
proof -
  have "p \<noteq> 0" using assms by (simp add: table_ok_def)
  then show ?thesis
    by (simp add: pt_set_page_permissions_def get_page_table_ok [OF assms] load_def store_set_entry)
      (simp add: set_entry_def)
qed

lemma pt_get_page_permissions_ok:
  assumes "table_ok s dir va p"
  shows "pt_get_page_permissions dir va s = Inr (mem s p (unat (PTX va)), s)"
proof -
  have "p \<noteq> 0" using assms by (simp add: table_ok_def)
  then show ?thesis by (simp add: pt_get_page_permissions_def get_page_table_ok [OF assms] load_def)
qed

lemma pt_clear_page_table_entry_ok:
  assumes "table_ok s dir va p"
  shows "pt_clear_page_table_entry dir va s = Inr (set_entry p (unat (PTX va)) 0 s)"
proof -
  have "p \<noteq> 0" using assms by (simp add: table_ok_def)
  then show ?thesis by (simp add: pt_clear_page_table_entry_def get_page_table_ok [OF assms] store_set_entry)
qed

text \<open>Updating permissions sets exactly the requested bits and clears exactly the requested
  ones in the entry of the page, so reading the permissions back gives the old entry with those
  changes; no other entry changes.  Without a page table the call panics.\<close>

theorem page_permissions_round_trip:
  assumes "table_ok s dir va p" and "p \<noteq> dir"
  shows "\<exists>t. pt_set_page_permissions dir va a c s = Inr t
    \<and> (CHECK_IF_KERNEL_ADDRESS va \<longrightarrow>
        pt_get_page_permissions dir va t = Inr ((mem s p (unat (PTX va)) OR a) AND NOT c, t))
    \<and> (\<forall>q i. (q, i) \<noteq> (p, unat (PTX va)) \<longrightarrow> mem t q i = mem s q i)"
proof -
  let ?t = "set_entry p (unat (PTX va)) ((mem s p (unat (PTX va)) OR a) AND NOT c) s"
  have "table_ok ?t dir va p" if "CHECK_IF_KERNEL_ADDRESS va"
    using assms that table_ok_kernel_cong [OF that, of ?t s dir p] by simp
  then have "CHECK_IF_KERNEL_ADDRESS va \<longrightarrow>
      pt_get_page_permissions dir va ?t = Inr ((mem s p (unat (PTX va)) OR a) AND NOT c, ?t)"
    by (auto simp: pt_get_page_permissions_ok)
  then show ?thesis unfolding pt_set_page_permissions_ok [OF assms(1)] by auto
qed

theorem page_permissions_round_trip_witness:
  "\<exists>t. pt_set_page_permissions 0xF0100000 0xF6000000 0x402 4 frame_example = Inr t
    \<and> pt_get_page_permissions 0xF0100000 0xF6000000 t = Inr (0x402, t)"
  using page_permissions_round_trip [OF frame_example_table, of "0x402" "4"]
  by (auto simp: CHECK_IF_KERNEL_ADDRESS_def frame_example_def)

text \<open>Allocating a page at an address that is not mapped takes a free frame, maps it there
  with one reference and keeps every count exact; at a mapped address nothing changes and the
  result is 1.\<close>

theorem alloc_page_counts:
  assumes "mm_inv s T pins" and "calm s" and "table_ok s dir va p" and "p \<in> T" and "dir \<notin> T"
    and "CHECK_IF_KERNEL_ADDRESS va" and "perms < 4096" and "perms AND PERM_BUFFERED = 0" and "free_frame_list s \<noteq> []"
  shows "\<exists>r t. alloc_page ct dir va perms False s = Inr (r, t) \<and> mm_inv t T pins
    \<and> present (mem t p (unat (PTX va)))
    \<and> (r = 1 \<and> t = s \<and> present (mem s p (unat (PTX va)))
       \<or> r = 0 \<and> \<not> present (mem s p (unat (PTX va))) \<and> free_frame_list t = tl (free_frame_list s)
          \<and> frame_of (mem t p (unat (PTX va))) = hd (free_frame_list s)
          \<and> references (frames_info t (hd (free_frame_list s))) = 1)"
proof -
  let ?i = "unat (PTX va)"
  have e: "entry_ok (number_of_frames s) (mem s p ?i)" by (rule mm_inv_entry [OF assms(1,4) PTX_less])
  note gfi = get_frame_info_ok [OF assms(3) e]
  show ?thesis
  proof (cases "present (mem s p ?i)")
    case True
    then show ?thesis using assms(1) by (simp add: alloc_page_def gfi)
  next
    case False
    obtain f fs where l: "free_frame_list s = f # fs" using assms(9) by (cases "free_frame_list s") auto
    let ?s = "set_frame f null_frame_info (s\<lparr>free_frame_list := fs\<rparr>)"
    have f: "f < unat (number_of_frames s)" "f < 1048576" "f \<notin> set fs" using assms(1) l by (auto simp: mm_inv_def)
    have t: "table_ok ?s dir va p" using assms(3) table_ok_kernel_cong [OF assms(6), of ?s s dir p] by simp
    have m: "map_frame ct dir f va perms ?s = Inr (mapped f p ?i perms (note_va f va ?s))"
      by (rule map_frame_ok [OF t]) (use e assms(2,6) f in \<open>simp_all add: set_frame_def calm_def\<close>)
    have inv: "mm_inv (mapped f p ?i perms (note_va f va ?s)) T pins"
      by (rule mm_inv_mapped [OF iffD2 [OF mm_inv_note_va mm_inv_allocate [OF assms(1) l]] assms(4) PTX_less])
        (use f assms(7,8) in \<open>simp_all add: note_va_def set_frame_def null_frame_info_def\<close>)
    have "alloc_page ct dir va perms False s = Inr (0, mapped f p ?i perms (note_va f va ?s))"
      using False by (simp add: alloc_page_def gfi allocate_frame_calm [OF assms(2) l] m)
    moreover have "free_frame_list (mapped f p ?i perms (note_va f va ?s)) = fs"
      "references (frames_info (mapped f p ?i perms (note_va f va ?s)) f) = 1"
      using False by (simp_all add: mapped_def unmapped_def Let_def) (simp_all add: frame_ops null_frame_info_def)
    moreover have "present (mem (mapped f p ?i perms (note_va f va ?s)) p ?i)"
      "frame_of (mem (mapped f p ?i perms (note_va f va ?s)) p ?i) = f"
      using frame_of_new [OF f(2) assms(7)] new_entry_facts(1) False by (simp_all add: mapped_def Let_def)
    ultimately show ?thesis using inv False l by auto
  qed
qed

theorem alloc_page_counts_witness:
  "\<exists>t. alloc_page (\<lambda>_ _ _. Inl Fault) 0xF0100000 0xF6000000 2 False frame_example = Inr (0, t)
    \<and> mm_inv t {0xF012C000} (\<lambda>f. if f = 300 then 1 else 0)
    \<and> frame_of (mem t 0xF012C000 0) = 500 \<and> free_frame_list t = [501]"
  using alloc_page_counts [OF frame_example_inv frame_example_calm frame_example_table, of "2"]
  by (fastforce simp: frame_example_def PTX_def CHECK_IF_KERNEL_ADDRESS_def present_def)

text \<open>The address translation helper masks the entry with the offset bits instead of the frame
  bits: whatever frame a page is mapped to, the result lies below 8192, so for every page mapped
  to a frame of at least 2 it is not the physical address of the byte.\<close>

theorem virtual_to_physical_wrong:
  assumes "table_ok s dir va p" and "present (mem s p (unat (PTX va)))"
  shows "\<exists>pa. virtual_to_physical dir va s = Inr (pa, s) \<and> unat pa < 8192
    \<and> (2 \<le> frame_of (mem s p (unat (PTX va))) \<longrightarrow> pa \<noteq> EXTRACT_ADDRESS (mem s p (unat (PTX va))) + (va AND 0xFFF))"
proof -
  let ?e = "mem s p (unat (PTX va))"
  have p: "p \<noteq> 0" using assms(1) by (simp add: table_ok_def)
  have "?e AND 1 \<noteq> 0" using assms(2) by (simp add: present_def)
  then have eq: "virtual_to_physical dir va s = Inr ((?e AND 0xFFF) + (va AND 0xFFF), s)"
    by (simp add: virtual_to_physical_def get_page_table_ok [OF assms(1)] load_def p)
  have le: "unat (x AND 0xFFF) \<le> 4095" for x :: u32
    using word_and_le1 [of x "0xFFF"] by (simp add: word_le_nat_alt)
  have sum: "unat ((?e AND 0xFFF) + (va AND 0xFFF)) < 8192"
    using le [of ?e] le [of va] by (subst unat_u32_plus) linarith+
  have "8192 \<le> unat (EXTRACT_ADDRESS ?e + (va AND 0xFFF))" if "2 \<le> frame_of ?e"
  proof -
    have "4096 * frame_of ?e + 4095 < 4294967296" using frame_of_less [of ?e] by simp
    then show ?thesis using that unat_EXTRACT_ADDRESS [of ?e] le [of va] by (subst unat_u32_plus) linarith+
  qed
  then show ?thesis using eq sum by fastforce
qed

definition mapped_example :: kmem where
  "mapped_example = set_entry 0xF012C000 0 0x1F4003 frame_example"

lemma mapped_example_table: "table_ok mapped_example 0xF0100000 0xF6000000 0xF012C000"
  using frame_example_table table_ok_kernel_cong [of "0xF6000000" mapped_example frame_example "0xF0100000" "0xF012C000"]
  by (simp add: mapped_example_def CHECK_IF_KERNEL_ADDRESS_def)

theorem virtual_to_physical_wrong_witness:
  "\<exists>pa. virtual_to_physical 0xF0100000 0xF6000000 mapped_example = Inr (pa, mapped_example) \<and> unat pa < 8192
     \<and> pa \<noteq> 0x1F4000"
proof -
  have e: "mem mapped_example 0xF012C000 (unat (PTX 0xF6000000)) = 0x1F4003"
    by (simp add: mapped_example_def PTX_def)
  with virtual_to_physical_wrong [OF mapped_example_table] show ?thesis
    by (auto simp: e present_def frame_of_eq EXTRACT_ADDRESS_def)
qed

end
