(* ===== verification/FOS_Kheap.thy ===== *)
theory FOS_Kheap
  imports FOS_Paging FOS_DynAlloc
begin

text \<open>
  The kernel heap of \<^verbatim>\<open>kern/mem/kheap.c\<close>: the block allocator of \<open>FOS_DynAlloc\<close> on the range
  [\<open>dynAllocStart\<close>, \<open>dynAllocEnd\<close>) and, above it, a page allocator with the custom-fit strategy on
  [\<open>kheapPageAllocStart\<close>, \<open>kheapPageAllocBreak\<close>).  The free-block list that \<open>MERGEE\<close> merges is never
  filled by the code (its head stays \<open>NULL\<close>), so \<open>MERGEE\<close> returns at its first test and has no
  counterpart here.  The rollback code for a failing \<open>allocate_frame\<close> is not reachable:
  \<open>allocate_frame\<close> and \<open>map_frame\<close> return 0 or panic.  The array \<open>allocatedSize\<close> is indexed by page
  number; the code indexes past its declared length, and the model reads and writes it as an
  array that is long enough.
\<close>

section \<open>State\<close>

record kheap = kmem +
  kh_da :: dyn_alloc
  kheapPageAllocStart :: u32
  kheapPageAllocBreak :: u32
  kheapPlacementStrategy :: u32
  allocatedSize :: "nat \<Rightarrow> u32"

type_synonym 'a table_creator = "u32 \<Rightarrow> u32 \<Rightarrow> 'a kheap_scheme \<Rightarrow> (u32 \<times> 'a kheap_scheme) res"

abbreviation (input) KHP_PLACE_CUSTOMFIT :: u32 where "KHP_PLACE_CUSTOMFIT \<equiv> 5"

definition kheap_init :: "'a kheap_scheme \<Rightarrow> 'a kheap_scheme res" where
  "kheap_init s =
     bindE (initialize_dynamic_allocator KERNEL_HEAP_START (KERNEL_HEAP_START + DYN_ALLOC_MAX_SIZE) (kh_da s)) (\<lambda>d.
     Inr (s\<lparr>kh_da := d, kheapPlacementStrategy := KHP_PLACE_CUSTOMFIT,
            kheapPageAllocStart := dynAllocEnd d + PAGE_SIZE,
            kheapPageAllocBreak := dynAllocEnd d + PAGE_SIZE,
            heap_lock := init_kspinlock (heap_lock s)\<rparr>))"

section \<open>Pages for the block allocator\<close>

definition get_page :: "'a table_creator \<Rightarrow> u32 \<Rightarrow> 'a kheap_scheme \<Rightarrow> 'a kheap_scheme res" where
  "get_page create_table va s =
     bindE (alloc_page create_table (ptr_page_directory s) (ROUNDDOWN va PAGE_SIZE) PERM_WRITEABLE True s) (\<lambda>(ret, s1).
     if ret <s 0 then Inl (Panic ''get_page() in kern: failed to allocate page from the kernel'') else Inr s1)"

definition return_page :: "u32 \<Rightarrow> 'a kheap_scheme \<Rightarrow> 'a kheap_scheme res" where
  "return_page va s = unmap_frame (ptr_page_directory s) (ROUNDDOWN va PAGE_SIZE) s"

section \<open>The search for a hole\<close>

record scan =
  sc_start :: u32
  sc_len :: u32
  sc_exact :: u32
  sc_worst :: u32
  sc_worst_len :: u32

definition scan_init :: scan where
  "scan_init = \<lparr>sc_start = 0, sc_len = 0, sc_exact = 0, sc_worst = 0, sc_worst_len = 0\<rparr>"

definition scan_free :: "u32 \<Rightarrow> scan \<Rightarrow> scan" where
  "scan_free va sc =
     (let sc1 = (if sc_len sc = 0 then sc\<lparr>sc_start := va\<rparr> else sc) in sc1\<lparr>sc_len := sc_len sc1 + 1\<rparr>)"

text \<open>The end of a hole: remember the first hole that fits exactly and the first of the largest ones.\<close>

definition scan_close :: "u32 \<Rightarrow> scan \<Rightarrow> scan" where
  "scan_close wanted sc =
     (if sc_len sc > 0 then
        let sc1 = (if sc_len sc = wanted \<and> sc_exact sc = 0 then sc\<lparr>sc_exact := sc_start sc\<rparr> else sc);
            sc2 = (if sc_len sc1 \<ge> wanted \<and> sc_len sc1 > sc_worst_len sc1
                   then sc1\<lparr>sc_worst_len := sc_len sc1, sc_worst := sc_start sc1\<rparr> else sc1)
        in sc2\<lparr>sc_len := 0\<rparr>
      else sc)"

text \<open>The loop over the pages below the break.  The fuel is the number of pages of the address space;
  running out of it would be an endless loop.\<close>

definition heap_fuel :: nat where
  "heap_fuel = 1048576"

fun kmalloc_scan :: "nat \<Rightarrow> u32 \<Rightarrow> u32 \<Rightarrow> scan \<Rightarrow> 'a kheap_scheme \<Rightarrow> (scan \<times> 'a kheap_scheme) res" where
  "kmalloc_scan 0 wanted va sc s = (if va < kheapPageAllocBreak s then Inl Spin else Inr (sc, s))"
| "kmalloc_scan (Suc n) wanted va sc s =
     (if va < kheapPageAllocBreak s then
        bindE (get_frame_info (ptr_page_directory s) va s) (\<lambda>(fp, table, s1).
        kmalloc_scan n wanted (va + PAGE_SIZE)
          (case fp of None \<Rightarrow> scan_free va sc | Some _ \<Rightarrow> scan_close wanted sc) s1)
      else Inr (sc, s))"

section \<open>Allocation\<close>

fun kmalloc_fill :: "'a table_creator \<Rightarrow> nat \<Rightarrow> u32 \<Rightarrow> 'a kheap_scheme \<Rightarrow> 'a kheap_scheme res" where
  "kmalloc_fill create_table 0 va s = Inr s"
| "kmalloc_fill create_table (Suc n) va s =
     bindE (allocate_frame s) (\<lambda>(f, s1).
     bindE (map_frame create_table (ptr_page_directory s1) f va (PERM_WRITEABLE OR PERM_PRESENT) s1) (\<lambda>s2.
     kmalloc_fill create_table n (va + PAGE_SIZE) s2))"

fun set_sizes :: "nat \<Rightarrow> nat \<Rightarrow> u32 \<Rightarrow> (nat \<Rightarrow> u32) \<Rightarrow> nat \<Rightarrow> u32" where
  "set_sizes k 0 v a = a"
| "set_sizes k (Suc n) v a = set_sizes (Suc k) n v (a(k := v))"

definition kmalloc_record :: "u32 \<Rightarrow> u32 \<Rightarrow> 'a kheap_scheme \<Rightarrow> 'a kheap_scheme res" where
  "kmalloc_record va pages s =
     (let sz = pages * PAGE_SIZE;
          s1 = s\<lparr>allocatedSize := set_sizes (unat (drop_bit 12 va)) (unat pages) sz (allocatedSize s)\<rparr>
      in bindE (get_frame_info (ptr_page_directory s1) va s1) (\<lambda>(fp, table, s2).
         Inr (case fp of None \<Rightarrow> s2 | Some f \<Rightarrow> set_frame f ((frames_info s2 f)\<lparr>fi_size := sz\<rparr>) s2)))"

definition finish :: "u32 \<Rightarrow> 'a kheap_scheme \<Rightarrow> (u32 \<times> 'a kheap_scheme) res" where
  "finish v s = bindE (heap_release s) (\<lambda>s1. Inr (v, s1))"

definition kmalloc_pages :: "'a table_creator \<Rightarrow> u32 \<Rightarrow> 'a kheap_scheme \<Rightarrow> (u32 \<times> 'a kheap_scheme) res" where
  "kmalloc_pages create_table pages s =
     bindE (kmalloc_scan heap_fuel pages (kheapPageAllocStart s) scan_init s) (\<lambda>(sc0, s1).
     let sc = scan_close pages sc0;
         place = (if sc_exact sc \<noteq> 0 then sc_exact sc else if sc_worst sc \<noteq> 0 then sc_worst sc else 0)
     in if place \<noteq> 0 then
          bindE (kmalloc_fill create_table (unat pages) place s1) (\<lambda>s2.
          bindE (kmalloc_record place pages s2) (finish place))
        else
          let brk = kheapPageAllocBreak s1; new_brk = brk + pages * PAGE_SIZE
          in if new_brk < brk \<or> KERNEL_HEAP_MAX \<le> new_brk then finish 0 s1
             else bindE (kmalloc_fill create_table (unat pages) brk s1) (\<lambda>s2.
                  bindE (kmalloc_record brk pages (s2\<lparr>kheapPageAllocBreak := new_brk\<rparr>)) (finish brk)))"

text \<open>Waiting for a block happens with the heap lock held and interrupts off, so nothing on this
  processor can end it: \<open>Spin\<close>.\<close>

definition kmalloc_with :: "'a table_creator \<Rightarrow> u32 \<Rightarrow> 'a kheap_scheme \<Rightarrow> (u32 \<times> 'a kheap_scheme) res" where
  "kmalloc_with create_table sz s = bindE (heap_acquire s) (\<lambda>s1.
     let pages = ROUNDUP sz PAGE_SIZE div PAGE_SIZE in
     if sz = 0 then finish 0 s1
     else if sz \<le> DYN_ALLOC_MAX_BLOCK_SIZE then
       bindE (alloc_block (get_page create_table) sz (kh_da s1, s1)) (\<lambda>(r, d, s2).
         case r of Wait \<Rightarrow> Inl Spin | Ret b \<Rightarrow> finish b (s2\<lparr>kh_da := d\<rparr>))
     else if KERNEL_HEAP_MAX \<le> kheapPageAllocBreak s1 + pages * PAGE_SIZE
           \<or> kheapPageAllocBreak s1 + pages * PAGE_SIZE < kheapPageAllocBreak s1 then finish 0 s1
     else kmalloc_pages create_table pages
       (if kheapPageAllocBreak s1 = 0
        then s1\<lparr>kheapPageAllocStart := ROUNDUP (dynAllocEnd (kh_da s1)) PAGE_SIZE,
                kheapPageAllocBreak := ROUNDUP (dynAllocEnd (kh_da s1)) PAGE_SIZE\<rparr>
        else s1))"

section \<open>Release\<close>

fun kfree_pages :: "nat \<Rightarrow> u32 \<Rightarrow> 'a kheap_scheme \<Rightarrow> 'a kheap_scheme res" where
  "kfree_pages 0 va s = Inr s"
| "kfree_pages (Suc n) va s =
     bindE (return_page va s) (\<lambda>s1.
     kfree_pages n (va + PAGE_SIZE)
       (s1\<lparr>allocatedSize := (allocatedSize s1)(unat (drop_bit 12 va) := 0)\<rparr>))"

fun kfree_break :: "nat \<Rightarrow> u32 \<Rightarrow> 'a kheap_scheme \<Rightarrow> (u32 \<times> 'a kheap_scheme) res" where
  "kfree_break 0 brk s = (if kheapPageAllocStart s < brk then Inl Spin else Inr (brk, s))"
| "kfree_break (Suc n) brk s =
     (if kheapPageAllocStart s < brk then
        bindE (get_frame_info (ptr_page_directory s) (brk - PAGE_SIZE) s) (\<lambda>(fp, table, s1).
        if (case fp of None \<Rightarrow> False | Some f \<Rightarrow> 0 < references (frames_info s1 f)) then Inr (brk, s1)
        else kfree_break n (brk - PAGE_SIZE) s1)
      else Inr (brk, s))"

definition kfree :: "u32 \<Rightarrow> 'a kheap_scheme \<Rightarrow> 'a kheap_scheme res" where
  "kfree va s = bindE (heap_acquire s) (\<lambda>s1.
     if dynAllocStart (kh_da s1) \<le> va \<and> va < dynAllocEnd (kh_da s1) then
       bindE (free_block return_page va (kh_da s1, s1)) (\<lambda>(d, s2). heap_release (s2\<lparr>kh_da := d\<rparr>))
     else if kheapPageAllocStart s1 \<le> va \<and> va < KERNEL_HEAP_MAX then
       (let va = ROUNDDOWN va PAGE_SIZE in
        bindE (get_frame_info (ptr_page_directory s1) va s1) (\<lambda>(fp, table, s2).
        case fp of
          None \<Rightarrow> bindE (heap_release s2) (\<lambda>_. Inl (Panic ''trying to free unallocated page''))
        | Some _ \<Rightarrow>
           (let sz = allocatedSize s2 (unat (drop_bit 12 va)) in
            if sz = 0 then bindE (heap_release s2) (\<lambda>_. Inl (Panic ''size not found for this address''))
            else bindE (kfree_pages (unat ((sz + PAGE_SIZE - 1) div PAGE_SIZE)) va s2) (\<lambda>s3.
                 bindE (kfree_break heap_fuel (kheapPageAllocBreak s3) s3) (\<lambda>(brk, s4).
                 heap_release (s4\<lparr>kheapPageAllocBreak := brk\<rparr>))))))
     else if va < KERNEL_HEAP_START \<or> KERNEL_HEAP_MAX \<le> va then
       bindE (heap_release s1) (\<lambda>_. Inl (Panic ''Invalid Address''))
     else Inr s1)"

section \<open>Translation\<close>

definition kheap_physical_address :: "u32 \<Rightarrow> 'a kmem_scheme \<Rightarrow> (u32 \<times> 'a kmem_scheme) res" where
  "kheap_physical_address va s = bindE (heap_acquire s) (\<lambda>s1.
     if va < KERNEL_HEAP_START then bindE (heap_release s1) (\<lambda>s2. Inr (0, s2))
     else if KERNEL_HEAP_MAX \<le> va then bindE (heap_release s1) (\<lambda>s2. Inr (0, s2))
     else bindE (get_page_table (ptr_page_directory s1) va s1) (\<lambda>(ret, table, s2).
       if ret = TABLE_NOT_EXIST \<or> table = 0 then bindE (heap_release s2) (\<lambda>s3. Inr (0, s3))
       else bindE (load table (PTX va) s2) (\<lambda>page_entry.
         if page_entry AND 1 \<noteq> 0 then
           bindE (heap_release s2) (\<lambda>s3.
             Inr ((page_entry AND NOT (PAGE_SIZE - 1)) + (va AND (PAGE_SIZE - 1)), s3))
         else bindE (heap_release s2) (\<lambda>s3. Inr (0, s3)))))"

section \<open>Closing the recursion through the page tables\<close>

text \<open>
  \<open>map_frame\<close> creates a missing page table with \<open>create_page_table\<close>, which calls \<open>kmalloc\<close> again.
  Inside \<open>kmalloc\<close> the heap lock is held, so that inner call stops at \<open>acquire_kspinlock\<close> with a
  panic (lemma \<open>heap_acquire_nested\<close>); whatever would follow is unreachable.
\<close>

definition kmalloc_nested :: "u32 \<Rightarrow> 'a kheap_scheme \<Rightarrow> (u32 \<times> 'a kheap_scheme) res" where
  "kmalloc_nested sz s = bindE (heap_acquire s) (\<lambda>_. Inl Fault)"

definition kmalloc :: "u32 \<Rightarrow> 'a kheap_scheme \<Rightarrow> (u32 \<times> 'a kheap_scheme) res" where
  "kmalloc = kmalloc_with (create_page_table kmalloc_nested kheap_physical_address)"

definition kernel_create_page_table :: "'a table_creator" where
  "kernel_create_page_table = create_page_table kmalloc kheap_physical_address"

text \<open>\<open>del_page_table\<close> of \<^verbatim>\<open>paging_helpers.c\<close>; its directory argument is not used by the code.\<close>

definition del_page_table :: "u32 \<Rightarrow> u32 \<Rightarrow> 'a kheap_scheme \<Rightarrow> 'a kheap_scheme res" where
  "del_page_table page_dir va s =
     bindE (get_page_table (ptr_page_directory s) va s) (\<lambda>(ret, table, s1).
     if table = 0 then Inr s1
     else bindE (kfree table s1) (\<lambda>s2. store (ptr_page_directory s2) (PDX va) 0 s2))"

section \<open>Custom fit\<close>

text \<open>The holes of a sequence of pages (address, is it free?): the maximal runs of free pages, in order.\<close>

type_synonym hole = "u32 \<times> nat"

fun holes_from :: "hole option \<Rightarrow> (u32 \<times> bool) list \<Rightarrow> hole list" where
  "holes_from None [] = []"
| "holes_from (Some h) [] = [h]"
| "holes_from cur ((va, True) # ps) =
     holes_from (Some (case cur of None \<Rightarrow> (va, 1) | Some (st, n) \<Rightarrow> (st, n + 1))) ps"
| "holes_from None ((va, False) # ps) = holes_from None ps"
| "holes_from (Some h) ((va, False) # ps) = h # holes_from None ps"

definition holes :: "(u32 \<times> bool) list \<Rightarrow> hole list" where
  "holes ps = holes_from None ps"

text \<open>Custom fit: the first hole of exactly the wanted size, otherwise the first of the largest holes
  that are big enough.\<close>

fun largest_from :: "nat \<Rightarrow> hole option \<Rightarrow> hole list \<Rightarrow> hole option" where
  "largest_from n best [] = best"
| "largest_from n best (h # hs) =
     largest_from n (if n \<le> snd h \<and> (case best of None \<Rightarrow> True | Some b \<Rightarrow> snd b < snd h) then Some h else best) hs"

definition custom_fit :: "nat \<Rightarrow> hole list \<Rightarrow> u32 option" where
  "custom_fit n hs = (case find (\<lambda>h. snd h = n) hs of
     Some h \<Rightarrow> Some (fst h) | None \<Rightarrow> map_option fst (largest_from n None hs))"

lemma largest_from_spec:
  assumes "largest_from n best hs = r" and "\<And>b. best = Some b \<Longrightarrow> n \<le> snd b"
  shows "case r of None \<Rightarrow> best = None \<and> (\<forall>h \<in> set hs. snd h < n)
    | Some b \<Rightarrow> n \<le> snd b \<and> (b \<in> set hs \<or> best = Some b)
        \<and> (\<forall>h \<in> set hs. snd h \<le> snd b) \<and> (\<forall>c. best = Some c \<longrightarrow> snd c \<le> snd b)"
  using assms
proof (induction hs arbitrary: best)
  case Nil
  then show ?case by (cases best) auto
next
  case (Cons h hs)
  show ?case
  proof (cases "n \<le> snd h \<and> (case best of None \<Rightarrow> True | Some b \<Rightarrow> snd b < snd h)")
    case True
    then have "largest_from n (Some h) hs = r" using Cons.prems(1) by simp
    from Cons.IH [OF this] True show ?thesis by (auto split: option.splits)
  next
    case False
    then have "largest_from n best hs = r" using Cons.prems(1) by (simp split: if_splits)
    from Cons.IH [OF this Cons.prems(2)] False show ?thesis by (auto split: option.splits)
  qed
qed

text \<open>The scan of the code, as a function on the same sequence.\<close>

fun scan_pages :: "u32 \<Rightarrow> (u32 \<times> bool) list \<Rightarrow> scan \<Rightarrow> scan" where
  "scan_pages w [] sc = scan_close w sc"
| "scan_pages w ((va, fr) # ps) sc = scan_pages w ps (if fr then scan_free va sc else scan_close w sc)"

definition scan_rel :: "u32 \<Rightarrow> scan \<Rightarrow> hole option \<Rightarrow> u32 option \<Rightarrow> hole option \<Rightarrow> bool" where
  "scan_rel w sc cur exact best \<longleftrightarrow>
     (case cur of None \<Rightarrow> sc_len sc = 0 | Some (st, n) \<Rightarrow> sc_start sc = st \<and> unat (sc_len sc) = n \<and> 0 < n)
     \<and> sc_exact sc = (case exact of None \<Rightarrow> 0 | Some a \<Rightarrow> a)
     \<and> (case best of None \<Rightarrow> sc_worst sc = 0 \<and> sc_worst_len sc = 0
        | Some (a, n) \<Rightarrow> sc_worst sc = a \<and> unat (sc_worst_len sc) = n \<and> unat w \<le> n)"

definition first_exact :: "nat \<Rightarrow> u32 option \<Rightarrow> hole list \<Rightarrow> u32 option" where
  "first_exact n e hs = (case e of Some a \<Rightarrow> Some a | None \<Rightarrow> map_option fst (find (\<lambda>h. snd h = n) hs))"

lemma scan_rel_free:
  assumes "scan_rel w sc cur e b" and "unat (sc_len sc) < 4294967295"
  shows "scan_rel w (scan_free va sc) (Some (case cur of None \<Rightarrow> (va, 1) | Some (st, n) \<Rightarrow> (st, n + 1))) e b"
proof -
  have "unat (sc_len sc + 1) = unat (sc_len sc) + 1" using assms(2) by (simp add: unat_u32_plus)
  moreover have "0 < unat (sc_len sc) \<Longrightarrow> sc_len sc \<noteq> 0" by auto
  ultimately show ?thesis
    using assms(1) by (auto simp: scan_rel_def scan_free_def Let_def split: option.splits)
qed

lemma scan_rel_close_some:
  assumes "scan_rel w sc (Some h) e b" and "fst h \<noteq> 0" and "0 < w" and "\<And>a. e = Some a \<Longrightarrow> a \<noteq> 0"
  shows "scan_rel w (scan_close w sc) None (first_exact (unat w) e [h]) (largest_from (unat w) b [h])"
proof -
  obtain st n where h: "h = (st, n)" by (cases h)
  have st: "sc_start sc = st" "unat (sc_len sc) = n" "0 < n" using assms(1) by (auto simp: scan_rel_def h)
  have len: "0 < sc_len sc" using st by (simp add: word_less_nat_alt)
  have ex: "sc_exact sc = 0 \<longleftrightarrow> e = None" using assms(1,4) by (auto simp: scan_rel_def split: option.splits)
  have eqw: "sc_len sc = w \<longleftrightarrow> n = unat w" using st by (auto simp: word_unat_eq_iff)
  have lew: "w \<le> sc_len sc \<longleftrightarrow> unat w \<le> n" using st by (simp add: word_le_nat_alt)
  show ?thesis
  proof (cases b)
    case None
    then have "sc_worst_len sc = 0" using assms(1) by (simp add: scan_rel_def)
    then show ?thesis using assms(1) st len ex eqw lew None
      by (auto simp: scan_rel_def scan_close_def Let_def h first_exact_def split: option.splits)
  next
    case (Some c)
    then have "sc_worst_len sc < sc_len sc \<longleftrightarrow> snd c < n"
      using assms(1) st by (auto simp: scan_rel_def word_less_nat_alt)
    then show ?thesis using assms(1) st len ex eqw lew Some
      by (auto simp: scan_rel_def scan_close_def Let_def h first_exact_def split: option.splits)
  qed
qed

lemma scan_rel_close_none: "scan_rel w sc None e b \<Longrightarrow> scan_close w sc = sc"
  by (simp add: scan_rel_def scan_close_def)

lemma first_exact_Cons: "first_exact n e (h # hs) = first_exact n (first_exact n e [h]) hs"
  by (auto simp: first_exact_def split: option.splits)

definition cur_ok :: "hole option \<Rightarrow> bool" where
  "cur_ok cur = (case cur of None \<Rightarrow> True | Some h \<Rightarrow> fst h \<noteq> 0)"

definition grow :: "u32 \<Rightarrow> hole option \<Rightarrow> hole" where
  "grow va cur = (case cur of None \<Rightarrow> (va, 1) | Some (st, n) \<Rightarrow> (st, n + 1))"

lemma cur_ok_grow: "\<lbrakk>cur_ok cur; va \<noteq> 0\<rbrakk> \<Longrightarrow> cur_ok (Some (grow va cur))"
  by (auto simp: cur_ok_def grow_def split: option.splits prod.splits)

lemma scan_pages_correct:
  assumes "scan_rel w sc cur e b" and "0 < w" and "\<And>a. e = Some a \<Longrightarrow> a \<noteq> 0"
    and "0 \<notin> fst ` set ps" and "cur_ok cur" and "unat (sc_len sc) + length ps < 4294967295"
  shows "scan_rel w (scan_pages w ps sc) None
    (first_exact (unat w) e (holes_from cur ps)) (largest_from (unat w) b (holes_from cur ps))"
  using assms
proof (induction cur ps arbitrary: sc e b rule: holes_from.induct)
  case 1
  then show ?case by (cases e) (simp_all add: scan_rel_close_none first_exact_def)
next
  case (2 h)
  then show ?case using scan_rel_close_some [of w sc h e b] by (auto simp: cur_ok_def)
next
  case (3 cur va ps)
  have l: "unat (sc_len (scan_free va sc)) \<le> unat (sc_len sc) + 1"
    using 3(7) by (auto simp: scan_free_def Let_def unat_u32_plus)
  have "unat (sc_len (scan_free va sc)) + length ps < 4294967295" using l 3(7) by simp
  moreover have "va \<noteq> 0" "0 \<notin> fst ` set ps" "unat (sc_len sc) < 4294967295" using 3(5,7) by auto
  ultimately show ?case
    using 3(1) [OF scan_rel_free [OF 3(2)] 3(3,4)] cur_ok_grow [OF 3(6)] by (simp add: grow_def)
next
  case (4 va ps)
  then show ?case by (simp add: scan_rel_close_none)
next
  case (5 h va ps)
  note c = scan_rel_close_some [OF 5(2) _ 5(3,4)]
  have h: "fst h \<noteq> 0" using 5(6) by (simp add: cur_ok_def)
  have z: "sc_len (scan_close w sc) = 0" using c [OF h] by (simp add: scan_rel_def)
  have ne: "a \<noteq> 0" if "first_exact (unat w) e [h] = Some a" for a
    using that 5(4) h by (auto simp: first_exact_def split: option.splits if_splits)
  show ?case
    using 5(1) [OF c [OF h] 5(3) ne] 5(5,7) z
    unfolding holes_from.simps first_exact_Cons [of _ e h "holes_from None ps"]
    by (simp add: cur_ok_def split: if_splits)
qed

definition place_of :: "scan \<Rightarrow> u32" where
  "place_of sc = (if sc_exact sc \<noteq> 0 then sc_exact sc else if sc_worst sc \<noteq> 0 then sc_worst sc else 0)"

lemma holes_from_nonzero:
  "\<lbrakk>h \<in> set (holes_from cur ps); 0 \<notin> fst ` set ps; cur_ok cur\<rbrakk> \<Longrightarrow> fst h \<noteq> 0"
proof (induction cur ps rule: holes_from.induct)
  case (3 cur va ps)
  then show ?case using cur_ok_grow [of cur va] by (simp add: grow_def)
qed (auto simp: cur_ok_def)

lemma scan_custom_fit:
  assumes "0 < w" and "0 \<notin> fst ` set ps" and "length ps < 4294967295"
  shows "place_of (scan_pages w ps scan_init) = (case custom_fit (unat w) (holes ps) of None \<Rightarrow> 0 | Some a \<Rightarrow> a)"
proof -
  have r: "scan_rel w (scan_pages w ps scan_init) None
    (first_exact (unat w) None (holes ps)) (largest_from (unat w) None (holes ps))"
    unfolding holes_def by (rule scan_pages_correct) (use assms in \<open>auto simp: scan_rel_def scan_init_def cur_ok_def\<close>)
  have nz: "fst h \<noteq> 0" if "h \<in> set (holes ps)" for h
    using holes_from_nonzero [of h None ps] that assms(2) by (auto simp: holes_def cur_ok_def)
  have fnz: "fst h \<noteq> 0" if "find (\<lambda>h. snd h = unat w) (holes ps) = Some h" for h
    by (rule nz) (use that in \<open>auto simp: find_Some_iff\<close>)
  show ?thesis
    using r fnz by (auto simp: place_of_def scan_rel_def custom_fit_def first_exact_def split: option.splits)
qed

section \<open>The heap pages of the kernel address space\<close>

definition heap_page :: "u32 \<Rightarrow> bool" where
  "heap_page va \<longleftrightarrow> KERNEL_HEAP_START \<le> va \<and> va < KERNEL_HEAP_MAX \<and> 4096 dvd unat va"

definition pte :: "(u32 \<Rightarrow> u32) \<Rightarrow> 'a kmem_scheme \<Rightarrow> u32 \<Rightarrow> u32" where
  "pte tab s va = mem s (tab va) (unat (PTX va))"

text \<open>
  Boot creates all page tables of the heap range (\<open>tab va\<close> is the one of \<open>va\<close>); they are among the
  tables \<open>T\<close> whose mappings the reference counts count.  Every mapped heap page is recorded in
  the frame that it is mapped to.
\<close>

definition kh_ok :: "u32 set \<Rightarrow> (u32 \<Rightarrow> u32) \<Rightarrow> (nat \<Rightarrow> nat) \<Rightarrow> 'a kmem_scheme \<Rightarrow> bool" where
  "kh_ok T tab pins s \<longleftrightarrow> mm_inv s T pins \<and> calm s \<and> ptr_page_directory s \<notin> T
     \<and> (\<forall>va. heap_page va \<longrightarrow> tab va \<in> T \<and> table_ok s (ptr_page_directory s) va (tab va))
     \<and> (\<forall>va wa. heap_page va \<and> heap_page wa \<and> tab va = tab wa \<and> PTX va = PTX wa \<longrightarrow> va = wa)
     \<and> (\<forall>va. heap_page va \<and> present (pte tab s va) \<longrightarrow> fi_va (frames_info s (frame_of (pte tab s va))) = va)"

lemma heap_page_kernel: "heap_page va \<Longrightarrow> CHECK_IF_KERNEL_ADDRESS va"
  by (auto simp: heap_page_def CHECK_IF_KERNEL_ADDRESS_def word_le_nat_alt word_less_nat_alt)

lemma kh_okD:
  assumes "kh_ok T tab pins s"
  shows "mm_inv s T pins" and "calm s" and "ptr_page_directory s \<notin> T"
    and "heap_page va \<Longrightarrow> tab va \<in> T" and "heap_page va \<Longrightarrow> table_ok s (ptr_page_directory s) va (tab va)"
    and "\<lbrakk>heap_page va; heap_page wa; tab va = tab wa; PTX va = PTX wa\<rbrakk> \<Longrightarrow> va = wa"
    and "\<lbrakk>heap_page va; present (pte tab s va)\<rbrakk> \<Longrightarrow> fi_va (frames_info s (frame_of (pte tab s va))) = va"
  using assms unfolding kh_ok_def by blast+

lemma kh_entry: "\<lbrakk>kh_ok T tab pins s; heap_page va\<rbrakk> \<Longrightarrow> entry_ok (number_of_frames s) (pte tab s va)"
  unfolding pte_def by (rule mm_inv_entry [OF kh_okD(1) kh_okD(4) PTX_less])

lemma kh_get_frame_info:
  assumes "kh_ok T tab pins s" and "heap_page va"
  shows "get_frame_info (ptr_page_directory s) va s =
    Inr (if present (pte tab s va) then Some (frame_of (pte tab s va)) else None, tab va, s)"
  using get_frame_info_ok [OF kh_okD(5) [OF assms]] kh_entry [OF assms] by (simp add: pte_def)

text \<open>The operations of the frame layer keep \<open>kh_ok\<close>; it depends only on these fields.\<close>

lemma kh_ok_transfer:
  assumes ok: "kh_ok T tab pins s" and inv: "mm_inv t T pins" and "calm t"
    and "ptr_page_directory t = ptr_page_directory s" and nf: "number_of_frames t = number_of_frames s"
    and dir: "mem t (ptr_page_directory s) = mem s (ptr_page_directory s)"
    and rev: "\<And>va. heap_page va \<Longrightarrow> present (pte tab t va) \<Longrightarrow> fi_va (frames_info t (frame_of (pte tab t va))) = va"
  shows "kh_ok T tab pins t"
proof -
  have "table_ok t (ptr_page_directory s) va (tab va)" if "heap_page va" for va
    using kh_okD(5) [OF ok that] table_ok_kernel_cong [OF heap_page_kernel [OF that] nf dir, of "tab va"] by blast
  then show ?thesis unfolding kh_ok_def
    by (intro conjI allI impI) (use assms kh_okD [OF ok] in \<open>metis+\<close>)
qed

lemma pte_set_entry:
  assumes "kh_ok T tab pins s" and "heap_page va" and "heap_page wa" and "va \<noteq> wa"
  shows "(tab wa, unat (PTX wa)) \<noteq> (tab va, unat (PTX va))"
  using kh_okD(6) [OF assms(1,2,3)] assms(4) by (auto simp: word_unat_eq_iff)

lemma present_slot:
  "\<lbrakk>kh_ok T tab pins s; heap_page va; present (pte tab s va)\<rbrakk> \<Longrightarrow>
   (tab va, unat (PTX va)) \<in> slots s T (frame_of (pte tab s va))"
  using kh_okD(4) [of T tab pins s va] by (simp add: slots_def pte_def PTX_less)

text \<open>Only frames, free list and page tables differ.\<close>

definition frame_change :: "'a kmem_scheme \<Rightarrow> 'a kmem_scheme \<Rightarrow> bool" where
  "frame_change s t \<longleftrightarrow> t = s\<lparr>frames_info := frames_info t, free_frame_list := free_frame_list t, mem := mem t\<rparr>"

lemma frame_change_refl: "frame_change s s"
  by (simp add: frame_change_def)

lemma frame_change_trans:
  assumes "frame_change s t" and "frame_change t u"
  shows "frame_change s u"
proof -
  have "u = t\<lparr>frames_info := frames_info u, free_frame_list := free_frame_list u, mem := mem u\<rparr>"
    using assms(2) by (simp add: frame_change_def)
  also have "\<dots> = s\<lparr>frames_info := frames_info u, free_frame_list := free_frame_list u, mem := mem u\<rparr>"
    by (subst assms(1) [unfolded frame_change_def]) simp
  finally show ?thesis by (simp add: frame_change_def)
qed

lemma frame_change_ops:
  "frame_change s (set_frame f i s)" "frame_change s (drop_ref f s)" "frame_change s (add_ref f s)"
  "frame_change s (note_va f va s)" "frame_change s (set_entry p j v s)" "frame_change s (s\<lparr>free_frame_list := fs\<rparr>)"
  "frame_change s (s\<lparr>mem := m\<rparr>)"
  by (simp_all add: frame_change_def frame_ops)

lemma frame_change_mapped: "frame_change s (unmapped p i s)" "frame_change s (mapped f p i pm s)"
proof -
  show u: "frame_change s (unmapped p i s)"
    unfolding unmapped_def by (auto intro: frame_change_trans frame_change_ops frame_change_refl)
  show "frame_change s (mapped f p i pm s)"
    unfolding mapped_def Let_def
    by (auto intro: frame_change_trans [OF u] frame_change_trans [OF frame_change_ops(3)] frame_change_ops frame_change_refl)
qed

lemma frame_change_fields:
  fixes s t :: "'a kheap_scheme"
  assumes "frame_change s t"
  shows "kcpu t = kcpu s" "heap_lock t = heap_lock s" "mfllock t = mfllock s" "number_of_frames t = number_of_frames s"
    "ptr_page_directory t = ptr_page_directory s" "kh_da t = kh_da s"
    "kheapPageAllocStart t = kheapPageAllocStart s" "kheapPageAllocBreak t = kheapPageAllocBreak s"
    "allocatedSize t = allocatedSize s"
  by (subst assms [unfolded frame_change_def], simp)+

text \<open>One step of the filling loop: take a frame and map it at a free heap page.\<close>

lemma kh_map_one:
  fixes s :: "'a kmem_scheme"
  assumes ok: "kh_ok T tab pins s" and va: "heap_page va" and free: "\<not> present (pte tab s va)"
    and l: "free_frame_list s = f # fs"
  defines "t \<equiv> mapped f (tab va) (unat (PTX va)) 3 (note_va f va (set_frame f null_frame_info (s\<lparr>free_frame_list := fs\<rparr>)))"
  shows "allocate_frame s = Inr (f, set_frame f null_frame_info (s\<lparr>free_frame_list := fs\<rparr>))"
    and "map_frame ct (ptr_page_directory s) f va 3 (set_frame f null_frame_info (s\<lparr>free_frame_list := fs\<rparr>)) = Inr t"
    and "kh_ok T tab pins t" and "free_frame_list t = fs" and "frame_change s t"
    and "present (pte tab t va)" and "\<And>wa. heap_page wa \<Longrightarrow> wa \<noteq> va \<Longrightarrow> pte tab t wa = pte tab s wa"
proof -
  let ?s = "set_frame f null_frame_info (s\<lparr>free_frame_list := fs\<rparr>)" and ?i = "unat (PTX va)"
  have inv: "mm_inv s T pins" and calm: "calm s" and tabs: "tab va \<in> T" "table_ok s (ptr_page_directory s) va (tab va)"
    and dir: "ptr_page_directory s \<notin> T" using kh_okD [OF ok] va by blast+
  show "allocate_frame s = Inr (f, ?s)" by (rule allocate_frame_calm [OF calm l])
  have f: "f < unat (number_of_frames s)" "f < 1048576" "f \<notin> set fs" "f \<in> set (free_frame_list s)"
    using inv l by (auto simp: mm_inv_def)
  have e: "entry_ok (number_of_frames s) (mem s (tab va) ?i)" using kh_entry [OF ok va] by (simp add: pte_def)
  have tk: "table_ok ?s (ptr_page_directory s) va (tab va)"
    using tabs(2) table_ok_kernel_cong [OF heap_page_kernel [OF va], of ?s s] by simp
  show "map_frame ct (ptr_page_directory s) f va 3 ?s = Inr t" unfolding t_def
    by (rule map_frame_ok [OF tk]) (use e calm f heap_page_kernel [OF va] in \<open>simp_all add: calm_def set_frame_def\<close>)
  have inv_t: "mm_inv t T pins" unfolding t_def
    by (rule mm_inv_mapped [OF iffD2 [OF mm_inv_note_va mm_inv_allocate [OF inv l]] tabs(1) PTX_less])
      (use f in \<open>simp_all add: note_va_def set_frame_def null_frame_info_def\<close>)
  have np: "\<not> present (mem s (tab va) ?i)" using free by (simp add: pte_def)
  define v where "v = CONSTRUCT_ENTRY (to_physical_address f) ((mem s (tab va) ?i AND PERM_AVAILABLE) OR 3 OR PERM_PRESENT)"
  have mem_t: "mem t = (mem s)(tab va := (mem s (tab va))(?i := v))"
    using np by (simp add: t_def mapped_def unmapped_def Let_def v_def)
  have v: "present v" "frame_of v = f"
    unfolding v_def by (rule new_entry_facts(1), rule frame_of_new [OF f(2)], simp)
  show pt: "present (pte tab t va)" using v by (simp add: pte_def mem_t)
  show other: "pte tab t wa = pte tab s wa" if "heap_page wa" "wa \<noteq> va" for wa
    using pte_set_entry [OF ok va that(1)] that(2) by (auto simp: pte_def mem_t)
  show fl: "free_frame_list t = fs"
    using np by (simp add: t_def mapped_def unmapped_def Let_def) (simp add: frame_ops)
  show "frame_change s t" unfolding t_def
    by (intro frame_change_trans [OF _ frame_change_mapped(2)] frame_change_trans [OF _ frame_change_ops(4)]
        frame_change_trans [OF _ frame_change_ops(1)] frame_change_ops)
  have fi: "frames_info t g = frames_info s g" if "g \<noteq> f" for g
    using np that by (simp add: t_def mapped_def unmapped_def Let_def) (simp add: frame_ops)
  have fif: "fi_va (frames_info t f) = va"
    using np by (simp add: t_def mapped_def unmapped_def Let_def) (simp add: frame_ops)
  have rev: "fi_va (frames_info t (frame_of (pte tab t wa))) = wa" if w: "heap_page wa" "present (pte tab t wa)" for wa
  proof (cases "wa = va")
    case True
    then show ?thesis using fif v by (simp add: pte_def mem_t)
  next
    case False
    then have p: "present (pte tab s wa)" using w other by simp
    have "frame_of (pte tab s wa) \<noteq> f"
      using present_slot [OF ok w(1) p] mm_inv_free_unused(1) [OF inv f(4)] by auto
    then show ?thesis using kh_okD(7) [OF ok w(1) p] False w(1) by (simp add: other fi)
  qed
  have "tab va \<noteq> ptr_page_directory s" using tabs(1) dir by auto
  then have "mem t (ptr_page_directory s) = mem s (ptr_page_directory s)" by (simp add: mem_t)
  then show "kh_ok T tab pins t"
    by (intro kh_ok_transfer [OF ok inv_t _ _ _ _ rev])
      (use calm np in \<open>simp_all add: t_def mapped_def unmapped_def Let_def\<close>, simp_all add: frame_ops)
qed

section \<open>Filling a range of pages\<close>

abbreviation (input) nth_page :: "u32 \<Rightarrow> nat \<Rightarrow> u32" where
  "nth_page va i \<equiv> va + word_of_nat i * 4096"

lemma nth_page_Suc: "nth_page (va + 4096) i = nth_page va (Suc i)"
  by (simp add: algebra_simps)

lemma nth_page_inj: "\<lbrakk>i < 1048576; j < 1048576; nth_page va i = nth_page va j\<rbrakk> \<Longrightarrow> i = j"
proof -
  assume a: "i < 1048576" "j < 1048576" "nth_page va i = nth_page va j"
  then have "(word_of_nat (i * 4096) :: u32) = word_of_nat (j * 4096)" by simp
  then show "i = j"
    using a(1,2) unat_of_nat_u32 [of "i * 4096"] unat_of_nat_u32 [of "j * 4096"] by simp
qed

lemma kmalloc_fill_ok:
  fixes s :: "'a kheap_scheme"
  assumes "kh_ok T tab pins s" and "n \<le> 1048576" and "n \<le> length (free_frame_list s)"
    and "\<forall>i < n. heap_page (nth_page va i) \<and> \<not> present (pte tab s (nth_page va i))"
  shows "\<exists>t. kmalloc_fill ct n va s = Inr t \<and> kh_ok T tab pins t \<and> frame_change s t
    \<and> free_frame_list t = drop n (free_frame_list s)
    \<and> (\<forall>i < n. present (pte tab t (nth_page va i)))
    \<and> (\<forall>wa. heap_page wa \<and> (\<forall>i < n. wa \<noteq> nth_page va i) \<longrightarrow> pte tab t wa = pte tab s wa)"
  using assms
proof (induction n arbitrary: va s)
  case 0
  then show ?case by (simp add: frame_change_refl)
next
  case (Suc n)
  obtain f fs where l: "free_frame_list s = f # fs" using Suc.prems(3) by (cases "free_frame_list s") auto
  have va: "heap_page va" "\<not> present (pte tab s va)" using Suc.prems(4) by (auto dest: spec [of _ 0])
  note one = kh_map_one [OF Suc.prems(1) va l]
  let ?s = "set_frame f null_frame_info (s\<lparr>free_frame_list := fs\<rparr>)"
  let ?t = "mapped f (tab va) (unat (PTX va)) 3 (note_va f va ?s)"
  have dir: "ptr_page_directory ?s = ptr_page_directory s" by (simp add: set_frame_def)
  have step: "kmalloc_fill ct (Suc n) va s = kmalloc_fill ct n (va + 4096) ?t"
    using one(1,2) by (simp add: dir)
  have ne: "nth_page (va + 4096) i \<noteq> va" if "i < n" for i
    using nth_page_inj [of "Suc i" 0 va] that Suc.prems(2) by (auto simp: nth_page_Suc)
  have hyp: "\<forall>i < n. heap_page (nth_page (va + 4096) i) \<and> \<not> present (pte tab ?t (nth_page (va + 4096) i))"
  proof (intro allI impI)
    fix i assume i: "i < n"
    then have "heap_page (nth_page (va + 4096) i) \<and> \<not> present (pte tab s (nth_page (va + 4096) i))"
      using Suc.prems(4) unfolding nth_page_Suc by blast
    then show "heap_page (nth_page (va + 4096) i) \<and> \<not> present (pte tab ?t (nth_page (va + 4096) i))"
      using one(7) [of "nth_page (va + 4096) i"] ne [OF i] by simp
  qed
  obtain t where t: "kmalloc_fill ct n (va + 4096) ?t = Inr t" "kh_ok T tab pins t" "frame_change ?t t"
    "free_frame_list t = drop n fs" "\<forall>i < n. present (pte tab t (nth_page (va + 4096) i))"
    "\<forall>wa. heap_page wa \<and> (\<forall>i < n. wa \<noteq> nth_page (va + 4096) i) \<longrightarrow> pte tab t wa = pte tab ?t wa"
    using Suc.IH [OF one(3) _ _ hyp] Suc.prems(2,3) one(4) l by auto
  have "pte tab t va = pte tab ?t va" using t(6) va(1) ne by auto
  then have "\<forall>i < Suc n. present (pte tab t (nth_page va i))"
    using t(5) one(6) unfolding nth_page_Suc by (auto simp: less_Suc_eq_0_disj)
  moreover have "pte tab t wa = pte tab s wa" if wa: "heap_page wa" "\<forall>i < Suc n. wa \<noteq> nth_page va i" for wa
  proof -
    have "wa \<noteq> va" using wa(2) by (auto dest: spec [of _ 0])
    moreover have "\<forall>i < n. wa \<noteq> nth_page (va + 4096) i" using wa(2) unfolding nth_page_Suc by blast
    ultimately show ?thesis using t(6) wa(1) one(7) by simp
  qed
  ultimately show ?case
    using step t(1,2,4) l frame_change_trans [OF one(5) t(3)] by auto
qed
section \<open>The scan of the code is custom fit on the page map\<close>

text \<open>The well-formed heap: the page area lies between aligned limits and nothing is mapped above
  the break.\<close>

definition heap_ok :: "u32 set \<Rightarrow> (u32 \<Rightarrow> u32) \<Rightarrow> (nat \<Rightarrow> nat) \<Rightarrow> 'a kheap_scheme \<Rightarrow> bool" where
  "heap_ok T tab pins s \<longleftrightarrow> kh_ok T tab pins s
     \<and> 4096 dvd unat (kheapPageAllocStart s) \<and> 4096 dvd unat (kheapPageAllocBreak s)
     \<and> KERNEL_HEAP_START \<le> kheapPageAllocStart s \<and> kheapPageAllocStart s \<le> kheapPageAllocBreak s
     \<and> kheapPageAllocBreak s < KERNEL_HEAP_MAX
     \<and> (\<forall>va. heap_page va \<and> kheapPageAllocBreak s \<le> va \<longrightarrow> \<not> present (pte tab s va))"

definition page_map :: "(u32 \<Rightarrow> u32) \<Rightarrow> 'a kmem_scheme \<Rightarrow> u32 \<Rightarrow> nat \<Rightarrow> (u32 \<times> bool) list" where
  "page_map tab s va n = map (\<lambda>i. (nth_page va i, \<not> present (pte tab s (nth_page va i)))) [0..<n]"

lemma page_map_Suc:
  "page_map tab s va (Suc n) = (va, \<not> present (pte tab s va)) # page_map tab s (va + 4096) n"
  by (simp add: page_map_def upt_conv_Cons map_Suc_upt [symmetric] o_def algebra_simps del: upt_Suc)

lemma unat_nth_page:
  "unat va + 4096 * i < 4294967296 \<Longrightarrow> unat (nth_page va i) = unat va + 4096 * i"
proof -
  assume a: "unat va + 4096 * i < 4294967296"
  then have "unat (word_of_nat (i * 4096) :: u32) = i * 4096" by (intro unat_of_nat_u32) simp
  then show ?thesis using a by (simp add: unat_u32_plus)
qed

lemma heap_page_nth:
  assumes "KERNEL_HEAP_START \<le> va" and "4096 dvd unat va" and "unat va + 4096 * i < 0xFFFFF000"
  shows "heap_page (nth_page va i)"
  using assms unat_nth_page [of va i] by (simp add: heap_page_def word_le_nat_alt word_less_nat_alt)

lemma kmalloc_scan_ok:
  fixes s :: "'a kheap_scheme"
  assumes "kh_ok T tab pins s" and "KERNEL_HEAP_START \<le> va" and "4096 dvd unat va"
    and "unat (kheapPageAllocBreak s) = unat va + 4096 * n" and "kheapPageAllocBreak s < KERNEL_HEAP_MAX" and "n \<le> fuel"
  shows "\<exists>sc'. kmalloc_scan fuel w va sc s = Inr (sc', s) \<and> scan_close w sc' = scan_pages w (page_map tab s va n) sc"
  using assms
proof (induction n arbitrary: fuel va sc)
  case 0
  then have "\<not> va < kheapPageAllocBreak s" by (simp add: word_less_nat_alt)
  then show ?case by (cases fuel) (simp_all add: page_map_def)
next
  case (Suc n)
  obtain m where m: "fuel = Suc m" using Suc.prems(6) by (cases fuel) auto
  have lt: "va < kheapPageAllocBreak s" using Suc.prems(4) by (simp add: word_less_nat_alt)
  have bound: "unat va + 4096 * Suc n < 0xFFFFF000" using Suc.prems(4,5) by (simp add: word_less_nat_alt)
  have hp: "heap_page va" using heap_page_nth [OF Suc.prems(2,3), of 0] bound by simp
  have va': "unat (va + 4096) = unat va + 4096" using unat_nth_page [of va 1] bound by simp
  note gfi = kh_get_frame_info [OF Suc.prems(1) hp]
  have unf: "kmalloc_scan fuel w va sc s = kmalloc_scan m w (va + 4096)
     (if present (pte tab s va) then scan_close w sc else scan_free va sc) s"
    using lt gfi by (simp add: m)
  show ?case
    unfolding unf page_map_Suc
    using Suc.IH [of "va + 4096" m "if present (pte tab s va) then scan_close w sc else scan_free va sc"]
      Suc.prems va' m by (cases "present (pte tab s va)") (simp_all add: word_le_nat_alt)
qed

section \<open>Holes consist of free pages\<close>

lemma holes_from_free:
  assumes "h \<in> set (holes_from cur (map (\<lambda>i. (p i, fr i)) [k..<m]))" and "k \<le> m"
    and "cur = None \<or> (\<exists>j \<le> k. cur = Some (p j, k - j) \<and> (\<forall>i. j \<le> i \<and> i < k \<longrightarrow> fr i))"
  shows "\<exists>j. fst h = p j \<and> j + snd h \<le> m \<and> (\<forall>i < snd h. fr (j + i))"
  using assms
proof (induction "m - k" arbitrary: k cur)
  case 0
  then obtain j where "cur = Some (p j, k - j)" "j \<le> k" "\<forall>i. j \<le> i \<and> i < k \<longrightarrow> fr i" "h = (p j, k - j)"
    by (cases cur) auto
  then show ?case using 0 by (intro exI [of _ j]) auto
next
  case (Suc n)
  then have k: "k < m" by simp
  have split: "map (\<lambda>i. (p i, fr i)) [k..<m] = (p k, fr k) # map (\<lambda>i. (p i, fr i)) [Suc k..<m]"
    using k by (simp add: upt_conv_Cons)
  show ?case
  proof (cases "fr k")
    case True
    let ?cur = "Some (case cur of None \<Rightarrow> (p k, 1) | Some (st, n) \<Rightarrow> (st, n + 1))"
    have h: "h \<in> set (holes_from ?cur (map (\<lambda>i. (p i, fr i)) [Suc k..<m]))"
      using Suc.prems(1) True unfolding split by simp
    have "\<exists>j \<le> Suc k. ?cur = Some (p j, Suc k - j) \<and> (\<forall>i. j \<le> i \<and> i < Suc k \<longrightarrow> fr i)"
    proof (cases cur)
      case None
      then show ?thesis using True by (intro exI [of _ k]) (auto simp: le_less_Suc_eq)
    next
      case (Some c)
      then obtain j where "j \<le> k" "cur = Some (p j, k - j)" "\<forall>i. j \<le> i \<and> i < k \<longrightarrow> fr i" using Suc.prems(3) by auto
      then show ?thesis using True by (intro exI [of _ j]) (auto simp: less_Suc_eq Suc_diff_le)
    qed
    then show ?thesis using Suc.hyps(1) [OF _ h] Suc.hyps(2) k by auto
  next
    case False
    have "h \<in> set (holes_from None (map (\<lambda>i. (p i, fr i)) [Suc k..<m])) \<or> cur = Some h"
      using Suc.prems(1) False unfolding split by (cases cur) auto
    then show ?thesis
    proof
      assume "h \<in> set (holes_from None (map (\<lambda>i. (p i, fr i)) [Suc k..<m]))"
      then show ?thesis using Suc.hyps(1) [of "Suc k" None] Suc.hyps(2) k by auto
    next
      assume "cur = Some h"
      then obtain j where "j \<le> k" "h = (p j, k - j)" "\<forall>i. j \<le> i \<and> i < k \<longrightarrow> fr i" using Suc.prems(3) by auto
      then show ?thesis using k by (intro exI [of _ j]) auto
    qed
  qed
qed

lemma custom_fit_free:
  assumes "custom_fit n (holes (map (\<lambda>i. (p i, fr i)) [0..<m])) = Some a"
  shows "\<exists>j. a = p j \<and> j + n \<le> m \<and> (\<forall>i < n. fr (j + i))"
proof -
  let ?hs = "holes (map (\<lambda>i. (p i, fr i)) [0..<m])"
  have "\<exists>h \<in> set ?hs. a = fst h \<and> n \<le> snd h"
  proof (cases "find (\<lambda>h. snd h = n) ?hs")
    case None
    then obtain b where b: "largest_from n None ?hs = Some b" "a = fst b" using assms by (auto simp: custom_fit_def)
    then show ?thesis using largest_from_spec [OF b(1)] by auto
  next
    case (Some h)
    then have "h \<in> set ?hs" "snd h = n" by (auto simp: find_Some_iff)
    then show ?thesis using assms Some by (auto simp: custom_fit_def)
  qed
  then obtain h where h: "h \<in> set ?hs" "a = fst h" "n \<le> snd h" by blast
  have "h \<in> set (holes_from None (map (\<lambda>i. (p i, fr i)) [0..<m]))" using h(1) by (simp add: holes_def)
  from holes_from_free [OF this] obtain j where "fst h = p j" "j + snd h \<le> m" "\<forall>i < snd h. fr (j + i)" by auto
  then show ?thesis using h by (intro exI [of _ j]) auto
qed
section \<open>Allocating pages\<close>

definition pages_needed :: "u32 \<Rightarrow> nat" where
  "pages_needed sz = (unat sz + 4095) div 4096"

definition fit :: "(u32 \<Rightarrow> u32) \<Rightarrow> 'a kheap_scheme \<Rightarrow> nat \<Rightarrow> u32 option" where
  "fit tab s n = custom_fit n (holes (page_map tab s (kheapPageAllocStart s)
     (unat (kheapPageAllocBreak s - kheapPageAllocStart s) div 4096)))"

definition locked_heap :: "cpu \<Rightarrow> 'a kmem_scheme \<Rightarrow> bool" where
  "locked_heap c s \<longleftrightarrow> cpu_ok c \<and> noted c = c \<and> kcpu s = pushcli c \<and> heap_lock s = held_lock c"

lemma finish_locked:
  "locked_heap c s \<Longrightarrow> finish v s = Inr (v, s\<lparr>kcpu := c, heap_lock := unlocked\<rparr>)"
  by (simp add: finish_def locked_heap_def heap_release_held [where c = c])

lemma kh_ok_size: "kh_ok T tab pins s \<Longrightarrow> kh_ok T tab pins (set_frame f ((frames_info s f)\<lparr>fi_size := x\<rparr>) s)"
proof -
  assume ok: "kh_ok T tab pins s"
  let ?t = "set_frame f ((frames_info s f)\<lparr>fi_size := x\<rparr>) s"
  have "mm_inv ?t T pins"
    using kh_okD(1) [OF ok] by (simp add: mm_inv_def set_frame_def slots_def)
  moreover have "fi_va (frames_info ?t (frame_of (pte tab ?t va))) = va" if "heap_page va" "present (pte tab ?t va)" for va
    using kh_okD(7) [OF ok that(1)] that(2) by (auto simp: pte_def set_frame_def)
  ultimately show "kh_ok T tab pins ?t"
    by (intro kh_ok_transfer [OF ok]) (use kh_okD(2) [OF ok] in \<open>simp_all add: set_frame_def\<close>)
qed

lemma kh_ok_fields [simp]:
  fixes s :: "'a kheap_scheme"
  shows "kh_ok T tab pins (s\<lparr>allocatedSize := a\<rparr>) = kh_ok T tab pins s"
    and "kh_ok T tab pins (s\<lparr>kheapPageAllocBreak := b\<rparr>) = kh_ok T tab pins s"
    and "kh_ok T tab pins (s\<lparr>kheapPageAllocStart := b\<rparr>) = kh_ok T tab pins s"
    and "kh_ok T tab pins (s\<lparr>kh_da := d\<rparr>) = kh_ok T tab pins s"
proof -
  have t: "table_ok (s\<lparr>allocatedSize := a\<rparr>) d v p = table_ok s d v p"
    "table_ok (s\<lparr>kheapPageAllocBreak := b\<rparr>) d v p = table_ok s d v p"
    "table_ok (s\<lparr>kheapPageAllocStart := b\<rparr>) d v p = table_ok s d v p"
    "table_ok (s\<lparr>kh_da := e\<rparr>) d v p = table_ok s d v p" for d v p e
    by (simp_all add: table_ok_def heap_va_of_def heap_calm_def calm_def)
  show "kh_ok T tab pins (s\<lparr>allocatedSize := a\<rparr>) = kh_ok T tab pins s"
    "kh_ok T tab pins (s\<lparr>kheapPageAllocBreak := b\<rparr>) = kh_ok T tab pins s"
    "kh_ok T tab pins (s\<lparr>kheapPageAllocStart := b\<rparr>) = kh_ok T tab pins s"
    "kh_ok T tab pins (s\<lparr>kh_da := d\<rparr>) = kh_ok T tab pins s"
    by (simp_all add: kh_ok_def mm_inv_def slots_def calm_def t pte_def)
qed

lemma kh_ok_lock:
  fixes s :: "'a kmem_scheme"
  assumes "kh_ok T tab pins s" and "cpu_ok c" and "noted c = c"
  shows "kh_ok T tab pins (s\<lparr>kcpu := c, heap_lock := lk\<rparr>)"
  by (rule kh_ok_transfer [OF assms(1)])
    (use kh_okD [OF assms(1)] assms(2,3) in \<open>auto simp: mm_inv_def slots_def calm_def pte_def\<close>)

lemma set_sizes_eq: "set_sizes k n v a = (\<lambda>i. if k \<le> i \<and> i < k + n then v else a i)"
  by (induction n arbitrary: k a) (auto simp: fun_eq_iff)

lemma kmalloc_record_ok:
  fixes s :: "'a kheap_scheme"
  assumes "kh_ok T tab pins s" and "heap_page va"
  shows "\<exists>fi. kmalloc_record va n s = Inr (s\<lparr>allocatedSize :=
      set_sizes (unat (drop_bit 12 va)) (unat n) (n * 4096) (allocatedSize s), frames_info := fi\<rparr>)
    \<and> kh_ok T tab pins (s\<lparr>allocatedSize :=
      set_sizes (unat (drop_bit 12 va)) (unat n) (n * 4096) (allocatedSize s), frames_info := fi\<rparr>)"
proof -
  let ?s = "s\<lparr>allocatedSize := set_sizes (unat (drop_bit 12 va)) (unat n) (n * 4096) (allocatedSize s)\<rparr>"
  have ok: "kh_ok T tab pins ?s" using assms(1) by simp
  note gfi = kh_get_frame_info [OF ok assms(2)]
  have p: "pte tab ?s va = pte tab s va" by (simp add: pte_def)
  show ?thesis
  proof (cases "present (pte tab s va)")
    case True
    let ?f = "frame_of (pte tab s va)"
    have "kmalloc_record va n s = Inr (set_frame ?f ((frames_info ?s ?f)\<lparr>fi_size := n * 4096\<rparr>) ?s)"
      using gfi True p by (simp add: kmalloc_record_def Let_def)
    moreover have "kh_ok T tab pins (set_frame ?f ((frames_info ?s ?f)\<lparr>fi_size := n * 4096\<rparr>) ?s)"
      by (rule kh_ok_size [OF ok])
    ultimately show ?thesis
      by (intro exI [of _ "(frames_info s)(?f := (frames_info s ?f)\<lparr>fi_size := n * 4096\<rparr>)"]) (simp add: set_frame_def)
  next
    case False
    then show ?thesis using gfi p ok by (intro exI [of _ "frames_info s"]) (simp add: kmalloc_record_def Let_def)
  qed
qed
text \<open>What a successful allocation of \<open>n\<close> pages at \<open>va\<close> changes.\<close>

definition pages_taken :: "(u32 \<Rightarrow> u32) \<Rightarrow> nat \<Rightarrow> u32 \<Rightarrow> 'a kheap_scheme \<Rightarrow> 'a kheap_scheme \<Rightarrow> bool" where
  "pages_taken tab n va s t \<longleftrightarrow>
     (\<forall>i < n. heap_page (nth_page va i) \<and> \<not> present (pte tab s (nth_page va i)) \<and> present (pte tab t (nth_page va i)))
     \<and> (\<forall>wa. heap_page wa \<and> (\<forall>i < n. wa \<noteq> nth_page va i) \<longrightarrow> pte tab t wa = pte tab s wa)
     \<and> allocatedSize t = set_sizes (unat va div 4096) n (word_of_nat n * 4096) (allocatedSize s)
     \<and> free_frame_list t = drop n (free_frame_list s)
     \<and> kheapPageAllocStart t = kheapPageAllocStart s \<and> kh_da t = kh_da s
     \<and> number_of_frames t = number_of_frames s"

lemma kmalloc_place_ok:
  fixes s :: "'a kheap_scheme"
  assumes ok: "kh_ok T tab pins s" and lk: "locked_heap c s" and n: "0 < n" "unat n \<le> length (free_frame_list s)"
    and n20: "unat n \<le> 1048576"
    and free: "\<forall>i < unat n. heap_page (nth_page va i) \<and> \<not> present (pte tab s (nth_page va i))"
  shows "\<exists>t. bindE (kmalloc_fill ct (unat n) va s) (\<lambda>s2.
           bindE (kmalloc_record va n (s2\<lparr>kheapPageAllocBreak := b\<rparr>)) (finish va)) = Inr (va, t)
    \<and> kh_ok T tab pins t \<and> pages_taken tab (unat n) va s t \<and> kheapPageAllocBreak t = b
    \<and> kcpu t = c \<and> heap_lock t = unlocked"
proof -
  obtain t where t: "kmalloc_fill ct (unat n) va s = Inr t" "kh_ok T tab pins t" "frame_change s t"
    "free_frame_list t = drop (unat n) (free_frame_list s)"
    "\<forall>i < unat n. present (pte tab t (nth_page va i))"
    "\<forall>wa. heap_page wa \<and> (\<forall>i < unat n. wa \<noteq> nth_page va i) \<longrightarrow> pte tab t wa = pte tab s wa"
    using kmalloc_fill_ok [OF ok n20 n(2) free, of ct] by blast
  note fc = frame_change_fields [OF t(3)]
  have "0 < unat n" using n(1) by (simp add: word_less_nat_alt)
  then have hp: "heap_page va" using free by (auto dest: spec [of _ 0])
  let ?t = "t\<lparr>kheapPageAllocBreak := b\<rparr>"
  have "kh_ok T tab pins ?t" using t(2) by simp
  from kmalloc_record_ok [OF this hp, of n] obtain fi where r: "kmalloc_record va n ?t = Inr (?t\<lparr>allocatedSize :=
      set_sizes (unat (drop_bit 12 va)) (unat n) (n * 4096) (allocatedSize ?t), frames_info := fi\<rparr>)"
    and ok': "kh_ok T tab pins (?t\<lparr>allocatedSize :=
      set_sizes (unat (drop_bit 12 va)) (unat n) (n * 4096) (allocatedSize ?t), frames_info := fi\<rparr>)" by blast
  let ?u = "?t\<lparr>allocatedSize := set_sizes (unat (drop_bit 12 va)) (unat n) (n * 4096) (allocatedSize ?t), frames_info := fi\<rparr>"
  let ?w = "?u\<lparr>kcpu := c, heap_lock := unlocked\<rparr>"
  have "locked_heap c ?u" using lk fc by (simp add: locked_heap_def)
  then have f: "finish va ?u = Inr (va, ?w)" by (rule finish_locked)
  have okw: "kh_ok T tab pins ?w" using kh_ok_lock [OF ok'] lk by (simp add: locked_heap_def)
  have "pte tab ?w wa = pte tab t wa" for wa by (simp add: pte_def)
  then have "pages_taken tab (unat n) va s ?w"
    using t(4-6) free fc by (simp add: pages_taken_def unat_drop_bit_12)
  then show ?thesis using t(1) r f okw by (intro exI [of _ ?w]) simp
qed

lemma kmalloc_pages_ok:
  fixes s :: "'a kheap_scheme"
  assumes hok: "heap_ok T tab pins s" and lk: "locked_heap c s" and n: "0 < n" "unat n \<le> length (free_frame_list s)"
    and bound: "unat (kheapPageAllocBreak s) + 4096 * unat n < 0xFFFFF000"
  shows "\<exists>t. kmalloc_pages ct n s = Inr (case fit tab s (unat n) of Some a \<Rightarrow> a | None \<Rightarrow> kheapPageAllocBreak s, t)
    \<and> heap_ok T tab pins t
    \<and> pages_taken tab (unat n) (case fit tab s (unat n) of Some a \<Rightarrow> a | None \<Rightarrow> kheapPageAllocBreak s) s t
    \<and> kheapPageAllocBreak t = (case fit tab s (unat n) of Some a \<Rightarrow> kheapPageAllocBreak s
        | None \<Rightarrow> kheapPageAllocBreak s + n * 4096)
    \<and> kcpu t = c \<and> heap_lock t = unlocked"
proof -
  let ?st = "kheapPageAllocStart s" and ?b = "kheapPageAllocBreak s"
  define k where "k = unat (?b - ?st) div 4096"
  have ok: "kh_ok T tab pins s" and al: "4096 dvd unat ?st" "4096 dvd unat ?b" and lims: "KERNEL_HEAP_START \<le> ?st"
    "?st \<le> ?b" "?b < KERNEL_HEAP_MAX" and above: "\<And>va. heap_page va \<Longrightarrow> ?b \<le> va \<Longrightarrow> \<not> present (pte tab s va)"
    using hok by (auto simp: heap_ok_def)
  have k: "unat ?b = unat ?st + 4096 * k"
  proof -
    have "unat (?b - ?st) = unat ?b - unat ?st" using lims(2) by (rule unat_u32_minus)
    moreover have "4096 dvd unat ?b - unat ?st" by (rule dvd_diff_nat [OF al(2,1)])
    ultimately show ?thesis using lims(2) by (simp add: k_def word_le_nat_alt)
  qed
  have kf: "k \<le> heap_fuel" "k < 4294967295" using k unat_u32_lt [of ?b] by (auto simp: heap_fuel_def)
  have n20: "unat n \<le> 1048576" using bound by simp
  have fit_eq: "fit tab s (unat n) = custom_fit (unat n) (holes (page_map tab s ?st k))"
    by (simp add: fit_def k_def)
  obtain sc where sc: "kmalloc_scan heap_fuel n ?st scan_init s = Inr (sc, s)"
    "scan_close n sc = scan_pages n (page_map tab s ?st k) scan_init"
    using kmalloc_scan_ok [OF ok lims(1) al(1) k lims(3) kf(1)] by blast
  have pg: "unat (nth_page ?st i) = unat ?st + 4096 * i" if "i \<le> k" for i
    by (rule unat_nth_page) (use that k unat_u32_lt [of ?b] in auto)
  have nz: "0 \<notin> fst ` set (page_map tab s ?st k)"
  proof
    assume "0 \<in> fst ` set (page_map tab s ?st k)"
    then obtain i where "i < k" "nth_page ?st i = 0" by (auto simp: page_map_def)
    then show False using pg [of i] lims(1) by (simp add: word_le_nat_alt)
  qed
  have pl: "place_of (scan_close n sc) = (case fit tab s (unat n) of None \<Rightarrow> 0 | Some a \<Rightarrow> a)"
    unfolding sc(2) fit_eq by (rule scan_custom_fit [OF n(1) nz]) (use kf in \<open>simp add: page_map_def\<close>)
  have newb: "unat (?b + n * 4096) = unat ?b + 4096 * unat n"
    using unat_nth_page [of ?b "unat n"] bound by simp
  show ?thesis
  proof (cases "fit tab s (unat n)")
    case (Some a)
    then obtain j where j: "a = nth_page ?st j" "j + unat n \<le> k"
      "\<forall>i < unat n. \<not> present (pte tab s (nth_page ?st (j + i)))"
      using custom_fit_free [of "unat n" "nth_page ?st" "\<lambda>i. \<not> present (pte tab s (nth_page ?st i))" k a]
      by (auto simp: fit_eq page_map_def)
    have np: "nth_page a i = nth_page ?st (j + i)" for i by (simp add: j(1) algebra_simps)
    have lt: "nth_page a i < ?b" if "i < unat n" for i
      unfolding np word_less_nat_alt using pg [of "j + i"] that j(2) k by auto
    have "heap_page (nth_page a i)" if "i < unat n" for i
      unfolding np by (rule heap_page_nth [OF lims(1) al(1)]) (use that j(2) k lims(3) in \<open>auto simp: word_less_nat_alt\<close>)
    then have fr: "\<forall>i < unat n. heap_page (nth_page a i) \<and> \<not> present (pte tab s (nth_page a i))"
      using j(3) unfolding np by blast
    have "0 < unat n" using n(1) by (simp add: word_less_nat_alt)
    then have "heap_page a" using fr by (auto dest: spec [of _ 0])
    then have a0: "a \<noteq> 0" by (auto simp: heap_page_def word_le_nat_alt)
    obtain t where t: "bindE (kmalloc_fill ct (unat n) a s) (\<lambda>s2.
           bindE (kmalloc_record a n (s2\<lparr>kheapPageAllocBreak := ?b\<rparr>)) (finish a)) = Inr (a, t)"
      "kh_ok T tab pins t" "pages_taken tab (unat n) a s t" "kheapPageAllocBreak t = ?b" "kcpu t = c" "heap_lock t = unlocked"
      using kmalloc_place_ok [OF ok lk n n20 fr, of ct ?b] by (elim exE conjE) (rule that, assumption+)
    have "bindE (kmalloc_fill ct (unat n) a s) (\<lambda>s2. bindE (kmalloc_record a n s2) (finish a)) = Inr (a, t)"
    proof -
      from t(1) obtain u where u: "kmalloc_fill ct (unat n) a s = Inr u" by blast
      moreover have "frame_change s u" using kmalloc_fill_ok [OF ok n20 n(2) fr, of ct] u by auto
      then have "u\<lparr>kheapPageAllocBreak := ?b\<rparr> = u" using frame_change_fields(8) [of s u] by simp
      ultimately show ?thesis using t(1) by simp
    qed
    moreover have "heap_ok T tab pins t"
    proof -
      have "\<not> present (pte tab t wa)" if w: "heap_page wa" "?b \<le> wa" for wa
      proof -
        have "\<forall>i < unat n. wa \<noteq> nth_page a i" using lt w(2) by (meson not_le)
        then show ?thesis using t(3) w above [OF w] by (simp add: pages_taken_def)
      qed
      then show ?thesis using hok t(2-4) by (simp add: heap_ok_def pages_taken_def)
    qed
    ultimately show ?thesis
      using t(3-6) sc(1) pl Some a0
      by (intro exI [of _ t]) (simp add: kmalloc_pages_def Let_def place_of_def [symmetric])
  next
    case None
    have fr: "\<forall>i < unat n. heap_page (nth_page ?b i) \<and> \<not> present (pte tab s (nth_page ?b i))"
    proof (intro allI impI)
      fix i assume i: "i < unat n"
      have "unat (nth_page ?b i) = unat ?b + 4096 * i" by (rule unat_nth_page) (use i bound in auto)
      then have "?b \<le> nth_page ?b i" by (simp add: word_le_nat_alt)
      moreover have "heap_page (nth_page ?b i)"
        by (rule heap_page_nth [OF order.trans [OF lims(1,2)] al(2)]) (use i bound in auto)
      ultimately show "heap_page (nth_page ?b i) \<and> \<not> present (pte tab s (nth_page ?b i))" using above by blast
    qed
    obtain t where t: "bindE (kmalloc_fill ct (unat n) ?b s) (\<lambda>s2.
           bindE (kmalloc_record ?b n (s2\<lparr>kheapPageAllocBreak := ?b + n * 4096\<rparr>)) (finish ?b)) = Inr (?b, t)"
      "kh_ok T tab pins t" "pages_taken tab (unat n) ?b s t" "kheapPageAllocBreak t = ?b + n * 4096" "kcpu t = c"
      "heap_lock t = unlocked"
      using kmalloc_place_ok [OF ok lk n n20 fr, of ct "?b + n * 4096"] by (elim exE conjE) (rule that, assumption+)
    have ge: "?b \<le> ?b + n * 4096" "?b + n * 4096 < KERNEL_HEAP_MAX"
      using newb bound by (simp_all add: word_le_nat_alt word_less_nat_alt)
    have "heap_ok T tab pins t"
    proof -
      have "\<not> present (pte tab t wa)" if w: "heap_page wa" "?b + n * 4096 \<le> wa" for wa
      proof -
        have "wa \<noteq> nth_page ?b i" if "i < unat n" for i
        proof -
          have "unat (nth_page ?b i) = unat ?b + 4096 * i" by (rule unat_nth_page) (use that bound in auto)
          then show ?thesis using w(2) newb that by (auto simp: word_le_nat_alt)
        qed
        then show ?thesis using t(3) w(1) above [OF w(1)] order.trans [OF ge(1) w(2)] by (simp add: pages_taken_def)
      qed
      moreover have "4096 dvd unat (?b + n * 4096)" using newb al(2) by simp
      moreover have "?st \<le> ?b + n * 4096" using lims(2) ge(1) by (rule order.trans)
      ultimately show ?thesis using hok t(2-4) ge(2) by (simp add: heap_ok_def pages_taken_def)
    qed
    then show ?thesis
      using t sc(1) pl None ge
      by (intro exI [of _ t]) (simp add: kmalloc_pages_def Let_def place_of_def [symmetric] not_le [symmetric] not_less)
  qed
qed

section \<open>kmalloc\<close>

lemma unat_pages: "unat sz \<le> 0xFFFFF000 \<Longrightarrow> unat (ROUNDUP sz PAGE_SIZE div PAGE_SIZE) = pages_needed sz"
  using unat_ROUNDUP [of "0x1000" sz] by (simp add: unat_div_distrib pages_needed_def)

lemma heap_ok_lock:
  fixes s :: "'a kheap_scheme"
  assumes "heap_ok T tab pins s" and "cpu_ok c" and "noted c = c"
  shows "heap_ok T tab pins (s\<lparr>kcpu := c, heap_lock := lk\<rparr>)"
  using assms kh_ok_lock [of T tab pins s c lk] by (simp add: heap_ok_def pte_def)

lemma lock_irrelevant:
  "fit tab (s\<lparr>kcpu := c, heap_lock := lk\<rparr>) n = fit tab s n"
  "pages_taken tab n va (s\<lparr>kcpu := c, heap_lock := lk\<rparr>) t = pages_taken tab n va s t"
  "pte tab (s\<lparr>kcpu := c, heap_lock := lk\<rparr>) wa = pte tab s wa"
  "kheapPageAllocBreak (s\<lparr>kcpu := c, heap_lock := lk\<rparr>) = kheapPageAllocBreak s"
  by (simp_all add: fit_def page_map_def pages_taken_def pte_def)

lemma heap_calmD: "heap_calm s \<Longrightarrow> cpu_ok (kcpu s)" "heap_calm s \<Longrightarrow> noted (kcpu s) = kcpu s"
  by (simp_all add: heap_calm_def calm_def)

lemma locked_after_acquire:
  assumes "heap_calm s"
  shows "locked_heap (kcpu s) (s\<lparr>kcpu := pushcli (kcpu s), heap_lock := held_lock (kcpu s)\<rparr>)"
  using heap_calmD [OF assms] by (simp add: locked_heap_def)

lemma finish_acquired:
  "heap_calm s \<Longrightarrow> finish v (s\<lparr>kcpu := pushcli (kcpu s), heap_lock := held_lock (kcpu s)\<rparr>) = Inr (v, s)"
  by (simp add: finish_def restore_heap)

lemma heap_ok_acquired:
  "\<lbrakk>heap_ok T tab pins s; heap_calm s\<rbrakk> \<Longrightarrow>
   heap_ok T tab pins (s\<lparr>kcpu := pushcli (kcpu s), heap_lock := lk\<rparr>)"
  by (rule heap_ok_lock) (auto dest: heap_calmD simp: pushcli_ok)

lemma heap_ok_calm: "\<lbrakk>heap_ok T tab pins t; heap_lock t = unlocked\<rbrakk> \<Longrightarrow> heap_calm t"
  by (auto simp: heap_ok_def heap_calm_def dest: kh_okD(2))

lemma kmalloc_unfold_pages:
  assumes "heap_calm s" and "2048 < sz"
  shows "kmalloc sz s =
    (let s1 = s\<lparr>kcpu := pushcli (kcpu s), heap_lock := held_lock (kcpu s)\<rparr>; n = ROUNDUP sz PAGE_SIZE div PAGE_SIZE in
     if KERNEL_HEAP_MAX \<le> kheapPageAllocBreak s + n * PAGE_SIZE \<or> kheapPageAllocBreak s + n * PAGE_SIZE < kheapPageAllocBreak s
     then Inr (0, s)
     else kmalloc_pages (create_page_table kmalloc_nested kheap_physical_address) n
       (if kheapPageAllocBreak s = 0
        then s1\<lparr>kheapPageAllocStart := ROUNDUP (dynAllocEnd (kh_da s1)) PAGE_SIZE,
                kheapPageAllocBreak := ROUNDUP (dynAllocEnd (kh_da s1)) PAGE_SIZE\<rparr>
        else s1))"
proof -
  have sz: "sz \<noteq> 0" "\<not> sz \<le> 2048" using assms(2) by (auto simp: word_le_nat_alt word_less_nat_alt)
  show ?thesis
    by (simp add: kmalloc_def kmalloc_with_def heap_acquire_calm [OF assms(1)] sz Let_def finish_acquired [OF assms(1)])
qed

lemma kmalloc_ok:
  assumes "heap_ok T tab pins s" and "heap_calm s" and "2048 < sz" and "unat sz \<le> 0xFFFFF000"
    and "unat (kheapPageAllocBreak s) + 4096 * pages_needed sz < 0xFFFFF000"
    and "pages_needed sz \<le> length (free_frame_list s)"
  shows "\<exists>va t. kmalloc sz s = Inr (va, t) \<and> heap_ok T tab pins t \<and> heap_calm t
    \<and> va = (case fit tab s (pages_needed sz) of Some a \<Rightarrow> a | None \<Rightarrow> kheapPageAllocBreak s)
    \<and> pages_taken tab (pages_needed sz) va s t
    \<and> kheapPageAllocBreak t = (case fit tab s (pages_needed sz) of Some a \<Rightarrow> kheapPageAllocBreak s
        | None \<Rightarrow> kheapPageAllocBreak s + word_of_nat (pages_needed sz) * 4096)"
proof -
  let ?n = "ROUNDUP sz PAGE_SIZE div PAGE_SIZE" and ?s = "s\<lparr>kcpu := pushcli (kcpu s), heap_lock := held_lock (kcpu s)\<rparr>"
  have n: "unat ?n = pages_needed sz" by (rule unat_pages [OF assms(4)])
  have n0: "0 < ?n" unfolding word_less_nat_alt n using assms(3) by (simp add: pages_needed_def word_less_nat_alt)
  have nb: "unat (kheapPageAllocBreak s + ?n * 4096) = unat (kheapPageAllocBreak s) + 4096 * pages_needed sz"
    using unat_nth_page [of "kheapPageAllocBreak s" "pages_needed sz"] assms(5)
    unfolding n [symmetric] by simp
  have b: "\<not> KERNEL_HEAP_MAX \<le> kheapPageAllocBreak s + ?n * 4096"
    "\<not> kheapPageAllocBreak s + ?n * 4096 < kheapPageAllocBreak s" "kheapPageAllocBreak s \<noteq> 0"
    using nb assms(1,5) by (auto simp: word_le_nat_alt word_less_nat_alt heap_ok_def)
  have "kmalloc sz s = kmalloc_pages (create_page_table kmalloc_nested kheap_physical_address) ?n ?s"
    using b by (simp add: kmalloc_unfold_pages [OF assms(2,3)] Let_def)
  moreover have "\<exists>t. kmalloc_pages (create_page_table kmalloc_nested kheap_physical_address) ?n ?s
      = Inr (case fit tab ?s (unat ?n) of Some a \<Rightarrow> a | None \<Rightarrow> kheapPageAllocBreak ?s, t)
    \<and> heap_ok T tab pins t
    \<and> pages_taken tab (unat ?n) (case fit tab ?s (unat ?n) of Some a \<Rightarrow> a | None \<Rightarrow> kheapPageAllocBreak ?s) ?s t
    \<and> kheapPageAllocBreak t = (case fit tab ?s (unat ?n) of Some a \<Rightarrow> kheapPageAllocBreak ?s
        | None \<Rightarrow> kheapPageAllocBreak ?s + ?n * 4096)
    \<and> kcpu t = kcpu s \<and> heap_lock t = unlocked"
    by (rule kmalloc_pages_ok [OF heap_ok_acquired [OF assms(1,2)] locked_after_acquire [OF assms(2)] n0])
      (use assms(5,6) n in simp_all)
  moreover have "?n = word_of_nat (pages_needed sz)" unfolding n [symmetric] by simp
  ultimately show ?thesis unfolding lock_irrelevant n using heap_ok_calm by (auto split: option.split)
qed

lemma fit_range:
  assumes "heap_ok T tab pins s" and "fit tab s n = Some a"
  shows "kheapPageAllocStart s \<le> a" and "unat a + 4096 * n \<le> unat (kheapPageAllocBreak s)"
proof -
  let ?st = "kheapPageAllocStart s" and ?b = "kheapPageAllocBreak s"
  let ?k = "unat (?b - ?st) div 4096"
  have le: "?st \<le> ?b" using assms(1) by (simp add: heap_ok_def)
  obtain j where j: "a = nth_page ?st j" "j + n \<le> ?k"
    using custom_fit_free [of n "nth_page ?st" "\<lambda>i. \<not> present (pte tab s (nth_page ?st i))" ?k a] assms(2)
    by (auto simp: fit_def page_map_def)
  have "4096 * ?k \<le> unat ?b - unat ?st" using unat_u32_minus [OF le] by simp
  then have b: "unat ?st + 4096 * (j + n) \<le> unat ?b" using j(2) le by (simp add: word_le_nat_alt)
  then have "unat a = unat ?st + 4096 * j" unfolding j(1) by (intro unat_nth_page) (use unat_u32_lt [of ?b] in simp)
  then show "?st \<le> a" "unat a + 4096 * n \<le> unat ?b" using b by (simp_all add: word_le_nat_alt)
qed


text \<open>A page request that would move the break to the end of the heap range or past it returns
  NULL and changes nothing, even where a hole below the break would fit.\<close>

theorem kmalloc_no_space:
  assumes "heap_calm s" and "2048 < sz" and "unat sz \<le> 0xFFFFF000"
    and "0xFFFFF000 \<le> unat (kheapPageAllocBreak s) + 4096 * pages_needed sz"
  shows "kmalloc sz s = Inr (0, s)"
proof -
  let ?b = "kheapPageAllocBreak s" and ?n = "ROUNDUP sz PAGE_SIZE div PAGE_SIZE"
  have n: "unat ?n = pages_needed sz" by (rule unat_pages [OF assms(3)])
  have small: "4096 * pages_needed sz < 4294967296" using assms(3) by (simp add: pages_needed_def)
  have m: "unat (?n * 4096) = 4096 * pages_needed sz"
    using small by (subst unat_u32_mult) (simp_all add: n)
  have "KERNEL_HEAP_MAX \<le> ?b + ?n * 4096 \<or> ?b + ?n * 4096 < ?b"
  proof (cases "unat ?b + 4096 * pages_needed sz < 4294967296")
    case True
    then show ?thesis using assms(4) m by (simp add: word_le_nat_alt unat_u32_plus)
  next
    case False
    have "unat (?b + ?n * 4096) = (unat ?b + 4096 * pages_needed sz) mod 4294967296"
      by (simp only: unat_word_ariths(1) m) simp
    also have "\<dots> = unat ?b + 4096 * pages_needed sz - 4294967296"
      using False small unat_u32_lt [of ?b] by (simp add: mod_if le_mod_geq)
    finally have "unat (?b + ?n * 4096) < unat ?b" using small False by linarith
    then show ?thesis by (simp add: word_less_nat_alt)
  qed
  then show ?thesis by (simp add: kmalloc_unfold_pages [OF assms(1,2)] Let_def)
qed
section \<open>Giving pages back\<close>

lemma ROUNDDOWN_page: "heap_page va \<Longrightarrow> ROUNDDOWN va 4096 = va"
  by (rule ROUNDDOWN_idem) (simp add: heap_page_def)

lemma kh_unmap_one:
  fixes s :: "'a kheap_scheme"
  assumes ok: "kh_ok T tab pins s" and va: "heap_page va"
  defines "t \<equiv> unmapped (tab va) (unat (PTX va)) s"
  shows "return_page va s = Inr t" and "kh_ok T tab pins t" and "frame_change s t" and "\<not> present (pte tab t va)"
    and "\<And>wa. heap_page wa \<Longrightarrow> wa \<noteq> va \<Longrightarrow> pte tab t wa = pte tab s wa"
proof -
  let ?i = "unat (PTX va)" and ?e = "pte tab s va"
  note d = kh_okD [OF ok]
  show "return_page va s = Inr t" unfolding return_page_def ROUNDDOWN_page [OF va] t_def
    by (rule unmap_frame_ok [OF d(5) [OF va] _ d(2)]) (use kh_entry [OF ok va] in \<open>simp add: pte_def\<close>)
  show "frame_change s t" unfolding t_def by (rule frame_change_mapped)
  then have fc: "number_of_frames t = number_of_frames s" "ptr_page_directory t = ptr_page_directory s"
    by (simp_all add: frame_change_fields)
  show "\<not> present (pte tab t va)" unfolding t_def pte_def by (rule unmapped_not_present)
  show other: "pte tab t wa = pte tab s wa" if "heap_page wa" "wa \<noteq> va" for wa
    using pte_set_entry [OF ok va that(1)] that(2) by (auto simp: pte_def t_def unmapped_def)
  have inv: "mm_inv t T pins" unfolding t_def by (rule mm_inv_unmapped [OF d(1) d(4) [OF va] PTX_less])
  have rev: "fi_va (frames_info t (frame_of (pte tab t wa))) = wa" if w: "heap_page wa" "present (pte tab t wa)" for wa
  proof -
    have ne: "wa \<noteq> va" using w(2) \<open>\<not> present (pte tab t va)\<close> by auto
    let ?g = "frame_of (pte tab s wa)"
    have p: "present (pte tab s wa)" using w other ne by simp
    have "references (frames_info s ?g) \<noteq> 1" if e: "present ?e" "frame_of ?e = ?g"
    proof
      assume "references (frames_info s ?g) = 1"
      moreover have "?g < unat (number_of_frames s)" using kh_entry [OF ok w(1)] p by (simp add: entry_ok_def)
      ultimately have "card (slots s T ?g) \<le> 1" using d(1) by (auto simp: mm_inv_def dest!: spec [of _ ?g])
      moreover have "{(tab wa, unat (PTX wa)), (tab va, ?i)} \<subseteq> slots s T ?g"
        using present_slot [OF ok w(1) p] present_slot [OF ok va e(1)] e(2) by simp
      then have "card {(tab wa, unat (PTX wa)), (tab va, ?i)} \<le> card (slots s T ?g)"
        by (rule card_mono [rotated]) (use d(1) in \<open>simp add: mm_inv_def\<close>)
      moreover have "card {(tab wa, unat (PTX wa)), (tab va, ?i)} = 2"
        using pte_set_entry [OF ok va w(1)] ne by auto
      ultimately show False by simp
    qed
    then have "fi_va (frames_info t ?g) = fi_va (frames_info s ?g)"
      by (auto simp: t_def unmapped_def pte_def drop_ref_def set_frame_def)
    then show ?thesis using d(7) [OF w(1) p] other [OF w(1) ne] by simp
  qed
  have "tab va \<noteq> ptr_page_directory s" using d(3) d(4) [OF va] by auto
  then have "mem t (ptr_page_directory s) = mem s (ptr_page_directory s)" by (simp add: t_def unmapped_def)
  then show "kh_ok T tab pins t"
    by (intro kh_ok_transfer [OF ok inv _ _ _ _ rev]) (use d(2) fc in \<open>simp_all add: t_def\<close>)
qed

lemma frame_change_sizes:
  fixes s t :: "'a kheap_scheme"
  assumes "frame_change s t"
  shows "frame_change (s\<lparr>allocatedSize := x\<rparr>) (t\<lparr>allocatedSize := x\<rparr>)"
  using assms by (cases s; cases t) (simp add: frame_change_def)

lemma kfree_pages_ok:
  fixes s :: "'a kheap_scheme"
  assumes "kh_ok T tab pins s" and "n \<le> 1048576" and "\<forall>i < n. heap_page (nth_page va i)"
    and "unat va + 4096 * n < 4294967296"
  shows "\<exists>t. kfree_pages n va s = Inr t \<and> kh_ok T tab pins t
    \<and> frame_change (s\<lparr>allocatedSize := set_sizes (unat va div 4096) n 0 (allocatedSize s)\<rparr>) t
    \<and> (\<forall>i < n. \<not> present (pte tab t (nth_page va i)))
    \<and> (\<forall>wa. heap_page wa \<and> (\<forall>i < n. wa \<noteq> nth_page va i) \<longrightarrow> pte tab t wa = pte tab s wa)"
  using assms
proof (induction n arbitrary: va s)
  case 0
  then show ?case by (simp add: frame_change_refl)
next
  case (Suc n)
  have va: "heap_page va" using Suc.prems(3) by (auto dest: spec [of _ 0])
  note one = kh_unmap_one [OF Suc.prems(1) va]
  let ?t = "unmapped (tab va) (unat (PTX va)) s"
  let ?u = "?t\<lparr>allocatedSize := (allocatedSize ?t)(unat (drop_bit 12 va) := 0)\<rparr>"
  have pu: "pte tab ?u wa = pte tab ?t wa" for wa by (simp add: pte_def)
  have okN: "kh_ok T tab pins ?u" using one(2) by simp
  have va': "unat (va + 4096) = unat va + 4096" using unat_nth_page [of va 1] Suc.prems(4) by simp
  have ne: "nth_page (va + 4096) i \<noteq> va" if "i < n" for i
    using nth_page_inj [of "Suc i" 0 va] that Suc.prems(2) by (auto simp: nth_page_Suc)
  have hyp: "\<forall>i < n. heap_page (nth_page (va + 4096) i)"
    using Suc.prems(3) unfolding nth_page_Suc by blast
  have "n \<le> 1048576" "unat (va + 4096) + 4096 * n < 4294967296" using Suc.prems(2,4) va' by simp_all
  from Suc.IH [OF okN this(1) hyp this(2)] obtain t where t: "kfree_pages n (va + 4096) ?u = Inr t" "kh_ok T tab pins t"
    "frame_change (?u\<lparr>allocatedSize := set_sizes (unat (va + 4096) div 4096) n 0 (allocatedSize ?u)\<rparr>) t"
    "\<forall>i < n. \<not> present (pte tab t (nth_page (va + 4096) i))"
    "\<forall>wa. heap_page wa \<and> (\<forall>i < n. wa \<noteq> nth_page (va + 4096) i) \<longrightarrow> pte tab t wa = pte tab ?u wa" by blast
  have step: "kfree_pages (Suc n) va s = Inr t" using one(1) t(1) by simp
  have "pte tab t va = pte tab ?t va" using t(5) va ne pu by auto
  then have "\<forall>i < Suc n. \<not> present (pte tab t (nth_page va i))"
    using t(4) one(4) unfolding nth_page_Suc by (auto simp: less_Suc_eq_0_disj)
  moreover have "pte tab t wa = pte tab s wa" if wa: "heap_page wa" "\<forall>i < Suc n. wa \<noteq> nth_page va i" for wa
  proof -
    have "wa \<noteq> va" using wa(2) by (auto dest: spec [of _ 0])
    moreover have "\<forall>i < n. wa \<noteq> nth_page (va + 4096) i" using wa(2) unfolding nth_page_Suc by blast
    ultimately show ?thesis using t(5) wa(1) one(5) pu by simp
  qed
  moreover have "frame_change (s\<lparr>allocatedSize := set_sizes (unat va div 4096) (Suc n) 0 (allocatedSize s)\<rparr>) t"
  proof -
    have a: "allocatedSize ?t = allocatedSize s" by (rule frame_change_fields(9) [OF one(3)])
    have "(unat va + 4096) div 4096 = Suc (unat va div 4096)" by simp
    then have u: "?u\<lparr>allocatedSize := set_sizes (unat (va + 4096) div 4096) n 0 (allocatedSize ?u)\<rparr>
      = ?t\<lparr>allocatedSize := set_sizes (unat va div 4096) (Suc n) 0 (allocatedSize s)\<rparr>"
      by (simp add: a va' unat_drop_bit_12)
    show ?thesis by (rule frame_change_trans [OF frame_change_sizes [OF one(3)] t(3) [unfolded u]])
  qed
  ultimately show ?case using step t(2) by blast
qed

lemma kfree_break_ok:
  fixes s :: "'a kheap_scheme"
  assumes "kh_ok T tab pins s" and "KERNEL_HEAP_START \<le> kheapPageAllocStart s" and "4096 dvd unat (kheapPageAllocStart s)"
    and "unat b = unat (kheapPageAllocStart s) + 4096 * n" and "b < KERNEL_HEAP_MAX" and "n \<le> fuel"
  shows "\<exists>m \<le> n. kfree_break fuel b s = Inr (nth_page (kheapPageAllocStart s) m, s)
    \<and> (m = 0 \<or> present (pte tab s (nth_page (kheapPageAllocStart s) (m - 1))))
    \<and> (\<forall>i. m \<le> i \<and> i < n \<longrightarrow> \<not> present (pte tab s (nth_page (kheapPageAllocStart s) i)))"
  using assms
proof (induction n arbitrary: fuel b)
  case 0
  then have b: "b = kheapPageAllocStart s" by (simp add: word_unat_eq_iff)
  then show ?case by (cases fuel) simp_all
next
  case (Suc n)
  let ?st = "kheapPageAllocStart s"
  obtain k where k: "fuel = Suc k" using Suc.prems(6) by (cases fuel) auto
  have lt: "?st < b" using Suc.prems(4) by (simp add: word_less_nat_alt)
  have bb: "unat b < 0xFFFFF000" using Suc.prems(5) by (simp add: word_less_nat_alt)
  have pg: "unat (nth_page ?st n) = unat ?st + 4096 * n" by (rule unat_nth_page) (use Suc.prems(4) bb in simp)
  have sub: "b - 4096 = nth_page ?st n"
  proof -
    have "unat (b - 4096) = unat b - 4096" using Suc.prems(4) by (subst unat_u32_minus) (simp_all add: word_le_nat_alt)
    then show ?thesis using pg Suc.prems(4) by (simp add: word_unat_eq_iff)
  qed
  have hp: "heap_page (nth_page ?st n)" by (rule heap_page_nth [OF Suc.prems(2,3)]) (use Suc.prems(4) bb in simp)
  note gfi = kh_get_frame_info [OF Suc.prems(1) hp]
  show ?case
  proof (cases "present (pte tab s (nth_page ?st n))")
    case True
    have "0 < references (frames_info s (frame_of (pte tab s (nth_page ?st n))))"
      using mm_inv_referenced [OF kh_okD(1,4) [OF Suc.prems(1)] PTX_less] hp True Suc.prems(1)
      by (simp add: pte_def word_less_nat_alt)
    then have "kfree_break fuel b s = Inr (b, s)" using lt gfi True by (simp add: k sub)
    moreover have "b = nth_page ?st (Suc n)"
    proof -
      have "unat (nth_page ?st (Suc n)) = unat ?st + 4096 * Suc n" by (rule unat_nth_page) (use Suc.prems(4) bb in simp)
      then show ?thesis using Suc.prems(4) by (simp add: word_unat_eq_iff)
    qed
    ultimately show ?thesis using True by (intro exI [of _ "Suc n"]) auto
  next
    case False
    have "kfree_break fuel b s = kfree_break k (nth_page ?st n) s" using lt gfi False by (simp add: k sub)
    moreover have "nth_page ?st n < KERNEL_HEAP_MAX" using hp by (simp add: heap_page_def)
    ultimately obtain m where "m \<le> n" "kfree_break fuel b s = Inr (nth_page ?st m, s)"
      "m = 0 \<or> present (pte tab s (nth_page ?st (m - 1)))"
      "\<forall>i. m \<le> i \<and> i < n \<longrightarrow> \<not> present (pte tab s (nth_page ?st i))"
      using Suc.IH [of "nth_page ?st n" k] Suc.prems(1-3,6) pg k by auto
    then show ?thesis using False by (intro exI [of _ m]) (auto simp: less_Suc_eq)
  qed
qed
definition pages_freed :: "(u32 \<Rightarrow> u32) \<Rightarrow> nat \<Rightarrow> u32 \<Rightarrow> 'a kheap_scheme \<Rightarrow> 'a kheap_scheme \<Rightarrow> bool" where
  "pages_freed tab n va s t \<longleftrightarrow>
     (\<forall>i < n. \<not> present (pte tab t (nth_page va i)))
     \<and> (\<forall>wa. heap_page wa \<and> (\<forall>i < n. wa \<noteq> nth_page va i) \<longrightarrow> pte tab t wa = pte tab s wa)
     \<and> allocatedSize t = set_sizes (unat va div 4096) n 0 (allocatedSize s)
     \<and> kheapPageAllocStart t = kheapPageAllocStart s \<and> kh_da t = kh_da s"

text \<open>The break lies directly above the last mapped page.\<close>

definition break_tight :: "(u32 \<Rightarrow> u32) \<Rightarrow> 'a kheap_scheme \<Rightarrow> bool" where
  "break_tight tab s \<longleftrightarrow> kheapPageAllocBreak s = kheapPageAllocStart s
     \<or> present (pte tab s (kheapPageAllocBreak s - 4096))"

lemma heap_page_below_break:
  assumes "heap_page wa" and "st \<le> wa" and "4096 dvd unat st" and "wa < b" and "unat b = unat st + 4096 * k"
  shows "\<exists>i < k. wa = nth_page st i"
proof -
  have "4096 dvd unat wa - unat st" using assms(1,3) by (intro dvd_diff_nat) (simp_all add: heap_page_def)
  then obtain i where i: "unat wa - unat st = 4096 * i" by (rule dvdE)
  have le: "unat st \<le> unat wa" "unat wa < unat b" using assms(2,4) by (simp_all add: word_le_nat_alt word_less_nat_alt)
  then have "unat (nth_page st i) = unat wa" using i unat_u32_lt [of wa] by (subst unat_nth_page) auto
  then show ?thesis using le i assms(5) by (intro exI [of _ i]) (auto simp: word_unat_eq_iff)
qed

lemma break_pages:
  assumes "heap_ok T tab pins s"
  shows "\<exists>k \<le> heap_fuel. unat (kheapPageAllocBreak s) = unat (kheapPageAllocStart s) + 4096 * k"
proof -
  let ?b = "kheapPageAllocBreak s" and ?st = "kheapPageAllocStart s"
  have "4096 dvd unat ?b - unat ?st" using assms by (intro dvd_diff_nat) (simp_all add: heap_ok_def)
  then obtain k where "unat ?b - unat ?st = 4096 * k" by (rule dvdE)
  moreover have "unat ?st \<le> unat ?b" using assms by (simp add: heap_ok_def word_le_nat_alt)
  ultimately show ?thesis using unat_u32_lt [of ?b] by (intro exI [of _ k]) (auto simp: heap_fuel_def)
qed

lemma kfree_locked:
  fixes s :: "'a kheap_scheme"
  assumes hok: "heap_ok T tab pins s" and n: "\<forall>i < n. heap_page (nth_page va i)" "n \<le> 1048576"
    "unat va + 4096 * n < 4294967296"
  shows "\<exists>t b. bindE (kfree_pages n va s) (\<lambda>s3. kfree_break heap_fuel (kheapPageAllocBreak s3) s3) = Inr (b, t)
    \<and> kcpu t = kcpu s \<and> heap_lock t = heap_lock s \<and> heap_ok T tab pins (t\<lparr>kheapPageAllocBreak := b\<rparr>)
    \<and> pages_freed tab n va s (t\<lparr>kheapPageAllocBreak := b\<rparr>) \<and> break_tight tab (t\<lparr>kheapPageAllocBreak := b\<rparr>)"
proof -
  let ?st = "kheapPageAllocStart s" and ?b = "kheapPageAllocBreak s"
  have ok: "kh_ok T tab pins s" and al: "4096 dvd unat ?st" and lims: "KERNEL_HEAP_START \<le> ?st" "?st \<le> ?b"
    "?b < KERNEL_HEAP_MAX" and above: "\<And>va. heap_page va \<Longrightarrow> ?b \<le> va \<Longrightarrow> \<not> present (pte tab s va)"
    using hok by (auto simp: heap_ok_def)
  obtain t where t: "kfree_pages n va s = Inr t" "kh_ok T tab pins t"
    "frame_change (s\<lparr>allocatedSize := set_sizes (unat va div 4096) n 0 (allocatedSize s)\<rparr>) t"
    "\<forall>i < n. \<not> present (pte tab t (nth_page va i))"
    "\<forall>wa. heap_page wa \<and> (\<forall>i < n. wa \<noteq> nth_page va i) \<longrightarrow> pte tab t wa = pte tab s wa"
    using kfree_pages_ok [OF ok n(2,1,3)] by blast
  note fc = frame_change_fields [OF t(3), simplified]
  obtain k where k: "k \<le> heap_fuel" "unat ?b = unat ?st + 4096 * k" using break_pages [OF hok] by blast
  obtain m where m: "m \<le> k" "kfree_break heap_fuel ?b t = Inr (nth_page ?st m, t)"
    "m = 0 \<or> present (pte tab t (nth_page ?st (m - 1)))"
    "\<forall>i. m \<le> i \<and> i < k \<longrightarrow> \<not> present (pte tab t (nth_page ?st i))"
    using kfree_break_ok [OF t(2), of ?b k heap_fuel] lims al k fc by auto
  let ?c = "nth_page ?st m"
  have c: "unat ?c = unat ?st + 4096 * m" by (rule unat_nth_page) (use m(1) k(2) unat_u32_lt [of ?b] in auto)
  have cb: "?st \<le> ?c" "?c \<le> ?b" "4096 dvd unat ?c" using c m(1) k(2) al by (simp_all add: word_le_nat_alt)
  have np: "\<not> present (pte tab t wa)" if w: "heap_page wa" "?c \<le> wa" for wa
  proof (cases "wa < ?b")
    case True
    obtain i where i: "i < k" "wa = nth_page ?st i"
      using heap_page_below_break [OF w(1) order.trans [OF cb(1) w(2)] al True k(2)] by blast
    have "unat wa = unat ?st + 4096 * i" unfolding i(2) by (rule unat_nth_page) (use i(1) k(2) unat_u32_lt [of ?b] in auto)
    then have "m \<le> i" using w(2) c by (simp add: word_le_nat_alt)
    then show ?thesis using m(4) i by simp
  next
    case False
    then have "\<not> present (pte tab s wa)" using above w(1) by simp
    then show ?thesis using t(4,5) w(1) by (cases "\<exists>i < n. wa = nth_page va i") auto
  qed
  have pt: "pte tab (t\<lparr>kheapPageAllocBreak := ?c\<rparr>) wa = pte tab t wa" for wa by (simp add: pte_def)
  have "heap_ok T tab pins (t\<lparr>kheapPageAllocBreak := ?c\<rparr>)"
    unfolding heap_ok_def pt using t(2) np al cb lims order.strict_trans1 [OF cb(2) lims(3)] fc by simp
  moreover have "pages_freed tab n va s (t\<lparr>kheapPageAllocBreak := ?c\<rparr>)"
    unfolding pages_freed_def pt using t(4,5) fc by simp
  moreover have "break_tight tab (t\<lparr>kheapPageAllocBreak := ?c\<rparr>)"
  proof (cases m)
    case (Suc m')
    then have "?c - 4096 = nth_page ?st m'" by simp
    then show ?thesis unfolding break_tight_def pt using m(3) Suc by simp
  qed (simp add: break_tight_def fc)
  ultimately show ?thesis using t(1) m(2) fc by (intro exI [of _ t] exI [of _ ?c]) simp
qed

lemma kfree_ok:
  assumes "heap_ok T tab pins s" and "heap_calm s" and "kheapPageAllocStart s \<le> va" and "va < KERNEL_HEAP_MAX"
    and "\<not> (dynAllocStart (kh_da s) \<le> va \<and> va < dynAllocEnd (kh_da s))"
    and "present (pte tab s (ROUNDDOWN va PAGE_SIZE))" and "0 < n"
    and "allocatedSize s (unat (ROUNDDOWN va PAGE_SIZE) div 4096) = word_of_nat n * 4096"
    and "unat (ROUNDDOWN va PAGE_SIZE) + 4096 * n \<le> 0xFFFFF000"
  shows "\<exists>t. kfree va s = Inr t \<and> heap_ok T tab pins t \<and> heap_calm t
    \<and> pages_freed tab n (ROUNDDOWN va PAGE_SIZE) s t \<and> break_tight tab t"
proof -
  let ?v = "ROUNDDOWN va PAGE_SIZE" and ?s = "s\<lparr>kcpu := pushcli (kcpu s), heap_lock := held_lock (kcpu s)\<rparr>"
  have hok: "heap_ok T tab pins ?s" by (rule heap_ok_acquired [OF assms(1,2)])
  have st: "KERNEL_HEAP_START \<le> ?v"
  proof -
    have "unat ?v = unat va div 4096 * 4096" by (simp add: unat_ROUNDDOWN')
    moreover have "0xF6000000 \<le> unat va"
      using assms(1,3) by (auto simp: heap_ok_def word_le_nat_alt)
    ultimately show ?thesis by (simp add: word_le_nat_alt)
  qed
  have d: "4096 dvd unat ?v" using ROUNDDOWN_dvd [of 4096 va] by simp
  have hp: "heap_page (nth_page ?v i)" if "i < n" for i
    by (rule heap_page_nth [OF st d]) (use that assms(9) in simp)
  have hv: "heap_page ?v" using hp [of 0] assms(7) by simp
  have szn: "unat (word_of_nat n * 4096 :: u32) = 4096 * n"
    using unat_nth_page [of 0 n] assms(9) by simp
  have sz0: "(word_of_nat n * 4096 :: u32) \<noteq> 0" using szn assms(7) by auto
  have cnt: "unat ((word_of_nat n * 4096 + 4096 - 1 :: u32) div 4096) = n"
  proof -
    have "unat (word_of_nat n * 4096 + 4095 :: u32) = 4096 * n + 4095"
      using assms(9) st szn by (subst unat_u32_plus) (auto simp: word_le_nat_alt)
    moreover have "(word_of_nat n * 4096 + 4096 - 1 :: u32) = word_of_nat n * 4096 + 4095" by simp
    ultimately have "unat ((word_of_nat n * 4096 + 4096 - 1 :: u32) div 4096) = (4096 * n + 4095) div 4096"
      by (simp only: unat_div_distrib) simp
    then show ?thesis by simp
  qed
  have gfi: "get_frame_info (ptr_page_directory s) ?v ?s = Inr (Some (frame_of (pte tab s ?v)), tab ?v, ?s)"
    using kh_get_frame_info [of T tab pins ?s ?v] hok hv assms(6)
    by (simp add: heap_ok_def lock_irrelevant)
  obtain t b where t: "bindE (kfree_pages n ?v ?s) (\<lambda>s3. kfree_break heap_fuel (kheapPageAllocBreak s3) s3) = Inr (b, t)"
    "kcpu t = kcpu ?s" "heap_lock t = heap_lock ?s" "heap_ok T tab pins (t\<lparr>kheapPageAllocBreak := b\<rparr>)"
    "pages_freed tab n ?v ?s (t\<lparr>kheapPageAllocBreak := b\<rparr>)" "break_tight tab (t\<lparr>kheapPageAllocBreak := b\<rparr>)"
    using kfree_locked [OF hok, of n ?v] hp assms(9) st by (auto simp: word_le_nat_alt simp del: split_paired_Ex)
  let ?t = "t\<lparr>kheapPageAllocBreak := b\<rparr>" let ?u = "?t\<lparr>kcpu := kcpu s, heap_lock := unlocked\<rparr>"
  have rel: "heap_release ?t = Inr ?u"
    using t(2,3) heap_calmD [OF assms(2)] by (intro heap_release_held) simp_all
  have "kfree va s = Inr ?u"
    using t(1) assms(3-5,8) sz0 cnt gfi rel
    by (simp add: kfree_def heap_acquire_calm [OF assms(2)] Let_def unat_drop_bit_12 bindE_assoc [symmetric])
      (auto simp: bindE_eq_Inr_iff)
  moreover have "heap_ok T tab pins ?u" by (rule heap_ok_lock [OF t(4) heap_calmD [OF assms(2)]])
  moreover from this have "heap_calm ?u" by (rule heap_ok_calm) simp
  moreover have "pages_freed tab n ?v s ?u" using t(5) by (simp add: pages_freed_def pte_def)
  moreover have "break_tight tab ?u" using t(6) by (simp add: break_tight_def pte_def)
  ultimately show ?thesis by blast
qed


section \<open>The kernel as the page provider of the block allocator\<close>

text \<open>The static page tables of the kernel lie outside the heap range, so clearing a new heap page does
  not touch them.\<close>

definition tables_apart :: "u32 set \<Rightarrow> 'a kmem_scheme \<Rightarrow> bool" where
  "tables_apart T s \<longleftrightarrow> (\<forall>p \<in> T. \<not> heap_page p) \<and> \<not> heap_page (ptr_page_directory s)"

definition block_env :: "u32 set \<Rightarrow> (u32 \<Rightarrow> u32) \<Rightarrow> (nat \<Rightarrow> nat) \<Rightarrow> 'a kheap_scheme \<Rightarrow> bool" where
  "block_env T tab pins s \<longleftrightarrow> kh_ok T tab pins s \<and> tables_apart T s"

definition is_backed :: "(u32 \<Rightarrow> u32) \<Rightarrow> 'a kheap_scheme \<Rightarrow> u32 \<Rightarrow> bool" where
  "is_backed tab s va \<longleftrightarrow> present (pte tab s va)"

lemma clear_page_ok:
  fixes s :: "'a kheap_scheme"
  assumes "block_env T tab pins s" and "heap_page va"
  shows "block_env T tab pins (clear_page va s)" and "heap_page wa \<Longrightarrow> pte tab (clear_page va s) wa = pte tab s wa"
proof -
  have ok: "kh_ok T tab pins s" and ap: "tables_apart T s" using assms(1) by (auto simp: block_env_def)
  have nT: "mem (clear_page va s) p = mem s p" if "p \<in> T" for p
    using that ap assms(2) by (auto simp: clear_page_def tables_apart_def)
  have nd: "mem (clear_page va s) (ptr_page_directory s) = mem s (ptr_page_directory s)"
    using ap assms(2) by (auto simp: clear_page_def tables_apart_def)
  have p: "pte tab (clear_page va s) wa = pte tab s wa" if "heap_page wa" for wa
    using nT [OF kh_okD(4) [OF ok that]] by (simp add: pte_def)
  have "slots (clear_page va s) T f = slots s T f" for f using nT by (auto simp: slots_def)
  moreover have "frames_info (clear_page va s) = frames_info s" "free_frame_list (clear_page va s) = free_frame_list s"
    "number_of_frames (clear_page va s) = number_of_frames s" "calm (clear_page va s) = calm s"
    "ptr_page_directory (clear_page va s) = ptr_page_directory s"
    by (simp_all add: clear_page_def)
  moreover from this have "mm_inv (clear_page va s) T pins"
    using kh_okD(1) [OF ok] nT \<open>\<And>f. slots (clear_page va s) T f = slots s T f\<close> by (simp add: mm_inv_def)
  ultimately have "kh_ok T tab pins (clear_page va s)"
    by (intro kh_ok_transfer [OF ok]) (use kh_okD [OF ok] nd p in auto)
  then show "block_env T tab pins (clear_page va s)" using ap by (simp add: block_env_def tables_apart_def clear_page_def)
  show "heap_page wa \<Longrightarrow> pte tab (clear_page va s) wa = pte tab s wa" by (rule p)
qed

lemma tables_apart_change: "\<lbrakk>tables_apart T s; frame_change s t\<rbrakk> \<Longrightarrow> tables_apart T (t :: 'a kheap_scheme)"
  using frame_change_fields(5) [of s t] by (simp add: tables_apart_def)

lemma get_page_eq:
  fixes s :: "'a kheap_scheme"
  assumes "block_env T tab pins s" and va: "heap_page va" and np: "\<not> present (pte tab s va)"
    and l: "free_frame_list s = f # fs"
  shows "\<exists>t. get_page ct va s = Inr (clear_page va t) \<and> block_env T tab pins t \<and> frame_change s t
    \<and> free_frame_list t = fs
    \<and> present (pte tab t va) \<and> (\<forall>wa. heap_page wa \<and> wa \<noteq> va \<longrightarrow> pte tab t wa = pte tab s wa)"
proof -
  have ok: "kh_ok T tab pins s" and ap: "tables_apart T s" using assms(1) by (auto simp: block_env_def)
  let ?s = "set_frame f null_frame_info (s\<lparr>free_frame_list := fs\<rparr>)" and ?i = "unat (PTX va)"
  have calm: "calm s" and tabs: "tab va \<in> T" "table_ok s (ptr_page_directory s) va (tab va)" using kh_okD [OF ok] va by blast+
  note one = kh_map_one [OF ok va np l]
  have f: "f < 1048576" using kh_okD(1) [OF ok] l by (auto simp: mm_inv_def)
  let ?t3 = "mapped f (tab va) ?i 3 (note_va f va ?s)" and ?t2 = "mapped f (tab va) ?i 2 (note_va f va ?s)"
  have same: "?t2 = ?t3"
    using np unfolding mapped_def Let_def CONSTRUCT_ENTRY_def by (simp add: pte_def)
  have tk: "table_ok ?s (ptr_page_directory s) va (tab va)"
    using tabs(2) table_ok_kernel_cong [OF heap_page_kernel [OF va], of ?s s] by simp
  have m: "map_frame ct (ptr_page_directory s) f va 2 ?s = Inr ?t2"
    by (rule map_frame_ok [OF tk])
      (use kh_entry [OF ok va] calm f heap_page_kernel [OF va] in \<open>simp_all add: pte_def calm_def set_frame_def\<close>)
  have g: "get_frame_info (ptr_page_directory s) va s = Inr (None, tab va, s)"
    using kh_get_frame_info [OF ok va] np by simp
  have "get_page ct va s = Inr (clear_page va ?t2)"
    using one(1) m g by (simp add: get_page_def alloc_page_def ROUNDDOWN_page [OF va])
  moreover have "block_env T tab pins ?t3" using one(3) tables_apart_change [OF ap one(5)] by (simp add: block_env_def)
  ultimately show ?thesis unfolding same using one(4-7) by blast
qed
lemma get_page_provides:
  fixes s :: "'a kheap_scheme"
  assumes "block_env T tab pins s" and "\<not> is_backed tab s va" and "heap_page va" and g: "get_page ct va s = Inr t"
  shows "block_env T tab pins t \<and> (\<forall>x. heap_page x \<longrightarrow> is_backed tab t x = (x = va \<or> is_backed tab s x))"
proof (cases "free_frame_list s")
  case Nil
  have ok: "kh_ok T tab pins s" using assms(1) by (simp add: block_env_def)
  have "\<exists>m. get_page ct va s = Inl (Panic m)"
    using kh_get_frame_info [OF ok assms(3)] assms(2) allocate_frame_empty [OF kh_okD(2) [OF ok] Nil]
    by (auto simp: get_page_def alloc_page_def ROUNDDOWN_page [OF assms(3)] is_backed_def)
  then show ?thesis using g by auto
next
  case (Cons f fs)
  obtain u where u: "get_page ct va s = Inr (clear_page va u)" "block_env T tab pins u" "present (pte tab u va)"
    "\<forall>wa. heap_page wa \<and> wa \<noteq> va \<longrightarrow> pte tab u wa = pte tab s wa"
    using get_page_eq [OF assms(1,3) _ Cons, of ct] assms(2) by (auto simp: is_backed_def)
  then have t: "t = clear_page va u" using g by simp
  show ?thesis unfolding t
    using clear_page_ok [OF u(2) assms(3)] u(3,4) assms(3) by (auto simp: is_backed_def)
qed

lemma return_page_takes:
  fixes s :: "'a kheap_scheme"
  assumes "block_env T tab pins s" and "heap_page va" and r: "return_page va s = Inr t"
  shows "block_env T tab pins t \<and> (\<forall>x. heap_page x \<longrightarrow> is_backed tab t x = (x \<noteq> va \<and> is_backed tab s x))"
proof -
  have ok: "kh_ok T tab pins s" and ap: "tables_apart T s" using assms(1) by (auto simp: block_env_def)
  note one = kh_unmap_one [OF ok assms(2)]
  have t: "t = unmapped (tab va) (unat (PTX va)) s" using one(1) r by simp
  have "block_env T tab pins t" unfolding t using one(2) tables_apart_change [OF ap one(3)] by (simp add: block_env_def)
  moreover have "is_backed tab t x = (x \<noteq> va \<and> is_backed tab s x)" if "heap_page x" for x
    using one(4,5) that by (cases "x = va") (auto simp: t is_backed_def)
  ultimately show ?thesis by blast
qed

interpretation kernel_pages: page_provider "get_page ct" return_page "block_env T tab pins" "is_backed tab" heap_page
  for ct :: "'a table_creator" and T tab pins
proof
  show "\<lbrakk>block_env T tab pins e; \<not> is_backed tab e va; heap_page va; get_page ct va e = Inr e'\<rbrakk> \<Longrightarrow>
    block_env T tab pins e' \<and> (\<forall>x. heap_page x \<longrightarrow> is_backed tab e' x = (x = va \<or> is_backed tab e x))"
    for e e' :: "'a kheap_scheme" and va
    by (rule get_page_provides)
  show "\<lbrakk>block_env T tab pins e; is_backed tab e va; heap_page va; return_page va e = Inr e'\<rbrakk> \<Longrightarrow>
    block_env T tab pins e' \<and> (\<forall>x. heap_page x \<longrightarrow> is_backed tab e' x = (x \<noteq> va \<and> is_backed tab e x))"
    for e e' :: "'a kheap_scheme" and va
    by (rule return_page_takes)
qed

text \<open>The block half of the heap: the allocator is well formed and a page of its range is mapped exactly
  while it is cut into blocks.\<close>

definition blocks_ok :: "u32 set \<Rightarrow> (u32 \<Rightarrow> u32) \<Rightarrow> (nat \<Rightarrow> nat) \<Rightarrow> 'a kheap_scheme \<Rightarrow> bool" where
  "blocks_ok T tab pins s \<longleftrightarrow> da_consistent (block_env T tab pins) (is_backed tab) heap_page (kh_da s, s)"

lemma block_env_lock:
  fixes s :: "'a kheap_scheme"
  assumes "block_env T tab pins s" and "cpu_ok c" and "noted c = c"
  shows "block_env T tab pins (s\<lparr>kcpu := c, heap_lock := lk\<rparr>)"
  using assms kh_ok_lock [of T tab pins s c lk] by (simp add: block_env_def tables_apart_def)

lemma da_consistent_lock:
  fixes s :: "'a kheap_scheme"
  assumes "da_consistent (block_env T tab pins) (is_backed tab) heap_page (d, s)" and "cpu_ok c" and "noted c = c"
  shows "da_consistent (block_env T tab pins) (is_backed tab) heap_page (d, s\<lparr>kcpu := c, heap_lock := lk\<rparr>)"
  using assms block_env_lock [of T tab pins s c lk] by (simp add: da_consistent_def is_backed_def pte_def)

lemma block_env_da [simp]:
  fixes s :: "'a kheap_scheme"
  shows "block_env T tab pins (s\<lparr>kh_da := d\<rparr>) = block_env T tab pins s"
    and "is_backed tab (s\<lparr>kh_da := d\<rparr>) = is_backed tab s"
  by (simp_all add: block_env_def tables_apart_def is_backed_def fun_eq_iff pte_def)

text \<open>The block allocator runs with the heap lock held and leaves lock and processor alone.\<close>

lemma get_page_keeps_lock:
  fixes s :: "'a kheap_scheme"
  assumes "block_env T tab pins s" and "\<not> is_backed tab s va" and "heap_page va" and g: "get_page ct va s = Inr t"
  shows "kcpu t = kcpu s \<and> heap_lock t = heap_lock s"
proof (cases "free_frame_list s")
  case Nil
  have ok: "kh_ok T tab pins s" using assms(1) by (simp add: block_env_def)
  have "\<exists>m. get_page ct va s = Inl (Panic m)"
    using kh_get_frame_info [OF ok assms(3)] assms(2) allocate_frame_empty [OF kh_okD(2) [OF ok] Nil]
    by (auto simp: get_page_def alloc_page_def ROUNDDOWN_page [OF assms(3)] is_backed_def)
  then show ?thesis using g by auto
next
  case (Cons f fs)
  obtain u where u: "get_page ct va s = Inr (clear_page va u)" "frame_change s u"
    using get_page_eq [OF assms(1,3) _ Cons, of ct] assms(2) by (auto simp: is_backed_def)
  then show ?thesis using g frame_change_fields(1,2) [OF u(2)] by (auto simp: clear_page_def)
qed

lemma kmalloc_small_unfold:
  assumes "heap_calm s" and "0 < sz" and "sz \<le> 2048"
  shows "kmalloc sz s = bindE (alloc_block (get_page (create_page_table kmalloc_nested kheap_physical_address)) sz
      (kh_da s, s\<lparr>kcpu := pushcli (kcpu s), heap_lock := held_lock (kcpu s)\<rparr>))
      (\<lambda>(r, d, s2). case r of Wait \<Rightarrow> Inl Spin | Ret b \<Rightarrow> finish b (s2\<lparr>kh_da := d\<rparr>))"
proof -
  have "sz \<noteq> 0" using assms(2) by auto
  then show ?thesis using assms(3) by (simp add: kmalloc_def kmalloc_with_def heap_acquire_calm [OF assms(1)] Let_def)
qed
lemma blocks_finish:
  fixes u :: "'a kheap_scheme"
  assumes "da_consistent (block_env T tab pins) (is_backed tab) heap_page (d, u)" and "locked_heap c u"
  shows "\<exists>t. finish b (u\<lparr>kh_da := d\<rparr>) = Inr (b, t) \<and> blocks_ok T tab pins t \<and> heap_calm t \<and> kh_da t = d"
proof -
  let ?t = "u\<lparr>kh_da := d\<rparr>\<lparr>kcpu := c, heap_lock := unlocked\<rparr>"
  have c: "cpu_ok c" "noted c = c" using assms(2) by (auto simp: locked_heap_def)
  have "locked_heap c (u\<lparr>kh_da := d\<rparr>)" using assms(2) by (simp add: locked_heap_def)
  then have "finish b (u\<lparr>kh_da := d\<rparr>) = Inr (b, ?t)" by (rule finish_locked)
  moreover have "da_consistent (block_env T tab pins) (is_backed tab) heap_page (d, u\<lparr>kh_da := d\<rparr>)"
    using assms(1) by (simp add: da_consistent_def)
  from da_consistent_lock [OF this c, of unlocked] have bo: "blocks_ok T tab pins ?t" by (simp add: blocks_ok_def)
  moreover from bo have "kh_ok T tab pins ?t" by (simp add: blocks_ok_def da_consistent_def block_env_def)
  then have "calm ?t" by (rule kh_okD(2))
  then have "heap_calm ?t" by (simp add: heap_calm_def)
  moreover have "kh_da ?t = d" by simp
  ultimately show ?thesis by blast
qed

lemma kmalloc_block_ok:
  assumes "blocks_ok T tab pins s" and "heap_calm s" and "0 < sz" and "sz \<le> 2048" and "free_frame_list s \<noteq> []"
  shows "(\<exists>b t. kmalloc sz s = Inr (b, t) \<and> blocks_ok T tab pins t \<and> heap_calm t \<and> b \<noteq> 0 \<and> b \<notin> live (kh_da s)
      \<and> live (kh_da t) = insert b (live (kh_da s)) \<and> sz \<le> get_block_size (kh_da t) b)
    \<or> (kmalloc sz s = Inl Spin \<and> freePagesList (kh_da s) = [])"
proof -
  let ?gp = "get_page (create_page_table kmalloc_nested kheap_physical_address)"
  let ?s = "s\<lparr>kcpu := pushcli (kcpu s), heap_lock := held_lock (kcpu s)\<rparr>"
  have lk: "locked_heap (kcpu s) ?s" by (rule locked_after_acquire [OF assms(2)])
  have con: "da_consistent (block_env T tab pins) (is_backed tab) heap_page (kh_da s, ?s)"
    by (rule da_consistent_lock) (use assms(1) heap_calmD [OF assms(2)] in \<open>auto simp: blocks_ok_def pushcli_ok\<close>)
  have wf: "da_wf (kh_da s)" using con by (simp add: da_consistent_def)
  note eq = kmalloc_small_unfold [OF assms(2-4)]
  from wf assms(3,4) show ?thesis
  proof (cases rule: alloc_block_cases [where gp = ?gp and e = ?s])
    case (reuse b d)
    have "da_consistent (block_env T tab pins) (is_backed tab) heap_page (d, ?s)"
      by (rule kernel_pages.alloc_block_consistent [OF con assms(3,4) reuse(1)])
    from blocks_finish [OF this lk, of b] reuse(1,2) show ?thesis by (auto simp: eq got_def)
  next
    case (fresh p ps k d va)
    have p: "p < npages (kh_da s)" "bsz (kh_da s) p = 0"
      using wf fresh(1) by (auto simp: da_wf_def da_inv_def pages_ok_def)
    have va: "va = page_at (kh_da s) p" using fresh(3) by (simp add: page_at_def)
    have hp: "heap_page va" and nb: "\<not> is_backed tab ?s va" and be: "block_env T tab pins ?s"
      using con p va by (auto simp: da_consistent_def)
    obtain f fs where l: "free_frame_list ?s = f # fs" using assms(5) by (cases "free_frame_list s") auto
    obtain u where u: "?gp va ?s = Inr u"
      using get_page_eq [OF be hp _ l] nb unfolding is_backed_def by blast
    have al: "alloc_block ?gp sz (kh_da s, ?s) = Inr (Ret va, d, u)" using fresh(4) u by simp
    have "da_consistent (block_env T tab pins) (is_backed tab) heap_page (d, u)"
      by (rule kernel_pages.alloc_block_consistent [OF con assms(3,4) al])
    moreover have "locked_heap (kcpu s) u"
      using lk get_page_keeps_lock [OF be nb hp u] by (simp add: locked_heap_def)
    ultimately show ?thesis using blocks_finish [of T tab pins d u "kcpu s" va] al fresh(5) by (auto simp: eq got_def)
  next
    case (wait k)
    then show ?thesis by (simp add: eq)
  qed
qed

text \<open>A request for 1 to 2048 bytes, made while at least one frame is free, returns a fresh block
  of at least that size inside a mapped page and keeps the heap consistent, with the heap lock
  free again; the only other outcome is to wait forever with the lock held, and that happens
  only when the block range has no free page left.\<close>

theorem kmalloc_block_spec:
  assumes "blocks_ok T tab pins s" and "heap_calm s" and "0 < sz" and "sz \<le> 2048" and "free_frame_list s \<noteq> []"
  shows "(\<exists>b t. kmalloc sz s = Inr (b, t) \<and> blocks_ok T tab pins t \<and> heap_calm t \<and> b \<noteq> 0 \<and> b \<notin> live (kh_da s)
      \<and> live (kh_da t) = insert b (live (kh_da s)) \<and> sz \<le> get_block_size (kh_da t) b)
    \<or> (kmalloc sz s = Inl Spin \<and> freePagesList (kh_da s) = [])"
  by (rule kmalloc_block_ok [OF assms])

text \<open>Freeing a block that is live makes exactly that block free, keeps the heap consistent (a
  page whose last block is freed is unmapped) and leaves the heap lock free.\<close>

theorem kfree_block_spec:
  assumes "blocks_ok T tab pins s" and "heap_calm s" and "b \<in> live (kh_da s)"
  shows "\<exists>t. kfree b s = Inr t \<and> blocks_ok T tab pins t \<and> heap_calm t \<and> live (kh_da t) = live (kh_da s) - {b}"
proof -
  let ?s = "s\<lparr>kcpu := pushcli (kcpu s), heap_lock := held_lock (kcpu s)\<rparr>"
  have lk: "locked_heap (kcpu s) ?s" by (rule locked_after_acquire [OF assms(2)])
  have con: "da_consistent (block_env T tab pins) (is_backed tab) heap_page (kh_da s, ?s)"
    by (rule da_consistent_lock) (use assms(1) heap_calmD [OF assms(2)] in \<open>auto simp: blocks_ok_def pushcli_ok\<close>)
  have wf: "da_wf (kh_da s)" and lay: "layout_ok (kh_da s)" and be: "block_env T tab pins ?s"
    using con by (auto simp: da_consistent_def da_wf_def da_inv_def)
  from assms(3) wf obtain k where k: "k \<le> 8" "is_block (kh_da s) k b" "b \<notin> set (freeBlockLists (kh_da s) k)"
    and pg: "off (kh_da s) b div 4096 < npages (kh_da s)"
    and nf: "nfree (kh_da s) (off (kh_da s) b div 4096) < 512 div 2 ^ k" by (rule liveE)
  let ?p = "dynAllocStart (kh_da s) + word_of_nat (off (kh_da s) b div 4096) * 4096"
  have p: "?p = page_at (kh_da s) (off (kh_da s) b div 4096)" by (simp add: page_at_def mult.commute)
  have hp: "heap_page ?p" using con pg unfolding p by (simp add: da_consistent_def)
  have ok: "kh_ok T tab pins ?s" using be by (simp add: block_env_def)
  note one = kh_unmap_one [OF ok hp]
  note fe = free_block_eq [OF wf k(1,2) nf, of return_page ?s]
  obtain d u where f: "free_block return_page b (kh_da s, ?s) = Inr (d, u)" and fc: "frame_change ?s u"
  proof (cases "nfree (kh_da s) (off (kh_da s) b div 4096) + 1 = 512 div 2 ^ k")
    case True
    show thesis by (rule that) (unfold fe if_P [OF True] one(1) bindE.simps, rule refl, rule one(3))
  next
    case False
    show thesis by (rule that) (unfold fe if_not_P [OF False], rule refl, rule frame_change_refl)
  qed
  have con': "da_consistent (block_env T tab pins) (is_backed tab) heap_page (d, u)"
    by (rule kernel_pages.free_block_consistent [OF con assms(3) f])
  have lku: "locked_heap (kcpu s) u" using lk frame_change_fields(1,2) [OF fc] by (simp add: locked_heap_def)
  have o: "off (kh_da s) b < 4096 * npages (kh_da s)" using k(2) by (simp add: is_block_def)
  have rng: "dynAllocStart (kh_da s) \<le> b" "b < dynAllocEnd (kh_da s)"
    using unat_block [OF lay o] layout_end [OF lay] o by (auto simp: word_le_nat_alt word_less_nat_alt)
  have "kfree b s = heap_release (u\<lparr>kh_da := d\<rparr>)"
    using f rng by (simp add: kfree_def heap_acquire_calm [OF assms(2)])
  moreover obtain t where "finish 0 (u\<lparr>kh_da := d\<rparr>) = Inr (0, t)" "blocks_ok T tab pins t" "heap_calm t" "kh_da t = d"
    using blocks_finish [OF con' lku, of 0] by blast
  moreover from this(1) have "heap_release (u\<lparr>kh_da := d\<rparr>) = Inr t" by (auto simp: finish_def)
  ultimately show ?thesis using free_block_ok(2) [OF wf assms(3) f] by auto
qed
section \<open>Translating addresses\<close>

lemma unat_drop_bit_22: "unat (drop_bit 22 (x :: u32)) = unat x div 4096 div 1024"
  by (simp add: unat_drop_bit_eq drop_bit_eq_div unat_div_distrib flip: div_mult2_eq)

text \<open>The two translations are inverse on mapped heap pages: the physical address of a heap
  address is the frame of its page plus the offset, and translating it back gives the heap
  address; neither call changes the state.\<close>

theorem kheap_translation_round_trip:
  assumes "kh_ok T tab pins s" and "heap_calm s" and "KERNEL_HEAP_START \<le> va" and "va < KERNEL_HEAP_MAX"
    and "present (pte tab s (ROUNDDOWN va PAGE_SIZE))" and "unat (number_of_frames s) < 1048576"
  shows "\<exists>pa. kheap_physical_address va s = Inr (pa, s) \<and> kheap_virtual_address pa s = Inr (va, s)
    \<and> unat pa = 4096 * frame_of (pte tab s (ROUNDDOWN va PAGE_SIZE)) + unat va mod 4096"
proof -
  let ?v = "ROUNDDOWN va PAGE_SIZE" and ?s = "s\<lparr>kcpu := pushcli (kcpu s), heap_lock := held_lock (kcpu s)\<rparr>"
  let ?e = "pte tab s ?v"
  have uv: "unat ?v = unat va div 4096 * 4096" by (simp add: unat_ROUNDDOWN')
  have hp: "heap_page ?v"
    using assms(3,4) by (simp add: heap_page_def word_le_nat_alt word_less_nat_alt uv) arith
  have drop: "drop_bit 12 ?v = drop_bit 12 va" by (simp add: word_unat_eq_iff unat_drop_bit_12 uv)
  have drop22: "drop_bit 22 ?v = drop_bit 22 va"
    by (simp add: word_unat_eq_iff unat_drop_bit_22 uv)
  have ix: "PTX ?v = PTX va" "PDX ?v = PDX va" by (simp_all add: PTX_def PDX_def drop drop22)
  have ok: "kh_ok T tab pins ?s" by (rule kh_ok_lock [OF assms(1)]) (use heap_calmD [OF assms(2)] pushcli_ok in auto)
  have k: "CHECK_IF_KERNEL_ADDRESS va" using assms(3) unat_u32_lt [of va] by (simp add: CHECK_IF_KERNEL_ADDRESS_def word_le_nat_alt)
  have "table_ok ?s (ptr_page_directory s) va (tab ?v)"
    using kh_okD(5) [OF ok hp] k heap_page_kernel [OF hp] by (simp add: table_ok_def ix)
  then have gpt: "get_page_table (ptr_page_directory s) va ?s = Inr (0, tab ?v, ?s)" and t0: "tab ?v \<noteq> 0"
    by (auto simp: get_page_table_ok table_ok_def)
  have off: "unat (va AND 0xFFF) = unat va mod 4096"
  proof -
    have "va AND 0xFFF = take_bit 12 va" by (rule bit_word_eqI) (auto simp: u32_bits bit_take_bit_iff)
    then show ?thesis by (simp add: take_bit_eq_mod unat_mod_distrib)
  qed
  define pa where pa: "pa = (?e AND NOT 0xFFF) + (va AND 0xFFF)"
  have x: "unat (?e AND NOT 0xFFF) = 4096 * frame_of ?e"
    using unat_EXTRACT_ADDRESS [of ?e] by (simp add: EXTRACT_ADDRESS_def)
  have fl: "frame_of ?e < unat (number_of_frames s)" using kh_entry [OF assms(1) hp] assms(5) by (simp add: entry_ok_def)
  have upa: "unat pa = 4096 * frame_of ?e + unat va mod 4096"
    unfolding pa using x off frame_of_less [of ?e] by (subst unat_u32_plus) auto
  have "?e AND 1 \<noteq> 0" using assms(5) by (simp add: present_def)
  moreover have "mem ?s (tab ?v) (unat (PTX va)) = ?e" by (simp add: pte_def ix)
  ultimately have phys: "kheap_physical_address va s = Inr (pa, s)"
    using assms(3) [folded not_less] assms(4) [folded not_le] gpt t0 restore_heap [OF assms(2) refl]
    by (simp add: kheap_physical_address_def heap_acquire_calm [OF assms(2)] load_def pa)
  have ppn: "unat (PPN pa) = frame_of ?e" by (simp add: PPN_def unat_drop_bit_12 upa)
  then have lt: "PPN pa < number_of_frames s" using fl by (simp add: word_less_nat_alt)
  have nb: "\<not> number_of_frames s * 4096 \<le> pa"
  proof -
    have "unat (number_of_frames s * 4096) = unat (number_of_frames s) * 4096" using assms(6) by (subst unat_u32_mult) simp_all
    then show ?thesis using fl by (simp add: word_le_nat_alt upa)
  qed
  have fv: "fi_va (frames_info s (unat (PPN pa))) = ?v" using kh_okD(7) [OF assms(1) hp assms(5)] ppn by simp
  have lo: "pa AND 0xFFF = va AND 0xFFF"
  proof -
    have a: "x AND 0xFFF = take_bit 12 x" for x :: u32 by (rule bit_word_eqI) (auto simp: u32_bits bit_take_bit_iff)
    have "unat (take_bit 12 pa) = unat (take_bit 12 va)"
      by (simp add: take_bit_eq_mod unat_mod_distrib upa)
    then show ?thesis by (simp add: a word_unat_eq_iff)
  qed
  have "?v + (va AND 0xFFF) = va"
    using off uv by (simp add: word_unat_eq_iff) (subst unat_u32_plus, use unat_u32_lt [of va] in auto)
  then have "heap_va_of s pa = va"
    using hp nb fv lo by (auto simp: heap_va_of_def Let_def heap_page_def word_le_nat_alt word_less_nat_alt)
  then show ?thesis using phys upa kheap_virtual_address_calm [OF assms(2) lt] by auto
qed

section \<open>Undoing an allocation\<close>

text \<open>A tight break is determined by the mapped pages.\<close>

lemma tight_break_le:
  assumes "heap_ok T tab pins s" and "heap_ok T tab pins t" and "break_tight tab s"
    and "\<And>wa. heap_page wa \<Longrightarrow> present (pte tab s wa) \<Longrightarrow> present (pte tab t wa)"
    and "kheapPageAllocStart t = kheapPageAllocStart s"
  shows "kheapPageAllocBreak s \<le> kheapPageAllocBreak t"
proof (cases "kheapPageAllocBreak s = kheapPageAllocStart s")
  case True
  then show ?thesis using assms(2,5) by (simp add: heap_ok_def)
next
  case False
  let ?b = "kheapPageAllocBreak s"
  obtain k where k: "unat ?b = unat (kheapPageAllocStart s) + 4096 * k" using break_pages [OF assms(1)] by blast
  have "k \<noteq> 0" using False k by (auto simp: word_unat_eq_iff)
  have u: "unat (?b - 4096) = unat ?b - 4096" using k \<open>k \<noteq> 0\<close> by (subst unat_u32_minus) (auto simp: word_le_nat_alt)
  have "heap_page (?b - 4096)"
    using assms(1) k \<open>k \<noteq> 0\<close> u by (auto simp: heap_page_def heap_ok_def word_le_nat_alt word_less_nat_alt dvd_diff_nat)
  moreover have "present (pte tab s (?b - 4096))" using assms(3) False by (simp add: break_tight_def)
  ultimately have "present (pte tab t (?b - 4096))" by (rule assms(4))
  then have "?b - 4096 < kheapPageAllocBreak t"
    using assms(2) \<open>heap_page (?b - 4096)\<close> by (auto simp: heap_ok_def not_le [symmetric])
  moreover obtain j where "unat (kheapPageAllocBreak t) = unat (kheapPageAllocStart s) + 4096 * j"
    using break_pages [OF assms(2)] assms(5) by auto
  ultimately show ?thesis using u k by (simp add: word_le_nat_alt word_less_nat_alt)
qed

lemma tight_break_unique:
  assumes "heap_ok T tab pins s" and "heap_ok T tab pins t"
    and "\<And>wa. heap_page wa \<Longrightarrow> present (pte tab s wa) = present (pte tab t wa)"
    and "break_tight tab s" and "break_tight tab t" and "kheapPageAllocStart t = kheapPageAllocStart s"
  shows "kheapPageAllocBreak s = kheapPageAllocBreak t"
  using tight_break_le [of T tab pins s t] tight_break_le [of T tab pins t s] assms by (intro antisym) auto

text \<open>Freeing what a page request has just returned restores the heap: exactly the same pages
  are mapped as before, with the same entries, and the break is back where it was if it was
  tight before.\<close>

theorem kmalloc_kfree_round_trip:
  assumes "heap_ok T tab pins s" and "heap_calm s" and "2048 < sz" and "unat sz \<le> 0xFFFFF000"
    and "unat (kheapPageAllocBreak s) + 4096 * pages_needed sz < 0xFFFFF000"
    and "pages_needed sz \<le> length (free_frame_list s)" and "dynAllocEnd (kh_da s) \<le> kheapPageAllocStart s"
    and "break_tight tab s"
  shows "\<exists>va t u. kmalloc sz s = Inr (va, t) \<and> kfree va t = Inr u \<and> heap_ok T tab pins u \<and> heap_calm u
    \<and> (\<forall>wa. heap_page wa \<longrightarrow> present (pte tab u wa) = present (pte tab s wa))
    \<and> kheapPageAllocBreak u = kheapPageAllocBreak s"
proof -
  let ?n = "pages_needed sz" and ?st = "kheapPageAllocStart s" and ?b = "kheapPageAllocBreak s"
  from kmalloc_ok [OF assms(1-6)] obtain va t where t: "kmalloc sz s = Inr (va, t)" "heap_ok T tab pins t" "heap_calm t"
    "va = (case fit tab s ?n of Some a \<Rightarrow> a | None \<Rightarrow> ?b)" "pages_taken tab ?n va s t"
    "kheapPageAllocBreak t = (case fit tab s ?n of Some a \<Rightarrow> ?b | None \<Rightarrow> ?b + word_of_nat ?n * 4096)" by blast
  have n0: "0 < ?n" using assms(3) by (simp add: pages_needed_def word_less_nat_alt)
  have hp: "heap_page (nth_page va i)" "\<not> present (pte tab s (nth_page va i))" "present (pte tab t (nth_page va i))"
    if "i < ?n" for i using t(5) that by (simp_all add: pages_taken_def)
  have va: "heap_page va" "present (pte tab t va)" using hp [OF n0] by simp_all
  have rng: "?st \<le> va" "unat va + 4096 * ?n \<le> 0xFFFFF000"
    using t(4) assms(1,5) fit_range [OF assms(1), of ?n]
    by (auto simp: heap_ok_def word_less_nat_alt split: option.splits)
  have sz: "allocatedSize t (unat va div 4096) = word_of_nat ?n * 4096"
    using t(5) n0 by (simp add: pages_taken_def set_sizes_eq)
  have keep: "kheapPageAllocStart t = ?st" "kh_da t = kh_da s" using t(5) by (simp_all add: pages_taken_def)
  have rd: "ROUNDDOWN va 4096 = va" by (rule ROUNDDOWN_page [OF va(1)])
  have vm: "va < KERNEL_HEAP_MAX" using va(1) by (simp add: heap_page_def)
  have nd: "\<not> (dynAllocStart (kh_da t) \<le> va \<and> va < dynAllocEnd (kh_da t))"
    using assms(7) rng(1) keep by (auto simp: not_less)
  obtain u where u: "kfree va t = Inr u" "heap_ok T tab pins u" "heap_calm u" "pages_freed tab ?n va t u" "break_tight tab u"
    using kfree_ok [OF t(2,3) _ vm nd, of ?n] rng va(2) n0 sz unfolding rd keep by blast
  have same: "present (pte tab u wa) = present (pte tab s wa)" if w: "heap_page wa" for wa
  proof (cases "\<exists>i < ?n. wa = nth_page va i")
    case True
    then show ?thesis using u(4) hp(2) by (auto simp: pages_freed_def)
  next
    case False
    then show ?thesis using u(4) t(5) w by (auto simp: pages_freed_def pages_taken_def)
  qed
  have "kheapPageAllocBreak u = ?b"
    by (rule tight_break_unique [OF u(2) assms(1) same u(5) assms(8)]) (use u(4) keep in \<open>simp_all add: pages_freed_def\<close>)
  then show ?thesis using t(1) u(1-3) same by blast
qed

section \<open>A concrete heap\<close>

text \<open>The forty page tables of the heap range, all empty, ten free frames, and a block range of two pages.\<close>

definition ex_tab :: "u32 \<Rightarrow> u32" where
  "ex_tab va = word_of_nat (0xF0200000 + (unat (PDX va) - 984) * 4096)"

definition ex_tables :: "u32 set" where
  "ex_tables = (\<lambda>k. word_of_nat (0xF0200000 + k * 4096)) ` {..<40}"

definition heap_example :: kheap where
  "heap_example = \<lparr>kcpu = \<lparr>cpu_id = 0, ncli = 0, intena = True, int_flag = True\<rparr>, mfllock = unlocked,
     heap_lock = unlocked, number_of_frames = 4096, frames_info = (\<lambda>_. null_frame_info),
     free_frame_list = [1000 ..< 1010], modified_frame_list = [], ptr_page_directory = 0xF0100000,
     mem = (\<lambda>p i. if p = 0xF0100000 then word_of_nat ((512 + (i - 984)) * 4096 + 3) else 0),
     kh_da = da_example, kheapPageAllocStart = 0xF6003000, kheapPageAllocBreak = 0xF6003000,
     kheapPlacementStrategy = 5, allocatedSize = (\<lambda>_. 0)\<rparr>"

lemma unat_PDX: "unat (PDX va) = unat va div 4096 div 1024"
proof -
  have "PDX va = take_bit 10 (drop_bit 22 va)"
    unfolding PDX_def take_bit_eq_mask by (simp add: mask_eq_exp_minus_1)
  then have "unat (PDX va) = (unat va div 4096 div 1024) mod 1024"
    by (simp add: take_bit_eq_mod unat_mod_distrib unat_drop_bit_22)
  moreover have "unat va div 4096 div 1024 < 1024" using unat_u32_lt [of va] by simp
  ultimately show ?thesis by simp
qed

lemma unat_PTX: "unat (PTX va) = unat va div 4096 mod 1024"
proof -
  have "PTX va = take_bit 10 (drop_bit 12 va)"
    unfolding PTX_def take_bit_eq_mask by (simp add: mask_eq_exp_minus_1)
  then show ?thesis by (simp add: take_bit_eq_mod unat_mod_distrib unat_drop_bit_12)
qed

lemma heap_page_PDX: "heap_page va \<Longrightarrow> 984 \<le> unat (PDX va) \<and> unat (PDX va) < 1024"
  unfolding unat_PDX heap_page_def word_le_nat_alt word_less_nat_alt by simp arith

lemma heap_page_eqI:
  assumes "heap_page va" and "heap_page wa" and "PDX va = PDX wa" and "PTX va = PTX wa"
  shows "va = wa"
proof -
  have "unat va div 4096 div 1024 = unat wa div 4096 div 1024" "unat va div 4096 mod 1024 = unat wa div 4096 mod 1024"
    using assms(3,4) unat_PDX unat_PTX by metis+
  then have "unat va div 4096 = unat wa div 4096" by (metis div_mult_mod_eq)
  then show ?thesis using assms(1,2) by (metis dvd_div_mult_self heap_page_def word_unat_eq_iff)
qed

lemma ex_entry:
  assumes "k < 1048576"
  shows "frame_of (word_of_nat (k * 4096 + 3)) = k" and "present (word_of_nat (k * 4096 + 3))"
proof -
  have u: "unat (word_of_nat (k * 4096 + 3) :: u32) = k * 4096 + 3"
    by (rule unat_of_nat_u32) (use assms in simp)
  show "frame_of (word_of_nat (k * 4096 + 3)) = k"
    unfolding frame_of_eq u by (simp del: of_nat_add of_nat_mult)
  have "unat ((word_of_nat (k * 4096 + 3) :: u32) mod 2) = (1 + (k * 2048 + 1) * 2) mod 2"
    unfolding unat_mod_distrib u by (rule arg_cong2 [where f = "(mod)"]) simp_all
  then have "unat ((word_of_nat (k * 4096 + 3) :: u32) mod 2) = 1" unfolding mod_mult_self1 by simp
  then show "present (word_of_nat (k * 4096 + 3))"
    unfolding present_def and_one_eq by (simp only: word_unat_eq_iff unat_1)
qed

lemma ex_tab_inj:
  assumes "heap_page va" and "heap_page wa" and "ex_tab va = ex_tab wa"
  shows "PDX va = PDX wa"
proof -
  have b: "984 \<le> unat (PDX va)" "unat (PDX va) < 1024" "984 \<le> unat (PDX wa)" "unat (PDX wa) < 1024"
    using heap_page_PDX assms(1,2) by blast+
  have "unat (ex_tab v) = 0xF0200000 + (unat (PDX v) - 984) * 4096" if "unat (PDX v) < 1024" for v
    unfolding ex_tab_def by (rule unat_of_nat_u32) (use that in simp)
  then have "unat (PDX va) - 984 = unat (PDX wa) - 984" using assms(3) b by (metis add_left_cancel mult_cancel2 zero_neq_numeral)
  then show ?thesis using b by (simp add: word_unat_eq_iff)
qed

lemma ex_tab_mem: "heap_page va \<Longrightarrow> ex_tab va \<in> ex_tables"
  unfolding ex_tab_def ex_tables_def
  by (rule image_eqI [where x = "unat (PDX va) - 984"]) (use heap_page_PDX [of va] in auto)

lemma ex_tables_mem: "p \<in> ex_tables \<Longrightarrow> 0xF0200000 \<le> unat p \<and> unat p < 0xF0228000"
  by (auto simp: ex_tables_def unat_of_nat_u32 simp del: of_nat_add of_nat_mult)

lemma heap_example_kh_ok: "kh_ok ex_tables ex_tab (\<lambda>_. 0) heap_example"
proof -
  have nT: "(0xF0100000 :: u32) \<notin> ex_tables" "0 \<notin> ex_tables" using ex_tables_mem by fastforce+
  have sl: "slots heap_example ex_tables f = {}" for f
    using nT by (auto simp: slots_def heap_example_def present_def)
  have "mm_inv heap_example ex_tables (\<lambda>_. 0)"
    using nT by (auto simp: mm_inv_def sl) (auto simp: heap_example_def null_frame_info_def entry_ok_def present_def ex_tables_def)
  moreover have "calm heap_example" by (simp add: calm_def heap_example_def cpu_ok_def noted_def)
  moreover have "ex_tab va \<in> ex_tables \<and> table_ok heap_example (ptr_page_directory heap_example) va (ex_tab va)"
    if h: "heap_page va" for va
  proof -
    note d = heap_page_PDX [OF h]
    obtain k where k: "k = 512 + (unat (PDX va) - 984)" by simp
    then have lt: "k < 552" "512 \<le> k" using d by auto
    let ?e = "word_of_nat (k * 4096 + 3) :: u32"
    have e: "frame_of ?e = k" "present ?e" using ex_entry [of k] lt by auto
    have t: "ex_tab va \<in> ex_tables" by (rule ex_tab_mem [OF h])
    have x: "unat (EXTRACT_ADDRESS ?e) = 4096 * k" unfolding unat_EXTRACT_ADDRESS e(1) ..
    then have "unat (EXTRACT_ADDRESS ?e + 0xF0000000) = 4096 * k + 0xF0000000"
      using lt by (subst unat_u32_plus) (simp_all del: of_nat_add of_nat_mult)
    moreover have "unat (ex_tab va) = 0xF0200000 + (unat (PDX va) - 984) * 4096"
      unfolding ex_tab_def by (rule unat_of_nat_u32) (use d in \<open>simp; linarith\<close>)
    ultimately have a: "ex_tab va = EXTRACT_ADDRESS ?e + KERNEL_BASE"
      unfolding word_unat_eq_iff k by simp
    have b: "PPN (EXTRACT_ADDRESS ?e) < 4096"
      using e(1) lt by (simp add: frame_of_def word_less_nat_alt del: of_nat_add of_nat_mult)
    have "mem heap_example (ptr_page_directory heap_example) (unat (PDX va)) = ?e"
      by (simp add: heap_example_def k del: of_nat_add of_nat_mult)
    moreover have "number_of_frames heap_example = 4096" "ptr_page_directory heap_example \<noteq> 0"
      by (simp_all add: heap_example_def)
    ultimately show ?thesis
      using t e(2) heap_page_kernel [OF h] a b nT unfolding table_ok_def Let_def by auto
  qed
  moreover have "\<not> present (pte ex_tab heap_example va)" if "heap_page va" for va
  proof -
    have "ex_tab va \<in> ex_tables" by (rule ex_tab_mem [OF that])
    then show ?thesis using nT by (auto simp: pte_def heap_example_def present_def)
  qed
  moreover have "va = wa" if "heap_page va" "heap_page wa" "ex_tab va = ex_tab wa" "PTX va = PTX wa" for va wa
    using heap_page_eqI [OF that(1,2) ex_tab_inj [OF that(1-3)] that(4)] .
  moreover have "ptr_page_directory heap_example \<notin> ex_tables" using nT(1) by (simp add: heap_example_def)
  ultimately show ?thesis
    unfolding kh_ok_def by blast
qed

lemma heap_example_pte: "heap_page va \<Longrightarrow> pte ex_tab heap_example va = 0"
  using ex_tab_mem [of va] ex_tables_mem [of "ex_tab va"] by (auto simp: pte_def heap_example_def)

lemma heap_example_fields [simp]:
  "kheapPageAllocStart heap_example = 0xF6003000" "kheapPageAllocBreak heap_example = 0xF6003000"
  "kh_da heap_example = da_example" "free_frame_list heap_example = [1000 ..< 1010]" "number_of_frames heap_example = 4096"
  by (simp_all add: heap_example_def)

lemma heap_example_ok: "heap_ok ex_tables ex_tab (\<lambda>_. 0) heap_example"
  using heap_example_kh_ok heap_example_pte by (simp add: heap_ok_def present_def)

lemma heap_example_calm: "heap_calm heap_example"
  by (rule heap_ok_calm [OF heap_example_ok]) (simp add: heap_example_def)

lemma heap_example_fit: "0 < n \<Longrightarrow> fit ex_tab heap_example n = None"
  by (simp add: fit_def page_map_def holes_def custom_fit_def)

lemma heap_example_blocks: "blocks_ok ex_tables ex_tab (\<lambda>_. 0) heap_example"
proof -
  have n: "npages da_example = 2" by (simp add: npages_def da_example_def)
  have hp: "heap_page (page_at da_example i)" if "i < 2" for i
    using that by (auto simp: less_2_cases_iff page_at_def da_example_def heap_page_def)
  have "tables_apart ex_tables heap_example"
    using ex_tables_mem by (fastforce simp: tables_apart_def heap_page_def word_le_nat_alt heap_example_def)
  then show ?thesis
    using n hp heap_example_pte heap_example_kh_ok da_example_wf
    by (auto simp: blocks_ok_def da_consistent_def block_env_def is_backed_def present_def bsz_def da_example_def)
qed

lemma pages_taken_first: "\<lbrakk>pages_taken tab n va s t; 0 < n\<rbrakk> \<Longrightarrow> present (pte tab t va)"
  unfolding pages_taken_def by (drule conjunct1, drule spec [where x = 0]) simp

lemma heap_example_1:
  obtains t where "kmalloc 10000 heap_example = Inr (0xF6003000, t)" and "heap_ok ex_tables ex_tab (\<lambda>_. 0) t"
    and "heap_calm t" and "pages_taken ex_tab 3 0xF6003000 heap_example t"
  using kmalloc_ok [OF heap_example_ok heap_example_calm, of 10000] heap_example_fit [of 3]
  by (auto simp: pages_needed_def)


theorem kmalloc_no_space_witness: "kmalloc 0x10000000 heap_example = Inr (0, heap_example)"
  by (rule kmalloc_no_space [OF heap_example_calm]) (simp_all add: pages_needed_def)


theorem kmalloc_block_spec_witness:
  "\<exists>b t. kmalloc 100 heap_example = Inr (b, t) \<and> blocks_ok ex_tables ex_tab (\<lambda>_. 0) t \<and> heap_calm t \<and> b \<noteq> 0
    \<and> b \<notin> live da_example \<and> live (kh_da t) = insert b (live da_example) \<and> 100 \<le> get_block_size (kh_da t) b"
  using kmalloc_block_spec [OF heap_example_blocks heap_example_calm, of 100] by (simp add: da_example_def)

theorem kfree_block_spec_witness:
  "\<exists>b s t. kmalloc 100 heap_example = Inr (b, s) \<and> kfree b s = Inr t \<and> blocks_ok ex_tables ex_tab (\<lambda>_. 0) t
    \<and> heap_calm t \<and> live (kh_da t) = live (kh_da s) - {b}"
proof -
  obtain b s where s: "kmalloc 100 heap_example = Inr (b, s)" "blocks_ok ex_tables ex_tab (\<lambda>_. 0) s" "heap_calm s"
    "b \<in> live (kh_da s)"
    using kmalloc_block_ok [OF heap_example_blocks heap_example_calm, of 100] by (auto simp: da_example_def)
  show ?thesis using s(1) kfree_block_spec [OF s(2-4)] by blast
qed

theorem kheap_translation_round_trip_witness:
  "\<exists>s pa. kmalloc 10000 heap_example = Inr (0xF6003000, s) \<and> kheap_physical_address 0xF6003123 s = Inr (pa, s)
    \<and> kheap_virtual_address pa s = Inr (0xF6003123, s)"
proof -
  obtain s where s: "kmalloc 10000 heap_example = Inr (0xF6003000, s)" "heap_ok ex_tables ex_tab (\<lambda>_. 0) s"
    "heap_calm s" "pages_taken ex_tab 3 0xF6003000 heap_example s" by (rule heap_example_1)
  have r: "ROUNDDOWN 0xF6003123 4096 = 0xF6003000" by (simp add: ROUNDDOWN_def)
  have p: "present (pte ex_tab s 0xF6003000)" by (rule pages_taken_first [OF s(4)]) simp
  have k: "kh_ok ex_tables ex_tab (\<lambda>_. 0) s" using s(2) by (simp add: heap_ok_def)
  show ?thesis using s(1) kheap_translation_round_trip [OF k s(3), of "0xF6003123"] p s(4)
    by (auto simp: r pages_taken_def)
qed

theorem kmalloc_kfree_round_trip_witness:
  "\<exists>va t u. kmalloc 10000 heap_example = Inr (va, t) \<and> kfree va t = Inr u \<and> heap_ok ex_tables ex_tab (\<lambda>_. 0) u
    \<and> heap_calm u \<and> (\<forall>wa. heap_page wa \<longrightarrow> present (pte ex_tab u wa) = present (pte ex_tab heap_example wa))
    \<and> kheapPageAllocBreak u = 0xF6003000"
  using kmalloc_kfree_round_trip [OF heap_example_ok heap_example_calm, of 10000]
  by (simp add: pages_needed_def break_tight_def da_example_def)

end
