(* ===== verification/FOS_Sched.thy ===== *)
theory FOS_Sched
  imports FOS_Kheap
begin

text \<open>
  Processes and the CPU scheduler: \<^verbatim>\<open>kern/cpu/sched.c\<close>, \<^verbatim>\<open>kern/cpu/sched_helpers.c\<close> and the
  functions of \<^verbatim>\<open>kern/proc/user_environment.c\<close> through which a process gives up the CPU.

  An environment is its index in \<open>envs\<close>; a queue is the list of its members from the first to the
  last element (\<open>FOS_Queue\<close> justifies this reading of the intrusive lists, and its \<open>LIST_FOREACH\<close>
  saves the successor before the body runs, so a loop whose body removes the current element
  visits the elements the list had at the start).  Removing an element from a queue it is not in
  corrupts the links and is a \<open>Fault\<close>.  The arrays \<open>env_ready_queues\<close> and \<open>quantums\<close> are lists of
  the allocated length next to their heap addresses; an access outside them is a \<open>Fault\<close>.

  A context switch splits a C function in two: \<open>sched_enter\<close> is \<open>sched()\<close> up to
  \<open>context_switch\<close>, and the rest runs when the process is dispatched again.
\<close>

section \<open>State\<close>

abbreviation (input) ENV_FREE :: u32 where "ENV_FREE \<equiv> 0"
abbreviation (input) ENV_READY :: u32 where "ENV_READY \<equiv> 1"
abbreviation (input) ENV_RUNNING :: u32 where "ENV_RUNNING \<equiv> 2"
abbreviation (input) ENV_BLOCKED :: u32 where "ENV_BLOCKED \<equiv> 3"
abbreviation (input) ENV_NEW :: u32 where "ENV_NEW \<equiv> 4"
abbreviation (input) ENV_EXIT :: u32 where "ENV_EXIT \<equiv> 5"
abbreviation (input) ENV_UNKNOWN :: u32 where "ENV_UNKNOWN \<equiv> 7"

abbreviation (input) SCH_RR :: u32 where "SCH_RR \<equiv> 0"
abbreviation (input) SCH_MLFQ :: u32 where "SCH_MLFQ \<equiv> 1"
abbreviation (input) SCH_BSD :: u32 where "SCH_BSD \<equiv> 2"
abbreviation (input) SCH_PRIRR :: u32 where "SCH_PRIRR \<equiv> 3"
abbreviation (input) SCH_STOPPED :: int where "SCH_STOPPED \<equiv> 0"
abbreviation (input) SCH_STARTED :: int where "SCH_STARTED \<equiv> 1"
abbreviation (input) INIT_QUANTUM_IN_MS :: u8 where "INIT_QUANTUM_IN_MS \<equiv> 10"
abbreviation (input) PG_REP_LRU_TIME_APPROX :: u32 where "PG_REP_LRU_TIME_APPROX \<equiv> 1"

record WorkingSetElement =
  virtual_address :: u32
  ws_empty :: u8
  time_stamp :: u32
  sweeps_counter :: u32

text \<open>The working-set lists hold the heap addresses of their elements; 0 is \<open>NULL\<close>.  \<open>k_intena\<close> is
  the local variable of \<open>sched()\<close> that lives on the kernel stack of a switched-out process;
  \<open>k_started\<close> tells whether the saved context points into \<open>sched()\<close> or still to \<open>env_start\<close>.\<close>

record Env =
  env_id :: u32
  env_parent_id :: u32
  env_status :: u32
  priority :: int
  samawaiting_ticks :: u32
  env_page_directory :: u32
  initNumStackPages :: u32
  kstack :: u32
  disk_env_pgdir :: u32
  disk_env_pgdir_PA :: u32
  disk_env_tabledir :: u32
  disk_env_tabledir_PA :: u32
  page_WS_max_size :: u32
  page_WS_list :: "u32 list"
  page_last_WS_element :: u32
  referenceStreamList :: "u32 list"
  ActiveWorkingSet :: "u32 list"
  ptr_tws :: "WorkingSetElement list"
  ActiveList :: "u32 list"
  SecondList :: "u32 list"
  pageFaultsCounter :: u32
  tableFaultsCounter :: u32
  nPageIn :: u32
  nPageOut :: u32
  nNewPageAdded :: u32
  nClocks :: u32
  k_intena :: bool
  k_started :: bool

record psched = kheap +
  cpu_proc :: "nat option"
  scheduler_status :: int
  qlock :: kspinlock
  envs :: "nat \<Rightarrow> Env"
  nenv :: nat
  env_new_queue :: "nat list"
  env_exit_queue :: "nat list"
  env_ready_queues :: "nat list list"
  ready_queues_ptr :: u32
  quantums :: "u8 list"
  quantums_ptr :: u32
  num_of_ready_queues :: u8
  scheduler_method :: u32
  starvation_threshold :: u32
  ticks :: "64 word"
  cnt0_quantum :: u8
  wse_at :: "u32 \<Rightarrow> WorkingSetElement"
  PageRepAlgoType :: u32
  EnableBuffering :: u32

text \<open>How a call ends: it returns, it has switched away from the calling process, or it has entered
  \<open>fos_scheduler\<close>, which does not return.\<close>

datatype ending = Returns | Switches | Schedules

definition upd_env :: "nat \<Rightarrow> (Env \<Rightarrow> Env) \<Rightarrow> 'a psched_scheme \<Rightarrow> 'a psched_scheme" where
  "upd_env e f s = s\<lparr>envs := (envs s)(e := f (envs s e))\<rparr>"

definition set_status :: "nat \<Rightarrow> u32 \<Rightarrow> 'a psched_scheme \<Rightarrow> 'a psched_scheme" where
  "set_status e st = upd_env e (\<lambda>v. v\<lparr>env_status := st\<rparr>)"

section \<open>Queues\<close>

definition init_queue :: "nat list" where
  "init_queue = []"

definition queue_size :: "nat list \<Rightarrow> nat" where
  "queue_size q = length q"

definition enqueue :: "nat list \<Rightarrow> nat option \<Rightarrow> nat list" where
  "enqueue q e = (case e of None \<Rightarrow> q | Some x \<Rightarrow> x # q)"

definition dequeue :: "nat list \<Rightarrow> nat option \<times> nat list" where
  "dequeue q = (if q = [] then (None, q) else (Some (last q), butlast q))"

definition queue_take :: "nat list \<Rightarrow> nat \<Rightarrow> nat list res" where
  "queue_take q e = (if e \<in> set q then Inr (remove1 e q) else Inl Fault)"

definition remove_from_queue :: "nat list \<Rightarrow> nat option \<Rightarrow> nat list res" where
  "remove_from_queue q e = (case e of None \<Rightarrow> Inr q | Some x \<Rightarrow> queue_take q x)"

definition find_env_in_queue :: "nat list \<Rightarrow> u32 \<Rightarrow> 'a psched_scheme \<Rightarrow> nat option" where
  "find_env_in_queue q envID s = find (\<lambda>e. env_id (envs s e) = envID) q"

section \<open>The queue lock and the running process\<close>

definition qlock_acquire :: "'a psched_scheme \<Rightarrow> 'a psched_scheme res" where
  "qlock_acquire s = bindE (acquire_kspinlock (kcpu s, qlock s)) (\<lambda>(c, lk). Inr (s\<lparr>kcpu := c, qlock := lk\<rparr>))"

definition qlock_release :: "'a psched_scheme \<Rightarrow> 'a psched_scheme res" where
  "qlock_release s = bindE (release_kspinlock (kcpu s, qlock s)) (\<lambda>(c, lk). Inr (s\<lparr>kcpu := c, qlock := lk\<rparr>))"

definition qlock_holding :: "'a psched_scheme \<Rightarrow> (bool \<times> 'a psched_scheme) res" where
  "qlock_holding s = bindE (holding_kspinlock (kcpu s) (qlock s)) (\<lambda>(r, c). Inr (r, s\<lparr>kcpu := c\<rparr>))"

definition need_qlock :: "'a psched_scheme \<Rightarrow> 'a psched_scheme res" where
  "need_qlock s = bindE (qlock_holding s) (\<lambda>(r, s1). if r then Inr s1
     else Inl (Panic ''sched: q.lock is not held by this CPU while it's expected to be.''))"

definition get_cpu_proc :: "'a psched_scheme \<Rightarrow> (nat option \<times> 'a psched_scheme) res" where
  "get_cpu_proc s = bindE (popcli (pushcli (kcpu s))) (\<lambda>c. Inr (cpu_proc s, s\<lparr>kcpu := c\<rparr>))"

definition set_cpu_proc :: "nat option \<Rightarrow> 'a psched_scheme \<Rightarrow> 'a psched_scheme res" where
  "set_cpu_proc p s = bindE (popcli (pushcli (kcpu s))) (\<lambda>c. Inr (s\<lparr>cpu_proc := p, kcpu := c\<rparr>))"

definition cpu_env :: "'a psched_scheme \<Rightarrow> (nat \<times> 'a psched_scheme) res" where
  \<comment> \<open>\<open>get_cpu_proc\<close> followed by the assertion that there is a process\<close>
  "cpu_env s = bindE (get_cpu_proc s) (\<lambda>(p, s1).
     case p of None \<Rightarrow> Inl (Panic ''assertion failed'') | Some e \<Rightarrow> Inr (e, s1))"

fun pow2_loop :: "nat \<Rightarrow> u32 \<Rightarrow> u32 \<Rightarrow> u32" where
  "pow2_loop 0 x pw = pw"
| "pow2_loop (Suc n) x pw =
     (let x1 = drop_bit 1 x in if x1 = 0 then pw else pow2_loop n x1 (push_bit 1 pw))"

definition nearest_pow2_ceil :: "u32 \<Rightarrow> u32" where
  \<comment> \<open>32 rounds are enough: each halves a 32-bit value\<close>
  "nearest_pow2_ceil x = (if x \<le> 1 then 1 else pow2_loop 32 (x - 1) 2)"

definition ENVX :: "nat \<Rightarrow> u32 \<Rightarrow> nat" where
  "ENVX n envid = unat (envid AND (nearest_pow2_ceil (word_of_nat n) - 1))"

text \<open>The result of \<open>envid2env\<close> is the return code and the environment pointer it stores.\<close>

abbreviation (input) E_BAD_ENV :: u32 where "E_BAD_ENV \<equiv> - 2"

definition envid2env :: "u32 \<Rightarrow> bool \<Rightarrow> 'a psched_scheme \<Rightarrow> (u32 \<times> nat option \<times> 'a psched_scheme) res" where
  "envid2env envid checkperm s =
     (if envid = 0 then bindE (get_cpu_proc s) (\<lambda>(p, s1). Inr (0, p, s1))
      else
        let e = ENVX (nenv s) envid
        in if env_status (envs s e) = ENV_FREE \<or> env_id (envs s e) \<noteq> envid then Inr (E_BAD_ENV, None, s)
           else bindE (get_cpu_proc s) (\<lambda>(p, s1).
             if checkperm \<and> p \<noteq> Some e then
               (case p of
                  None \<Rightarrow> Inl Fault
                | Some c \<Rightarrow> if env_parent_id (envs s1 e) \<noteq> env_id (envs s1 c) then Inr (E_BAD_ENV, None, s1)
                            else Inr (0, Some e, s1))
             else Inr (0, Some e, s1)))"

section \<open>Ready, new and exit queues\<close>

definition ready_put :: "int \<Rightarrow> nat \<Rightarrow> 'a psched_scheme \<Rightarrow> 'a psched_scheme res" where
  "ready_put p e s =
     (let qs = env_ready_queues s; i = nat p in
      if 0 \<le> p \<and> i < length qs then Inr (s\<lparr>env_ready_queues := qs[i := enqueue (qs ! i) (Some e)]\<rparr>) else Inl Fault)"

definition ready_take :: "nat \<Rightarrow> nat \<Rightarrow> 'a psched_scheme \<Rightarrow> 'a psched_scheme res" where
  "ready_take i e s =
     (let qs = env_ready_queues s in
      if i < length qs then bindE (queue_take (qs ! i) e) (\<lambda>q. Inr (s\<lparr>env_ready_queues := qs[i := q]\<rparr>)) else Inl Fault)"

definition sched_insert_ready :: "nat option \<Rightarrow> 'a psched_scheme \<Rightarrow> 'a psched_scheme res" where
  "sched_insert_ready env s = bindE (need_qlock s) (\<lambda>s1.
     case env of
       None \<Rightarrow> Inl (Panic ''assertion failed'')
     | Some e \<Rightarrow> (let s2 = set_status e ENV_READY s1 in ready_put (priority (envs s2 e)) e s2))"

fun remove_ready_loop :: "nat list \<Rightarrow> nat \<Rightarrow> 'a psched_scheme \<Rightarrow> 'a psched_scheme res" where
  "remove_ready_loop [] e s = Inr s"
| "remove_ready_loop (i # is) e s =
     (if i < length (env_ready_queues s) then
        (case find_env_in_queue (env_ready_queues s ! i) (env_id (envs s e)) s of
           Some _ \<Rightarrow> bindE (ready_take i e s) (\<lambda>s1. Inr (set_status e ENV_UNKNOWN s1))
         | None \<Rightarrow> remove_ready_loop is e s)
      else Inl Fault)"

definition sched_remove_ready :: "nat option \<Rightarrow> 'a psched_scheme \<Rightarrow> 'a psched_scheme res" where
  "sched_remove_ready env s = bindE (need_qlock s) (\<lambda>s1.
     case env of
       None \<Rightarrow> Inl (Panic ''assertion failed'')
     | Some e \<Rightarrow> if env_status (envs s1 e) \<noteq> ENV_READY then Inl (Panic ''assertion failed'')
                 else remove_ready_loop [0 ..< unat (num_of_ready_queues s1)] e s1)"

definition sched_insert_new :: "nat option \<Rightarrow> 'a psched_scheme \<Rightarrow> 'a psched_scheme res" where
  "sched_insert_new env s = bindE (need_qlock s) (\<lambda>s1.
     case env of
       None \<Rightarrow> Inl (Panic ''assertion failed'')
     | Some e \<Rightarrow> (let s2 = set_status e ENV_NEW s1
                  in Inr (s2\<lparr>env_new_queue := enqueue (env_new_queue s2) (Some e)\<rparr>)))"

definition sched_remove_new :: "nat option \<Rightarrow> 'a psched_scheme \<Rightarrow> 'a psched_scheme res" where
  "sched_remove_new env s = bindE (need_qlock s) (\<lambda>s1.
     case env of
       None \<Rightarrow> Inl (Panic ''assertion failed'')
     | Some e \<Rightarrow> if env_status (envs s1 e) \<noteq> ENV_NEW then Inl (Panic ''assertion failed'')
                 else bindE (queue_take (env_new_queue s1) e) (\<lambda>q.
                      Inr (set_status e ENV_UNKNOWN (s1\<lparr>env_new_queue := q\<rparr>))))"

text \<open>\<open>cleanup_buffers\<close> of \<^verbatim>\<open>user_environment.c\<close>: the modified frames of an exiting process are freed.\<close>

fun cleanup_loop :: "nat list \<Rightarrow> nat \<Rightarrow> 'a kmem_scheme \<Rightarrow> 'a kmem_scheme res" where
  "cleanup_loop [] e s = Inr s"
| "cleanup_loop (f # fs) e s =
     (if fi_proc (frames_info s f) = Some e
      then bindE (free_frame (Some f) (s\<lparr>modified_frame_list := remove1 f (modified_frame_list s)\<rparr>)) (cleanup_loop fs e)
      else cleanup_loop fs e s)"

definition cleanup_buffers :: "nat \<Rightarrow> 'a kmem_scheme \<Rightarrow> 'a kmem_scheme res" where
  "cleanup_buffers e s = bindE (mfl_enter s) (\<lambda>(held, s1).
     bindE (cleanup_loop (modified_frame_list s1) e s1) (mfl_leave held))"

text \<open>The getter returns the 32-bit setting as an 8-bit value.\<close>

definition isBufferingEnabled :: "'a psched_scheme \<Rightarrow> u8" where
  "isBufferingEnabled s = ucast (EnableBuffering s)"

lemma isBufferingEnabled_off [simp]: "EnableBuffering s = 0 \<Longrightarrow> isBufferingEnabled s = 0"
  by (simp add: isBufferingEnabled_def)

definition sched_insert_exit :: "nat option \<Rightarrow> 'a psched_scheme \<Rightarrow> 'a psched_scheme res" where
  "sched_insert_exit env s = bindE (need_qlock s) (\<lambda>s1.
     case env of
       None \<Rightarrow> Inl (Panic ''assertion failed'')
     | Some e \<Rightarrow> bindE (if isBufferingEnabled s1 \<noteq> 0 then cleanup_buffers e s1 else Inr s1) (\<lambda>s2.
         let s3 = set_status e ENV_EXIT s2
         in Inr (s3\<lparr>env_exit_queue := enqueue (env_exit_queue s3) (Some e)\<rparr>)))"

definition sched_remove_exit :: "nat option \<Rightarrow> 'a psched_scheme \<Rightarrow> 'a psched_scheme res" where
  "sched_remove_exit env s = bindE (need_qlock s) (\<lambda>s1.
     case env of
       None \<Rightarrow> Inl (Panic ''assertion failed'')
     | Some e \<Rightarrow> if env_status (envs s1 e) \<noteq> ENV_EXIT then Inl (Panic ''assertion failed'')
                 else bindE (queue_take (env_exit_queue s1) e) (\<lambda>q.
                      Inr (set_status e ENV_UNKNOWN (s1\<lparr>env_exit_queue := q\<rparr>))))"

section \<open>Giving up the CPU\<close>

definition sched_enter :: "'a psched_scheme \<Rightarrow> 'a psched_scheme res" where
  "sched_enter s = bindE (cpu_env s) (\<lambda>(p, s1). bindE (need_qlock s1) (\<lambda>s2.
     if ncli (kcpu s2) \<noteq> 1 then Inl (Panic ''sched locks'')
     else if env_status (envs s2 p) = ENV_RUNNING then Inl (Panic ''sched a running process'')
     else if int_flag (kcpu s2) then Inl (Panic ''sched is interruptible!'')
     else Inr (upd_env p (\<lambda>v. v\<lparr>k_intena := intena (kcpu s2), k_started := True\<rparr>) s2)))"

text \<open>What \<open>sched()\<close> does when the process runs again.\<close>

definition sched_resume :: "nat \<Rightarrow> 'a psched_scheme \<Rightarrow> 'a psched_scheme" where
  "sched_resume p s = s\<lparr>kcpu := (kcpu s)\<lparr>intena := k_intena (envs s p)\<rparr>\<rparr>"

definition yield_enter :: "'a psched_scheme \<Rightarrow> 'a psched_scheme res" where
  "yield_enter s = bindE (qlock_acquire s) (\<lambda>s1. bindE (cpu_env s1) (\<lambda>(p, s2).
     sched_enter (set_status p ENV_READY s2)))"

definition yield_resume :: "nat \<Rightarrow> 'a psched_scheme \<Rightarrow> 'a psched_scheme res" where
  "yield_resume p s = qlock_release (sched_resume p s)"

definition env_start :: "'a psched_scheme \<Rightarrow> 'a psched_scheme res" where
  "env_start s = qlock_release s"

section \<open>Moving processes between queues\<close>

definition sched_new_env :: "nat option \<Rightarrow> 'a psched_scheme \<Rightarrow> 'a psched_scheme res" where
  "sched_new_env e s = bindE (qlock_acquire s) (\<lambda>s1.
     if e = None then Inl (Panic ''assertion failed'')
     else bindE (sched_insert_new e s1) qlock_release)"

definition sched_run_env :: "u32 \<Rightarrow> 'a psched_scheme \<Rightarrow> (ending \<times> 'a psched_scheme) res" where
  "sched_run_env envId s = bindE (qlock_acquire s) (\<lambda>s1.
     case find_env_in_queue (env_new_queue s1) envId s1 of
       None \<Rightarrow> bindE (qlock_release s1) (\<lambda>s2. Inr (Returns, s2))
     | Some e \<Rightarrow>
         bindE (sched_remove_new (Some e) s1) (\<lambda>s2.
         bindE (sched_insert_ready (Some e) s2) (\<lambda>s3.
         bindE (qlock_release s3) (\<lambda>s4.
           Inr (if scheduler_status s3 = SCH_STOPPED then Schedules else Returns, s4)))))"

fun exit_new_loop :: "nat list \<Rightarrow> u32 \<Rightarrow> bool \<Rightarrow> 'a psched_scheme \<Rightarrow> (bool \<times> 'a psched_scheme) res" where
  "exit_new_loop [] envId found s = Inr (found, s)"
| "exit_new_loop (e # es) envId found s =
     (if env_id (envs s e) = envId
      then bindE (sched_remove_new (Some e) s) (\<lambda>s1. exit_new_loop es envId True s1)
      else exit_new_loop es envId found s)"

fun take_ready_loop :: "nat list \<Rightarrow> u32 \<Rightarrow> 'a psched_scheme \<Rightarrow> (nat option \<times> 'a psched_scheme) res" where
  "take_ready_loop [] envId s = Inr (None, s)"
| "take_ready_loop (i # is) envId s =
     (if i < length (env_ready_queues s) then
        (case find_env_in_queue (env_ready_queues s ! i) envId s of
           Some e \<Rightarrow> bindE (ready_take i e s) (\<lambda>s1. Inr (Some e, s1))
         | None \<Rightarrow> take_ready_loop is envId s)
      else Inl Fault)"

text \<open>The loop over the new queue has no \<open>break\<close>, so its variable is \<open>NULL\<close> afterwards even when an
  environment was found: the pointer passed on is \<open>None\<close> in that case.\<close>

definition sched_exit_env :: "u32 \<Rightarrow> 'a psched_scheme \<Rightarrow> (ending \<times> 'a psched_scheme) res" where
  "sched_exit_env envId s = bindE (qlock_holding s) (\<lambda>(held, s0).
     bindE (if held then Inr s0 else qlock_acquire s0) (\<lambda>s1.
     bindE (exit_new_loop (env_new_queue s1) envId False s1) (\<lambda>(found1, s2).
     bindE (if found1 then Inr (None, s2)
            else take_ready_loop [0 ..< unat (num_of_ready_queues s2)] envId s2) (\<lambda>(ptr, s3).
     bindE (cpu_env s3) (\<lambda>(cur, s4).
       let found2 = (found1 \<or> ptr \<noteq> None);
           is_cur = (env_id (envs s4 cur) = envId);
           (found, target) = (if \<not> found2 \<and> is_cur then (True, Some cur) else (found2, ptr))
       in bindE (if found then sched_insert_exit target s4 else Inr s4) (\<lambda>s5.
          if found \<and> env_id (envs s5 cur) = envId then bindE (sched_enter s5) (\<lambda>s6. Inr (Switches, s6))
          else bindE (if held then Inr s5 else qlock_release s5) (\<lambda>s6. Inr (Returns, s6))))))))"

definition env_exit :: "'a psched_scheme \<Rightarrow> (ending \<times> 'a psched_scheme) res" where
  "env_exit s = bindE (cpu_env s) (\<lambda>(p, s1). sched_exit_env (env_id (envs s1 p)) s1)"

fun run_all_loop :: "nat \<Rightarrow> 'a psched_scheme \<Rightarrow> 'a psched_scheme res" where
  "run_all_loop 0 s = Inr s"
| "run_all_loop (Suc n) s =
     (let (e, q) = dequeue (env_new_queue s)
      in bindE (sched_insert_ready e (s\<lparr>env_new_queue := q\<rparr>)) (run_all_loop n))"

definition sched_run_all :: "'a psched_scheme \<Rightarrow> (ending \<times> 'a psched_scheme) res" where
  "sched_run_all s = bindE (qlock_acquire s) (\<lambda>s1.
     bindE (run_all_loop (queue_size (env_new_queue s1)) s1) (\<lambda>s2.
     bindE (qlock_release s2) (\<lambda>s3.
       if scheduler_status s3 = SCH_STOPPED then Inr (Schedules, s3)
       else Inl (Panic ''scheduler status is NOT STOPPED while it's expected to be!!''))))"

fun exit_queue_loop :: "nat \<Rightarrow> nat list \<Rightarrow> 'a psched_scheme \<Rightarrow> 'a psched_scheme res" where
  "exit_queue_loop i [] s = Inr s"
| "exit_queue_loop i (e # es) s =
     bindE (ready_take i e s) (\<lambda>s1. bindE (sched_insert_exit (Some e) s1) (exit_queue_loop i es))"

fun exit_ready_loop :: "nat list \<Rightarrow> 'a psched_scheme \<Rightarrow> 'a psched_scheme res" where
  "exit_ready_loop [] s = Inr s"
| "exit_ready_loop (i # is) s =
     (if i < length (env_ready_queues s)
      then bindE (exit_queue_loop i (env_ready_queues s ! i) s) (exit_ready_loop is) else Inl Fault)"

definition sched_exit_all_ready_envs :: "'a psched_scheme \<Rightarrow> 'a psched_scheme res" where
  "sched_exit_all_ready_envs s = bindE (qlock_acquire s) (\<lambda>s1.
     bindE (exit_ready_loop [0 ..< unat (num_of_ready_queues s1)] s1) qlock_release)"

text \<open>Without an environment of that number the code releases a lock it has not acquired.\<close>

definition env_set_priority :: "u32 \<Rightarrow> int \<Rightarrow> 'a psched_scheme \<Rightarrow> 'a psched_scheme res" where
  "env_set_priority envID prio s = bindE (envid2env envID False s) (\<lambda>(r, ptr, s1).
     case ptr of
       None \<Rightarrow> qlock_release s1
     | Some e \<Rightarrow>
        if env_status (envs s1 e) = ENV_READY then
          bindE (qlock_acquire s1) (\<lambda>s2.
          bindE (sched_remove_ready (Some e) s2) (\<lambda>s3.
          bindE (sched_insert_ready (Some e) (upd_env e (\<lambda>v. v\<lparr>priority := prio, samawaiting_ticks := 0\<rparr>) s3)) qlock_release))
        else Inr (upd_env e (\<lambda>v. v\<lparr>priority := prio\<rparr>) s1))"

definition sched_set_starv_thresh :: "u32 \<Rightarrow> 'a psched_scheme \<Rightarrow> 'a psched_scheme" where
  "sched_set_starv_thresh t s = s\<lparr>starvation_threshold := t\<rparr>"


section \<open>The clock\<close>

text \<open>\<open>QUANTUM_LIMIT\<close> is \<open>1000 * 2 ^ 16 / TIMER_FREQ\<close> = 54; a quantum of 0 divides by zero.\<close>

definition kclock_set_quantum :: "u8 \<Rightarrow> 'a psched_scheme \<Rightarrow> 'a psched_scheme res" where
  "kclock_set_quantum q s =
     (if 54 \<le> q then Inl (Panic ''attempt to set the CPU quantum by too large value.'')
      else if q = 0 then Inl Fault else Inr (s\<lparr>cnt0_quantum := q\<rparr>))"

section \<open>Schedulers\<close>

definition sched_delete_ready_queues :: "'a psched_scheme \<Rightarrow> 'a psched_scheme res" where
  "sched_delete_ready_queues s = bindE (qlock_acquire s) (\<lambda>s1.
     bindE (if ready_queues_ptr s1 \<noteq> 0 then kfree (ready_queues_ptr s1) s1 else Inr s1) (\<lambda>s2.
     bindE (if quantums_ptr s2 \<noteq> 0 then kfree (quantums_ptr s2) s2 else Inr s2) qlock_release))"

text \<open>A queue head takes 16 bytes.\<close>

definition sched_init_RR :: "u8 \<Rightarrow> 'a psched_scheme \<Rightarrow> 'a psched_scheme res" where
  "sched_init_RR quantum s =
     bindE (sched_delete_ready_queues (s\<lparr>num_of_ready_queues := 1\<rparr>)) (\<lambda>s1.
     bindE (kmalloc 16 s1) (\<lambda>(qp, s2).
     bindE (kmalloc 1 s2) (\<lambda>(pp, s3).
     if pp = 0 then Inl Fault
     else bindE (kclock_set_quantum quantum (s3\<lparr>ready_queues_ptr := qp, quantums_ptr := pp, quantums := [quantum]\<rparr>)) (\<lambda>s4.
       Inr (s4\<lparr>env_ready_queues := (if qp = 0 then [] else [init_queue]),
               scheduler_status := SCH_STOPPED, scheduler_method := SCH_RR\<rparr>)))))"

definition sched_init :: "'a psched_scheme \<Rightarrow> 'a psched_scheme res" where
  "sched_init s = bindE (sched_init_RR INIT_QUANTUM_IN_MS s) (\<lambda>s1.
     Inr (s1\<lparr>env_new_queue := init_queue, env_exit_queue := init_queue, scheduler_status := SCH_STOPPED,
             qlock := init_kspinlock (qlock s1)\<rparr>))"

definition sched_init_PRIRR :: "u8 \<Rightarrow> u8 \<Rightarrow> u32 \<Rightarrow> 'a psched_scheme \<Rightarrow> 'a psched_scheme res" where
  "sched_init_PRIRR numOfPriorities quantum starvThresh s =
     (let n = unat numOfPriorities;
          s0 = s\<lparr>num_of_ready_queues := numOfPriorities, starvation_threshold := starvThresh\<rparr>
      in bindE (kmalloc (word_of_nat n * 16) s0) (\<lambda>(qp, s1).
         if qp = 0 then Inl (Panic ''sched_init_PRIRR: env_ready_queues allocation failed'')
         else bindE (kmalloc (word_of_nat n) s1) (\<lambda>(pp, s2).
           if pp = 0 then Inl (Panic ''sched_init_PRIRR: quantums allocation failed'')
           else bindE (kclock_set_quantum quantum (s2\<lparr>env_ready_queues := replicate n init_queue, ready_queues_ptr := qp,
                         quantums := replicate n quantum, quantums_ptr := pp\<rparr>)) (\<lambda>s3.
             Inr (s3\<lparr>scheduler_status := SCH_STOPPED, scheduler_method := SCH_PRIRR\<rparr>)))))"

definition fos_scheduler_RR :: "'a psched_scheme \<Rightarrow> (nat option \<times> 'a psched_scheme) res" where
  "fos_scheduler_RR s = bindE (need_qlock s) (\<lambda>s1. bindE (get_cpu_proc s1) (\<lambda>(cur, s2).
     case env_ready_queues s2 of
       [] \<Rightarrow> Inl Fault
     | q # qs \<Rightarrow>
        (let (next_env, q1) = dequeue (enqueue q cur)
         in case quantums s2 of
              [] \<Rightarrow> Inl Fault
            | t # _ \<Rightarrow> bindE (kclock_set_quantum t (s2\<lparr>env_ready_queues := q1 # qs\<rparr>)) (\<lambda>s3. Inr (next_env, s3)))))"

fun pick_loop :: "nat list \<Rightarrow> 'a psched_scheme \<Rightarrow> (nat option \<times> 'a psched_scheme) res" where
  "pick_loop [] s = Inr (None, s)"
| "pick_loop (i # is) s =
     (if i < length (env_ready_queues s) then
        if env_ready_queues s ! i \<noteq> [] then
          (let (next_env, q) = dequeue (env_ready_queues s ! i)
           in if i < length (quantums s)
              then bindE (kclock_set_quantum (quantums s ! i) (s\<lparr>env_ready_queues := (env_ready_queues s)[i := q]\<rparr>)) (\<lambda>s1.
                   Inr (next_env, s1))
              else Inl Fault)
        else pick_loop is s
      else Inl Fault)"

definition fos_scheduler_PRIRR :: "'a psched_scheme \<Rightarrow> (nat option \<times> 'a psched_scheme) res" where
  "fos_scheduler_PRIRR s = bindE (need_qlock s) (\<lambda>s1. bindE (get_cpu_proc s1) (\<lambda>(cur, s2).
     bindE (case cur of
              None \<Rightarrow> Inr s2
            | Some e \<Rightarrow> bindE (sched_insert_ready (Some e) (set_status e ENV_READY s2)) (\<lambda>s3.
                Inr (upd_env e (\<lambda>v. v\<lparr>samawaiting_ticks := 0\<rparr>) s3))) (\<lambda>s4.
     pick_loop [0 ..< unat (num_of_ready_queues s4)] s4)))"

definition sched_next :: "'a psched_scheme \<Rightarrow> (nat option \<times> 'a psched_scheme) res" where
  "sched_next s =
     (if scheduler_method s = SCH_RR then fos_scheduler_RR s
      else if scheduler_method s = SCH_PRIRR then fos_scheduler_PRIRR s
      else if scheduler_method s = SCH_MLFQ \<or> scheduler_method s = SCH_BSD
        then bindE (need_qlock s) (\<lambda>_. Inl (Panic ''Not implemented yet''))
      else Inl Fault)"

section \<open>The main scheduler\<close>

definition fos_scheduler_start :: "'a psched_scheme \<Rightarrow> 'a psched_scheme res" where
  "fos_scheduler_start s =
     (if int_flag (kcpu s) then Inl (Panic ''fos_scheduler: called while the interrupt is enabled!'')
      else Inr (s\<lparr>cpu_proc := None, scheduler_status := SCH_STARTED\<rparr>))"

text \<open>The head of the outer loop.\<close>

definition fos_scheduler_outer :: "'a psched_scheme \<Rightarrow> 'a psched_scheme res" where
  "fos_scheduler_outer s = qlock_acquire (s\<lparr>kcpu := sti (kcpu s)\<rparr>)"

definition switchuvm :: "nat \<Rightarrow> 'a psched_scheme \<Rightarrow> 'a psched_scheme res" where
  "switchuvm e s =
     (if kstack (envs s e) = 0 then Inl (Panic ''switchuvm: no kstack'')
      else if env_page_directory (envs s e) = 0 then Inl (Panic ''switchuvm: no pgdir'')
      else set_cpu_proc (Some e) s)"

text \<open>One round of the inner loop up to the context switch: the chosen process, if any, is running.\<close>

definition fos_scheduler_pick :: "'a psched_scheme \<Rightarrow> (nat option \<times> 'a psched_scheme) res" where
  "fos_scheduler_pick s = bindE (sched_next s) (\<lambda>(next_env, s1).
     case next_env of
       None \<Rightarrow> Inr (None, s1)
     | Some e \<Rightarrow> bindE (set_cpu_proc (Some e) s1) (\<lambda>s2. bindE (switchuvm e s2) (\<lambda>s3.
         Inr (Some e, set_status e ENV_RUNNING s3))))"

text \<open>The rest of the round, when the process has switched back.\<close>

definition fos_scheduler_back :: "'a psched_scheme \<Rightarrow> 'a psched_scheme res" where
  "fos_scheduler_back s = bindE (qlock_holding s) (\<lambda>(r, s1).
     if \<not> r then Inl (Panic ''fos_scheduler(): qlock is either not held or held by another CPU!'')
     else bindE (get_cpu_proc s1) (\<lambda>(p, s2).
       case p of
         None \<Rightarrow> Inl Fault
       | Some e \<Rightarrow>
          if env_status (envs s2 e) = ENV_RUNNING then Inl (Panic ''assertion failed'')
          else if env_status (envs s2 e) = ENV_READY then Inr s2 else set_cpu_proc None s2))"

text \<open>The end of the outer loop: is any process blocked?\<close>

definition fos_scheduler_idle :: "'a psched_scheme \<Rightarrow> (bool \<times> 'a psched_scheme) res" where
  "fos_scheduler_idle s =
     (let is_any_blocked = list_ex (\<lambda>i. env_status (envs s i) = ENV_BLOCKED) [0 ..< nenv s]
      in bindE (qlock_release s) (\<lambda>s1. Inr (is_any_blocked, s1)))"

section \<open>The clock interrupt\<close>

fun age_queue :: "nat \<Rightarrow> nat list \<Rightarrow> 'a psched_scheme \<Rightarrow> 'a psched_scheme res" where
  "age_queue i [] s = Inr s"
| "age_queue i (e # es) s =
     (if starvation_threshold s < samawaiting_ticks (envs s e) then
        (let new_priority = priority (envs s e) - 1 in
         bindE (ready_take i e s) (\<lambda>s1.
         bindE (ready_put new_priority e (upd_env e (\<lambda>v. v\<lparr>priority := new_priority, samawaiting_ticks := 0\<rparr>) s1))
           (age_queue i es)))
      else age_queue i es (upd_env e (\<lambda>v. v\<lparr>samawaiting_ticks := samawaiting_ticks v + 1\<rparr>) s))"

fun age_loop :: "nat list \<Rightarrow> 'a psched_scheme \<Rightarrow> 'a psched_scheme res" where
  "age_loop [] s = Inr s"
| "age_loop (i # is) s =
     (if i < length (env_ready_queues s) then bindE (age_queue i (env_ready_queues s ! i) s) (age_loop is) else Inl Fault)"

fun stamp_loop :: "u32 \<Rightarrow> u32 list \<Rightarrow> 'a psched_scheme \<Rightarrow> 'a psched_scheme res" where
  "stamp_loop dir [] s = Inr s"
| "stamp_loop dir (w # ws) s =
     (if w = 0 then stamp_loop dir ws s
      else bindE (get_page_table dir (virtual_address (wse_at s w)) s) (\<lambda>(ret, table, s1).
        if ret \<noteq> TABLE_IN_MEMORY \<or> table = 0 then stamp_loop dir ws s1
        else
          let v = wse_at s1 w; va = virtual_address v; st = drop_bit 1 (time_stamp v);
              s2 = s1\<lparr>wse_at := (wse_at s1)(w := v\<lparr>time_stamp := st\<rparr>)\<rparr>
          in bindE (load table (PTX va) s2) (\<lambda>entry.
             if entry AND PERM_USED \<noteq> 0 then
               bindE (store table (PTX va) (entry AND NOT PERM_USED)
                 (s2\<lparr>wse_at := (wse_at s2)(w := v\<lparr>time_stamp := st OR 0x80000000\<rparr>)\<rparr>)) (stamp_loop dir ws)
             else stamp_loop dir ws s2)))"

definition update_WS_time_stamps :: "'a psched_scheme \<Rightarrow> 'a psched_scheme res" where
  "update_WS_time_stamps s = bindE (get_cpu_proc s) (\<lambda>(p, s1).
     case p of None \<Rightarrow> Inr s1
     | Some e \<Rightarrow> stamp_loop (env_page_directory (envs s1 e)) (page_WS_list (envs s1 e)) s1)"

definition clock_interrupt_handler :: "'a psched_scheme \<Rightarrow> (ending \<times> 'a psched_scheme) res" where
  "clock_interrupt_handler s =
     bindE (if scheduler_method s = SCH_PRIRR then age_loop [0 ..< unat (num_of_ready_queues s)] s else Inr s) (\<lambda>s1.
     bindE (get_cpu_proc (s1\<lparr>ticks := ticks s1 + 1\<rparr>)) (\<lambda>(p, s2).
     case p of
       None \<Rightarrow> Inr (Returns, s2)
     | Some e \<Rightarrow>
        bindE (let s3 = upd_env e (\<lambda>v. v\<lparr>nClocks := nClocks v + 1\<rparr>) s2 in
               if PageRepAlgoType s3 = PG_REP_LRU_TIME_APPROX then update_WS_time_stamps s3 else Inr s3) (\<lambda>s4.
        bindE (yield_enter s4) (\<lambda>s5. Inr (Switches, s5)))))"

end
