(* ===== verification/FOS_SchedTurn.thy ===== *)
theory FOS_SchedTurn
  imports FOS_Sched "HOL-Library.Multiset"
begin

text \<open>
  Properties of the scheduler: what a process finds when it gives up the CPU.  A \<^emph>\<open>turn\<close> is
  everything from the call by which the running process gives up the CPU to the point where the
  next process continues: the call up to its context switch, the end of the round of
  \<open>fos_scheduler\<close> that had dispatched it, the next round, and the resumption of the chosen
  process.
\<close>

section \<open>A turn\<close>

definition dispatched :: "nat \<Rightarrow> 'a psched_scheme \<Rightarrow> 'a psched_scheme res" where
  "dispatched e s = (if k_started (envs s e) then yield_resume e s else env_start s)"

datatype mode = InProcess | InIdle bool

definition next_turn :: "'a psched_scheme \<Rightarrow> (mode \<times> 'a psched_scheme) res" where
  "next_turn s = bindE (fos_scheduler_back s) (\<lambda>s1. bindE (fos_scheduler_pick s1) (\<lambda>(r, s2).
     case r of
       Some e \<Rightarrow> bindE (dispatched e s2) (\<lambda>s3. Inr (InProcess, s3))
     | None \<Rightarrow> bindE (fos_scheduler_idle s2) (\<lambda>(b, s3). Inr (InIdle b, s3))))"

definition yield_turn :: "'a psched_scheme \<Rightarrow> (mode \<times> 'a psched_scheme) res" where
  "yield_turn s = bindE (yield_enter s) next_turn"

definition exit_turn :: "'a psched_scheme \<Rightarrow> (mode \<times> 'a psched_scheme) res" where
  "exit_turn s = bindE (env_exit s) (\<lambda>(d, s1). if d = Switches then next_turn s1 else Inr (InProcess, s1))"

section \<open>The queue lock\<close>

definition holdq :: "'a psched_scheme \<Rightarrow> bool" where
  "holdq s \<longleftrightarrow> ncli (kcpu s) = 1 \<and> \<not> int_flag (kcpu s) \<and> qlock s = held_lock (kcpu s)"

definition freeq :: "'a psched_scheme \<Rightarrow> bool" where
  "freeq s \<longleftrightarrow> ncli (kcpu s) = 0 \<and> intena (kcpu s) = int_flag (kcpu s) \<and> qlock s = unlocked"

lemma holdq_updates [simp]:
  "holdq (s\<lparr>envs := a\<rparr>) = holdq s" "holdq (s\<lparr>env_ready_queues := b\<rparr>) = holdq s" "holdq (s\<lparr>cnt0_quantum := c\<rparr>) = holdq s"
  "holdq (s\<lparr>cpu_proc := d\<rparr>) = holdq s" "holdq (s\<lparr>env_new_queue := q\<rparr>) = holdq s" "holdq (s\<lparr>env_exit_queue := q\<rparr>) = holdq s"
  "holdq (upd_env e f s) = holdq s" "holdq (set_status e st s) = holdq s"
  by (simp_all add: holdq_def upd_env_def set_status_def)

lemma holdq_cpu: "holdq s \<Longrightarrow> cpu_ok (kcpu s) \<and> noted (kcpu s) = kcpu s \<and> held_by (kcpu s) (qlock s)"
  by (auto simp: holdq_def cpu_ok_def noted_def held_by_def held_lock_def)

lemma freeq_cpu: "freeq s \<Longrightarrow> cpu_ok (kcpu s) \<and> noted (kcpu s) = kcpu s"
  by (cases "kcpu s") (auto simp: freeq_def cpu_ok_def noted_def)

lemma qlock_holding_held: "holdq s \<Longrightarrow> qlock_holding s = Inr (True, s)"
  using holdq_cpu [of s] by (simp add: qlock_holding_def holding_kspinlock_eq)

lemma qlock_holding_free: "freeq s \<Longrightarrow> qlock_holding s = Inr (False, s)"
  using freeq_cpu [of s] by (simp add: qlock_holding_def holding_kspinlock_eq freeq_def held_by_def unlocked_def)

lemma need_qlock_held: "holdq s \<Longrightarrow> need_qlock s = Inr s"
  by (simp add: need_qlock_def qlock_holding_held)

lemma get_cpu_proc_held: "holdq s \<Longrightarrow> get_cpu_proc s = Inr (cpu_proc s, s)"
  using holdq_cpu [of s] by (simp add: get_cpu_proc_def popcli_pushcli)

lemma get_cpu_proc_free: "freeq s \<Longrightarrow> get_cpu_proc s = Inr (cpu_proc s, s)"
  using freeq_cpu [of s] by (simp add: get_cpu_proc_def popcli_pushcli)

lemma set_cpu_proc_held: "holdq s \<Longrightarrow> set_cpu_proc p s = Inr (s\<lparr>cpu_proc := p\<rparr>)"
  using holdq_cpu [of s] by (simp add: set_cpu_proc_def popcli_pushcli)

lemma cpu_env_held: "\<lbrakk>holdq s; cpu_proc s = Some p\<rbrakk> \<Longrightarrow> cpu_env s = Inr (p, s)"
  by (simp add: cpu_env_def get_cpu_proc_held)

definition locked_q :: "'a psched_scheme \<Rightarrow> 'a psched_scheme" where
  "locked_q s = s\<lparr>kcpu := pushcli (kcpu s), qlock := held_lock (kcpu s)\<rparr>"

definition released_q :: "'a psched_scheme \<Rightarrow> 'a psched_scheme" where
  "released_q s = s\<lparr>kcpu := popped (kcpu s), qlock := unlocked\<rparr>"

lemma locked_q_simps [simp]:
  "envs (locked_q s) = envs s" "cpu_proc (locked_q s) = cpu_proc s" "env_ready_queues (locked_q s) = env_ready_queues s"
  "env_new_queue (locked_q s) = env_new_queue s" "env_exit_queue (locked_q s) = env_exit_queue s"
  "quantums (locked_q s) = quantums s" "num_of_ready_queues (locked_q s) = num_of_ready_queues s"
  "scheduler_method (locked_q s) = scheduler_method s" "EnableBuffering (locked_q s) = EnableBuffering s"
  "scheduler_status (locked_q s) = scheduler_status s" "nenv (locked_q s) = nenv s"
  "starvation_threshold (locked_q s) = starvation_threshold s"
  by (simp_all add: locked_q_def)

lemma released_q_simps [simp]:
  "envs (released_q s) = envs s" "cpu_proc (released_q s) = cpu_proc s" "env_ready_queues (released_q s) = env_ready_queues s"
  "env_new_queue (released_q s) = env_new_queue s" "env_exit_queue (released_q s) = env_exit_queue s"
  "quantums (released_q s) = quantums s" "num_of_ready_queues (released_q s) = num_of_ready_queues s"
  "scheduler_method (released_q s) = scheduler_method s" "EnableBuffering (released_q s) = EnableBuffering s"
  "scheduler_status (released_q s) = scheduler_status s" "nenv (released_q s) = nenv s"
  "starvation_threshold (released_q s) = starvation_threshold s"
  by (simp_all add: released_q_def)

lemma qlock_acquire_free: "freeq s \<Longrightarrow> qlock_acquire s = Inr (locked_q s)"
  using freeq_cpu [of s] by (simp add: qlock_acquire_def freeq_def acquire_unlocked locked_q_def)

lemma holdq_locked: "freeq s \<Longrightarrow> holdq (locked_q s)"
  by (simp add: holdq_def freeq_def locked_q_def held_lock_def)

lemma qlock_release_held: "holdq s \<Longrightarrow> qlock_release s = Inr (released_q s)"
  using holdq_cpu [of s] by (simp add: qlock_release_def holdq_def release_held released_q_def held_lock_def unlocked_def)

lemma freeq_released: "holdq s \<Longrightarrow> freeq (released_q s)"
  by (simp add: holdq_def freeq_def released_q_def popped_def sti_def Let_def)

lemmas qlock_rules = qlock_holding_held qlock_holding_free need_qlock_held get_cpu_proc_held get_cpu_proc_free
  set_cpu_proc_held qlock_acquire_free holdq_locked qlock_release_held freeq_released

section \<open>Well-formed queues\<close>

definition queued :: "'a psched_scheme \<Rightarrow> nat list" where
  "queued s = env_new_queue s @ env_exit_queue s @ concat (env_ready_queues s)"

text \<open>An environment the scheduler may dispatch: it has a kernel stack, a page directory and a priority
  that names a ready queue.\<close>

definition env_fit :: "'a psched_scheme \<Rightarrow> nat \<Rightarrow> bool" where
  "env_fit s e \<longleftrightarrow> kstack (envs s e) \<noteq> 0 \<and> env_page_directory (envs s e) \<noteq> 0
     \<and> 0 \<le> priority (envs s e) \<and> nat (priority (envs s e)) < length (env_ready_queues s)"

definition config_ok :: "'a psched_scheme \<Rightarrow> bool" where
  "config_ok s \<longleftrightarrow> 0 < length (env_ready_queues s) \<and> length (env_ready_queues s) = unat (num_of_ready_queues s)
     \<and> length (quantums s) = unat (num_of_ready_queues s) \<and> (\<forall>q \<in> set (quantums s). 0 < q \<and> q < 54)
     \<and> (scheduler_method s = SCH_PRIRR \<or> scheduler_method s = SCH_RR \<and> num_of_ready_queues s = 1)
     \<and> EnableBuffering s = 0"

definition queues_ok :: "'a psched_scheme \<Rightarrow> bool" where
  "queues_ok s \<longleftrightarrow> distinct (queued s)
     \<and> (\<forall>e \<in> set (env_new_queue s). env_status (envs s e) = ENV_NEW \<and> env_fit s e)
     \<and> (\<forall>e \<in> set (env_exit_queue s). env_status (envs s e) = ENV_EXIT)
     \<and> (\<forall>i < length (env_ready_queues s). \<forall>e \<in> set (env_ready_queues s ! i).
          env_status (envs s e) = ENV_READY \<and> env_fit s e \<and> priority (envs s e) = int i)"

lemma queues_okI:
  assumes "distinct (queued s)"
    and "\<And>e. e \<in> set (env_new_queue s) \<Longrightarrow> env_status (envs s e) = ENV_NEW \<and> env_fit s e"
    and "\<And>e. e \<in> set (env_exit_queue s) \<Longrightarrow> env_status (envs s e) = ENV_EXIT"
    and "\<And>i e. \<lbrakk>i < length (env_ready_queues s); e \<in> set (env_ready_queues s ! i)\<rbrakk> \<Longrightarrow>
      env_status (envs s e) = ENV_READY \<and> env_fit s e \<and> priority (envs s e) = int i"
  shows "queues_ok s"
  using assms by (simp add: queues_ok_def)

lemma queues_okD:
  assumes "queues_ok s"
  shows "distinct (queued s)"
    and "e \<in> set (env_new_queue s) \<Longrightarrow> env_status (envs s e) = ENV_NEW \<and> env_fit s e"
    and "e \<in> set (env_exit_queue s) \<Longrightarrow> env_status (envs s e) = ENV_EXIT"
    and "\<lbrakk>i < length (env_ready_queues s); e \<in> set (env_ready_queues s ! i)\<rbrakk> \<Longrightarrow>
      env_status (envs s e) = ENV_READY \<and> env_fit s e \<and> priority (envs s e) = int i"
  using assms by (simp_all add: queues_ok_def)

section \<open>The choice of the next process\<close>

text \<open>The ready queues once the process on the CPU is back in its queue, and the first queue that is
  not empty.\<close>

definition ready_with :: "nat option \<Rightarrow> 'a psched_scheme \<Rightarrow> nat list list" where
  "ready_with cur s = (case cur of
     None \<Rightarrow> env_ready_queues s
   | Some p \<Rightarrow> (let i = nat (priority (envs s p)) in (env_ready_queues s)[i := p # env_ready_queues s ! i]))"

definition top_queue :: "nat list list \<Rightarrow> nat option" where
  "top_queue qs = find (\<lambda>i. qs ! i \<noteq> []) [0 ..< length qs]"

lemma top_queue_Some:
  "top_queue qs = Some i \<Longrightarrow> i < length qs \<and> qs ! i \<noteq> [] \<and> (\<forall>j < i. qs ! j = [])"
  by (auto simp: top_queue_def find_Some_iff)

lemma top_queue_None: "top_queue qs = None \<longleftrightarrow> (\<forall>q \<in> set qs. q = [])"
  by (auto simp: top_queue_def find_None_iff in_set_conv_nth) (metis nth_mem)

lemma top_queue_singleton: "top_queue [q] = (if q = [] then None else Some 0)"
  by (simp add: top_queue_def)

lemma kclock_set_quantum_ok: "\<lbrakk>0 < q; q < 54\<rbrakk> \<Longrightarrow> kclock_set_quantum q s = Inr (s\<lparr>cnt0_quantum := q\<rparr>)"
  by (auto simp: kclock_set_quantum_def)

lemma pick_loop_eq:
  assumes "\<And>i. i \<in> set is \<Longrightarrow> i < length (env_ready_queues s)" and "length (quantums s) = length (env_ready_queues s)"
    and "\<forall>q \<in> set (quantums s). 0 < q \<and> q < 54"
  shows "pick_loop is s = (case find (\<lambda>i. env_ready_queues s ! i \<noteq> []) is of
      None \<Rightarrow> Inr (None, s)
    | Some i \<Rightarrow> Inr (Some (last (env_ready_queues s ! i)),
        s\<lparr>env_ready_queues := (env_ready_queues s)[i := butlast (env_ready_queues s ! i)], cnt0_quantum := quantums s ! i\<rparr>))"
  using assms
proof (induction "is")
  case (Cons i "is")
  then have "i < length (quantums s)" "0 < quantums s ! i" "quantums s ! i < 54" by auto
  with Cons show ?case by (simp add: dequeue_def kclock_set_quantum_ok)
qed simp

lemma sched_insert_ready_held:
  assumes "holdq s" and "0 \<le> priority (envs s e)" and "nat (priority (envs s e)) < length (env_ready_queues s)"
  shows "sched_insert_ready (Some e) s = Inr ((set_status e ENV_READY s)\<lparr>env_ready_queues := ready_with (Some e) s\<rparr>)"
  using assms by (simp add: sched_insert_ready_def need_qlock_held ready_put_def set_status_def upd_env_def Let_def
      ready_with_def enqueue_def)

text \<open>What either scheduler returns: the process on the CPU goes to the head of its queue, and the tail
  of the first non-empty queue is taken.\<close>

definition pick_envs :: "'a psched_scheme \<Rightarrow> nat \<Rightarrow> Env" where
  "pick_envs s = (case cpu_proc s of
     None \<Rightarrow> envs s
   | Some p \<Rightarrow> if scheduler_method s = SCH_PRIRR
               then (envs s)(p := (envs s p)\<lparr>env_status := ENV_READY, samawaiting_ticks := 0\<rparr>) else envs s)"

lemma sched_next_some:
  assumes "holdq s" and "config_ok s" and "\<And>p. cpu_proc s = Some p \<Longrightarrow> env_fit s p"
    and "top_queue (ready_with (cpu_proc s) s) = Some i" and "R = ready_with (cpu_proc s) s"
  shows "sched_next s = Inr (Some (last (R ! i)),
    s\<lparr>envs := pick_envs s, env_ready_queues := R[i := butlast (R ! i)], cnt0_quantum := quantums s ! i\<rparr>)"
proof (cases "scheduler_method s = SCH_PRIRR")
  case True
  have q: "length (quantums s) = length (env_ready_queues s)" "\<forall>q \<in> set (quantums s). 0 < q \<and> q < 54"
    "unat (num_of_ready_queues s) = length (env_ready_queues s)" using assms(2) by (auto simp: config_ok_def)
  have len: "length (ready_with c s) = length (env_ready_queues s)" for c
    by (simp add: ready_with_def Let_def split: option.split)
  show ?thesis
  proof (cases "cpu_proc s")
    case None
    then show ?thesis
      using True assms q by (simp add: sched_next_def fos_scheduler_PRIRR_def need_qlock_held get_cpu_proc_held
          ready_with_def pick_envs_def top_queue_def) (subst pick_loop_eq, auto)
  next
    case (Some p)
    let ?s = "upd_env p (\<lambda>v. v\<lparr>samawaiting_ticks := 0\<rparr>) ((set_status p ENV_READY s)\<lparr>env_ready_queues := R\<rparr>)"
    have fit: "0 \<le> priority (envs s p)" "nat (priority (envs s p)) < length (env_ready_queues s)"
      using assms(3) [OF Some] by (auto simp: env_fit_def)
    have ins: "sched_insert_ready (Some p) (set_status p ENV_READY s) = Inr ((set_status p ENV_READY s)\<lparr>env_ready_queues := R\<rparr>)"
      using sched_insert_ready_held [of "set_status p ENV_READY s" p] fit assms(1,5) Some
      by (simp add: set_status_def upd_env_def ready_with_def Let_def)
    have pk: "pick_loop [0 ..< length R] ?s = Inr (Some (last (R ! i)),
        ?s\<lparr>env_ready_queues := R[i := butlast (R ! i)], cnt0_quantum := quantums s ! i\<rparr>)"
      using assms(4,5) q len by (subst pick_loop_eq) (auto simp: upd_env_def set_status_def top_queue_def)
    show ?thesis
      using True Some pk ins assms(1,5) q len
      by (simp add: sched_next_def fos_scheduler_PRIRR_def need_qlock_held get_cpu_proc_held set_status_def upd_env_def
          pick_envs_def)
  qed
next
  case False
  then have m: "scheduler_method s = SCH_RR" "num_of_ready_queues s = 1" using assms(2) by (auto simp: config_ok_def)
  then obtain q t where qt: "env_ready_queues s = [q]" "quantums s = [t]" "0 < t" "t < 54"
    using assms(2) by (auto simp: config_ok_def length_Suc_conv)
  have R: "R = [enqueue q (cpu_proc s)]"
    using assms(3,5) qt by (auto simp: ready_with_def enqueue_def env_fit_def Let_def split: option.split)
  then have "i = 0" "enqueue q (cpu_proc s) \<noteq> []" using assms(4,5) by (auto simp: top_queue_singleton split: if_splits)
  then show ?thesis
    using m qt R assms(1) by (simp add: sched_next_def fos_scheduler_RR_def need_qlock_held get_cpu_proc_held
        dequeue_def kclock_set_quantum_ok pick_envs_def split: option.split)
qed

lemma sched_next_none:
  assumes "holdq s" and "config_ok s" and "cpu_proc s = None" and "top_queue (env_ready_queues s) = None"
  shows "\<exists>q. sched_next s = Inr (None, s\<lparr>cnt0_quantum := q\<rparr>)"
proof (cases "scheduler_method s = SCH_PRIRR")
  case True
  have "pick_loop [0 ..< length (env_ready_queues s)] s = Inr (None, s)"
    using assms(2,4) by (subst pick_loop_eq) (auto simp: config_ok_def top_queue_def)
  moreover have "s = s\<lparr>cnt0_quantum := cnt0_quantum s\<rparr>" by simp
  ultimately show ?thesis
    using True assms(1-3) by (intro exI [of _ "cnt0_quantum s"])
      (simp add: sched_next_def fos_scheduler_PRIRR_def need_qlock_held get_cpu_proc_held config_ok_def)
next
  case False
  then have m: "scheduler_method s = SCH_RR" "num_of_ready_queues s = 1" using assms(2) by (auto simp: config_ok_def)
  then obtain q t where qt: "env_ready_queues s = [q]" "quantums s = [t]" "0 < t" "t < 54"
    using assms(2) by (auto simp: config_ok_def length_Suc_conv)
  then have "q = []" using assms(4) by (simp add: top_queue_singleton split: if_splits)
  moreover have "s = s\<lparr>env_ready_queues := [[]]\<rparr>" using qt \<open>q = []\<close> by simp
  ultimately show ?thesis
    using m qt assms(1,3) by (intro exI [of _ t])
      (simp add: sched_next_def fos_scheduler_RR_def need_qlock_held get_cpu_proc_held enqueue_def dequeue_def
        kclock_set_quantum_ok)
qed
section \<open>Dispatching\<close>

lemma mset_concat_update:
  "i < length qs \<Longrightarrow> mset (concat (qs[i := q])) + mset (qs ! i) = mset (concat qs) + mset q"
proof (induction qs arbitrary: i)
  case (Cons x qs)
  then show ?case by (cases i) (auto simp: ac_simps)
qed simp

lemma mset_take_last:
  assumes "i < length R" and "R ! i \<noteq> []"
  shows "add_mset (last (R ! i)) (mset (concat (R[i := butlast (R ! i)]))) = mset (concat R)"
proof -
  have "mset (R ! i) = add_mset (last (R ! i)) (mset (butlast (R ! i)))"
    using assms(2) by (metis add_mset_add_single append_butlast_last_id mset_append mset_single_iff_right)
  then show ?thesis using mset_concat_update [OF assms(1), of "butlast (R ! i)"] by (simp add: ac_simps)
qed

lemma length_ready_with [simp]: "length (ready_with c s) = length (env_ready_queues s)"
  by (simp add: ready_with_def Let_def split: option.split)

lemma config_ok_cong:
  "\<lbrakk>length (env_ready_queues t) = length (env_ready_queues s); quantums t = quantums s;
    num_of_ready_queues t = num_of_ready_queues s; scheduler_method t = scheduler_method s;
    EnableBuffering t = EnableBuffering s\<rbrakk> \<Longrightarrow> config_ok t = config_ok s"
  by (simp add: config_ok_def)

text \<open>A process that may be put back: it is ready and in no queue.\<close>

definition waiting :: "'a psched_scheme \<Rightarrow> nat \<Rightarrow> bool" where
  "waiting s p \<longleftrightarrow> env_status (envs s p) = ENV_READY \<and> env_fit s p \<and> p \<notin> set (queued s)"

lemma mset_ready_with:
  assumes "waiting s p"
  shows "mset (concat (ready_with (Some p) s)) = add_mset p (mset (concat (env_ready_queues s)))"
proof -
  let ?j = "nat (priority (envs s p))"
  have "?j < length (env_ready_queues s)" using assms by (simp add: waiting_def env_fit_def)
  from mset_concat_update [OF this, of "p # env_ready_queues s ! ?j"]
  show ?thesis by (simp add: ready_with_def Let_def)
qed

lemma ready_with_ok:
  assumes "queues_ok s" and "\<And>p. c = Some p \<Longrightarrow> waiting s p"
  shows "distinct (env_new_queue s @ env_exit_queue s @ concat (ready_with c s))"
    and "\<lbrakk>j < length (env_ready_queues s); e \<in> set (ready_with c s ! j)\<rbrakk> \<Longrightarrow>
      env_status (envs s e) = ENV_READY \<and> env_fit s e \<and> priority (envs s e) = int j"
proof -
  show "distinct (env_new_queue s @ env_exit_queue s @ concat (ready_with c s))"
  proof (cases c)
    case None
    then show ?thesis using assms(1) by (simp add: ready_with_def queues_ok_def queued_def)
  next
    case (Some p)
    have "mset (env_new_queue s @ env_exit_queue s @ concat (ready_with c s)) = mset (p # queued s)"
      using mset_ready_with [OF assms(2) [OF Some]] by (simp add: Some queued_def)
    moreover have "distinct (p # queued s)" using assms Some by (auto simp: waiting_def queues_ok_def)
    ultimately show ?thesis using mset_eq_imp_distinct_iff by blast
  qed
  assume j: "j < length (env_ready_queues s)" and e: "e \<in> set (ready_with c s ! j)"
  show "env_status (envs s e) = ENV_READY \<and> env_fit s e \<and> priority (envs s e) = int j"
  proof (cases "e \<in> set (env_ready_queues s ! j)")
    case False
    then obtain p where c: "c = Some p" using e by (cases c) (auto simp: ready_with_def)
    then have "e = p \<and> j = nat (priority (envs s p))"
      using False e j by (cases "j = nat (priority (envs s p))") (auto simp: ready_with_def Let_def)
    then show ?thesis using assms(2) [OF c] by (simp add: waiting_def env_fit_def)
  qed (use assms(1) j in \<open>simp add: queues_ok_def\<close>)
qed

definition same_ids :: "'a psched_scheme \<Rightarrow> 'a psched_scheme \<Rightarrow> bool" where
  "same_ids s t \<longleftrightarrow> (\<forall>e. env_id (envs t e) = env_id (envs s e) \<and> priority (envs t e) = priority (envs s e))
     \<and> env_new_queue t = env_new_queue s \<and> env_exit_queue t = env_exit_queue s
     \<and> scheduler_method t = scheduler_method s \<and> num_of_ready_queues t = num_of_ready_queues s
     \<and> scheduler_status t = scheduler_status s"

lemma pick_envs_simps:
  "priority (pick_envs s e) = priority (envs s e)" "kstack (pick_envs s e) = kstack (envs s e)"
  "env_page_directory (pick_envs s e) = env_page_directory (envs s e)" "env_id (pick_envs s e) = env_id (envs s e)"
  "\<lbrakk>\<And>p. cpu_proc s = Some p \<Longrightarrow> waiting s p\<rbrakk> \<Longrightarrow> env_status (pick_envs s e) = env_status (envs s e)"
  by (auto simp: pick_envs_def waiting_def split: option.splits)

lemma fos_scheduler_pick_ok:
  assumes "holdq s" and "config_ok s" and "queues_ok s" and w: "\<And>p. cpu_proc s = Some p \<Longrightarrow> waiting s p"
    and "R = ready_with (cpu_proc s) s" and top: "top_queue R = Some i" and "e = last (R ! i)"
  shows "\<exists>t. fos_scheduler_pick s = Inr (Some e, t) \<and> holdq t \<and> config_ok t \<and> queues_ok t \<and> cpu_proc t = Some e
    \<and> env_status (envs t e) = ENV_RUNNING \<and> env_fit t e \<and> env_ready_queues t = R[i := butlast (R ! i)] \<and> same_ids s t"
proof -
  let ?s1 = "s\<lparr>envs := pick_envs s, env_ready_queues := R[i := butlast (R ! i)], cnt0_quantum := quantums s ! i\<rparr>"
  let ?t = "set_status e ENV_RUNNING (?s1\<lparr>cpu_proc := Some e\<rparr>)"
  note i = top_queue_Some [OF top]
  have len: "length R = length (env_ready_queues s)" by (simp add: assms(5))
  have split: "R ! i = butlast (R ! i) @ [e]" using i assms(7) by simp
  then have "e \<in> set (R ! i)" by (metis in_set_conv_decomp)
  then have e: "env_status (envs s e) = ENV_READY" "env_fit s e" "priority (envs s e) = int i"
    using ready_with_ok(2) [OF assms(3) w, of "cpu_proc s" i e] i len by (auto simp: assms(5))
  have next_eq: "sched_next s = Inr (Some e, ?s1)"
    using sched_next_some [OF assms(1,2) _ _ assms(5)] w top assms(5,7) by (auto simp: waiting_def)
  have "fos_scheduler_pick s = Inr (Some e, ?t)"
    using e(2) assms(1) by (simp add: fos_scheduler_pick_def next_eq set_cpu_proc_held switchuvm_def env_fit_def pick_envs_simps)
  moreover have "holdq ?t" using assms(1) by simp
  moreover have "config_ok ?t" using assms(2) len
    by (subst config_ok_cong [of _ s]) (simp_all add: set_status_def upd_env_def)
  moreover have fit: "env_fit ?t x = env_fit s x" for x
    by (simp add: env_fit_def set_status_def upd_env_def pick_envs_simps len)
  moreover have "queues_ok ?t"
  proof -
    have "add_mset e (mset (concat (R[i := butlast (R ! i)]))) = mset (concat R)"
      using mset_take_last [of i R] i assms(7) by simp
    then have "mset (env_new_queue s @ env_exit_queue s @ concat R)
        = mset (e # env_new_queue s @ env_exit_queue s @ concat (R[i := butlast (R ! i)]))" by (simp add: ac_simps)
    then have d: "distinct (e # env_new_queue s @ env_exit_queue s @ concat (R[i := butlast (R ! i)]))"
      using ready_with_ok(1) [OF assms(3) w, of "cpu_proc s"] unfolding assms(5) [symmetric] by (metis mset_eq_imp_distinct_iff)
    have st: "env_status (envs ?t x) = env_status (envs s x)" if "x \<noteq> e" for x
      using that w by (simp add: set_status_def upd_env_def pick_envs_simps)
    have pr: "priority (envs ?t x) = priority (envs s x)" for x by (simp add: set_status_def upd_env_def pick_envs_simps)
    have ne: "x \<noteq> e" if "x \<in> set (env_new_queue s) \<or> x \<in> set (env_exit_queue s)" for x using d that by auto
    have rd: "x \<noteq> e \<and> x \<in> set (R ! j)" if "j < length R" "x \<in> set (R[i := butlast (R ! i)] ! j)" for x j
    proof -
      have "x \<in> set (concat (R[i := butlast (R ! i)]))" using that nth_mem [of j "R[i := butlast (R ! i)]"] by auto
      then have "x \<noteq> e" using d by auto
      then show ?thesis using that by (cases "j = i") (auto dest: in_set_butlastD)
    qed
    have f: "env_new_queue ?t = env_new_queue s" "env_exit_queue ?t = env_exit_queue s"
      "env_ready_queues ?t = R[i := butlast (R ! i)]" by (simp_all add: set_status_def upd_env_def)
    show ?thesis
    proof (rule queues_okI)
      show "distinct (queued ?t)" using d by (simp add: queued_def f)
      show "env_status (envs ?t x) = ENV_NEW \<and> env_fit ?t x" if "x \<in> set (env_new_queue ?t)" for x
        using queues_okD(2) [OF assms(3)] ne st that unfolding f fit by auto
      show "env_status (envs ?t x) = ENV_EXIT" if "x \<in> set (env_exit_queue ?t)" for x
        using queues_okD(3) [OF assms(3)] ne st that unfolding f by auto
      show "env_status (envs ?t x) = ENV_READY \<and> env_fit ?t x \<and> priority (envs ?t x) = int j"
        if "j < length (env_ready_queues ?t)" "x \<in> set (env_ready_queues ?t ! j)" for j x
      proof -
        have j: "j < length R" "x \<in> set (R[i := butlast (R ! i)] ! j)" using that unfolding f by auto
        then have "j < length (env_ready_queues s)" "x \<in> set (ready_with (cpu_proc s) s ! j)"
          using rd [OF j] len by (auto simp: assms(5))
        from ready_with_ok(2) [OF assms(3) w this] show ?thesis using st rd [OF j] unfolding fit pr by auto
      qed
    qed
  qed
  moreover have "cpu_proc ?t = Some e" "env_status (envs ?t e) = ENV_RUNNING" "env_ready_queues ?t = R[i := butlast (R ! i)]"
    "same_ids s ?t" by (simp_all add: set_status_def upd_env_def same_ids_def pick_envs_simps)
  ultimately show ?thesis using e(2) by blast
qed
section \<open>Running processes\<close>

definition running :: "'a psched_scheme \<Rightarrow> nat \<Rightarrow> bool" where
  "running s p \<longleftrightarrow> freeq s \<and> config_ok s \<and> queues_ok s \<and> cpu_proc s = Some p
     \<and> env_status (envs s p) = ENV_RUNNING \<and> env_fit s p"

lemma queued_status: "\<lbrakk>queues_ok s; e \<in> set (queued s)\<rbrakk> \<Longrightarrow> env_status (envs s e) \<in> {ENV_NEW, ENV_EXIT, ENV_READY}"
  using queues_okD(2,3) [of s e] queues_okD(4) [of s _ e] by (fastforce simp: queued_def in_set_conv_nth [of _ "env_ready_queues s"])

lemma running_not_queued: "running s p \<Longrightarrow> p \<notin> set (queued s)"
  using queued_status [of s p] by (auto simp: running_def)

text \<open>Changes to an environment that the queues do not depend on.\<close>

lemma queues_ok_cong:
  assumes "queues_ok s" and "env_new_queue t = env_new_queue s" and "env_exit_queue t = env_exit_queue s"
    and "env_ready_queues t = env_ready_queues s"
    and "\<And>e. e \<in> set (queued s) \<Longrightarrow> env_status (envs t e) = env_status (envs s e) \<and> env_fit t e = env_fit s e
      \<and> priority (envs t e) = priority (envs s e)"
  shows "queues_ok t"
proof -
  have "e \<in> set (queued s)" if "i < length (env_ready_queues s)" "e \<in> set (env_ready_queues s ! i)" for e i
    using that nth_mem [of i "env_ready_queues s"] by (auto simp: queued_def)
  then show ?thesis using assms by (simp add: queues_ok_def queued_def)
qed

lemma dispatched_ok:
  assumes "holdq s" and "config_ok s" and "queues_ok s" and "cpu_proc s = Some e"
    and "env_status (envs s e) = ENV_RUNNING" and "env_fit s e"
  shows "\<exists>t. dispatched e s = Inr t \<and> running t e \<and> env_ready_queues t = env_ready_queues s \<and> same_ids s t"
proof -
  have "holdq (sched_resume e s)" using assms(1) by (simp add: sched_resume_def holdq_def held_lock_def)
  then have d: "\<exists>u. holdq u \<and> dispatched e s = Inr (released_q u) \<and> (u = s \<or> u = sched_resume e s)"
    using assms(1) by (auto simp: dispatched_def yield_resume_def env_start_def qlock_release_held)
  then obtain u where u: "holdq u" "dispatched e s = Inr (released_q u)" "u = s \<or> u = sched_resume e s" by blast
  have "config_ok (released_q u)"
    using u(3) assms(2) by (auto simp: config_ok_def sched_resume_def)
  moreover have "env_fit (released_q u) x = env_fit s x" for x using u(3) by (auto simp: env_fit_def sched_resume_def)
  moreover from this have "queues_ok (released_q u)"
    using u(3) by (intro queues_ok_cong [OF assms(3)]) (auto simp: sched_resume_def)
  moreover have "same_ids s (released_q u)" using u(3) by (auto simp: same_ids_def sched_resume_def)
  ultimately show ?thesis
    using u assms(4-6) freeq_released [OF u(1)] by (intro exI [of _ "released_q u"]) (auto simp: running_def sched_resume_def)
qed

lemma same_ids_trans: "\<lbrakk>same_ids s t; same_ids t u\<rbrakk> \<Longrightarrow> same_ids s u"
  by (simp add: same_ids_def)

text \<open>A process that has switched out and is ready again, or has left the CPU for good.\<close>

lemma next_turn_ok:
  assumes "holdq s" and "config_ok s" and "queues_ok s" and "cpu_proc s = Some p"
    and "waiting s p \<or> env_status (envs s p) \<notin> {ENV_READY, ENV_RUNNING}"
    and "R = ready_with (if env_status (envs s p) = ENV_READY then Some p else None) s" and "top_queue R = Some i"
  shows "\<exists>t. next_turn s = Inr (InProcess, t) \<and> running t (last (R ! i)) \<and> env_ready_queues t = R[i := butlast (R ! i)]
    \<and> same_ids s t"
proof -
  define c where "c = (if env_status (envs s p) = ENV_READY then Some p else None)"
  let ?s = "s\<lparr>cpu_proc := c\<rparr>"
  have "s = s\<lparr>cpu_proc := Some p\<rparr>" using assms(4) by simp
  then have bk: "fos_scheduler_back s = Inr ?s"
    using assms(1,4,5) by (auto simp: fos_scheduler_back_def qlock_rules c_def waiting_def)
  have s: "holdq ?s" "config_ok ?s" "queues_ok ?s" "same_ids s ?s"
    using assms(1-3) by (auto simp: config_ok_def queues_ok_def queued_def env_fit_def same_ids_def)
  have w: "cpu_proc ?s = Some q \<Longrightarrow> waiting ?s q" for q
    using assms(5) by (auto simp: c_def waiting_def env_fit_def queued_def split: if_splits)
  have R: "R = ready_with (cpu_proc ?s) ?s" using assms(6) by (simp add: c_def ready_with_def)
  obtain t where
    t: "fos_scheduler_pick ?s = Inr (Some (last (R ! i)), t)" "holdq t" "config_ok t" "queues_ok t"
      "cpu_proc t = Some (last (R ! i))" "env_status (envs t (last (R ! i))) = ENV_RUNNING" "env_fit t (last (R ! i))"
      "env_ready_queues t = R[i := butlast (R ! i)]" "same_ids ?s t"
    using fos_scheduler_pick_ok [OF s(1-3) w R assms(7) refl] by blast
  obtain u where "dispatched (last (R ! i)) t = Inr u" "running u (last (R ! i))" "env_ready_queues u = env_ready_queues t"
    "same_ids t u" using dispatched_ok [OF t(2-7)] by blast
  then show ?thesis
    using t(1,8) same_ids_trans [OF s(4) same_ids_trans [OF t(9), of u]] by (simp add: next_turn_def bk)
qed

lemma yield_enter_ok:
  assumes "running s p"
  shows "\<exists>t. yield_enter s = Inr t \<and> holdq t \<and> config_ok t \<and> queues_ok t \<and> cpu_proc t = Some p \<and> waiting t p
    \<and> env_ready_queues t = env_ready_queues s \<and> same_ids s t"
proof -
  let ?s1 = "set_status p ENV_READY (locked_q s)"
  let ?t = "upd_env p (\<lambda>v. v\<lparr>k_intena := intena (kcpu (locked_q s)), k_started := True\<rparr>) ?s1"
  have r: "freeq s" "cpu_proc s = Some p" using assms by (auto simp: running_def)
  note nq = running_not_queued [OF assms]
  have h: "holdq (locked_q s)" by (rule holdq_locked [OF r(1)])
  then have n: "ncli (kcpu (locked_q s)) = 1" "\<not> int_flag (kcpu (locked_q s))" by (auto simp: holdq_def)
  have k: "kcpu ?s1 = kcpu (locked_q s)" "cpu_proc ?s1 = Some p" "env_status (envs ?s1 p) = ENV_READY"
    using r(2) by (simp_all add: set_status_def upd_env_def)
  have eq: "yield_enter s = Inr ?t"
    using h r n k by (simp add: yield_enter_def qlock_acquire_free cpu_env_held sched_enter_def need_qlock_held)
  have fit: "env_fit ?t x = env_fit s x" for x by (simp add: env_fit_def set_status_def upd_env_def)
  have "queues_ok ?t"
    by (rule queues_ok_cong [of s]) (use assms nq fit in \<open>auto simp: running_def set_status_def upd_env_def\<close>)
  moreover have "config_ok ?t" using assms
    by (subst config_ok_cong [of _ s]) (simp_all add: running_def set_status_def upd_env_def)
  moreover have "waiting ?t p"
    using assms nq fit by (simp add: waiting_def running_def queued_def) (simp add: set_status_def upd_env_def)
  ultimately show ?thesis
    using eq h r(2) by (intro exI [of _ ?t]) (simp add: set_status_def upd_env_def same_ids_def)
qed

lemma yield_turn_ok:
  assumes "running s p" and "R = ready_with (Some p) s"
  shows "\<exists>i t. top_queue R = Some i \<and> yield_turn s = Inr (InProcess, t) \<and> running t (last (R ! i))
    \<and> env_ready_queues t = R[i := butlast (R ! i)] \<and> same_ids s t"
proof -
  from yield_enter_ok [OF assms(1)] obtain t where
    t: "yield_enter s = Inr t" "holdq t" "config_ok t" "queues_ok t" "cpu_proc t = Some p" "waiting t p"
      "env_ready_queues t = env_ready_queues s" "same_ids s t" by (elim exE conjE) (rule that)
  have R: "R = ready_with (Some p) t" using t(7,8) assms(2) by (simp add: ready_with_def same_ids_def Let_def)
  have "p \<in> set (concat R)" using mset_ready_with [OF t(6)] unfolding R by (metis union_single_eq_member set_mset_mset)
  then have "top_queue R \<noteq> None" unfolding top_queue_None by force
  then obtain i where i: "top_queue R = Some i" by blast
  have st: "env_status (envs t p) = ENV_READY" using t(6) by (simp add: waiting_def)
  from next_turn_ok [OF t(2-5) _ _ i] t(6) R st obtain u where
    "next_turn t = Inr (InProcess, u)" "running u (last (R ! i))" "env_ready_queues u = R[i := butlast (R ! i)]" "same_ids t u"
    by auto
  then show ?thesis using i t(1) same_ids_trans [OF t(8)] by (auto simp: yield_turn_def)
qed

section \<open>Priorities\<close>

definition ready_envs :: "'a psched_scheme \<Rightarrow> nat set" where
  "ready_envs s = set (concat (env_ready_queues s))"


text \<open>Claim C17.  When the running process yields, the turn succeeds and the process that runs next is one
  of the highest priority among the ready processes and the yielding one (queue 0 is the highest
  priority); exactly the same processes are runnable as before, and all queues stay well formed.\<close>

theorem yield_runs_highest_priority:
  assumes "running s p"
  shows "\<exists>e t. yield_turn s = Inr (InProcess, t) \<and> running t e
    \<and> insert e (ready_envs t) = insert p (ready_envs s)
    \<and> (\<forall>x \<in> insert p (ready_envs s). priority (envs s e) \<le> priority (envs s x))"
proof -
  let ?R = "ready_with (Some p) s"
  obtain i t where t: "top_queue ?R = Some i" "yield_turn s = Inr (InProcess, t)" "running t (last (?R ! i))"
    "env_ready_queues t = ?R[i := butlast (?R ! i)]" "same_ids s t" using yield_turn_ok [OF assms refl] by blast
  define e where "e = last (?R ! i)"
  note i = top_queue_Some [OF t(1)]
  have fit: "nat (priority (envs s p)) < length (env_ready_queues s)" "0 \<le> priority (envs s p)"
    using assms by (auto simp: running_def env_fit_def)
  have q: "queues_ok s" using assms by (simp add: running_def)
  have Rset: "set (concat ?R) = insert p (ready_envs s)"
    using fit(1) mset_concat_update [OF fit(1), of "p # env_ready_queues s ! nat (priority (envs s p))"]
    by (simp add: ready_with_def Let_def ready_envs_def) (metis list.simps(15) mset.simps(2) set_concat set_mset_mset)
  have "insert e (ready_envs t) = set (concat ?R)"
    using arg_cong [OF mset_take_last [of i ?R], of set_mset] i by (simp add: ready_envs_def t(4) e_def)
  moreover have pr: "priority (envs s x) = int j" if "j < length ?R" "x \<in> set (?R ! j)" for x j
  proof (cases "x = p \<and> j = nat (priority (envs s p))")
    case False
    then have "x \<in> set (env_ready_queues s ! j)"
      using that by (cases "j = nat (priority (envs s p))") (auto simp: ready_with_def Let_def)
    then show ?thesis using queues_okD(4) [OF q] that by simp
  qed (use fit in simp)
  have "priority (envs s e) \<le> priority (envs s x)" if x: "x \<in> set (concat ?R)" for x
  proof -
    obtain j where j: "j < length ?R" "x \<in> set (?R ! j)" using x by (auto simp: in_set_conv_nth [of _ ?R])
    have "i \<le> j" using i j by (metis empty_iff leI list.set(1))
    moreover have "e \<in> set (?R ! i)" using i by (simp add: e_def)
    ultimately show ?thesis using pr [OF j] pr [of i e] i by simp
  qed
  ultimately show ?thesis using t(2,3) Rset unfolding e_def by metis
qed

section \<open>Round robin\<close>

fun yields :: "nat \<Rightarrow> 'a psched_scheme \<Rightarrow> (mode \<times> 'a psched_scheme) res" where
  "yields 0 s = Inr (InProcess, s)"
| "yields (Suc k) s = bindE (yields k s) (\<lambda>(m, t). if m = InProcess then yield_turn t else Inr (m, t))"

lemma yields_rotate:
  assumes "running s p" and "env_ready_queues s = [q]" and "k < length (p # q)"
  shows "\<exists>t. yields k s = Inr (InProcess, t) \<and> env_ready_queues t = [tl (drop (length (p # q) - k) (p # q) @ take (length (p # q) - k) (p # q))]
    \<and> running t (hd (drop (length (p # q) - k) (p # q) @ take (length (p # q) - k) (p # q))) \<and> same_ids s t"
  using assms(3)
proof (induction k)
  case 0
  then show ?case using assms(1,2) by (simp add: same_ids_def)
next
  case (Suc k)
  let ?L = "p # q" and ?n = "length (p # q)"
  let ?M = "drop (?n - k) ?L @ take (?n - k) ?L"
  obtain t where t: "yields k s = Inr (InProcess, t)" "env_ready_queues t = [tl ?M]" "running t (hd ?M)" "same_ids s t"
    using Suc by auto
  let ?R = "ready_with (Some (hd ?M)) t"
  have "nat (priority (envs t (hd ?M))) = 0" using t(2,3) by (simp add: running_def env_fit_def)
  moreover have M: "?M \<noteq> []" using Suc.prems by auto
  ultimately have R: "?R = [?M]" using t(2) by (simp add: ready_with_def Let_def del: append_is_Nil_conv)
  obtain i u where u: "top_queue ?R = Some i" "yield_turn t = Inr (InProcess, u)" "running u (last (?R ! i))"
    "env_ready_queues u = ?R[i := butlast (?R ! i)]" "same_ids t u" using yield_turn_ok [OF t(3) refl] by blast
  have i: "i = 0" using u(1) R M by (auto simp: top_queue_singleton split: if_splits)
  have m: "?n - k = Suc (?n - Suc k)" using Suc.prems by simp
  have "?n - Suc k < ?n" by simp
  then have tk: "take (?n - k) ?L = take (?n - Suc k) ?L @ [?L ! (?n - Suc k)]" unfolding m by (rule take_Suc_conv_app_nth)
  have dr: "drop (?n - Suc k) ?L = ?L ! (?n - Suc k) # drop (?n - k) ?L"
    unfolding m by (rule Cons_nth_drop_Suc [symmetric]) simp
  have lst: "last ?M = ?L ! (?n - Suc k)" "butlast ?M = drop (?n - k) ?L @ take (?n - Suc k) ?L"
    unfolding tk by (simp_all add: butlast_append)
  show ?case
    using t(1) u(2-5) same_ids_trans [OF t(4) u(5)] lst unfolding R i dr by simp
qed

text \<open>Claim C12.  Round robin starves nobody: with a single ready queue, every process that is ready while
  another one runs is running after at most as many yields as there are ready processes, and
  one more yield brings the first process back with the queue as it was.\<close>

theorem round_robin_progress:
  assumes "running s p" and "env_ready_queues s = [q]" and "e \<in> set q"
  shows "\<exists>k t u. k \<le> length q \<and> yields k s = Inr (InProcess, t) \<and> running t e
    \<and> yields (Suc (length q)) s = Inr (InProcess, u) \<and> running u p \<and> env_ready_queues u = [q]"
proof -
  let ?L = "p # q"
  obtain j where j: "j < length q" "q ! j = e" using assms(3) by (auto simp: in_set_conv_nth)
  let ?k = "length ?L - Suc j"
  have k: "?k < length ?L" "?k \<le> length q" using j by auto
  have "length ?L - ?k = Suc j" using j by simp
  moreover have "hd (drop (Suc j) ?L @ take (Suc j) ?L) = e"
    using j by (simp add: hd_append hd_drop_conv_nth)
  ultimately obtain t where t: "yields ?k s = Inr (InProcess, t)" "running t e"
    using yields_rotate [OF assms(1,2) k(1)] by auto
  obtain w where w: "yields (length q) s = Inr (InProcess, w)" "env_ready_queues w = [tl (drop 1 ?L @ take 1 ?L)]"
    "running w (hd (drop 1 ?L @ take 1 ?L))" "same_ids s w"
    using yields_rotate [OF assms(1,2), of "length q"] by auto
  have q: "q \<noteq> []" using assms(3) by auto
  let ?M = "drop 1 ?L @ take 1 ?L"
  have M: "?M \<noteq> []" "last ?M = p" "butlast ?M = q" by simp_all
  have "nat (priority (envs w (hd ?M))) = 0" using w(2,3) by (simp add: running_def env_fit_def)
  then have R: "ready_with (Some (hd ?M)) w = [?M]" using w(2) q by (simp add: ready_with_def Let_def)
  obtain i u where u: "top_queue [?M] = Some i" "yield_turn w = Inr (InProcess, u)" "running u (last ([?M] ! i))"
    "env_ready_queues u = [?M][i := butlast ([?M] ! i)]" using yield_turn_ok [OF w(3) R [symmetric]] by blast
  have "i = 0" using u(1) by (simp add: top_queue_singleton split: if_splits)
  then show ?thesis using t w(1) u(2-4) M k(2) by (intro exI [of _ ?k] exI [of _ t] exI [of _ u]) simp
qed

section \<open>Exit\<close>

lemma exit_new_loop_none:
  "(\<And>e. e \<in> set es \<Longrightarrow> env_id (envs s e) \<noteq> envId) \<Longrightarrow> exit_new_loop es envId found s = Inr (found, s)"
  by (induction es) auto

lemma take_ready_loop_none:
  "(\<And>i e. i \<in> set is \<Longrightarrow> i < length (env_ready_queues s) \<and> (e \<in> set (env_ready_queues s ! i) \<longrightarrow> env_id (envs s e) \<noteq> envId))
   \<Longrightarrow> take_ready_loop is envId s = Inr (None, s)"
proof (induction "is")
  case (Cons i "is")
  then have "find_env_in_queue (env_ready_queues s ! i) envId s = None"
    by (auto simp: find_env_in_queue_def find_None_iff)
  moreover have "take_ready_loop is envId s = Inr (None, s)" using Cons.prems by (intro Cons.IH) auto
  moreover have "i < length (env_ready_queues s)" using Cons.prems by simp
  ultimately show ?case by simp
qed simp

definition own_id :: "'a psched_scheme \<Rightarrow> nat \<Rightarrow> bool" where
  "own_id s p \<longleftrightarrow> (\<forall>e \<in> set (queued s). env_id (envs s e) = env_id (envs s p) \<longrightarrow> e = p)"

lemma env_exit_ok:
  assumes "running s p" and "own_id s p"
  shows "\<exists>t. env_exit s = Inr (Switches, t) \<and> holdq t \<and> config_ok t \<and> queues_ok t \<and> cpu_proc t = Some p
    \<and> env_status (envs t p) = ENV_EXIT \<and> env_ready_queues t = env_ready_queues s \<and> env_exit_queue t = p # env_exit_queue s
    \<and> (\<forall>e. priority (envs t e) = priority (envs s e)) \<and> (\<forall>e. e \<noteq> p \<longrightarrow> envs t e = envs s e) \<and> nenv t = nenv s \<and> mem t = mem s"
proof -
  let ?id = "env_id (envs s p)"
  let ?s1 = "(set_status p ENV_EXIT (locked_q s))\<lparr>env_exit_queue := p # env_exit_queue s\<rparr>"
  let ?t = "upd_env p (\<lambda>v. v\<lparr>k_intena := intena (kcpu (locked_q s)), k_started := True\<rparr>) ?s1"
  have r: "freeq s" "cpu_proc s = Some p" "config_ok s" "queues_ok s" using assms(1) by (auto simp: running_def)
  note nq = running_not_queued [OF assms(1)]
  have h: "holdq (locked_q s)" by (rule holdq_locked [OF r(1)])
  then have n: "ncli (kcpu (locked_q s)) = 1" "\<not> int_flag (kcpu (locked_q s))" by (auto simp: holdq_def)
  have other: "env_id (envs s e) \<noteq> ?id" if "e \<in> set (queued s)" for e using assms(2) that nq by (auto simp: own_id_def)
  have l1: "exit_new_loop (env_new_queue s) ?id False (locked_q s) = Inr (False, locked_q s)"
    by (rule exit_new_loop_none) (use other in \<open>auto simp: queued_def\<close>)
  have l2: "take_ready_loop [0 ..< unat (num_of_ready_queues s)] ?id (locked_q s) = Inr (None, locked_q s)"
    by (rule take_ready_loop_none)
      (use other r(3) nth_mem [of _ "env_ready_queues s"] in \<open>fastforce simp: queued_def config_ok_def\<close>)
  have ins: "sched_insert_exit (Some p) (locked_q s) = Inr ?s1"
    using h r(3) by (simp add: sched_insert_exit_def need_qlock_held config_ok_def enqueue_def Let_def set_status_def upd_env_def)
  have k: "kcpu ?s1 = kcpu (locked_q s)" "cpu_proc ?s1 = Some p" "env_status (envs ?s1 p) = ENV_EXIT" "env_id (envs ?s1 p) = ?id"
    "holdq ?s1" using r(2) h by (simp_all add: set_status_def upd_env_def)
  have en: "sched_enter ?s1 = Inr ?t"
    using k n by (simp add: sched_enter_def cpu_env_held need_qlock_held del: holdq_updates)
  have c: "cpu_env s = Inr (p, s)" using r by (simp add: cpu_env_def get_cpu_proc_free)
  have eq: "env_exit s = Inr (Switches, ?t)"
    using k r h by (simp add: env_exit_def c sched_exit_env_def qlock_holding_free qlock_acquire_free l1 l2 cpu_env_held ins en)
  have fit: "env_fit ?t x = env_fit s x" for x by (simp add: env_fit_def set_status_def upd_env_def)
  have f: "env_new_queue ?t = env_new_queue s" "env_exit_queue ?t = p # env_exit_queue s" "env_ready_queues ?t = env_ready_queues s"
    by (simp_all add: set_status_def upd_env_def)
  have st: "env_status (envs ?t x) = (if x = p then ENV_EXIT else env_status (envs s x))" "priority (envs ?t x) = priority (envs s x)" for x
    by (simp_all add: set_status_def upd_env_def)
  have "queues_ok ?t"
  proof (rule queues_okI)
    show "distinct (queued ?t)" using nq queues_okD(1) [OF r(4)] by (auto simp: queued_def f)
    show "env_status (envs ?t x) = ENV_NEW \<and> env_fit ?t x" if "x \<in> set (env_new_queue ?t)" for x
      using queues_okD(2) [OF r(4)] nq that unfolding f fit st by (auto simp: queued_def)
    show "env_status (envs ?t x) = ENV_EXIT" if "x \<in> set (env_exit_queue ?t)" for x
      using queues_okD(3) [OF r(4)] that unfolding f st by auto
    show "env_status (envs ?t x) = ENV_READY \<and> env_fit ?t x \<and> priority (envs ?t x) = int j"
      if "j < length (env_ready_queues ?t)" "x \<in> set (env_ready_queues ?t ! j)" for j x
      using queues_okD(4) [OF r(4)] nq that nth_mem [of j "env_ready_queues s"] unfolding f fit st by (auto simp: queued_def)
  qed
  moreover have "config_ok ?t" using r(3) by (subst config_ok_cong [of _ s]) (simp_all add: set_status_def upd_env_def)
  ultimately show ?thesis
    using eq h r(2) f by (intro exI [of _ ?t]) (simp add: set_status_def upd_env_def locked_q_def)
qed

lemma exit_turn_ok:
  assumes "running s p" and "own_id s p"
  shows "case top_queue (env_ready_queues s) of
      Some i \<Rightarrow> \<exists>t. exit_turn s = Inr (InProcess, t) \<and> running t (last (env_ready_queues s ! i)) \<and> p \<in> set (env_exit_queue t)
        \<and> env_ready_queues t = (env_ready_queues s)[i := butlast (env_ready_queues s ! i)]
    | None \<Rightarrow> \<exists>t. exit_turn s = Inr (InIdle (\<exists>e < nenv s. e \<noteq> p \<and> env_status (envs s e) = ENV_BLOCKED), t)
        \<and> p \<in> set (env_exit_queue t) \<and> cpu_proc t = None \<and> freeq t"
proof -
  obtain t where t: "env_exit s = Inr (Switches, t)" "holdq t" "config_ok t" "queues_ok t" "cpu_proc t = Some p"
      "env_status (envs t p) = ENV_EXIT" "env_ready_queues t = env_ready_queues s" "env_exit_queue t = p # env_exit_queue s"
      "\<forall>e. e \<noteq> p \<longrightarrow> envs t e = envs s e" "nenv t = nenv s" using env_exit_ok [OF assms] by blast
  have e: "exit_turn s = next_turn t" by (simp add: exit_turn_def t(1))
  show ?thesis
  proof (cases "top_queue (env_ready_queues s)")
    case (Some i)
    have "env_ready_queues s = ready_with (if env_status (envs t p) = ENV_READY then Some p else None) t"
      by (simp add: t(6,7) ready_with_def)
    from next_turn_ok [OF t(2-5) _ this Some] t(6,8) show ?thesis by (auto simp: e Some same_ids_def)
  next
    case None
    let ?t = "t\<lparr>cpu_proc := None\<rparr>"
    have bk: "fos_scheduler_back t = Inr ?t" using t(2,5,6) by (simp add: fos_scheduler_back_def qlock_rules)
    obtain q where q: "sched_next ?t = Inr (None, ?t\<lparr>cnt0_quantum := q\<rparr>)"
      using sched_next_none [of ?t] t(2,3,7) None by (auto simp: config_ok_def)
    have b: "env_status (envs t e) = ENV_BLOCKED \<longleftrightarrow> e \<noteq> p \<and> env_status (envs s e) = ENV_BLOCKED" for e
      using t(6,9) by (cases "e = p") auto
    have "list_ex (\<lambda>i. env_status (envs t i) = ENV_BLOCKED) [0 ..< nenv t]
        = (\<exists>e < nenv s. e \<noteq> p \<and> env_status (envs s e) = ENV_BLOCKED)"
      unfolding b t(10) by (auto simp: list_ex_iff)
    then have "exit_turn s = Inr (InIdle (\<exists>e < nenv s. e \<noteq> p \<and> env_status (envs s e) = ENV_BLOCKED),
        released_q (?t\<lparr>cnt0_quantum := q\<rparr>))"
      using t(2) by (simp add: e next_turn_def bk fos_scheduler_pick_def q fos_scheduler_idle_def qlock_release_held)
    then show ?thesis using None t(2,8) freeq_released [of "?t\<lparr>cnt0_quantum := q\<rparr>"] by simp
  qed
qed

text \<open>An exiting process never runs again: its turn puts it into the exit queue with the exit
  status and hands the CPU to the last process of the first non-empty ready queue, or, when
  no process is ready, leaves the scheduler idle, to try again exactly when some process is
  blocked.\<close>

theorem exit_turn_spec:
  assumes "running s p" and "own_id s p"
  shows "case top_queue (env_ready_queues s) of
      Some i \<Rightarrow> \<exists>t. exit_turn s = Inr (InProcess, t) \<and> running t (last (env_ready_queues s ! i)) \<and> p \<in> set (env_exit_queue t)
        \<and> env_ready_queues t = (env_ready_queues s)[i := butlast (env_ready_queues s ! i)]
    | None \<Rightarrow> \<exists>t. exit_turn s = Inr (InIdle (\<exists>e < nenv s. e \<noteq> p \<and> env_status (envs s e) = ENV_BLOCKED), t)
        \<and> p \<in> set (env_exit_queue t) \<and> cpu_proc t = None \<and> freeq t"
  by (rule exit_turn_ok [OF assms])
section \<open>Creating, launching and re-prioritising processes\<close>

lemma insert_ready_ok:
  assumes "holdq s" and "config_ok s" and "queues_ok s" and "env_fit s e" and "e \<notin> set (queued s)"
  shows "\<exists>t. sched_insert_ready (Some e) s = Inr t \<and> holdq t \<and> config_ok t \<and> queues_ok t
    \<and> env_ready_queues t = ready_with (Some e) s \<and> envs t = (envs s)(e := (envs s e)\<lparr>env_status := ENV_READY\<rparr>)
    \<and> cpu_proc t = cpu_proc s \<and> scheduler_status t = scheduler_status s"
proof -
  let ?u = "set_status e ENV_READY s"
  let ?t = "?u\<lparr>env_ready_queues := ready_with (Some e) s\<rparr>"
  have fit: "env_fit ?u x = env_fit s x" "env_fit ?t x = env_fit s x" for x
    by (simp_all add: env_fit_def set_status_def upd_env_def)
  have "queues_ok ?u"
    by (rule queues_ok_cong [OF assms(3)]) (use assms(5) fit in \<open>auto simp: set_status_def upd_env_def\<close>)
  moreover have "waiting ?u e"
    using assms(4,5) fit by (simp add: waiting_def queued_def) (simp add: set_status_def upd_env_def)
  moreover have R: "ready_with (Some e) s = ready_with (Some e) ?u" by (simp add: ready_with_def set_status_def upd_env_def)
  ultimately have w: "distinct (env_new_queue ?u @ env_exit_queue ?u @ concat (ready_with (Some e) ?u))"
    "\<lbrakk>j < length (env_ready_queues ?u); x \<in> set (ready_with (Some e) ?u ! j)\<rbrakk> \<Longrightarrow>
      env_status (envs ?u x) = ENV_READY \<and> env_fit ?u x \<and> priority (envs ?u x) = int j" for j x
    using ready_with_ok [of ?u "Some e"] by auto
  have "queues_ok ?t"
  proof (rule queues_okI)
    show "distinct (queued ?t)" using w(1) R by (simp add: queued_def set_status_def upd_env_def)
    show "env_status (envs ?t x) = ENV_NEW \<and> env_fit ?t x" if "x \<in> set (env_new_queue ?t)" for x
      using queues_okD(2) [OF \<open>queues_ok ?u\<close>, of x] that unfolding fit by (simp add: set_status_def upd_env_def)
    show "env_status (envs ?t x) = ENV_EXIT" if "x \<in> set (env_exit_queue ?t)" for x
      using queues_okD(3) [OF \<open>queues_ok ?u\<close>, of x] that by (simp add: set_status_def upd_env_def)
    show "env_status (envs ?t x) = ENV_READY \<and> env_fit ?t x \<and> priority (envs ?t x) = int j"
      if "j < length (env_ready_queues ?t)" "x \<in> set (env_ready_queues ?t ! j)" for j x
      using w(2) [of j x] that R unfolding fit by (simp add: set_status_def upd_env_def)
  qed
  moreover have "config_ok ?t" using assms(2) by (subst config_ok_cong [of _ s]) (simp_all add: set_status_def upd_env_def)
  moreover have "sched_insert_ready (Some e) s = Inr ?t"
    using sched_insert_ready_held [OF assms(1)] assms(4) by (simp add: env_fit_def)
  ultimately show ?thesis using assms(1) by (intro exI [of _ ?t]) (simp add: set_status_def upd_env_def)
qed

text \<open>Taking an environment out of a queue it is in.\<close>

lemma take_ready_ok:
  assumes "queues_ok s" and "i < length (env_ready_queues s)" and "e \<in> set (env_ready_queues s ! i)"
  shows "ready_take i e s = Inr (s\<lparr>env_ready_queues := (env_ready_queues s)[i := remove1 e (env_ready_queues s ! i)]\<rparr>)"
    and "queues_ok (s\<lparr>env_ready_queues := (env_ready_queues s)[i := remove1 e (env_ready_queues s ! i)]\<rparr>)"
    and "e \<notin> set (queued (s\<lparr>env_ready_queues := (env_ready_queues s)[i := remove1 e (env_ready_queues s ! i)]\<rparr>))"
proof -
  let ?qs = "env_ready_queues s" and ?t = "s\<lparr>env_ready_queues := (env_ready_queues s)[i := remove1 e (env_ready_queues s ! i)]\<rparr>"
  show "ready_take i e s = Inr ?t" using assms(2,3) by (simp add: ready_take_def queue_take_def Let_def)
  have "add_mset e (mset (concat (?qs[i := remove1 e (?qs ! i)]))) = mset (concat ?qs)"
  proof -
    have "mset (?qs ! i) = add_mset e (mset (remove1 e (?qs ! i)))" using assms(3) by simp
    with mset_concat_update [OF assms(2), of "remove1 e (?qs ! i)"] show ?thesis
      by (metis add_right_cancel union_mset_add_mset_left union_mset_add_mset_right)
  qed
  then have "mset (queued s) = mset (e # queued ?t)" by (simp add: queued_def)
  then have d: "distinct (e # queued ?t)" using queues_okD(1) [OF assms(1)] mset_eq_imp_distinct_iff by blast
  then show "e \<notin> set (queued ?t)" by simp
  have fit: "env_fit ?t x = env_fit s x" for x by (simp add: env_fit_def)
  show "queues_ok ?t"
  proof (rule queues_okI)
    show "distinct (queued ?t)" using d by simp
    show "env_status (envs ?t x) = ENV_READY \<and> env_fit ?t x \<and> priority (envs ?t x) = int j"
      if "j < length (env_ready_queues ?t)" "x \<in> set (env_ready_queues ?t ! j)" for j x
    proof -
      have "x \<in> set (?qs ! j)" using that by (cases "j = i") (auto dest: set_remove1_subset [THEN subsetD])
      then show ?thesis using queues_okD(4) [OF assms(1)] that unfolding fit by simp
    qed
  qed (use queues_okD(2,3) [OF assms(1)] fit in auto)
qed
lemma running_released:
  assumes "holdq t" and "config_ok t" and "queues_ok t" and "cpu_proc t = Some p" and "env_status (envs t p) = ENV_RUNNING"
    and "env_fit t p"
  shows "qlock_release t = Inr (released_q t) \<and> running (released_q t) p"
proof -
  have "env_fit (released_q t) x = env_fit t x" for x by (simp add: env_fit_def)
  moreover from this have "queues_ok (released_q t)" by (intro queues_ok_cong [OF assms(3)]) auto
  moreover have "config_ok (released_q t)" using assms(2) by (subst config_ok_cong [of _ t]) simp_all
  ultimately show ?thesis using assms by (simp add: running_def qlock_release_held freeq_released)
qed

lemma locked_ok:
  assumes "running s p"
  shows "qlock_acquire s = Inr (locked_q s)" and "holdq (locked_q s)" and "config_ok (locked_q s)" and "queues_ok (locked_q s)"
    and "env_fit (locked_q s) x = env_fit s x" and "queued (locked_q s) = queued s"
proof -
  have r: "freeq s" "config_ok s" "queues_ok s" using assms by (auto simp: running_def)
  show "qlock_acquire s = Inr (locked_q s)" "holdq (locked_q s)" using r(1) by (simp_all add: qlock_rules)
  show "config_ok (locked_q s)" using r(2) by (subst config_ok_cong [of _ s]) simp_all
  have fit: "env_fit (locked_q s) x = env_fit s x" for x by (simp add: env_fit_def)
  then show "queues_ok (locked_q s)" by (intro queues_ok_cong [OF r(3)]) auto
  show "env_fit (locked_q s) x = env_fit s x" by (rule fit)
  show "queued (locked_q s) = queued s" by (simp add: queued_def)
qed

lemma new_env_ok:
  assumes "running s p" and "e \<notin> set (queued s)" and "e \<noteq> p" and "env_fit s e"
  shows "\<exists>t. sched_new_env (Some e) s = Inr t \<and> running t p \<and> env_new_queue t = e # env_new_queue s"
proof -
  let ?t = "(set_status e ENV_NEW (locked_q s))\<lparr>env_new_queue := e # env_new_queue s\<rparr>"
  note l = locked_ok [OF assms(1)]
  have fit: "env_fit ?t x = env_fit s x" for x by (simp add: env_fit_def set_status_def upd_env_def)
  have f: "env_new_queue ?t = e # env_new_queue s" "env_exit_queue ?t = env_exit_queue s" "env_ready_queues ?t = env_ready_queues s"
    by (simp_all add: set_status_def upd_env_def)
  have st: "env_status (envs ?t x) = (if x = e then ENV_NEW else env_status (envs s x))" "priority (envs ?t x) = priority (envs s x)" for x
    by (simp_all add: set_status_def upd_env_def)
  have q: "queues_ok s" using assms(1) by (simp add: running_def)
  have "queues_ok ?t"
  proof (rule queues_okI)
    show "distinct (queued ?t)" using assms(2) queues_okD(1) [OF q] by (simp add: queued_def f)
    show "env_status (envs ?t x) = ENV_NEW \<and> env_fit ?t x" if "x \<in> set (env_new_queue ?t)" for x
      using queues_okD(2) [OF q] assms(4) that unfolding f fit st by auto
    show "env_status (envs ?t x) = ENV_EXIT" if "x \<in> set (env_exit_queue ?t)" for x
      using queues_okD(3) [OF q] assms(2) that unfolding f st by (auto simp: queued_def)
    show "env_status (envs ?t x) = ENV_READY \<and> env_fit ?t x \<and> priority (envs ?t x) = int j"
      if "j < length (env_ready_queues ?t)" "x \<in> set (env_ready_queues ?t ! j)" for j x
      using queues_okD(4) [OF q] assms(2) that nth_mem [of j "env_ready_queues s"] unfolding f fit st by (auto simp: queued_def)
  qed
  moreover have "config_ok ?t" using l(3) by (subst config_ok_cong [of _ "locked_q s"]) (simp_all add: set_status_def upd_env_def)
  moreover have "holdq ?t" "cpu_proc ?t = Some p" "env_status (envs ?t p) = ENV_RUNNING" "env_fit ?t p"
    using l(2) assms(1,3) unfolding fit st by (simp_all add: running_def set_status_def upd_env_def)
  ultimately have r: "qlock_release ?t = Inr (released_q ?t)" "running (released_q ?t) p"
    using running_released [of ?t p] by blast+
  have "sched_insert_new (Some e) (locked_q s) = Inr ?t"
    using l(2) by (simp add: sched_insert_new_def need_qlock_held enqueue_def Let_def set_status_def upd_env_def)
  then show ?thesis using r f by (intro exI [of _ "released_q ?t"]) (simp add: sched_new_env_def l(1))
qed

lemma remove_new_ok:
  assumes "holdq s" and "config_ok s" and "queues_ok s" and "e \<in> set (env_new_queue s)"
  shows "\<exists>t. sched_remove_new (Some e) s = Inr t \<and> holdq t \<and> config_ok t \<and> queues_ok t \<and> e \<notin> set (queued t)
    \<and> cpu_proc t = cpu_proc s \<and> env_fit t = env_fit s \<and> (\<forall>x. x \<noteq> e \<longrightarrow> envs t x = envs s x)
    \<and> env_ready_queues t = env_ready_queues s \<and> scheduler_status t = scheduler_status s"
proof -
  let ?t = "set_status e ENV_UNKNOWN (s\<lparr>env_new_queue := remove1 e (env_new_queue s)\<rparr>)"
  have f: "env_new_queue ?t = remove1 e (env_new_queue s)" "env_exit_queue ?t = env_exit_queue s" "env_ready_queues ?t = env_ready_queues s"
    "cpu_proc ?t = cpu_proc s" by (simp_all add: set_status_def upd_env_def)
  have fit: "env_fit ?t = env_fit s" by (rule ext) (simp add: env_fit_def set_status_def upd_env_def)
  have st: "env_status (envs ?t x) = (if x = e then ENV_UNKNOWN else env_status (envs s x))" "priority (envs ?t x) = priority (envs s x)" for x
    by (simp_all add: set_status_def upd_env_def)
  note d = queues_okD(1) [OF assms(3)]
  have nq: "e \<notin> set (queued ?t)" and dt: "distinct (queued ?t)"
    using d assms(4) unfolding queued_def f by (auto dest: set_remove1_subset [THEN subsetD] intro: distinct_remove1)
  have "queues_ok ?t"
  proof (rule queues_okI)
    show "env_status (envs ?t x) = ENV_NEW \<and> env_fit ?t x" if "x \<in> set (env_new_queue ?t)" for x
      using queues_okD(2) [OF assms(3), of x] d that unfolding f fit st by (auto simp: queued_def)
    show "env_status (envs ?t x) = ENV_EXIT" if "x \<in> set (env_exit_queue ?t)" for x
      using queues_okD(3) [OF assms(3), of x] d assms(4) that unfolding f st by (auto simp: queued_def)
    show "env_status (envs ?t x) = ENV_READY \<and> env_fit ?t x \<and> priority (envs ?t x) = int j"
      if "j < length (env_ready_queues ?t)" "x \<in> set (env_ready_queues ?t ! j)" for j x
      using queues_okD(4) [OF assms(3), of j x] d assms(4) that nth_mem [of j "env_ready_queues s"] unfolding f fit st
      by (auto simp: queued_def)
  qed (rule dt)
  moreover have "config_ok ?t" using assms(2) by (subst config_ok_cong [of _ s]) (simp_all add: set_status_def upd_env_def)
  moreover have "sched_remove_new (Some e) s = Inr ?t"
    using assms(1,4) queues_okD(2) [OF assms(3,4)] by (simp add: sched_remove_new_def need_qlock_held queue_take_def)
  ultimately show ?thesis
    using assms(1) fit nq f by (intro exI [of _ ?t]) (simp add: set_status_def upd_env_def)
qed

lemma run_env_ok:
  assumes "running s p" and "scheduler_status s \<noteq> SCH_STOPPED"
  shows "\<exists>t. sched_run_env envId s = Inr (Returns, t) \<and> running t p"
proof (cases "find_env_in_queue (env_new_queue s) envId (locked_q s)")
  case None
  note l = locked_ok [OF assms(1)]
  have "qlock_release (locked_q s) = Inr (released_q (locked_q s)) \<and> running (released_q (locked_q s)) p"
    by (rule running_released) (use l assms(1) in \<open>auto simp: running_def\<close>)
  then show ?thesis by (simp add: sched_run_env_def l(1) None)
next
  case (Some e)
  note l = locked_ok [OF assms(1)]
  have e: "e \<in> set (env_new_queue s)" using Some by (auto simp: find_env_in_queue_def find_Some_iff)
  have q: "queues_ok s" "env_status (envs s p) = ENV_RUNNING" using assms(1) by (auto simp: running_def)
  then have ne: "e \<noteq> p" "env_fit s e" using queues_okD(2) [OF q(1) e] by auto
  obtain t where t: "sched_remove_new (Some e) (locked_q s) = Inr t" "holdq t" "config_ok t" "queues_ok t" "e \<notin> set (queued t)"
    "cpu_proc t = cpu_proc s" "env_fit t = env_fit (locked_q s)" "\<forall>x. x \<noteq> e \<longrightarrow> envs t x = envs s x" "scheduler_status t = scheduler_status s"
    using remove_new_ok [OF l(2-4), of e] e by auto
  have "env_fit t e" using t(7) ne l(5) by simp
  obtain u where u: "sched_insert_ready (Some e) t = Inr u" "holdq u" "config_ok u" "queues_ok u" "env_ready_queues u = ready_with (Some e) t"
    "envs u = (envs t)(e := (envs t e)\<lparr>env_status := ENV_READY\<rparr>)" "cpu_proc u = cpu_proc t" "scheduler_status u = scheduler_status t"
    using insert_ready_ok [OF t(2-4) \<open>env_fit t e\<close> t(5)] by blast
  have "env_fit u p" using t(7) u(5,6) l(5) assms(1) ne(1) by (simp add: running_def env_fit_def fun_eq_iff)
  then have "qlock_release u = Inr (released_q u) \<and> running (released_q u) p"
    by (intro running_released) (use u t q ne(1) assms(1) in \<open>auto simp: running_def\<close>)
  then show ?thesis using assms(2) t(9) u(8) by (simp add: sched_run_env_def l(1) Some t(1) u(1))
qed
lemma find_own:
  assumes "own_id s e" and "set q \<subseteq> set (queued s)"
  shows "find_env_in_queue q (env_id (envs s e)) s = (if e \<in> set q then Some e else None)"
proof -
  have eq: "x = e" if "x \<in> set q" "env_id (envs s x) = env_id (envs s e)" for x using assms that by (auto simp: own_id_def)
  show ?thesis
  proof (cases "e \<in> set q")
    case True
    then obtain x where "find_env_in_queue q (env_id (envs s e)) s = Some x"
      by (cases "find_env_in_queue q (env_id (envs s e)) s") (auto simp: find_env_in_queue_def find_None_iff)
    moreover from this have "x \<in> set q" "env_id (envs s x) = env_id (envs s e)"
      by (auto simp: find_env_in_queue_def find_Some_iff)
    ultimately show ?thesis using eq True by simp
  next
    case False
    then show ?thesis using eq by (auto simp: find_env_in_queue_def find_None_iff)
  qed
qed

lemma ready_subset_queued: "i < length (env_ready_queues s) \<Longrightarrow> set (env_ready_queues s ! i) \<subseteq> set (queued s)"
  using nth_mem [of i "env_ready_queues s"] by (auto simp: queued_def)

lemma remove_ready_loop_none:
  assumes "own_id s e" and "\<And>i. i \<in> set is \<Longrightarrow> i < length (env_ready_queues s) \<and> e \<notin> set (env_ready_queues s ! i)"
  shows "remove_ready_loop is e s = Inr s"
  using assms(2)
proof (induction "is")
  case (Cons i "is")
  then have i: "i < length (env_ready_queues s)" "e \<notin> set (env_ready_queues s ! i)" by auto
  moreover have "remove_ready_loop is e s = Inr s" using Cons.prems by (intro Cons.IH) auto
  ultimately show ?case using find_own [OF assms(1) ready_subset_queued [OF i(1)]] by simp
qed simp

lemma remove_ready_loop_found:
  assumes "own_id s e" and "\<And>i. i \<in> set is \<Longrightarrow> i < length (env_ready_queues s)"
    and "j \<in> set is" and "e \<in> set (env_ready_queues s ! j)" and "distinct (queued s)"
    and "\<And>i. \<lbrakk>i < length (env_ready_queues s); e \<in> set (env_ready_queues s ! i)\<rbrakk> \<Longrightarrow> i = j"
  shows "remove_ready_loop is e s = bindE (ready_take j e s) (\<lambda>t. Inr (set_status e ENV_UNKNOWN t))"
  using assms(2,3)
proof (induction "is")
  case (Cons i "is")
  then have i: "i < length (env_ready_queues s)" by auto
  note f = find_own [OF assms(1) ready_subset_queued [OF i]]
  show ?case
  proof (cases "i = j")
    case True
    then show ?thesis using f assms(4) i by simp
  next
    case False
    then have "e \<notin> set (env_ready_queues s ! i)" using assms(6) i by blast
    moreover have "remove_ready_loop is e s = bindE (ready_take j e s) (\<lambda>t. Inr (set_status e ENV_UNKNOWN t))"
      using Cons.prems False by (intro Cons.IH) auto
    ultimately show ?thesis using f i by simp
  qed
qed simp

text \<open>Removing a ready process leaves it in no queue, whether or not it was in one.\<close>

lemma remove_ready_ok:
  assumes "holdq s" and "config_ok s" and "queues_ok s" and "own_id s e" and "env_status (envs s e) = ENV_READY"
  shows "\<exists>t. sched_remove_ready (Some e) s = Inr t \<and> holdq t \<and> config_ok t \<and> queues_ok t \<and> e \<notin> set (queued t)
    \<and> cpu_proc t = cpu_proc s \<and> env_fit t = env_fit s \<and> (\<forall>x. x \<noteq> e \<longrightarrow> envs t x = envs s x)
    \<and> length (env_ready_queues t) = length (env_ready_queues s)"
proof -
  let ?is = "[0 ..< unat (num_of_ready_queues s)]"
  have n: "unat (num_of_ready_queues s) = length (env_ready_queues s)" using assms(2) by (simp add: config_ok_def)
  have eq: "sched_remove_ready (Some e) s = remove_ready_loop ?is e s"
    using assms(1,5) by (simp add: sched_remove_ready_def need_qlock_held)
  show ?thesis
  proof (cases "\<exists>j < length (env_ready_queues s). e \<in> set (env_ready_queues s ! j)")
    case True
    then obtain j where j: "j < length (env_ready_queues s)" "e \<in> set (env_ready_queues s ! j)" by blast
    let ?u = "s\<lparr>env_ready_queues := (env_ready_queues s)[j := remove1 e (env_ready_queues s ! j)]\<rparr>"
    let ?t = "set_status e ENV_UNKNOWN ?u"
    have uniq: "i = j" if "i < length (env_ready_queues s)" "e \<in> set (env_ready_queues s ! i)" for i
      using queues_okD(4) [OF assms(3) that] queues_okD(4) [OF assms(3) j] by simp
    note tk = take_ready_ok [OF assms(3) j]
    have "remove_ready_loop ?is e s = Inr ?t"
      using remove_ready_loop_found [OF assms(4) _ _ j(2) queues_okD(1) [OF assms(3)] uniq, of ?is] n j(1) tk(1) by simp
    moreover have fit: "env_fit ?t = env_fit s" by (rule ext) (simp add: env_fit_def set_status_def upd_env_def)
    moreover have nq: "e \<notin> set (queued ?t)" using tk(3) by (simp add: queued_def set_status_def upd_env_def)
    moreover have "queues_ok ?t"
      by (rule queues_ok_cong [OF tk(2)])
        (use tk(3) in \<open>auto simp: set_status_def upd_env_def env_fit_def\<close>)
    moreover have "config_ok ?t" using assms(2) by (subst config_ok_cong [of _ s]) (simp_all add: set_status_def upd_env_def)
    ultimately show ?thesis
      using eq assms(1) by (intro exI [of _ ?t]) (simp add: set_status_def upd_env_def)
  next
    case False
    then have "remove_ready_loop ?is e s = Inr s" by (intro remove_ready_loop_none [OF assms(4)]) (auto simp: n)
    moreover have "e \<notin> set (queued s)"
    proof
      assume "e \<in> set (queued s)"
      then have "e \<in> set (env_new_queue s) \<or> e \<in> set (env_exit_queue s)"
        using False by (auto simp: queued_def in_set_conv_nth [of _ "env_ready_queues s"])
      then show False using queues_okD(2,3) [OF assms(3), of e] assms(5) by auto
    qed
    ultimately show ?thesis using assms(1-3) eq by auto
  qed
qed

definition names_env :: "'a psched_scheme \<Rightarrow> u32 \<Rightarrow> nat \<Rightarrow> bool" where
  "names_env s envID e \<longleftrightarrow> (if envID = 0 then cpu_proc s = Some e
     else e = ENVX (nenv s) envID \<and> env_status (envs s e) \<noteq> ENV_FREE \<and> env_id (envs s e) = envID)"

lemma envid2env_names: "\<lbrakk>freeq s; names_env s envID e\<rbrakk> \<Longrightarrow> envid2env envID False s = Inr (0, Some e, s)"
  by (auto simp: envid2env_def names_env_def get_cpu_proc_free Let_def split: if_splits)

lemma set_priority_ok:
  assumes "running s p" and "names_env s envID e" and "own_id s e" and "0 \<le> prio" and "nat prio < length (env_ready_queues s)"
    and "env_fit s e"
  shows "\<exists>t. env_set_priority envID prio s = Inr t \<and> running t p \<and> priority (envs t e) = prio"
proof -
  have r: "freeq s" "queues_ok s" "config_ok s" "env_status (envs s p) = ENV_RUNNING" "cpu_proc s = Some p" "env_fit s p"
    using assms(1) by (auto simp: running_def)
  note en = envid2env_names [OF r(1) assms(2)]
  show ?thesis
  proof (cases "env_status (envs s e) = ENV_READY")
    case True
    note l = locked_ok [OF assms(1)]
    have ep: "e \<noteq> p" using True r(4) by auto
    have own: "own_id (locked_q s) e" using assms(3) l(6) by (simp add: own_id_def)
    obtain t where t: "sched_remove_ready (Some e) (locked_q s) = Inr t" "holdq t" "config_ok t" "queues_ok t" "e \<notin> set (queued t)"
      "cpu_proc t = Some p" "env_fit t = env_fit (locked_q s)" "\<forall>x. x \<noteq> e \<longrightarrow> envs t x = envs s x"
      "length (env_ready_queues t) = length (env_ready_queues s)"
      using remove_ready_ok [OF l(2-4) own] True r(5) by auto
    let ?u = "upd_env e (\<lambda>v. v\<lparr>priority := prio, samawaiting_ticks := 0\<rparr>) t"
    have fu: "env_fit ?u x = env_fit t x" if "x \<noteq> e" for x using that by (simp add: env_fit_def upd_env_def)
    have "queues_ok ?u" by (rule queues_ok_cong [OF t(4)]) (use t(5) fu in \<open>auto simp: upd_env_def\<close>)
    moreover have "config_ok ?u" using t(3) by (subst config_ok_cong [of _ t]) (simp_all add: upd_env_def)
    moreover have "e \<notin> set (queued ?u)" using t(5) by (simp add: queued_def upd_env_def)
    moreover have "holdq ?u" using t(2) by simp
    moreover have fe: "env_fit ?u e" using assms(4-6) t(7,9) l(5) by (auto simp: env_fit_def upd_env_def fun_eq_iff)
    ultimately obtain v where v: "sched_insert_ready (Some e) ?u = Inr v" "holdq v" "config_ok v" "queues_ok v"
      "env_ready_queues v = ready_with (Some e) ?u" "envs v = (envs ?u)(e := (envs ?u e)\<lparr>env_status := ENV_READY\<rparr>)"
      "cpu_proc v = cpu_proc ?u" using insert_ready_ok [of ?u e] by blast
    have vp: "envs v p = envs s p" "priority (envs v e) = prio" using v(6) t(8) ep by (simp_all add: upd_env_def)
    have len: "length (env_ready_queues v) = length (env_ready_queues s)" using v(5) t(9) by (simp add: upd_env_def)
    have "qlock_release v = Inr (released_q v) \<and> running (released_q v) p"
      by (rule running_released) (use v t(6) vp r len in \<open>auto simp: upd_env_def env_fit_def\<close>)
    then show ?thesis using True vp(2) by (simp add: env_set_priority_def en l(1) t(1) v(1))
  next
    case False
    let ?t = "upd_env e (\<lambda>v. v\<lparr>priority := prio\<rparr>) s"
    have fit: "env_fit ?t x = env_fit s x" for x using assms(4-6) by (auto simp: env_fit_def upd_env_def)
    have nr: "e \<notin> set (env_ready_queues s ! i)" if "i < length (env_ready_queues s)" for i
      using queues_okD(4) [OF r(2) that] False by auto
    have "queues_ok ?t"
    proof (rule queues_okI)
      show "distinct (queued ?t)" using queues_okD(1) [OF r(2)] by (simp add: queued_def upd_env_def)
      show "env_status (envs ?t x) = ENV_READY \<and> env_fit ?t x \<and> priority (envs ?t x) = int j"
        if "j < length (env_ready_queues ?t)" "x \<in> set (env_ready_queues ?t ! j)" for j x
        using queues_okD(4) [OF r(2), of j x] nr [of j] that unfolding fit by (auto simp: upd_env_def)
    qed (use queues_okD(2,3) [OF r(2)] fit in \<open>auto simp: upd_env_def\<close>)
    moreover have "config_ok ?t" using r(3) by (subst config_ok_cong [of _ s]) (simp_all add: upd_env_def)
    moreover have "freeq ?t" using r(1) by (simp add: freeq_def upd_env_def)
    ultimately have "running ?t p" using r fit by (auto simp: running_def upd_env_def)
    then show ?thesis using False by (intro exI [of _ ?t]) (simp add: env_set_priority_def en upd_env_def)
  qed
qed
section \<open>Sequences of actions\<close>

text \<open>What the running process may ask the scheduler to do, and when it may: processes are created from
  unused environments that can run, the process identifiers involved are unique, and priorities name
  a ready queue.\<close>

datatype act = Yield | Exit | New nat | Run u32 | SetPriority u32 int

fun do_act :: "act \<Rightarrow> 'a psched_scheme \<Rightarrow> (mode \<times> 'a psched_scheme) res" where
  "do_act Yield s = yield_turn s"
| "do_act Exit s = exit_turn s"
| "do_act (New e) s = bindE (sched_new_env (Some e) s) (\<lambda>t. Inr (InProcess, t))"
| "do_act (Run envId) s = bindE (sched_run_env envId s) (\<lambda>(d, t). Inr (if d = Returns then InProcess else InIdle True, t))"
| "do_act (SetPriority envId prio) s = bindE (env_set_priority envId prio s) (\<lambda>t. Inr (InProcess, t))"

fun legal_act :: "act \<Rightarrow> 'a psched_scheme \<Rightarrow> bool" where
  "legal_act Yield s \<longleftrightarrow> True"
| "legal_act Exit s \<longleftrightarrow> list_all (own_id s) (case cpu_proc s of None \<Rightarrow> [] | Some p \<Rightarrow> [p])"
| "legal_act (New e) s \<longleftrightarrow> e \<notin> set (queued s) \<and> cpu_proc s \<noteq> Some e \<and> env_fit s e"
| "legal_act (Run envId) s \<longleftrightarrow> scheduler_status s \<noteq> SCH_STOPPED"
| "legal_act (SetPriority envId prio) s \<longleftrightarrow>
     (let e = (if envId = 0 then the (cpu_proc s) else ENVX (nenv s) envId)
      in names_env s envId e \<and> own_id s e \<and> env_fit s e \<and> 0 \<le> prio \<and> nat prio < length (env_ready_queues s))"

inductive sched_reach :: "'a psched_scheme \<Rightarrow> 'a psched_scheme \<Rightarrow> bool" for s where
  start: "sched_reach s s"
| act: "\<lbrakk>sched_reach s t; legal_act a t; do_act a t = Inr (InProcess, u)\<rbrakk> \<Longrightarrow> sched_reach s u"

lemma do_act_ok:
  assumes "running s p" and "legal_act a s"
  shows "\<exists>m t. do_act a s = Inr (m, t) \<and> (m = InProcess \<longrightarrow> (\<exists>q. running t q))"
proof (cases a)
  case Yield
  then show ?thesis using yield_turn_ok [OF assms(1) refl] by auto
next
  case Exit
  then have "own_id s p" using assms by (simp add: running_def)
  from exit_turn_ok [OF assms(1) this] show ?thesis using Exit by (auto split: option.splits)
next
  case (New e)
  then show ?thesis using new_env_ok [OF assms(1), of e] assms by (auto simp: running_def)
next
  case (Run i)
  then show ?thesis using run_env_ok [OF assms(1), of i] assms(2) by auto
next
  case (SetPriority i prio)
  then obtain e where "names_env s i e" "own_id s e" "env_fit s e" "0 \<le> prio" "nat prio < length (env_ready_queues s)"
    using assms(2) by (auto simp: Let_def)
  then obtain t where "env_set_priority i prio s = Inr t" "running t p" using set_priority_ok [OF assms(1)] by blast
  then show ?thesis using SetPriority by auto
qed

lemma reach_running: "\<lbrakk>sched_reach s t; running s p\<rbrakk> \<Longrightarrow> \<exists>q. running t q"
  by (induction rule: sched_reach.induct) (use do_act_ok in fastforce)+

text \<open>Claim C7.  The scheduler is safe: whatever sequence of legal requests (yield, exit, create, launch,
  change a priority) the running processes make, in every state it leads to the CPU runs exactly one
  process, every process is in at most one queue and that queue matches its status and its priority,
  the queue lock is free, and no request that is legal there can panic, spin or fault.\<close>

theorem scheduler_safe:
  assumes "running s p" and "sched_reach s t"
  shows "(\<exists>q. running t q) \<and> (\<forall>a. legal_act a t \<longrightarrow> (\<exists>m u. do_act a t = Inr (m, u)))"
  using reach_running [OF assms(2,1)] do_act_ok by blast

section \<open>Ageing\<close>

definition starving :: "'a psched_scheme \<Rightarrow> nat \<Rightarrow> bool" where
  "starving s e \<longleftrightarrow> starvation_threshold s < samawaiting_ticks (envs s e)"













lemma age_queue_fault:
  "\<lbrakk>env_ready_queues s ! 0 = old @ es; 0 < length (env_ready_queues s); distinct (old @ es);
    \<And>e. e \<in> set es \<Longrightarrow> priority (envs s e) = 0; \<exists>e \<in> set es. starving s e\<rbrakk> \<Longrightarrow> age_queue 0 es s = Inl Fault"
proof (induction es arbitrary: s old)
  case (Cons e es)
  show ?case
  proof (cases "starving s e")
    case True
    have "e \<in> set (env_ready_queues s ! 0)" using Cons.prems(1) by simp
    then show ?thesis
      using True Cons.prems(2) Cons.prems(4) [of e]
      by (simp add: starving_def ready_take_def queue_take_def ready_put_def Let_def upd_env_def)
  next
    case False
    let ?u = "upd_env e (\<lambda>v. v\<lparr>samawaiting_ticks := samawaiting_ticks v + 1\<rparr>) s"
    have ne: "x \<noteq> e" if "x \<in> set es" for x using that Cons.prems(3) by auto
    have "age_queue 0 es ?u = Inl Fault"
    proof (rule Cons.IH [of _ "old @ [e]"])
      show "priority (envs ?u x) = 0" if "x \<in> set es" for x using Cons.prems(4) [of x] that ne [OF that] by (simp add: upd_env_def)
      obtain x where "x \<in> set es" "starving s x" using Cons.prems(5) False by auto
      then show "\<exists>x \<in> set es. starving ?u x" using ne by (auto simp: starving_def upd_env_def)
    qed (use Cons.prems(1-3) in \<open>simp_all add: upd_env_def\<close>)
    then show ?thesis using False by (simp add: starving_def)
  qed
qed simp

text \<open>A process of the highest priority that waits longer than the starvation threshold makes
  the next clock interrupt write outside the array of ready queues: it is promoted to queue -1.\<close>

theorem clock_promotes_past_queue_zero:
  assumes "config_ok s" and "queues_ok s" and "scheduler_method s = SCH_PRIRR"
    and "e \<in> set (env_ready_queues s ! 0)" and "starving s e"
  shows "clock_interrupt_handler s = Inl Fault"
proof -
  have n: "unat (num_of_ready_queues s) = length (env_ready_queues s)" "0 < length (env_ready_queues s)"
    using assms(1) unfolding config_ok_def by metis+
  have "age_queue 0 (env_ready_queues s ! 0) s = Inl Fault"
  proof (rule age_queue_fault [of _ "[]"])
    show "distinct ([] @ env_ready_queues s ! 0)"
      using queues_okD(1) [OF assms(2)] n(2) by (auto simp: queued_def distinct_concat_iff)
    show "priority (envs s x) = 0" if "x \<in> set (env_ready_queues s ! 0)" for x using queues_okD(4) [OF assms(2) n(2) that] by simp
  qed (use n(2) assms(4,5) in auto)
  moreover have "[0 ..< unat (num_of_ready_queues s)] = 0 # [1 ..< unat (num_of_ready_queues s)]"
    using n by (simp add: upt_conv_Cons)
  ultimately show ?thesis using n(2) assms(3) by (simp add: clock_interrupt_handler_def)
qed

section \<open>Misuse that panics\<close>

text \<open>Changing the priority of a process that does not exist panics: the error path releases the
  queue lock, which nobody has acquired.\<close>

theorem set_priority_of_missing_env_panics:
  assumes "freeq s" and "envID \<noteq> 0"
    and "env_status (envs s (ENVX (nenv s) envID)) = ENV_FREE \<or> \<not> env_id (envs s (ENVX (nenv s) envID)) = envID"
  shows "env_set_priority envID prio s = Inl (Panic ''release: lock is either not held or held by another CPU!'')"
proof -
  have "envid2env envID False s = Inr (E_BAD_ENV, None, s)" using assms(2,3) by (auto simp: envid2env_def Let_def)
  moreover have "qlock_release s = Inl (Panic ''release: lock is either not held or held by another CPU!'')"
    using assms(1) freeq_cpu [OF assms(1)] by (simp add: qlock_release_def freeq_def release_not_held held_by_def unlocked_def)
  ultimately show ?thesis by (simp add: env_set_priority_def)
qed

lemma exit_new_loop_one:
  assumes "holdq s" and "config_ok s" and "queues_ok s" and "set es \<subseteq> set (env_new_queue s)" and "e \<in> set es"
    and "\<And>x. x \<in> set (env_new_queue s) \<Longrightarrow> env_id (envs s x) = envId \<longleftrightarrow> x = e" and "distinct es"
  shows "\<exists>t. exit_new_loop es envId found s = Inr (True, t) \<and> holdq t \<and> cpu_proc t = cpu_proc s"
  using assms(4,5,7)
proof (induction es arbitrary: found)
  case (Cons x es)
  show ?case
  proof (cases "x = e")
    case True
    obtain t where t: "sched_remove_new (Some e) s = Inr t" "holdq t" "cpu_proc t = cpu_proc s" "\<forall>y. y \<noteq> e \<longrightarrow> envs t y = envs s y"
      using remove_new_ok [OF assms(1-3), of e] Cons.prems True by auto
    have "env_id (envs t y) \<noteq> envId" if "y \<in> set es" for y
    proof -
      have "y \<noteq> e" using that Cons.prems(3) True by auto
      then show ?thesis using t(4) assms(6) [of y] that Cons.prems(1) by auto
    qed
    then have "exit_new_loop es envId True t = Inr (True, t)" by (rule exit_new_loop_none)
    then show ?thesis using t True assms(6) [of e] Cons.prems by auto
  next
    case False
    then show ?thesis using Cons assms(6) [of x] by auto
  qed
qed simp

text \<open>Exiting a process that has been created but not yet launched fails an assertion: the loop
  over the new queue goes on after it has found the process and passes a null pointer on.\<close>

theorem exit_of_new_env_panics:
  assumes "running s p" and "e \<in> set (env_new_queue s)" and "own_id s e"
  shows "sched_exit_env (env_id (envs s e)) s = Inl (Panic ''assertion failed'')"
proof -
  note l = locked_ok [OF assms(1)]
  have r: "freeq s" "queues_ok s" "cpu_proc s = Some p" using assms(1) by (auto simp: running_def)
  have "distinct (env_new_queue s)" using queues_okD(1) [OF r(2)] by (simp add: queued_def)
  moreover have "env_id (envs s x) = env_id (envs s e) \<longleftrightarrow> x = e" if "x \<in> set (env_new_queue s)" for x
    using assms(3) that by (auto simp: own_id_def queued_def)
  ultimately obtain t where t: "exit_new_loop (env_new_queue s) (env_id (envs s e)) False (locked_q s) = Inr (True, t)"
    "holdq t" "cpu_proc t = Some p"
    using exit_new_loop_one [OF l(2-4), of "env_new_queue s" e "env_id (envs s e)" False] assms(2) r(3) by auto
  then have "sched_insert_exit None t = Inl (Panic ''assertion failed'')" by (simp add: sched_insert_exit_def need_qlock_held)
  then show ?thesis
    using r t by (simp add: sched_exit_env_def qlock_holding_free l(1) cpu_env_held)
qed

section \<open>A concrete scheduler\<close>

definition ex_env :: "nat \<Rightarrow> u32 \<Rightarrow> int \<Rightarrow> u32 \<Rightarrow> Env" where
  "ex_env i st pr wait = \<lparr>env_id = word_of_nat (4096 + i), env_parent_id = 0, env_status = st, priority = pr,
     samawaiting_ticks = wait, env_page_directory = 0xF0100000, initNumStackPages = 1, kstack = 0xF6100000,
     disk_env_pgdir = 0, disk_env_pgdir_PA = 0, disk_env_tabledir = 0, disk_env_tabledir_PA = 0, page_WS_max_size = 10,
     page_WS_list = [], page_last_WS_element = 0, referenceStreamList = [], ActiveWorkingSet = [], ptr_tws = [],
     ActiveList = [], SecondList = [], pageFaultsCounter = 0, tableFaultsCounter = 0, nPageIn = 0, nPageOut = 0,
     nNewPageAdded = 0, nClocks = 0,
     k_intena = True, k_started = False\<rparr>"

text \<open>Four queues' worth of processes: 1 runs, 2 to 5 are ready, 6 is new.\<close>

definition ex_envs :: "int \<Rightarrow> nat \<Rightarrow> Env" where
  "ex_envs hi i = (if i = 1 then ex_env 1 ENV_RUNNING hi 0 else if i = 2 then ex_env 2 ENV_READY hi 1
     else if i = 3 then ex_env 3 ENV_READY hi 20 else if i = 6 then ex_env 6 ENV_NEW 0 0 else ex_env i ENV_FREE 0 0)"

definition sched_example :: "u32 \<Rightarrow> nat list list \<Rightarrow> int \<Rightarrow> psched" where
  "sched_example method qs hi = kheap.extend heap_example (psched.fields (Some 1) 1 unlocked (ex_envs hi) 64 [6] [] qs
     0xF6000000 (map (\<lambda>_. 10) qs) 0xF6000100 (word_of_nat (length qs)) method 10 0 10
     (\<lambda>_. \<lparr>virtual_address = 0, ws_empty = 0, time_stamp = 0, sweeps_counter = 0\<rparr>) 3 0)"

definition rr_example :: psched where "rr_example = sched_example SCH_RR [[3, 2]] 0"
definition prirr_example :: psched where "prirr_example = sched_example SCH_PRIRR [[], [3, 2]] 1"

lemma sched_example_fields [simp]:
  "kcpu (sched_example m qs hi) = kcpu heap_example" "qlock (sched_example m qs hi) = unlocked"
  "cpu_proc (sched_example m qs hi) = Some 1" "envs (sched_example m qs hi) = ex_envs hi"
  "env_new_queue (sched_example m qs hi) = [6]" "env_exit_queue (sched_example m qs hi) = []"
  "env_ready_queues (sched_example m qs hi) = qs" "quantums (sched_example m qs hi) = map (\<lambda>_. 10) qs"
  "num_of_ready_queues (sched_example m qs hi) = word_of_nat (length qs)" "scheduler_method (sched_example m qs hi) = m"
  "EnableBuffering (sched_example m qs hi) = 0" "scheduler_status (sched_example m qs hi) = 1" "nenv (sched_example m qs hi) = 64"
  "starvation_threshold (sched_example m qs hi) = 10"
  by (simp_all add: sched_example_def kheap.defs psched.defs)

lemma freeq_example: "freeq (sched_example m qs hi)"
  by (simp add: freeq_def heap_example_def)

lemma rr_example_running: "running rr_example 1"
  by (auto simp: rr_example_def running_def freeq_example config_ok_def queues_ok_def queued_def env_fit_def ex_envs_def ex_env_def)

lemma prirr_example_running: "running prirr_example 1"
  by (auto simp: prirr_example_def running_def freeq_example config_ok_def queues_ok_def queued_def env_fit_def ex_envs_def
      ex_env_def less_Suc_eq)

theorem yield_runs_highest_priority_witness:
  "\<exists>e t. yield_turn prirr_example = Inr (InProcess, t) \<and> running t e
    \<and> insert e (ready_envs t) = {1, 2, 3} \<and> priority (envs prirr_example e) \<le> 1"
proof -
  have "insert 1 (ready_envs prirr_example) = {1, 2, 3}" "priority (envs prirr_example 1) = 1"
    by (auto simp: prirr_example_def ready_envs_def ex_envs_def ex_env_def)
  then show ?thesis using yield_runs_highest_priority [OF prirr_example_running] by (metis insertI1)
qed

theorem round_robin_progress_witness:
  "\<exists>k t u. k \<le> 2 \<and> yields k rr_example = Inr (InProcess, t) \<and> running t 3
    \<and> yields 3 rr_example = Inr (InProcess, u) \<and> running u 1 \<and> env_ready_queues u = [[3, 2]]"
proof -
  have "env_ready_queues rr_example = [[3, 2]]" by (simp add: rr_example_def)
  from round_robin_progress [OF rr_example_running this, of 3] show ?thesis by (simp add: numeral_3_eq_3 numeral_2_eq_2)
qed

theorem exit_turn_spec_witness:
  "\<exists>t. exit_turn rr_example = Inr (InProcess, t) \<and> running t 2 \<and> 1 \<in> set (env_exit_queue t) \<and> env_ready_queues t = [[3]]"
proof -
  have "own_id rr_example 1" by (auto simp: own_id_def rr_example_def queued_def ex_envs_def ex_env_def)
  from exit_turn_spec [OF rr_example_running this] show ?thesis by (simp add: rr_example_def top_queue_def)
qed

theorem scheduler_safe_witness:
  "\<exists>q. running prirr_example q \<and> (\<exists>m u. do_act Yield prirr_example = Inr (m, u))"
  using scheduler_safe [OF prirr_example_running sched_reach.start] legal_act.simps(1) by blast


theorem clock_promotes_past_queue_zero_witness:
  "clock_interrupt_handler (sched_example SCH_PRIRR [[3, 2]] 0) = Inl Fault"
proof (rule clock_promotes_past_queue_zero)
  show "config_ok (sched_example SCH_PRIRR [[3, 2]] 0)" by (simp add: config_ok_def)
  show "queues_ok (sched_example SCH_PRIRR [[3, 2]] 0)"
    by (auto simp: queues_ok_def queued_def env_fit_def ex_envs_def ex_env_def)
  show "starving (sched_example SCH_PRIRR [[3, 2]] 0) 3" by (simp add: starving_def ex_envs_def ex_env_def)
qed simp_all

theorem set_priority_of_missing_env_panics_witness:
  "env_set_priority 9 1 rr_example = Inl (Panic ''release: lock is either not held or held by another CPU!'')"
  by (rule set_priority_of_missing_env_panics)
    (simp_all add: rr_example_def freeq_example ENVX_def nearest_pow2_ceil_def ex_envs_def ex_env_def)

theorem exit_of_new_env_panics_witness: "sched_exit_env 4102 rr_example = Inl (Panic ''assertion failed'')"
proof -
  have "own_id rr_example 6" by (auto simp: own_id_def rr_example_def queued_def ex_envs_def ex_env_def)
  from exit_of_new_env_panics [OF rr_example_running _ this] show ?thesis
    by (simp add: rr_example_def ex_envs_def ex_env_def)
qed

end
