(* ===== verification/FOS_Conc.thy ===== *)
theory FOS_Conc
  imports FOS_SchedTurn
begin

text \<open>
  Blocking synchronisation: the channels of \<^verbatim>\<open>kern/conc/channel.c\<close>, the sleep locks of
  \<^verbatim>\<open>kern/conc/sleeplock.c\<close> and the kernel semaphores of \<^verbatim>\<open>kern/conc/ksemaphore.c\<close>.  A channel is the
  queue of the processes that sleep on it.  A call that blocks is cut at its context switch: the
  part before it leaves the caller blocked in the channel and ends in \<open>Switches\<close>; the part after it
  is a second definition, run when the process is dispatched again.  The loop of
  \<open>acquire_sleeplock\<close> is cut the same way: every round starts at \<open>acquire_sleeplock_loop\<close>.  Names of
  locks and channels are debugging output and not modelled.
\<close>

section \<open>Channels\<close>

record sleeplock =
  sl_locked :: bool
  sl_lk :: kspinlock
  sl_chan :: "nat list"
  sl_pid :: u32

record ksemaphore =
  ks_count :: int
  ks_lk :: kspinlock
  ks_chan :: "nat list"

definition init_channel :: "nat list" where
  "init_channel = init_queue"

definition lk_acquire :: "kspinlock \<Rightarrow> 'a psched_scheme \<Rightarrow> (kspinlock \<times> 'a psched_scheme) res" where
  "lk_acquire lk s = bindE (acquire_kspinlock (kcpu s, lk)) (\<lambda>(c, lk1). Inr (lk1, s\<lparr>kcpu := c\<rparr>))"

definition lk_release :: "kspinlock \<Rightarrow> 'a psched_scheme \<Rightarrow> (kspinlock \<times> 'a psched_scheme) res" where
  "lk_release lk s = bindE (release_kspinlock (kcpu s, lk)) (\<lambda>(c, lk1). Inr (lk1, s\<lparr>kcpu := c\<rparr>))"

definition cur_deref :: "'a psched_scheme \<Rightarrow> (nat \<times> 'a psched_scheme) res" where
  \<comment> \<open>\<open>get_cpu_proc()\<close> with a field access\<close>
  "cur_deref s = bindE (get_cpu_proc s) (\<lambda>(p, s1). case p of None \<Rightarrow> Inl Fault | Some e \<Rightarrow> Inr (e, s1))"

definition sleep_enter ::
  "nat list \<Rightarrow> kspinlock \<Rightarrow> 'a psched_scheme \<Rightarrow> (nat list \<times> kspinlock \<times> 'a psched_scheme) res" where
  "sleep_enter chan lk s = bindE (qlock_acquire s) (\<lambda>s1. bindE (lk_release lk s1) (\<lambda>(lk1, s2).
     bindE (cur_deref s2) (\<lambda>(p, s3). bindE (get_cpu_proc (set_status p ENV_BLOCKED s3)) (\<lambda>(q, s4).
     bindE (sched_enter s4) (\<lambda>s5. Inr (enqueue chan q, lk1, s5))))))"

definition sleep_resume :: "nat \<Rightarrow> kspinlock \<Rightarrow> 'a psched_scheme \<Rightarrow> (kspinlock \<times> 'a psched_scheme) res" where
  "sleep_resume p lk s = bindE (lk_acquire lk (sched_resume p s)) (\<lambda>(lk1, s1).
     bindE (qlock_release s1) (\<lambda>s2. Inr (lk1, s2)))"


text \<open>The loop of \<open>wakeup_all\<close> dequeues until the channel is empty, once per element.\<close>

fun wakeup_loop :: "nat \<Rightarrow> nat list \<Rightarrow> 'a psched_scheme \<Rightarrow> (nat list \<times> 'a psched_scheme) res" where
  "wakeup_loop n chan s = (case dequeue chan of
     (None, chan1) \<Rightarrow> Inr (chan1, s)
   | (Some e, chan1) \<Rightarrow> (case n of 0 \<Rightarrow> Inl Spin
       | Suc m \<Rightarrow> bindE (sched_insert_ready (Some e) (set_status e ENV_READY s)) (wakeup_loop m chan1)))"

declare wakeup_loop.simps [simp del]

definition wakeup_all :: "nat list \<Rightarrow> 'a psched_scheme \<Rightarrow> (nat list \<times> 'a psched_scheme) res" where
  "wakeup_all chan s = bindE (qlock_acquire s) (\<lambda>s1.
     bindE (wakeup_loop (length chan) chan s1) (\<lambda>(chan1, s2).
     bindE (qlock_release s2) (\<lambda>s3. Inr (chan1, s3))))"

section \<open>Sleep locks\<close>

definition init_sleeplock :: "sleeplock \<Rightarrow> sleeplock" where
  "init_sleeplock l = l\<lparr>sl_chan := init_channel, sl_lk := init_kspinlock (sl_lk l), sl_locked := False, sl_pid := 0\<rparr>"

definition acquire_sleeplock_loop :: "sleeplock \<Rightarrow> 'a psched_scheme \<Rightarrow> (ending \<times> sleeplock \<times> 'a psched_scheme) res" where
  "acquire_sleeplock_loop l s =
     (if sl_locked l then
        bindE (sleep_enter (sl_chan l) (sl_lk l) s) (\<lambda>(ch, lk, s1). Inr (Switches, l\<lparr>sl_chan := ch, sl_lk := lk\<rparr>, s1))
      else bindE (cur_deref s) (\<lambda>(p, s1).
        bindE (lk_release (sl_lk l) s1) (\<lambda>(lk, s2).
        Inr (Returns, l\<lparr>sl_locked := True, sl_pid := env_id (envs s1 p), sl_lk := lk\<rparr>, s2))))"

definition acquire_sleeplock :: "sleeplock \<Rightarrow> 'a psched_scheme \<Rightarrow> (ending \<times> sleeplock \<times> 'a psched_scheme) res" where
  "acquire_sleeplock l s = bindE (lk_acquire (sl_lk l) s) (\<lambda>(lk, s1). acquire_sleeplock_loop (l\<lparr>sl_lk := lk\<rparr>) s1)"

definition acquire_sleeplock_resume :: "nat \<Rightarrow> sleeplock \<Rightarrow> 'a psched_scheme \<Rightarrow> (ending \<times> sleeplock \<times> 'a psched_scheme) res" where
  "acquire_sleeplock_resume p l s = bindE (sleep_resume p (sl_lk l) s) (\<lambda>(lk, s1). acquire_sleeplock_loop (l\<lparr>sl_lk := lk\<rparr>) s1)"

definition release_sleeplock :: "sleeplock \<Rightarrow> 'a psched_scheme \<Rightarrow> (sleeplock \<times> 'a psched_scheme) res" where
  "release_sleeplock l s = bindE (lk_acquire (sl_lk l) s) (\<lambda>(lk, s1).
     let l1 = l\<lparr>sl_lk := lk\<rparr> in
     bindE (get_cpu_proc s1) (\<lambda>(x, s2).
     bindE (if sl_locked l1 then
              (case x of
                 None \<Rightarrow> Inl Fault
               | Some p \<Rightarrow>
                   if sl_pid l1 = env_id (envs s2 p) then
                     bindE (wakeup_all (sl_chan l1) s2) (\<lambda>(ch, s3). Inr (l1\<lparr>sl_pid := 0, sl_locked := False, sl_chan := ch\<rparr>, s3))
                   else Inr (l1, s2))
            else Inr (l1, s2)) (\<lambda>(l2, s4).
     bindE (lk_release (sl_lk l2) s4) (\<lambda>(lk2, s5). Inr (l2\<lparr>sl_lk := lk2\<rparr>, s5)))))"

definition holding_sleeplock :: "sleeplock \<Rightarrow> 'a psched_scheme \<Rightarrow> (bool \<times> sleeplock \<times> 'a psched_scheme) res" where
  "holding_sleeplock l s = bindE (lk_acquire (sl_lk l) s) (\<lambda>(lk, s1).
     bindE (if sl_locked l then bindE (cur_deref s1) (\<lambda>(p, s2). Inr (sl_pid l = env_id (envs s2 p), s2)) else Inr (False, s1)) (\<lambda>(r, s3).
     bindE (lk_release lk s3) (\<lambda>(lk1, s4). Inr (r, l\<lparr>sl_lk := lk1\<rparr>, s4))))"

section \<open>Semaphores\<close>

definition init_ksemaphore :: "int \<Rightarrow> ksemaphore \<Rightarrow> ksemaphore" where
  "init_ksemaphore v k = k\<lparr>ks_chan := init_channel, ks_lk := init_kspinlock (ks_lk k), ks_count := v\<rparr>"

definition wait_ksemaphore :: "ksemaphore \<Rightarrow> 'a psched_scheme \<Rightarrow> (ending \<times> ksemaphore \<times> 'a psched_scheme) res" where
  "wait_ksemaphore k s = bindE (lk_acquire (ks_lk k) s) (\<lambda>(lk, s1).
     let k1 = k\<lparr>ks_lk := lk, ks_count := ks_count k - 1\<rparr> in
     if ks_count k1 < 0 then
       bindE (sleep_enter (ks_chan k1) (ks_lk k1) s1) (\<lambda>(ch, lk1, s2). Inr (Switches, k1\<lparr>ks_chan := ch, ks_lk := lk1\<rparr>, s2))
     else bindE (lk_release (ks_lk k1) s1) (\<lambda>(lk1, s2). Inr (Returns, k1\<lparr>ks_lk := lk1\<rparr>, s2)))"

definition wait_ksemaphore_resume :: "nat \<Rightarrow> ksemaphore \<Rightarrow> 'a psched_scheme \<Rightarrow> (ksemaphore \<times> 'a psched_scheme) res" where
  "wait_ksemaphore_resume p k s = bindE (sleep_resume p (ks_lk k) s) (\<lambda>(lk, s1).
     bindE (lk_release lk s1) (\<lambda>(lk1, s2). Inr (k\<lparr>ks_lk := lk1\<rparr>, s2)))"


section \<open>Locks around the queue lock\<close>

lemma lk_acquire_unlocked: "freeq s \<Longrightarrow> lk_acquire unlocked s = Inr (held_lock (kcpu s), s\<lparr>kcpu := pushcli (kcpu s)\<rparr>)"
  using freeq_cpu [of s] by (simp add: lk_acquire_def acquire_unlocked)

lemma lk_release_held:
  "freeq s \<Longrightarrow> kcpu t = pushcli (kcpu s) \<Longrightarrow> lk_release (held_lock (kcpu s)) t = Inr (unlocked, t\<lparr>kcpu := kcpu s\<rparr>)"
  using freeq_cpu [of s] by (simp add: lk_release_def release_held_lock)

lemma held_lock_pushcli [simp]: "held_lock (pushcli c) = held_lock c"
  by (simp add: held_lock_def)

lemma popped_pushcli: "\<lbrakk>cpu_ok c; ncli c = 0\<rbrakk> \<Longrightarrow> popped (pushcli (pushcli c)) = pushcli c"
  by (cases c) (simp add: popped_def pushcli_def cli_def Let_def)

lemma lk_release_inner:
  assumes "freeq s" and "kcpu t = pushcli (pushcli (kcpu s))"
  shows "lk_release (held_lock (kcpu s)) t = Inr (unlocked, t\<lparr>kcpu := pushcli (kcpu s)\<rparr>)"
proof -
  have c: "cpu_ok (kcpu s)" "ncli (kcpu s) = 0" using freeq_cpu [OF assms(1)] assms(1) by (auto simp: freeq_def)
  then have "cpu_ok (pushcli (pushcli (kcpu s)))" by (simp add: pushcli_ok)
  then show ?thesis
    using assms(2) c by (simp add: lk_release_def release_held held_by_def held_lock_def popped_pushcli unlocked_def)
qed

lemma sleep_enter_eq:
  assumes "running s p" and "c = kcpu s"
  shows "sleep_enter chan (held_lock c) (s\<lparr>kcpu := pushcli c\<rparr>) = Inr (p # chan, unlocked,
    upd_env p (\<lambda>v. v\<lparr>k_intena := intena (pushcli c), k_started := True\<rparr>) (set_status p ENV_BLOCKED (locked_q s)))"
proof -
  have r: "freeq s" "cpu_proc s = Some p" using assms(1) by (auto simp: running_def)
  have c: "cpu_ok c" "qlock s = unlocked" using freeq_cpu [OF r(1)] r(1) assms(2) by (auto simp: freeq_def)
  let ?s1 = "s\<lparr>kcpu := pushcli (pushcli c), qlock := held_lock c\<rparr>"
  let ?b = "set_status p ENV_BLOCKED (locked_q s)"
  have a: "qlock_acquire (s\<lparr>kcpu := pushcli c\<rparr>) = Inr ?s1"
    using c by (simp add: qlock_acquire_def acquire_unlocked pushcli_ok)
  have l: "lk_release (held_lock c) ?s1 = Inr (unlocked, locked_q s)"
    using lk_release_inner [OF r(1), of ?s1] assms(2) by (simp add: locked_q_def)
  have h: "holdq (locked_q s)" "holdq ?b" using holdq_locked [OF r(1)] by simp_all
  then have n: "ncli (kcpu (locked_q s)) = 1" "\<not> int_flag (kcpu (locked_q s))" by (auto simp: holdq_def)
  have k: "kcpu ?b = kcpu (locked_q s)" "cpu_proc ?b = Some p" "env_status (envs ?b p) = ENV_BLOCKED"
    using r(2) by (simp_all add: set_status_def upd_env_def)
  have "sched_enter ?b = Inr (upd_env p (\<lambda>v. v\<lparr>k_intena := intena (kcpu ?b), k_started := True\<rparr>) ?b)"
    using h(2) k n by (simp add: sched_enter_def cpu_env_held need_qlock_held del: holdq_updates)
  moreover have "intena (kcpu ?b) = intena (pushcli c)" unfolding k(1) by (simp add: locked_q_def assms(2))
  ultimately show ?thesis
    using a l h k r(2) by (simp add: sleep_enter_def cur_deref_def get_cpu_proc_held enqueue_def del: holdq_updates)
qed

text \<open>Waking a sleeping process while another lock is held.\<close>

lemma need_qlock_inner: "\<lbrakk>cpu_ok c; kcpu s = pushcli (pushcli c); qlock s = held_lock c\<rbrakk> \<Longrightarrow> need_qlock s = Inr s"
  using pushcli_ok [of c] noted_pushcli [of "pushcli c"]
  by (simp add: need_qlock_def qlock_holding_def holding_kspinlock_eq pushcli_ok held_by_def held_lock_def)

lemma insert_ready_inner:
  assumes "need_qlock s = Inr s" and "0 \<le> priority (envs s e)" and "nat (priority (envs s e)) < length (env_ready_queues s)"
  shows "sched_insert_ready (Some e) s = Inr ((set_status e ENV_READY s)\<lparr>env_ready_queues := ready_with (Some e) s\<rparr>)"
  using assms by (simp add: sched_insert_ready_def ready_put_def set_status_def upd_env_def Let_def ready_with_def enqueue_def)

definition woken :: "nat \<Rightarrow> 'a psched_scheme \<Rightarrow> 'a psched_scheme" where
  "woken e s = (set_status e ENV_READY s)\<lparr>env_ready_queues := ready_with (Some e) s\<rparr>"

lemma woken_running:
  assumes "running s p" and "env_fit s e" and "e \<notin> set (queued s)" and "e \<noteq> p"
  shows "running (woken e s) p" and "ready_envs (woken e s) = insert e (ready_envs s)"
    and "envs (woken e s) x = (if x = e then (envs s e)\<lparr>env_status := ENV_READY\<rparr> else envs s x)"
    and "set (queued (woken e s)) = insert e (set (queued s))" and "env_fit (woken e s) = env_fit s"
proof -
  note l = locked_ok [OF assms(1)]
  have fit: "env_fit (woken e s) = env_fit s" by (rule ext) (simp add: env_fit_def woken_def set_status_def upd_env_def)
  obtain t where t: "sched_insert_ready (Some e) (locked_q s) = Inr t" "queues_ok t"
      "env_ready_queues t = ready_with (Some e) (locked_q s)" "envs t = (envs s)(e := (envs s e)\<lparr>env_status := ENV_READY\<rparr>)"
    using insert_ready_ok [OF l(2-4), of e] assms(2,3) l(5,6) by auto
  have q: "env_new_queue t = env_new_queue s" "env_exit_queue t = env_exit_queue s"
    using t(1) sched_insert_ready_held [OF l(2), of e] assms(2) by (auto simp: env_fit_def set_status_def upd_env_def)
  have w: "env_ready_queues t = ready_with (Some e) s" using t(3) by (simp add: ready_with_def)
  have "queues_ok (woken e s)"
    by (rule queues_ok_cong [OF t(2)])
      (use t(4) q w in \<open>auto simp: woken_def set_status_def upd_env_def env_fit_def\<close>)
  moreover have "config_ok (woken e s)"
    using assms(1) by (subst config_ok_cong [of _ s]) (simp_all add: running_def woken_def set_status_def upd_env_def)
  moreover have "freeq (woken e s)" using assms(1) by (simp add: running_def freeq_def woken_def set_status_def upd_env_def)
  ultimately show "running (woken e s) p"
    using assms(1,4) fit by (simp add: running_def) (simp add: woken_def set_status_def upd_env_def)
  have "nat (priority (envs s e)) < length (env_ready_queues s)" using assms(2) by (simp add: env_fit_def)
  from mset_concat_update [OF this, of "e # env_ready_queues s ! nat (priority (envs s e))"]
  have "mset (concat (ready_with (Some e) s)) = add_mset e (mset (concat (env_ready_queues s)))"
    by (simp add: ready_with_def Let_def)
  then have "set (concat (ready_with (Some e) s)) = insert e (set (concat (env_ready_queues s)))"
    using arg_cong [of _ _ set_mset] by (metis set_mset_add_mset_insert set_mset_mset)
  then show "ready_envs (woken e s) = insert e (ready_envs s)" "set (queued (woken e s)) = insert e (set (queued s))"
    by (auto simp: ready_envs_def queued_def woken_def set_status_def upd_env_def)
  show "envs (woken e s) x = (if x = e then (envs s e)\<lparr>env_status := ENV_READY\<rparr> else envs s x)"
    by (simp add: woken_def set_status_def upd_env_def)
  show "env_fit (woken e s) = env_fit s" by (rule fit)
qed

lemma qlock_release_inner:
  assumes "cpu_ok c" and "ncli c = 0" and "kcpu t = pushcli (pushcli c)" and "qlock t = held_lock c"
  shows "qlock_release t = Inr (t\<lparr>kcpu := pushcli c, qlock := unlocked\<rparr>)"
proof -
  have "cpu_ok (pushcli (pushcli c))" using assms(1) by (simp add: pushcli_ok)
  then show ?thesis
    using assms by (simp add: qlock_release_def release_held held_by_def held_lock_def popped_pushcli unlocked_def)
qed
section \<open>Semaphores\<close>

text \<open>The sleepers of a channel: blocked processes that are in no scheduler queue.\<close>

definition sleepers_ok :: "nat list \<Rightarrow> 'a psched_scheme \<Rightarrow> bool" where
  "sleepers_ok chan s \<longleftrightarrow> distinct chan
     \<and> (\<forall>e \<in> set chan. env_status (envs s e) = ENV_BLOCKED \<and> env_fit s e \<and> e \<notin> set (queued s))"

definition sem_ok :: "ksemaphore \<Rightarrow> 'a psched_scheme \<Rightarrow> bool" where
  "sem_ok k s \<longleftrightarrow> ks_lk k = unlocked \<and> length (ks_chan k) = nat (- ks_count k) \<and> sleepers_ok (ks_chan k) s"

lemma sleepers_not_running: "\<lbrakk>sleepers_ok chan s; running s p\<rbrakk> \<Longrightarrow> p \<notin> set chan"
  by (auto simp: sleepers_ok_def running_def)

lemma cpu_restored: "s\<lparr>kcpu := c, kcpu := kcpu s\<rparr> = s"
  by simp

definition slept :: "nat \<Rightarrow> 'a psched_scheme \<Rightarrow> 'a psched_scheme" where
  "slept p s = upd_env p (\<lambda>v. v\<lparr>k_intena := intena (pushcli (kcpu s)), k_started := True\<rparr>) (set_status p ENV_BLOCKED (locked_q s))"

lemma slept_ok:
  assumes "running s p" and "sleepers_ok chan s"
  shows "holdq (slept p s) \<and> config_ok (slept p s) \<and> queues_ok (slept p s) \<and> cpu_proc (slept p s) = Some p
    \<and> env_status (envs (slept p s) p) = ENV_BLOCKED \<and> sleepers_ok (p # chan) (slept p s)
    \<and> env_ready_queues (slept p s) = env_ready_queues s"
proof -
  let ?t = "slept p s"
  have r: "freeq s" "queues_ok s" "config_ok s" "cpu_proc s = Some p" "env_fit s p" using assms(1) by (auto simp: running_def)
  have fit: "env_fit ?t x = env_fit s x" for x by (simp add: env_fit_def slept_def set_status_def upd_env_def)
  have q: "queued ?t = queued s" by (simp add: queued_def slept_def set_status_def upd_env_def)
  note nq = running_not_queued [OF assms(1)]
  have "queues_ok ?t" by (rule queues_ok_cong [OF r(2)]) (use nq fit in \<open>auto simp: slept_def set_status_def upd_env_def\<close>)
  moreover have "config_ok ?t" using r(3) by (subst config_ok_cong [of _ s]) (simp_all add: slept_def set_status_def upd_env_def)
  moreover have "holdq ?t" using holdq_locked [OF r(1)] by (simp add: slept_def)
  moreover have "sleepers_ok (p # chan) ?t"
    using assms(2) sleepers_not_running [OF assms(2,1)] nq r(5) fit q
    by (auto simp: sleepers_ok_def) (auto simp: slept_def set_status_def upd_env_def)
  ultimately show ?thesis using r(4) by (simp add: slept_def set_status_def upd_env_def)
qed

text \<open>Waiting on a semaphore takes one unit: with a positive count the caller goes on, otherwise
  it is blocked at the head of the channel, in no scheduler queue, and the queue lock is held for
  the context switch.  Either way the number of sleepers stays the negated count (or zero), and the
  lock of the semaphore is free again.\<close>

theorem semaphore_wait_spec:
  assumes "running s p" and "sem_ok k s"
  shows "\<exists>d k1 t. wait_ksemaphore k s = Inr (d, k1, t) \<and> ks_count k1 = ks_count k - 1 \<and> sem_ok k1 t \<and> queues_ok t
    \<and> (if 0 < ks_count k then d = Returns \<and> t = s \<and> ks_chan k1 = ks_chan k
       else d = Switches \<and> ks_chan k1 = p # ks_chan k \<and> env_status (envs t p) = ENV_BLOCKED \<and> holdq t
         \<and> env_ready_queues t = env_ready_queues s)"
proof -
  have r: "freeq s" "queues_ok s" using assms(1) by (auto simp: running_def)
  have k: "ks_lk k = unlocked" "length (ks_chan k) = nat (- ks_count k)" "sleepers_ok (ks_chan k) s"
    using assms(2) by (auto simp: sem_ok_def)
  note a = lk_acquire_unlocked [OF r(1)]
  show ?thesis
  proof (cases "0 < ks_count k")
    case True
    then show ?thesis
      using k r(2) lk_release_held [OF r(1), of "s\<lparr>kcpu := pushcli (kcpu s)\<rparr>"]
      by (simp add: wait_ksemaphore_def a Let_def sem_ok_def)
  next
    case False
    note sl = slept_ok [OF assms(1) k(3)]
    have "wait_ksemaphore k s = Inr (Switches, k\<lparr>ks_lk := unlocked, ks_count := ks_count k - 1, ks_chan := p # ks_chan k\<rparr>, slept p s)"
      using False k(1) sleep_enter_eq [OF assms(1) refl, of "ks_chan k"]
      by (simp add: wait_ksemaphore_def a Let_def slept_def)
    moreover have "nat (1 - ks_count k) = Suc (nat (- ks_count k))" using False by simp
    ultimately show ?thesis using False k(2) sl by (simp add: sem_ok_def)
  qed
qed



section \<open>Sleep locks\<close>

definition sleeplock_ok :: "sleeplock \<Rightarrow> 'a psched_scheme \<Rightarrow> bool" where
  "sleeplock_ok l s \<longleftrightarrow> sl_lk l = unlocked \<and> sleepers_ok (sl_chan l) s"

text \<open>A sleep lock is exclusive: an acquisition returns exactly when the lock was free, and then
  the lock belongs to the caller; otherwise the owner stays the same and the caller is blocked in the
  channel of the lock, with the queue lock held for the context switch.\<close>

theorem sleeplock_acquire_spec:
  assumes "running s p" and "sleeplock_ok l s"
  shows "\<exists>d l1 t. acquire_sleeplock l s = Inr (d, l1, t) \<and> sl_locked l1 \<and> sleeplock_ok l1 t \<and> queues_ok t
    \<and> (if sl_locked l then d = Switches \<and> sl_pid l1 = sl_pid l \<and> sl_chan l1 = p # sl_chan l
         \<and> env_status (envs t p) = ENV_BLOCKED \<and> holdq t
       else d = Returns \<and> sl_pid l1 = env_id (envs s p) \<and> sl_chan l1 = sl_chan l \<and> t = s)"
proof -
  have r: "freeq s" "queues_ok s" "cpu_proc s = Some p" using assms(1) by (auto simp: running_def)
  have l: "sl_lk l = unlocked" "sleepers_ok (sl_chan l) s" using assms(2) by (auto simp: sleeplock_ok_def)
  note a = lk_acquire_unlocked [OF r(1)]
  show ?thesis
  proof (cases "sl_locked l")
    case True
    then show ?thesis
      using l(1) sleep_enter_eq [OF assms(1) refl, of "sl_chan l"] slept_ok [OF assms(1) l(2)]
      by (simp add: acquire_sleeplock_def a acquire_sleeplock_loop_def slept_def [symmetric] sleeplock_ok_def)
  next
    case False
    let ?s = "s\<lparr>kcpu := pushcli (kcpu s)\<rparr>"
    have "popcli (pushcli (pushcli (kcpu s))) = Inr (pushcli (kcpu s))"
      using freeq_cpu [OF r(1)] by (simp add: popcli_pushcli pushcli_ok)
    then have "cur_deref ?s = Inr (p, ?s)" using r(3) by (simp add: cur_deref_def get_cpu_proc_def)
    then show ?thesis
      using False l r lk_release_held [OF r(1), of ?s]
      by (simp add: acquire_sleeplock_def a acquire_sleeplock_loop_def sleeplock_ok_def)
  qed
qed

lemma woken_fit: "env_fit (woken e s) = env_fit s"
  by (rule ext) (simp add: env_fit_def woken_def set_status_def upd_env_def)

lemma wakeup_loop_eq:
  assumes "cpu_ok c" and "kcpu s = pushcli (pushcli c)" and "qlock s = held_lock c" and "\<forall>e \<in> set chan. env_fit s e"
  shows "wakeup_loop (length chan) chan s = Inr ([], fold woken (rev chan) s)"
  using assms(2-4)
proof (induction chan arbitrary: s rule: rev_induct)
  case Nil
  then show ?case by (simp add: wakeup_loop.simps dequeue_def)
next
  case (snoc e chan)
  let ?s = "set_status e ENV_READY s"
  have "need_qlock ?s = Inr ?s"
    using assms(1) snoc.prems(1,2) by (intro need_qlock_inner [of c]) (simp_all add: set_status_def upd_env_def)
  moreover have "0 \<le> priority (envs s e)" "nat (priority (envs s e)) < length (env_ready_queues s)"
    using snoc.prems(3) by (auto simp: env_fit_def)
  ultimately have "sched_insert_ready (Some e) ?s = Inr ((set_status e ENV_READY ?s)\<lparr>env_ready_queues := ready_with (Some e) ?s\<rparr>)"
    by (intro insert_ready_inner) (simp_all add: set_status_def upd_env_def)
  then have i: "sched_insert_ready (Some e) ?s = Inr (woken e s)"
    by (simp add: woken_def set_status_def upd_env_def ready_with_def)
  have "wakeup_loop (length chan) chan (woken e s) = Inr ([], fold woken (rev chan) (woken e s))"
    by (rule snoc.IH) (use snoc.prems woken_fit [of e s] in \<open>auto simp: woken_def set_status_def upd_env_def\<close>)
  then show ?case by (subst wakeup_loop.simps) (simp add: dequeue_def i)
qed

lemma woken_cpu: "woken e (s\<lparr>kcpu := a, qlock := b\<rparr>) = (woken e s)\<lparr>kcpu := a, qlock := b\<rparr>"
  by (simp add: woken_def set_status_def upd_env_def ready_with_def)

lemma fold_woken_cpu: "fold woken es (s\<lparr>kcpu := a, qlock := b\<rparr>) = (fold woken es s)\<lparr>kcpu := a, qlock := b\<rparr>"
  by (induction es arbitrary: s) (simp_all add: woken_cpu)

lemma fold_woken_running:
  assumes "running s p" and "sleepers_ok es s"
  shows "running (fold woken es s) p \<and> ready_envs (fold woken es s) = set es \<union> ready_envs s
    \<and> kcpu (fold woken es s) = kcpu s \<and> qlock (fold woken es s) = qlock s
    \<and> (\<forall>e. e \<notin> set es \<longrightarrow> envs (fold woken es s) e = envs s e)"
  using assms
proof (induction es arbitrary: s)
  case (Cons e es)
  have e: "env_fit s e" "e \<notin> set (queued s)" "e \<noteq> p" "e \<notin> set es"
    using Cons.prems(2) sleepers_not_running [OF Cons.prems(2,1)] by (auto simp: sleepers_ok_def)
  note w = woken_running [OF Cons.prems(1) e(1-3)]
  have "sleepers_ok es (woken e s)"
    using Cons.prems(2) e(4) by (auto simp: sleepers_ok_def w(3-5))
  from Cons.IH [OF w(1) this] show ?case using w(2,3) by (auto simp: woken_def set_status_def upd_env_def)
qed simp

text \<open>Releasing a sleep lock by its owner frees it, empties its channel and makes every process
  that slept on it ready, each in the queue of its priority; a release by a process that does not
  own the lock changes nothing.  The caller keeps running and nothing blocks or fails.\<close>

theorem sleeplock_release_spec:
  assumes "running s p" and "sleeplock_ok l s"
  shows "\<exists>l1 t. release_sleeplock l s = Inr (l1, t) \<and> running t p \<and> sl_lk l1 = unlocked
    \<and> (if sl_locked l \<and> sl_pid l = env_id (envs s p)
       then \<not> sl_locked l1 \<and> sl_chan l1 = [] \<and> ready_envs t = set (sl_chan l) \<union> ready_envs s
       else l1 = l \<and> t = s)"
proof -
  let ?c = "kcpu s"
  have r: "freeq s" "cpu_proc s = Some p" using assms(1) by (auto simp: running_def)
  have l: "sl_lk l = unlocked" "sleepers_ok (sl_chan l) s" using assms(2) by (auto simp: sleeplock_ok_def)
  have c: "cpu_ok ?c" "ncli ?c = 0" "qlock s = unlocked" using freeq_cpu [OF r(1)] r(1) by (auto simp: freeq_def)
  note a = lk_acquire_unlocked [OF r(1)]
  let ?s = "s\<lparr>kcpu := pushcli ?c\<rparr>"
  have "popcli (pushcli (pushcli ?c)) = Inr (pushcli ?c)" using c(1) by (simp add: popcli_pushcli pushcli_ok)
  then have g: "get_cpu_proc ?s = Inr (Some p, ?s)" using r(2) by (simp add: get_cpu_proc_def)
  show ?thesis
  proof (cases "sl_locked l \<and> sl_pid l = env_id (envs s p)")
    case False
    have "l\<lparr>sl_lk := unlocked\<rparr> = l" using l(1) by simp
    then show ?thesis
      using False l(1) assms(1) lk_release_held [OF r(1), of ?s]
      by (auto simp: release_sleeplock_def a g Let_def)
  next
    case True
    let ?es = "rev (sl_chan l)"
    let ?s1 = "s\<lparr>kcpu := pushcli (pushcli ?c), qlock := held_lock ?c\<rparr>"
    have es: "sleepers_ok ?es s" using l(2) by (simp add: sleepers_ok_def)
    note w = fold_woken_running [OF assms(1) es]
    have q: "qlock_acquire ?s = Inr ?s1" using c by (simp add: qlock_acquire_def acquire_unlocked pushcli_ok)
    have "\<forall>e \<in> set (sl_chan l). env_fit ?s1 e" using l(2) by (simp add: sleepers_ok_def env_fit_def)
    then have "wakeup_loop (length (sl_chan l)) (sl_chan l) ?s1 = Inr ([], fold woken ?es ?s1)"
      using c(1) by (intro wakeup_loop_eq [of ?c]) simp_all
    moreover have "qlock_release (fold woken ?es ?s1) = Inr ((fold woken ?es s)\<lparr>kcpu := pushcli ?c, qlock := unlocked\<rparr>)"
      using c(1,2) by (subst qlock_release_inner [of ?c]) (simp_all add: fold_woken_cpu)
    moreover have "(fold woken ?es s)\<lparr>kcpu := pushcli ?c, qlock := unlocked\<rparr> = (fold woken ?es s)\<lparr>kcpu := pushcli ?c\<rparr>"
      using w c(3) by simp
    ultimately have wk: "wakeup_all (sl_chan l) ?s = Inr ([], (fold woken ?es s)\<lparr>kcpu := pushcli ?c\<rparr>)"
      by (simp add: wakeup_all_def q)
    have "lk_release (held_lock ?c) ((fold woken ?es s)\<lparr>kcpu := pushcli ?c\<rparr>) = Inr (unlocked, fold woken ?es s)"
      using lk_release_held [OF r(1), of "(fold woken ?es s)\<lparr>kcpu := pushcli ?c\<rparr>"] w cpu_restored [of "fold woken ?es s" "pushcli ?c"] by simp
    then have "release_sleeplock l s = Inr (l\<lparr>sl_lk := unlocked, sl_pid := 0, sl_locked := False, sl_chan := []\<rparr>, fold woken ?es s)"
      using True l(1) wk by (simp add: release_sleeplock_def a g Let_def)
    then show ?thesis using True w by simp
  qed
qed

section \<open>Concrete states\<close>

definition conc_example :: psched where
  "conc_example = rr_example\<lparr>envs := (envs rr_example)(7 := ex_env 7 ENV_BLOCKED 0 0, 8 := ex_env 8 ENV_BLOCKED 0 0)\<rparr>"

lemma conc_example_running: "running conc_example 1"
  by (auto simp: conc_example_def rr_example_def running_def config_ok_def queues_ok_def queued_def env_fit_def ex_envs_def
      ex_env_def freeq_def heap_example_def)

lemma conc_example_sleepers: "sleepers_ok [8, 7] conc_example"
  by (auto simp: sleepers_ok_def conc_example_def rr_example_def env_fit_def queued_def ex_env_def)

definition sem_example :: ksemaphore where
  "sem_example = \<lparr>ks_count = - 2, ks_lk = unlocked, ks_chan = [8, 7]\<rparr>"

definition lock_example :: sleeplock where
  "lock_example = \<lparr>sl_locked = True, sl_lk = unlocked, sl_chan = [8, 7], sl_pid = 4097\<rparr>"

lemma sem_example_ok: "sem_ok sem_example conc_example"
  by (simp add: sem_ok_def sem_example_def conc_example_sleepers)

lemma lock_example_ok: "sleeplock_ok lock_example conc_example"
  by (simp add: sleeplock_ok_def lock_example_def conc_example_sleepers)

theorem semaphore_wait_spec_witness:
  "\<exists>d k1 t. wait_ksemaphore sem_example conc_example = Inr (d, k1, t) \<and> ks_count k1 = - 3 \<and> d = Switches \<and> ks_chan k1 = [1, 8, 7]"
  using semaphore_wait_spec [OF conc_example_running sem_example_ok] by (auto simp: sem_example_def)


theorem sleeplock_acquire_spec_witness:
  "\<exists>d l1 t. acquire_sleeplock lock_example conc_example = Inr (d, l1, t) \<and> d = Switches \<and> sl_pid l1 = 4097 \<and> sl_chan l1 = [1, 8, 7]"
  using sleeplock_acquire_spec [OF conc_example_running lock_example_ok] by (auto simp: lock_example_def)

theorem sleeplock_release_spec_witness:
  "\<exists>l1 t. release_sleeplock lock_example conc_example = Inr (l1, t) \<and> \<not> sl_locked l1 \<and> 7 \<in> ready_envs t \<and> 8 \<in> ready_envs t"
proof -
  have "env_id (envs conc_example 1) = 4097" by (simp add: conc_example_def rr_example_def ex_envs_def ex_env_def)
  then show ?thesis using sleeplock_release_spec [OF conc_example_running lock_example_ok] by (auto simp: lock_example_def)
qed

end
