(* ===== verification/FOS_Pagefile.thy ===== *)
theory FOS_Pagefile
  imports FOS_Sched
begin

text \<open>
  The page file: \<^verbatim>\<open>kern/disk/pagefile_manager.c\<close> over the disk driver \<^verbatim>\<open>lib/disk.c\<close>, in the
  configuration the repository builds (\<open>USE_KHEAP\<close>, \<open>PROGRAMMED_IO\<close>).

  The page file is an array of disk frames of eight sectors; a process finds the disk frame of a
  page through its own two-level disk directory, whose tables are pages of the kernel heap.  The
  drive is hardware: its state is the contents of the sectors (128 words each) and the set of
  sectors on which it reports an error.  Waiting for the drive to become ready is taken to end.
  Memory is read and written in words; a user address means that address in the current address
  space, as it does for the code.
\<close>

section \<open>State\<close>

abbreviation (input) PAGE_FILE_START_SECTOR :: u32 where "PAGE_FILE_START_SECTOR \<equiv> 40960"
abbreviation (input) SECTOR_PER_PAGE :: u32 where "SECTOR_PER_PAGE \<equiv> 8"
abbreviation (input) PAGES_PER_FILE :: nat where "PAGES_PER_FILE \<equiv> 133120"
abbreviation (input) E_NO_PAGE_FILE_SPACE :: u32 where "E_NO_PAGE_FILE_SPACE \<equiv> - 8"
abbreviation (input) E_PAGE_NOT_EXIST_IN_PF :: u32 where "E_PAGE_NOT_EXIST_IN_PF \<equiv> - 9"
abbreviation (input) E_TABLE_NOT_EXIST_IN_PF :: u32 where "E_TABLE_NOT_EXIST_IN_PF \<equiv> - 10"
abbreviation (input) E_NO_VM :: u32 where "E_NO_VM \<equiv> - 20"

text \<open>The size of a working-set element is 24 bytes, and the product in \<open>USER_PAGES_WS_MAX\<close> wraps
  around in 32 bits before it is divided.\<close>

definition USTACKBOTTOM :: u32 where
  "USTACKBOTTOM = ROUNDUP (USER_HEAP_MAX + 24 * USER_TOP div PAGE_SIZE) PAGE_SIZE"

definition user_heap_or_stack :: "u32 \<Rightarrow> bool" where
  "user_heap_or_stack va \<longleftrightarrow> (USER_HEAP_START \<le> va \<and> va < USER_HEAP_MAX) \<or> (USTACKBOTTOM \<le> va \<and> va < USTACKTOP)"

record pfile = psched +
  disk_free_frame_list :: "nat list"
  dfllock :: kspinlock
  disk_frames_info :: "nat \<Rightarrow> FrameInfo"
  sectors :: "nat \<Rightarrow> u32 list"
  drive_error :: "nat \<Rightarrow> bool"

section \<open>The disk driver\<close>

definition word_at :: "u32 \<Rightarrow> 'a kmem_scheme \<Rightarrow> u32" where
  "word_at a s = mem s (ROUNDDOWN a PAGE_SIZE) (unat (a mod PAGE_SIZE) div 4)"

definition set_word :: "u32 \<Rightarrow> u32 \<Rightarrow> 'a kmem_scheme \<Rightarrow> 'a kmem_scheme" where
  "set_word a v s = (let p = ROUNDDOWN a PAGE_SIZE
     in s\<lparr>mem := (mem s)(p := (mem s p)(unat (a mod PAGE_SIZE) div 4 := v))\<rparr>)"

fun insl :: "u32 \<Rightarrow> u32 list \<Rightarrow> 'a kmem_scheme \<Rightarrow> 'a kmem_scheme" where
  "insl dst [] s = s"
| "insl dst (w # ws) s = insl (dst + 4) ws (set_word dst w s)"

fun outsl :: "nat \<Rightarrow> u32 \<Rightarrow> 'a kmem_scheme \<Rightarrow> u32 list" where
  "outsl 0 src s = []"
| "outsl (Suc n) src s = word_at src s # outsl n (src + 4) s"

text \<open>The drive gets the low 28 bits of the sector number and counts on by itself.\<close>

fun ide_read_loop :: "nat \<Rightarrow> nat \<Rightarrow> u32 \<Rightarrow> 'a pfile_scheme \<Rightarrow> 'a pfile_scheme res" where
  "ide_read_loop 0 lba dst s = Inr s"
| "ide_read_loop (Suc n) lba dst s =
     (if drive_error s lba then Inl (Panic ''ERROR @ ide_wait_ready()'')
      else ide_read_loop n (lba + 1) (dst + 512) (insl dst (sectors s lba) s))"

definition ide_read :: "u32 \<Rightarrow> u32 \<Rightarrow> u32 \<Rightarrow> 'a pfile_scheme \<Rightarrow> (u32 \<times> 'a pfile_scheme) res" where
  "ide_read secno dst nsecs s =
     (if 256 < nsecs then Inl (Panic ''assertion failed'')
      else bindE (get_cpu_proc s) (\<lambda>(e, s1).
           bindE (ide_read_loop (unat nsecs) (unat (take_bit 28 secno)) dst s1) (\<lambda>s2. Inr (0, s2))))"

fun ide_write_loop :: "nat \<Rightarrow> nat \<Rightarrow> u32 \<Rightarrow> 'a pfile_scheme \<Rightarrow> 'a pfile_scheme res" where
  "ide_write_loop 0 lba src s = Inr s"
| "ide_write_loop (Suc n) lba src s =
     (if drive_error s lba then Inl (Panic ''ERROR @ ide_wait_ready()'')
      else ide_write_loop n (lba + 1) (src + 512) (s\<lparr>sectors := (sectors s)(lba := outsl 128 src s)\<rparr>))"

definition ide_write :: "u32 \<Rightarrow> u32 \<Rightarrow> u32 \<Rightarrow> 'a pfile_scheme \<Rightarrow> (u32 \<times> 'a pfile_scheme) res" where
  "ide_write secno src nsecs s =
     (if 256 < nsecs then Inl (Panic ''assertion failed'')
      else bindE (get_cpu_proc s) (\<lambda>(e, s1).
           bindE (ide_write_loop (unat nsecs) (unat (take_bit 28 secno)) src s1) (\<lambda>s2. Inr (0, s2))))"

definition read_disk_page :: "u32 \<Rightarrow> u32 \<Rightarrow> 'a pfile_scheme \<Rightarrow> (u32 \<times> 'a pfile_scheme) res" where
  "read_disk_page dfn va s = ide_read (PAGE_FILE_START_SECTOR + dfn * SECTOR_PER_PAGE) va SECTOR_PER_PAGE s"

definition write_disk_page :: "u32 \<Rightarrow> u32 \<Rightarrow> 'a pfile_scheme \<Rightarrow> (u32 \<times> 'a pfile_scheme) res" where
  "write_disk_page dfn va s =
     bindE (ide_write (PAGE_FILE_START_SECTOR + dfn * SECTOR_PER_PAGE) va SECTOR_PER_PAGE s) (\<lambda>(success, s1).
     if success \<noteq> 0 then Inl (Panic ''Error writing on disk'') else Inr (success, s1))"

section \<open>Disk frames\<close>

definition dfl_acquire :: "'a pfile_scheme \<Rightarrow> 'a pfile_scheme res" where
  "dfl_acquire s = bindE (acquire_kspinlock (kcpu s, dfllock s)) (\<lambda>(c, lk). Inr (s\<lparr>kcpu := c, dfllock := lk\<rparr>))"

definition dfl_release :: "'a pfile_scheme \<Rightarrow> 'a pfile_scheme res" where
  "dfl_release s = bindE (release_kspinlock (kcpu s, dfllock s)) (\<lambda>(c, lk). Inr (s\<lparr>kcpu := c, dfllock := lk\<rparr>))"

fun link_disk_frames :: "nat list \<Rightarrow> 'a pfile_scheme \<Rightarrow> 'a pfile_scheme" where
  "link_disk_frames [] s = s"
| "link_disk_frames (i # is) s =
     link_disk_frames is (s\<lparr>disk_frames_info := (disk_frames_info s)(i := null_frame_info),
                            disk_free_frame_list := i # disk_free_frame_list s\<rparr>)"

definition initialize_disk_page_file :: "'a pfile_scheme \<Rightarrow> 'a pfile_scheme" where
  "initialize_disk_page_file s =
     (let s1 = link_disk_frames [1 ..< PAGES_PER_FILE] (s\<lparr>disk_free_frame_list := []\<rparr>)
      in s1\<lparr>dfllock := init_kspinlock (dfllock s1)\<rparr>)"

definition to_disk_frame_number :: "nat \<Rightarrow> u32" where
  "to_disk_frame_number f = word_of_nat f"

text \<open>The result is the return code and the number stored through the argument.\<close>

definition allocate_disk_frame :: "u32 \<Rightarrow> 'a pfile_scheme \<Rightarrow> (u32 \<times> u32 \<times> 'a pfile_scheme) res" where
  "allocate_disk_frame dfn s = bindE (dfl_acquire s) (\<lambda>s1.
     let (ret, n, s2) =
       (case disk_free_frame_list s1 of
          [] \<Rightarrow> (E_NO_PAGE_FILE_SPACE, dfn, s1)
        | f # fs \<Rightarrow> (0, to_disk_frame_number f,
            s1\<lparr>disk_free_frame_list := fs, disk_frames_info := (disk_frames_info s1)(f := null_frame_info)\<rparr>))
     in bindE (dfl_release s2) (\<lambda>s3. Inr (ret, n, s3)))"

definition free_disk_frame :: "u32 \<Rightarrow> 'a pfile_scheme \<Rightarrow> 'a pfile_scheme res" where
  "free_disk_frame dfn s =
     (if dfn = 0 then Inr s
      else bindE (dfl_acquire s) (\<lambda>s1.
           if PAGES_PER_FILE \<le> unat dfn then Inl Fault
           else dfl_release (s1\<lparr>disk_free_frame_list := unat dfn # disk_free_frame_list s1\<rparr>)))"

definition pf_calculate_free_frames :: "'a pfile_scheme \<Rightarrow> (u32 \<times> 'a pfile_scheme) res" where
  "pf_calculate_free_frames s = bindE (dfl_acquire s) (\<lambda>s1.
     bindE (dfl_release s1) (\<lambda>s2. Inr (word_of_nat (length (disk_free_frame_list s1)), s2)))"

section \<open>The disk directory of a process\<close>

text \<open>The code passes the address of the field \<open>disk_env_pgdir\<close> itself, so the new directory is stored
  there even when the allocation fails.\<close>

definition get_disk_page_directory :: "nat \<Rightarrow> 'a pfile_scheme \<Rightarrow> (u32 \<times> 'a pfile_scheme) res" where
  "get_disk_page_directory e s =
     (if disk_env_pgdir (envs s e) = 0 then
        bindE (kmalloc PAGE_SIZE s) (\<lambda>(d, s1).
        let s2 = upd_env e (\<lambda>v. v\<lparr>disk_env_pgdir := d\<rparr>) s1
        in if d = 0 then Inr (E_NO_VM, s2)
           else bindE (kheap_physical_address d s2) (\<lambda>(pa, s3).
                Inr (0, clear_page d (upd_env e (\<lambda>v. v\<lparr>disk_env_pgdir_PA := pa\<rparr>) s3))))
      else Inr (0, s))"

definition get_disk_page_table :: "u32 \<Rightarrow> u32 \<Rightarrow> bool \<Rightarrow> 'a pfile_scheme \<Rightarrow> (u32 \<times> u32 \<times> 'a pfile_scheme) res" where
  "get_disk_page_table dir va create s = bindE (load dir (PDX va) s) (\<lambda>entry.
     bindE (table_pointer va entry s) (\<lambda>(p, s1).
     if entry = 0 then
       if create then
         bindE (kmalloc PAGE_SIZE s1) (\<lambda>(t, s2).
         if t = 0 then Inr (E_NO_VM, 0, s2)
         else bindE (kheap_physical_address t s2) (\<lambda>(pa, s3).
              bindE (store dir (PDX va) (CONSTRUCT_ENTRY pa PERM_PRESENT) s3) (\<lambda>s4.
              Inr (0, t, clear_page t s4))))
       else Inr (0, 0, s1)
     else Inr (0, p, s1)))"

text \<open>The common part of adding a page: find the disk frame of the page, allocating one if needed.\<close>

definition pf_slot :: "u32 \<Rightarrow> u32 \<Rightarrow> 'a pfile_scheme \<Rightarrow> (u32 \<times> u32 \<times> 'a pfile_scheme) res" where
  "pf_slot table va s = bindE (load table (PTX va) s) (\<lambda>dfn.
     if dfn = 0 then
       bindE (allocate_disk_frame dfn s) (\<lambda>(ret, n, s1).
       if ret = E_NO_PAGE_FILE_SPACE then Inr (ret, n, s1)
       else bindE (store table (PTX va) n s1) (\<lambda>s2. Inr (0, n, s2)))
     else Inr (0, dfn, s))"

section \<open>Pages of a process\<close>

definition pf_add_env_page :: "nat \<Rightarrow> u32 \<Rightarrow> u32 \<Rightarrow> 'a pfile_scheme \<Rightarrow> (u32 \<times> 'a pfile_scheme) res" where
  "pf_add_env_page e va dataSrc s =
     (if KERNEL_BASE \<le> va then Inl (Panic ''assertion failed'')
      else bindE (get_disk_page_directory e s) (\<lambda>(_, s1).
           bindE (get_disk_page_table (disk_env_pgdir (envs s1 e)) va True s1) (\<lambda>(_, table, s2).
           bindE (pf_slot table va s2) (\<lambda>(ret, dfn, s3).
           if ret = E_NO_PAGE_FILE_SPACE then Inr (E_NO_PAGE_FILE_SPACE, s3)
           else write_disk_page dfn dataSrc s3))))"

definition pf_add_empty_env_page :: "nat \<Rightarrow> u32 \<Rightarrow> u8 \<Rightarrow> 'a pfile_scheme \<Rightarrow> (u32 \<times> 'a pfile_scheme) res" where
  "pf_add_empty_env_page e va initializeByZero s =
     (if initializeByZero \<noteq> 0 then
        let s1 = (if USTACKBOTTOM < va \<and> va < USTACKTOP - initNumStackPages (envs s e) * PAGE_SIZE
                  then upd_env e (\<lambda>v. v\<lparr>nNewPageAdded := nNewPageAdded v + 1\<rparr>) s else s)
        in pf_add_env_page e va (KERNEL_BASE + PAGE_SIZE) s1
      else if KERNEL_BASE \<le> va then Inl (Panic ''assertion failed'')
      else bindE (get_disk_page_directory e s) (\<lambda>(_, s1).
           bindE (get_disk_page_table (disk_env_pgdir (envs s1 e)) va True s1) (\<lambda>(_, table, s2).
           bindE (pf_slot table va s2) (\<lambda>(ret, dfn, s3).
           if ret = E_NO_PAGE_FILE_SPACE then Inr (E_NO_PAGE_FILE_SPACE, s3) else Inr (0, s3)))))"

definition pf_missing :: "u32 \<Rightarrow> u32 \<Rightarrow> 'a pfile_scheme \<Rightarrow> bool" where
  "pf_missing table va s \<longleftrightarrow> table = 0 \<or> mem s table (unat (PTX va)) = 0"

definition pf_ensure :: "nat \<Rightarrow> u32 \<Rightarrow> u32 \<Rightarrow> 'a pfile_scheme \<Rightarrow> 'a pfile_scheme res" where
  "pf_ensure e table va s =
     (if pf_missing table va s then
        if user_heap_or_stack va then
          bindE (pf_add_empty_env_page e va 0 s) (\<lambda>(ret, s1).
          if ret = E_NO_PAGE_FILE_SPACE then Inl (Panic ''pf_update_env_page: attempt to add a new page, but page file out of space!'')
          else Inr (upd_env e (\<lambda>v. v\<lparr>nNewPageAdded := nNewPageAdded v + 1\<rparr>) s1))
        else Inl (Panic ''pf_update_env_page: Invalid Access - Attempt to add a new page to page file that's outside the USER HEAP and USER STACK!'')
      else Inr s)"

definition pf_write_back :: "nat \<Rightarrow> u32 \<Rightarrow> u32 \<Rightarrow> 'a pfile_scheme \<Rightarrow> (u32 \<times> 'a pfile_scheme) res" where
  "pf_write_back e va dfn s =
     bindE (get_page_table (env_page_directory (envs s e)) va s) (\<lambda>(_, table, s1).
     bindE (load table (PTX va) s1) (\<lambda>entry.
     let origPerms = entry AND 0xFFF in
     bindE (if origPerms AND PERM_PRESENT = 0 then store table (PTX va) (entry OR PERM_PRESENT) s1 else Inr s1) (\<lambda>s2.
     bindE (write_disk_page dfn (ROUNDDOWN va PAGE_SIZE) s2) (\<lambda>(ret, s3).
     bindE (load table (PTX va) s3) (\<lambda>entry3.
     bindE (store table (PTX va) (((entry3 AND 0xFFFFF000) OR origPerms) AND NOT PERM_MODIFIED) s3) (\<lambda>s4.
     Inr (ret, s4)))))))"

text \<open>The frame argument of \<open>pf_update_env_page\<close> is used in the other configuration only.\<close>

definition pf_update_env_page :: "nat \<Rightarrow> u32 \<Rightarrow> 'a pfile_scheme \<Rightarrow> (u32 \<times> 'a pfile_scheme) res" where
  "pf_update_env_page e va s =
     (if KERNEL_BASE \<le> va then Inl (Panic ''assertion failed'')
      else bindE (get_disk_page_directory e s) (\<lambda>(_, s1).
           bindE (get_disk_page_table (disk_env_pgdir (envs s1 e)) va False s1) (\<lambda>(_, table, s2).
           bindE (pf_ensure e table va s2) (\<lambda>s3.
           bindE (get_disk_page_table (disk_env_pgdir (envs s3 e)) va False s3) (\<lambda>(_, table2, s4).
           bindE (load table2 (PTX va) s4) (\<lambda>dfn.
           bindE (pf_write_back e va dfn s4) (\<lambda>(ret, s5).
           Inr (ret, upd_env e (\<lambda>v. v\<lparr>nPageOut := nPageOut v + 1\<rparr>) s5))))))))"

definition pf_read_env_page :: "nat \<Rightarrow> u32 \<Rightarrow> 'a pfile_scheme \<Rightarrow> (u32 \<times> 'a pfile_scheme) res" where
  "pf_read_env_page e vaddr s =
     (let va = ROUNDDOWN vaddr PAGE_SIZE in
      if disk_env_pgdir (envs s e) = 0 then Inr (E_PAGE_NOT_EXIST_IN_PF, s)
      else bindE (get_disk_page_table (disk_env_pgdir (envs s e)) va False s) (\<lambda>(_, table, s1).
           if table = 0 then Inr (E_PAGE_NOT_EXIST_IN_PF, s1)
           else bindE (load table (PTX va) s1) (\<lambda>dfn.
             if dfn = 0 then Inr (E_PAGE_NOT_EXIST_IN_PF, s1)
             else bindE (read_disk_page dfn va s1) (\<lambda>(disk_read_error, s2).
                  bindE (pt_set_page_permissions (env_page_directory (envs s2 e)) va 0 PERM_MODIFIED s2) (\<lambda>s3.
                  Inr (disk_read_error, upd_env e (\<lambda>v. v\<lparr>nPageIn := nPageIn v + 1\<rparr>) s3))))))"

definition pf_remove_env_page :: "nat \<Rightarrow> u32 \<Rightarrow> 'a pfile_scheme \<Rightarrow> 'a pfile_scheme res" where
  "pf_remove_env_page e va s =
     (if disk_env_pgdir (envs s e) = 0 then Inr s
      else bindE (get_disk_page_table (disk_env_pgdir (envs s e)) va False s) (\<lambda>(_, table, s1).
           if table = 0 then Inr s1
           else bindE (load table (PTX va) s1) (\<lambda>dfn.
                bindE (store table (PTX va) 0 s1) (\<lambda>s2.
                free_disk_frame dfn s2))))"

fun pf_free_entries :: "u32 list \<Rightarrow> u32 \<Rightarrow> 'a pfile_scheme \<Rightarrow> 'a pfile_scheme res" where
  "pf_free_entries [] pt s = Inr s"
| "pf_free_entries (i # is) pt s =
     bindE (load pt i s) (\<lambda>dfn.
     bindE (store pt i 0 s) (\<lambda>s1.
     bindE (free_disk_frame dfn s1) (\<lambda>s2.
     pf_free_entries is pt s2)))"

fun pf_free_tables :: "u32 list \<Rightarrow> u32 \<Rightarrow> 'a pfile_scheme \<Rightarrow> 'a pfile_scheme res" where
  "pf_free_tables [] dir s = Inr s"
| "pf_free_tables (pdeno # is) dir s =
     bindE (load dir pdeno s) (\<lambda>entry.
     if entry AND PERM_PRESENT = 0 then pf_free_tables is dir s
     else bindE (kheap_virtual_address (EXTRACT_ADDRESS entry) s) (\<lambda>(pt, s1).
          bindE (pf_free_entries (map word_of_nat [0 ..< 1024]) pt s1) (\<lambda>s2.
          bindE (store dir pdeno 0 s2) (\<lambda>s3.
          bindE (kfree pt s3) (\<lambda>s4.
          pf_free_tables is dir s4)))))"

section \<open>Page tables in the page file\<close>

definition get_disk_table_directory :: "nat \<Rightarrow> 'a pfile_scheme \<Rightarrow> (u32 \<times> 'a pfile_scheme) res" where
  "get_disk_table_directory e s =
     (if disk_env_tabledir (envs s e) = 0 then
        bindE (kmalloc PAGE_SIZE s) (\<lambda>(d, s1).
        let s2 = upd_env e (\<lambda>v. v\<lparr>disk_env_tabledir := d\<rparr>) s1
        in if d = 0 then Inr (E_NO_VM, s2)
           else bindE (kheap_physical_address d s2) (\<lambda>(pa, s3).
                Inr (0, clear_page d (upd_env e (\<lambda>v. v\<lparr>disk_env_tabledir_PA := pa\<rparr>) s3))))
      else Inr (0, s))"

definition pf_write_env_table :: "nat \<Rightarrow> u32 \<Rightarrow> u32 \<Rightarrow> 'a pfile_scheme \<Rightarrow> (u32 \<times> 'a pfile_scheme) res" where
  "pf_write_env_table e va tableKVirtualAddress s =
     (if KERNEL_BASE \<le> va then Inl (Panic ''assertion failed'')
      else bindE (get_disk_table_directory e s) (\<lambda>(_, s1).
           let dir = disk_env_tabledir (envs s1 e) in
           bindE (load dir (PDX va) s1) (\<lambda>dfn.
           bindE (if dfn = 0 then
                    bindE (allocate_disk_frame dfn s1) (\<lambda>(ret, n, s2).
                    if ret = E_NO_PAGE_FILE_SPACE then Inr (ret, n, s2)
                    else bindE (store dir (PDX va) n s2) (\<lambda>s3. Inr (0, n, s3)))
                  else Inr (0, dfn, s1)) (\<lambda>(ret, n, s4).
           if ret = E_NO_PAGE_FILE_SPACE then Inr (E_NO_PAGE_FILE_SPACE, s4)
           else write_disk_page n tableKVirtualAddress s4))))"

definition pf_read_env_table :: "nat \<Rightarrow> u32 \<Rightarrow> u32 \<Rightarrow> 'a pfile_scheme \<Rightarrow> (u32 \<times> 'a pfile_scheme) res" where
  "pf_read_env_table e va tableKVirtualAddress s =
     (let dir = disk_env_tabledir (envs s e) in
      if dir = 0 then Inr (E_TABLE_NOT_EXIST_IN_PF, s)
      else bindE (load dir (PDX va) s) (\<lambda>dfn.
           if dfn = 0 then Inr (E_TABLE_NOT_EXIST_IN_PF, s) else read_disk_page dfn tableKVirtualAddress s))"

definition pf_remove_env_all_tables :: "nat \<Rightarrow> 'a pfile_scheme \<Rightarrow> 'a pfile_scheme res" where
  "pf_remove_env_all_tables e s =
     (let dir = disk_env_tabledir (envs s e) in
      if dir = 0 then Inr s else pf_free_entries (map word_of_nat [0 ..< unat (PDX USER_TOP)]) dir s)"

definition pf_remove_env_table :: "nat \<Rightarrow> u32 \<Rightarrow> 'a pfile_scheme \<Rightarrow> 'a pfile_scheme res" where
  "pf_remove_env_table e va s =
     (let dir = disk_env_tabledir (envs s e) in
      if dir = 0 then Inr s else pf_free_entries [PDX va] dir s)"

section \<open>Counting and releasing the pages of a process\<close>

definition pf_free_env :: "nat \<Rightarrow> 'a pfile_scheme \<Rightarrow> 'a pfile_scheme res" where
  "pf_free_env e s =
     (let dir = disk_env_pgdir (envs s e) in
      bindE (pf_free_tables (map word_of_nat [0 ..< unat (PDX USER_TOP)]) dir s) (\<lambda>s1.
      bindE (kfree dir s1) (\<lambda>s2.
      let s3 = upd_env e (\<lambda>v. v\<lparr>disk_env_pgdir := 0, disk_env_pgdir_PA := 0\<rparr>) s2
      in if disk_env_tabledir (envs s3 e) = 0 then Inr s3
         else bindE (pf_remove_env_all_tables e s3) (\<lambda>s4.
              bindE (kfree (disk_env_tabledir (envs s4 e)) s4) (\<lambda>s5.
              Inr (upd_env e (\<lambda>v. v\<lparr>disk_env_tabledir := 0, disk_env_tabledir_PA := 0\<rparr>) s5))))))"

fun pf_count_entries :: "u32 list \<Rightarrow> u32 \<Rightarrow> u32 \<Rightarrow> 'a pfile_scheme \<Rightarrow> u32 res" where
  "pf_count_entries [] pt n s = Inr n"
| "pf_count_entries (i # is) pt n s =
     bindE (load pt i s) (\<lambda>dfn. pf_count_entries is pt (if dfn \<noteq> 0 then n + 1 else n) s)"

fun pf_count_tables :: "u32 list \<Rightarrow> u32 \<Rightarrow> u32 \<Rightarrow> 'a pfile_scheme \<Rightarrow> (u32 \<times> 'a pfile_scheme) res" where
  "pf_count_tables [] dir n s = Inr (n, s)"
| "pf_count_tables (i # is) dir n s =
     bindE (load dir i s) (\<lambda>entry.
     if entry AND PERM_PRESENT = 0 then pf_count_tables is dir n s
     else bindE (kheap_virtual_address (EXTRACT_ADDRESS entry) s) (\<lambda>(pt, s1).
          bindE (pf_count_entries (map word_of_nat [0 ..< 1024]) pt n s1) (\<lambda>m.
          pf_count_tables is dir m s1)))"

definition pf_calculate_allocated_pages :: "nat \<Rightarrow> 'a pfile_scheme \<Rightarrow> (u32 \<times> 'a pfile_scheme) res" where
  "pf_calculate_allocated_pages e s =
     pf_count_tables (map word_of_nat [0 ..< unat (PDX USER_TOP)]) (disk_env_pgdir (envs s e)) 0 s"

end
