(* ===== verification/FOS_WorkingSet.thy ===== *)
theory FOS_WorkingSet
  imports FOS_Pagefile
begin

text \<open>
  Working sets: \<^verbatim>\<open>kern/mem/working_set_manager.c\<close> and the settings of the page-replacement
  strategy at the head of \<^verbatim>\<open>kern/trap/fault_handler.c\<close>.

  A working-set element is named by its heap address and lives in \<open>wse_at\<close>; a list of elements is
  the list of their addresses.  The page-reference elements of the OPTIMAL strategy live in
  \<open>pageref_at\<close> in the same way.  Following the link of an element that is not in the list is a
  \<open>Fault\<close>.
\<close>

section \<open>State\<close>

abbreviation (input) PG_REP_LRU_LISTS_APPROX :: u32 where "PG_REP_LRU_LISTS_APPROX \<equiv> 2"
abbreviation (input) PG_REP_CLOCK :: u32 where "PG_REP_CLOCK \<equiv> 3"
abbreviation (input) PG_REP_FIFO :: u32 where "PG_REP_FIFO \<equiv> 4"
abbreviation (input) PG_REP_MODIFIEDCLOCK :: u32 where "PG_REP_MODIFIEDCLOCK \<equiv> 5"
abbreviation (input) PG_REP_NchanceCLOCK :: u32 where "PG_REP_NchanceCLOCK \<equiv> 6"
abbreviation (input) PG_REP_DYNAMIC_LOCAL :: u32 where "PG_REP_DYNAMIC_LOCAL \<equiv> 7"
abbreviation (input) PG_REP_OPTIMAL :: u32 where "PG_REP_OPTIMAL \<equiv> 8"
abbreviation (input) TWS_MAX_SIZE :: nat where "TWS_MAX_SIZE \<equiv> 50"
abbreviation (input) sizeof_WorkingSetElement :: u32 where "sizeof_WorkingSetElement \<equiv> 24"
abbreviation (input) sizeof_PageRefElement :: u32 where "sizeof_PageRefElement \<equiv> 12"

record pfault = pfile +
  pageref_at :: "u32 \<Rightarrow> u32"
  page_WS_max_sweeps :: int
  FASTNchanceCLOCK :: int
  EnableModifiedBuffer :: u32
  ModifiedBufferLength :: u32
  last_eip :: u32
  before_last_eip :: u32
  last_fault_va :: u32
  before_last_fault_va :: u32
  num_repeated_fault :: u8
  last_faulted_env :: "nat option"
  sched_stack :: u32

section \<open>Replacement strategy and buffering\<close>

definition setPageReplacmentAlgorithmLRU :: "u32 \<Rightarrow> 'a pfault_scheme \<Rightarrow> 'a pfault_scheme res" where
  "setPageReplacmentAlgorithmLRU LRU_TYPE s =
     (if LRU_TYPE = PG_REP_LRU_TIME_APPROX \<or> LRU_TYPE = PG_REP_LRU_LISTS_APPROX
      then Inr (s\<lparr>PageRepAlgoType := LRU_TYPE\<rparr>) else Inl (Panic ''assertion failed''))"

definition setPageReplacmentAlgorithmCLOCK :: "'a pfault_scheme \<Rightarrow> 'a pfault_scheme" where
  "setPageReplacmentAlgorithmCLOCK s = s\<lparr>PageRepAlgoType := PG_REP_CLOCK\<rparr>"

definition setPageReplacmentAlgorithmFIFO :: "'a pfault_scheme \<Rightarrow> 'a pfault_scheme" where
  "setPageReplacmentAlgorithmFIFO s = s\<lparr>PageRepAlgoType := PG_REP_FIFO\<rparr>"

definition setPageReplacmentAlgorithmModifiedCLOCK :: "'a pfault_scheme \<Rightarrow> 'a pfault_scheme" where
  "setPageReplacmentAlgorithmModifiedCLOCK s = s\<lparr>PageRepAlgoType := PG_REP_MODIFIEDCLOCK\<rparr>"

definition setPageReplacmentAlgorithmDynamicLocal :: "'a pfault_scheme \<Rightarrow> 'a pfault_scheme" where
  "setPageReplacmentAlgorithmDynamicLocal s = s\<lparr>PageRepAlgoType := PG_REP_DYNAMIC_LOCAL\<rparr>"

definition setPageReplacmentAlgorithmNchanceCLOCK :: "int \<Rightarrow> 'a pfault_scheme \<Rightarrow> 'a pfault_scheme" where
  "setPageReplacmentAlgorithmNchanceCLOCK PageWSMaxSweeps s =
     s\<lparr>PageRepAlgoType := PG_REP_NchanceCLOCK, page_WS_max_sweeps := PageWSMaxSweeps\<rparr>"

definition setFASTNchanceCLOCK :: "int \<Rightarrow> 'a pfault_scheme \<Rightarrow> 'a pfault_scheme" where
  "setFASTNchanceCLOCK fast s = s\<lparr>FASTNchanceCLOCK := fast\<rparr>"

definition setPageReplacmentAlgorithmOPTIMAL :: "'a pfault_scheme \<Rightarrow> 'a pfault_scheme" where
  "setPageReplacmentAlgorithmOPTIMAL s = s\<lparr>PageRepAlgoType := PG_REP_OPTIMAL\<rparr>"

definition isPageReplacmentAlgorithmLRU :: "u32 \<Rightarrow> 'a psched_scheme \<Rightarrow> u32" where
  "isPageReplacmentAlgorithmLRU LRU_TYPE s = (if PageRepAlgoType s = LRU_TYPE then 1 else 0)"

definition isPageReplacmentAlgorithmCLOCK :: "'a psched_scheme \<Rightarrow> u32" where
  "isPageReplacmentAlgorithmCLOCK s = (if PageRepAlgoType s = PG_REP_CLOCK then 1 else 0)"

definition isPageReplacmentAlgorithmFIFO :: "'a psched_scheme \<Rightarrow> u32" where
  "isPageReplacmentAlgorithmFIFO s = (if PageRepAlgoType s = PG_REP_FIFO then 1 else 0)"

definition isPageReplacmentAlgorithmModifiedCLOCK :: "'a psched_scheme \<Rightarrow> u32" where
  "isPageReplacmentAlgorithmModifiedCLOCK s = (if PageRepAlgoType s = PG_REP_MODIFIEDCLOCK then 1 else 0)"

definition isPageReplacmentAlgorithmDynamicLocal :: "'a psched_scheme \<Rightarrow> u32" where
  "isPageReplacmentAlgorithmDynamicLocal s = (if PageRepAlgoType s = PG_REP_DYNAMIC_LOCAL then 1 else 0)"

definition isPageReplacmentAlgorithmNchanceCLOCK :: "'a psched_scheme \<Rightarrow> u32" where
  "isPageReplacmentAlgorithmNchanceCLOCK s = (if PageRepAlgoType s = PG_REP_NchanceCLOCK then 1 else 0)"

definition isPageReplacmentAlgorithmOPTIMAL :: "'a psched_scheme \<Rightarrow> u32" where
  "isPageReplacmentAlgorithmOPTIMAL s = (if PageRepAlgoType s = PG_REP_OPTIMAL then 1 else 0)"

definition enableModifiedBuffer :: "u32 \<Rightarrow> 'a pfault_scheme \<Rightarrow> 'a pfault_scheme" where
  "enableModifiedBuffer enableIt s = s\<lparr>EnableModifiedBuffer := enableIt\<rparr>"

definition isModifiedBufferEnabled :: "'a pfault_scheme \<Rightarrow> u8" where
  "isModifiedBufferEnabled s = ucast (EnableModifiedBuffer s)"

definition enableBuffering :: "u32 \<Rightarrow> 'a pfault_scheme \<Rightarrow> 'a pfault_scheme" where
  "enableBuffering enableIt s = s\<lparr>EnableBuffering := enableIt\<rparr>"

definition setModifiedBufferLength :: "u32 \<Rightarrow> 'a pfault_scheme \<Rightarrow> 'a pfault_scheme" where
  "setModifiedBufferLength len s = s\<lparr>ModifiedBufferLength := len\<rparr>"

definition getModifiedBufferLength :: "'a pfault_scheme \<Rightarrow> u32" where
  "getModifiedBufferLength s = ModifiedBufferLength s"

definition fault_handler_init :: "'a pfault_scheme \<Rightarrow> 'a pfault_scheme" where
  "fault_handler_init s =
     setModifiedBufferLength 1000 (enableModifiedBuffer 0 (enableBuffering 0 (setPageReplacmentAlgorithmCLOCK s)))"

section \<open>Elements and lists\<close>

definition wse_va :: "'a psched_scheme \<Rightarrow> u32 \<Rightarrow> u32" where
  "wse_va s w = virtual_address (wse_at s w)"

definition upd_wse :: "u32 \<Rightarrow> (WorkingSetElement \<Rightarrow> WorkingSetElement) \<Rightarrow> 'a psched_scheme \<Rightarrow> 'a psched_scheme" where
  "upd_wse w f s = s\<lparr>wse_at := (wse_at s)(w := f (wse_at s w))\<rparr>"

definition same_page :: "u32 \<Rightarrow> u32 \<Rightarrow> bool" where
  "same_page a b \<longleftrightarrow> ROUNDDOWN a PAGE_SIZE = ROUNDDOWN b PAGE_SIZE"

definition LIST_FIRST :: "u32 list \<Rightarrow> u32" where
  "LIST_FIRST ws = (case ws of [] \<Rightarrow> 0 | w # _ \<Rightarrow> w)"

definition LIST_LAST :: "u32 list \<Rightarrow> u32" where
  "LIST_LAST ws = (if ws = [] then 0 else last ws)"

fun LIST_NEXT :: "u32 list \<Rightarrow> u32 \<Rightarrow> u32 res" where
  "LIST_NEXT [] w = Inl Fault"
| "LIST_NEXT (x # xs) w = (if x = w then Inr (LIST_FIRST xs) else LIST_NEXT xs w)"

definition ws_find :: "u32 \<Rightarrow> u32 list \<Rightarrow> 'a psched_scheme \<Rightarrow> u32 option" where
  "ws_find va ws s = find (\<lambda>w. same_page (wse_va s w) va) ws"

definition env_page_ws_list_create_element :: "u32 \<Rightarrow> 'a psched_scheme \<Rightarrow> (u32 \<times> 'a psched_scheme) res" where
  "env_page_ws_list_create_element va s =
     (if USER_TOP \<le> va then Inl (Panic ''assertion failed'')
      else bindE (kmalloc sizeof_WorkingSetElement s) (\<lambda>(w, s1).
           if w = 0 then Inl (Panic ''can't create a new WS element'')
           else Inr (w, upd_wse w (\<lambda>v. v\<lparr>virtual_address := ROUNDDOWN va PAGE_SIZE, sweeps_counter := 0, time_stamp := 0\<rparr>) s1)))"

definition ws_invalidate_active :: "nat \<Rightarrow> u32 \<Rightarrow> 'a psched_scheme \<Rightarrow> 'a psched_scheme res" where
  "ws_invalidate_active e w s =
     (let tmp = LIST_FIRST (SecondList (envs s e)); dir = env_page_directory (envs s e)
      in bindE (unmap_frame dir (wse_va s w) s) (\<lambda>s1.
         bindE (kfree w (upd_env e (\<lambda>v. v\<lparr>ActiveList := remove1 w (ActiveList v)\<rparr>) s1)) (\<lambda>s2.
         if tmp \<noteq> 0 then
           pt_set_page_permissions dir (wse_va s2 tmp) PERM_PRESENT 0
             (upd_env e (\<lambda>v. v\<lparr>SecondList := remove1 tmp (SecondList v), ActiveList := ActiveList v @ [tmp]\<rparr>) s2)
         else Inr s2)))"

definition env_page_ws_invalidate :: "nat \<Rightarrow> u32 \<Rightarrow> 'a psched_scheme \<Rightarrow> 'a psched_scheme res" where
  "env_page_ws_invalidate e va s =
     (let v = envs s e; dir = env_page_directory v in
      if isPageReplacmentAlgorithmLRU PG_REP_LRU_LISTS_APPROX s \<noteq> 0 then
        (case ws_find va (ActiveList v) s of
           Some w \<Rightarrow> ws_invalidate_active e w s
         | None \<Rightarrow>
            (case ws_find va (SecondList v) s of
               Some w \<Rightarrow> bindE (unmap_frame dir (wse_va s w) s) (\<lambda>s1.
                          kfree w (upd_env e (\<lambda>v. v\<lparr>SecondList := remove1 w (SecondList v)\<rparr>) s1))
             | None \<Rightarrow> Inr s))
      else
        (case ws_find va (page_WS_list v) s of
           Some w \<Rightarrow>
             bindE (unmap_frame dir (wse_va s w) s) (\<lambda>s1.
             bindE (LIST_NEXT (page_WS_list (envs s1 e)) w) (\<lambda>nxt.
             let s2 = (if page_last_WS_element (envs s1 e) = w
                       then upd_env e (\<lambda>v. v\<lparr>page_last_WS_element := nxt\<rparr>) s1 else s1)
             in kfree w (upd_env e (\<lambda>v. v\<lparr>page_WS_list := remove1 w (page_WS_list v)\<rparr>) s2)))
         | None \<Rightarrow> Inr s))"

section \<open>The table working set\<close>

text \<open>An array of 50 elements inside the environment.\<close>

definition PAGE_TABLE_SPAN :: u32 where "PAGE_TABLE_SPAN = PAGE_SIZE * 1024"

definition tws_get :: "nat \<Rightarrow> u32 \<Rightarrow> 'a psched_scheme \<Rightarrow> WorkingSetElement res" where
  "tws_get e i s = (if unat i < length (ptr_tws (envs s e)) then Inr (ptr_tws (envs s e) ! unat i) else Inl Fault)"

definition tws_set :: "nat \<Rightarrow> u32 \<Rightarrow> (WorkingSetElement \<Rightarrow> WorkingSetElement) \<Rightarrow> 'a psched_scheme \<Rightarrow> 'a psched_scheme res" where
  "tws_set e i f s = bindE (tws_get e i s) (\<lambda>w. Inr (upd_env e (\<lambda>v. v\<lparr>ptr_tws := (ptr_tws v)[unat i := f w]\<rparr>) s))"

definition env_table_ws_get_size :: "nat \<Rightarrow> 'a psched_scheme \<Rightarrow> u32" where
  "env_table_ws_get_size e s = word_of_nat (length (filter (\<lambda>w. ws_empty w = 0) (ptr_tws (envs s e))))"

definition env_table_ws_clear_entry :: "nat \<Rightarrow> u32 \<Rightarrow> 'a psched_scheme \<Rightarrow> 'a psched_scheme res" where
  "env_table_ws_clear_entry e i s =
     (if TWS_MAX_SIZE \<le> unat i then Inl (Panic ''assertion failed'')
      else tws_set e i (\<lambda>w. w\<lparr>virtual_address := 0, ws_empty := 1, time_stamp := 0\<rparr>) s)"

fun tws_invalidate_loop :: "nat list \<Rightarrow> nat \<Rightarrow> u32 \<Rightarrow> 'a psched_scheme \<Rightarrow> 'a psched_scheme res" where
  "tws_invalidate_loop [] e va s = Inr s"
| "tws_invalidate_loop (i # is) e va s =
     bindE (tws_get e (word_of_nat i) s) (\<lambda>w.
     if ROUNDDOWN (virtual_address w) PAGE_TABLE_SPAN = ROUNDDOWN va PAGE_TABLE_SPAN
     then env_table_ws_clear_entry e (word_of_nat i) s
     else tws_invalidate_loop is e va s)"

definition env_table_ws_invalidate :: "nat \<Rightarrow> u32 \<Rightarrow> 'a psched_scheme \<Rightarrow> 'a psched_scheme res" where
  "env_table_ws_invalidate e va s = tws_invalidate_loop [0 ..< TWS_MAX_SIZE] e va s"

definition env_table_ws_set_entry :: "nat \<Rightarrow> u32 \<Rightarrow> u32 \<Rightarrow> 'a psched_scheme \<Rightarrow> 'a psched_scheme res" where
  "env_table_ws_set_entry e i va s =
     (if TWS_MAX_SIZE \<le> unat i \<or> USER_TOP \<le> va then Inl (Panic ''assertion failed'')
      else tws_set e i (\<lambda>w. w\<lparr>virtual_address := ROUNDDOWN va PAGE_TABLE_SPAN, ws_empty := 0, time_stamp := 0\<rparr>) s)"

definition env_table_ws_get_virtual_address :: "nat \<Rightarrow> u32 \<Rightarrow> 'a psched_scheme \<Rightarrow> u32 res" where
  "env_table_ws_get_virtual_address e i s =
     (if TWS_MAX_SIZE \<le> unat i then Inl (Panic ''assertion failed'')
      else bindE (tws_get e i s) (\<lambda>w. Inr (ROUNDDOWN (virtual_address w) PAGE_TABLE_SPAN)))"

definition env_table_ws_get_time_stamp :: "nat \<Rightarrow> u32 \<Rightarrow> 'a psched_scheme \<Rightarrow> u32 res" where
  "env_table_ws_get_time_stamp e i s =
     (if TWS_MAX_SIZE \<le> unat i then Inl (Panic ''assertion failed'')
      else bindE (tws_get e i s) (\<lambda>w. Inr (time_stamp w)))"

definition env_table_ws_is_entry_empty :: "nat \<Rightarrow> u32 \<Rightarrow> 'a psched_scheme \<Rightarrow> u8 res" where
  "env_table_ws_is_entry_empty e i s = bindE (tws_get e i s) (\<lambda>w. Inr (ws_empty w))"

end
