(* ===== verification/FOS_Blocks.thy ===== *)
theory FOS_Blocks
  imports FOS_Kheap
begin

text \<open>
  Small allocations in a row.  \<open>heap_room n\<close> says that the kernel heap is consistent, its locks are
  free and there are frames and pages for \<open>n\<close> more blocks even if each needs a page of its own.
  One allocation uses up at most one unit, a release none, and neither touches the parts of the
  kernel state outside the heap.
\<close>

definition heap_room :: "u32 set \<Rightarrow> (u32 \<Rightarrow> u32) \<Rightarrow> (nat \<Rightarrow> nat) \<Rightarrow> nat \<Rightarrow> 'a kheap_scheme \<Rightarrow> bool" where
  "heap_room T tab pins n s \<longleftrightarrow> blocks_ok T tab pins s \<and> heap_calm s
     \<and> n \<le> length (free_frame_list s) \<and> n \<le> length (freePagesList (kh_da s))"

lemma heap_room_mono: "\<lbrakk>heap_room T tab pins n s; m \<le> n\<rbrakk> \<Longrightarrow> heap_room T tab pins m s"
  by (simp add: heap_room_def)

lemma frame_change_more: "frame_change s t \<Longrightarrow> kheap.more t = kheap.more (s :: 'a kheap_scheme)"
  by (subst frame_change_def [THEN iffD1], assumption) simp

lemma heap_room_finish:
  fixes u :: "'a kheap_scheme"
  assumes "da_consistent (block_env T tab pins) (is_backed tab) heap_page (d, u)" and "locked_heap c u"
    and "n \<le> length (free_frame_list u)" and "n \<le> length (freePagesList d)"
  shows "\<exists>t. finish b (u\<lparr>kh_da := d\<rparr>) = Inr (b, t) \<and> heap_room T tab pins n t \<and> kh_da t = d
    \<and> kheap.more t = kheap.more u"
proof -
  obtain t where t: "finish b (u\<lparr>kh_da := d\<rparr>) = Inr (b, t)" "blocks_ok T tab pins t" "heap_calm t" "kh_da t = d"
    using blocks_finish [OF assms(1,2)] by blast
  have "locked_heap c (u\<lparr>kh_da := d\<rparr>)" using assms(2) by (simp add: locked_heap_def)
  from finish_locked [OF this, of b] t(1) have "t = u\<lparr>kh_da := d\<rparr>\<lparr>kcpu := c, heap_lock := unlocked\<rparr>" by simp
  then show ?thesis using t assms(3,4) by (simp add: heap_room_def)
qed

lemma kmalloc_room:
  assumes "heap_room T tab pins (Suc n) s" and "0 < sz" and "sz \<le> 2048"
  shows "\<exists>b t. kmalloc sz s = Inr (b, t) \<and> heap_room T tab pins n t \<and> b \<noteq> 0 \<and> b \<notin> live (kh_da s)
    \<and> live (kh_da t) = insert b (live (kh_da s)) \<and> kheap.more t = kheap.more s"
proof -
  let ?gp = "get_page (create_page_table kmalloc_nested kheap_physical_address)"
  let ?s = "s\<lparr>kcpu := pushcli (kcpu s), heap_lock := held_lock (kcpu s)\<rparr>"
  have calm: "heap_calm s" and bo: "blocks_ok T tab pins s" and fr: "Suc n \<le> length (free_frame_list s)"
    and pg: "Suc n \<le> length (freePagesList (kh_da s))" using assms(1) by (auto simp: heap_room_def)
  have lk: "locked_heap (kcpu s) ?s" by (rule locked_after_acquire [OF calm])
  have con: "da_consistent (block_env T tab pins) (is_backed tab) heap_page (kh_da s, ?s)"
    by (rule da_consistent_lock) (use bo heap_calmD [OF calm] in \<open>auto simp: blocks_ok_def pushcli_ok\<close>)
  have wf: "da_wf (kh_da s)" using con by (simp add: da_consistent_def)
  note eq = kmalloc_small_unfold [OF calm assms(2,3)]
  from wf assms(2,3) show ?thesis
  proof (cases rule: alloc_block_cases [where gp = ?gp and e = ?s])
    case (reuse b d)
    have "da_consistent (block_env T tab pins) (is_backed tab) heap_page (d, ?s)"
      by (rule kernel_pages.alloc_block_consistent [OF con assms(2,3) reuse(1)])
    from heap_room_finish [OF this lk, of n b] fr pg reuse(1-3) show ?thesis by (auto simp: eq got_def)
  next
    case (fresh p ps k d va)
    have p: "p < npages (kh_da s)" "bsz (kh_da s) p = 0"
      using wf fresh(1) by (auto simp: da_wf_def da_inv_def pages_ok_def)
    have va: "va = page_at (kh_da s) p" using fresh(3) by (simp add: page_at_def)
    have hp: "heap_page va" and nb: "\<not> is_backed tab ?s va" and be: "block_env T tab pins ?s"
      using con p va by (auto simp: da_consistent_def)
    obtain f fs where l: "free_frame_list ?s = f # fs" using fr by (cases "free_frame_list s") auto
    obtain w where w: "?gp va ?s = Inr (clear_page va w)" "frame_change ?s w" "free_frame_list w = fs"
      using get_page_eq [OF be hp _ l] nb unfolding is_backed_def by blast
    let ?u = "clear_page va w"
    have al: "alloc_block ?gp sz (kh_da s, ?s) = Inr (Ret va, d, ?u)" using fresh(4) w(1) by simp
    have con': "da_consistent (block_env T tab pins) (is_backed tab) heap_page (d, ?u)"
      by (rule kernel_pages.alloc_block_consistent [OF con assms(2,3) al])
    have lk': "locked_heap (kcpu s) ?u"
      using lk get_page_keeps_lock [OF be nb hp w(1)] by (simp add: locked_heap_def)
    have "n \<le> length (free_frame_list ?u)" "n \<le> length (freePagesList d)" "kheap.more ?u = kheap.more s"
      using w(3) l fr fresh(1,6) pg frame_change_more [OF w(2)] by (auto simp: clear_page_def)
    then show ?thesis using heap_room_finish [OF con' lk', of n va] al fresh(5) by (auto simp: eq got_def)
  next
    case (wait k)
    then show ?thesis using pg by simp
  qed
qed

lemma unmapped_free_list: "length (free_frame_list s) \<le> length (free_frame_list (unmapped p i s))"
  by (simp add: unmapped_def frame_ops)

lemma kfree_room:
  assumes "heap_room T tab pins n s" and "b \<in> live (kh_da s)"
  shows "\<exists>t. kfree b s = Inr t \<and> heap_room T tab pins n t \<and> live (kh_da t) = live (kh_da s) - {b}
    \<and> kheap.more t = kheap.more s"
proof -
  let ?s = "s\<lparr>kcpu := pushcli (kcpu s), heap_lock := held_lock (kcpu s)\<rparr>"
  have calm: "heap_calm s" and bo: "blocks_ok T tab pins s" and fr: "n \<le> length (free_frame_list s)"
    and pl: "n \<le> length (freePagesList (kh_da s))" using assms(1) by (auto simp: heap_room_def)
  have lk: "locked_heap (kcpu s) ?s" by (rule locked_after_acquire [OF calm])
  have con: "da_consistent (block_env T tab pins) (is_backed tab) heap_page (kh_da s, ?s)"
    by (rule da_consistent_lock) (use bo heap_calmD [OF calm] in \<open>auto simp: blocks_ok_def pushcli_ok\<close>)
  have wf: "da_wf (kh_da s)" and lay: "layout_ok (kh_da s)" and be: "block_env T tab pins ?s"
    using con by (auto simp: da_consistent_def da_wf_def da_inv_def)
  from assms(2) wf obtain k where k: "k \<le> 8" "is_block (kh_da s) k b"
    and pg: "off (kh_da s) b div 4096 < npages (kh_da s)"
    and nf: "nfree (kh_da s) (off (kh_da s) b div 4096) < 512 div 2 ^ k" by (rule liveE)
  let ?i = "off (kh_da s) b div 4096"
  let ?p = "dynAllocStart (kh_da s) + word_of_nat ?i * 4096"
  have p: "?p = page_at (kh_da s) ?i" by (simp add: page_at_def mult.commute)
  have hp: "heap_page ?p" using con pg unfolding p by (simp add: da_consistent_def)
  have ok: "kh_ok T tab pins ?s" using be by (simp add: block_env_def)
  note one = kh_unmap_one [OF ok hp] and fe = free_block_eq [OF wf k nf, of return_page ?s]
  obtain d u where f: "free_block return_page b (kh_da s, ?s) = Inr (d, u)" and fc: "frame_change ?s u"
    and len: "n \<le> length (free_frame_list u)" "n \<le> length (freePagesList d)"
  proof (cases "nfree (kh_da s) ?i + 1 = 512 div 2 ^ k")
    case True
    have "n \<le> length (free_frame_list (unmapped (tab ?p) (unat (PTX ?p)) ?s))"
      using fr by (intro order_trans [OF _ unmapped_free_list]) simp
    moreover have "n \<le> length (freePagesList (give_back (kh_da s) k ?i))" using pl by (simp add: give_back_def Let_def)
    ultimately show thesis by (intro that) (unfold fe if_P [OF True] one(1) bindE.simps, rule refl, rule one(3))
  next
    case False
    have "n \<le> length (freePagesList (put_back (kh_da s) k b))" using pl by (simp add: put_back_def Let_def)
    moreover have "n \<le> length (free_frame_list ?s)" using fr by simp
    ultimately show thesis by (intro that) (unfold fe if_not_P [OF False], rule refl, rule frame_change_refl)
  qed
  have con': "da_consistent (block_env T tab pins) (is_backed tab) heap_page (d, u)"
    by (rule kernel_pages.free_block_consistent [OF con assms(2) f])
  have lku: "locked_heap (kcpu s) u" using lk frame_change_fields(1,2) [OF fc] by (simp add: locked_heap_def)
  have o: "off (kh_da s) b < 4096 * npages (kh_da s)" using k(2) by (simp add: is_block_def)
  have rng: "dynAllocStart (kh_da s) \<le> b" "b < dynAllocEnd (kh_da s)"
    using unat_block [OF lay o] layout_end [OF lay] o by (auto simp: word_le_nat_alt word_less_nat_alt)
  have kf: "kfree b s = heap_release (u\<lparr>kh_da := d\<rparr>)"
    using f rng by (simp add: kfree_def heap_acquire_calm [OF calm])
  obtain t where t: "finish 0 (u\<lparr>kh_da := d\<rparr>) = Inr (0, t)" "heap_room T tab pins n t" "kh_da t = d" "kheap.more t = kheap.more u"
    using heap_room_finish [OF con' lku len, of 0] by blast
  have "heap_release (u\<lparr>kh_da := d\<rparr>) = Inr t" using t(1) by (auto simp: finish_def)
  then show ?thesis using t(2-4) kf free_block_ok(2) [OF wf assms(2) f] frame_change_more [OF fc] by auto
qed

section \<open>Heap-independent parts of the state\<close>

lemma kh_ok_cong:
  assumes "kcpu t = kcpu s" and "mfllock t = mfllock s" and "heap_lock t = heap_lock s" and "number_of_frames t = number_of_frames s"
    and "frames_info t = frames_info s" and "free_frame_list t = free_frame_list s"
    and "ptr_page_directory t = ptr_page_directory s" and "mem t = mem s"
  shows "kh_ok T tab pins t = kh_ok T tab pins s"
proof -
  have "table_ok t d v p = table_ok s d v p" for d v p
    using assms by (simp add: table_ok_def heap_va_of_def heap_calm_def calm_def)
  then show ?thesis using assms by (simp add: kh_ok_def mm_inv_def slots_def calm_def pte_def)
qed

lemma heap_room_cong:
  assumes "kcpu t = kcpu s" and "mfllock t = mfllock s" and "heap_lock t = heap_lock s" and "number_of_frames t = number_of_frames s"
    and "frames_info t = frames_info s" and "free_frame_list t = free_frame_list s"
    and "ptr_page_directory t = ptr_page_directory s" and "mem t = mem s" and "kh_da t = kh_da s"
  shows "heap_room T tab pins n t = heap_room T tab pins n s"
  using assms kh_ok_cong [OF assms(1-8), of T tab pins]
  by (simp add: heap_room_def blocks_ok_def da_consistent_def block_env_def tables_apart_def heap_calm_def calm_def
      is_backed_def pte_def)

end
