(* ===== verification/FOS_Belady.thy ===== *)
theory FOS_Belady
  imports Main
begin

text \<open>
  Optimal page replacement, independent of the kernel's data structures: what it means that a
  working set of at most \<open>k\<close> pages serves a reference stream with \<open>n\<close> faults under some policy
  (\<open>serves\<close>), the strategy that evicts the page whose next use is farthest away
  (\<open>farthest_faults\<close>), and the theorem that no policy has fewer faults.
\<close>

section \<open>Policies\<close>

text \<open>On a fault a policy adds the page while there is room, or replaces any page it likes.\<close>

inductive serves :: "nat \<Rightarrow> 'p set \<Rightarrow> 'p list \<Rightarrow> nat \<Rightarrow> bool" for k where
  stop: "serves k W [] 0"
| hit: "\<lbrakk>r \<in> W; serves k W rs n\<rbrakk> \<Longrightarrow> serves k W (r # rs) n"
| add: "\<lbrakk>r \<notin> W; card W < k; serves k (insert r W) rs n\<rbrakk> \<Longrightarrow> serves k W (r # rs) (Suc n)"
| swap: "\<lbrakk>r \<notin> W; v \<in> W; serves k (insert r (W - {v})) rs n\<rbrakk> \<Longrightarrow> serves k W (r # rs) (Suc n)"

inductive_cases serves_ConsE: "serves k W (r # rs) n"

definition next_use :: "'p \<Rightarrow> 'p list \<Rightarrow> nat" where
  "next_use p rs = length (takeWhile (\<lambda>r. r \<noteq> p) rs)"

lemma next_use_Cons: "next_use p (r # rs) = (if r = p then 0 else Suc (next_use p rs))"
  by (simp add: next_use_def)

lemma next_use_absent: "p \<notin> set rs \<longleftrightarrow> next_use p rs = length rs"
  by (induction rs) (auto simp: next_use_Cons next_use_def)

lemma next_use_le: "next_use p rs \<le> length rs"
  by (simp add: next_use_def length_takeWhile_le)

section \<open>Missing pages cost one fault each\<close>

lemma card_swap: "\<lbrakk>finite W; v \<in> W; r \<notin> W\<rbrakk> \<Longrightarrow> card (insert r (W - {v})) = card W"
  by (metis Diff_iff card_Suc_Diff1 card_insert_disjoint finite_Diff)

lemma exists_spare:
  assumes "finite A" and "finite B" and "card B \<le> card A" and "r \<in> B - A \<or> card B < card A"
  obtains v where "v \<in> A - B"
proof -
  have "\<not> A \<subseteq> B"
  proof
    assume sub: "A \<subseteq> B"
    then have "card A \<le> card B" using assms(2) by (rule card_mono [rotated])
    then have "card A = card B" using assms(3) by simp
    moreover from this have "A = B" using card_subset_eq [OF assms(2) sub] by simp
    ultimately show False using assms(4) by auto
  qed
  then show thesis using that by auto
qed

text \<open>A set that misses a page loads it, into a free place or in exchange for some page; \<open>B\<close> is the set it
  is compared with and \<open>d\<close> a bound for what it still lacks.\<close>

lemma load_page:
  assumes r: "r \<notin> A" and A: "finite A" "card A \<le> k"
    and IH: "\<And>C. \<lbrakk>finite C; card C \<le> k\<rbrakk> \<Longrightarrow> \<exists>m \<le> n + card (B - C). serves k C rs m"
    and room: "card (B - insert r A) \<le> d" and full: "card A = k \<Longrightarrow> \<exists>u \<in> A. card (B - insert r (A - {u})) \<le> d"
  shows "\<exists>m \<le> Suc (n + d). serves k A (r # rs) m"
proof (cases "card A < k")
  case True
  then have "card (insert r A) \<le> k" using r A by simp
  then obtain m where "m \<le> n + card (B - insert r A)" "serves k (insert r A) rs m" using IH [of "insert r A"] A by auto
  then show ?thesis using serves.add [OF r True] room by (intro exI [of _ "Suc m"]) auto
next
  case False
  then obtain u where u: "u \<in> A" "card (B - insert r (A - {u})) \<le> d" using full A by auto
  then have "card (insert r (A - {u})) \<le> k" using card_swap [of A u r] r A by simp
  then obtain m where "m \<le> n + card (B - insert r (A - {u}))" "serves k (insert r (A - {u})) rs m"
    using IH [of "insert r (A - {u})"] A by auto
  then show ?thesis using serves.swap [OF r u(1)] u(2) by (intro exI [of _ "Suc m"]) auto
qed

lemma deficit_hit:
  assumes "r \<in> B" and "finite A" and "finite B" and "card A \<le> k" and "card B \<le> k"
    and IH: "\<And>C. \<lbrakk>finite C; card C \<le> k\<rbrakk> \<Longrightarrow> \<exists>m \<le> n + card (B - C). serves k C rs m"
  shows "\<exists>m \<le> n + card (B - A). serves k A (r # rs) m"
proof (cases "r \<in> A")
  case True
  then obtain m where "m \<le> n + card (B - A)" "serves k A rs m" using IH [OF assms(2,4)] by auto
  then show ?thesis using serves.hit [OF True] by (intro exI [of _ m]) simp
next
  case False
  have eq: "B - insert r A = (B - A) - {r}" by auto
  have drop: "Suc (card (B - insert r A)) = card (B - A)"
    unfolding eq using card_Suc_Diff1 [of "B - A" r] assms(1,3) False by simp
  have "\<exists>u \<in> A. card (B - insert r (A - {u})) \<le> card (B - insert r A)" if full: "card A = k"
  proof -
    obtain v where v: "v \<in> A - B" by (rule exists_spare [of A B r]) (use assms(1-5) False full in auto)
    then have "B - insert r (A - {v}) = B - insert r A" by auto
    then show ?thesis using v by (intro bexI [of _ v]) simp_all
  qed
  from load_page [OF False assms(2,4) IH order_refl this] drop show ?thesis by (metis add_Suc_right)
qed

lemma deficit_miss:
  assumes "r \<notin> B" and "finite A" and "finite B" and "card A \<le> k" and "card B \<le> k" and "0 < k"
    and C: "C = insert r B \<and> card B < k \<or> (\<exists>v \<in> B. C = insert r (B - {v}))"
    and IH: "\<And>D. \<lbrakk>finite D; card D \<le> k\<rbrakk> \<Longrightarrow> \<exists>m \<le> n + card (C - D). serves k D rs m"
  shows "\<exists>m \<le> Suc n + card (B - A). serves k A (r # rs) m"
proof -
  have fin: "finite (B - A)" using assms(3) by simp
  have le: "card (C - insert r A) \<le> card (B - A)" using C by (intro card_mono fin) auto
  show ?thesis
  proof (cases "r \<in> A")
    case True
    then have "card (C - A) \<le> card (B - A)" using le by (simp add: insert_absorb)
    moreover obtain m where "m \<le> n + card (C - A)" "serves k A rs m" using IH [OF assms(2,4)] by auto
    ultimately show ?thesis using serves.hit [OF True] by (intro exI [of _ m]) auto
  next
    case False
    have "\<exists>u \<in> A. card (C - insert r (A - {u})) \<le> card (B - A)" if full: "card A = k"
    proof (cases "C = insert r B \<and> card B < k")
      case True
      obtain v where v: "v \<in> A - B" by (rule exists_spare [of A B r]) (use True assms(2,3,5) full in auto)
      then have "card (C - insert r (A - {v})) \<le> card (B - A)" using True by (intro card_mono fin) auto
      then show ?thesis using v by auto
    next
      case nadd: False
      then obtain v where v: "v \<in> B" "C = insert r (B - {v})" using C by auto
      show ?thesis
      proof (cases "v \<in> A")
        case True
        then have "card (C - insert r (A - {v})) \<le> card (B - A)" using v by (intro card_mono fin) auto
        then show ?thesis using True by auto
      next
        case nv: False
        obtain u where u: "u \<in> A" using full assms(6) by (cases "A = {}") auto
        have "card (C - insert r (A - {u})) \<le> card (insert u ((B - A) - {v}))" using v fin by (intro card_mono) auto
        also have "\<dots> \<le> Suc (card ((B - A) - {v}))" by (simp add: card_insert_if fin)
        also have "\<dots> = card (B - A)" using card_Suc_Diff1 [OF fin, of v] nv v by simp
        finally show ?thesis using u by auto
      qed
    qed
    from load_page [OF False assms(2,4) IH le this] show ?thesis by simp
  qed
qed

lemma deficit_costs:
  assumes "serves k B rs n" and "finite A" and "finite B" and "card A \<le> k" and "card B \<le> k" and "0 < k"
  shows "\<exists>m \<le> n + card (B - A). serves k A rs m"
  using assms
proof (induction arbitrary: A rule: serves.induct)
  case (stop W)
  show ?case by (intro exI [of _ 0]) (simp add: serves.stop)
next
  case (hit r W rs n)
  show ?case by (rule deficit_hit) (use hit in auto)
next
  case (add r W rs n)
  show ?case by (rule deficit_miss [where C = "insert r W"]) (use add in auto)
next
  case (swap r W v rs n)
  have "card (insert r (W - {v})) \<le> k" using card_swap swap.hyps swap.prems by metis
  then show ?case by (intro deficit_miss [where C = "insert r (W - {v})"]) (use swap in auto)
qed

section \<open>Keeping the page that is used sooner\<close>

lemma exchange_costs:
  assumes "serves k B rs n" and "B = insert y C" and "x \<notin> C" and "y \<notin> C" and "x \<noteq> y" and "finite C" and "card B \<le> k"
    and "next_use x rs \<le> next_use y rs" and "0 < k"
  shows "\<exists>m \<le> n. serves k (insert x C) rs m"
  using assms
proof (induction arbitrary: C rule: serves.induct)
  case (stop W)
  show ?case by (intro exI [of _ 0]) (simp add: serves.stop)
next
  case (hit r W rs n)
  have "r \<noteq> y" using hit.prems(4,7) by (auto simp: next_use_Cons split: if_splits)
  then have r: "r \<in> C" using hit.hyps(1) hit.prems(1) by simp
  then have "r \<noteq> x" using hit.prems(2) by auto
  then have nu: "next_use x rs \<le> next_use y rs" using \<open>r \<noteq> y\<close> hit.prems(7) by (simp add: next_use_Cons)
  obtain m where "m \<le> n" "serves k (insert x C) rs m" using hit.IH [OF hit.prems(1-6) nu hit.prems(8)] by auto
  then show ?case using serves.hit [of r "insert x C"] r by (intro exI [of _ m]) simp
next
  case (add r W rs n)
  have cx: "card (insert x C) \<le> k" using add.prems by simp
  show ?case
  proof (cases "r = x")
    case True
    have "card (insert r W) \<le> k" "finite (insert r W)" using add.hyps(1,2) add.prems by auto
    from deficit_costs [OF add.hyps(3) _ this(2) cx this(1) add.prems(8)] add.prems(5)
    obtain m where m: "m \<le> n + card (insert r W - insert x C)" "serves k (insert x C) rs m" by auto
    have "card (insert r W - insert x C) \<le> card {y}" using True add.prems(1) by (intro card_mono) auto
    then show ?thesis using m serves.hit [of r "insert x C"] True by (intro exI [of _ m]) auto
  next
    case False
    then have nu: "next_use x rs \<le> next_use y rs" using add.hyps(1) add.prems(1,7) by (simp add: next_use_Cons split: if_splits)
    have lt: "card (insert x C) < k" using add.hyps(2) add.prems by simp
    obtain m where "m \<le> n" "serves k (insert x (insert r C)) rs m"
      using add.IH [of "insert r C"] add.hyps(1,2) add.prems False nu by (auto simp: insert_commute)
    then show ?thesis using serves.add [of r "insert x C", OF _ lt] False add.hyps(1) add.prems(1)
      by (intro exI [of _ "Suc m"]) (auto simp: insert_commute)
  qed
next
  case (swap r W v rs n)
  let ?W = "insert r (W - {v})"
  have cx: "card (insert x C) \<le> k" using swap.prems by simp
  have cw: "card ?W \<le> k" "finite ?W" using card_swap [OF _ swap.hyps(2,1)] swap.prems by auto
  show ?case
  proof (cases "r = x")
    case True
    from deficit_costs [OF swap.hyps(3) _ cw(2) cx cw(1) swap.prems(8)] swap.prems(5)
    obtain m where m: "m \<le> n + card (?W - insert x C)" "serves k (insert x C) rs m" by auto
    have "card (?W - insert x C) \<le> card {y}" using True swap.prems(1) by (intro card_mono) auto
    then show ?thesis using m serves.hit [of r "insert x C"] True by (intro exI [of _ m]) auto
  next
    case False
    then have rx: "r \<notin> insert x C" using swap.hyps(1) swap.prems(1) by auto
    show ?thesis
    proof (cases "v = y")
      case True
      then have "?W = insert r (insert x C - {x})" using swap.prems(1-3) by auto
      then show ?thesis using serves.swap [OF rx _, of x] swap.hyps(3) by (intro exI [of _ "Suc n"]) auto
    next
      case vC: False
      have eq: "?W = insert y (insert r (C - {v}))" "insert r (insert x C - {v}) = insert x (insert r (C - {v}))"
        using vC swap.hyps(2) swap.prems(1-3) by auto
      have nu: "next_use x rs \<le> next_use y rs"
        using False swap.hyps(1) swap.prems(1,7) by (simp add: next_use_Cons split: if_splits)
      have "y \<noteq> r" using swap.hyps(1) swap.prems(1) by auto
      then obtain m where "m \<le> n" "serves k (insert r (insert x C - {v})) rs m"
        using swap.IH [OF eq(1) _ _ swap.prems(4) _ cw(1) nu swap.prems(8)] swap.prems(2,3,5) False unfolding eq(2) by auto
      then show ?thesis using serves.swap [OF rx, of v] vC swap.hyps(2) swap.prems(1) by (intro exI [of _ "Suc m"]) auto
    qed
  qed
qed

section \<open>Evicting the page with the farthest next use\<close>

fun pick_farthest :: "'p list \<Rightarrow> 'p list \<Rightarrow> 'p option \<Rightarrow> 'p option" where
  "pick_farthest [] rs best = best"
| "pick_farthest (p # ps) rs best =
     (if p \<notin> set rs then Some p
      else case best of
             None \<Rightarrow> pick_farthest ps rs (Some p)
           | Some b \<Rightarrow> pick_farthest ps rs (if next_use b rs < next_use p rs then Some p else best))"

fun farthest_faults :: "nat \<Rightarrow> 'p list \<Rightarrow> 'p list \<Rightarrow> nat" where
  "farthest_faults k [] W = 0"
| "farthest_faults k (r # rs) W =
     (if r \<in> set W then farthest_faults k rs W
      else if length W < k then Suc (farthest_faults k rs (W @ [r]))
      else case pick_farthest W rs None of
             None \<Rightarrow> Suc (farthest_faults k rs W)
           | Some v \<Rightarrow> Suc (farthest_faults k rs (map (\<lambda>p. if p = v then r else p) W)))"

lemma pick_farthest_max:
  assumes "pick_farthest W rs best = Some v" and "\<And>b. best = Some b \<Longrightarrow> b \<in> D" and "\<And>b c. \<lbrakk>best = Some b; c \<in> D\<rbrakk> \<Longrightarrow> next_use c rs \<le> next_use b rs"
    and "best = None \<Longrightarrow> D = {}"
  shows "v \<in> D \<union> set W \<and> (\<forall>w \<in> D \<union> set W. next_use w rs \<le> next_use v rs)"
  using assms
proof (induction W arbitrary: best D)
  case Nil
  then show ?case by auto
next
  case (Cons p ps)
  show ?case
  proof (cases "p \<in> set rs")
    case False
    then have "v = p" "next_use p rs = length rs" using Cons.prems(1) next_use_absent [of p rs] by auto
    then show ?thesis using next_use_le [of _ rs] by auto
  next
    case True
    let ?best = "(case best of None \<Rightarrow> Some p | Some b \<Rightarrow> if next_use b rs < next_use p rs then Some p else best)"
    have eq: "pick_farthest ps rs ?best = Some v" using Cons.prems(1) True by (auto split: option.splits if_splits)
    have "v \<in> insert p D \<union> set ps \<and> (\<forall>w \<in> insert p D \<union> set ps. next_use w rs \<le> next_use v rs)"
      by (rule Cons.IH [OF eq]) (use Cons.prems(2-4) in \<open>fastforce split: option.splits if_splits\<close>)+
    then show ?thesis by auto
  qed
qed

lemma pick_farthest_some: "best \<noteq> None \<or> W \<noteq> [] \<Longrightarrow> \<exists>v. pick_farthest W rs best = Some v"
  by (induction W arbitrary: best) (auto split: option.splits)

lemma replaced_set:
  assumes "distinct W" and "v \<in> set W" and "r \<notin> set W"
  shows "set (map (\<lambda>p. if p = v then r else p) W) = insert r (set W - {v})"
    and "distinct (map (\<lambda>p. if p = v then r else p) W)"
  using assms by (auto simp: distinct_map inj_on_def)

theorem farthest_faults_serve:
  assumes "distinct W" and "length W \<le> k" and "0 < k"
  shows "serves k (set W) rs (farthest_faults k rs W)"
  using assms
proof (induction rs arbitrary: W)
  case Nil
  show ?case by (simp add: serves.stop)
next
  case (Cons r rs)
  consider (hit) "r \<in> set W" | (room) "r \<notin> set W" "length W < k" | (full) "r \<notin> set W" "length W = k" using Cons.prems(2) by linarith
  then show ?case
  proof cases
    case hit
    then show ?thesis using Cons by (simp add: serves.hit)
  next
    case room
    then show ?thesis using Cons.IH [of "W @ [r]"] Cons.prems by (auto intro!: serves.add simp: distinct_card)
  next
    case full
    then obtain v where v: "pick_farthest W rs None = Some v" using pick_farthest_some [of None W rs] Cons.prems(3) by auto
    have "v \<in> set W" using pick_farthest_max [OF v, of "{}"] by simp
    note rep = replaced_set [OF Cons.prems(1) this full(1)]
    have "serves k (insert r (set W - {v})) rs (farthest_faults k rs (map (\<lambda>p. if p = v then r else p) W))"
      using Cons.IH [OF rep(2)] Cons.prems(2,3) unfolding rep(1) by simp
    then show ?thesis using serves.swap [OF full(1) \<open>v \<in> set W\<close>] full v by simp
  qed
qed

theorem farthest_faults_least:
  assumes "distinct W" and "length W \<le> k" and "0 < k" and "serves k (set W) rs n"
  shows "farthest_faults k rs W \<le> n"
  using assms
proof (induction rs arbitrary: W n)
  case Nil
  show ?case by simp
next
  case (Cons r rs)
  have cW: "card (set W) = length W" using Cons.prems(1) by (rule distinct_card)
  from Cons.prems(4) consider (hit) "r \<in> set W" "serves k (set W) rs n"
    | (add) n' where "n = Suc n'" "r \<notin> set W" "card (set W) < k" "serves k (insert r (set W)) rs n'"
    | (swap) v n' where "n = Suc n'" "r \<notin> set W" "v \<in> set W" "serves k (insert r (set W - {v})) rs n'"
    by (auto elim: serves_ConsE)
  then show ?case
  proof cases
    case hit
    then show ?thesis using Cons.IH [OF Cons.prems(1-3)] by simp
  next
    case (add n')
    then show ?thesis using Cons.IH [of "W @ [r]" n'] Cons.prems(1-3) cW by simp
  next
    case (swap v n')
    have cs: "card (insert r (set W - {v})) = length W" using card_swap [of "set W" v r] swap cW by simp
    show ?thesis
    proof (cases "length W < k")
      case True
      have sub: "insert r (set W - {v}) - insert r (set W) = {}" by auto
      obtain m where "m \<le> n'" "serves k (insert r (set W)) rs m"
        using deficit_costs [OF swap(4), of "insert r (set W)"] True Cons.prems(3) cs cW swap(2) sub by auto
      then show ?thesis using Cons.IH [of "W @ [r]" m] Cons.prems(1,3) True swap(1,2) by simp
    next
      case False
      then have full: "length W = k" using Cons.prems(2) by simp
      obtain f where f: "pick_farthest W rs None = Some f"
        using pick_farthest_some [of None W rs] length_pos_if_in_set [OF swap(3)] by auto
      have far: "f \<in> set W" "next_use v rs \<le> next_use f rs" using pick_farthest_max [OF f, of "{}"] swap(3) by auto
      note rep = replaced_set [OF Cons.prems(1) far(1) swap(2)]
      obtain m where m: "m \<le> n'" "serves k (insert r (set W - {f})) rs m"
      proof (cases "v = f")
        case True
        then show thesis using that swap(4) by blast
      next
        case ne: False
        let ?C = "insert r (set W - {f, v})"
        have eq: "insert r (set W - {v}) = insert f ?C" "insert v ?C = insert r (set W - {f})"
          using far(1) swap(2,3) ne by auto
        show thesis
          using exchange_costs [OF swap(4) eq(1), of v] that far swap(2,3) ne cs full Cons.prems(3) unfolding eq(2) by auto
      qed
      have "farthest_faults k rs (map (\<lambda>p. if p = f then r else p) W) \<le> m"
        using Cons.IH [OF rep(2) _ Cons.prems(3), of m] m(2) Cons.prems(2) unfolding rep(1) by simp
      then show ?thesis using m(1) f full swap(1,2) by simp
    qed
  qed
qed

section \<open>Bounds\<close>

lemma serves_bounds: "\<lbrakk>serves k W rs n; finite W\<rbrakk> \<Longrightarrow> n \<le> length rs \<and> card (set rs - W) \<le> n"
proof (induction rule: serves.induct)
  case (stop W)
  show ?case by simp
next
  case (hit r W rs n)
  then have "set (r # rs) - W = set rs - W" by auto
  then show ?case using hit by simp
next
  case (add r W rs n)
  have "card (set (r # rs) - W) \<le> card (insert r (set rs - insert r W))" by (intro card_mono) auto
  also have "\<dots> \<le> Suc (card (set rs - insert r W))" by (simp add: card_insert_if)
  finally show ?case using add by simp
next
  case (swap r W v rs n)
  have "card (set (r # rs) - W) \<le> card (insert r (set rs - insert r (W - {v})))" by (intro card_mono) auto
  also have "\<dots> \<le> Suc (card (set rs - insert r (W - {v})))" by (simp add: card_insert_if)
  finally show ?case using swap by simp
qed

lemma serves_fit: "\<lbrakk>finite W; card (W \<union> set rs) \<le> k\<rbrakk> \<Longrightarrow> serves k W rs (card (set rs - W))"
proof (induction rs arbitrary: W)
  case Nil
  show ?case by (simp add: serves.stop)
next
  case (Cons r rs)
  show ?case
  proof (cases "r \<in> W")
    case True
    then have "W \<union> set (r # rs) = W \<union> set rs" "set (r # rs) - W = set rs - W" by auto
    then show ?thesis using Cons serves.hit [OF True] by simp
  next
    case False
    have eq: "W \<union> set (r # rs) = insert r W \<union> set rs" "set (r # rs) - W = insert r (set rs - insert r W)" using False by auto
    have "card (insert r W) \<le> card (W \<union> set (r # rs))" using Cons.prems(1) by (intro card_mono) auto
    then have "card W < k" using Cons.prems False by simp
    moreover have "serves k (insert r W) rs (card (set rs - insert r W))" using Cons.IH [of "insert r W"] Cons.prems eq(1) by simp
    ultimately have "serves k W (r # rs) (Suc (card (set rs - insert r W)))" using serves.add [OF False] by blast
    moreover have "card (set (r # rs) - W) = Suc (card (set rs - insert r W))" unfolding eq(2) by simp
    ultimately show ?thesis by simp
  qed
qed

end
