(* ===== verification/FOS_Optimal.thy ===== *)
theory FOS_Optimal
  imports FOS_WorkingSet FOS_Blocks FOS_Belady FOS_SchedTurn
begin

text \<open>
  The OPTIMAL replacement count of \<^verbatim>\<open>kern/trap/fault_handler.c\<close>:
  \<open>get_optimal_num_faults\<close> replays a stream of page references on a temporary copy of the initial
  working set and evicts the page whose next use is farthest away.
\<close>

section \<open>The function\<close>

fun opt_copy :: "u32 list \<Rightarrow> u32 list \<Rightarrow> 'a psched_scheme \<Rightarrow> (u32 list \<times> 'a psched_scheme) res" where
  "opt_copy [] tmp s = Inr (tmp, s)"
| "opt_copy (w # ws) tmp s =
     bindE (kmalloc sizeof_WorkingSetElement s) (\<lambda>(n, s1).
     if n = 0 then Inl Fault
     else opt_copy ws (tmp @ [n]) (upd_wse n (\<lambda>v. v\<lparr>virtual_address := wse_va s1 w\<rparr>) s1))"

text \<open>The distance to the next reference of a page and whether there is one.\<close>

fun opt_distance :: "u32 \<Rightarrow> u32 list \<Rightarrow> int \<Rightarrow> int \<times> bool" where
  "opt_distance va [] d = (d, False)"
| "opt_distance va (r # rs) d = (if same_page r va then (d + 1, True) else opt_distance va rs (d + 1))"

fun opt_victim :: "u32 list \<Rightarrow> u32 list \<Rightarrow> int \<Rightarrow> u32 \<Rightarrow> 'a psched_scheme \<Rightarrow> u32" where
  "opt_victim [] rs distance_maximum el_evicted s = el_evicted"
| "opt_victim (w # ws) rs distance_maximum el_evicted s =
     (let (distance, future_found) = opt_distance (wse_va s w) rs 0
      in if \<not> future_found then w
         else if distance_maximum < distance then opt_victim ws rs distance w s
         else opt_victim ws rs distance_maximum el_evicted s)"

fun opt_refs :: "u32 \<Rightarrow> u32 list \<Rightarrow> u32 list \<Rightarrow> int \<Rightarrow> 'a pfault_scheme \<Rightarrow> (int \<times> u32 list \<times> 'a pfault_scheme) res" where
  "opt_refs maxWSSize [] tmp elfaults s = Inr (elfaults, tmp, s)"
| "opt_refs maxWSSize (r # rs) tmp elfaults s =
     (let va = pageref_at s r in
      if ws_find va tmp s \<noteq> None then opt_refs maxWSSize rs tmp elfaults s
      else if word_of_nat (length tmp) < maxWSSize then
        bindE (kmalloc sizeof_WorkingSetElement s) (\<lambda>(n, s1).
        if n = 0 then Inl Fault
        else opt_refs maxWSSize rs (tmp @ [n]) (elfaults + 1) (upd_wse n (\<lambda>v. v\<lparr>virtual_address := va\<rparr>) s1))
      else
        let el_evicted = opt_victim tmp (map (pageref_at s) rs) (- 1) 0 s
        in if el_evicted \<noteq> 0
           then opt_refs maxWSSize rs tmp (elfaults + 1) (upd_wse el_evicted (\<lambda>v. v\<lparr>virtual_address := va\<rparr>) s)
           else opt_refs maxWSSize rs tmp (elfaults + 1) s)"

fun opt_free :: "u32 list \<Rightarrow> 'a psched_scheme \<Rightarrow> 'a psched_scheme res" where
  "opt_free [] s = Inr s"
| "opt_free (w # ws) s = bindE (kfree w s) (opt_free ws)"

definition get_optimal_num_faults ::
  "u32 list \<Rightarrow> u32 \<Rightarrow> u32 list \<Rightarrow> 'a pfault_scheme \<Rightarrow> (int \<times> 'a pfault_scheme) res" where
  "get_optimal_num_faults initWorkingSet maxWSSize pageReferences s =
     bindE (opt_copy initWorkingSet [] s) (\<lambda>(tmp, s1).
     bindE (opt_refs maxWSSize pageReferences tmp 0 s1) (\<lambda>(elfaults, tmp1, s2).
     bindE (opt_free tmp1 s2) (\<lambda>s3. Inr (elfaults, s3))))"

section \<open>The temporary list on the heap\<close>

lemma upd_wse_simps [simp]:
  "heap_room T tab pins n (upd_wse w f s) = heap_room T tab pins n s" "kh_da (upd_wse w f s) = kh_da s"
  "envs (upd_wse w f s) = envs s" "pageref_at (upd_wse w f (u :: 'b pfault_scheme)) = pageref_at u"
  "wse_at (upd_wse w f s) = (wse_at s)(w := f (wse_at s w))"
  by (simp_all add: upd_wse_def cong: heap_room_cong)

lemma more_fields:
  assumes "kheap.more t = kheap.more (s :: 'a pfault_scheme)"
  shows "wse_at t = wse_at s" and "envs t = envs s" and "pageref_at t = pageref_at s" and "PageRepAlgoType t = PageRepAlgoType s"
  using assms by (cases s, cases t, simp)+
section \<open>The count is the number of faults of the farthest-use strategy\<close>

definition page_of :: "u32 \<Rightarrow> u32" where
  "page_of va = ROUNDDOWN va PAGE_SIZE"

definition ws_pages :: "'a psched_scheme \<Rightarrow> u32 list \<Rightarrow> u32 list" where
  "ws_pages s ws = map (\<lambda>w. page_of (wse_va s w)) ws"

lemma same_page_iff: "same_page a b \<longleftrightarrow> page_of a = page_of b"
  by (simp add: same_page_def page_of_def)

lemma ws_find_None: "ws_find va ws s = None \<longleftrightarrow> page_of va \<notin> set (ws_pages s ws)"
  by (force simp: ws_find_def find_None_iff ws_pages_def same_page_iff)

lemma opt_distance_eq:
  "opt_distance va rs d = (if page_of va \<in> set (map page_of rs) then (d + 1 + int (next_use (page_of va) (map page_of rs)), True)
     else (d + int (length rs), False))"
  by (induction rs arbitrary: d) (auto simp: same_page_iff next_use_Cons)

lemma opt_victim_pick:
  assumes "best = None \<and> dm = - 1 \<and> ev = 0 \<or> best = Some (page_of (wse_va s ev)) \<and> dm = 1 + int (next_use (page_of (wse_va s ev)) (map page_of rs))"
  shows "(pick_farthest (ws_pages s ws) (map page_of rs) best = None \<longrightarrow> opt_victim ws rs dm ev s = 0)
    \<and> (\<forall>p. pick_farthest (ws_pages s ws) (map page_of rs) best = Some p \<longrightarrow>
         page_of (wse_va s (opt_victim ws rs dm ev s)) = p \<and> (opt_victim ws rs dm ev s \<in> set ws \<or> best \<noteq> None \<and> opt_victim ws rs dm ev s = ev))"
  using assms
proof (induction ws arbitrary: best dm ev)
  case Nil
  then show ?case by (auto simp: ws_pages_def)
next
  case (Cons w ws)
  let ?R = "map page_of rs" and ?p = "page_of (wse_va s w)"
  show ?case
  proof (cases "?p \<in> set ?R")
    case False
    then show ?thesis by (simp add: ws_pages_def opt_distance_eq)
  next
    case True
    let ?d = "1 + int (next_use ?p ?R)"
    have d: "opt_distance (wse_va s w) rs 0 = (?d, True)" using True by (simp add: opt_distance_eq)
    show ?thesis
    proof (cases "dm < ?d")
      case less: True
      have "pick_farthest (ws_pages s (w # ws)) ?R best = pick_farthest (ws_pages s ws) ?R (Some ?p)"
        using Cons.prems less True by (auto simp: ws_pages_def)
      moreover have "opt_victim (w # ws) rs dm ev s = opt_victim ws rs ?d w s" using d less by simp
      ultimately show ?thesis using Cons.IH [of "Some ?p" ?d w] by auto
    next
      case not_less: False
      have "pick_farthest (ws_pages s (w # ws)) ?R best = pick_farthest (ws_pages s ws) ?R best"
        using Cons.prems not_less True by (auto simp: ws_pages_def)
      moreover have "opt_victim (w # ws) rs dm ev s = opt_victim ws rs dm ev s" using d not_less by simp
      ultimately show ?thesis using Cons.IH [OF Cons.prems] by auto
    qed
  qed
qed

lemma opt_victim_farthest:
  assumes "ws \<noteq> []"
  obtains p where "pick_farthest (ws_pages s ws) (map page_of rs) None = Some p"
    and "page_of (wse_va s (opt_victim ws rs (- 1) 0 s)) = p" and "opt_victim ws rs (- 1) 0 s \<in> set ws"
proof -
  obtain p where "pick_farthest (ws_pages s ws) (map page_of rs) None = Some p"
    using pick_farthest_some [of None "ws_pages s ws"] assms by (auto simp: ws_pages_def)
  then show thesis using that opt_victim_pick [of None "- 1" 0 s rs ws] by auto
qed

text \<open>What the temporary list looks like during the replay: fresh heap blocks, distinct pages.\<close>

definition tmp_ok :: "u32 set \<Rightarrow> u32 list \<Rightarrow> 'a psched_scheme \<Rightarrow> bool" where
  "tmp_ok L tmp s \<longleftrightarrow> distinct tmp \<and> 0 \<notin> set tmp \<and> set tmp \<inter> L = {} \<and> live (kh_da s) = L \<union> set tmp"

definition kept :: "u32 set \<Rightarrow> 'a pfault_scheme \<Rightarrow> 'a pfault_scheme \<Rightarrow> bool" where
  "kept L s t \<longleftrightarrow> envs t = envs s \<and> pageref_at t = pageref_at s \<and> (\<forall>w \<in> L. wse_at t w = wse_at s w)"

lemma kept_trans: "\<lbrakk>kept L s t; kept L t u\<rbrakk> \<Longrightarrow> kept L s u"
  by (simp add: kept_def)

text \<open>One element is added to the temporary list.\<close>

lemma tmp_alloc:
  assumes "heap_room T tab pins (Suc n) s" and "tmp_ok L tmp (s :: 'a pfault_scheme)"
  shows "\<exists>b t. kmalloc sizeof_WorkingSetElement s = Inr (b, t) \<and> b \<noteq> 0
    \<and> (\<forall>va. let u = upd_wse b (\<lambda>v. v\<lparr>virtual_address := va\<rparr>) t in heap_room T tab pins n u \<and> tmp_ok L (tmp @ [b]) u \<and> kept L s u
         \<and> ws_pages u (tmp @ [b]) = ws_pages s tmp @ [page_of va]) \<and> wse_at t = wse_at s"
proof -
  obtain b t where t: "kmalloc sizeof_WorkingSetElement s = Inr (b, t)" "heap_room T tab pins n t" "b \<noteq> 0" "b \<notin> live (kh_da s)"
    "live (kh_da t) = insert b (live (kh_da s))" "kheap.more t = kheap.more s"
    using kmalloc_room [OF assms(1), of sizeof_WorkingSetElement] by auto
  have b: "b \<notin> set tmp" "b \<notin> L" using t(4) assms(2) by (auto simp: tmp_ok_def)
  show ?thesis
    using t b more_fields [OF t(6)] assms(2) by (intro exI [of _ b] exI [of _ t]) (auto simp: Let_def tmp_ok_def kept_def ws_pages_def wse_va_def)
qed
lemma opt_copy_ok:
  assumes "heap_room T tab pins (n + length ws) s" and "tmp_ok L tmp (s :: 'a pfault_scheme)" and "set ws \<subseteq> L"
  shows "\<exists>new t. opt_copy ws tmp s = Inr (tmp @ new, t) \<and> heap_room T tab pins n t \<and> tmp_ok L (tmp @ new) t
    \<and> kept L s t \<and> length new = length ws \<and> ws_pages t (tmp @ new) = ws_pages s tmp @ ws_pages s ws"
  using assms
proof (induction ws arbitrary: tmp s)
  case Nil
  then show ?case by (auto simp: kept_def ws_pages_def)
next
  case (Cons w ws)
  have "heap_room T tab pins (Suc (n + length ws)) s" using Cons.prems(1) by simp
  from tmp_alloc [OF this Cons.prems(2)] obtain b s1 where s1: "kmalloc sizeof_WorkingSetElement s = Inr (b, s1)" "b \<noteq> 0" "wse_at s1 = wse_at s"
    and u: "\<And>va. let u = upd_wse b (\<lambda>v. v\<lparr>virtual_address := va\<rparr>) s1 in heap_room T tab pins (n + length ws) u \<and> tmp_ok L (tmp @ [b]) u \<and> kept L s u
         \<and> ws_pages u (tmp @ [b]) = ws_pages s tmp @ [page_of va]" by blast
  define u where "u = upd_wse b (\<lambda>v. v\<lparr>virtual_address := wse_va s w\<rparr>) s1"
  have u': "heap_room T tab pins (n + length ws) u" "tmp_ok L (tmp @ [b]) u" "kept L s u" "ws_pages u (tmp @ [b]) = ws_pages s tmp @ [page_of (wse_va s w)]"
    using u [of "wse_va s w"] by (simp_all add: u_def Let_def)
  obtain new t where t: "opt_copy ws (tmp @ [b]) u = Inr ((tmp @ [b]) @ new, t)" "heap_room T tab pins n t" "tmp_ok L ((tmp @ [b]) @ new) t"
    "kept L u t" "length new = length ws" "ws_pages t ((tmp @ [b]) @ new) = ws_pages u (tmp @ [b]) @ ws_pages u ws"
    using Cons.IH [OF u'(1,2)] Cons.prems(3) by auto
  have "opt_copy (w # ws) tmp s = Inr (tmp @ (b # new), t)" using s1 t(1) by (simp add: u_def wse_va_def)
  moreover have "ws_pages u ws = ws_pages s ws" using u'(3) Cons.prems(3) by (auto simp: ws_pages_def kept_def wse_va_def)
  ultimately show ?case using t u'(4) kept_trans [OF u'(3) t(4)] by (intro exI [of _ "b # new"] exI [of _ t]) (simp add: ws_pages_def)
qed

lemma ws_pages_replace:
  assumes "distinct (ws_pages s tmp)" and "w \<in> set tmp" and "distinct tmp"
  shows "ws_pages (upd_wse w (\<lambda>v. v\<lparr>virtual_address := va\<rparr>) s) tmp
    = map (\<lambda>p. if p = page_of (wse_va s w) then page_of va else p) (ws_pages s tmp)"
  using assms by (auto simp: ws_pages_def wse_va_def distinct_map inj_on_def)

lemma opt_refs_ok:
  fixes s :: "'a pfault_scheme"
  assumes "heap_room T tab pins (unat k - length tmp) s" and "tmp_ok L tmp s" and "distinct (ws_pages s tmp)"
    and "length tmp \<le> unat k" and "0 < k"
  shows "\<exists>tmp' t m. opt_refs k rs tmp c s =
      Inr (c + int (farthest_faults (unat k) (map (\<lambda>r. page_of (pageref_at s r)) rs) (ws_pages s tmp)), tmp', t)
    \<and> heap_room T tab pins m t \<and> tmp_ok L tmp' t \<and> kept L s t"
  using assms
proof (induction rs arbitrary: tmp c s)
  case Nil
  then show ?case by (auto simp: kept_def)
next
  case (Cons r rs)
  let ?va = "pageref_at s r" and ?R = "map (\<lambda>r. page_of (pageref_at s r)) rs"
  have refs: "kept L s u \<Longrightarrow> map (\<lambda>r. page_of (pageref_at u r)) rs = ?R" for u by (simp add: kept_def)
  have len: "length (ws_pages s tmp) = length tmp" by (simp add: ws_pages_def)
  have lt: "word_of_nat (length tmp) < k \<longleftrightarrow> length tmp < unat k"
    using Cons.prems(4) unat_u32_lt [of k] by (simp add: word_less_nat_alt unat_of_nat_u32)
  show ?case
  proof (cases "page_of ?va \<in> set (ws_pages s tmp)")
    case True
    then show ?thesis using Cons.IH [OF Cons.prems, of c] by (simp add: ws_find_None)
  next
    case miss: False
    then have nf: "ws_find ?va tmp s = None" by (simp add: ws_find_None)
    show ?thesis
    proof (cases "length tmp < unat k")
      case True
      then have "heap_room T tab pins (Suc (unat k - length (tmp @ [x]))) s" for x using Cons.prems(1) by (simp add: Suc_diff_Suc)
      from tmp_alloc [OF this Cons.prems(2)] obtain b s1 where s1: "kmalloc sizeof_WorkingSetElement s = Inr (b, s1)" "b \<noteq> 0"
        and u: "let u = upd_wse b (\<lambda>v. v\<lparr>virtual_address := ?va\<rparr>) s1 in heap_room T tab pins (unat k - length (tmp @ [b])) u
          \<and> tmp_ok L (tmp @ [b]) u \<and> kept L s u \<and> ws_pages u (tmp @ [b]) = ws_pages s tmp @ [page_of ?va]" by auto
      define u where "u = upd_wse b (\<lambda>v. v\<lparr>virtual_address := ?va\<rparr>) s1"
      have u': "heap_room T tab pins (unat k - length (tmp @ [b])) u" "tmp_ok L (tmp @ [b]) u" "kept L s u"
        "ws_pages u (tmp @ [b]) = ws_pages s tmp @ [page_of ?va]" using u by (simp_all add: u_def Let_def)
      have "distinct (ws_pages u (tmp @ [b]))" using u'(4) Cons.prems(3) miss by simp
      from Cons.IH [OF u'(1,2) this _ Cons.prems(5), of "c + 1"] True
      obtain tmp' t m where t: "opt_refs k rs (tmp @ [b]) (c + 1) u =
          Inr (c + 1 + int (farthest_faults (unat k) ?R (ws_pages s tmp @ [page_of ?va])), tmp', t)"
        "heap_room T tab pins m t" "tmp_ok L tmp' t" "kept L u t" unfolding refs [OF u'(3)] u'(4) by auto
      show ?thesis using t(1-3) kept_trans [OF u'(3) t(4)] s1 nf True miss lt len by (simp add: u_def) blast
    next
      case False
      then have "tmp \<noteq> []" using Cons.prems(5) by (auto simp: word_less_nat_alt)
      then obtain p where p: "pick_farthest (ws_pages s tmp) ?R None = Some p"
        "page_of (wse_va s (opt_victim tmp (map (pageref_at s) rs) (- 1) 0 s)) = p" "opt_victim tmp (map (pageref_at s) rs) (- 1) 0 s \<in> set tmp"
        using opt_victim_farthest [of tmp s "map (pageref_at s) rs"] by (auto simp: o_def)
      define w where "w = opt_victim tmp (map (pageref_at s) rs) (- 1) 0 s"
      define u where "u = upd_wse w (\<lambda>v. v\<lparr>virtual_address := ?va\<rparr>) s"
      have w: "w \<in> set tmp" "w \<noteq> 0" using p(3) Cons.prems(2) by (auto simp: w_def tmp_ok_def)
      have ku: "kept L s u" "tmp_ok L tmp u" "heap_room T tab pins (unat k - length tmp) u"
        using w Cons.prems(1,2) by (auto simp: u_def kept_def tmp_ok_def)
      have pages: "ws_pages u tmp = map (\<lambda>q. if q = p then page_of ?va else q) (ws_pages s tmp)"
        unfolding u_def using ws_pages_replace [OF Cons.prems(3) w(1)] Cons.prems(2) p(2) by (simp add: w_def tmp_ok_def)
      have "distinct (ws_pages u tmp)"
        unfolding pages by (rule replaced_set(2) [OF Cons.prems(3) _ miss]) (use p(2,3) in \<open>auto simp: ws_pages_def\<close>)
      from Cons.IH [OF ku(3,2) this Cons.prems(4,5), of "c + 1"]
      obtain tmp' t m where t: "opt_refs k rs tmp (c + 1) u =
          Inr (c + 1 + int (farthest_faults (unat k) ?R (map (\<lambda>q. if q = p then page_of ?va else q) (ws_pages s tmp))), tmp', t)"
        "heap_room T tab pins m t" "tmp_ok L tmp' t" "kept L u t" unfolding refs [OF ku(1)] pages by auto
      show ?thesis using t(1-3) kept_trans [OF ku(1) t(4)] nf False miss lt len w p(1) by (simp add: u_def w_def Let_def) blast
    qed
  qed
qed

lemma opt_free_ok:
  fixes s :: "'a pfault_scheme"
  assumes "heap_room T tab pins n s" and "tmp_ok L tmp s"
  shows "\<exists>t. opt_free tmp s = Inr t \<and> heap_room T tab pins n t \<and> live (kh_da t) = L \<and> kept L s t"
  using assms
proof (induction tmp arbitrary: s)
  case Nil
  then show ?case by (auto simp: tmp_ok_def kept_def)
next
  case (Cons w tmp)
  have "w \<in> live (kh_da s)" using Cons.prems(2) by (auto simp: tmp_ok_def)
  from kfree_room [OF Cons.prems(1) this] obtain u where u: "kfree w s = Inr u" "heap_room T tab pins n u"
    "live (kh_da u) = live (kh_da s) - {w}" "kheap.more u = kheap.more s" by auto
  have "tmp_ok L tmp u" "kept L s u" using Cons.prems(2) u(3) more_fields [OF u(4)] by (auto simp: tmp_ok_def kept_def)
  then show ?case using Cons.IH [OF u(2)] u(1) kept_trans by fastforce
qed
lemma get_optimal_num_faults_eq:
  fixes s :: "'a pfault_scheme"
  assumes "heap_room T tab pins (unat k) s" and "set ws \<subseteq> live (kh_da s)" and "distinct (ws_pages s ws)"
    and "length ws \<le> unat k" and "0 < k"
  shows "\<exists>t m. get_optimal_num_faults ws k refs s =
      Inr (int (farthest_faults (unat k) (map (\<lambda>r. page_of (pageref_at s r)) refs) (ws_pages s ws)), t)
    \<and> heap_room T tab pins m t \<and> live (kh_da t) = live (kh_da s) \<and> kept (live (kh_da s)) s t"
proof -
  let ?L = "live (kh_da s)"
  have room: "heap_room T tab pins ((unat k - length ws) + length ws) s" using assms(1,4) by simp
  have "tmp_ok ?L [] s" by (simp add: tmp_ok_def)
  from opt_copy_ok [OF room this assms(2)] obtain new s1 where s1: "opt_copy ws [] s = Inr (new, s1)"
    "heap_room T tab pins (unat k - length new) s1" "tmp_ok ?L new s1" "kept ?L s s1" "length new = length ws"
    "ws_pages s1 new = ws_pages s ws" by (auto simp: ws_pages_def)
  have "distinct (ws_pages s1 new)" "length new \<le> unat k" using s1(5,6) assms(3,4) by simp_all
  from opt_refs_ok [OF s1(2,3) this assms(5), of refs 0] obtain tmp s2 m where s2:
    "opt_refs k refs new 0 s1 = Inr (int (farthest_faults (unat k) (map (\<lambda>r. page_of (pageref_at s r)) refs) (ws_pages s ws)), tmp, s2)"
    "heap_room T tab pins m s2" "tmp_ok ?L tmp s2" "kept ?L s1 s2" using s1(4,6) by (auto simp: kept_def)
  obtain t where t: "opt_free tmp s2 = Inr t" "heap_room T tab pins m t" "live (kh_da t) = ?L" "kept ?L s2 t"
    using opt_free_ok [OF s2(2,3)] by auto
  have "kept ?L s t" using s1(4) s2(4) t(4) kept_trans by blast
  then show ?thesis using s1(1) s2(1) t(1-3) by (auto simp: get_optimal_num_faults_def)
qed

section \<open>Claims\<close>

text \<open>Claim C10.  With heap room for the temporary list, get_optimal_num_faults returns the smallest number of
  page faults that any replacement policy can reach: some policy serves the references from the
  initial working set with that many faults, and none with fewer.  All blocks it allocated are
  free again, and the working set and the reference list it was given are unchanged.\<close>

theorem optimal_faults_minimal:
  fixes s :: "'a pfault_scheme"
  assumes "heap_room T tab pins (unat k) s" and "set ws \<subseteq> live (kh_da s)" and "distinct (ws_pages s ws)"
    and "length ws \<le> unat k" and "0 < k"
  shows "\<exists>n t. get_optimal_num_faults ws k refs s = Inr (int n, t)
    \<and> serves (unat k) (set (ws_pages s ws)) (map (\<lambda>r. page_of (pageref_at s r)) refs) n
    \<and> (\<forall>m. serves (unat k) (set (ws_pages s ws)) (map (\<lambda>r. page_of (pageref_at s r)) refs) m \<longrightarrow> n \<le> m)
    \<and> live (kh_da t) = live (kh_da s) \<and> kept (live (kh_da s)) s t"
proof -
  have "length (ws_pages s ws) \<le> unat k" "0 < unat k" using assms(4,5) by (simp_all add: ws_pages_def word_less_nat_alt)
  note far = farthest_faults_serve [OF assms(3) this] farthest_faults_least [OF assms(3) this]
  show ?thesis using get_optimal_num_faults_eq [OF assms, of refs] far by blast
qed

text \<open>Bounds of the optimal count: it is at most the number of references and at least the number
  of referenced pages that are not in the initial working set, and it equals the latter when
  the working set has room for all pages involved.\<close>

theorem optimal_faults_bounds:
  fixes s :: "'a pfault_scheme"
  assumes "heap_room T tab pins (unat k) s" and "set ws \<subseteq> live (kh_da s)" and "distinct (ws_pages s ws)"
    and "length ws \<le> unat k" and "0 < k"
  shows "\<exists>n t. get_optimal_num_faults ws k refs s = Inr (int n, t) \<and> n \<le> length refs
    \<and> card (set (map (\<lambda>r. page_of (pageref_at s r)) refs) - set (ws_pages s ws)) \<le> n
    \<and> (card (set (ws_pages s ws) \<union> set (map (\<lambda>r. page_of (pageref_at s r)) refs)) \<le> unat k \<longrightarrow>
        n = card (set (map (\<lambda>r. page_of (pageref_at s r)) refs) - set (ws_pages s ws)))"
proof -
  let ?R = "map (\<lambda>r. page_of (pageref_at s r)) refs" and ?W = "ws_pages s ws"
  have k: "length ?W \<le> unat k" "0 < unat k" using assms(4,5) by (simp_all add: ws_pages_def word_less_nat_alt)
  have b: "farthest_faults (unat k) ?R ?W \<le> length refs" "card (set ?R - set ?W) \<le> farthest_faults (unat k) ?R ?W"
    using serves_bounds [OF farthest_faults_serve [OF assms(3) k, of ?R]] by auto
  have f: "farthest_faults (unat k) ?R ?W \<le> card (set ?R - set ?W)" if "card (set ?W \<union> set ?R) \<le> unat k"
    by (rule farthest_faults_least [OF assms(3) k serves_fit]) (use that in auto)
  show ?thesis using get_optimal_num_faults_eq [OF assms, of refs] b f by (meson le_antisym)
qed
section \<open>Witnesses\<close>

text \<open>A kernel state with an idle disk and the given reference elements.\<close>

definition pf_example :: "(u32 \<Rightarrow> u32) \<Rightarrow> pfault" where
  "pf_example refs = pfile.extend (psched.extend rr_example (pfile.fields [1 ..< 9] unlocked (\<lambda>_. null_frame_info)
     (\<lambda>_. replicate 128 0) (\<lambda>_. False))) (pfault.fields refs 0 0 0 1000 0 0 0 0 0 None 0xEFFF0000)"

lemma pf_example_fields [simp]:
  "kcpu (pf_example r) = kcpu heap_example" "mfllock (pf_example r) = mfllock heap_example" "heap_lock (pf_example r) = heap_lock heap_example"
  "number_of_frames (pf_example r) = number_of_frames heap_example" "frames_info (pf_example r) = frames_info heap_example"
  "free_frame_list (pf_example r) = free_frame_list heap_example" "ptr_page_directory (pf_example r) = ptr_page_directory heap_example"
  "mem (pf_example r) = mem heap_example" "kh_da (pf_example r) = da_example" "envs (pf_example r) = ex_envs 0"
  "pageref_at (pf_example r) = r" "cpu_proc (pf_example r) = Some 1" "PageRepAlgoType (pf_example r) = 3"
  "EnableBuffering (pf_example r) = 0"
  by (simp_all add: pf_example_def rr_example_def sched_example_def kheap.defs psched.defs pfile.defs pfault.defs heap_example_def)

lemma pf_example_room: "heap_room ex_tables ex_tab (\<lambda>_. 0) (unat (2 :: u32)) (pf_example r)"
proof -
  have "heap_room ex_tables ex_tab (\<lambda>_. 0) 2 heap_example"
    using heap_example_blocks heap_example_calm by (simp add: heap_room_def da_example_def)
  then show ?thesis by (subst heap_room_cong [where s = heap_example]) simp_all
qed

lemma page_of_small: "page_of (0x800000) = 0x800000" "page_of (0x801004) = 0x801000" "page_of (0x802000) = 0x802000"
  by (simp_all add: page_of_def ROUNDDOWN_def)

lemma example_policy: "serves 2 {} [0x800000, 0x801000, 0x802000, 0x800000, 0x801000 :: u32] 4"
proof -
  have "farthest_faults 2 [0x800000, 0x801000, 0x802000, 0x800000, 0x801000 :: u32] [] = 4" by (simp add: next_use_def)
  then show ?thesis using farthest_faults_serve [of "[]" 2 "[0x800000, 0x801000, 0x802000, 0x800000, 0x801000 :: u32]"] by simp
qed

theorem optimal_faults_minimal_witness:
  "\<exists>n t. get_optimal_num_faults [] 2 [1, 2, 3, 1, 2] (pf_example (\<lambda>r. if r = 1 then 0x800000 else if r = 2 then 0x801004 else 0x802000)) = Inr (int n, t)
    \<and> serves 2 {} [0x800000, 0x801000, 0x802000, 0x800000, 0x801000 :: u32] n \<and> n \<le> 4 \<and> live (kh_da t) = live da_example"
  using optimal_faults_minimal [OF pf_example_room [of "\<lambda>r. if r = 1 then 0x800000 else if r = 2 then 0x801004 else 0x802000"],
      of "[]" "[1, 2, 3, 1, 2]"] example_policy
  by (auto simp: ws_pages_def page_of_small)
theorem optimal_faults_bounds_witness:
  "\<exists>n t. get_optimal_num_faults [] 2 [1, 2, 2, 1] (pf_example (\<lambda>r. if r = 1 then 0x800000 else 0x801004)) = Inr (int n, t)
    \<and> n \<le> 4 \<and> n = 2"
  using optimal_faults_bounds [OF pf_example_room [of "\<lambda>r. if r = 1 then 0x800000 else 0x801004"], of "[]" "[1, 2, 2, 1]"]
  by (auto simp: ws_pages_def page_of_small insert_commute)

end
