(* ===== verification/FOS_Fault.thy ===== *)
theory FOS_Fault
  imports FOS_Optimal
begin

text \<open>
  Page faults: \<open>fault_handler\<close>, \<open>table_fault_handler\<close> and \<open>page_fault_handler\<close> of
  \<^verbatim>\<open>kern/trap/fault_handler.c\<close> with the placement and the replacement strategies CLOCK, LRU with
  time stamps, modified CLOCK and the trace collection of OPTIMAL.

  The faulting address (register CR2) is an argument.  \<open>allocate_frame\<close> never returns \<open>E_NO_MEM\<close>
  (it panics itself), so the panics of the callers on that code have no branch; the placement
  code nested in the CLOCK branch is guarded by a size test that the enclosing \<open>else\<close> has just
  refuted and is left out.  Messages, trap-frame printing and the translation cache are not
  modelled.
\<close>

section \<open>Bringing a page in\<close>

text \<open>The steps all strategies end with: take a frame, map it, read the page from the page file; a page
  that is not there is cleared if it belongs to the user heap or stack and otherwise ends the
  process.  The result is \<open>None\<close> when the handler goes on, \<open>Some d\<close> when it returns after
  \<open>env_exit\<close> with ending \<open>d\<close>.\<close>

definition bring_page :: "nat \<Rightarrow> u32 \<Rightarrow> u32 \<Rightarrow> 'a pfile_scheme \<Rightarrow> (ending option \<times> 'a pfile_scheme) res" where
  "bring_page e va perm s =
     bindE (allocate_frame s) (\<lambda>(f, s1).
     bindE (map_frame kernel_create_page_table (env_page_directory (envs s1 e)) f va perm s1) (\<lambda>s2.
     bindE (pf_read_env_page e va s2) (\<lambda>(ret, s3).
     if ret = E_PAGE_NOT_EXIST_IN_PF then
       if \<not> user_heap_or_stack va then bindE (env_exit s3) (\<lambda>(d, s4). Inr (Some d, s4))
       else Inr (None, clear_page va s3)
     else Inr (None, s3))))"

definition set_last :: "nat \<Rightarrow> u32 \<Rightarrow> 'a psched_scheme \<Rightarrow> 'a psched_scheme" where
  "set_last e w = upd_env e (\<lambda>v. v\<lparr>page_last_WS_element := w\<rparr>)"

definition set_ws :: "nat \<Rightarrow> u32 list \<Rightarrow> 'a psched_scheme \<Rightarrow> 'a psched_scheme" where
  "set_ws e ws = upd_env e (\<lambda>v. v\<lparr>page_WS_list := ws\<rparr>)"

text \<open>\<open>proceed\<close> runs the rest of a strategy unless the process has exited.\<close>

definition proceed ::
  "(ending option \<times> 'a pfile_scheme) res \<Rightarrow> ('a pfile_scheme \<Rightarrow> 'a pfile_scheme res) \<Rightarrow> (ending \<times> 'a pfile_scheme) res" where
  "proceed r f = bindE r (\<lambda>(x, s). case x of Some d \<Rightarrow> Inr (d, s) | None \<Rightarrow> bindE (f s) (\<lambda>s1. Inr (Returns, s1)))"

section \<open>Placement\<close>

definition place_page :: "nat \<Rightarrow> u32 \<Rightarrow> 'a pfile_scheme \<Rightarrow> (ending \<times> 'a pfile_scheme) res" where
  "place_page e fault_va s =
     (let va = ROUNDDOWN fault_va PAGE_SIZE in
      proceed (bring_page e va (PERM_PRESENT OR PERM_USER OR PERM_WRITEABLE) s) (\<lambda>s1.
        bindE (env_page_ws_list_create_element va s1) (\<lambda>(w, s2).
        let s3 = set_ws e (page_WS_list (envs s2 e) @ [w]) s2; ws = page_WS_list (envs s3 e)
        in if word_of_nat (length ws) = page_WS_max_size (envs s3 e) then Inr (set_last e (LIST_FIRST ws) s3) else Inr s3)))"

section \<open>The circular list\<close>

definition next_round :: "u32 list \<Rightarrow> u32 \<Rightarrow> u32 res" where
  "next_round ws w = (if w = LIST_LAST ws then Inr (LIST_FIRST ws) else LIST_NEXT ws w)"

text \<open>Move the head to the tail until the wanted element is first; as many moves as there are elements
  are enough.\<close>

fun rotate_loop :: "nat \<Rightarrow> u32 \<Rightarrow> u32 list \<Rightarrow> u32 list res" where
  "rotate_loop 0 w ws = (if LIST_FIRST ws = w then Inr ws else Inl Spin)"
| "rotate_loop (Suc n) w ws =
     (if LIST_FIRST ws = w then Inr ws
      else case ws of [] \<Rightarrow> Inl Fault | x # xs \<Rightarrow> rotate_loop n w (xs @ [x]))"

definition rotate_to :: "nat \<Rightarrow> u32 \<Rightarrow> 'a psched_scheme \<Rightarrow> 'a psched_scheme res" where
  "rotate_to e w s = (let ws = page_WS_list (envs s e) in bindE (rotate_loop (length ws) w ws) (\<lambda>ws1. Inr (set_ws e ws1 s)))"

section \<open>CLOCK\<close>

definition deref_va :: "u32 \<Rightarrow> 'a psched_scheme \<Rightarrow> u32 res" where
  "deref_va w s = (if w = 0 then Inl Fault else Inr (wse_va s w))"

text \<open>One turn of the hand per step; one full round and one step are enough, because the round clears
  the used bit of every page.\<close>

fun clock_loop :: "nat \<Rightarrow> nat \<Rightarrow> 'a psched_scheme \<Rightarrow> (u32 \<times> 'a psched_scheme) res" where
  "clock_loop 0 e s = Inl Spin"
| "clock_loop (Suc n) e s =
     (let w = page_last_WS_element (envs s e); dir = env_page_directory (envs s e) in
      bindE (deref_va w s) (\<lambda>va.
      bindE (pt_get_page_permissions dir va s) (\<lambda>(perms, s1).
      if perms AND PERM_USED \<noteq> 0 then
        bindE (pt_set_page_permissions dir va 0 PERM_USED s1) (\<lambda>s2.
        let ws = page_WS_list (envs s2 e) in
        bindE (LIST_NEXT ws w) (\<lambda>nxt.
        clock_loop n e (set_last e (if nxt = 0 then LIST_FIRST ws else nxt) s2)))
      else Inr (w, s1))))"

definition clock_select :: "nat \<Rightarrow> 'a psched_scheme \<Rightarrow> (u32 \<times> 'a psched_scheme) res" where
  "clock_select e s =
     (let s1 = (if page_last_WS_element (envs s e) = 0 then set_last e (LIST_FIRST (page_WS_list (envs s e))) s else s)
      in clock_loop (Suc (length (page_WS_list (envs s1 e)))) e s1)"

definition clock_evict :: "nat \<Rightarrow> u32 \<Rightarrow> 'a pfile_scheme \<Rightarrow> 'a pfile_scheme res" where
  "clock_evict e va s =
     (let dir = env_page_directory (envs s e) in
      bindE (pt_get_page_permissions dir va s) (\<lambda>(perms, s1).
      bindE (if perms AND PERM_MODIFIED \<noteq> 0 then
               bindE (get_frame_info dir va s1) (\<lambda>(fp, _, s2).
               case fp of None \<Rightarrow> Inr s2 | Some _ \<Rightarrow> bindE (pf_update_env_page e va s2) (\<lambda>(_, s3). Inr s3))
             else Inr s1) (\<lambda>s4.
      unmap_frame dir va s4)))"

definition clock_replace :: "nat \<Rightarrow> u32 \<Rightarrow> 'a pfile_scheme \<Rightarrow> (ending \<times> 'a pfile_scheme) res" where
  "clock_replace e fault_va s =
     bindE (clock_select e s) (\<lambda>(w, s1).
     bindE (clock_evict e (wse_va s1 w) s1) (\<lambda>s2.
     let va = ROUNDDOWN fault_va PAGE_SIZE
     in proceed (bring_page e va (PERM_USER OR PERM_WRITEABLE) (upd_wse w (\<lambda>v. v\<lparr>virtual_address := va\<rparr>) s2)) (\<lambda>s3.
          bindE (next_round (page_WS_list (envs s3 e)) w) (\<lambda>nxt.
          bindE (rotate_to e nxt s3) (\<lambda>s4.
          Inr (set_last e (LIST_FIRST (page_WS_list (envs s4 e))) s4))))))"

section \<open>LRU with time stamps\<close>

fun lru_loop :: "u32 list \<Rightarrow> u32 \<Rightarrow> u32 \<Rightarrow> 'a psched_scheme \<Rightarrow> u32" where
  "lru_loop [] min_time_stamp victim s = victim"
| "lru_loop (w # ws) min_time_stamp victim s =
     (if time_stamp (wse_at s w) < min_time_stamp then lru_loop ws (time_stamp (wse_at s w)) w s
      else lru_loop ws min_time_stamp victim s)"

definition lru_select :: "nat \<Rightarrow> 'a psched_scheme \<Rightarrow> u32 res" where
  "lru_select e s =
     (let ws = page_WS_list (envs s e); v = lru_loop ws 0xFFFFFFFF 0 s;
          v1 = (if v = 0 then LIST_FIRST ws else v)
      in if v1 = 0 then Inl (Panic ''LRU Replacement: WS empty!'') else Inr v1)"

abbreviation (input) PGFLTEMP :: u32 where "PGFLTEMP \<equiv> PTSIZE - PAGE_SIZE"

definition lru_evict :: "nat \<Rightarrow> u32 \<Rightarrow> 'a pfile_scheme \<Rightarrow> 'a pfile_scheme res" where
  "lru_evict e va s =
     (let dir = env_page_directory (envs s e) in
      bindE (pt_get_page_permissions dir va s) (\<lambda>(perms, s1).
      bindE (if perms AND PERM_MODIFIED \<noteq> 0 then
               bindE (get_frame_info dir va s1) (\<lambda>(fp, _, s2).
               case fp of
                 None \<Rightarrow> Inr s2
               | Some _ \<Rightarrow> bindE (pf_update_env_page e va s2) (\<lambda>(_, s3). unmap_frame dir PGFLTEMP s3))
             else Inr s1) (\<lambda>s4.
      unmap_frame dir va s4)))"

definition lru_replace :: "nat \<Rightarrow> u32 \<Rightarrow> 'a pfile_scheme \<Rightarrow> (ending \<times> 'a pfile_scheme) res" where
  "lru_replace e fault_va s =
     bindE (lru_select e s) (\<lambda>w.
     bindE (lru_evict e (wse_va s w) s) (\<lambda>s1.
     let va = ROUNDDOWN fault_va PAGE_SIZE;
         s2 = upd_wse w (\<lambda>v. v\<lparr>virtual_address := va, time_stamp := 0\<rparr>) s1
     in proceed (bring_page e va (PERM_PRESENT OR PERM_USER OR PERM_WRITEABLE) s2) (\<lambda>s3.
          let ws = page_WS_list (envs s3 e)
          in Inr (set_last e (if word_of_nat (length ws) = page_WS_max_size (envs s3 e) then LIST_FIRST ws else 0) s3))))"

section \<open>Modified CLOCK\<close>

text \<open>Each inner loop makes one round; its result tells whether a victim was found and where the hand
  stands.  Two outer rounds are enough: after the first the used bits are clear.\<close>

fun mclock_clean_loop ::
  "nat \<Rightarrow> nat \<Rightarrow> u32 \<Rightarrow> u32 \<Rightarrow> 'a psched_scheme \<Rightarrow> (bool \<times> u32 \<times> 'a psched_scheme) res" where
  "mclock_clean_loop 0 e start w s = Inl Spin"
| "mclock_clean_loop (Suc n) e start w s =
     bindE (deref_va w s) (\<lambda>va.
     bindE (pt_get_page_permissions (env_page_directory (envs s e)) va s) (\<lambda>(perms, s1).
     if perms AND PERM_USED = 0 \<and> perms AND PERM_MODIFIED = 0 then Inr (True, w, s1)
     else bindE (next_round (page_WS_list (envs s1 e)) w) (\<lambda>nxt.
          if nxt \<noteq> start then mclock_clean_loop n e start nxt s1 else Inr (False, nxt, s1))))"

fun mclock_used_loop ::
  "nat \<Rightarrow> nat \<Rightarrow> u32 \<Rightarrow> u32 \<Rightarrow> 'a psched_scheme \<Rightarrow> (bool \<times> u32 \<times> 'a psched_scheme) res" where
  "mclock_used_loop 0 e start w s = Inl Spin"
| "mclock_used_loop (Suc n) e start w s =
     bindE (deref_va w s) (\<lambda>va.
     bindE (pt_get_page_permissions (env_page_directory (envs s e)) va s) (\<lambda>(perms, s1).
     if perms AND PERM_USED = 0 then Inr (True, w, s1)
     else bindE (pt_set_page_permissions (env_page_directory (envs s1 e)) va 0 PERM_USED s1) (\<lambda>s2.
          bindE (next_round (page_WS_list (envs s2 e)) w) (\<lambda>nxt.
          if nxt \<noteq> start then mclock_used_loop n e start nxt s2 else Inr (False, nxt, s2)))))"

fun mclock_rounds :: "nat \<Rightarrow> nat \<Rightarrow> u32 \<Rightarrow> 'a psched_scheme \<Rightarrow> (u32 \<times> 'a psched_scheme) res" where
  "mclock_rounds 0 e w s = Inl Spin"
| "mclock_rounds (Suc n) e w s =
     (let len = length (page_WS_list (envs s e)) in
      bindE (mclock_clean_loop len e w w s) (\<lambda>(found, w1, s1).
      if found then Inr (w1, s1)
      else bindE (mclock_used_loop len e w w1 s1) (\<lambda>(found2, w2, s2).
           if found2 then Inr (w2, s2) else mclock_rounds n e w2 s2)))"

definition mclock_select :: "nat \<Rightarrow> 'a psched_scheme \<Rightarrow> (u32 \<times> 'a psched_scheme) res" where
  "mclock_select e s =
     (let it = page_last_WS_element (envs s e)
      in mclock_rounds 2 e (if it = 0 then LIST_FIRST (page_WS_list (envs s e)) else it) s)"

definition mclock_evict :: "nat \<Rightarrow> u32 \<Rightarrow> 'a pfile_scheme \<Rightarrow> 'a pfile_scheme res" where
  "mclock_evict e va s =
     (let dir = env_page_directory (envs s e) in
      bindE (pt_get_page_permissions dir va s) (\<lambda>(perms, s1).
      bindE (if perms AND PERM_MODIFIED \<noteq> 0 then
               bindE (get_frame_info dir va s1) (\<lambda>(fp, _, s2).
               bindE (pf_update_env_page e va s2) (\<lambda>(_, s3). unmap_frame (ptr_page_directory s3) PGFLTEMP s3))
             else Inr s1) (\<lambda>s4.
      unmap_frame dir va s4)))"

definition mclock_replace :: "nat \<Rightarrow> u32 \<Rightarrow> 'a pfile_scheme \<Rightarrow> (ending \<times> 'a pfile_scheme) res" where
  "mclock_replace e fault_va s =
     bindE (mclock_select e s) (\<lambda>(w, s1).
     bindE (next_round (page_WS_list (envs s1 e)) w) (\<lambda>nxt.
     bindE (rotate_to e nxt s1) (\<lambda>s2.
     bindE (mclock_evict e (wse_va s2 w) s2) (\<lambda>s3.
     let va = ROUNDDOWN fault_va PAGE_SIZE;
         s4 = upd_wse w (\<lambda>v. v\<lparr>virtual_address := va, time_stamp := 0\<rparr>) s3
     in proceed (bring_page e va (PERM_PRESENT OR PERM_USER OR PERM_WRITEABLE) s4) (\<lambda>s5.
          Inr (set_last e (LIST_FIRST (page_WS_list (envs s5 e))) s5))))))"

section \<open>Collecting the trace for OPTIMAL\<close>

fun hide_pages :: "u32 list \<Rightarrow> nat \<Rightarrow> 'a psched_scheme \<Rightarrow> 'a psched_scheme res" where
  "hide_pages [] e s = Inr s"
| "hide_pages (w # ws) e s =
     bindE (pt_set_page_permissions (env_page_directory (envs s e)) (wse_va s w) 0 PERM_PRESENT s) (hide_pages ws e)"

fun empty_active :: "u32 list \<Rightarrow> nat \<Rightarrow> 'a psched_scheme \<Rightarrow> 'a psched_scheme res" where
  "empty_active [] e s = Inr s"
| "empty_active (w # ws) e s =
     bindE (pt_set_page_permissions (env_page_directory (envs s e)) (wse_va s w) 0 PERM_PRESENT s) (\<lambda>s1.
     bindE (kfree w (upd_env e (\<lambda>v. v\<lparr>ActiveWorkingSet := ws\<rparr>) s1)) (empty_active ws e))"

definition optimal_record :: "nat \<Rightarrow> u32 \<Rightarrow> 'a pfault_scheme \<Rightarrow> 'a pfault_scheme res" where
  "optimal_record e fault_va s =
     bindE (kmalloc sizeof_WorkingSetElement s) (\<lambda>(w, s1).
     if w = 0 then Inl Fault
     else let s2 = upd_env e (\<lambda>v. v\<lparr>ActiveWorkingSet := ActiveWorkingSet v @ [w]\<rparr>)
                     (upd_wse w (\<lambda>v. v\<lparr>virtual_address := ROUNDDOWN fault_va PAGE_SIZE\<rparr>) s1)
          in bindE (kmalloc sizeof_PageRefElement s2) (\<lambda>(r, s3).
             if r = 0 then Inl Fault
             else Inr (upd_env e (\<lambda>v. v\<lparr>referenceStreamList := referenceStreamList v @ [r]\<rparr>)
                         (s3\<lparr>pageref_at := (pageref_at s3)(r := fault_va)\<rparr>))))"

definition optimal_fault :: "nat \<Rightarrow> u32 \<Rightarrow> 'a pfault_scheme \<Rightarrow> (ending \<times> 'a pfault_scheme) res" where
  "optimal_fault e fault_va s =
     (let v = envs s e; dir = env_page_directory v; va = ROUNDDOWN fault_va PAGE_SIZE in
      bindE (if referenceStreamList v = [] then hide_pages (page_WS_list v) e s else Inr s) (\<lambda>s1.
      if ws_find va (ActiveWorkingSet (envs s1 e)) s1 \<noteq> None then
        bindE (pt_set_page_permissions dir fault_va PERM_PRESENT 0 s1) (\<lambda>s2. Inr (Returns, s2))
      else
        bindE (if page_WS_max_size (envs s1 e) \<le> word_of_nat (length (ActiveWorkingSet (envs s1 e)))
               then empty_active (ActiveWorkingSet (envs s1 e)) e s1 else Inr s1) (\<lambda>s2.
        bindE (optimal_record e fault_va s2) (\<lambda>s3.
        bindE (get_frame_info dir va s3) (\<lambda>(fp, _, s4).
        case fp of
          Some _ \<Rightarrow> bindE (pt_set_page_permissions dir va (PERM_PRESENT OR PERM_USER OR PERM_WRITEABLE) 0 s4) (\<lambda>s5.
                     Inr (Returns, s5))
        | None \<Rightarrow> proceed (bring_page e va (PERM_USER OR PERM_WRITEABLE) s4) Inr)))))"

section \<open>The handlers\<close>

definition page_fault_handler :: "nat \<Rightarrow> u32 \<Rightarrow> 'a pfault_scheme \<Rightarrow> (ending \<times> 'a pfault_scheme) res" where
  "page_fault_handler e fault_va s =
     (if isPageReplacmentAlgorithmOPTIMAL s \<noteq> 0 then optimal_fault e fault_va s
      else if word_of_nat (length (page_WS_list (envs s e))) < page_WS_max_size (envs s e) then place_page e fault_va s
      else if isPageReplacmentAlgorithmCLOCK s \<noteq> 0 then clock_replace e fault_va s
      else if isPageReplacmentAlgorithmLRU PG_REP_LRU_TIME_APPROX s \<noteq> 0 then lru_replace e fault_va s
      else if isPageReplacmentAlgorithmModifiedCLOCK s \<noteq> 0 then mclock_replace e fault_va s
      else Inr (Returns, s))"

definition table_fault_handler :: "nat \<Rightarrow> u32 \<Rightarrow> 'a psched_scheme \<Rightarrow> 'a psched_scheme res" where
  "table_fault_handler e fault_va s =
     bindE (kernel_create_page_table (env_page_directory (envs s e)) fault_va s) (\<lambda>(_, s1). Inr s1)"

record Trapframe =
  tf_err :: u32
  tf_eip :: u32
  tf_cs :: u16

abbreviation (input) FEC_WR :: u32 where "FEC_WR \<equiv> 2"
abbreviation (input) UTEXT :: u32 where "UTEXT \<equiv> 2 * PTSIZE"

definition count_repeats :: "Trapframe \<Rightarrow> u32 \<Rightarrow> nat option \<Rightarrow> 'a pfault_scheme \<Rightarrow> 'a pfault_scheme res" where
  "count_repeats tf fault_va cur_env s =
     bindE (if last_fault_va s = fault_va \<and> last_faulted_env s = cur_env then
              let s1 = s\<lparr>num_repeated_fault := num_repeated_fault s + 1\<rparr>
              in if num_repeated_fault s1 = 3 then Inl (Panic ''Failed to handle fault!'') else Inr s1
            else Inr (s\<lparr>before_last_fault_va := last_fault_va s, before_last_eip := last_eip s, num_repeated_fault := 0\<rparr>)) (\<lambda>s2.
     Inr (s2\<lparr>last_eip := tf_eip tf, last_fault_va := fault_va, last_faulted_env := cur_env\<rparr>))"

definition check_stacks :: "bool \<Rightarrow> u32 \<Rightarrow> nat option \<Rightarrow> 'a pfault_scheme \<Rightarrow> unit res" where
  "check_stacks userTrap fault_va cur_env s =
     (if \<not> userTrap then
        if (case cur_env of None \<Rightarrow> False
            | Some e \<Rightarrow> kstack (envs s e) \<le> fault_va \<and> fault_va < kstack (envs s e) + PAGE_SIZE)
        then Inl (Panic ''User Kernel Stack: overflow exception!'')
        else if sched_stack s \<le> fault_va \<and> fault_va < sched_stack s + PAGE_SIZE
        then Inl (Panic ''Sched Kernel Stack of CPU: overflow exception!'')
        else if KERNEL_HEAP_MAX \<le> fault_va then Inl (Panic ''Kernel: heap overflow exception!'') else Inr ()
      else if USTACKTOP \<le> fault_va \<and> fault_va < USER_TOP then Inl (Panic ''User: stack underflow exception!'') else Inr ())"

text \<open>The checks of a user access: \<open>True\<close> when the access is refused and the process must exit.\<close>

definition invalid_access :: "Trapframe \<Rightarrow> nat \<Rightarrow> u32 \<Rightarrow> 'a pfault_scheme \<Rightarrow> (bool \<times> 'a pfault_scheme) res" where
  "invalid_access tf e fault_va s =
     (let dir = env_page_directory (envs s e) in
      if USER_TOP \<le> fault_va then Inr (True, s)
      else
        bindE (if USER_HEAP_START \<le> fault_va \<and> fault_va < USER_HEAP_MAX then
                 bindE (pt_get_page_permissions dir fault_va s) (\<lambda>(perms, s1). Inr (perms AND PERM_UHPAGE = 0, s1))
               else Inr (False, s)) (\<lambda>(unmarked, s2).
        if unmarked then Inr (True, s2)
        else
          bindE (if tf_err tf AND FEC_WR \<noteq> 0 then
                   bindE (pt_get_page_permissions dir fault_va s2) (\<lambda>(perms, s3).
                   Inr (perms AND PERM_PRESENT \<noteq> 0 \<and> perms AND PERM_WRITEABLE = 0, s3))
                 else Inr (False, s2)) (\<lambda>(readonly, s4).
          Inr (readonly \<or> fault_va < UTEXT, s4))))"

definition fault_handler :: "Trapframe \<Rightarrow> u32 \<Rightarrow> 'a pfault_scheme \<Rightarrow> (ending \<times> 'a pfault_scheme) res" where
  "fault_handler tf fault_va s =
     bindE (get_cpu_proc s) (\<lambda>(cur_env, s1).
     bindE (count_repeats tf fault_va cur_env s1) (\<lambda>s2.
     let userTrap = (tf_cs tf AND 3 = 3) in
     bindE (check_stacks userTrap fault_va cur_env s2) (\<lambda>_.
     case cur_env of
       None \<Rightarrow> Inl (Panic ''faulted env == NULL!'')
     | Some e \<Rightarrow>
        (let dir = env_page_directory (envs s2 e) in
         bindE (load dir (PDX fault_va) s2) (\<lambda>pde.
         if pde AND PERM_PRESENT \<noteq> PERM_PRESENT then
           bindE (table_fault_handler e fault_va (upd_env e (\<lambda>v. v\<lparr>tableFaultsCounter := tableFaultsCounter v + 1\<rparr>) s2)) (\<lambda>s3.
           Inr (Returns, s3))
         else
           bindE (if userTrap then invalid_access tf e fault_va s2 else Inr (False, s2)) (\<lambda>(refused, s3).
           if refused then env_exit s3
           else
             bindE (pt_get_page_permissions dir fault_va s3) (\<lambda>(perms, s4).
             if perms AND PERM_PRESENT \<noteq> 0
             then Inl (Panic ''Page is exist! page fault due to violation of ACCESS RIGHTS'')
             else
               let s5 = upd_env e (\<lambda>v. v\<lparr>pageFaultsCounter := pageFaultsCounter v + 1\<rparr>) s4
               in if isBufferingEnabled s5 \<noteq> 0 then Inl (Panic ''this function is not required...!!'')
                  else page_fault_handler e fault_va s5)))))))"

end
