(* ===== verification/FOS_Replace.thy ===== *)
theory FOS_Replace
  imports FOS_Fault
begin

text \<open>
  The victim searches of the page-replacement strategies of \<open>FOS_Fault\<close>, compared with reference
  descriptions on the list of the working set read from the hand on: CLOCK, LRU with time stamps
  and modified CLOCK.  The used and modified bits are those of the page-table entries.
\<close>

section \<open>A working set whose pages have page tables\<close>

definition wse_entry :: "(u32 \<Rightarrow> u32) \<Rightarrow> 'a psched_scheme \<Rightarrow> u32 \<Rightarrow> u32" where
  "wse_entry tab s w = mem s (tab w) (unat (PTX (wse_va s w)))"

definition used :: "(u32 \<Rightarrow> u32) \<Rightarrow> 'a psched_scheme \<Rightarrow> u32 \<Rightarrow> bool" where
  "used tab s w \<longleftrightarrow> wse_entry tab s w AND PERM_USED \<noteq> 0"

definition modif :: "(u32 \<Rightarrow> u32) \<Rightarrow> 'a psched_scheme \<Rightarrow> u32 \<Rightarrow> bool" where
  "modif tab s w \<longleftrightarrow> wse_entry tab s w AND PERM_MODIFIED \<noteq> 0"

text \<open>\<open>tab w\<close> is the page table that holds the entry of element \<open>w\<close>.\<close>

definition ws_ok :: "(u32 \<Rightarrow> u32) \<Rightarrow> nat \<Rightarrow> 'a psched_scheme \<Rightarrow> bool" where
  "ws_ok tab e s \<longleftrightarrow> (let W = page_WS_list (envs s e); dir = env_page_directory (envs s e) in
     W \<noteq> [] \<and> distinct W \<and> 0 \<notin> set W
     \<and> (\<forall>w \<in> set W. table_ok s dir (wse_va s w) (tab w) \<and> tab w \<noteq> dir)
     \<and> inj_on (\<lambda>w. (tab w, unat (PTX (wse_va s w)))) (set W))"

definition clear1 :: "(u32 \<Rightarrow> u32) \<Rightarrow> u32 \<Rightarrow> 'a psched_scheme \<Rightarrow> 'a psched_scheme" where
  "clear1 tab w s = set_entry (tab w) (unat (PTX (wse_va s w))) (wse_entry tab s w AND NOT PERM_USED) s"

text \<open>The used bits of the given elements are cleared.\<close>

fun clear_used :: "(u32 \<Rightarrow> u32) \<Rightarrow> u32 list \<Rightarrow> 'a psched_scheme \<Rightarrow> 'a psched_scheme" where
  "clear_used tab [] s = s"
| "clear_used tab (w # ws) s = clear_used tab ws (clear1 tab w s)"

lemma clear1_simps [simp]:
  "envs (clear1 tab w s) = envs s" "wse_at (clear1 tab w s) = wse_at s" "wse_va (clear1 tab w s) x = wse_va s x"
  by (simp_all add: clear1_def set_entry_def wse_va_def)

lemma set_last_simps [simp]:
  "wse_at (set_last e x s) = wse_at s" "wse_va (set_last e x s) w = wse_va s w" "mem (set_last e x s) = mem s"
  "page_WS_list (envs (set_last e x s) d) = page_WS_list (envs s d)" "wse_entry tab (set_last e x s) w = wse_entry tab s w"
  "env_page_directory (envs (set_last e x s) d) = env_page_directory (envs s d)"
  "page_last_WS_element (envs (set_last e x s) e) = x"
  "set_last e y (set_last e x s) = set_last e y s"
  by (simp_all add: set_last_def upd_env_def wse_va_def wse_entry_def)

lemma table_ok_set_last [simp]: "table_ok (set_last e x s) dir va p = table_ok s dir va p"
  by (simp add: set_last_def upd_env_def table_ok_def heap_calm_def calm_def heap_va_of_def)

lemma ws_ok_set_last [simp]: "ws_ok tab e (set_last d x s) = ws_ok tab e s"
  by (simp add: ws_ok_def)

lemma clear1_set_last: "clear1 tab w (set_last e x s) = set_last e x (clear1 tab w s)"
  by (simp add: clear1_def) (simp add: set_entry_def set_last_def upd_env_def)

lemma clear_used_set_last: "clear_used tab ws (set_last e x s) = set_last e x (clear_used tab ws s)"
  by (induction ws arbitrary: s) (simp_all add: clear1_set_last)

lemma table_ok_set_entry:
  "\<lbrakk>table_ok s dir va p; q \<noteq> dir\<rbrakk> \<Longrightarrow> table_ok (set_entry q i v s) dir va p"
  by (simp add: table_ok_def set_entry_def heap_va_of_def Let_def)

lemma ws_ok_clear1: "\<lbrakk>ws_ok tab e s; w \<in> set (page_WS_list (envs s e))\<rbrakk> \<Longrightarrow> ws_ok tab e (clear1 tab w s)"
  by (simp add: ws_ok_def Let_def) (auto simp: clear1_def intro!: table_ok_set_entry)

lemma clear1_entry:
  assumes "ws_ok tab e s" and "w \<in> set (page_WS_list (envs s e))" and "x \<in> set (page_WS_list (envs s e))"
  shows "wse_entry tab (clear1 tab w s) x = (if x = w then wse_entry tab s w AND NOT PERM_USED else wse_entry tab s x)"
proof (cases "x = w")
  case True
  then show ?thesis by (simp add: wse_entry_def) (simp add: clear1_def set_entry_def wse_entry_def)
next
  case False
  then have "(tab x, unat (PTX (wse_va s x))) \<noteq> (tab w, unat (PTX (wse_va s w)))"
    using assms by (auto simp: ws_ok_def Let_def inj_on_def)
  then show ?thesis using False by (simp add: wse_entry_def) (auto simp: clear1_def set_entry_def)
qed

lemma clear_bits: "(e AND NOT 0x20) AND 0x20 = (0 :: u32)" "((e AND NOT 0x20) AND 0x40 = (0 :: u32)) = (e AND 0x40 = 0)"
  by (simp_all add: and.assoc)

lemma clear1_bits:
  assumes "ws_ok tab e s" and "w \<in> set (page_WS_list (envs s e))" and "x \<in> set (page_WS_list (envs s e))"
  shows "used tab (clear1 tab w s) x \<longleftrightarrow> used tab s x \<and> x \<noteq> w" and "modif tab (clear1 tab w s) x \<longleftrightarrow> modif tab s x"
  using clear1_entry [OF assms] clear_bits by (simp_all add: used_def modif_def)

lemma clear_used_inv:
  "\<lbrakk>ws_ok tab e s; set ws \<subseteq> set (page_WS_list (envs s e))\<rbrakk> \<Longrightarrow>
   ws_ok tab e (clear_used tab ws s) \<and> envs (clear_used tab ws s) = envs s
   \<and> (\<forall>x \<in> set (page_WS_list (envs s e)). used tab (clear_used tab ws s) x = (used tab s x \<and> x \<notin> set ws)
        \<and> modif tab (clear_used tab ws s) x = modif tab s x)"
proof (induction ws arbitrary: s)
  case (Cons w ws)
  then have w: "w \<in> set (page_WS_list (envs s e))" by simp
  show ?case using Cons.IH [OF ws_ok_clear1 [OF Cons.prems(1) w]] Cons.prems(2) clear1_bits [OF Cons.prems(1) w] by auto
qed simp

lemma clear_used_bits:
  assumes "ws_ok tab e s" and "set ws \<subseteq> set (page_WS_list (envs s e))"
  shows "ws_ok tab e (clear_used tab ws s)" and "envs (clear_used tab ws s) = envs s"
    and "x \<in> set (page_WS_list (envs s e)) \<Longrightarrow> used tab (clear_used tab ws s) x \<longleftrightarrow> used tab s x \<and> x \<notin> set ws"
    and "x \<in> set (page_WS_list (envs s e)) \<Longrightarrow> modif tab (clear_used tab ws s) x \<longleftrightarrow> modif tab s x"
  using clear_used_inv [OF assms] by auto
section \<open>Going round the working set\<close>

definition place :: "u32 list \<Rightarrow> u32 \<Rightarrow> nat" where
  "place W w = length (takeWhile (\<lambda>x. x \<noteq> w) W)"

definition hop :: "u32 list \<Rightarrow> u32 \<Rightarrow> u32" where
  "hop W w = W ! (Suc (place W w) mod length W)"

text \<open>The working set in the order in which the hand meets it, starting at \<open>h\<close>.\<close>

definition from_hand :: "u32 list \<Rightarrow> u32 \<Rightarrow> u32 list" where
  "from_hand W h = dropWhile (\<lambda>x. x \<noteq> h) W @ takeWhile (\<lambda>x. x \<noteq> h) W"

definition follows :: "u32 list \<Rightarrow> u32 list \<Rightarrow> bool" where
  "follows W xs \<longleftrightarrow> (\<forall>j. Suc j < length xs \<longrightarrow> hop W (xs ! j) = xs ! Suc j)"

lemma place_lt: "w \<in> set W \<Longrightarrow> place W w < length W \<and> W ! place W w = w"
  by (induction W) (auto simp: place_def)

lemma place_nth: "\<lbrakk>distinct W; i < length W\<rbrakk> \<Longrightarrow> place W (W ! i) = i"
  by (metis nth_eq_iff_index_eq nth_mem place_lt)

lemma from_hand_rotate: "w \<in> set W \<Longrightarrow> from_hand W w = rotate (place W w) W"
  using place_lt [of w W] by (simp add: from_hand_def rotate_drop_take place_def takeWhile_eq_take [symmetric] dropWhile_eq_drop [symmetric])

lemma from_hand_set: "w \<in> set W \<Longrightarrow> set (from_hand W w) = set W \<and> length (from_hand W w) = length W"
  by (simp add: from_hand_rotate)

lemma from_hand_distinct: "\<lbrakk>w \<in> set W; distinct W\<rbrakk> \<Longrightarrow> distinct (from_hand W w)"
  by (simp add: from_hand_rotate)

lemma from_hand_hd: "w \<in> set W \<Longrightarrow> from_hand W w = w # tl (from_hand W w)"
  by (induction W) (auto simp: from_hand_def)

lemma follows_round:
  assumes "h \<in> set W" and "distinct W"
  shows "follows W (from_hand W h @ [h])"
proof -
  let ?n = "length W" and ?i = "place W h" and ?xs = "from_hand W h @ [h]"
  have n: "0 < ?n" "length (from_hand W h) = ?n" using assms(1) by (auto simp: from_hand_set)
  have nth: "?xs ! j = W ! ((?i + j) mod ?n)" if "j \<le> ?n" for j
    using that n place_lt [OF assms(1)] assms(1) by (cases "j = ?n") (auto simp: nth_append from_hand_rotate nth_rotate)
  show ?thesis
    unfolding follows_def
  proof (intro allI impI)
    fix j
    assume "Suc j < length ?xs"
    then have j: "Suc j \<le> ?n" using n(2) by simp
    have "hop W (W ! ((?i + j) mod ?n)) = W ! (Suc ((?i + j) mod ?n) mod ?n)"
      using place_nth [OF assms(2), of "(?i + j) mod ?n"] n(1) by (simp add: hop_def)
    then show "hop W (?xs ! j) = ?xs ! Suc j" using nth [of j] nth [of "Suc j"] j by (simp add: mod_Suc_eq)
  qed
qed

lemma follows_Cons: "follows W (x # xs) \<Longrightarrow> follows W xs \<and> (xs \<noteq> [] \<longrightarrow> hop W x = hd xs)"
  by (cases xs) (fastforce simp: follows_def)+

lemma follows_prefix: "follows W (xs @ ys) \<Longrightarrow> follows W xs"
  by (auto simp: follows_def nth_append split: if_splits dest: spec)

lemma LIST_NEXT_nth: "\<lbrakk>distinct W; i < length W\<rbrakk> \<Longrightarrow> LIST_NEXT W (W ! i) = Inr (LIST_FIRST (drop (Suc i) W))"
proof (induction W arbitrary: i)
  case (Cons x W)
  then show ?case by (cases i) auto
qed simp

lemma LIST_NEXT_hop:
  assumes "distinct W" and "0 \<notin> set W" and "w \<in> set W"
  shows "\<exists>nxt. LIST_NEXT W w = Inr nxt \<and> (if nxt = 0 then LIST_FIRST W else nxt) = hop W w"
    and "next_round W w = Inr (hop W w)"
proof -
  let ?i = "place W w"
  have i: "?i < length W" "W ! ?i = w" using place_lt [OF assms(3)] by auto
  have nx: "LIST_NEXT W w = Inr (LIST_FIRST (drop (Suc ?i) W))" using LIST_NEXT_nth [OF assms(1) i(1)] i(2) by simp
  show "\<exists>nxt. LIST_NEXT W w = Inr nxt \<and> (if nxt = 0 then LIST_FIRST W else nxt) = hop W w"
    and "next_round W w = Inr (hop W w)"
  proof (atomize (full), cases "Suc ?i = length W")
    case True
    then have "w = last W" using i by (metis Suc_eq_plus1 add_diff_cancel_right' last_conv_nth length_greater_0_conv less_nat_zero_code list.size(3))
    then show "(\<exists>nxt. LIST_NEXT W w = Inr nxt \<and> (if nxt = 0 then LIST_FIRST W else nxt) = hop W w) \<and> next_round W w = Inr (hop W w)"
      using True nx assms(3) by (cases W) (auto simp: next_round_def LIST_FIRST_def LIST_LAST_def hop_def)
  next
    case False
    then have lt: "Suc ?i < length W" using i by simp
    then have "LIST_FIRST (drop (Suc ?i) W) = W ! Suc ?i" by (simp add: LIST_FIRST_def Cons_nth_drop_Suc [symmetric])
    moreover have "W ! Suc ?i \<noteq> 0" using lt assms(2) by (metis nth_mem)
    moreover have "w \<noteq> last W"
    proof
      assume "w = last W"
      then have "w = W ! (length W - 1)" using assms(3) by (metis last_conv_nth length_pos_if_in_set length_greater_0_conv)
      then have "?i = length W - 1" using place_nth [OF assms(1), of "length W - 1"] i(1) by simp
      then show False using lt by simp
    qed
    ultimately show "(\<exists>nxt. LIST_NEXT W w = Inr nxt \<and> (if nxt = 0 then LIST_FIRST W else nxt) = hop W w) \<and> next_round W w = Inr (hop W w)"
      using nx lt assms(3) by (auto simp: next_round_def LIST_LAST_def hop_def)
  qed
qed

lemma hop_in: "w \<in> set W \<Longrightarrow> hop W w \<in> set W"
  using length_pos_if_in_set [of w W] by (simp add: hop_def)
section \<open>CLOCK finds the first page that was not used\<close>

lemma set_last_same: "page_last_WS_element (envs s e) = x \<Longrightarrow> set_last e x s = s"
  by (auto simp: set_last_def upd_env_def)

lemma ws_okD:
  assumes "ws_ok tab e s"
  shows "page_WS_list (envs s e) \<noteq> []" and "distinct (page_WS_list (envs s e))" and "0 \<notin> set (page_WS_list (envs s e))"
    and "w \<in> set (page_WS_list (envs s e)) \<Longrightarrow> table_ok s (env_page_directory (envs s e)) (wse_va s w) (tab w)"
  using assms by (auto simp: ws_ok_def Let_def)

lemma clock_loop_step:
  assumes "ws_ok tab e s" and "page_last_WS_element (envs s e) = w" and "w \<in> set (page_WS_list (envs s e))"
  shows "clock_loop (Suc n) e s = (if used tab s w
    then clock_loop n e (set_last e (hop (page_WS_list (envs s e)) w) (clear1 tab w s)) else Inr (w, s))"
proof -
  note d = ws_okD [OF assms(1)]
  have w0: "w \<noteq> 0" using d(3) assms(3) by auto
  note tk = d(4) [OF assms(3)]
  obtain nxt where nxt: "LIST_NEXT (page_WS_list (envs s e)) w = Inr nxt"
    "(if nxt = 0 then LIST_FIRST (page_WS_list (envs s e)) else nxt) = hop (page_WS_list (envs s e)) w"
    using LIST_NEXT_hop(1) [OF d(2,3) assms(3)] by auto
  have set: "pt_set_page_permissions (env_page_directory (envs s e)) (wse_va s w) 0 PERM_USED s = Inr (clear1 tab w s)"
    using pt_set_page_permissions_ok [OF tk] by (simp add: clear1_def wse_entry_def)
  show ?thesis
    using assms(2) w0 set nxt by (auto simp: deref_va_def pt_get_page_permissions_ok [OF tk] used_def wse_entry_def Let_def split: if_splits)
qed

lemma clock_loop_scan:
  assumes "ws_ok tab e s" and "follows (page_WS_list (envs s e)) (xs @ [v])" and "set (xs @ [v]) \<subseteq> set (page_WS_list (envs s e))"
    and "page_last_WS_element (envs s e) = hd (xs @ [v])" and "\<forall>x \<in> set xs. used tab s x" and "distinct xs"
    and "\<not> used tab s v \<or> v \<in> set xs"
  shows "clock_loop (Suc (length xs + k)) e s = Inr (v, set_last e v (clear_used tab xs s))"
  using assms
proof (induction xs arbitrary: s)
  case Nil
  then show ?case using clock_loop_step [OF Nil.prems(1), of v k] by (simp add: set_last_same del: clock_loop.simps)
next
  case (Cons x xs)
  let ?W = "page_WS_list (envs s e)" and ?s = "set_last e (hd (xs @ [v])) (clear1 tab x s)"
  have x: "x \<in> set ?W" using Cons.prems(3) by simp
  have f: "follows ?W (xs @ [v])" "hop ?W x = hd (xs @ [v])" using follows_Cons [of ?W x "xs @ [v]"] Cons.prems(2) by auto
  have sub: "set (xs @ [v]) \<subseteq> set ?W" using Cons.prems(3) by simp
  have u: "used tab ?s y = (used tab s y \<and> y \<noteq> x)" if "y \<in> set ?W" for y
    using clear1_bits(1) [OF Cons.prems(1) x that] by (simp add: used_def)
  have "clock_loop (Suc (length xs + k)) e ?s = Inr (v, set_last e v (clear_used tab xs ?s))"
  proof (rule Cons.IH)
    show "ws_ok tab e ?s" using ws_ok_clear1 [OF Cons.prems(1) x] by simp
    show "\<forall>y \<in> set xs. used tab ?s y" "\<not> used tab ?s v \<or> v \<in> set xs" "distinct xs"
      using Cons.prems(5-7) u sub by auto
  qed (use f(1) sub in simp_all)
  then show ?case
    using clock_loop_step [OF Cons.prems(1) _ x, of "Suc (length xs + k)"] Cons.prems(4,5) f(2)
    by (simp add: clear_used_set_last del: clock_loop.simps)
qed

definition hand :: "nat \<Rightarrow> 'a psched_scheme \<Rightarrow> u32" where
  "hand e s = (let l = page_last_WS_element (envs s e) in if l = 0 then LIST_FIRST (page_WS_list (envs s e)) else l)"

text \<open>The reference strategy: the first element of the round, starting at the hand, that satisfies \<open>P\<close>, if any.\<close>

definition first_in_round :: "(u32 \<Rightarrow> bool) \<Rightarrow> nat \<Rightarrow> 'a psched_scheme \<Rightarrow> u32 option" where
  "first_in_round P e s = find P (from_hand (page_WS_list (envs s e)) (hand e s))"

lemma hand_in: "\<lbrakk>ws_ok tab e s; page_last_WS_element (envs s e) \<in> insert 0 (set (page_WS_list (envs s e)))\<rbrakk> \<Longrightarrow>
  hand e s \<in> set (page_WS_list (envs s e))"
  using ws_okD(1) [of tab e s] by (auto simp: hand_def Let_def LIST_FIRST_def split: list.splits)

lemma find_takeWhile:
  "find (\<lambda>x. \<not> P x) xs = Some v \<Longrightarrow> \<exists>zs. xs = takeWhile P xs @ v # zs \<and> \<not> P v"
  by (induction xs) (auto split: if_splits)

lemma find_none_takeWhile: "find (\<lambda>x. \<not> P x) xs = None \<Longrightarrow> takeWhile P xs = xs"
  by (induction xs) (auto split: if_splits)

lemma scan_split:
  fixes P :: "u32 \<Rightarrow> bool"
  assumes "h \<in> set R"
  defines "v \<equiv> case find (\<lambda>x. \<not> P x) R of Some w \<Rightarrow> w | None \<Rightarrow> h"
  shows "\<exists>zs. R @ [h] = (takeWhile P R @ [v]) @ zs" and "\<not> P v \<or> v \<in> set (takeWhile P R)"
proof -
  have "(\<exists>zs. R @ [h] = (takeWhile P R @ [v]) @ zs) \<and> (\<not> P v \<or> v \<in> set (takeWhile P R))"
  proof (cases "find (\<lambda>x. \<not> P x) R")
    case None
    then have "takeWhile P R = R" by (rule find_none_takeWhile)
    moreover have "v = h" using None by (simp add: v_def)
    ultimately show ?thesis using assms(1) by (metis append_Nil2)
  next
    case (Some w)
    then obtain zs where "R = takeWhile P R @ w # zs" "\<not> P w" using find_takeWhile [OF Some] by blast
    moreover have "v = w" using Some by (simp add: v_def)
    ultimately show ?thesis by (metis append.assoc append_Cons append_Nil)
  qed
  then show "\<exists>zs. R @ [h] = (takeWhile P R @ [v]) @ zs" and "\<not> P v \<or> v \<in> set (takeWhile P R)" by blast+
qed

lemma round_scan:
  fixes P :: "u32 \<Rightarrow> bool"
  assumes "h \<in> set W" and "distinct W"
  defines "xs \<equiv> takeWhile P (from_hand W h)"
  defines "v \<equiv> case find (\<lambda>x. \<not> P x) (from_hand W h) of Some w \<Rightarrow> w | None \<Rightarrow> h"
  shows "follows W (xs @ [v])" and "set (xs @ [v]) \<subseteq> set W" and "hd (xs @ [v]) = h" and "distinct xs"
    and "\<forall>x \<in> set xs. P x" and "\<not> P v \<or> v \<in> set xs" and "length xs \<le> length W"
proof -
  note R = from_hand_set [OF assms(1)] from_hand_distinct [OF assms(1,2)] from_hand_hd [OF assms(1)]
  obtain zs where zs: "from_hand W h @ [h] = (xs @ [v]) @ zs"
    using scan_split(1) [of h "from_hand W h" P] R(1) assms(1) by (auto simp: xs_def v_def)
  have "follows W ((xs @ [v]) @ zs)" using follows_round [OF assms(1,2)] zs by simp
  then show "follows W (xs @ [v])" by (rule follows_prefix)
  have "set (xs @ [v]) \<subseteq> set (from_hand W h @ [h])" unfolding zs by auto
  then show "set (xs @ [v]) \<subseteq> set W" using R(1) assms(1) by auto
  have "hd (from_hand W h @ [h]) = h" using R(3) by (metis append_Cons list.sel(1))
  then show "hd (xs @ [v]) = h" unfolding zs by (cases xs) simp_all
  show "\<not> P v \<or> v \<in> set xs" using scan_split(2) [of h "from_hand W h" P] R(1) assms(1) by (auto simp: xs_def v_def)
  show "distinct xs" "\<forall>x \<in> set xs. P x" "length xs \<le> length W"
    using R(1,2) length_takeWhile_le [of P "from_hand W h"] by (auto simp: xs_def dest: set_takeWhileD)
qed

text \<open>Claim C11.  The CLOCK hand always finds a victim within one round and a step: the victim is the first
  page of the round, from the hand on, whose used bit is clear, and the page at the hand when
  all are used.  Exactly the used bits of the pages the hand has passed are cleared, the modified
  bits stay, and the hand rests on the victim.\<close>

theorem clock_select_spec:
  assumes "ws_ok tab e s" and "page_last_WS_element (envs s e) \<in> insert 0 (set (page_WS_list (envs s e)))"
  shows "\<exists>v t. clock_select e s = Inr (v, t) \<and> v \<in> set (page_WS_list (envs s e)) \<and> page_last_WS_element (envs t e) = v
    \<and> v = (case first_in_round (\<lambda>w. \<not> used tab s w) e s of Some w \<Rightarrow> w | None \<Rightarrow> hand e s)
    \<and> (\<forall>w \<in> set (page_WS_list (envs s e)). modif tab t w = modif tab s w
        \<and> used tab t w = (used tab s w \<and> w \<notin> set (takeWhile (used tab s) (from_hand (page_WS_list (envs s e)) (hand e s)))))"
proof -
  let ?W = "page_WS_list (envs s e)" and ?h = "hand e s"
  define xs where "xs = takeWhile (used tab s) (from_hand ?W ?h)"
  define v where "v = (case first_in_round (\<lambda>w. \<not> used tab s w) e s of Some w \<Rightarrow> w | None \<Rightarrow> ?h)"
  define s1 where "s1 = (if page_last_WS_element (envs s e) = 0 then set_last e (LIST_FIRST ?W) s else s)"
  have s1: "ws_ok tab e s1" "page_WS_list (envs s1 e) = ?W" "page_last_WS_element (envs s1 e) = ?h" "used tab s1 = used tab s"
    "modif tab s1 = modif tab s"
    using assms(1) by (auto simp: s1_def hand_def Let_def used_def modif_def fun_eq_iff)
  have sc: "follows ?W (xs @ [v])" "set (xs @ [v]) \<subseteq> set ?W" "hd (xs @ [v]) = ?h" "distinct xs" "\<forall>x \<in> set xs. used tab s x"
    "\<not> used tab s v \<or> v \<in> set xs" "length xs \<le> length ?W"
    unfolding xs_def v_def first_in_round_def by (rule round_scan [OF hand_in [OF assms] ws_okD(2) [OF assms(1)]])+
  have "clock_loop (Suc (length xs + (length ?W - length xs))) e s1 = Inr (v, set_last e v (clear_used tab xs s1))"
    by (rule clock_loop_scan [OF s1(1), unfolded s1(2-4), OF sc(1,2) sc(3) [symmetric] sc(5,4,6)])
  then have sel: "clock_select e s = Inr (v, set_last e v (clear_used tab xs s1))"
    using s1(2) sc(7) by (simp add: clock_select_def s1_def [symmetric] del: clock_loop.simps)
  have "set xs \<subseteq> set (page_WS_list (envs s1 e))" using sc(2) s1(2) by simp
  note c = clear_used_bits [OF s1(1) this]
  have bits: "modif tab (set_last e v (clear_used tab xs s1)) w = modif tab s w"
    "used tab (set_last e v (clear_used tab xs s1)) w = (used tab s w \<and> w \<notin> set xs)" if "w \<in> set ?W" for w
    using c(3,4) [of w] that s1 by (simp_all add: used_def modif_def)
  have "v \<in> set ?W" using sc(2) by simp
  then show ?thesis
    unfolding xs_def [symmetric] v_def [symmetric]
    by (intro exI [of _ v] exI [of _ "set_last e v (clear_used tab xs s1)"]) (simp add: sel bits)
qed

lemma lru_loop_spec:
  assumes "v = 0 \<or> v \<in> D \<and> time_stamp (wse_at s v) = m \<and> m < 0xFFFFFFFF" and "v = 0 \<Longrightarrow> m = 0xFFFFFFFF" and "\<forall>w \<in> D. m \<le> time_stamp (wse_at s w)"
    and "0 \<notin> set ws"
  shows "\<exists>n. (lru_loop ws m v s = 0 \<or> lru_loop ws m v s \<in> D \<union> set ws \<and> time_stamp (wse_at s (lru_loop ws m v s)) = n \<and> n < 0xFFFFFFFF)
    \<and> (lru_loop ws m v s = 0 \<longrightarrow> n = 0xFFFFFFFF) \<and> (\<forall>w \<in> D \<union> set ws. n \<le> time_stamp (wse_at s w))"
  using assms
proof (induction ws arbitrary: m v D)
  case Nil
  then show ?case by auto
next
  case (Cons w ws)
  let ?t = "time_stamp (wse_at s w)"
  show ?case
  proof (cases "?t < m")
    case True
    have "m \<le> 0xFFFFFFFF" using unat_u32_lt [of m] by (simp add: word_le_nat_alt)
    then have "?t < 0xFFFFFFFF" using True by (rule less_le_trans [rotated])
    moreover have "\<forall>x \<in> insert w D. ?t \<le> time_stamp (wse_at s x)"
      using Cons.prems(3) True by (auto intro: order_trans [OF less_imp_le])
    ultimately show ?thesis using Cons.IH [of w "insert w D" ?t] Cons.prems(4) True by simp
  next
    case False
    then show ?thesis using Cons.IH [of v "insert w D" m] Cons.prems by auto
  qed
qed

text \<open>LRU replacement picks an element of the working set with the smallest time stamp and
  never fails on a non-empty working set.\<close>

theorem lru_select_spec:
  assumes "page_WS_list (envs s e) \<noteq> []" and "0 \<notin> set (page_WS_list (envs s e))"
  shows "\<exists>v. lru_select e s = Inr v \<and> v \<in> set (page_WS_list (envs s e))
    \<and> (\<forall>w \<in> set (page_WS_list (envs s e)). time_stamp (wse_at s v) \<le> time_stamp (wse_at s w))"
proof -
  let ?W = "page_WS_list (envs s e)"
  let ?v = "lru_loop ?W 0xFFFFFFFF 0 s"
  have top: "m \<le> 0xFFFFFFFF" for m :: u32 using unat_u32_lt [of m] by (simp add: word_le_nat_alt)
  have fst: "LIST_FIRST ?W \<in> set ?W" "LIST_FIRST ?W \<noteq> 0" using assms by (cases ?W; auto simp: LIST_FIRST_def)+
  obtain n where n: "?v = 0 \<or> ?v \<in> set ?W \<and> time_stamp (wse_at s ?v) = n" "?v = 0 \<longrightarrow> n = 0xFFFFFFFF"
    "\<forall>w \<in> set ?W. n \<le> time_stamp (wse_at s w)"
    using lru_loop_spec [of 0 "{}" s "0xFFFFFFFF" ?W] assms(2) by auto
  show ?thesis
  proof (cases "?v = 0")
    case True
    then have "lru_select e s = Inr (LIST_FIRST ?W)" using fst(2) by (simp add: lru_select_def Let_def)
    moreover have "time_stamp (wse_at s w) = 0xFFFFFFFF" if "w \<in> set ?W" for w
      using n(2,3) True that top [of "time_stamp (wse_at s w)"] by (auto intro: antisym)
    ultimately show ?thesis using fst(1) by (intro exI [of _ "LIST_FIRST ?W"]) simp
  next
    case False
    then have "lru_select e s = Inr ?v" by (simp add: lru_select_def Let_def)
    then show ?thesis using n False assms(2) by auto
  qed
qed
section \<open>Modified CLOCK\<close>

definition clean :: "(u32 \<Rightarrow> u32) \<Rightarrow> 'a psched_scheme \<Rightarrow> u32 \<Rightarrow> bool" where
  "clean tab s w \<longleftrightarrow> \<not> used tab s w \<and> \<not> modif tab s w"

lemma mclock_clean_step:
  assumes "ws_ok tab e s" and "w \<in> set (page_WS_list (envs s e))"
  shows "mclock_clean_loop (Suc n) e start w s = (if clean tab s w then Inr (True, w, s)
    else if hop (page_WS_list (envs s e)) w \<noteq> start then mclock_clean_loop n e start (hop (page_WS_list (envs s e)) w) s
    else Inr (False, start, s))"
proof -
  note d = ws_okD [OF assms(1)]
  have "w \<noteq> 0" using d(3) assms(2) by auto
  then show ?thesis
    using LIST_NEXT_hop(2) [OF d(2,3) assms(2)]
    by (auto simp: deref_va_def pt_get_page_permissions_ok [OF d(4) [OF assms(2)]] clean_def used_def modif_def wse_entry_def)
qed

lemma mclock_used_step:
  assumes "ws_ok tab e s" and "w \<in> set (page_WS_list (envs s e))"
  shows "mclock_used_loop (Suc n) e start w s = (if \<not> used tab s w then Inr (True, w, s)
    else if hop (page_WS_list (envs s e)) w \<noteq> start
      then mclock_used_loop n e start (hop (page_WS_list (envs s e)) w) (clear1 tab w s)
    else Inr (False, start, clear1 tab w s))"
proof -
  note d = ws_okD [OF assms(1)]
  note tk = d(4) [OF assms(2)]
  have w0: "w \<noteq> 0" using d(3) assms(2) by auto
  have set: "pt_set_page_permissions (env_page_directory (envs s e)) (wse_va s w) 0 PERM_USED s = Inr (clear1 tab w s)"
    using pt_set_page_permissions_ok [OF tk] by (simp add: clear1_def wse_entry_def)
  show ?thesis
    using LIST_NEXT_hop(2) [OF d(2,3) assms(2)] w0 set
    by (auto simp: deref_va_def pt_get_page_permissions_ok [OF tk] used_def wse_entry_def)
qed

text \<open>A round that meets \<open>xs\<close> first and then either a victim \<open>v\<close> or its own start again.\<close>

lemma mclock_clean_found:
  assumes "ws_ok tab e s" and "follows (page_WS_list (envs s e)) (xs @ [v])" and "set (xs @ [v]) \<subseteq> set (page_WS_list (envs s e))"
    and "\<forall>x \<in> set xs. \<not> clean tab s x" and "clean tab s v" and "start \<notin> set (tl (xs @ [v]))"
  shows "mclock_clean_loop (Suc (length xs + k)) e start (hd (xs @ [v])) s = Inr (True, v, s)"
  using assms
proof (induction xs)
  case Nil
  then show ?case using mclock_clean_step [OF Nil.prems(1), of v k start] by (simp del: mclock_clean_loop.simps)
next
  case (Cons x xs)
  let ?W = "page_WS_list (envs s e)"
  have x: "x \<in> set ?W" "\<not> clean tab s x" using Cons.prems(3,4) by auto
  have f: "follows ?W (xs @ [v])" "hop ?W x = hd (xs @ [v])" using follows_Cons [of ?W x "xs @ [v]"] Cons.prems(2) by auto
  have ne: "hd (xs @ [v]) \<noteq> start" "start \<notin> set (tl (xs @ [v]))" using Cons.prems(6) by (cases xs; auto)+
  have "mclock_clean_loop (Suc (length xs + k)) e start (hd (xs @ [v])) s = Inr (True, v, s)"
    by (rule Cons.IH [OF Cons.prems(1) f(1)]) (use Cons.prems(3-5) ne(2) in auto)
  then show ?case using mclock_clean_step [OF Cons.prems(1) x(1), of "Suc (length xs + k)" start] x(2) f(2) ne(1)
    by (simp del: mclock_clean_loop.simps)
qed

lemma mclock_clean_none:
  assumes "ws_ok tab e s" and "follows (page_WS_list (envs s e)) (xs @ [start])" and "set xs \<subseteq> set (page_WS_list (envs s e))"
    and "\<forall>x \<in> set xs. \<not> clean tab s x" and "start \<notin> set (tl xs)" and "xs \<noteq> []"
  shows "mclock_clean_loop (length xs) e start (hd xs) s = Inr (False, start, s)"
  using assms
proof (induction xs)
  case (Cons x xs)
  let ?W = "page_WS_list (envs s e)"
  have x: "x \<in> set ?W" "\<not> clean tab s x" using Cons.prems(3,4) by auto
  have f: "follows ?W (xs @ [start])" "hop ?W x = hd (xs @ [start])" using follows_Cons [of ?W x "xs @ [start]"] Cons.prems(2) by auto
  note step = mclock_clean_step [OF Cons.prems(1) x(1), of "length xs" start]
  show ?case
  proof (cases "xs = []")
    case True
    then show ?thesis using step x(2) f(2) by (simp del: mclock_clean_loop.simps)
  next
    case False
    have ne: "hd xs \<noteq> start" "start \<notin> set (tl xs)" using Cons.prems(5) False by (cases xs; auto)+
    have "mclock_clean_loop (length xs) e start (hd xs) s = Inr (False, start, s)"
      by (rule Cons.IH [OF Cons.prems(1) f(1)]) (use Cons.prems(3,4) ne(2) False in auto)
    then show ?thesis using step x(2) f(2) ne(1) False by (simp del: mclock_clean_loop.simps)
  qed
qed simp

lemma mclock_used_found:
  assumes "ws_ok tab e s" and "follows (page_WS_list (envs s e)) (xs @ [v])" and "set (xs @ [v]) \<subseteq> set (page_WS_list (envs s e))"
    and "\<forall>x \<in> set xs. used tab s x" and "\<not> used tab s v" and "start \<notin> set (tl (xs @ [v]))" and "distinct xs"
  shows "mclock_used_loop (Suc (length xs + k)) e start (hd (xs @ [v])) s = Inr (True, v, clear_used tab xs s)"
  using assms
proof (induction xs arbitrary: s)
  case Nil
  then show ?case using mclock_used_step [OF Nil.prems(1), of v k start] by (simp del: mclock_used_loop.simps)
next
  case (Cons x xs)
  let ?W = "page_WS_list (envs s e)"
  have x: "x \<in> set ?W" "used tab s x" using Cons.prems(3,4) by auto
  have f: "follows ?W (xs @ [v])" "hop ?W x = hd (xs @ [v])" using follows_Cons [of ?W x "xs @ [v]"] Cons.prems(2) by auto
  have ne: "hd (xs @ [v]) \<noteq> start" "start \<notin> set (tl (xs @ [v]))" using Cons.prems(6) by (cases xs; auto)+
  note b = clear1_bits(1) [OF Cons.prems(1) x(1)]
  have "mclock_used_loop (Suc (length xs + k)) e start (hd (xs @ [v])) (clear1 tab x s) = Inr (True, v, clear_used tab xs (clear1 tab x s))"
    by (rule Cons.IH [OF ws_ok_clear1 [OF Cons.prems(1) x(1)]]) (use f(1) Cons.prems(3-5,7) ne(2) b in auto)
  then show ?case using mclock_used_step [OF Cons.prems(1) x(1), of "Suc (length xs + k)" start] x(2) f(2) ne(1)
    by (simp del: mclock_used_loop.simps)
qed

lemma mclock_used_none:
  assumes "ws_ok tab e s" and "follows (page_WS_list (envs s e)) (xs @ [start])" and "set xs \<subseteq> set (page_WS_list (envs s e))"
    and "\<forall>x \<in> set xs. used tab s x" and "start \<notin> set (tl xs)" and "xs \<noteq> []" and "distinct xs"
  shows "mclock_used_loop (length xs) e start (hd xs) s = Inr (False, start, clear_used tab xs s)"
  using assms
proof (induction xs arbitrary: s)
  case (Cons x xs)
  let ?W = "page_WS_list (envs s e)"
  have x: "x \<in> set ?W" "used tab s x" using Cons.prems(3,4) by auto
  have f: "follows ?W (xs @ [start])" "hop ?W x = hd (xs @ [start])" using follows_Cons [of ?W x "xs @ [start]"] Cons.prems(2) by auto
  note step = mclock_used_step [OF Cons.prems(1) x(1), of "length xs" start] and b = clear1_bits(1) [OF Cons.prems(1) x(1)]
  show ?case
  proof (cases "xs = []")
    case True
    then show ?thesis using step x(2) f(2) by (simp del: mclock_used_loop.simps)
  next
    case False
    have ne: "hd xs \<noteq> start" "start \<notin> set (tl xs)" using Cons.prems(5) False by (cases xs; auto)+
    have "mclock_used_loop (length xs) e start (hd xs) (clear1 tab x s) = Inr (False, start, clear_used tab xs (clear1 tab x s))"
      by (rule Cons.IH [OF ws_ok_clear1 [OF Cons.prems(1) x(1)]]) (use f(1) Cons.prems(3,4,7) ne(2) False b in auto)
    then show ?thesis using step x(2) f(2) ne(1) False by (simp del: mclock_used_loop.simps)
  qed
qed simp

lemma round_parts:
  assumes "h \<in> set W" and "distinct W"
  shows "h \<notin> set (tl (from_hand W h))" and "from_hand W h \<noteq> []" and "hd (from_hand W h) = h"
    and "from_hand W h = xs @ v # zs \<Longrightarrow> follows W (xs @ [v]) \<and> set (xs @ [v]) \<subseteq> set W \<and> h \<notin> set (tl (xs @ [v]))
      \<and> hd (xs @ [v]) = h \<and> distinct xs \<and> length W = Suc (length xs + length zs)"
proof -
  let ?R = "from_hand W h"
  note R = from_hand_set [OF assms(1)] from_hand_distinct [OF assms] from_hand_hd [OF assms(1)]
  show tl: "h \<notin> set (tl ?R)" and ne: "?R \<noteq> []" and hd: "hd ?R = h"
    using R(2,3) by (metis distinct.simps(2), metis list.distinct(1), metis list.sel(1))
  assume eq: "?R = xs @ v # zs"
  have "follows W (xs @ [v])"
    using follows_prefix [of W "xs @ [v]" "zs @ [h]"] follows_round [OF assms] unfolding eq by simp
  moreover have "set (xs @ [v]) \<subseteq> set W" "distinct xs" "length W = Suc (length xs + length zs)"
    using R(1,2) unfolding eq by auto
  moreover have "h \<notin> set (tl (xs @ [v]))" "hd (xs @ [v]) = h" using tl hd unfolding eq by (cases xs; auto)+
  ultimately show "follows W (xs @ [v]) \<and> set (xs @ [v]) \<subseteq> set W \<and> h \<notin> set (tl (xs @ [v]))
      \<and> hd (xs @ [v]) = h \<and> distinct xs \<and> length W = Suc (length xs + length zs)" by blast
qed

lemma mclock_clean_round:
  assumes "ws_ok tab e s" and "h \<in> set (page_WS_list (envs s e))"
  shows "mclock_clean_loop (length (page_WS_list (envs s e))) e h h s =
    (case find (clean tab s) (from_hand (page_WS_list (envs s e)) h) of Some v \<Rightarrow> Inr (True, v, s) | None \<Rightarrow> Inr (False, h, s))"
proof -
  let ?W = "page_WS_list (envs s e)"
  let ?R = "from_hand ?W h"
  note d = ws_okD(2) [OF assms(1)] and R = from_hand_set [OF assms(2)]
  note rp = round_parts [OF assms(2) d]
  show ?thesis
  proof (cases "find (clean tab s) ?R")
    case None
    have "mclock_clean_loop (length ?R) e h (hd ?R) s = Inr (False, h, s)"
      by (rule mclock_clean_none [OF assms(1) follows_round [OF assms(2) d] _ _ rp(1,2)])
        (use R None in \<open>simp_all add: find_None_iff\<close>)
    then show ?thesis using None R rp(3) by simp
  next
    case (Some v)
    define xs where "xs = takeWhile (\<lambda>x. \<not> clean tab s x) ?R"
    obtain zs where zs: "?R = xs @ v # zs" "clean tab s v"
      using find_takeWhile [of "\<lambda>x. \<not> clean tab s x" ?R v] Some by (auto simp: xs_def)
    note sp = rp(4) [OF zs(1)]
    have "\<forall>x \<in> set xs. \<not> clean tab s x" by (auto simp: xs_def dest: set_takeWhileD)
    then have "mclock_clean_loop (Suc (length xs + length zs)) e h (hd (xs @ [v])) s = Inr (True, v, s)"
      using sp zs(2) by (intro mclock_clean_found [OF assms(1)]) simp_all
    then show ?thesis using Some sp by (simp del: mclock_clean_loop.simps)
  qed
qed

lemma mclock_used_round:
  assumes "ws_ok tab e s" and "h \<in> set (page_WS_list (envs s e))"
  shows "mclock_used_loop (length (page_WS_list (envs s e))) e h h s =
    (case find (\<lambda>w. \<not> used tab s w) (from_hand (page_WS_list (envs s e)) h) of
       Some v \<Rightarrow> Inr (True, v, clear_used tab (takeWhile (used tab s) (from_hand (page_WS_list (envs s e)) h)) s)
     | None \<Rightarrow> Inr (False, h, clear_used tab (from_hand (page_WS_list (envs s e)) h) s))"
proof -
  let ?W = "page_WS_list (envs s e)"
  let ?R = "from_hand ?W h"
  note d = ws_okD(2) [OF assms(1)] and R = from_hand_set [OF assms(2)]
  note rp = round_parts [OF assms(2) d]
  show ?thesis
  proof (cases "find (\<lambda>w. \<not> used tab s w) ?R")
    case None
    have "mclock_used_loop (length ?R) e h (hd ?R) s = Inr (False, h, clear_used tab ?R s)"
      by (rule mclock_used_none [OF assms(1) follows_round [OF assms(2) d] _ _ rp(1,2) from_hand_distinct [OF assms(2) d]])
        (use R None in \<open>simp_all add: find_None_iff\<close>)
    then show ?thesis using None R rp(3) by simp
  next
    case (Some v)
    define xs where "xs = takeWhile (used tab s) ?R"
    obtain zs where zs: "?R = xs @ v # zs" "\<not> used tab s v" using find_takeWhile [OF Some] by (auto simp: xs_def)
    note sp = rp(4) [OF zs(1)]
    have "\<forall>x \<in> set xs. used tab s x" by (auto simp: xs_def dest: set_takeWhileD)
    then have "mclock_used_loop (Suc (length xs + length zs)) e h (hd (xs @ [v])) s = Inr (True, v, clear_used tab xs s)"
      using sp zs(2) by (intro mclock_used_found [OF assms(1)]) simp_all
    then show ?thesis using Some sp by (simp add: xs_def del: mclock_used_loop.simps)
  qed
qed

text \<open>One outer round of the search.\<close>

lemma mclock_round:
  assumes "ws_ok tab e s" and "h \<in> set (page_WS_list (envs s e))"
  defines "R \<equiv> from_hand (page_WS_list (envs s e)) h"
  shows "mclock_rounds (Suc n) e h s =
    (case find (clean tab s) R of Some v \<Rightarrow> Inr (v, s)
     | None \<Rightarrow> (case find (\<lambda>w. \<not> used tab s w) R of Some v \<Rightarrow> Inr (v, clear_used tab (takeWhile (used tab s) R) s)
                | None \<Rightarrow> mclock_rounds n e h (clear_used tab R s)))"
  using mclock_clean_round [OF assms(1,2)] mclock_used_round [OF assms(1,2)]
  by (simp add: R_def Let_def split: option.split)

text \<open>Modified CLOCK always finds a victim, and in the order of preference of the strategy: the first
  page of the round that is neither used nor modified; otherwise the first that is not used;
  otherwise, all pages being used, the first that is not modified; otherwise the page at the
  hand.  Modified bits stay; no used bit is cleared when a page of the first kind exists, and
  otherwise exactly the used bits of the pages passed before the first unused one.\<close>

theorem mclock_select_spec:
  assumes "ws_ok tab e s" and "page_last_WS_element (envs s e) \<in> insert 0 (set (page_WS_list (envs s e)))"
  shows "\<exists>v t. mclock_select e s = Inr (v, t) \<and> v \<in> set (page_WS_list (envs s e))
    \<and> v = (case first_in_round (clean tab s) e s of Some w \<Rightarrow> w | None \<Rightarrow>
          (case first_in_round (\<lambda>w. \<not> used tab s w) e s of Some w \<Rightarrow> w | None \<Rightarrow>
          (case first_in_round (\<lambda>w. \<not> modif tab s w) e s of Some w \<Rightarrow> w | None \<Rightarrow> hand e s)))
    \<and> (\<forall>w \<in> set (page_WS_list (envs s e)). modif tab t w = modif tab s w
        \<and> used tab t w = (used tab s w \<and> (first_in_round (clean tab s) e s \<noteq> None
            \<or> w \<notin> set (takeWhile (used tab s) (from_hand (page_WS_list (envs s e)) (hand e s))))))"
proof -
  let ?W = "page_WS_list (envs s e)" and ?h = "hand e s"
  define R where "R = from_hand ?W ?h"
  have h: "?h \<in> set ?W" by (rule hand_in [OF assms])
  have R: "set R = set ?W" "hd R = ?h" "R \<noteq> []"
    using from_hand_set [OF h] round_parts(2,3) [OF h ws_okD(2) [OF assms(1)]] by (auto simp: R_def)
  have fr: "first_in_round P e s = find P R" for P by (simp add: first_in_round_def R_def)
  have sel: "mclock_select e s = mclock_rounds (Suc (Suc 0)) e ?h s"
    by (simp add: mclock_select_def hand_def Let_def numeral_2_eq_2 del: mclock_rounds.simps)
  note r1 = mclock_round [OF assms(1) h, of "Suc 0", folded R_def]
  have tw: "set (takeWhile (used tab s) R) \<subseteq> set ?W" using R(1) by (auto dest: set_takeWhileD)
  consider (one) v where "find (clean tab s) R = Some v"
    | (two) v where "find (clean tab s) R = None" "find (\<lambda>w. \<not> used tab s w) R = Some v"
    | (three) "find (clean tab s) R = None" "find (\<lambda>w. \<not> used tab s w) R = None" by fastforce
  then show ?thesis
  proof cases
    case one
    then have "v \<in> set ?W" using R(1) by (auto simp: find_Some_iff)
    then show ?thesis using sel r1 one by (simp add: fr R_def [symmetric] del: mclock_rounds.simps)
  next
    case two
    then have "v \<in> set ?W" using R(1) by (auto simp: find_Some_iff)
    then show ?thesis using sel r1 two clear_used_bits(3,4) [OF assms(1) tw]
      by (simp add: fr R_def [symmetric] del: mclock_rounds.simps)
  next
    case three
    define u where "u = clear_used tab R s"
    have all: "w \<in> set (takeWhile (used tab s) R) \<longleftrightarrow> w \<in> set ?W" for w unfolding find_none_takeWhile [OF three(2)] R(1) ..
    note c = clear_used_bits [OF assms(1), of R, folded u_def]
    have u: "ws_ok tab e u" "envs u = envs s" "\<And>w. w \<in> set R \<Longrightarrow> \<not> used tab u w" "\<And>w. w \<in> set R \<Longrightarrow> modif tab u w = modif tab s w"
      using c R(1) by auto
    have "find (clean tab u) R = find (\<lambda>w. \<not> modif tab s w) R" using u(3,4) by (intro find_cong) (auto simp: clean_def)
    moreover have "find (\<lambda>w. \<not> used tab u w) R = Some ?h" "takeWhile (used tab u) R = []"
      using R(2,3) u(3) by (cases R; simp)+
    ultimately have r2: "mclock_rounds (Suc 0) e ?h u = (case find (\<lambda>w. \<not> modif tab s w) R of Some v \<Rightarrow> Inr (v, u) | None \<Rightarrow> Inr (?h, u))"
      using mclock_round [OF u(1), of ?h 0, unfolded u(2), OF h, folded R_def] by (simp del: mclock_rounds.simps cong: option.case_cong)
    have v: "(case find (\<lambda>w. \<not> modif tab s w) R of Some w \<Rightarrow> w | None \<Rightarrow> ?h) \<in> set ?W"
      using h R(1) by (auto simp: find_Some_iff split: option.split)
    show ?thesis
      using sel r1 r2 three v u(3,4) R(1) all
      by (simp add: fr R_def [symmetric] u_def [symmetric] del: mclock_rounds.simps split: option.splits)
  qed
qed

section \<open>A working set of three pages\<close>

text \<open>Environment 2 has the pages 0x800000, 0x801000 and 0x802000 in its working set; \<open>ents\<close> are their
  page-table entries and \<open>stamps\<close> their time stamps.\<close>

definition ws_example :: "u32 list \<Rightarrow> u32 list \<Rightarrow> psched" where
  "ws_example ents stamps = rr_example\<lparr>
     frames_info := (\<lambda>f. if f = 1000 then null_frame_info\<lparr>fi_va := 0xF6004000\<rparr> else null_frame_info),
     mem := (\<lambda>p i. if p = 0xF6003000 \<and> i = 2 then 0x3E8001 else if p = 0xF6004000 \<and> i < length ents then ents ! i else 0),
     envs := (ex_envs 0)(2 := (ex_envs 0 2)\<lparr>page_WS_list := [0x101, 0x102, 0x103], env_page_directory := 0xF6003000, page_last_WS_element := 0\<rparr>),
     wse_at := (\<lambda>w. let i = unat (w - 0x101) in
       \<lparr>virtual_address = if i < 3 then 0x800000 + word_of_nat i * 0x1000 else 0, ws_empty = 0,
        time_stamp = if i < length stamps then stamps ! i else 0, sweeps_counter = 0\<rparr>)\<rparr>"

lemma ws_example_env [simp]:
  "page_WS_list (envs (ws_example es ts) 2) = [0x101, 0x102, 0x103]" "env_page_directory (envs (ws_example es ts) 2) = 0xF6003000"
  "page_last_WS_element (envs (ws_example es ts) 2) = 0"
  by (simp_all add: ws_example_def)

lemma ws_example_va [simp]:
  "wse_va (ws_example es ts) 0x101 = 0x800000" "wse_va (ws_example es ts) 0x102 = 0x801000" "wse_va (ws_example es ts) 0x103 = 0x802000"
  by (simp_all add: ws_example_def wse_va_def)

lemma ws_example_table:
  assumes "va \<in> {0x800000, 0x801000, 0x802000}"
  shows "table_ok (ws_example es ts) 0xF6003000 va 0xF6004000"
proof -
  have "unat (PDX va) = 2" "\<not> CHECK_IF_KERNEL_ADDRESS va" using assms by (auto simp: unat_PDX CHECK_IF_KERNEL_ADDRESS_def)
  moreover have "PPN (0x3E8000 :: u32) = 1000" by (simp add: PPN_def)
  moreover have "heap_calm heap_example" by (rule heap_example_calm)
  ultimately show ?thesis
    by (simp add: table_ok_def ws_example_def rr_example_def sched_example_def kheap.defs psched.defs present_def EXTRACT_ADDRESS_def
        heap_va_of_def heap_calm_def calm_def heap_example_def)
qed

lemma ws_example_ok: "ws_ok (\<lambda>_. 0xF6004000) 2 (ws_example es ts)"
  by (simp add: ws_ok_def ws_example_table unat_PTX Let_def)

lemma ws_example_bits:
  "wse_entry (\<lambda>_. 0xF6004000) (ws_example [a, b, c] ts) 0x101 = a" "wse_entry (\<lambda>_. 0xF6004000) (ws_example [a, b, c] ts) 0x102 = b"
  "wse_entry (\<lambda>_. 0xF6004000) (ws_example [a, b, c] ts) 0x103 = c"
  by (simp_all add: wse_entry_def unat_PTX) (simp_all add: ws_example_def)

lemmas ws_example_eval = ws_example_bits used_def modif_def clean_def first_in_round_def hand_def LIST_FIRST_def from_hand_def place_def Let_def

theorem clock_select_spec_witness:
  "\<exists>t. clock_select 2 (ws_example [0x21, 0x61, 0x41] []) = Inr (0x103, t) \<and> page_last_WS_element (envs t 2) = 0x103
     \<and> \<not> used (\<lambda>_. 0xF6004000) t 0x102"
  using clock_select_spec [OF ws_example_ok, of "[0x21, 0x61, 0x41]" "[]"] by (auto simp: ws_example_eval)

theorem lru_select_spec_witness: "lru_select 2 (ws_example [] [7, 3, 5]) = Inr 0x102"
  using lru_select_spec [of "ws_example [] [7, 3, 5]" 2] by (auto simp: ws_example_def)

theorem mclock_select_spec_witness:
  "\<exists>t. mclock_select 2 (ws_example [0x61, 0x21, 0x41] []) = Inr (0x103, t) \<and> \<not> used (\<lambda>_. 0xF6004000) t 0x101"
  using mclock_select_spec [OF ws_example_ok, of "[0x61, 0x21, 0x41]" "[]"] by (auto simp: ws_example_eval)

end
