(* ===== verification/FOS_String.thy ===== *)
theory FOS_String
  imports FOS_Prelude "HOL-Library.Signed_Division"
begin

text \<open>
  The string and memory routines of \<^verbatim>\<open>lib/string.c\<close>, over a flat byte-addressed memory
  (\<open>bytes\<close>).  Addresses are 32-bit words and wrap; \<^verbatim>\<open>char\<close> is a byte, \<^verbatim>\<open>int\<close> and
  \<^verbatim>\<open>long\<close> are 32-bit words read with \<open>sint\<close>.  A loop that runs until it meets a byte in memory is a
  \<open>partial_function\<close>, so that never returning is the value \<open>None\<close>; the counted loops recurse on the
  counter.  \<open>put\<close> and \<open>get\<close> are the reference operations on a run of bytes, \<open>cstr\<close> says that memory
  holds a NUL-terminated string.
\<close>

type_synonym bytes = "u32 \<Rightarrow> u8"

section \<open>Lengths and searches\<close>

partial_function (option) strlen_loop :: "bytes \<Rightarrow> u32 \<Rightarrow> i32 \<Rightarrow> i32 option" where
  "strlen_loop m s n = (if m s \<noteq> 0 then strlen_loop m (s + 1) (n + 1) else Some n)"

definition strlen :: "bytes \<Rightarrow> u32 \<Rightarrow> i32 option" where
  "strlen m s = strlen_loop m s 0"

fun strnlen_loop :: "nat \<Rightarrow> bytes \<Rightarrow> u32 \<Rightarrow> i32 \<Rightarrow> i32" where
  "strnlen_loop 0 m s n = n"
| "strnlen_loop (Suc k) m s n = (if m s \<noteq> 0 then strnlen_loop k m (s + 1) (n + 1) else n)"

definition strnlen :: "bytes \<Rightarrow> u32 \<Rightarrow> u32 \<Rightarrow> i32" where
  "strnlen m s sz = strnlen_loop (unat sz) m s 0"

partial_function (option) strchr :: "bytes \<Rightarrow> u32 \<Rightarrow> u8 \<Rightarrow> u32 option" where
  "strchr m s c = (if m s = 0 then Some 0 else if m s = c then Some s else strchr m (s + 1) c)"

partial_function (option) strfind :: "bytes \<Rightarrow> u32 \<Rightarrow> u8 \<Rightarrow> u32 option" where
  "strfind m s c = (if m s = 0 then Some s else if m s = c then Some s else strfind m (s + 1) c)"

fun memfind_loop :: "nat \<Rightarrow> bytes \<Rightarrow> u32 \<Rightarrow> u32 \<Rightarrow> i32 \<Rightarrow> u32" where
  "memfind_loop 0 m s ends c = s"
| "memfind_loop (Suc n) m s ends c =
     (if s < ends then (if m s = ucast c then s else memfind_loop n m (s + 1) ends c) else s)"

definition memfind :: "bytes \<Rightarrow> u32 \<Rightarrow> i32 \<Rightarrow> u32 \<Rightarrow> u32" where
  "memfind m s c n = memfind_loop (unat n) m s (s + n) c"

section \<open>Copying strings\<close>

partial_function (option) strcpy_loop :: "bytes \<Rightarrow> u32 \<Rightarrow> u32 \<Rightarrow> bytes option" where
  "strcpy_loop m dst src =
     (let c = m src; m1 = m(dst := c) in if c \<noteq> 0 then strcpy_loop m1 (dst + 1) (src + 1) else Some m1)"

definition strcpy :: "bytes \<Rightarrow> u32 \<Rightarrow> u32 \<Rightarrow> (u32 \<times> bytes) option" where
  "strcpy m dst src = map_option (\<lambda>m1. (dst, m1)) (strcpy_loop m dst src)"

fun strncpy_loop :: "nat \<Rightarrow> bytes \<Rightarrow> u32 \<Rightarrow> u32 \<Rightarrow> bytes" where
  "strncpy_loop 0 m dst src = m"
| "strncpy_loop (Suc n) m dst src =
     (let m1 = m(dst := m src) in strncpy_loop n m1 (dst + 1) (if m1 src \<noteq> 0 then src + 1 else src))"

definition strncpy :: "bytes \<Rightarrow> u32 \<Rightarrow> u32 \<Rightarrow> u32 \<Rightarrow> u32 \<times> bytes" where
  "strncpy m dst src sz = (dst, strncpy_loop (unat sz) m dst src)"

text \<open>The loop runs while \<^verbatim>\<open>--size > 0\<close>; its counter is \<open>size - 1\<close>.\<close>

fun strlcpy_loop :: "nat \<Rightarrow> bytes \<Rightarrow> u32 \<Rightarrow> u32 \<Rightarrow> u32 \<times> bytes" where
  "strlcpy_loop 0 m dst src = (dst, m)"
| "strlcpy_loop (Suc n) m dst src =
     (if m src \<noteq> 0 then strlcpy_loop n (m(dst := m src)) (dst + 1) (src + 1) else (dst, m))"

definition strlcpy :: "bytes \<Rightarrow> u32 \<Rightarrow> u32 \<Rightarrow> u32 \<Rightarrow> u32 \<times> bytes" where
  "strlcpy m dst_in src sz =
     (if 0 < sz then
        (let (dst, m1) = strlcpy_loop (unat (sz - 1)) m dst_in src in (dst - dst_in, m1(dst := 0)))
      else (0, m))"

section \<open>Comparisons\<close>

definition char_diff :: "u8 \<Rightarrow> u8 \<Rightarrow> int" where
  "char_diff a b = uint a - uint b"

partial_function (option) strcmp :: "bytes \<Rightarrow> u32 \<Rightarrow> u32 \<Rightarrow> int option" where
  "strcmp m p q = (if m p \<noteq> 0 \<and> m p = m q then strcmp m (p + 1) (q + 1) else Some (char_diff (m p) (m q)))"

fun strncmp_loop :: "nat \<Rightarrow> bytes \<Rightarrow> u32 \<Rightarrow> u32 \<Rightarrow> int" where
  "strncmp_loop 0 m p q = 0"
| "strncmp_loop (Suc n) m p q =
     (if m p \<noteq> 0 \<and> m p = m q then strncmp_loop n m (p + 1) (q + 1) else char_diff (m p) (m q))"

definition strncmp :: "bytes \<Rightarrow> u32 \<Rightarrow> u32 \<Rightarrow> u32 \<Rightarrow> int" where
  "strncmp m p q n = strncmp_loop (unat n) m p q"

fun memcmp_loop :: "nat \<Rightarrow> bytes \<Rightarrow> u32 \<Rightarrow> u32 \<Rightarrow> int" where
  "memcmp_loop 0 m s1 s2 = 0"
| "memcmp_loop (Suc n) m s1 s2 = (if m s1 \<noteq> m s2 then char_diff (m s1) (m s2) else memcmp_loop n m (s1 + 1) (s2 + 1))"

definition memcmp :: "bytes \<Rightarrow> u32 \<Rightarrow> u32 \<Rightarrow> u32 \<Rightarrow> int" where
  "memcmp m v1 v2 n = memcmp_loop (unat n) m v1 v2"

section \<open>Block operations, eight bytes at a time\<close>

text \<open>A \<^verbatim>\<open>uint64\<close> at address \<open>p\<close>, least significant byte first.\<close>

fun load_le :: "nat \<Rightarrow> bytes \<Rightarrow> u32 \<Rightarrow> 64 word" where
  "load_le 0 m p = 0"
| "load_le (Suc n) m p = ucast (m p) OR push_bit 8 (load_le n m (p + 1))"

fun store_le :: "nat \<Rightarrow> bytes \<Rightarrow> u32 \<Rightarrow> 64 word \<Rightarrow> bytes" where
  "store_le 0 m p w = m"
| "store_le (Suc n) m p w = store_le n (m(p := ucast w)) (p + 1) (drop_bit 8 w)"

definition load64 :: "bytes \<Rightarrow> u32 \<Rightarrow> 64 word" where "load64 m p = load_le 8 m p"
definition store64 :: "bytes \<Rightarrow> u32 \<Rightarrow> 64 word \<Rightarrow> bytes" where "store64 m p w = store_le 8 m p w"

text \<open>The \<^verbatim>\<open>int\<close> argument of \<open>memset\<close> is sign-extended to the block of eight bytes.\<close>

definition data_block :: "i32 \<Rightarrow> 64 word" where
  "data_block c = (let d0 = scast c :: 64 word; d1 = d0 OR push_bit 8 d0; d2 = d1 OR push_bit 16 d1
     in d2 OR push_bit 32 d2)"

fun memset_tail :: "nat \<Rightarrow> bytes \<Rightarrow> u32 \<Rightarrow> u8 \<Rightarrow> bytes" where
  "memset_tail 0 m p c = m"
| "memset_tail (Suc n) m p c = memset_tail n (m(p := c)) (p + 1) c"

fun memset_loop :: "nat \<Rightarrow> bytes \<Rightarrow> u32 \<Rightarrow> i32 \<Rightarrow> bytes" where
  "memset_loop n m p c =
     (if 8 \<le> n then memset_loop (n - 8) (store64 m p (data_block c)) (p + 8) c else memset_tail n m p (ucast c))"

definition memset :: "bytes \<Rightarrow> u32 \<Rightarrow> i32 \<Rightarrow> u32 \<Rightarrow> u32 \<times> bytes" where
  "memset m v c n = (v, memset_loop (unat n) m v c)"

fun copy_up :: "nat \<Rightarrow> bytes \<Rightarrow> u32 \<Rightarrow> u32 \<Rightarrow> bytes" where
  "copy_up 0 m d s = m"
| "copy_up (Suc n) m d s = copy_up n (m(d := m s)) (d + 1) (s + 1)"

fun memcpy_loop :: "nat \<Rightarrow> bytes \<Rightarrow> u32 \<Rightarrow> u32 \<Rightarrow> bytes" where
  "memcpy_loop n m d s =
     (if 8 \<le> n then memcpy_loop (n - 8) (store64 m d (load64 m s)) (d + 8) (s + 8) else copy_up n m d s)"

definition memcpy :: "bytes \<Rightarrow> u32 \<Rightarrow> u32 \<Rightarrow> u32 \<Rightarrow> u32 \<times> bytes" where
  "memcpy m dst src n = (dst, memcpy_loop (unat n) m dst src)"

fun copy_down :: "nat \<Rightarrow> bytes \<Rightarrow> u32 \<Rightarrow> u32 \<Rightarrow> bytes" where
  "copy_down 0 m d s = m"
| "copy_down (Suc n) m d s = copy_down n (m(d - 1 := m (s - 1))) (d - 1) (s - 1)"

definition memmove :: "bytes \<Rightarrow> u32 \<Rightarrow> u32 \<Rightarrow> u32 \<Rightarrow> u32 \<times> bytes" where
  "memmove m dst src n =
     (dst, if src < dst \<and> src + n > dst then copy_down (unat n) m (dst + n) (src + n) else copy_up (unat n) m dst src)"

section \<open>Numbers\<close>

partial_function (option) skip_blanks :: "bytes \<Rightarrow> u32 \<Rightarrow> u32 option" where
  "skip_blanks m s = (if m s = 32 \<or> m s = 9 then skip_blanks m (s + 1) else Some s)"

text \<open>The digits are '0' to '9', 'a' to 'z' and 'A' to 'Z'.\<close>

definition dig_of :: "u8 \<Rightarrow> int option" where
  "dig_of c = (if 48 \<le> c \<and> c \<le> 57 then Some (uint c - 48)
     else if 97 \<le> c \<and> c \<le> 122 then Some (uint c - 97 + 10)
     else if 65 \<le> c \<and> c \<le> 90 then Some (uint c - 65 + 10) else None)"

partial_function (option) strtol_digits :: "bytes \<Rightarrow> u32 \<Rightarrow> i32 \<Rightarrow> i32 \<Rightarrow> (u32 \<times> i32) option" where
  "strtol_digits m s base val = (case dig_of (m s) of
     None \<Rightarrow> Some (s, val)
   | Some dig \<Rightarrow> if sint base \<le> dig then Some (s, val) else strtol_digits m (s + 1) base (val * base + word_of_int dig))"

text \<open>The result is the value and the end pointer.\<close>

definition strtol :: "bytes \<Rightarrow> u32 \<Rightarrow> i32 \<Rightarrow> (i32 \<times> u32) option" where
  "strtol m s base = Option.bind (skip_blanks m s) (\<lambda>s1.
     let (s2, neg) = (if m s1 = 43 then (s1 + 1, False) else if m s1 = 45 then (s1 + 1, True) else (s1, False));
         (s3, base1) = (if (base = 0 \<or> base = 16) \<and> m s2 = 48 \<and> m (s2 + 1) = 120 then (s2 + 2, 16)
           else if base = 0 \<and> m s2 = 48 then (s2 + 1, 8) else if base = 0 then (s2, 10) else (s2, base))
     in map_option (\<lambda>(s4, val). (if neg then - val else val, s4)) (strtol_digits m s3 base1 0))"

lemma sdiv_smaller: "\<lbrakk>x sdiv 10 \<noteq> 0\<rbrakk> \<Longrightarrow> \<bar>x sdiv 10\<bar> < \<bar>x :: int\<bar>"
  by (auto simp: signed_divide_int_def abs_mult)

lemma sint_sdiv10: "sint (word_of_int (sint (x :: i32) sdiv 10) :: i32) = sint x sdiv 10"
proof -
  have b: "- (2 ^ 31) \<le> sint x" "sint x < 2 ^ 31" using sint_ge [of x] sint_lt [of x] by simp_all
  have "\<bar>sint x sdiv 10\<bar> \<le> \<bar>sint x\<bar> div 10" by (simp add: signed_divide_int_def abs_mult)
  then have "- (2 ^ 31) \<le> sint x sdiv 10 \<and> sint x sdiv 10 < 2 ^ 31" using b by (simp add: abs_if split: if_splits)
  then show ?thesis by (simp add: sint_sbintrunc' signed_take_bit_int_eq_self)
qed

lemma sdiv10_decreases:
  assumes "word_of_int (sint (x :: i32) sdiv 10) \<noteq> (0 :: i32)"
  shows "\<bar>sint (word_of_int (sint x sdiv 10) :: i32)\<bar> < \<bar>sint x\<bar>"
proof -
  have "sint x sdiv 10 \<noteq> 0" using assms by (metis of_int_0)
  then show ?thesis unfolding sint_sdiv10 by (rule sdiv_smaller)
qed

function ltostr_digits :: "bytes \<Rightarrow> u32 \<Rightarrow> i32 \<Rightarrow> i32 \<Rightarrow> bytes \<times> i32" where
  "ltostr_digits m str s val =
     (let m1 = m(str + s := word_of_int (sint val smod 10) + 48); v1 = word_of_int (sint val sdiv 10) in
      if v1 \<noteq> 0 then ltostr_digits m1 str (s + 1) v1 else (m1, s + 1))"
  by pat_completeness auto
termination
  by (relation "measure (\<lambda>(_, _, _, val). nat \<bar>sint val\<bar>)") (use sdiv10_decreases in auto)

declare ltostr_digits.simps [simp del]

lemma sint_step:
  assumes "sint (a :: i32) < sint (b :: i32)"
  shows "sint (a + 1) = sint a + 1" and "sint (b - 1) = sint b - 1"
proof -
  have b: "- (2 ^ 31) \<le> sint a" "sint a < 2 ^ 31" "- (2 ^ 31) \<le> sint b" "sint b < 2 ^ 31"
    using sint_ge [of a] sint_lt [of a] sint_ge [of b] sint_lt [of b] by simp_all
  have "sint (word_of_int (sint a + 1) :: i32) = sint a + 1" "sint (word_of_int (sint b - 1) :: i32) = sint b - 1"
    using b assms by (simp_all add: sint_sbintrunc' signed_take_bit_int_eq_self del: of_int_add of_int_diff)
  then show "sint (a + 1) = sint a + 1" "sint (b - 1) = sint b - 1" by simp_all
qed

function ltostr_reverse :: "bytes \<Rightarrow> u32 \<Rightarrow> i32 \<Rightarrow> i32 \<Rightarrow> bytes" where
  "ltostr_reverse m str start stop =
     (if sint start < sint stop then
        (let tmp = m (str + start); m1 = m(str + start := m (str + stop)); m2 = m1(str + stop := tmp)
         in ltostr_reverse m2 str (start + 1) (stop - 1))
      else m)"
  by pat_completeness auto
termination
  by (relation "measure (\<lambda>(_, _, a, b). nat (sint b - sint a))") (auto simp: sint_step)

declare ltostr_reverse.simps [simp del]

definition ltostr :: "bytes \<Rightarrow> i32 \<Rightarrow> u32 \<Rightarrow> bytes" where
  "ltostr m val str =
     (let neg = (sint val < 0);
          (m1, val1, s) = (if neg then (m(str := 45), val * (- 1), 1) else (m, val, 0));
          (m2, s1) = ltostr_digits m1 str s val1;
          m3 = ltostr_reverse m2 str (if neg then 1 else 0) (s1 - 1)
      in m3(str + s1 := 0))"

section \<open>Concatenation, case and splitting\<close>

partial_function (option) strcconcat_copy :: "bytes \<Rightarrow> u32 \<Rightarrow> i32 \<Rightarrow> u32 \<Rightarrow> i32 \<Rightarrow> i32 \<Rightarrow> (bytes \<times> i32) option" where
  "strcconcat_copy m final s str i len =
     (if sint i < sint len then strcconcat_copy (m(final + s := m (str + i))) final (s + 1) str (i + 1) len else Some (m, s))"

definition strcconcat :: "bytes \<Rightarrow> u32 \<Rightarrow> u32 \<Rightarrow> u32 \<Rightarrow> bytes option" where
  "strcconcat m str1 str2 final = Option.bind (strlen m str1) (\<lambda>len1. Option.bind (strlen m str2) (\<lambda>len2.
     Option.bind (strcconcat_copy m final 0 str1 0 len1) (\<lambda>(m1, s).
     Option.bind (strcconcat_copy m1 final s str2 0 len2) (\<lambda>(m2, s1). Some (m2(final + s1 := 0))))))"

partial_function (option) str2lower_loop :: "bytes \<Rightarrow> u32 \<Rightarrow> u32 \<Rightarrow> i32 \<Rightarrow> bytes option" where
  "str2lower_loop m dst src i = Option.bind (strlen m src) (\<lambda>n.
     if sint i < sint n then
       (let m1 = m(dst + i := m (src + i));
            m2 = (if 65 \<le> m1 (src + i) \<and> m1 (src + i) \<le> 90 then m1(dst + i := m1 (dst + i) + 32) else m1)
        in str2lower_loop m2 dst src (i + 1))
     else Some m)"

definition str2lower :: "bytes \<Rightarrow> u32 \<Rightarrow> u32 \<Rightarrow> (u32 \<times> bytes) option" where
  "str2lower m dst src = map_option (\<lambda>m1. (dst, m1)) (str2lower_loop m dst src 0)"

abbreviation (input) MAX_ARGUMENTS :: nat where "MAX_ARGUMENTS \<equiv> 16"

partial_function (option) split_trim :: "bytes \<Rightarrow> u32 \<Rightarrow> u32 \<Rightarrow> (u32 \<times> bytes) option" where
  "split_trim m seps s =
     (if m s = 0 then Some (s, m)
      else Option.bind (strchr m seps (m s)) (\<lambda>r. if r \<noteq> 0 then split_trim (m(s := 0)) seps (s + 1) else Some (s, m)))"

partial_function (option) split_scan :: "bytes \<Rightarrow> u32 \<Rightarrow> u32 \<Rightarrow> u32 option" where
  "split_scan m seps s =
     (if m s = 0 then Some s
      else Option.bind (strchr m seps (m s)) (\<lambda>r. if r = 0 then split_scan m seps (s + 1) else Some s))"

text \<open>\<open>argv\<close> is an array of its own; the result is the return value, the memory, the array and the count.\<close>

partial_function (option) strsplit_loop ::
  "bytes \<Rightarrow> u32 \<Rightarrow> u32 \<Rightarrow> u32 list \<Rightarrow> nat \<Rightarrow> (int \<times> bytes \<times> u32 list \<times> nat) option" where
  "strsplit_loop m seps s argv argc = Option.bind (split_trim m seps s) (\<lambda>(s1, m1).
     if m1 s1 = 0 then Some (1, m1, argv[argc := 0], argc)
     else if argc = MAX_ARGUMENTS - 1 then Some (0, m1, argv, argc)
     else Option.bind (split_scan m1 seps s1) (\<lambda>s2. strsplit_loop m1 seps s2 (argv[argc := s1]) (Suc argc)))"

definition strsplit :: "bytes \<Rightarrow> u32 \<Rightarrow> u32 \<Rightarrow> u32 list \<Rightarrow> (int \<times> bytes \<times> u32 list \<times> nat) option" where
  "strsplit m s seps argv = strsplit_loop m seps s (argv[0 := 0]) 0"

section \<open>Runs of bytes\<close>

text \<open>The reference operations: the \<open>n\<close> bytes at \<open>s\<close>, and memory with the bytes \<open>ys\<close> written at \<open>d\<close>.\<close>

definition get :: "bytes \<Rightarrow> u32 \<Rightarrow> nat \<Rightarrow> u8 list" where
  "get m s n = map (\<lambda>i. m (s + word_of_nat i)) [0 ..< n]"

definition put :: "bytes \<Rightarrow> u32 \<Rightarrow> u8 list \<Rightarrow> bytes" where
  "put m d ys = (\<lambda>a. if unat (a - d) < length ys then ys ! unat (a - d) else m a)"

fun cstr :: "bytes \<Rightarrow> u32 \<Rightarrow> u8 list \<Rightarrow> bool" where
  "cstr m p [] \<longleftrightarrow> m p = 0"
| "cstr m p (x # xs) \<longleftrightarrow> m p = x \<and> x \<noteq> 0 \<and> cstr m (p + 1) xs"

lemma get_simps [simp]: "get m s 0 = []" "get m s (Suc n) = m s # get m (s + 1) n"
  by (auto simp: get_def map_upt_Suc add.assoc simp del: upt_Suc)

lemma length_get [simp]: "length (get m s n) = n"
  by (simp add: get_def)

lemma get_cong: "(\<And>i. i < n \<Longrightarrow> m (s + word_of_nat i) = m' (s + word_of_nat i)) \<Longrightarrow> get m s n = get m' s n"
  by (simp add: get_def)

lemma put_Nil [simp]: "put m d [] = m"
  by (simp add: put_def)

lemma unat_minus_Suc:
  assumes "a \<noteq> (d :: u32)"
  shows "unat (a - d) = Suc (unat (a - (d + 1)))"
proof -
  have nz: "a - d \<noteq> 0" using assms by simp
  then have "unat (a - d - 1) = unat (a - d) - 1" by (rule unat_minus_one)
  moreover have "0 < unat (a - d)" by (rule unat_gt_0 [THEN iffD2]) (rule nz)
  ultimately show ?thesis unfolding diff_diff_eq by linarith
qed

lemma put_Cons:
  assumes "length ys < 2 ^ 32"
  shows "put m d (y # ys) = put (m(d := y)) (d + 1) ys"
proof
  fix a
  have "d - (d + 1) = (0xFFFFFFFF :: u32)" by simp
  then have "unat (d - (d + 1)) = 2 ^ 32 - 1" by (simp only: ) simp
  then show "put m d (y # ys) a = put (m(d := y)) (d + 1) ys a"
    using assms unat_minus_Suc [of a d] by (cases "a = d") (auto simp: put_def)
qed

lemma put_append:
  "length xs + length ys \<le> 2 ^ 32 \<Longrightarrow> put m d (xs @ ys) = put (put m d xs) (d + word_of_nat (length xs)) ys"
proof (induction xs arbitrary: m d)
  case (Cons x xs)
  then show ?case by (simp add: put_Cons add.assoc)
qed simp

lemma put_at: "i < length ys \<Longrightarrow> length ys \<le> 2 ^ 32 \<Longrightarrow> put m d ys (d + word_of_nat i) = ys ! i"
  by (simp add: put_def unat_of_nat_u32)

lemma put_other: "length ys \<le> unat (a - d) \<Longrightarrow> put m d ys a = m a"
  by (simp add: put_def)

text \<open>Two runs of addresses that do not meet.\<close>

definition apart :: "u32 \<Rightarrow> nat \<Rightarrow> u32 \<Rightarrow> nat \<Rightarrow> bool" where
  "apart a k b n \<longleftrightarrow> (\<forall>i < k. n \<le> unat (a + word_of_nat i - b))"

lemma apart_step: "apart (a + 1) k b n" if "apart a (Suc k) b n"
  unfolding apart_def
proof (intro allI impI)
  fix i assume "i < k"
  then have "n \<le> unat (a + word_of_nat (Suc i) - b)" using that unfolding apart_def by (metis Suc_mono)
  then show "n \<le> unat (a + 1 + word_of_nat i - b)" by (simp add: add.assoc)
qed

lemma apart_inner: "\<lbrakk>apart a k b n; j \<le> n; n \<le> 2 ^ 32\<rbrakk> \<Longrightarrow> apart a k (b + word_of_nat j) (n - j)"
  unfolding apart_def
proof (intro allI impI)
  fix i assume a: "\<forall>i < k. n \<le> unat (a + word_of_nat i - b)" "j \<le> n" "n \<le> 2 ^ 32" "i < k"
  define x where "x = a + word_of_nat i - b"
  have x: "n \<le> unat x" using a(1,4) by (simp add: x_def)
  have "j < 2 ^ 32" using x a(2) unat_u32_lt [of x] by simp
  then have "unat (word_of_nat j :: u32) = j" by (rule unat_of_nat_u32)
  then have "unat (x - word_of_nat j) = unat x - j" using x a(2) by (simp add: unat_sub word_le_nat_alt)
  then show "n - j \<le> unat (a + word_of_nat i - (b + word_of_nat j))" using x by (simp add: x_def algebra_simps)
qed

lemma get_put_apart: "apart s k d (length ys) \<Longrightarrow> get (put m d ys) s k = get m s k"
  by (auto simp: apart_def put_other intro: get_cong)

lemma get_put: "length ys \<le> 2 ^ 32 \<Longrightarrow> get (put m d ys) d (length ys) = ys"
  by (rule nth_equalityI) (simp_all add: get_def put_at)

lemma cstr_get: "cstr m p xs \<longleftrightarrow> get m p (Suc (length xs)) = xs @ [0] \<and> 0 \<notin> set xs"
  by (induction xs arbitrary: p) auto

lemma cstr_put: "\<lbrakk>0 \<notin> set xs; length xs < 2 ^ 32\<rbrakk> \<Longrightarrow> cstr (put m d (xs @ [0])) d xs"
  using get_put [of "xs @ [0]" m d] unfolding cstr_get by (simp del: get_simps)

lemma cstr_put_apart: "\<lbrakk>cstr m p xs; apart p (Suc (length xs)) d (length ys)\<rbrakk> \<Longrightarrow> cstr (put m d ys) p xs"
  unfolding cstr_get using get_put_apart [of p "Suc (length xs)" d ys m] by (simp only: simp_thms)

section \<open>The loops over strings\<close>

lemma strlen_cstr: "cstr m p xs \<Longrightarrow> strlen m p = Some (word_of_nat (length xs))"
proof -
  have "cstr m p xs \<Longrightarrow> strlen_loop m p n = Some (n + word_of_nat (length xs))" for n
  proof (induction xs arbitrary: p n)
    case Nil
    then show ?case by (subst strlen_loop.simps) simp
  next
    case (Cons x xs)
    then show ?case by (subst strlen_loop.simps) (simp add: add.assoc)
  qed
  from this [of 0] show "cstr m p xs \<Longrightarrow> ?thesis" by (simp add: strlen_def)
qed

lemma strchr_cstr:
  "\<lbrakk>cstr m p xs; unat p + length xs < 2 ^ 32; p \<noteq> 0\<rbrakk> \<Longrightarrow> \<exists>r. strchr m p c = Some r \<and> (r \<noteq> 0 \<longleftrightarrow> c \<in> set xs)"
proof (induction xs arbitrary: p)
  case Nil
  then show ?case by (subst strchr.simps) simp
next
  case (Cons x xs)
  have "unat (p + 1) = unat p + 1" using unat_u32_plus [of p 1] Cons.prems(2) by simp
  moreover from this have "p + 1 \<noteq> 0" by (auto simp: unat_eq_0 [symmetric])
  ultimately have "\<exists>r. strchr m (p + 1) c = Some r \<and> (r \<noteq> 0 \<longleftrightarrow> c \<in> set xs)" using Cons by simp
  then show ?case using Cons.prems by (subst strchr.simps) auto
qed

lemma strcpy_cstr:
  assumes "cstr m s xs" and "apart s (Suc (length xs)) d (Suc (length xs))"
  shows "strcpy m d s = Some (d, put m d (xs @ [0]))"
proof -
  have "\<lbrakk>cstr m s xs; apart s (Suc (length xs)) d (Suc (length xs)); length xs < 2 ^ 32\<rbrakk>
    \<Longrightarrow> strcpy_loop m d s = Some (put m d (xs @ [0]))" for m d s
  proof (induction xs arbitrary: m d s)
    case Nil
    then show ?case by (subst strcpy_loop.simps) (simp add: put_Cons Let_def)
  next
    case (Cons x xs)
    let ?m = "m(d := x)"
    have "s \<noteq> d" using Cons.prems(2) by (auto simp: apart_def)
    have a1: "apart (s + 1) (Suc (length xs)) d (Suc (Suc (length xs)))" using apart_step [OF Cons.prems(2) [simplified]] .
    have "cstr (put m d [x]) (s + 1) xs"
      using Cons.prems(1) a1 by (intro cstr_put_apart) (auto simp: apart_def dest: le_trans [rotated])
    moreover have "put m d [x] = ?m" by (simp add: put_Cons)
    moreover have "apart (s + 1) (Suc (length xs)) (d + 1) (Suc (length xs))"
      using apart_inner [OF a1, of 1] Cons.prems(3) by simp
    ultimately have "strcpy_loop ?m (d + 1) (s + 1) = Some (put ?m (d + 1) (xs @ [0]))" using Cons.IH Cons.prems(3) by simp
    then show ?case using Cons.prems by (subst strcpy_loop.simps) (simp add: put_Cons Let_def)
  qed
  moreover have "length xs < 2 ^ 32" using assms(2) unat_u32_lt [of "s - d"] by (auto simp: apart_def)
  ultimately show ?thesis using assms by (simp add: strcpy_def)
qed

text \<open>\<open>strcmp\<close> compares two strings lexicographically; it is zero exactly on equal strings.\<close>

lemma char_diff_0: "char_diff a b = 0 \<longleftrightarrow> a = b"
  by (simp add: char_diff_def word_uint_eq_iff)

lemma strcmp_cstr: "\<lbrakk>cstr m p xs; cstr m q ys\<rbrakk> \<Longrightarrow> \<exists>d. strcmp m p q = Some d \<and> (d = 0 \<longleftrightarrow> xs = ys)"
proof (induction xs arbitrary: p q ys)
  case Nil
  then show ?case by (cases ys; subst strcmp.simps) (auto simp: char_diff_0)
next
  case (Cons x xs)
  show ?case
  proof (cases ys)
    case Nil
    then show ?thesis using Cons.prems by (subst strcmp.simps) (auto simp: char_diff_0)
  next
    case (Cons y zs)
    then show ?thesis using Cons.IH [of "p + 1" "q + 1" zs] Cons.prems \<open>ys = y # zs\<close>
      by (subst strcmp.simps) (auto simp: char_diff_0)
  qed
qed

lemma strncpy_loop_cstr:
  "\<lbrakk>cstr m s xs; length xs \<le> n; n < 2 ^ 32; apart s (Suc (length xs)) d n\<rbrakk>
   \<Longrightarrow> strncpy_loop n m d s = put m d (xs @ replicate (n - length xs) 0)"
proof (induction n arbitrary: m d s xs)
  case (Suc n)
  have ne: "s \<noteq> d" using Suc.prems(4) by (auto simp: apart_def)
  have m: "put m d [y] = m(d := y)" for y by (simp add: put_Cons)
  show ?case
  proof (cases xs)
    case Nil
    define m1 where "m1 = m(d := 0)"
    have "cstr m1 s []" "apart s (Suc (length [])) (d + 1) n"
      using Suc.prems ne apart_inner [of s 1 d "Suc n" 1] Nil by (auto simp: m1_def)
    from Suc.IH [OF this(1) _ _ this(2)] have IH: "strncpy_loop n m1 (d + 1) s = put m1 (d + 1) (replicate n 0)"
      using Suc.prems(3) by simp
    have "m s = 0" using Suc.prems(1) Nil by simp
    then have "strncpy_loop (Suc n) m d s = strncpy_loop n m1 (d + 1) s" using ne by (simp add: m1_def)
    then show ?thesis using Suc.prems(3) Nil put_Cons [of "replicate n 0" m d 0] by (simp add: IH m1_def [symmetric])
  next
    case (Cons x ys)
    have a: "apart (s + 1) (Suc (length ys)) d (Suc n)" using Suc.prems(4) Cons by (intro apart_step) simp
    then have "apart (s + 1) (Suc (length ys)) d (length [x])" by (auto simp: apart_def dest: le_trans [rotated])
    define m1 where "m1 = m(d := x)"
    have "cstr m1 (s + 1) ys" unfolding m1_def m [symmetric]
      using Suc.prems(1) Cons \<open>apart (s + 1) (Suc (length ys)) d (length [x])\<close> by (intro cstr_put_apart) simp_all
    moreover have "apart (s + 1) (Suc (length ys)) (d + 1) n" using apart_inner [OF a, of 1] Suc.prems(3) by simp
    ultimately have IH: "strncpy_loop n m1 (d + 1) (s + 1) = put m1 (d + 1) (ys @ replicate (n - length ys) 0)"
      using Suc.IH Suc.prems(2,3) Cons by simp
    have "m s = x" "x \<noteq> 0" using Suc.prems(1) Cons by simp_all
    then have "strncpy_loop (Suc n) m d s = strncpy_loop n m1 (d + 1) (s + 1)" using ne by (simp add: m1_def)
    then show ?thesis using Suc.prems(2,3) Cons put_Cons [of "ys @ replicate (n - length ys) 0" m d x]
      by (simp add: IH m1_def [symmetric])
  qed
qed simp

section \<open>Block operations\<close>

lemma bit_load_le: "bit (load_le n m p) i \<Longrightarrow> i < 8 * n"
proof (induction n arbitrary: p i)
  case (Suc n)
  have "bit (ucast (m p) :: 64 word) i \<Longrightarrow> i < 8" using bit_imp_le_length [of "m p" i] by (simp add: bit_ucast_iff)
  then show ?case using Suc by (fastforce simp: bit_or_iff bit_push_bit_iff)
qed simp

lemma drop_load_le: "n < 8 \<Longrightarrow> drop_bit 8 (load_le (Suc n) m p) = load_le n m (p + 1)"
proof (rule bit_eqI)
  fix i assume "n < 8"
  have "\<not> bit (ucast (m p) :: 64 word) (8 + i)" using bit_imp_le_length [of "m p" "8 + i"] by (auto simp: bit_ucast_iff)
  then show "bit (drop_bit 8 (load_le (Suc n) m p)) i = bit (load_le n m (p + 1)) i"
    using bit_load_le [of n m "p + 1" i] \<open>n < 8\<close> by (auto simp: bit_drop_bit_eq bit_or_iff bit_push_bit_iff)
qed

lemma ucast_load_le: "ucast (load_le (Suc n) m p) = m p"
  by (rule bit_eqI) (auto simp: bit_ucast_iff bit_or_iff bit_push_bit_iff dest: bit_imp_le_length)

lemma store_load_le: "n \<le> 8 \<Longrightarrow> store_le n m d (load_le n m' s) = put m d (get m' s n)"
proof (induction n arbitrary: m d s)
  case (Suc n)
  then show ?case using drop_load_le [of n m' s] ucast_load_le [of n m' s] by (simp add: put_Cons del: load_le.simps)
qed simp

lemma store64_load64: "store64 m d (load64 m' s) = put m d (get m' s 8)"
  unfolding store64_def load64_def by (rule store_load_le) simp

lemma scast_byte: "scast (ucast (b :: u8) :: i32) = (ucast b :: 64 word)"
proof -
  have "signed_take_bit 31 (uint b) = uint b"
    using unsigned_less [of b, where 'a = int] by (intro signed_take_bit_int_eq_self) (simp_all add: order_trans [of _ 0])
  moreover have "take_bit 32 (uint b) = uint b"
    using unsigned_less [of b, where 'a = int] by (intro take_bit_int_eq_self) simp_all
  ultimately have "sint (ucast b :: i32) = uint b" by (simp add: sint_uint unsigned_ucast_eq)
  then show ?thesis by (metis of_int_sint of_int_uint scast_eq ucast_eq)
qed

lemma load_le_add: "load_le (k + n) (\<lambda>_. b) p = load_le k (\<lambda>_. b) p OR push_bit (8 * k) (load_le n (\<lambda>_. b) p)"
proof (induction k arbitrary: p)
  case (Suc k)
  have "load_le n (\<lambda>_. b) q = load_le n (\<lambda>_. b) 0" for q by (induction n arbitrary: q) (simp, metis load_le.simps(2))
  then show ?case using Suc [of 0] Suc [of p] Suc [of "p + 1"]
    by (simp add: push_bit_or or.assoc del: push_bit_of_nat push_bit_eq_mult) (metis)
qed simp

lemma data_block_byte: "data_block (ucast b) = load64 (\<lambda>_. b) 0"
proof -
  have "load_le 2 (\<lambda>_. b) 0 = ucast b OR push_bit 8 (ucast b)" by (simp add: numeral_2_eq_2)
  then show ?thesis using load_le_add [of 2 2 b 0] load_le_add [of 4 4 b 0]
    by (simp add: data_block_def load64_def scast_byte Let_def)
qed

lemma get_const: "get (\<lambda>_. b) p n = replicate n b"
  by (simp add: get_def map_replicate_const)

lemma get_append: "get m s (k + n) = get m s k @ get m (s + word_of_nat k) n"
  by (induction k arbitrary: s) (simp_all add: add.assoc)

lemma memset_tail_eq: "n < 2 ^ 32 \<Longrightarrow> memset_tail n m p c = put m p (replicate n c)"
  by (induction n arbitrary: m p) (simp_all add: put_Cons)

lemma memset_loop_eq: "n < 2 ^ 32 \<Longrightarrow> memset_loop n m p (ucast b) = put m p (replicate n b)"
proof (induction n arbitrary: m p rule: less_induct)
  case (less n)
  show ?case
  proof (cases "8 \<le> n")
    case True
    then have "replicate n b = replicate 8 b @ replicate (n - 8) b" by (simp flip: replicate_add)
    then show ?thesis
      using True less put_append [of "replicate 8 b" "replicate (n - 8) b" m p]
      by (subst memset_loop.simps) (simp add: data_block_byte store64_load64 get_const del: memset_loop.simps)
  next
    case False
    moreover have "(ucast (ucast b :: i32) :: u8) = b" by (rule bit_eqI) (auto simp: bit_ucast_iff dest: bit_imp_le_length)
    ultimately show ?thesis using memset_tail_eq [OF less.prems] by (subst memset_loop.simps) (simp del: memset_loop.simps)
  qed
qed

text \<open>Copying upwards is right when no byte is overwritten before it has been read.\<close>

definition upward :: "u32 \<Rightarrow> u32 \<Rightarrow> nat \<Rightarrow> bool" where
  "upward d s n \<longleftrightarrow> (\<forall>j < n. \<forall>i < j. d + word_of_nat i \<noteq> s + word_of_nat j)"

lemma copy_up_eq: "\<lbrakk>upward d s n; n < 2 ^ 32\<rbrakk> \<Longrightarrow> copy_up n m d s = put m d (get m s n)"
proof (induction n arbitrary: m d s)
  case (Suc n)
  have "get (m(d := m s)) (s + 1) n = get m (s + 1) n"
  proof (rule get_cong)
    fix i assume "i < n"
    then have "d + word_of_nat 0 \<noteq> s + word_of_nat (Suc i)" using Suc.prems(1) unfolding upward_def by blast
    then show "(m(d := m s)) (s + 1 + word_of_nat i) = m (s + 1 + word_of_nat i)" by (simp add: add.assoc)
  qed
  moreover have "upward (d + 1) (s + 1) n"
    unfolding upward_def
  proof (intro allI impI)
    fix i j assume "j < n" "i < j"
    then have "d + word_of_nat (Suc i) \<noteq> s + word_of_nat (Suc j)" using Suc.prems(1) unfolding upward_def by (meson Suc_mono)
    then show "d + 1 + word_of_nat i \<noteq> s + 1 + word_of_nat j" by (simp add: add.assoc)
  qed
  ultimately show ?case using Suc by (simp add: put_Cons)
qed simp

lemma put_snoc:
  assumes "length xs < 2 ^ 32"
  shows "put m d (xs @ [y]) = put (m(d + word_of_nat (length xs) := y)) d xs"
proof
  fix a
  have "word_of_nat (unat (a - d)) = a - d" by simp
  then have "unat (a - d) = length xs \<Longrightarrow> a - d = word_of_nat (length xs)" by simp
  then have "a = d + word_of_nat (length xs) \<longleftrightarrow> unat (a - d) = length xs"
    using assms by (auto simp: unat_of_nat_u32 algebra_simps)
  then show "put m d (xs @ [y]) a = put (m(d + word_of_nat (length xs) := y)) d xs a"
    by (auto simp: put_def nth_append)
qed

lemma copy_down_eq:
  "\<lbrakk>\<forall>i < n. \<forall>j < i. d + word_of_nat i \<noteq> s + word_of_nat j; n < 2 ^ 32\<rbrakk>
   \<Longrightarrow> copy_down n m (d + word_of_nat n) (s + word_of_nat n) = put m d (get m s n)"
proof (induction n arbitrary: m)
  case (Suc n)
  let ?m = "m(d + word_of_nat n := m (s + word_of_nat n))"
  have "get ?m s n = get m s n" using Suc.prems(1) by (intro get_cong) fastforce
  moreover have "copy_down n ?m (d + word_of_nat n) (s + word_of_nat n) = put ?m d (get ?m s n)"
    using Suc.prems by (intro Suc.IH) auto
  moreover have "get m s (Suc n) = get m s n @ [m (s + word_of_nat n)]" using get_append [of m s n 1] by simp
  ultimately show ?case using put_snoc [of "get m s n" m d] Suc.prems(2) by (simp add: algebra_simps del: get_simps(2))
qed simp

lemma memcpy_loop_eq: "\<lbrakk>apart s n d n; n < 2 ^ 32\<rbrakk> \<Longrightarrow> memcpy_loop n m d s = put m d (get m s n)"
proof (induction n arbitrary: m d s rule: less_induct)
  case (less n)
  show ?case
  proof (cases "8 \<le> n")
    case True
    define k where "k = n - 8"
    have n: "n = 8 + k" using True by (simp add: k_def)
    let ?m = "put m d (get m s 8)"
    have a1: "apart (s + word_of_nat j) (n - j) d n" if "j \<le> n" for j
      unfolding apart_def
    proof (intro allI impI)
      fix i assume "i < n - j"
      then have "j + i < n" using that by simp
      then have "n \<le> unat (s + word_of_nat (j + i) - d)" using less.prems(1) unfolding apart_def by blast
      then show "n \<le> unat (s + word_of_nat j + word_of_nat i - d)" by (simp add: add.assoc)
    qed
    have a8: "apart (s + 8) k d n" using a1 [of 8] True by (simp add: k_def)
    have "apart (s + 8) k d 8" using a8 True unfolding apart_def by (meson le_trans)
    then have g: "get ?m (s + 8) k = get m (s + 8) k" using get_put_apart [of "s + 8" k d "get m s 8" m] by simp
    have "apart (s + 8) k (d + 8) k" using apart_inner [OF a8, of 8] True less.prems(2) by (simp add: k_def)
    then have "memcpy_loop k ?m (d + 8) (s + 8) = put ?m (d + 8) (get m (s + 8) k)"
      using less.IH [of k "s + 8" "d + 8" ?m] less.prems(2) g by (simp add: n)
    then show ?thesis
      using True put_append [of "get m s 8" "get m (s + 8) k" m d] get_append [of m s 8 k] less.prems(2)
      by (subst memcpy_loop.simps) (simp add: store64_load64 n del: memcpy_loop.simps)
  next
    case False
    have "upward d s n" unfolding upward_def
    proof (intro allI impI notI)
      fix j i assume ji: "j < n" "i < j" "d + word_of_nat i = s + word_of_nat j"
      have "n \<le> unat (s + word_of_nat j - d)" using less.prems(1) ji(1) unfolding apart_def by blast
      moreover have "unat (s + word_of_nat j - d) = i"
        unfolding ji(3) [symmetric] using ji(1,2) less.prems(2) by (simp add: unat_of_nat_u32)
      ultimately show False using ji by simp
    qed
    then show ?thesis using False copy_up_eq [of d s n m] less.prems(2)
      by (subst memcpy_loop.simps) (simp del: memcpy_loop.simps)
  qed
qed

text \<open>Claim C18.  The block operations do what a byte-wise reference does.  \<open>memmove\<close> copies every run of
  bytes that does not wrap around the end of memory, however the two runs overlap; the copy of
  \<open>memcpy\<close> by words of eight bytes agrees with it on runs that do not overlap; and the fill of
  \<open>memset\<close> by words writes the given byte everywhere.\<close>

theorem block_operations_copy:
  assumes "unat d + unat n \<le> 2 ^ 32" and "unat s + unat n \<le> 2 ^ 32"
  shows "memmove m d s n = (d, put m d (get m s (unat n)))
    \<and> (apart s (unat n) d (unat n) \<longrightarrow> memcpy m d s n = memmove m d s n)
    \<and> memset m d (ucast (b :: u8)) n = (d, put m d (replicate (unat n) b))"
proof -
  have n: "unat n < 2 ^ 32" using unat_u32_lt [of n] by simp
  have at: "unat (p + word_of_nat i) = unat p + i" if "i < unat n" "unat p + unat n \<le> 2 ^ 32" for p :: u32 and i
    using that unat_u32_plus [of p "word_of_nat i"] n by (simp add: unat_of_nat_u32)
  have neq: "d + word_of_nat i \<noteq> s + word_of_nat j" if "i < unat n" "j < unat n" "unat d + i \<noteq> unat s + j" for i j
    using that at [of i d] at [of j s] assms by (metis)
  have "memmove m d s n = (d, put m d (get m s (unat n)))"
  proof (cases "s < d \<and> d < s + n")
    case True
    have "\<forall>i < unat n. \<forall>j < i. d + word_of_nat i \<noteq> s + word_of_nat j"
      using True neq by (auto simp: word_less_nat_alt)
    from copy_down_eq [OF this n] show ?thesis using True by (simp add: memmove_def)
  next
    case False
    have "upward d s (unat n)"
      unfolding upward_def
    proof (intro allI impI)
      fix j i assume ji: "j < unat n" "i < j"
      show "d + word_of_nat i \<noteq> s + word_of_nat j"
      proof (cases "s < d")
        case True
        then have "s + n \<le> d" using False by auto
        moreover have "unat (s + n) = unat s + unat n \<or> unat s + unat n = 2 ^ 32"
          using unat_u32_plus [of s n] assms(2) by (cases "unat s + unat n = 2 ^ 32") simp_all
        ultimately have "unat s + unat n \<le> unat d \<or> unat s + unat n = 2 ^ 32" by (auto simp: word_le_nat_alt)
        then show ?thesis using ji True assms(1) by (intro neq) (auto simp: word_less_nat_alt)
      next
        case False
        then show ?thesis using ji by (intro neq) (auto simp: word_less_nat_alt)
      qed
    qed
    from copy_up_eq [OF this n] show ?thesis using False by (auto simp: memmove_def)
  qed
  then show ?thesis using memset_loop_eq [OF n, of m d b] memcpy_loop_eq [OF _ n, of s d m] by (simp add: memset_def memcpy_def)
qed

section \<open>Decimal text\<close>

fun decs :: "nat \<Rightarrow> u8 list" where
  "decs n = (if n < 10 then [48 + word_of_nat n] else decs (n div 10) @ [48 + word_of_nat (n mod 10)])"

declare decs.simps [simp del]

definition dec_text :: "i32 \<Rightarrow> u8 list" where
  "dec_text v = (if sint v < 0 then [45] else []) @ decs (nat \<bar>sint v\<bar>)"

lemma decs_rec: "decs n = (if n < 10 then [] else decs (n div 10)) @ [48 + word_of_nat (n mod 10)]"
  by (subst decs.simps) simp

lemma length_decs: "n < 10 ^ Suc k \<Longrightarrow> length (decs n) \<le> Suc k"
proof (induction k arbitrary: n)
  case 0
  then show ?case by (subst decs.simps) simp
next
  case (Suc k)
  then have "n div 10 < 10 ^ Suc k" by (simp add: div_less_iff_less_mult)
  then show ?case using Suc.IH [of "n div 10"] by (subst decs.simps) simp
qed

lemma decs_short: "n < 2 ^ 31 \<Longrightarrow> length (decs n) \<le> 10"
  using length_decs [of n 9] by simp

lemma digit_char:
  assumes "d < 10"
  shows "dig_of (48 + word_of_nat d) = Some (int d)" and "48 + word_of_nat d \<noteq> (0 :: u8)"
    and "48 \<le> (48 + word_of_nat d :: u8)" and "(48 + word_of_nat d :: u8) \<le> 57"
proof -
  have "unat (word_of_nat d :: u8) = d" using assms by (simp add: unat_of_nat take_bit_nat_eq_self)
  then have "unat (48 + word_of_nat d :: u8) = 48 + d" using assms by (simp add: unat_word_ariths)
  moreover from arg_cong [OF this, of int] have "uint (48 + word_of_nat d :: u8) = 48 + int d" by simp
  ultimately show "dig_of (48 + word_of_nat d) = Some (int d)" "48 + word_of_nat d \<noteq> (0 :: u8)"
    "48 \<le> (48 + word_of_nat d :: u8)" "(48 + word_of_nat d :: u8) \<le> 57"
    using assms by (auto simp: dig_of_def word_le_nat_alt unat_eq_0 [symmetric] simp del: unat_eq_0)
qed

lemma decs_chars: "c \<in> set (decs n) \<Longrightarrow> \<exists>d < 10. c = 48 + word_of_nat d"
proof (induction n rule: decs.induct)
  case (1 n)
  then have "c = 48 + word_of_nat (n mod 10) \<or> \<not> n < 10 \<and> c \<in> set (decs (n div 10))"
    by (simp add: decs_rec [of n] split: if_splits)
  moreover have "n mod 10 < 10" by simp
  ultimately show ?case using 1(1) by blast
qed

lemma sint_small: "n < 2 ^ 31 \<Longrightarrow> sint (word_of_nat n :: i32) = int n"
proof -
  assume "n < 2 ^ 31"
  then have "signed_take_bit 31 (int n) = int n" by (intro signed_take_bit_int_eq_self) simp_all
  then show ?thesis by (simp add: signed_of_nat)
qed

lemma nat_step: "int n sdiv 10 = int (n div 10)" "int n smod 10 = int (n mod 10)"
proof -
  show "int n sdiv 10 = int (n div 10)" by (simp add: signed_divide_int_def zdiv_int sgn_if)
  then show "int n smod 10 = int (n mod 10)" by (simp add: signed_modulo_int_def zmod_int minus_div_mult_eq_mod) (cases n, auto)
qed

lemma put_end: "length xs < 2 ^ 32 \<Longrightarrow> (put m d xs)(d + word_of_nat (length xs) := y) = put m d (xs @ [y])"
  using put_append [of xs "[y]" m d] by (simp add: put_Cons)

lemma ltostr_digits_eq:
  "n < 2 ^ 31 \<Longrightarrow> ltostr_digits m str s (word_of_nat n) = (put m (str + s) (rev (decs n)), s + word_of_nat (length (decs n)))"
proof (induction n arbitrary: m s rule: less_induct)
  case (less n)
  have len: "length (decs (n div 10)) < 2 ^ 32"
    using le_less_trans [OF div_le_dividend less.prems] by (intro le_less_trans [OF decs_short]) simp_all
  have st: "sint (word_of_nat n :: i32) sdiv 10 = int (n div 10)" "sint (word_of_nat n :: i32) smod 10 = int (n mod 10)"
    using less.prems by (simp_all add: sint_small nat_step)
  have z: "word_of_nat (n div 10) = (0 :: i32) \<longleftrightarrow> n < 10"
  proof -
    have "unat (word_of_nat (n div 10) :: u32) = n div 10" using less.prems by (intro unat_of_nat_u32) simp
    moreover from this have "word_of_nat (n div 10) = (0 :: i32) \<Longrightarrow> n div 10 = 0" by (simp only: unat_0)
    ultimately show ?thesis by (auto simp: div_eq_0_iff)
  qed
  let ?m = "m(str + s := word_of_int (int (n mod 10)) + 48)"
  show ?case
  proof (cases "n < 10")
    case True
    then show ?thesis using z by (subst ltostr_digits.simps) (simp add: st Let_def decs.simps [of n] put_Cons add.commute)
  next
    case False
    have "ltostr_digits ?m str (s + 1) (word_of_nat (n div 10))
      = (put ?m (str + (s + 1)) (rev (decs (n div 10))), s + 1 + word_of_nat (length (decs (n div 10))))"
      using False less.prems by (intro less.IH) auto
    then show ?thesis using False z len by (subst ltostr_digits.simps) (simp add: st Let_def decs.simps [of n] put_Cons add.commute add.left_commute)
  qed
qed

lemma put_outside: "length ys \<le> unat (a - d) \<Longrightarrow> (put m d ys)(a := v) = put (m(a := v)) d ys"
  by (auto simp: put_def)

lemma put_ends:
  assumes "Suc (length ys) < 2 ^ 32" and "q = p + word_of_nat (Suc (length ys))"
  shows "put m p (x # ys @ [y]) = put (m(p := x, q := y)) (p + 1) ys"
    and "(put m p (x # ys @ [y]))(p := y, q := x) = put (m(p := y, q := x)) (p + 1) ys"
proof -
  have e: "put m p (x # ys @ [y]) = put (m(p := x, q := y)) (p + 1) ys" for m x y
    using assms put_Cons [of "ys @ [y]" m p x] put_snoc [of ys "m(p := x)" "p + 1" y] by (simp add: add.assoc)
  have "p - (p + 1) = (0xFFFFFFFF :: u32)" by simp
  then have p: "length ys \<le> unat (p - (p + 1))" using assms(1) by (simp only: ) simp
  have "q - (p + 1) = word_of_nat (length ys)" by (simp add: assms(2))
  then have q: "length ys \<le> unat (q - (p + 1))" using assms(1) by (simp add: unat_of_nat_u32)
  have "p \<noteq> q"
  proof
    assume "p = q"
    then have "word_of_nat (Suc (length ys)) = (0 :: u32)" using assms(2) by simp
    then show False using assms(1) unat_of_nat_u32 [of "Suc (length ys)"] by (simp del: of_nat_Suc)
  qed
  then show "(put m p (x # ys @ [y]))(p := y, q := x) = put (m(p := y, q := x)) (p + 1) ys"
    unfolding e put_outside [OF p] put_outside [OF q] by (simp add: fun_upd_twist)
  show "put m p (x # ys @ [y]) = put (m(p := x, q := y)) (p + 1) ys" by (rule e)
qed

lemma ltostr_reverse_eq:
  "A + length xs < 2 ^ 31 \<Longrightarrow>
   ltostr_reverse (put m (str + word_of_nat A) xs) str (word_of_nat A) (word_of_nat (A + length xs) - 1)
     = put m (str + word_of_nat A) (rev xs)"
proof (induction "length xs" arbitrary: A m xs rule: less_induct)
  case less
  have sA: "sint (word_of_nat A :: i32) = int A" using less.prems by (intro sint_small) simp
  have sE: "sint (word_of_nat (A + length xs) - 1 :: i32) = int (A + length xs) - 1"
  proof (cases "A + length xs = 0")
    case False
    then obtain k where k: "A + length xs = Suc k" by (cases "A + length xs") auto
    then show ?thesis using less.prems sint_small [of k] by (simp del: of_nat_add)
  qed simp
  consider "length xs \<le> 1" | x ys y where "xs = x # ys @ [y]"
  proof (cases xs)
    case (Cons x zs)
    then show ?thesis using that by (cases zs rule: rev_cases) auto
  qed (use that in simp)
  then show ?case
  proof cases
    case 1
    then have "rev xs = xs" by (cases xs) auto
    then show ?thesis using 1 by (subst ltostr_reverse.simps) (simp add: sA sE [unfolded of_nat_add])
  next
    case (2 x ys y)
    let ?p = "str + word_of_nat A"
    let ?q = "str + (word_of_nat (A + length xs) - 1)"
    have q: "?q = ?p + word_of_nat (Suc (length ys))" by (simp add: 2)
    have l: "Suc (length ys) < 2 ^ 32" using less.prems by (simp add: 2)
    have at: "put m ?p xs ?p = x" "put m ?p xs ?q = y"
      using put_at [of 0 xs m ?p] put_at [of "Suc (length ys)" xs m ?p] l unfolding q by (simp_all add: 2 nth_append)
    note sw = put_ends(2) [OF l q, of m x y, folded 2]
    have "ltostr_reverse (put (m(?p := y, ?q := x)) (str + word_of_nat (Suc A)) ys) str (word_of_nat (Suc A)) (word_of_nat (Suc A + length ys) - 1)
      = put (m(?p := y, ?q := x)) (str + word_of_nat (Suc A)) (rev ys)"
      using less.prems by (intro less.hyps) (simp_all add: 2)
    moreover have "put (m(?p := y, ?q := x)) (?p + 1) (rev ys) = put m ?p (rev xs)"
      using put_ends(1) [of "rev ys" ?q ?p m y x] l q by (simp add: 2)
    moreover have lt: "sint (word_of_nat A :: i32) < sint (word_of_nat (A + length xs) - 1 :: i32)" unfolding sA sE by (simp add: 2)
    ultimately show ?thesis
      using at sw by (subst ltostr_reverse.simps, unfold if_P [OF lt]) (simp add: 2 Let_def algebra_simps)
  qed
qed

lemma sint_parts:
  assumes "v \<noteq> (0x80000000 :: i32)"
  shows "v = (if sint v < 0 then - word_of_nat (nat \<bar>sint v\<bar>) else word_of_nat (nat \<bar>sint v\<bar>))" and "nat \<bar>sint v\<bar> < 2 ^ 31"
proof -
  have b: "- (2 ^ 31) \<le> sint v" "sint v < 2 ^ 31" using sint_ge [of v] sint_lt [of v] by simp_all
  have vi: "v = word_of_int (sint v)" by simp
  have "sint v \<noteq> - (2 ^ 31)"
  proof
    assume "sint v = - (2 ^ 31)"
    then have "v = word_of_int (- (2 ^ 31))" using vi by metis
    then show False using assms by simp
  qed
  then show "nat \<bar>sint v\<bar> < 2 ^ 31" using b by (auto simp: abs_if)
  show "v = (if sint v < 0 then - word_of_nat (nat \<bar>sint v\<bar>) else word_of_nat (nat \<bar>sint v\<bar>))"
    using vi by (auto simp: abs_if)
qed

lemma ltostr_eq:
  assumes "v \<noteq> (0x80000000 :: i32)"
  shows "ltostr m v str = put m str (dec_text v @ [0])"
proof -
  define n where "n = nat \<bar>sint v\<bar>"
  define sign where "sign = (if sint v < 0 then [45 :: u8] else [])"
  define k where "k = length sign"
  note p = sint_parts [OF assms, folded n_def]
  have k: "(if sint v < 0 then (m(str := 45), v * (- 1), 1) else (m, v, 0 :: i32)) = (put m str sign, word_of_nat n, word_of_nat k)"
    "(if sint v < 0 then 1 else 0 :: i32) = word_of_nat k" "k \<le> 1"
    using p(1) by (auto simp: sign_def k_def put_Cons)
  let ?m = "put m str sign"
  have len: "length (decs n) \<le> 10" using p(2) by (rule decs_short)
  have d: "ltostr_digits ?m str (word_of_nat k) (word_of_nat n) = (put ?m (str + word_of_nat k) (rev (decs n)), word_of_nat k + word_of_nat (length (decs n)))"
    using p(2) by (rule ltostr_digits_eq)
  have r: "ltostr_reverse (put ?m (str + word_of_nat k) (rev (decs n))) str (word_of_nat k) (word_of_nat k + word_of_nat (length (decs n)) - 1)
    = put ?m (str + word_of_nat k) (decs n)"
    using ltostr_reverse_eq [of k "rev (decs n)" ?m str] k(3) len by simp
  have "put ?m (str + word_of_nat k) (decs n) = put m str (sign @ decs n)"
    using put_append [of sign "decs n" m str] k(3) len by (simp add: k_def [symmetric])
  then have "ltostr m v str = (put m str (sign @ decs n))(str + (word_of_nat k + word_of_nat (length (decs n))) := 0)"
    by (simp add: ltostr_def Let_def k(1,2) d r)
  moreover have "dec_text v = sign @ decs n" by (simp add: dec_text_def sign_def n_def)
  ultimately show ?thesis
    using put_end [of "sign @ decs n" m str 0] k(3) len
    by (simp add: k_def)
qed

lemma strtol_digits_eq:
  "\<lbrakk>cstr m p xs; \<forall>c \<in> set xs. \<exists>d < 10. c = 48 + word_of_nat d\<rbrakk>
   \<Longrightarrow> strtol_digits m p 10 v = Some (p + word_of_nat (length xs), foldl (\<lambda>v c. v * 10 + word_of_int (the (dig_of c))) v xs)"
proof (induction xs arbitrary: p v)
  case Nil
  then show ?case by (subst strtol_digits.simps) (simp add: dig_of_def)
next
  case (Cons x xs)
  then obtain d where d: "d < 10" "x = 48 + word_of_nat d" by auto
  have "m p = x" using Cons.prems by simp
  then have "strtol_digits m p 10 v = strtol_digits m (p + 1) 10 (v * 10 + word_of_int (int d))"
    using d by (subst strtol_digits.simps) (simp add: digit_char(1))
  also have "\<dots> = Some (p + 1 + word_of_nat (length xs), foldl (\<lambda>v c. v * 10 + word_of_int (the (dig_of c))) (v * 10 + word_of_int (int d)) xs)"
    using Cons by auto
  finally show ?case using d by (simp add: digit_char(1) add.assoc)
qed

lemma fold_decs: "foldl (\<lambda>v c. v * 10 + word_of_int (the (dig_of c))) 0 (decs n) = (word_of_nat n :: i32)"
proof (induction n rule: decs.induct)
  case (1 n)
  have "word_of_nat (n div 10) * 10 + word_of_nat (n mod 10) = (word_of_nat (n div 10 * 10 + n mod 10) :: i32)"
    unfolding of_nat_add of_nat_mult by simp
  then have e: "word_of_nat (n div 10) * 10 + word_of_nat (n mod 10) = (word_of_nat n :: i32)" by (simp only: div_mult_mod_eq)
  show ?case
  proof (cases "n < 10")
    case True
    then show ?thesis by (simp add: decs.simps [of n] digit_char(1))
  next
    case False
    then show ?thesis using 1 e by (simp add: decs.simps [of n] digit_char(1))
  qed
qed

lemma strtol_dec_text:
  assumes "v \<noteq> 0x80000000" and c: "cstr m str (dec_text v)"
  shows "strtol m str 10 = Some (v, str + word_of_nat (length (dec_text v)))"
proof -
  define n where "n = nat \<bar>sint v\<bar>"
  note p = sint_parts [OF assms(1), folded n_def]
  have ch: "\<exists>d < 10. c = 48 + word_of_nat d" if "c \<in> set (decs n)" for c using that by (rule decs_chars)
  let ?m = m
  obtain x xs where x: "decs n = x # xs" by (cases "decs n") (simp_all add: decs.simps [of n] split: if_splits)
  obtain d where d: "d < 10" "x = 48 + word_of_nat d" using ch x by auto
  have x48: "48 \<le> x" "x \<noteq> 43" "x \<noteq> 45" "x \<noteq> 32" "x \<noteq> 9"
  proof -
    show "48 \<le> x" using digit_char(3) [OF d(1)] d(2) by simp
    then show "x \<noteq> 43" "x \<noteq> 45" "x \<noteq> 32" "x \<noteq> 9" by auto
  qed
  show ?thesis
  proof (cases "sint v < 0")
    case True
    then have t: "?m str = 45" "cstr ?m (str + 1) (decs n)" using c by (simp_all add: dec_text_def n_def)
    have "skip_blanks ?m str = Some str" by (subst skip_blanks.simps) (simp add: t(1))
    moreover have "strtol_digits ?m (str + 1) 10 0 = Some (str + 1 + word_of_nat (length (decs n)), word_of_nat n)"
      using strtol_digits_eq [OF t(2), of 0] ch fold_decs [of n] by simp
    ultimately show ?thesis using p(1) True t(1) by (simp add: strtol_def dec_text_def n_def add.assoc Let_def)
  next
    case False
    then have t: "cstr ?m str (decs n)" using c by (simp add: dec_text_def n_def)
    then have "?m str = x" using x by simp
    moreover from this have "skip_blanks ?m str = Some str" using x48 by (subst skip_blanks.simps) simp
    moreover have "strtol_digits ?m str 10 0 = Some (str + word_of_nat (length (decs n)), word_of_nat n)"
      using strtol_digits_eq [OF t, of 0] ch fold_decs [of n] by simp
    ultimately show ?thesis using p(1) False x48 by (simp add: strtol_def dec_text_def n_def Let_def)
  qed
qed

text \<open>Printing a number and reading it back gives the number: for every 32-bit value but the
  least one, \<open>ltostr\<close> writes exactly the sign and the decimal digits, most significant first,
  followed by NUL, and nothing else; \<open>strtol\<close> in base ten reads the same value from that text and
  stops at its end.\<close>

theorem ltostr_strtol_round_trip:
  assumes "v \<noteq> 0x80000000"
  shows "ltostr m v str = put m str (dec_text v @ [0])
    \<and> strtol (ltostr m v str) str 10 = Some (v, str + word_of_nat (length (dec_text v)))"
proof -
  define n where "n = nat \<bar>sint v\<bar>"
  note p = sint_parts [OF assms, folded n_def]
  note e = ltostr_eq [OF assms, of m str]
  have nz: "0 \<notin> set (dec_text v)" using decs_chars digit_char(2) by (fastforce simp: dec_text_def n_def)
  have "length (dec_text v) \<le> 11" unfolding dec_text_def n_def [symmetric] using decs_short [OF p(2)] by simp
  then have "length (dec_text v) < 2 ^ 32" by simp
  with nz have c: "cstr (ltostr m v str) str (dec_text v)" unfolding e by (intro cstr_put)
  show ?thesis using e strtol_dec_text [OF assms c] by simp
qed

theorem ltostr_strtol_round_trip_witness:
  "\<exists>t. strtol (ltostr (\<lambda>_. 0) (- 1025) 0x1000) 0x1000 10 = Some (- 1025, t) \<and> t \<noteq> 0x1000"
proof -
  have "dec_text (- 1025) = 45 # decs 1025" by (simp add: dec_text_def)
  moreover have "length (decs 1025) = 4" by (simp add: decs.simps)
  ultimately show ?thesis using ltostr_strtol_round_trip [of "- 1025" "\<lambda>_. 0" "0x1000", THEN conjunct2] by (intro exI [of _ "0x1005"]) simp
qed

theorem block_operations_copy_witness:
  "memmove (\<lambda>a. ucast a) 0x102 0x100 5 = (0x102, put (\<lambda>a. ucast a) 0x102 [0x00, 0x01, 0x02, 0x03, 0x04])"
proof -
  have "memmove (\<lambda>a. ucast a) 0x102 0x100 5 = (0x102, put (\<lambda>a. ucast a) 0x102 (get (\<lambda>a. ucast a) 0x100 (unat (5 :: u32))))"
    using block_operations_copy [of "0x102" 5 "0x100" "\<lambda>a. ucast a"] by simp
  moreover have "get (\<lambda>a. ucast a) 0x100 5 = [0x00, 0x01, 0x02, 0x03, 0x04]" by (simp add: get_def upt_rec)
  ultimately show ?thesis by simp
qed

section \<open>Splitting a line into words\<close>

text \<open>The reference: the maximal runs of bytes that are not separators.\<close>

function tokens :: "(u8 \<Rightarrow> bool) \<Rightarrow> u8 list \<Rightarrow> u8 list list" where
  "tokens P xs = (if dropWhile P xs = [] then []
     else takeWhile (\<lambda>c. \<not> P c) (dropWhile P xs) # tokens P (dropWhile (\<lambda>c. \<not> P c) (dropWhile P xs)))"
  by pat_completeness auto
termination
proof (relation "measure (\<lambda>(P, xs). length xs)", simp, clarsimp)
  fix P and xs :: "u8 list" and x
  assume x: "x \<in> set xs" "\<not> P x"
  then obtain y ys where y: "dropWhile P xs = y # ys" by (cases "dropWhile P xs") auto
  then have "\<not> P y" by (metis hd_dropWhile list.sel(1) list.distinct(1))
  then have "length (dropWhile (\<lambda>c. \<not> P c) (dropWhile P xs)) \<le> length ys" using y by (simp add: length_dropWhile_le)
  also have "length ys < length (dropWhile P xs)" using y by simp
  also have "\<dots> \<le> length xs" by (rule length_dropWhile_le)
  finally show "length (dropWhile (\<lambda>c. \<not> P c) (dropWhile P xs)) < length xs" .
qed

declare tokens.simps [simp del]

text \<open>The separators stand in memory at \<open>q\<close>, apart from the line at \<open>s\<close>.\<close>

definition seps_at :: "bytes \<Rightarrow> u32 \<Rightarrow> u8 list \<Rightarrow> u32 \<Rightarrow> nat \<Rightarrow> bool" where
  "seps_at m q seps s n \<longleftrightarrow> cstr m q seps \<and> q \<noteq> 0 \<and> unat q + length seps < 2 ^ 32 \<and> apart q (Suc (length seps)) s (Suc n) \<and> n < 2 ^ 32"

lemma seps_at_chr: "seps_at m q seps s n \<Longrightarrow> \<exists>r. strchr m q c = Some r \<and> (r \<noteq> 0 \<longleftrightarrow> c \<in> set seps)"
  unfolding seps_at_def by (blast intro: strchr_cstr)

lemma seps_at_put:
  assumes "seps_at m q seps s n" and "length zs \<le> n"
  shows "seps_at (put m s zs) q seps s n"
proof -
  have "apart q (Suc (length seps)) s (length zs)"
    using assms unfolding seps_at_def apart_def by (meson Suc_leD le_trans)
  then show ?thesis using assms(1) by (simp add: seps_at_def cstr_put_apart)
qed

lemma seps_at_inner: "\<lbrakk>seps_at m q seps s n; k \<le> n\<rbrakk> \<Longrightarrow> seps_at m q seps (s + word_of_nat k) (n - k)"
  unfolding seps_at_def using apart_inner [of q "Suc (length seps)" s "Suc n" k] by (auto simp: Suc_diff_le)

lemma put_get_id: "put m s (get m s n) = m"
proof
  fix a
  have "unat (a - s) < n \<Longrightarrow> m (s + word_of_nat (unat (a - s))) = m a" by simp
  then show "put m s (get m s n) a = m a" by (simp add: put_def get_def)
qed

lemma cstr_split: "cstr m s (xs @ ys) \<longleftrightarrow> get m s (length xs) = xs \<and> 0 \<notin> set xs \<and> cstr m (s + word_of_nat (length xs)) ys"
  by (induction xs arbitrary: s) (auto simp: add.assoc)

lemma split_trim_eq:
  "\<lbrakk>cstr m s xs; seps_at m q seps s (length xs)\<rbrakk> \<Longrightarrow>
   split_trim m q s = Some (s + word_of_nat (length (takeWhile (\<lambda>c. c \<in> set seps) xs)),
     put m s (replicate (length (takeWhile (\<lambda>c. c \<in> set seps) xs)) 0))"
proof (induction xs arbitrary: m s)
  case Nil
  then show ?case by (subst split_trim.simps) simp
next
  case (Cons x xs)
  obtain r where r: "strchr m q x = Some r" "r \<noteq> 0 \<longleftrightarrow> x \<in> set seps" using seps_at_chr [OF Cons.prems(2)] by blast
  show ?case
  proof (cases "x \<in> set seps")
    case True
    have m: "put m s [0] = m(s := 0)" by (simp add: put_Cons)
    have "seps_at (m(s := 0)) q seps s (length (x # xs))" using seps_at_put [OF Cons.prems(2), of "[0]"] m by simp
    from seps_at_inner [OF this, of 1] have sp: "seps_at (m(s := 0)) q seps (s + 1) (length xs)" by simp
    have n: "length xs < 2 ^ 32" using Cons.prems(2) by (simp add: seps_at_def)
    have "cstr (put m s [0]) (s + 1) xs"
    proof (rule cstr_put_apart)
      show "cstr m (s + 1) xs" using Cons.prems(1) by simp
      show "apart (s + 1) (Suc (length xs)) s (length [0 :: u8])" unfolding apart_def
      proof (intro allI impI)
        fix i assume "i < Suc (length xs)"
        then have "unat (word_of_nat (Suc i) :: u32) = Suc i" using Cons.prems(2) by (intro unat_of_nat_u32) (simp add: seps_at_def)
        moreover have "s + 1 + word_of_nat i - s = word_of_nat (Suc i)" by simp
        ultimately show "length [0 :: u8] \<le> unat (s + 1 + word_of_nat i - s)" by (simp del: of_nat_Suc)
      qed
    qed
    then have "split_trim (m(s := 0)) q (s + 1) = Some (s + 1 + word_of_nat (length (takeWhile (\<lambda>c. c \<in> set seps) xs)),
       put (m(s := 0)) (s + 1) (replicate (length (takeWhile (\<lambda>c. c \<in> set seps) xs)) 0))"
      using Cons.IH sp unfolding m by blast
    moreover have "length (takeWhile (\<lambda>c. c \<in> set seps) xs) < 2 ^ 32" using n length_takeWhile_le le_less_trans by blast
    ultimately show ?thesis using True Cons.prems(1) r by (subst split_trim.simps) (simp add: put_Cons add.assoc)
  next
    case False
    then show ?thesis using Cons.prems(1) r by (subst split_trim.simps) simp
  qed
qed

lemma split_scan_eq:
  "\<lbrakk>cstr m s xs; seps_at m q seps t n\<rbrakk> \<Longrightarrow> split_scan m q s = Some (s + word_of_nat (length (takeWhile (\<lambda>c. c \<notin> set seps) xs)))"
proof (induction xs arbitrary: s)
  case Nil
  then show ?case by (subst split_scan.simps) simp
next
  case (Cons x xs)
  obtain r where r: "strchr m q x = Some r" "r \<noteq> 0 \<longleftrightarrow> x \<in> set seps" using seps_at_chr [OF Cons.prems(2)] by blast
  then show ?case using Cons by (subst split_scan.simps) (auto simp: add.assoc)
qed

lemma tokens_Cons:
  assumes "dropWhile P xs = y # ys"
  shows "tokens P xs = (y # takeWhile (\<lambda>c. \<not> P c) ys) # tokens P (dropWhile (\<lambda>c. \<not> P c) ys)"
proof -
  have "\<not> P y" using assms by (metis hd_dropWhile list.sel(1) list.distinct(1))
  then show ?thesis using assms by (subst tokens.simps) simp
qed

lemma strsplit_loop_eq:
  fixes m :: bytes
  assumes "cstr m s xs" and "seps_at m q seps s (length xs)" and "argc \<le> 15" and "16 \<le> length argv"
  defines "T \<equiv> tokens (\<lambda>c. c \<in> set seps) xs"
  shows "\<exists>zs argv'. strsplit_loop m q s argv argc
      = Some (if argc + length T \<le> 15 then 1 else 0, put m s zs, argv', min 15 (argc + length T))
    \<and> length zs = length xs \<and> (xs \<noteq> [] \<and> hd xs \<in> set seps \<longrightarrow> hd zs = 0) \<and> length argv' = length argv
    \<and> (\<forall>i < argc. argv' ! i = argv ! i)
    \<and> (\<forall>i < length T. argc + i < 15 \<longrightarrow> cstr (put m s zs) (argv' ! (argc + i)) (T ! i))"
  using assms(1-4) unfolding T_def
proof (induction "length xs" arbitrary: m s xs argv argc rule: less_induct)
  case less
  let ?P = "\<lambda>c. c \<in> set seps"
  define k where "k = length (takeWhile ?P xs)"
  define ts where "ts = dropWhile ?P xs"
  let ?m = "put m s (replicate k 0)"
  let ?s = "s + word_of_nat k"
  have xs: "xs = takeWhile ?P xs @ ts" by (simp add: ts_def)
  have len: "length xs = k + length ts" using arg_cong [OF xs, of length] by (simp add: k_def)
  have n32: "length xs < 2 ^ 32" using less.prems(2) by (simp add: seps_at_def)
  note trim = split_trim_eq [OF less.prems(1,2), folded k_def]
  have "cstr m ?s ts" using less.prems(1) xs cstr_split [of m s "takeWhile ?P xs" ts] by (simp add: k_def)
  moreover have "apart ?s (Suc (length ts)) s k"
    unfolding apart_def
  proof (intro allI impI)
    fix i assume "i < Suc (length ts)"
    then have "unat (word_of_nat (k + i) :: u32) = k + i" using n32 len by (intro unat_of_nat_u32) simp
    moreover have "?s + word_of_nat i - s = word_of_nat (k + i)" by simp
    ultimately show "k \<le> unat (?s + word_of_nat i - s)" by (simp del: of_nat_add)
  qed
  ultimately have ts: "cstr ?m ?s ts" by (intro cstr_put_apart) simp_all
  have sp: "seps_at ?m q seps ?s (length ts)"
    using seps_at_inner [OF seps_at_put [OF less.prems(2), of "replicate k 0"], of k] len by simp
  show ?case
  proof (cases ts)
    case Nil
    then have "tokens ?P xs = []" unfolding ts_def by (subst tokens.simps) simp
    moreover have "strsplit_loop m q s argv argc = Some (1, ?m, argv[argc := 0], argc)"
      using trim ts Nil by (subst strsplit_loop.simps) simp
    moreover have "hd (replicate k (0 :: u8)) = 0" if "xs \<noteq> []" using that len Nil by (cases k) auto
    ultimately show ?thesis using less.prems(3) len Nil
      by (intro exI [of _ "replicate k 0"] exI [of _ "argv[argc := 0]"]) simp
  next
    case (Cons y ys)
    let ?t = "y # takeWhile (\<lambda>c. c \<notin> set seps) ys"
    let ?rest = "dropWhile (\<lambda>c. c \<notin> set seps) ys"
    have T: "tokens ?P xs = ?t # tokens ?P ?rest" using tokens_Cons [of ?P xs y ys] Cons by (simp add: ts_def)
    have y: "?m ?s = y" "y \<noteq> 0" "y \<notin> set seps"
      using ts Cons hd_dropWhile [of ?P xs] by (auto simp: ts_def)
    have hd0: "hd (replicate k 0 @ zs) = (0 :: u8)" if "xs \<noteq> []" "hd xs \<in> set seps" for zs
      using that by (cases xs) (auto simp: k_def)
    show ?thesis
    proof (cases "argc = 15")
      case True
      have "strsplit_loop m q s argv argc = Some (0, ?m, argv, argc)"
        using trim y True by (subst strsplit_loop.simps) simp
      moreover have "?m = put m s (replicate k 0 @ get ?m ?s (length ts))"
        using put_append [of "replicate k 0" "get ?m ?s (length ts)" m s] put_get_id [of ?m ?s] len n32 by simp
      ultimately show ?thesis using True T len hd0
        by (intro exI [of _ "replicate k 0 @ get ?m ?s (length ts)"] exI [of _ argv]) simp
    next
      case False
      define l where "l = length ?t"
      let ?s2 = "?s + word_of_nat l"
      have tl: "ts = ?t @ ?rest" by (simp add: Cons)
      have lt: "length ts = l + length ?rest" unfolding l_def using arg_cong [OF tl, of length] by (simp only: length_append)
      have "takeWhile (\<lambda>c. c \<notin> set seps) ts = ?t" using y(3) Cons by simp
      then have scan: "split_scan ?m q ?s = Some ?s2" using split_scan_eq [OF ts sp] by (simp add: l_def)
      have cs: "get ?m ?s l = ?t" "0 \<notin> set ?t" "cstr ?m ?s2 ?rest"
        using ts cstr_split [of ?m ?s ?t ?rest] unfolding tl [symmetric] by (simp_all add: l_def)
      have sp2: "seps_at ?m q seps ?s2 (length ?rest)" using seps_at_inner [OF sp, of l] lt by simp
      have "length ?rest < length xs" using lt len by (simp add: l_def)
      from less.hyps [OF this cs(3) sp2, of "Suc argc" "argv[argc := ?s]"] False less.prems(3,4)
      obtain zs argv' where rec: "strsplit_loop ?m q ?s2 (argv[argc := ?s]) (Suc argc)
           = Some (if Suc argc + length (tokens ?P ?rest) \<le> 15 then 1 else 0, put ?m ?s2 zs, argv', min 15 (Suc argc + length (tokens ?P ?rest)))"
        and z: "length zs = length ?rest" "?rest \<noteq> [] \<and> hd ?rest \<in> set seps \<longrightarrow> hd zs = 0" "length argv' = length argv"
          "\<forall>i < Suc argc. argv' ! i = argv[argc := ?s] ! i"
          "\<forall>i < length (tokens ?P ?rest). Suc argc + i < 15 \<longrightarrow> cstr (put ?m ?s2 zs) (argv' ! (Suc argc + i)) (tokens ?P ?rest ! i)"
        by auto
      let ?zs = "replicate k 0 @ ?t @ zs"
      have ml: "put ?m ?s (?t @ zs) = put ?m ?s2 zs"
        using put_append [of ?t zs ?m ?s] put_get_id [of ?m ?s l] lt len n32 z(1) unfolding cs(1) by (simp add: l_def)
      have m': "put m s ?zs = put ?m ?s2 zs"
        using put_append [of "replicate k 0" "?t @ zs" m s] lt len n32 z(1) ml by (simp add: l_def)
      have end0: "put ?m ?s2 zs ?s2 = 0"
      proof (cases ?rest)
        case Nil
        show ?thesis using cs(3) z(1) unfolding Nil by simp
      next
        case (Cons b bs)
        then have "hd zs = 0" "zs \<noteq> []" using z(1,2) hd_dropWhile [of "\<lambda>c. c \<notin> set seps" ys] by auto
        then show ?thesis by (simp add: put_def hd_conv_nth)
      qed
      have "get (put ?m ?s2 zs) ?s l = ?t"
        using get_put [of "?t @ zs" ?m ?s] get_append [of "put ?m ?s2 zs" ?s l "length zs"] lt len n32 z(1) unfolding ml
        by (simp add: l_def)
      then have tok: "cstr (put ?m ?s2 zs) ?s ?t"
        using cstr_split [of "put ?m ?s2 zs" ?s ?t "[]"] cs(2) end0 by (simp add: l_def)
      have "strsplit_loop m q s argv argc = strsplit_loop ?m q ?s2 (argv[argc := ?s]) (Suc argc)"
        using trim y False scan by (subst strsplit_loop.simps) simp
      moreover have "argv' ! argc = ?s" using z(4) False less.prems(3,4) by simp
      moreover have "cstr (put ?m ?s2 zs) (argv' ! (argc + i)) ((?t # tokens ?P ?rest) ! i)"
        if "i < length (?t # tokens ?P ?rest)" "argc + i < 15" for i
        using that z(5) tok \<open>argv' ! argc = ?s\<close> by (cases i) auto
      ultimately show ?thesis unfolding T
        using rec z hd0 len lt False m' by (intro exI [of _ ?zs] exI [of _ argv']) (simp add: l_def)
    qed
  qed
qed

text \<open>\<open>strsplit\<close> cuts a line into its words.  A line with at most fifteen words is accepted,
  the count is their number and each entry of the argument array points at a NUL-terminated copy of
  its word inside the line; a longer line is refused, with the first fifteen words in place.  No
  byte outside the line is written.\<close>

theorem strsplit_tokens:
  fixes xs seps :: "u8 list"
  defines "T \<equiv> tokens (\<lambda>c. c \<in> set seps) xs"
  assumes "cstr m s xs" and "seps_at m q seps s (length xs)" and "length argv = 16"
  shows "\<exists>zs argv'. strsplit m s q argv = Some (if length T \<le> 15 then 1 else 0, put m s zs, argv', min 15 (length T))
    \<and> length zs = length xs \<and> length argv' = 16
    \<and> (\<forall>i < min 15 (length T). cstr (put m s zs) (argv' ! i) (T ! i))"
  using strsplit_loop_eq [OF assms(2,3), of 0 "argv[0 := 0]"] assms(4) unfolding strsplit_def T_def by fastforce

definition line_mem :: bytes where
  "line_mem = (\<lambda>_. 0)(0x100 := 108, 0x101 := 115, 0x102 := 32, 0x103 := 32, 0x104 := 97, 0x200 := 32)"

theorem strsplit_tokens_witness:
  "\<exists>m' argv'. strsplit line_mem 0x100 0x200 (replicate 16 0) = Some (1, m', argv', 2)
     \<and> cstr m' (argv' ! 0) [108, 115] \<and> cstr m' (argv' ! 1) [97]"
proof -
  have c: "cstr line_mem 0x100 [108, 115, 32, 32, 97]" by (simp add: line_mem_def)
  have "cstr line_mem 0x200 [32]" by (simp add: line_mem_def)
  then have q: "seps_at line_mem 0x200 [32] 0x100 (length [108, 115, 32, 32, 97 :: u8])"
    by (simp add: seps_at_def apart_def less_Suc_eq)
  have T: "tokens (\<lambda>c. c \<in> set [32]) [108, 115, 32, 32, 97 :: u8] = [[108, 115], [97]]"
    by (simp add: tokens_Cons tokens.simps)
  obtain m' argv' where r: "strsplit line_mem 0x100 0x200 (replicate 16 0) = Some (1, m', argv', 2)"
    "\<forall>i < 2. cstr m' (argv' ! i) ([[108, 115], [97]] ! i)"
    using strsplit_tokens [OF c q, of "replicate 16 0"] unfolding T by auto
  from r(2) [rule_format, of 0] r(2) [rule_format, of 1]
  have "cstr m' (argv' ! 0) [108, 115]" "cstr m' (argv' ! 1) [97]" by simp_all
  then show ?thesis using r(1) by simp
qed

end
