(* ===== verification/FOS_Uheap.thy ===== *)
theory FOS_Uheap
  imports FOS_DynAlloc "HOL-Library.Multiset"
begin

text \<open>
  The heap of a user process: \<^verbatim>\<open>lib/uheap.c\<close>.  Requests of at most 2048 bytes go to the block
  allocator of \<open>FOS_DynAlloc\<close>, larger ones get whole pages by custom fit: a free chunk of exactly the
  wanted size, else the largest free chunk, else new pages above the break.

  The two linked lists of the code are lists of nodes; a node carries the heap address it was
  allocated at, because the nodes themselves come from \<open>malloc\<close> and go back through \<open>free\<close>.  The
  system calls are the functions of a record of type \<open>syscalls\<close> over the kernel state \<open>'k\<close>; a call
  that ends the process does not return.
\<close>

section \<open>State\<close>

text \<open>The size of a node of the allocation list is 16 bytes, of the free list 12.\<close>

abbreviation (input) sizeof_AllocationNode :: u32 where "sizeof_AllocationNode \<equiv> 16"
abbreviation (input) sizeof_FreeBlockNode :: u32 where "sizeof_FreeBlockNode \<equiv> 12"

record OURAllocationNode =
  an_addr :: u32
  Bedayet_eladd :: u32
  an_size :: u32
  shareIDSfreeFunc :: u32

record FreeBlockNode =
  fb_addr :: u32
  start_va :: u32
  num_pages :: u32

text \<open>\<open>stale a\<close> is what memory holds at the last field of a node newly allocated at \<open>a\<close>: the code does not
  initialise that field.\<close>

record uheap =
  firstTimeFlag :: int
  uheapPageAllocStart :: u32
  uheapPageAllocBreak :: u32
  uheapPlaceStrategy :: u32
  alloc_head :: "OURAllocationNode list"
  free_head :: "FreeBlockNode list"
  uh_da :: dyn_alloc
  stale :: "u32 \<Rightarrow> u32"

record 'k syscalls =
  sys_get_uheap_strategy :: "'k \<Rightarrow> (u32 \<times> 'k) res"
  sys_allocate_page :: "u32 \<Rightarrow> u32 \<Rightarrow> 'k \<Rightarrow> (u32 \<times> 'k) res"
  sys_unmap_frame :: "u32 \<Rightarrow> 'k \<Rightarrow> (u32 \<times> 'k) res"
  sys_allocate_user_mem :: "u32 \<Rightarrow> u32 \<Rightarrow> 'k \<Rightarrow> 'k res"
  sys_free_user_mem :: "u32 \<Rightarrow> u32 \<Rightarrow> 'k \<Rightarrow> 'k res"
  sys_create_shared_object :: "u8 list \<Rightarrow> u32 \<Rightarrow> u8 \<Rightarrow> u32 \<Rightarrow> 'k \<Rightarrow> (u32 \<times> 'k) res"
  sys_size_of_shared_object :: "u32 \<Rightarrow> u8 list \<Rightarrow> 'k \<Rightarrow> (u32 \<times> 'k) res"
  sys_get_shared_object :: "u32 \<Rightarrow> u8 list \<Rightarrow> u32 \<Rightarrow> 'k \<Rightarrow> (u32 \<times> 'k) res"
  sys_delete_shared_object :: "u32 \<Rightarrow> u32 \<Rightarrow> 'k \<Rightarrow> (u32 \<times> 'k) res"

definition negative :: "u32 \<Rightarrow> bool" where "negative r \<longleftrightarrow> sint r < 0"

section \<open>Initialisation and pages for the block allocator\<close>

definition uheap_init :: "'k syscalls \<Rightarrow> uheap \<times> 'k \<Rightarrow> (uheap \<times> 'k) res" where
  "uheap_init sc = (\<lambda>(h, k).
     if firstTimeFlag h \<noteq> 0 then
       bindE (initialize_dynamic_allocator USER_HEAP_START (USER_HEAP_START + DYN_ALLOC_MAX_SIZE) (uh_da h)) (\<lambda>d.
       bindE (sys_get_uheap_strategy sc k) (\<lambda>(strategy, k1).
       let p = dynAllocEnd d + PAGE_SIZE
       in Inr (h\<lparr>uh_da := d, uheapPlaceStrategy := strategy, uheapPageAllocStart := p,
                 uheapPageAllocBreak := p, firstTimeFlag := 0\<rparr>, k1)))
     else Inr (h, k))"

definition uheap_get_page :: "'k syscalls \<Rightarrow> u32 \<Rightarrow> 'k \<Rightarrow> 'k res" where
  "uheap_get_page sc va k =
     bindE (sys_allocate_page sc (ROUNDDOWN va PAGE_SIZE) (PERM_USER OR PERM_WRITEABLE OR PERM_UHPAGE) k) (\<lambda>(ret, k1).
     if negative ret then Inl (Panic ''get_page() in user: failed to allocate page from the kernel'') else Inr k1)"

definition uheap_return_page :: "'k syscalls \<Rightarrow> u32 \<Rightarrow> 'k \<Rightarrow> 'k res" where
  "uheap_return_page sc va k =
     bindE (sys_unmap_frame sc (ROUNDDOWN va PAGE_SIZE) k) (\<lambda>(ret, k1).
     if negative ret then Inl (Panic ''return_page() in user: failed to return a page to the kernel'') else Inr k1)"

section \<open>Small blocks and nodes\<close>

definition user_block :: "'k syscalls \<Rightarrow> u32 \<Rightarrow> uheap \<times> 'k \<Rightarrow> (u32 \<times> uheap \<times> 'k) res" where
  "user_block sc sz = (\<lambda>(h, k).
     bindE (alloc_block (uheap_get_page sc) sz (uh_da h, k)) (\<lambda>(r, d, k1).
     case r of Wait \<Rightarrow> Inl Spin | Ret b \<Rightarrow> Inr (b, h\<lparr>uh_da := d\<rparr>, k1)))"

text \<open>\<open>malloc\<close> of the size of a node, which takes the branch of the block allocator.\<close>

definition malloc_node :: "'k syscalls \<Rightarrow> u32 \<Rightarrow> uheap \<times> 'k \<Rightarrow> (u32 \<times> uheap \<times> 'k) res" where
  "malloc_node sc sz s = bindE (uheap_init sc s) (user_block sc sz)"

text \<open>\<open>free\<close> of a node.  Nodes lie below the page area, so this is the branch of the block allocator; a node
  elsewhere, for which \<open>free\<close> would call itself, does not occur.\<close>

definition free_node :: "'k syscalls \<Rightarrow> u32 \<Rightarrow> uheap \<times> 'k \<Rightarrow> (uheap \<times> 'k) res" where
  "free_node sc va s =
     (if va = 0 then Inr s
      else bindE (uheap_init sc s) (\<lambda>(h, k).
           if USER_HEAP_START \<le> va \<and> va < uheapPageAllocStart h then
             bindE (free_block (uheap_return_page sc) va (uh_da h, k)) (\<lambda>(d, k1). Inr (h\<lparr>uh_da := d\<rparr>, k1))
           else Inl Fault))"

section \<open>The list of allocations\<close>

definition find_allocation :: "u32 \<Rightarrow> uheap \<Rightarrow> OURAllocationNode option" where
  "find_allocation addd h = find (\<lambda>n. Bedayet_eladd n = addd) (alloc_head h)"

definition allocationGded :: "'k syscalls \<Rightarrow> u32 \<Rightarrow> u32 \<Rightarrow> uheap \<times> 'k \<Rightarrow> (uheap \<times> 'k) res" where
  "allocationGded sc va sz s = bindE (malloc_node sc sizeof_AllocationNode s) (\<lambda>(node, h, k).
     if node = 0 then Inl Fault
     else Inr (h\<lparr>alloc_head := \<lparr>an_addr = node, Bedayet_eladd = va, an_size = sz, shareIDSfreeFunc = stale h node\<rparr> # alloc_head h\<rparr>, k))"

fun unlink_allocation :: "u32 \<Rightarrow> OURAllocationNode list \<Rightarrow> (OURAllocationNode \<times> OURAllocationNode list) option" where
  "unlink_allocation va [] = None"
| "unlink_allocation va (n # ns) =
     (if Bedayet_eladd n = va then Some (n, ns) else map_option (\<lambda>(x, xs). (x, n # xs)) (unlink_allocation va ns))"

definition Nemsa7allocation :: "'k syscalls \<Rightarrow> u32 \<Rightarrow> uheap \<times> 'k \<Rightarrow> (uheap \<times> 'k) res" where
  "Nemsa7allocation sc va = (\<lambda>(h, k).
     case unlink_allocation va (alloc_head h) of
       None \<Rightarrow> Inr (h, k)
     | Some (n, ns) \<Rightarrow> free_node sc (an_addr n) (h\<lparr>alloc_head := ns\<rparr>, k))"

section \<open>The list of free chunks\<close>

fun insert_free :: "FreeBlockNode \<Rightarrow> FreeBlockNode list \<Rightarrow> FreeBlockNode list" where
  "insert_free n [] = [n]"
| "insert_free n (x # xs) = (if start_va x < start_va n then x # insert_free n xs else n # x # xs)"

definition FREEblockk :: "'k syscalls \<Rightarrow> u32 \<Rightarrow> u32 \<Rightarrow> uheap \<times> 'k \<Rightarrow> (uheap \<times> 'k) res" where
  "FREEblockk sc start pages = (\<lambda>(h, k).
     if pages = 0 then Inr (h, k)
     else if \<exists>n \<in> set (free_head h). start_va n = start then Inr (h, k)
     else bindE (malloc_node sc sizeof_FreeBlockNode (h, k)) (\<lambda>(node, h1, k1).
          if node = 0 then Inl (Panic ''malloc failed for free block'')
          else Inr (h1\<lparr>free_head := insert_free \<lparr>fb_addr = node, start_va = start, num_pages = pages\<rparr> (free_head h1)\<rparr>, k1)))"

fun unlink_exact :: "u32 \<Rightarrow> FreeBlockNode list \<Rightarrow> (FreeBlockNode \<times> FreeBlockNode list) option" where
  "unlink_exact page [] = None"
| "unlink_exact page (n # ns) =
     (if num_pages n = page then Some (n, ns) else map_option (\<lambda>(x, xs). (x, n # xs)) (unlink_exact page ns))"

definition EXACTTT :: "'k syscalls \<Rightarrow> u32 \<Rightarrow> uheap \<times> 'k \<Rightarrow> (u32 \<times> uheap \<times> 'k) res" where
  "EXACTTT sc page = (\<lambda>(h, k).
     case unlink_exact page (free_head h) of
       None \<Rightarrow> Inr (0, h, k)
     | Some (n, ns) \<Rightarrow>
         bindE (free_node sc (fb_addr n) (h\<lparr>free_head := ns\<rparr>, k)) (\<lambda>(h1, k1).
         Inr (ROUNDDOWN (start_va n) PAGE_SIZE, h1, k1)))"

text \<open>The index of the best chunk so far and its size.\<close>

fun worst_loop :: "u32 \<Rightarrow> u32 \<Rightarrow> nat \<Rightarrow> FreeBlockNode list \<Rightarrow> nat option \<Rightarrow> u32 \<Rightarrow> nat option" where
  "worst_loop page lo i [] best max_pages = best"
| "worst_loop page lo i (n # ns) best max_pages =
     (if lo \<le> start_va n \<and> start_va n < USER_HEAP_MAX \<and> page \<le> num_pages n \<and> max_pages < num_pages n
      then worst_loop page lo (Suc i) ns (Some i) (num_pages n)
      else worst_loop page lo (Suc i) ns best max_pages)"

definition WORSTTT :: "'k syscalls \<Rightarrow> u32 \<Rightarrow> uheap \<times> 'k \<Rightarrow> (u32 \<times> uheap \<times> 'k) res" where
  "WORSTTT sc page = (\<lambda>(h, k).
     let fs = free_head h in
     case worst_loop page (uheapPageAllocStart h) 0 fs None 0 of
       None \<Rightarrow> Inr (0, h, k)
     | Some i \<Rightarrow>
         (let n = fs ! i; remaining = num_pages n - page
          in if 0 < remaining then
               Inr (start_va n, h\<lparr>free_head := fs[i := n\<lparr>start_va := start_va n + page * PAGE_SIZE, num_pages := remaining\<rparr>]\<rparr>, k)
             else bindE (free_node sc (fb_addr n) (h\<lparr>free_head := take i fs @ drop (Suc i) fs\<rparr>, k)) (\<lambda>(h1, k1).
                  Inr (start_va n, h1, k1))))"

text \<open>\<open>MERGEE\<close>: an insertion sort of the list, then adjacent chunks are joined.\<close>

fun sort_after :: "FreeBlockNode \<Rightarrow> FreeBlockNode list \<Rightarrow> FreeBlockNode list" where
  "sort_after d [] = [d]"
| "sort_after d (x # xs) = (if start_va x < start_va d then x # sort_after d xs else d # x # xs)"

definition sort_insert :: "FreeBlockNode \<Rightarrow> FreeBlockNode list \<Rightarrow> FreeBlockNode list" where
  "sort_insert d ms = (case ms of [] \<Rightarrow> [d] | m # xs \<Rightarrow> if start_va d < start_va m then d # ms else m # sort_after d xs)"

text \<open>\<open>before\<close> holds the chunks before the current one, last first.\<close>

fun merge_loop :: "'k syscalls \<Rightarrow> FreeBlockNode list \<Rightarrow> FreeBlockNode list \<Rightarrow> uheap \<times> 'k \<Rightarrow> (uheap \<times> 'k) res" where
  "merge_loop sc before (d # n # ns) = (\<lambda>(h, k).
     if start_va d + num_pages d * PAGE_SIZE = start_va n then
       (let d1 = d\<lparr>num_pages := num_pages d + num_pages n\<rparr>
        in bindE (free_node sc (fb_addr n) (h\<lparr>free_head := rev before @ d1 # ns\<rparr>, k)) (merge_loop sc before (d1 # ns)))
     else merge_loop sc (d # before) (n # ns) (h, k))"
| "merge_loop sc before ns = (\<lambda>(h, k). Inr (h, k))"

definition MERGEE :: "'k syscalls \<Rightarrow> uheap \<times> 'k \<Rightarrow> (uheap \<times> 'k) res" where
  "MERGEE sc = (\<lambda>(h, k).
     if length (free_head h) < 2 then Inr (h, k)
     else (let fs = fold sort_insert (free_head h) [] in merge_loop sc [] fs (h\<lparr>free_head := fs\<rparr>, k)))"

section \<open>The break\<close>

fun last_end :: "OURAllocationNode list \<Rightarrow> u32 \<Rightarrow> u32" where
  "last_end [] hi = hi"
| "last_end (n # ns) hi =
     (let new_end = Bedayet_eladd n + an_size n
      in last_end ns (if hi < new_end \<and> new_end \<le> USER_HEAP_MAX then new_end else hi))"

definition ta7dethEL_breakTofree :: "uheap \<Rightarrow> uheap" where
  "ta7dethEL_breakTofree h =
     (let hi = last_end (alloc_head h) (uheapPageAllocStart h);
          hi1 = (if USER_HEAP_MAX < hi then USER_HEAP_MAX else hi);
          hi2 = (if hi1 < uheapPageAllocStart h then uheapPageAllocStart h else hi1)
      in h\<lparr>uheapPageAllocBreak := ROUNDUP hi2 PAGE_SIZE\<rparr>)"

section \<open>malloc and free\<close>

text \<open>The custom fit shared by \<open>malloc\<close>, \<open>smalloc\<close> and \<open>sget\<close>: exact fit, else worst fit; 0 when there is none.\<close>

definition fit_chunk :: "'k syscalls \<Rightarrow> u32 \<Rightarrow> uheap \<times> 'k \<Rightarrow> (u32 \<times> uheap \<times> 'k) res" where
  "fit_chunk sc pages s = bindE (EXACTTT sc pages s) (\<lambda>(a, s1). if a = 0 then WORSTTT sc pages s1 else Inr (a, s1))"

definition malloc_pages :: "'k syscalls \<Rightarrow> u32 \<Rightarrow> uheap \<times> 'k \<Rightarrow> (u32 \<times> uheap \<times> 'k) res" where
  "malloc_pages sc sz = (\<lambda>(h, k).
     let pages = ROUNDUP sz PAGE_SIZE div PAGE_SIZE; need = pages * PAGE_SIZE in
     if pages = 0 \<or> (USER_HEAP_MAX - uheapPageAllocStart h) div PAGE_SIZE < pages then Inr (0, h, k)
     else bindE (fit_chunk sc pages (h, k)) (\<lambda>(a, h1, k1).
          if a = 0 \<and> USER_HEAP_MAX < uheapPageAllocBreak h1 + need then Inr (0, h1, k1)
          else
            let (a1, h2) = (if a = 0 then (uheapPageAllocBreak h1, h1\<lparr>uheapPageAllocBreak := uheapPageAllocBreak h1 + need\<rparr>)
                            else (a, h1))
            in if a1 < uheapPageAllocStart h2 \<or> USER_HEAP_MAX \<le> a1 then Inr (0, h2, k1)
               else bindE (sys_allocate_user_mem sc a1 need k1) (\<lambda>k2.
                    bindE (allocationGded sc a1 need (h2, k2)) (\<lambda>(h3, k3).
                    Inr (a1, if uheapPageAllocBreak h3 < a1 + need then h3\<lparr>uheapPageAllocBreak := a1 + need\<rparr> else h3, k3)))))"

definition malloc :: "'k syscalls \<Rightarrow> u32 \<Rightarrow> uheap \<times> 'k \<Rightarrow> (u32 \<times> uheap \<times> 'k) res" where
  "malloc sc sz s = bindE (uheap_init sc s) (\<lambda>s1.
     if sz = 0 then Inr (0, s1)
     else if sz \<le> DYN_ALLOC_MAX_BLOCK_SIZE then user_block sc sz s1
     else malloc_pages sc sz s1)"

definition free_pages :: "'k syscalls \<Rightarrow> u32 \<Rightarrow> uheap \<times> 'k \<Rightarrow> (uheap \<times> 'k) res" where
  "free_pages sc a = (\<lambda>(h, k).
     let va = ROUNDDOWN a PAGE_SIZE in
     case find_allocation va h of
       None \<Rightarrow> Inl (Panic ''free: allocation not found'')
     | Some n \<Rightarrow>
         (let sz = an_size n in
          bindE (Nemsa7allocation sc va (h, k)) (\<lambda>(h1, k1).
          let h2 = ta7dethEL_breakTofree h1 in
          bindE (sys_free_user_mem sc va sz k1) (\<lambda>k2.
          bindE (FREEblockk sc va (sz div PAGE_SIZE) (h2, k2)) (MERGEE sc)))))"

definition free :: "'k syscalls \<Rightarrow> u32 \<Rightarrow> uheap \<times> 'k \<Rightarrow> (uheap \<times> 'k) res" where
  "free sc va s =
     (if va = 0 then Inr s
      else bindE (uheap_init sc s) (\<lambda>(h, k).
           if USER_HEAP_START \<le> va \<and> va < uheapPageAllocStart h then
             bindE (free_block (uheap_return_page sc) va (uh_da h, k)) (\<lambda>(d, k1). Inr (h\<lparr>uh_da := d\<rparr>, k1))
           else if uheapPageAllocStart h \<le> va \<and> va < USER_HEAP_MAX then free_pages sc va (h, k)
           else Inl (Panic ''free: invalid address'')))"

definition user_realloc :: "'k syscalls \<Rightarrow> u32 \<Rightarrow> u32 \<Rightarrow> uheap \<times> 'k \<Rightarrow> (u32 \<times> uheap \<times> 'k) res" where
  "user_realloc sc va new_size s = bindE (uheap_init sc s) (\<lambda>_. Inl (Panic ''realloc() is not implemented yet...!!''))"

section \<open>Shared variables\<close>

text \<open>The part that \<open>smalloc\<close> and \<open>sget\<close> write alike: room for the pages, the system call \<open>call\<close> on the address
  found, and undoing when the call fails.\<close>

definition share_at :: "'k syscalls \<Rightarrow> (u32 \<Rightarrow> 'k \<Rightarrow> (u32 \<times> 'k) res) \<Rightarrow> u32 \<Rightarrow> uheap \<times> 'k \<Rightarrow> (u32 \<times> uheap \<times> 'k) res" where
  "share_at sc call sz = (\<lambda>(h, k).
     let pages = ROUNDUP sz PAGE_SIZE div PAGE_SIZE; need = pages * PAGE_SIZE in
     if USER_HEAP_MAX < uheapPageAllocBreak h + need then Inr (0, h, k)
     else
       let h0 = (if uheapPageAllocStart h AND (PAGE_SIZE - 1) \<noteq> 0
                 then h\<lparr>uheapPageAllocStart := ROUNDUP (uheapPageAllocStart h) PAGE_SIZE,
                        uheapPageAllocBreak := ROUNDUP (uheapPageAllocStart h) PAGE_SIZE\<rparr> else h)
       in bindE (fit_chunk sc pages (h0, k)) (\<lambda>(a, h1, k1).
          if a = 0 \<and> USER_HEAP_MAX < uheapPageAllocBreak h1 + need then Inr (0, h1, k1)
          else
            let (a1, h2) = (if a = 0 then (uheapPageAllocBreak h1, h1\<lparr>uheapPageAllocBreak := uheapPageAllocBreak h1 + need\<rparr>)
                            else (a, h1));
                va = ROUNDUP a1 PAGE_SIZE
            in bindE (call va k1) (\<lambda>(ret, k2).
               if negative ret then
                 if uheapPageAllocStart h2 \<le> va \<and> va < uheapPageAllocBreak h2 then
                   (let prev = uheapPageAllocBreak h2 - need
                    in if va = prev then Inr (0, h2\<lparr>uheapPageAllocBreak := prev\<rparr>, k2)
                       else bindE (FREEblockk sc va pages (h2, k2)) (\<lambda>s3. bindE (MERGEE sc s3) (\<lambda>s4. Inr (0, s4))))
                 else Inr (0, h2, k2)
               else bindE (allocationGded sc va need (h2, k2)) (\<lambda>s3. Inr (va, s3)))))"

definition smalloc :: "'k syscalls \<Rightarrow> u8 list \<Rightarrow> u32 \<Rightarrow> u8 \<Rightarrow> uheap \<times> 'k \<Rightarrow> (u32 \<times> uheap \<times> 'k) res" where
  "smalloc sc name sz isWritable s = bindE (uheap_init sc s) (\<lambda>s1.
     if sz = 0 then Inr (0, s1) else share_at sc (sys_create_shared_object sc name sz isWritable) sz s1)"

definition sget :: "'k syscalls \<Rightarrow> u32 \<Rightarrow> u8 list \<Rightarrow> uheap \<times> 'k \<Rightarrow> (u32 \<times> uheap \<times> 'k) res" where
  "sget sc ownerEnvID name s = bindE (uheap_init sc s) (\<lambda>(h, k).
     bindE (sys_size_of_shared_object sc ownerEnvID name k) (\<lambda>(sz, k1).
     if sint sz \<le> 0 then Inr (0, h, k1) else share_at sc (sys_get_shared_object sc ownerEnvID name) sz (h, k1)))"

definition sfree :: "'k syscalls \<Rightarrow> u32 \<Rightarrow> uheap \<times> 'k \<Rightarrow> (uheap \<times> 'k) res" where
  "sfree sc va = (\<lambda>(h, k).
     case find_allocation va h of
       None \<Rightarrow> Inr (h, k)
     | Some n \<Rightarrow>
         bindE (sys_delete_shared_object sc (shareIDSfreeFunc n) va k) (\<lambda>(ret, k1).
         if negative ret then Inr (h, k1)
         else
           let h1 = h\<lparr>alloc_head := (case unlink_allocation va (alloc_head h) of None \<Rightarrow> alloc_head h | Some (_, ns) \<Rightarrow> ns)\<rparr>
           in bindE (malloc_node sc sizeof_FreeBlockNode (h1, k1)) (\<lambda>(node, h2, k2).
              if node = 0 then Inl Fault
              else bindE (MERGEE sc (h2\<lparr>free_head := insert_free \<lparr>fb_addr = node, start_va = va,
                       num_pages = (an_size n + PAGE_SIZE - 1) div PAGE_SIZE\<rparr> (free_head h2)\<rparr>, k2))
                   (free_node sc (an_addr n)))))"

end
