(* ===== verification/FOS_UheapSafe.thy ===== *)
theory FOS_UheapSafe
  imports FOS_Uheap
begin

text \<open>
  What the heap of \<open>FOS_Uheap\<close> guarantees.  The lemmas follow the calls: blocks for the nodes of the lists, the choice of a
  free chunk, requests for pages, the list of free chunks as a set of pages (sorting and joining), and giving pages back.
  \<open>uh_wf\<close> is the shape of the lists; \<open>uh_ok\<close> adds that no page is in two places; \<open>below_break\<close>, that free chunks lie below
  the break, is what \<open>malloc\<close> relies on and \<open>free\<close> can break.
\<close>

section \<open>Blocks for nodes\<close>

text \<open>The kernel serves the process: \<open>ok\<close> is kept by the memory calls, which succeed.\<close>

definition serving :: "'k syscalls \<Rightarrow> ('k \<Rightarrow> bool) \<Rightarrow> bool" where
  "serving sc ok \<longleftrightarrow> (\<forall>k. ok k \<longrightarrow>
     (\<exists>n k'. sys_get_uheap_strategy sc k = Inr (n, k') \<and> ok k')
     \<and> (\<forall>va p. \<exists>k'. sys_allocate_page sc va p k = Inr (0, k') \<and> ok k')
     \<and> (\<forall>va. \<exists>k'. sys_unmap_frame sc va k = Inr (0, k') \<and> ok k')
     \<and> (\<forall>va n. \<exists>k'. sys_allocate_user_mem sc va n k = Inr k' \<and> ok k')
     \<and> (\<forall>va n. \<exists>k'. sys_free_user_mem sc va n k = Inr k' \<and> ok k'))"

lemma servingD:
  assumes "serving sc ok" and "ok k"
  shows "\<exists>k'. uheap_get_page sc va k = Inr k' \<and> ok k'" and "\<exists>k'. uheap_return_page sc va k = Inr k' \<and> ok k'"
    and "\<exists>k'. sys_allocate_user_mem sc va n k = Inr k' \<and> ok k'" and "\<exists>k'. sys_free_user_mem sc va n k = Inr k' \<and> ok k'"
proof -
  have a: "\<exists>k'. sys_allocate_page sc x p k = Inr (0, k') \<and> ok k'" for x p using assms by (simp add: serving_def)
  have u: "\<exists>k'. sys_unmap_frame sc x k = Inr (0, k') \<and> ok k'" for x using assms by (simp add: serving_def)
  show "\<exists>k'. uheap_get_page sc va k = Inr k' \<and> ok k'"
    using a [of "ROUNDDOWN va PAGE_SIZE" "PERM_USER OR PERM_WRITEABLE OR PERM_UHPAGE"]
    by (auto simp: uheap_get_page_def negative_def)
  show "\<exists>k'. uheap_return_page sc va k = Inr k' \<and> ok k'"
    using u [of "ROUNDDOWN va PAGE_SIZE"] by (auto simp: uheap_return_page_def negative_def)
  show "\<exists>k'. sys_allocate_user_mem sc va n k = Inr k' \<and> ok k'" "\<exists>k'. sys_free_user_mem sc va n k = Inr k' \<and> ok k'"
    using assms by (simp_all add: serving_def)
qed

text \<open>The block allocator of the process lies below its page area; \<open>spare\<close> says that it has a free page at hand.\<close>

definition area_ok :: "uheap \<Rightarrow> bool" where
  "area_ok h \<longleftrightarrow> firstTimeFlag h = 0 \<and> da_wf (uh_da h) \<and> dynAllocStart (uh_da h) = USER_HEAP_START
     \<and> dynAllocEnd (uh_da h) \<le> uheapPageAllocStart h"

definition reserve :: "uheap \<Rightarrow> nat" where "reserve h = length (freePagesList (uh_da h))"

abbreviation spare :: "uheap \<Rightarrow> bool" where "spare h \<equiv> 0 < reserve h"

lemma uheap_init_started: "firstTimeFlag h = 0 \<Longrightarrow> uheap_init sc (h, k) = Inr (h, k)"
  by (simp add: uheap_init_def)

lemma user_block_ok:
  assumes "serving sc ok" and "ok k" and "da_wf (uh_da h)" and "freePagesList (uh_da h) \<noteq> []" and "0 < sz" and "sz \<le> 2048"
  shows "\<exists>b d k'. user_block sc sz (h, k) = Inr (b, h\<lparr>uh_da := d\<rparr>, k') \<and> got sz (uh_da h) b d \<and> ok k'
    \<and> length (freePagesList (uh_da h)) \<le> Suc (length (freePagesList d))"
  using assms(3,5,6)
proof (cases rule: alloc_block_cases [where gp = "uheap_get_page sc" and e = k])
  case (reuse b t)
  then show ?thesis using assms(2) by (auto simp: user_block_def)
next
  case (fresh p ps j t va)
  then show ?thesis using servingD(1) [OF assms(1,2), of va] by (auto simp: user_block_def)
qed (use assms(4) in simp)

lemma live_in_area: "\<lbrakk>area_ok h; b \<in> live (uh_da h)\<rbrakk> \<Longrightarrow> USER_HEAP_START \<le> b \<and> b < uheapPageAllocStart h \<and> b \<noteq> 0"
proof -
  assume h: "area_ok h" and b: "b \<in> live (uh_da h)"
  have lay: "layout_ok (uh_da h)" using h by (simp add: area_ok_def da_wf_def da_inv_def)
  have o: "off (uh_da h) b < 4096 * npages (uh_da h)" using b by (auto simp: live_def is_block_def)
  note ub = unat_block [OF lay o] and le = layout_end [OF lay]
  have "unat b < unat (uheapPageAllocStart h)" using h ub le o by (auto simp: area_ok_def word_le_nat_alt)
  moreover have "unat (USER_HEAP_START) \<le> unat b" using h ub by (simp add: area_ok_def)
  ultimately show ?thesis using layout_not_null [OF lay o] by (simp add: word_le_nat_alt word_less_nat_alt)
qed

lemma free_block_user:
  assumes "serving sc ok" and "ok k" and "da_wf d" and "b \<in> live d"
  shows "\<exists>d' k'. free_block (uheap_return_page sc) b (d, k) = Inr (d', k') \<and> da_wf d' \<and> live d' = live d - {b}
    \<and> dynAllocStart d' = dynAllocStart d \<and> dynAllocEnd d' = dynAllocEnd d \<and> ok k' \<and> length (freePagesList d) \<le> length (freePagesList d')"
proof -
  from assms(4,3) obtain j where j: "j \<le> 8" "is_block d j b" and nf: "nfree d (off d b div 4096) < 512 div 2 ^ j" by (rule liveE)
  note eq = free_block_eq [OF assms(3) j nf, of "uheap_return_page sc" k]
  obtain k' where k': "uheap_return_page sc (dynAllocStart d + word_of_nat (off d b div 4096) * 4096) k = Inr k'" "ok k'"
    using servingD(2) [OF assms(1,2)] by blast
  obtain d' k2 where r: "free_block (uheap_return_page sc) b (d, k) = Inr (d', k2)" "ok k2"
    "length (freePagesList d) \<le> length (freePagesList d')"
    using eq k' assms(2) by (cases "nfree d (off d b div 4096) + 1 = 512 div 2 ^ j") auto
  then show ?thesis using free_block_ok [OF assms(3,4) r(1)] by blast
qed

text \<open>A step of the block allocator changes neither the lists nor the break.\<close>

definition with_da :: "uheap \<Rightarrow> dyn_alloc \<Rightarrow> uheap" where "with_da h d = h\<lparr>uh_da := d\<rparr>"

lemma with_da_simps [simp]:
  "alloc_head (with_da h d) = alloc_head h" "free_head (with_da h d) = free_head h" "uh_da (with_da h d) = d"
  "uheapPageAllocStart (with_da h d) = uheapPageAllocStart h" "uheapPageAllocBreak (with_da h d) = uheapPageAllocBreak h"
  "firstTimeFlag (with_da h d) = firstTimeFlag h" "with_da (with_da h d) d' = with_da h d'"
  "with_da (h\<lparr>alloc_head := as\<rparr>) d = (with_da h d)\<lparr>alloc_head := as\<rparr>" "with_da (h\<lparr>free_head := fs\<rparr>) d = (with_da h d)\<lparr>free_head := fs\<rparr>"
  "stale (with_da h d) = stale h"
  by (simp_all add: with_da_def)

lemma area_ok_lists [simp]:
  "area_ok (h\<lparr>alloc_head := as\<rparr>) = area_ok h" "area_ok (h\<lparr>free_head := fs\<rparr>) = area_ok h"
  "area_ok (h\<lparr>uheapPageAllocBreak := x\<rparr>) = area_ok h" "reserve (h\<lparr>alloc_head := as\<rparr>) = reserve h" "reserve (h\<lparr>free_head := fs\<rparr>) = reserve h"
  "reserve (h\<lparr>uheapPageAllocBreak := x\<rparr>) = reserve h"
  by (simp_all add: area_ok_def reserve_def)

lemma free_node_ok:
  assumes "serving sc ok" and "ok k" and "area_ok h" and "b \<in> live (uh_da h)"
  shows "\<exists>d k'. free_node sc b (h, k) = Inr (with_da h d, k') \<and> area_ok (with_da h d) \<and> live d = live (uh_da h) - {b} \<and> ok k'
    \<and> reserve h \<le> reserve (with_da h d)"
proof -
  have wf: "da_wf (uh_da h)" using assms(3) by (simp add: area_ok_def)
  obtain d k' where r: "free_block (uheap_return_page sc) b (uh_da h, k) = Inr (d, k')" "da_wf d" "live d = live (uh_da h) - {b}"
    "dynAllocStart d = dynAllocStart (uh_da h)" "dynAllocEnd d = dynAllocEnd (uh_da h)" "ok k'"
    "length (freePagesList (uh_da h)) \<le> length (freePagesList d)"
    using free_block_user [OF assms(1,2) wf assms(4)] by blast
  then have "free_node sc b (h, k) = Inr (with_da h d, k')"
    using live_in_area [OF assms(3,4)] assms(3) by (simp add: free_node_def area_ok_def uheap_init_started with_da_def)
  then show ?thesis using r assms(3) by (auto simp: area_ok_def reserve_def)
qed

lemma malloc_node_ok:
  assumes "serving sc ok" and "ok k" and "area_ok h" and "spare h" and "0 < sz" and "sz \<le> 2048"
  shows "\<exists>b d k'. malloc_node sc sz (h, k) = Inr (b, with_da h d, k') \<and> area_ok (with_da h d) \<and> b \<noteq> 0 \<and> b \<notin> live (uh_da h)
    \<and> live d = insert b (live (uh_da h)) \<and> ok k' \<and> reserve h \<le> Suc (reserve (with_da h d))"
proof -
  obtain b d k' where r: "user_block sc sz (h, k) = Inr (b, with_da h d, k')" "got sz (uh_da h) b d" "ok k'"
    "reserve h \<le> Suc (reserve (with_da h d))"
    using user_block_ok [OF assms(1,2) _ _ assms(5,6), of h] assms(3,4) by (auto simp: area_ok_def reserve_def with_da_def)
  then have "malloc_node sc sz (h, k) = Inr (b, with_da h d, k')"
    using assms(3) by (simp add: malloc_node_def area_ok_def uheap_init_started)
  then show ?thesis using r(2-4) assms(3) by (intro exI [of _ b] exI [of _ d] exI [of _ k']) (auto simp: got_def area_ok_def)
qed

section \<open>Chunks of pages\<close>

text \<open>The page numbers of a chunk.\<close>

definition chunk :: "u32 \<Rightarrow> u32 \<Rightarrow> nat set" where
  "chunk a n = {unat a div 4096 ..< unat a div 4096 + unat n}"

definition free_ok :: "nat \<Rightarrow> FreeBlockNode \<Rightarrow> bool" where
  "free_ok lo n \<longleftrightarrow> 4096 dvd unat (start_va n) \<and> num_pages n \<noteq> 0 \<and> lo \<le> unat (start_va n)
     \<and> unat (start_va n) + 4096 * unat (num_pages n) \<le> 0xA0000000"

definition alloc_ok :: "nat \<Rightarrow> OURAllocationNode \<Rightarrow> bool" where
  "alloc_ok lo n \<longleftrightarrow> 4096 dvd unat (Bedayet_eladd n) \<and> 4096 dvd unat (an_size n) \<and> an_size n \<noteq> 0 \<and> lo \<le> unat (Bedayet_eladd n)
     \<and> unat (Bedayet_eladd n) + unat (an_size n) \<le> 0xA0000000"

text \<open>Free chunks are in the order of addresses and no two are adjacent.\<close>

definition before_gap :: "FreeBlockNode \<Rightarrow> FreeBlockNode \<Rightarrow> bool" where
  "before_gap x y \<longleftrightarrow> unat (start_va x) + 4096 * unat (num_pages x) < unat (start_va y)"

definition nodes :: "uheap \<Rightarrow> u32 list" where
  "nodes h = map an_addr (alloc_head h) @ map fb_addr (free_head h)"

definition uh_wf :: "uheap \<Rightarrow> bool" where
  "uh_wf h \<longleftrightarrow> area_ok h \<and> 4096 dvd unat (uheapPageAllocStart h) \<and> 4096 dvd unat (uheapPageAllocBreak h)
     \<and> uheapPageAllocStart h \<le> uheapPageAllocBreak h \<and> uheapPageAllocBreak h \<le> USER_HEAP_MAX
     \<and> (\<forall>n \<in> set (alloc_head h). alloc_ok (unat (uheapPageAllocStart h)) n)
     \<and> (\<forall>n \<in> set (free_head h). free_ok (unat (uheapPageAllocStart h)) n)
     \<and> sorted_wrt before_gap (free_head h) \<and> distinct (nodes h) \<and> set (nodes h) \<subseteq> live (uh_da h)"

definition free_pages_of :: "FreeBlockNode list \<Rightarrow> nat set" where
  "free_pages_of fs = (\<Union>n \<in> set fs. chunk (start_va n) (num_pages n))"

definition used_pages_of :: "OURAllocationNode list \<Rightarrow> nat set" where
  "used_pages_of ns = (\<Union>n \<in> set ns. chunk (Bedayet_eladd n) (an_size n div PAGE_SIZE))"

lemma free_pages_simps [simp]:
  "free_pages_of [] = {}" "free_pages_of (n # ns) = chunk (start_va n) (num_pages n) \<union> free_pages_of ns"
  "free_pages_of (xs @ ys) = free_pages_of xs \<union> free_pages_of ys"
  by (auto simp: free_pages_of_def)

lemma used_pages_simps [simp]:
  "used_pages_of [] = {}" "used_pages_of (n # ns) = chunk (Bedayet_eladd n) (an_size n div PAGE_SIZE) \<union> used_pages_of ns"
  "used_pages_of (xs @ ys) = used_pages_of xs \<union> used_pages_of ys"
  by (auto simp: used_pages_of_def)

lemma unlink_exact_None: "unlink_exact page fs = None \<longleftrightarrow> (\<forall>n \<in> set fs. num_pages n \<noteq> page)"
  by (induction fs) auto

lemma unlink_exact_Some:
  "unlink_exact page fs = Some (n, ns) \<Longrightarrow> \<exists>xs ys. fs = xs @ n # ys \<and> ns = xs @ ys \<and> num_pages n = page"
proof (induction fs arbitrary: ns)
  case (Cons x fs)
  show ?case
  proof (cases "num_pages x = page")
    case True
    then show ?thesis using Cons.prems by (intro exI [of _ "[]"] exI [of _ fs]) auto
  next
    case False
    then obtain ns' where "unlink_exact page fs = Some (n, ns')" "ns = x # ns'" using Cons.prems by auto
    then show ?thesis using Cons.IH by (metis append_Cons)
  qed
qed simp

lemma worst_loop_spec:
  assumes "\<forall>n \<in> set ns. lo \<le> start_va n \<and> start_va n < USER_HEAP_MAX" and "xs = map num_pages (ps @ ns)" and "i = length ps"
    and "case best of None \<Rightarrow> m = 0 \<and> (\<forall>n \<in> set ps. num_pages n < page)
         | Some j \<Rightarrow> j < length ps \<and> m = xs ! j \<and> page \<le> m \<and> (\<forall>n \<in> set ps. num_pages n \<le> m)" and "0 < page"
  shows "case worst_loop page lo i ns best m of None \<Rightarrow> \<forall>n \<in> set (ps @ ns). num_pages n < page
         | Some j \<Rightarrow> j < length xs \<and> page \<le> xs ! j \<and> (\<forall>n \<in> set (ps @ ns). num_pages n \<le> xs ! j)"
  using assms
proof (induction ns arbitrary: ps i best m)
  case Nil
  then show ?case by (auto split: option.splits)
next
  case (Cons n ns)
  let ?ps = "ps @ [n]"
  have xs: "xs = map num_pages (?ps @ ns)" using Cons.prems(2) by simp
  have nth: "xs ! length ps = num_pages n" using Cons.prems(2) by (simp add: nth_append)
  show ?case
  proof (cases "page \<le> num_pages n \<and> m < num_pages n")
    case True
    have "case worst_loop page lo (Suc i) ns (Some i) (num_pages n) of None \<Rightarrow> \<forall>n \<in> set (?ps @ ns). num_pages n < page
         | Some j \<Rightarrow> j < length xs \<and> page \<le> xs ! j \<and> (\<forall>n \<in> set (?ps @ ns). num_pages n \<le> xs ! j)"
      using Cons.prems True nth by (intro Cons.IH [OF _ xs]) (auto split: option.splits intro: less_imp_le order_trans)
    then show ?thesis using True Cons.prems(1) by (simp cong: option.case_cong)
  next
    case False
    have "case worst_loop page lo (Suc i) ns best m of None \<Rightarrow> \<forall>n \<in> set (?ps @ ns). num_pages n < page
         | Some j \<Rightarrow> j < length xs \<and> page \<le> xs ! j \<and> (\<forall>n \<in> set (?ps @ ns). num_pages n \<le> xs ! j)"
      using Cons.prems False by (intro Cons.IH [OF _ xs]) (auto split: option.splits)
    moreover have "worst_loop page lo i (n # ns) best m = worst_loop page lo (Suc i) ns best m" using False by auto
    ultimately show ?thesis by (simp cong: option.case_cong)
  qed
qed

text \<open>The shape that every step keeps apart from the lists: alignment of the area and the nodes.\<close>

lemma uh_wf_free:
  assumes "uh_wf h" and "area_ok (with_da h d)" and "\<forall>n \<in> set fs. free_ok (unat (uheapPageAllocStart h)) n"
    and "sorted_wrt before_gap fs" and "distinct (map an_addr (alloc_head h) @ map fb_addr fs)"
    and "set (map an_addr (alloc_head h) @ map fb_addr fs) \<subseteq> live d"
  shows "uh_wf ((with_da h d)\<lparr>free_head := fs\<rparr>)"
  using assms by (simp add: uh_wf_def nodes_def)

lemma chunk_split:
  assumes "p \<le> n" and "4096 dvd unat a" and "unat a + 4096 * unat n \<le> 0xA0000000"
  shows "chunk a n = chunk a p \<union> chunk (a + p * PAGE_SIZE) (n - p)" and "chunk a p \<inter> chunk (a + p * PAGE_SIZE) (n - p) = {}"
    and "unat (a + p * PAGE_SIZE) = unat a + 4096 * unat p" and "unat (n - p) = unat n - unat p"
proof -
  have le: "unat p \<le> unat n" using assms(1) by (simp add: word_le_nat_alt)
  have "unat (p * PAGE_SIZE) = 4096 * unat p" using le assms(3) by (subst unat_u32_mult) simp_all
  then show u: "unat (a + p * PAGE_SIZE) = unat a + 4096 * unat p" using le assms(3) by (subst unat_u32_plus) simp_all
  show m: "unat (n - p) = unat n - unat p" using assms(1) by (rule unat_u32_minus)
  have "(unat a + 4096 * unat p) div 4096 = unat a div 4096 + unat p" by simp
  then show "chunk a n = chunk a p \<union> chunk (a + p * PAGE_SIZE) (n - p)" "chunk a p \<inter> chunk (a + p * PAGE_SIZE) (n - p) = {}"
    using le by (auto simp: chunk_def u m)
qed

lemma gapped_disjoint:
  assumes "sorted_wrt before_gap (xs @ n # ys)" and "\<forall>m \<in> set (xs @ n # ys). free_ok lo m"
  shows "chunk (start_va n) (num_pages n) \<inter> free_pages_of (xs @ ys) = {}"
proof -
  have d: "chunk (start_va x) (num_pages x) \<inter> chunk (start_va y) (num_pages y) = {}" if "before_gap x y" for x y
  proof -
    have "unat (start_va x) div 4096 + unat (num_pages x) = (unat (start_va x) + 4096 * unat (num_pages x)) div 4096" by simp
    also have "\<dots> \<le> unat (start_va y) div 4096" using that by (intro div_le_mono) (simp add: before_gap_def)
    finally show ?thesis by (auto simp: chunk_def)
  qed
  have "before_gap x n" if "x \<in> set xs" for x using assms(1) that by (simp add: sorted_wrt_append)
  moreover have "before_gap n y" if "y \<in> set ys" for y using assms(1) that by (simp add: sorted_wrt_append)
  ultimately show ?thesis using d unfolding free_pages_of_def by fastforce
qed

lemma distinct_drop_mid: "distinct (xs @ x # ys) \<Longrightarrow> distinct (xs @ ys) \<and> set (xs @ ys) = set (xs @ x # ys) - {x}"
  by auto

lemma fit_chunk_ok:
  assumes "serving sc ok" and "ok k" and "uh_wf h" and "page \<noteq> 0"
  shows "\<exists>a d fs k'. fit_chunk sc page (h, k) = Inr (a, (with_da h d)\<lparr>free_head := fs\<rparr>, k') \<and> ok k'
    \<and> uh_wf ((with_da h d)\<lparr>free_head := fs\<rparr>) \<and> reserve h \<le> reserve (with_da h d)
    \<and> (if \<exists>n \<in> set (free_head h). page \<le> num_pages n
       then (\<exists>n \<in> set (free_head h). a = start_va n \<and> page \<le> num_pages n
               \<and> (num_pages n = page \<or> (\<forall>m \<in> set (free_head h). num_pages m \<noteq> page \<and> num_pages m \<le> num_pages n)))
         \<and> a \<noteq> 0 \<and> chunk a page \<subseteq> free_pages_of (free_head h) \<and> free_pages_of fs = free_pages_of (free_head h) - chunk a page
       else a = 0 \<and> fs = free_head h \<and> d = uh_da h)"
proof -
  let ?F = "free_head h" and ?lo = "unat (uheapPageAllocStart h)"
  have wf: "area_ok h" "\<forall>n \<in> set ?F. free_ok ?lo n" "sorted_wrt before_gap ?F" "distinct (nodes h)" "set (nodes h) \<subseteq> live (uh_da h)"
    using assms(3) by (simp_all add: uh_wf_def)
  have nz: "start_va n \<noteq> 0" if n: "n \<in> set ?F" for n
  proof -
    have "fb_addr n \<in> live (uh_da h)" using wf(5) n by (auto simp: nodes_def)
    from live_in_area [OF wf(1) this] have "0 < unat (uheapPageAllocStart h)" by (auto simp: word_less_nat_alt)
    then show ?thesis using wf(2) n by (auto simp: free_ok_def)
  qed
  have drop: "\<exists>d k'. free_node sc (fb_addr n) (h\<lparr>free_head := xs @ ys\<rparr>, k) = Inr ((with_da h d)\<lparr>free_head := xs @ ys\<rparr>, k') \<and> ok k'
      \<and> uh_wf ((with_da h d)\<lparr>free_head := xs @ ys\<rparr>) \<and> reserve h \<le> reserve (with_da h d)" if F: "?F = xs @ n # ys" for n xs ys
  proof -
    have "fb_addr n \<in> live (uh_da (h\<lparr>free_head := xs @ ys\<rparr>))" using wf(5) F by (auto simp: nodes_def)
    from free_node_ok [OF assms(1,2) _ this] wf(1)
    obtain d k' where r: "free_node sc (fb_addr n) (h\<lparr>free_head := xs @ ys\<rparr>, k) = Inr ((with_da h d)\<lparr>free_head := xs @ ys\<rparr>, k')"
      "area_ok (with_da h d)" "live d = live (uh_da h) - {fb_addr n}" "ok k'" "reserve h \<le> reserve (with_da h d)" by auto
    moreover have "uh_wf ((with_da h d)\<lparr>free_head := xs @ ys\<rparr>)"
    proof (rule uh_wf_free [OF assms(3) r(2)])
      let ?L = "map an_addr (alloc_head h) @ map fb_addr xs"
      have "nodes h = ?L @ fb_addr n # map fb_addr ys" by (simp add: nodes_def F)
      then have dd: "distinct (?L @ map fb_addr ys) \<and> set (?L @ map fb_addr ys) = set (nodes h) - {fb_addr n}"
        using distinct_drop_mid [of ?L "fb_addr n" "map fb_addr ys"] wf(4) by (simp only:)
      show "\<forall>m \<in> set (xs @ ys). free_ok ?lo m" "sorted_wrt before_gap (xs @ ys)"
        using wf(2,3) F by (auto simp: sorted_wrt_append)
      show "distinct (map an_addr (alloc_head h) @ map fb_addr (xs @ ys))"
        "set (map an_addr (alloc_head h) @ map fb_addr (xs @ ys)) \<subseteq> live d"
        using dd wf(5) r(3) by (simp_all only: map_append append_assoc) blast
    qed
    ultimately show ?thesis by blast
  qed
  have wok: "\<forall>n \<in> set ?F. uheapPageAllocStart h \<le> start_va n \<and> start_va n < USER_HEAP_MAX"
  proof
    fix n assume "n \<in> set ?F"
    then have "free_ok ?lo n" using wf(2) by blast
    moreover from this have "0 < unat (num_pages n)" by (simp add: free_ok_def unat_gt_0)
    ultimately show "uheapPageAllocStart h \<le> start_va n \<and> start_va n < USER_HEAP_MAX"
      by (auto simp: free_ok_def word_le_nat_alt word_less_nat_alt)
  qed
  show ?thesis
  proof (cases "unlink_exact page ?F")
    case (Some p)
    obtain n ns where "p = (n, ns)" by (cases p)
    then obtain xs ys where F: "?F = xs @ n # ys" "ns = xs @ ys" "num_pages n = page" using unlink_exact_Some Some by blast
    have n: "n \<in> set ?F" "free_ok ?lo n" using F(1) wf(2) by auto
    have al: "ROUNDDOWN (start_va n) PAGE_SIZE = start_va n"
      using n(2) by (intro ROUNDDOWN_idem) (simp add: free_ok_def)
    have "free_pages_of (xs @ ys) = free_pages_of ?F - chunk (start_va n) page"
      using gapped_disjoint [of xs n ys ?lo] wf(2,3) F(1,3) by (auto simp: F(1))
    moreover obtain d k' where "free_node sc (fb_addr n) (h\<lparr>free_head := xs @ ys\<rparr>, k) = Inr ((with_da h d)\<lparr>free_head := xs @ ys\<rparr>, k')"
      "ok k'" "uh_wf ((with_da h d)\<lparr>free_head := xs @ ys\<rparr>)" "reserve h \<le> reserve (with_da h d)" using drop [OF F(1)] by blast
    moreover have "fit_chunk sc page (h, k) = Inr (start_va n, (with_da h d)\<lparr>free_head := xs @ ys\<rparr>, k')"
      using calculation(2) Some \<open>p = (n, ns)\<close> F(2) al nz [OF n(1)] by (simp add: fit_chunk_def EXACTTT_def)
    moreover have "\<exists>n \<in> set ?F. page \<le> num_pages n" using n F(3) by auto
    ultimately show ?thesis using n F nz [OF n(1)]
      by (intro exI [of _ "start_va n"] exI [of _ d] exI [of _ "xs @ ys"] exI [of _ k']) auto
  next
    case None
    then have ne: "\<forall>n \<in> set ?F. num_pages n \<noteq> page" by (simp add: unlink_exact_None)
    note w = worst_loop_spec [OF wok, where xs = "map num_pages ?F" and ps = "[]" and i = 0 and best = None and m = 0 and page = page, simplified]
    show ?thesis
    proof (cases "worst_loop page (uheapPageAllocStart h) 0 ?F None 0")
      case (Some i)
      define n where "n = ?F ! i"
      have i: "i < length ?F" "page \<le> num_pages n" "\<forall>m \<in> set ?F. num_pages m \<le> num_pages n"
        using w Some assms(4) by (auto simp: n_def word_neq_0_conv)
      have n: "n \<in> set ?F" "free_ok ?lo n" using i(1) wf(2) by (auto simp: n_def)
      let ?n = "n\<lparr>start_va := start_va n + page * PAGE_SIZE, num_pages := num_pages n - page\<rparr>"
      let ?xs = "take i ?F" and ?ys = "drop (Suc i) ?F"
      have F: "?F = ?xs @ n # ?ys" using i(1) by (simp add: n_def id_take_nth_drop)
      have upd: "?F[i := ?n] = ?xs @ ?n # ?ys" using i(1) by (simp add: upd_conv_take_nth_drop)
      have pos: "0 < num_pages n - page" using i(2) ne n(1) by (metis diff_eq_diff_eq diff_self word_gt_0 eq_iff_diff_eq_0)
      have fo: "4096 dvd unat (start_va n)" "?lo \<le> unat (start_va n)" "unat (start_va n) + 4096 * unat (num_pages n) \<le> 0xA0000000"
        using n(2) by (simp_all add: free_ok_def)
      note cs = chunk_split [OF i(2) fo(1,3)]
      have le: "unat page \<le> unat (num_pages n)" using i(2) by (simp add: word_le_nat_alt)
      have fok: "free_ok ?lo ?n" using fo cs(3,4) le pos by (auto simp: free_ok_def word_gt_0)
      have "before_gap ?n y" if "before_gap n y" for y using that cs(3,4) le by (simp add: before_gap_def)
      moreover have "before_gap x ?n" if "before_gap x n" for x using that cs(3,4) le by (simp add: before_gap_def)
      ultimately have g: "sorted_wrt before_gap (?xs @ ?n # ?ys)"
        using wf(3) by (subst (asm) F) (auto simp: sorted_wrt_append)
      have nd: "map fb_addr (?xs @ ?n # ?ys) = map fb_addr ?F" by (subst (3) F) simp
      have "uh_wf ((with_da h (uh_da h))\<lparr>free_head := ?xs @ ?n # ?ys\<rparr>)"
      proof (rule uh_wf_free [OF assms(3)])
        show "area_ok (with_da h (uh_da h))" using wf(1) by (simp add: with_da_def)
        show "\<forall>m \<in> set (?xs @ ?n # ?ys). free_ok ?lo m" using wf(2) fok by (auto dest: in_set_takeD in_set_dropD)
        show "distinct (map an_addr (alloc_head h) @ map fb_addr (?xs @ ?n # ?ys))"
          "set (map an_addr (alloc_head h) @ map fb_addr (?xs @ ?n # ?ys)) \<subseteq> live (uh_da h)"
          unfolding nd using wf(4,5) by (simp_all add: nodes_def)
      qed (rule g)
      moreover have "fit_chunk sc page (h, k) = Inr (start_va n, (with_da h (uh_da h))\<lparr>free_head := ?xs @ ?n # ?ys\<rparr>, k)"
        using None Some pos upd by (simp add: fit_chunk_def EXACTTT_def WORSTTT_def n_def [symmetric] Let_def with_da_def)
      moreover have "free_pages_of (?xs @ ?n # ?ys) = free_pages_of ?F - chunk (start_va n) page"
      proof -
        have "chunk (start_va n) (num_pages n) \<inter> free_pages_of (?xs @ ?ys) = {}"
          using gapped_disjoint [of ?xs n ?ys ?lo] wf(2,3) unfolding F [symmetric] by blast
        moreover have "free_pages_of ?F = chunk (start_va n) (num_pages n) \<union> free_pages_of (?xs @ ?ys)" by (subst F) auto
        ultimately show ?thesis using cs(1,2) by auto
      qed
      moreover have "chunk (start_va n) page \<subseteq> free_pages_of ?F" using cs(1) n(1) by (auto simp: free_pages_of_def)
      ultimately show ?thesis using i n ne nz [OF n(1)] assms(2)
        by (intro exI [of _ "start_va n"] exI [of _ "uh_da h"] exI [of _ "?xs @ ?n # ?ys"] exI [of _ k]) (auto simp: with_da_def)
    next
      case None2: None
      then have "\<not> (\<exists>n \<in> set ?F. page \<le> num_pages n)" using w assms(4) by (auto simp: word_neq_0_conv)
      moreover have "fit_chunk sc page (h, k) = Inr (0, h, k)"
        using None None2 by (simp add: fit_chunk_def EXACTTT_def WORSTTT_def)
      ultimately show ?thesis using assms(2,3)
        by (intro exI [of _ 0] exI [of _ "uh_da h"] exI [of _ ?F] exI [of _ k]) (auto simp: with_da_def)
    qed
  qed
qed

section \<open>Requests for pages\<close>

definition page_count :: "u32 \<Rightarrow> u32" where "page_count sz = ROUNDUP sz PAGE_SIZE div PAGE_SIZE"

lemma allocationGded_ok:
  assumes "serving sc ok" and "ok k" and "uh_wf h" and "spare h" and "4096 dvd unat a" and "4096 dvd unat n" and "n \<noteq> 0"
    and "unat (uheapPageAllocStart h) \<le> unat a" and "unat a + unat n \<le> 0xA0000000"
  shows "\<exists>d k' x. allocationGded sc a n (h, k) = Inr ((with_da h d)\<lparr>alloc_head := x # alloc_head h\<rparr>, k') \<and> ok k'
    \<and> uh_wf ((with_da h d)\<lparr>alloc_head := x # alloc_head h\<rparr>) \<and> Bedayet_eladd x = a \<and> an_size x = n \<and> reserve h \<le> Suc (reserve (with_da h d))"
proof -
  have wf: "area_ok h" "distinct (nodes h)" "set (nodes h) \<subseteq> live (uh_da h)" using assms(3) by (simp_all add: uh_wf_def)
  obtain b d k' where r: "malloc_node sc 16 (h, k) = Inr (b, with_da h d, k')" "area_ok (with_da h d)" "b \<noteq> 0" "b \<notin> live (uh_da h)"
    "live d = insert b (live (uh_da h))" "ok k'" "reserve h \<le> Suc (reserve (with_da h d))"
    using malloc_node_ok [OF assms(1,2) wf(1) assms(4), of 16] by auto
  define x where "x = \<lparr>an_addr = b, Bedayet_eladd = a, an_size = n, shareIDSfreeFunc = stale h b\<rparr>"
  let ?h = "(with_da h d)\<lparr>alloc_head := x # alloc_head h\<rparr>"
  have "nodes ?h = b # nodes h" by (simp add: nodes_def x_def)
  then have "distinct (nodes ?h)" "set (nodes ?h) \<subseteq> live (uh_da ?h)" using wf(2,3) r(4,5) by auto
  moreover have "alloc_ok (unat (uheapPageAllocStart h)) x" using assms(5-9) by (simp add: alloc_ok_def x_def)
  ultimately have "uh_wf ?h" using assms(3) r(2) by (simp add: uh_wf_def)
  moreover have "allocationGded sc a n (h, k) = Inr (?h, k')" using r(1,3) by (simp add: allocationGded_def x_def)
  ultimately show ?thesis using r(6,7) by (intro exI [of _ d] exI [of _ k'] exI [of _ x]) (simp add: x_def)
qed

lemma uh_wf_break:
  assumes "uh_wf h" and "4096 dvd unat b" and "uheapPageAllocStart h \<le> b" and "b \<le> USER_HEAP_MAX"
  shows "uh_wf (h\<lparr>uheapPageAllocBreak := b\<rparr>)"
  using assms by (simp add: uh_wf_def nodes_def)

text \<open>What a request for pages does, whether or not free chunks lie below the break.\<close>

definition too_big :: "uheap \<Rightarrow> u32 \<Rightarrow> bool" where
  "too_big h sz \<longleftrightarrow> page_count sz = 0 \<or> (USER_HEAP_MAX - uheapPageAllocStart h) div PAGE_SIZE < page_count sz
     \<or> (\<forall>n \<in> set (free_head h). num_pages n < page_count sz) \<and> USER_HEAP_MAX < uheapPageAllocBreak h + page_count sz * PAGE_SIZE"

lemma malloc_pages_ok:
  assumes "serving sc ok" and "ok k" and "uh_wf h" and "spare h" and "\<not> too_big h sz"
  shows "\<exists>r d fs x k'. malloc_pages sc sz (h, k)
      = Inr (r, (with_da h d)\<lparr>free_head := fs, alloc_head := x # alloc_head h, uheapPageAllocBreak := max (uheapPageAllocBreak h) (r + page_count sz * PAGE_SIZE)\<rparr>, k')
    \<and> ok k' \<and> reserve h \<le> Suc (reserve (with_da h d)) \<and> Bedayet_eladd x = r \<and> an_size x = page_count sz * PAGE_SIZE \<and> r \<noteq> 0
    \<and> uh_wf ((with_da h d)\<lparr>free_head := fs, alloc_head := x # alloc_head h, uheapPageAllocBreak := max (uheapPageAllocBreak h) (r + page_count sz * PAGE_SIZE)\<rparr>)
    \<and> unat (page_count sz * PAGE_SIZE) = 4096 * unat (page_count sz)
    \<and> (if \<exists>n \<in> set (free_head h). page_count sz \<le> num_pages n
       then (\<exists>n \<in> set (free_head h). r = start_va n \<and> page_count sz \<le> num_pages n
               \<and> (num_pages n = page_count sz \<or> (\<forall>m \<in> set (free_head h). num_pages m \<noteq> page_count sz \<and> num_pages m \<le> num_pages n)))
         \<and> chunk r (page_count sz) \<subseteq> free_pages_of (free_head h) \<and> free_pages_of fs = free_pages_of (free_head h) - chunk r (page_count sz)
       else r = uheapPageAllocBreak h \<and> fs = free_head h)"
proof -
  define p where "p = page_count sz"
  define need where "need = p * PAGE_SIZE"
  let ?lo = "unat (uheapPageAllocStart h)" and ?brk = "uheapPageAllocBreak h"
  have wf: "4096 dvd ?lo" "4096 dvd unat ?brk" "uheapPageAllocStart h \<le> ?brk" "?brk \<le> USER_HEAP_MAX"
    "\<forall>n \<in> set (free_head h). free_ok ?lo n" using assms(3) by (simp_all add: uh_wf_def)
  have p: "p \<noteq> 0" "p \<le> (USER_HEAP_MAX - uheapPageAllocStart h) div PAGE_SIZE" using assms(5) by (auto simp: too_big_def p_def)
  have "uheapPageAllocStart h \<le> USER_HEAP_MAX" using wf(3,4) by (rule order_trans)
  then have "unat (USER_HEAP_MAX - uheapPageAllocStart h) = 0xA0000000 - ?lo" by (subst unat_u32_minus) simp_all
  then have pl: "unat p \<le> (0xA0000000 - ?lo) div 4096" using p(2) by (simp add: word_le_nat_alt unat_div_distrib)
  then have "4096 * unat p \<le> 0xA0000000" by linarith
  then have need: "unat need = 4096 * unat p" unfolding need_def by (subst unat_u32_mult) simp_all
  have pos: "0 < unat p" using p(1) by (simp add: unat_gt_0)
  then have need0: "need \<noteq> 0" using need by (metis mult_is_0 not_gr_zero unat_0 zero_neq_numeral)
  obtain a d fs k1 where f: "fit_chunk sc p (h, k) = Inr (a, (with_da h d)\<lparr>free_head := fs\<rparr>, k1)" "ok k1"
    "uh_wf ((with_da h d)\<lparr>free_head := fs\<rparr>)" "reserve h \<le> reserve (with_da h d)"
    and fc: "if \<exists>n \<in> set (free_head h). p \<le> num_pages n
       then (\<exists>n \<in> set (free_head h). a = start_va n \<and> p \<le> num_pages n
               \<and> (num_pages n = p \<or> (\<forall>m \<in> set (free_head h). num_pages m \<noteq> p \<and> num_pages m \<le> num_pages n)))
         \<and> a \<noteq> 0 \<and> chunk a p \<subseteq> free_pages_of (free_head h) \<and> free_pages_of fs = free_pages_of (free_head h) - chunk a p
       else a = 0 \<and> fs = free_head h \<and> d = uh_da h"
    using fit_chunk_ok [OF assms(1-3) p(1)] assms(4) by metis
  define r where "r = (if a = 0 then ?brk else a)"
  define h2 where "h2 = (if a = 0 then (with_da h d)\<lparr>free_head := fs, uheapPageAllocBreak := ?brk + need\<rparr> else (with_da h d)\<lparr>free_head := fs\<rparr>)"
  have lo0: "0x80000000 \<le> ?lo"
  proof -
    have "dynAllocStart (uh_da h) \<le> dynAllocEnd (uh_da h)" "dynAllocEnd (uh_da h) \<le> uheapPageAllocStart h" "dynAllocStart (uh_da h) = USER_HEAP_START"
      using assms(3) by (auto simp: uh_wf_def area_ok_def da_wf_def da_inv_def layout_ok_def)
    then have "USER_HEAP_START \<le> uheapPageAllocStart h" by (metis order_trans)
    then show ?thesis by (simp add: word_le_nat_alt)
  qed
  have rr: "4096 dvd unat r" "?lo \<le> unat r" "unat r + unat need \<le> 0xA0000000"
    "a = 0 \<longrightarrow> ?brk + need \<le> USER_HEAP_MAX \<and> unat (?brk + need) = unat ?brk + unat need"
  proof -
    show c: "a = 0 \<longrightarrow> ?brk + need \<le> USER_HEAP_MAX \<and> unat (?brk + need) = unat ?brk + unat need"
    proof
      assume "a = 0"
      then have "\<forall>n \<in> set (free_head h). num_pages n < p" using fc by (auto split: if_splits)
      then have "?brk + need \<le> USER_HEAP_MAX" using assms(5) by (auto simp: too_big_def p_def need_def not_less)
      moreover have "unat need \<le> 0xA0000000 - ?lo" using pl need by linarith
      then have "unat ?brk + unat need < 4294967296" using wf(4) lo0 by (simp add: word_le_nat_alt)
      then have "unat (?brk + need) = unat ?brk + unat need" by (rule unat_u32_plus)
      ultimately show "?brk + need \<le> USER_HEAP_MAX \<and> unat (?brk + need) = unat ?brk + unat need" by simp
    qed
    have "a \<noteq> 0 \<Longrightarrow> \<exists>n \<in> set (free_head h). a = start_va n \<and> p \<le> num_pages n" using fc by (auto split: if_splits)
    then have "a \<noteq> 0 \<Longrightarrow> \<exists>n. free_ok ?lo n \<and> a = start_va n \<and> unat p \<le> unat (num_pages n)" using wf(5) by (auto simp: word_le_nat_alt)
    then have n: "a \<noteq> 0 \<Longrightarrow> 4096 dvd unat a \<and> ?lo \<le> unat a \<and> unat a + 4096 * unat p \<le> 0xA0000000"
      by (force simp: free_ok_def)
    show "4096 dvd unat r" "?lo \<le> unat r" "unat r + unat need \<le> 0xA0000000"
      using n c wf(2,3) need by (auto simp: r_def word_le_nat_alt)
  qed
  have r0: "r \<noteq> 0" using rr(2) lo0 by auto
  have "r < USER_HEAP_MAX" using rr(3) need pos by (simp add: word_less_nat_alt)
  then have rrange: "\<not> r < uheapPageAllocStart h" "\<not> USER_HEAP_MAX \<le> r" using rr(2) by (auto simp: not_le word_less_nat_alt not_less [symmetric])
  have h2: "uh_wf h2" "reserve h \<le> reserve h2" "alloc_head h2 = alloc_head h" "uheapPageAllocStart h2 = uheapPageAllocStart h"
  proof -
    show "uh_wf h2"
    proof (cases "a = 0")
      case True
      have "uh_wf (((with_da h d)\<lparr>free_head := fs\<rparr>)\<lparr>uheapPageAllocBreak := ?brk + need\<rparr>)"
        using rr(4) True wf(2,3) need by (intro uh_wf_break [OF f(3)]) (auto simp: word_le_nat_alt)
      then show ?thesis using True by (simp add: h2_def)
    qed (use f(3) in \<open>simp add: h2_def\<close>)
  qed (use f(4) in \<open>auto simp: h2_def\<close>)
  obtain k2 where k2: "sys_allocate_user_mem sc r need k1 = Inr k2" "ok k2" using servingD(3) [OF assms(1) f(2)] by blast
  have sp: "spare h2" using h2(2) assms(4) by simp
  obtain d3 k3 x where al: "allocationGded sc r need (h2, k2) = Inr ((with_da h2 d3)\<lparr>alloc_head := x # alloc_head h\<rparr>, k3)" "ok k3"
    "uh_wf ((with_da h2 d3)\<lparr>alloc_head := x # alloc_head h\<rparr>)" "Bedayet_eladd x = r" "an_size x = need" "reserve h2 \<le> Suc (reserve (with_da h2 d3))"
    using allocationGded_ok [OF assms(1) k2(2) h2(1) sp rr(1) _ need0, of] rr(2,3) h2(3,4) need by auto
  have res: "reserve h \<le> Suc (reserve (with_da h d3))" using al(6) h2(2) by (simp add: reserve_def)
  have sum: "unat (r + need) = unat r + unat need" using rr(3) by (intro unat_u32_plus) simp
  define b where "b = max ?brk (r + need)"
  let ?h = "(with_da h d3)\<lparr>free_head := fs, alloc_head := x # alloc_head h, uheapPageAllocBreak := b\<rparr>"
  have hb: "(if uheapPageAllocBreak h2 < r + need then ((with_da h2 d3)\<lparr>alloc_head := x # alloc_head h\<rparr>)\<lparr>uheapPageAllocBreak := r + need\<rparr>
      else (with_da h2 d3)\<lparr>alloc_head := x # alloc_head h\<rparr>) = ?h"
  proof -
    have "b = (if ?brk < r + need then r + need else ?brk)" by (auto simp: b_def max_def)
    then show ?thesis using rr(4) need pos by (auto simp: h2_def r_def with_da_def word_less_nat_alt)
  qed
  have "uh_wf (((with_da h2 d3)\<lparr>alloc_head := x # alloc_head h\<rparr>)\<lparr>uheapPageAllocBreak := b\<rparr>)"
    using wf(2,3,4) rr(1,3) sum need h2(4) by (intro uh_wf_break [OF al(3)]) (auto simp: b_def max_def word_le_nat_alt)
  moreover have "((with_da h2 d3)\<lparr>alloc_head := x # alloc_head h\<rparr>)\<lparr>uheapPageAllocBreak := b\<rparr> = ?h"
    by (auto simp: h2_def with_da_def)
  ultimately have wfh: "uh_wf ?h" by simp
  have "malloc_pages sc sz (h, k) = Inr (r, ?h, k3)"
  proof -
    have g1: "\<not> (p = 0 \<or> (USER_HEAP_MAX - uheapPageAllocStart h) div PAGE_SIZE < p)" using p by (simp add: not_less)
    define h1 where "h1 = (with_da h d)\<lparr>free_head := fs\<rparr>"
    have g2: "\<not> (a = 0 \<and> USER_HEAP_MAX < uheapPageAllocBreak h1 + need)" using rr(4) by (auto simp: not_less h1_def)
    have g3: "(if a = 0 then (uheapPageAllocBreak h1, h1\<lparr>uheapPageAllocBreak := uheapPageAllocBreak h1 + need\<rparr>) else (a, h1)) = (r, h2)"
      by (simp add: r_def h2_def h1_def)
    have g4: "\<not> (r < uheapPageAllocStart h2 \<or> USER_HEAP_MAX \<le> r)" using rrange h2(4) by simp
    have pc: "ROUNDUP sz PAGE_SIZE div PAGE_SIZE = p" by (simp add: p_def page_count_def)
    show ?thesis
      unfolding malloc_pages_def prod.case pc Let_def need_def [symmetric] if_not_P [OF g1]
        f(1) [folded h1_def] bindE.simps if_not_P [OF g2] g3 if_not_P [OF g4] k2(1) al(1)
      using hb by simp
  qed
  moreover have "if \<exists>n \<in> set (free_head h). p \<le> num_pages n
       then (\<exists>n \<in> set (free_head h). r = start_va n \<and> p \<le> num_pages n
               \<and> (num_pages n = p \<or> (\<forall>m \<in> set (free_head h). num_pages m \<noteq> p \<and> num_pages m \<le> num_pages n)))
         \<and> chunk r p \<subseteq> free_pages_of (free_head h) \<and> free_pages_of fs = free_pages_of (free_head h) - chunk r p
       else r = ?brk \<and> fs = free_head h"
    using fc by (auto simp: r_def split: if_splits)
  ultimately show ?thesis
    using al(2,4,5) res r0 wfh need unfolding p_def [symmetric] need_def [symmetric] b_def by blast
qed

section \<open>The list of free chunks as a set of pages\<close>

text \<open>\<open>uh_core\<close> is what the steps on the free list keep while the list is being rebuilt: all of \<open>uh_wf\<close> except the
  gaps between neighbours.\<close>

definition uh_core :: "uheap \<Rightarrow> bool" where
  "uh_core h \<longleftrightarrow> area_ok h \<and> 4096 dvd unat (uheapPageAllocStart h) \<and> 4096 dvd unat (uheapPageAllocBreak h)
     \<and> uheapPageAllocStart h \<le> uheapPageAllocBreak h \<and> uheapPageAllocBreak h \<le> USER_HEAP_MAX
     \<and> (\<forall>n \<in> set (alloc_head h). alloc_ok (unat (uheapPageAllocStart h)) n)
     \<and> (\<forall>n \<in> set (free_head h). free_ok (unat (uheapPageAllocStart h)) n) \<and> distinct (nodes h) \<and> set (nodes h) \<subseteq> live (uh_da h)"

lemma uh_wf_core: "uh_wf h \<longleftrightarrow> uh_core h \<and> sorted_wrt before_gap (free_head h)"
  by (auto simp: uh_wf_def uh_core_def)

definition touching :: "FreeBlockNode \<Rightarrow> FreeBlockNode \<Rightarrow> bool" where
  "touching x y \<longleftrightarrow> unat (start_va x) + 4096 * unat (num_pages x) \<le> unat (start_va y)"

definition apart :: "FreeBlockNode \<Rightarrow> FreeBlockNode \<Rightarrow> bool" where
  "apart x y \<longleftrightarrow> chunk (start_va x) (num_pages x) \<inter> chunk (start_va y) (num_pages y) = {}"

lemma apart_sym: "apart x y \<longleftrightarrow> apart y x" by (auto simp: apart_def)

lemma apart_touching:
  assumes "free_ok lo x" and "free_ok lo y" and "apart x y"
  shows "touching x y \<or> touching y x" and "start_va x < start_va y \<longleftrightarrow> touching x y"
proof -
  obtain i j where i: "unat (start_va x) = 4096 * i" and j: "unat (start_va y) = 4096 * j" using assms(1,2) unfolding free_ok_def by blast
  have p: "0 < unat (num_pages x)" "0 < unat (num_pages y)" using assms(1,2) by (simp_all add: free_ok_def unat_gt_0)
  then have "i \<in> chunk (start_va x) (num_pages x)" "j \<in> chunk (start_va y) (num_pages y)" by (simp_all add: chunk_def i j)
  then have "i \<notin> chunk (start_va y) (num_pages y)" "j \<notin> chunk (start_va x) (num_pages x)" using assms(3) by (auto simp: apart_def)
  then show t: "touching x y \<or> touching y x" using p by (auto simp: chunk_def i j touching_def)
  show "start_va x < start_va y \<longleftrightarrow> touching x y" using t p by (auto simp: touching_def word_less_nat_alt)
qed

lemma touching_apart:
  assumes "touching x y"
  shows "apart x y"
proof -
  have "unat (start_va x) div 4096 + unat (num_pages x) = (unat (start_va x) + 4096 * unat (num_pages x)) div 4096" by simp
  also have "\<dots> \<le> unat (start_va y) div 4096" using assms by (intro div_le_mono) (simp add: touching_def)
  finally show ?thesis by (auto simp: apart_def chunk_def)
qed

lemma insert_free_eq: "insert_free n xs = sort_after n xs"
  by (induction xs) auto

lemma sort_after_ok:
  assumes "sorted_wrt touching xs" and "free_ok lo d" and "\<forall>x \<in> set xs. free_ok lo x \<and> apart d x"
  shows "sorted_wrt touching (sort_after d xs) \<and> mset (sort_after d xs) = add_mset d (mset xs)"
  using assms
proof (induction xs)
  case (Cons x xs)
  have x: "free_ok lo x" "apart x d" using Cons.prems(3) by (auto simp: apart_sym)
  note a = apart_touching [OF x(1) Cons.prems(2) x(2)]
  show ?case
  proof (cases "start_va x < start_va d")
    case True
    then have "sorted_wrt touching (sort_after d xs)" "mset (sort_after d xs) = add_mset d (mset xs)" using Cons by auto
    moreover from this(2) have "set (sort_after d xs) = insert d (set xs)" by (metis set_mset_add_mset_insert set_mset_mset)
    ultimately show ?thesis using True a(2) Cons.prems(1) by auto
  next
    case False
    then have t: "touching d x" using a by simp
    then have "touching d y" if "y \<in> set xs" for y
      using Cons.prems(1) that by (fastforce simp: touching_def)
    then show ?thesis using False t Cons.prems(1) by auto
  qed
qed simp

lemma sort_insert_ok:
  assumes "sorted_wrt touching xs" and "free_ok lo d" and "\<forall>x \<in> set xs. free_ok lo x \<and> apart d x"
  shows "sorted_wrt touching (sort_insert d xs) \<and> mset (sort_insert d xs) = add_mset d (mset xs)"
proof (cases xs)
  case (Cons m ms)
  have m: "free_ok lo m" "apart m d" using assms(3) Cons by (auto simp: apart_sym)
  have "sort_insert d xs = sort_after d xs"
  proof (cases "start_va d < start_va m")
    case True
    then show ?thesis by (auto simp: Cons sort_insert_def)
  next
    case False
    then have "start_va m < start_va d"
      using apart_touching [OF m(1) assms(2) m(2)] apart_touching(2) [OF assms(2) m(1)] m(2) apart_sym by blast
    then show ?thesis using False by (simp add: Cons sort_insert_def)
  qed
  then show ?thesis using sort_after_ok [OF assms] by simp
qed (simp add: sort_insert_def)

lemma sort_chunks:
  assumes "sorted_wrt touching ms" and "\<forall>x \<in> set fs \<union> set ms. free_ok lo x" and "sorted_wrt apart fs"
    and "\<forall>x \<in> set fs. \<forall>y \<in> set ms. apart x y"
  shows "sorted_wrt touching (fold sort_insert fs ms) \<and> mset (fold sort_insert fs ms) = mset fs + mset ms"
  using assms
proof (induction fs arbitrary: ms)
  case (Cons f fs)
  have f: "sorted_wrt touching (sort_insert f ms)" "mset (sort_insert f ms) = add_mset f (mset ms)"
    using sort_insert_ok [OF Cons.prems(1), of lo f] Cons.prems(2,4) by auto
  then have "set (sort_insert f ms) = insert f (set ms)" by (metis set_mset_add_mset_insert set_mset_mset)
  then have "sorted_wrt touching (fold sort_insert fs (sort_insert f ms)) \<and> mset (fold sort_insert fs (sort_insert f ms)) = mset fs + mset (sort_insert f ms)"
    using Cons.prems f(1) by (intro Cons.IH) (auto simp: apart_sym)
  then show ?case using f(2) by simp
qed simp

lemma uh_core_free:
  assumes "uh_core h" and "area_ok (with_da h d)" and "\<forall>n \<in> set fs. free_ok (unat (uheapPageAllocStart h)) n"
    and "distinct (map an_addr (alloc_head h) @ map fb_addr fs)" and "set (map an_addr (alloc_head h) @ map fb_addr fs) \<subseteq> live d"
  shows "uh_core ((with_da h d)\<lparr>free_head := fs\<rparr>)"
  using assms by (simp add: uh_core_def nodes_def)

lemma same_heap: "(with_da h (uh_da h))\<lparr>free_head := free_head h\<rparr> = h"
  by (simp add: with_da_def)

lemma merge_loop_done:
  assumes "ok k" and "uh_core h" and "free_head h = rev before @ ns" and "length ns < 2" and "sorted_wrt before_gap (rev before @ ns)"
  shows "\<exists>d fs k'. merge_loop sc before ns (h, k) = Inr ((with_da h d)\<lparr>free_head := fs\<rparr>, k') \<and> ok k'
    \<and> uh_wf ((with_da h d)\<lparr>free_head := fs\<rparr>) \<and> free_pages_of fs = free_pages_of (free_head h) \<and> reserve h \<le> reserve (with_da h d)"
proof -
  have "merge_loop sc before ns (h, k) = Inr (h, k)" using assms(4) by (cases ns rule: remdups_adj.cases) auto
  moreover have "uh_wf h" using assms(2,3,5) by (simp add: uh_wf_core)
  moreover have "reserve (with_da h (uh_da h)) = reserve h" by (simp add: reserve_def)
  ultimately show ?thesis using assms(1) same_heap [of h]
    by (intro exI [of _ "uh_da h"] exI [of _ "free_head h"] exI [of _ k]) simp
qed

lemma merge_loop_ok:
  assumes "serving sc ok" and "ok k" and "uh_core h" and "free_head h = rev before @ ns" and "sorted_wrt touching ns"
    and "sorted_wrt before_gap (rev before @ take 1 ns)"
  shows "\<exists>d fs k'. merge_loop sc before ns (h, k) = Inr ((with_da h d)\<lparr>free_head := fs\<rparr>, k') \<and> ok k'
    \<and> uh_wf ((with_da h d)\<lparr>free_head := fs\<rparr>) \<and> free_pages_of fs = free_pages_of (free_head h) \<and> reserve h \<le> reserve (with_da h d)"
  using assms
proof (induction sc before ns arbitrary: h k rule: merge_loop.induct)
  case (1 sc before d n ns)
  let ?lo = "unat (uheapPageAllocStart h)"
  have core: "area_ok h" "\<forall>x \<in> set (free_head h). free_ok ?lo x" "distinct (nodes h)" "set (nodes h) \<subseteq> live (uh_da h)"
    using "1.prems"(3) by (simp_all add: uh_core_def)
  have dn: "free_ok ?lo d" "free_ok ?lo n" "touching d n" using core(2) "1.prems"(4,5) by auto
  have sum: "unat (start_va d + num_pages d * PAGE_SIZE) = unat (start_va d) + 4096 * unat (num_pages d)"
    using chunk_split(3) [of "num_pages d" "num_pages d" "start_va d"] dn(1) by (simp add: free_ok_def)
  have gap_d: "sorted_wrt before_gap (rev before @ [d])" using "1.prems"(6) by simp
  show ?case
  proof (cases "start_va d + num_pages d * PAGE_SIZE = start_va n")
    case True
    then have e: "unat (start_va n) = unat (start_va d) + 4096 * unat (num_pages d)" using sum by metis
    define d1 where "d1 = d\<lparr>num_pages := num_pages d + num_pages n\<rparr>"
    have u: "unat (num_pages d + num_pages n) = unat (num_pages d) + unat (num_pages n)"
      using dn(2) e by (intro unat_u32_plus) (simp add: free_ok_def)
    have d1: "free_ok ?lo d1" "chunk (start_va d1) (num_pages d1) = chunk (start_va d) (num_pages d) \<union> chunk (start_va n) (num_pages n)"
      "fb_addr d1 = fb_addr d" "start_va d1 = start_va d" "unat (start_va d1) + 4096 * unat (num_pages d1) = unat (start_va n) + 4096 * unat (num_pages n)"
      using dn u e by (auto simp: d1_def free_ok_def chunk_def simp flip: unat_eq_zero)
    let ?fs = "rev before @ d1 # ns"
    have "fb_addr n \<in> live (uh_da (h\<lparr>free_head := ?fs\<rparr>))" using core(4) "1.prems"(4) by (auto simp: nodes_def)
    from free_node_ok [OF "1.prems"(1) "1.prems"(2) _ this] core(1)
    obtain da k1 where r: "free_node sc (fb_addr n) (h\<lparr>free_head := ?fs\<rparr>, k) = Inr ((with_da h da)\<lparr>free_head := ?fs\<rparr>, k1)"
      "area_ok (with_da h da)" "live da = live (uh_da h) - {fb_addr n}" "ok k1" "reserve h \<le> reserve (with_da h da)"
      by auto
    let ?L = "map an_addr (alloc_head h) @ map fb_addr (rev before) @ [fb_addr d]"
    have "nodes h = ?L @ fb_addr n # map fb_addr ns" by (simp add: nodes_def "1.prems"(4))
    then have dd: "distinct (?L @ map fb_addr ns) \<and> set (?L @ map fb_addr ns) = set (nodes h) - {fb_addr n}"
      using distinct_drop_mid [of ?L "fb_addr n" "map fb_addr ns"] core(3) by (simp only:)
    have L: "map an_addr (alloc_head h) @ map fb_addr ?fs = ?L @ map fb_addr ns" using d1(3) by simp
    have core1: "uh_core ((with_da h da)\<lparr>free_head := ?fs\<rparr>)"
    proof (rule uh_core_free [OF "1.prems"(3) r(2)])
      show "\<forall>x \<in> set ?fs. free_ok ?lo x" using core(2) "1.prems"(4) d1(1) by auto
      show "distinct (map an_addr (alloc_head h) @ map fb_addr ?fs)" "set (map an_addr (alloc_head h) @ map fb_addr ?fs) \<subseteq> live da"
        unfolding L using dd core(4) r(3) by blast+
    qed
    have "touching d1 x" if "x \<in> set ns" for x using "1.prems"(5) that d1(5) by (simp add: touching_def)
    then have s1: "sorted_wrt touching (d1 # ns)" using "1.prems"(5) by simp
    have g1: "sorted_wrt before_gap (rev before @ take 1 (d1 # ns))"
      using gap_d d1(4) by (auto simp: sorted_wrt_append before_gap_def)
    from "1.IH"(1) [OF True d1_def "1.prems"(1) r(4) core1 _ s1 g1]
    obtain db fs k2 where
      "merge_loop sc before (d1 # ns) ((with_da h da)\<lparr>free_head := ?fs\<rparr>, k1) = Inr ((with_da h db)\<lparr>free_head := fs\<rparr>, k2)" "ok k2"
      "uh_wf ((with_da h db)\<lparr>free_head := fs\<rparr>)" "free_pages_of fs = free_pages_of ?fs" "reserve (with_da h da) \<le> reserve (with_da h db)" by auto
    moreover have "free_pages_of ?fs = free_pages_of (free_head h)" using d1(2) by (auto simp: "1.prems"(4))
    ultimately show ?thesis using True r(1,5)
      by (intro exI [of _ db] exI [of _ fs] exI [of _ k2]) (simp add: d1_def [symmetric] Let_def)
  next
    case False
    then have "before_gap d n" using dn(3) sum by (auto simp: touching_def before_gap_def word_unat_eq_iff)
    moreover have "before_gap x n" if "x \<in> set before" for x
      using that gap_d dn(3) by (auto simp: sorted_wrt_append before_gap_def touching_def)
    ultimately have g: "sorted_wrt before_gap (rev (d # before) @ take 1 (n # ns))"
      using gap_d by (auto simp: sorted_wrt_append)
    have "sorted_wrt touching (n # ns)" using "1.prems"(5) by simp
    from "1.IH"(2) [OF False "1.prems"(1,2,3) _ this g] "1.prems"(4)
    show ?thesis using False by simp
  qed
next
  case "2_1"
  then show ?case by (intro merge_loop_done) simp_all
next
  case "2_2"
  then show ?case by (intro merge_loop_done) simp_all
qed

lemma uh_core_core: "uh_wf h \<Longrightarrow> uh_core h" by (simp add: uh_wf_core)

lemma MERGEE_ok:
  assumes "serving sc ok" and "ok k" and "uh_core h" and "sorted_wrt apart (free_head h)"
  shows "\<exists>d fs k'. MERGEE sc (h, k) = Inr ((with_da h d)\<lparr>free_head := fs\<rparr>, k') \<and> ok k'
    \<and> uh_wf ((with_da h d)\<lparr>free_head := fs\<rparr>) \<and> free_pages_of fs = free_pages_of (free_head h) \<and> reserve h \<le> reserve (with_da h d)"
proof (cases "length (free_head h) < 2")
  case True
  then have "sorted_wrt before_gap (free_head h)" by (cases "free_head h") auto
  then show ?thesis using True assms(2,3) same_heap [of h]
    by (intro exI [of _ "uh_da h"] exI [of _ "free_head h"] exI [of _ k]) (simp add: uh_wf_core MERGEE_def, simp add: reserve_def)
next
  case False
  let ?lo = "unat (uheapPageAllocStart h)" and ?fs = "fold sort_insert (free_head h) []"
  have core: "area_ok h" "\<forall>x \<in> set (free_head h). free_ok ?lo x" "distinct (nodes h)" "set (nodes h) \<subseteq> live (uh_da h)"
    using assms(3) by (simp_all add: uh_core_def)
  have s: "sorted_wrt touching ?fs" "mset ?fs = mset (free_head h)"
    using sort_chunks [of "[]" "free_head h" ?lo] core(2) assms(4) by simp_all
  then have set_fs: "set ?fs = set (free_head h)" by (metis mset_eq_setD)
  have "mset (map an_addr (alloc_head h) @ map fb_addr ?fs) = mset (nodes h)" by (simp add: nodes_def s(2))
  then have nd: "distinct (map an_addr (alloc_head h) @ map fb_addr ?fs)" "set (map an_addr (alloc_head h) @ map fb_addr ?fs) = set (nodes h)"
    using core(3) mset_eq_imp_distinct_iff mset_eq_setD by blast+
  have "uh_core ((with_da h (uh_da h))\<lparr>free_head := ?fs\<rparr>)"
    using core nd set_fs by (intro uh_core_free [OF assms(3)]) (simp_all add: with_da_def)
  then have core1: "uh_core (h\<lparr>free_head := ?fs\<rparr>)" by (simp add: with_da_def)
  have g: "sorted_wrt before_gap (rev [] @ take 1 ?fs)" by (cases ?fs) auto
  from merge_loop_ok [OF assms(1,2) core1 _ s(1) g]
  obtain d fs k' where r: "merge_loop sc [] ?fs (h\<lparr>free_head := ?fs\<rparr>, k) = Inr ((with_da h d)\<lparr>free_head := fs\<rparr>, k')" "ok k'"
    "uh_wf ((with_da h d)\<lparr>free_head := fs\<rparr>)" "free_pages_of fs = free_pages_of ?fs" "reserve h \<le> reserve (with_da h d)" by auto
  have "free_pages_of ?fs = free_pages_of (free_head h)" unfolding free_pages_of_def set_fs ..
  then show ?thesis using False r by (intro exI [of _ d] exI [of _ fs] exI [of _ k']) (simp add: MERGEE_def Let_def)
qed

text \<open>A list of chunks with gaps is determined by its pages.\<close>

definition extent :: "FreeBlockNode \<Rightarrow> u32 \<times> u32" where "extent n = (start_va n, num_pages n)"

lemma gapped_bounds:
  assumes "\<forall>x \<in> set (f # fs). free_ok lo x" and "sorted_wrt before_gap (f # fs)"
  shows "unat (start_va f) div 4096 \<in> free_pages_of (f # fs)"
    and "p \<in> free_pages_of (f # fs) \<Longrightarrow> unat (start_va f) div 4096 \<le> p"
    and "unat (start_va f) div 4096 + unat (num_pages f) \<notin> free_pages_of (f # fs)"
    and "free_pages_of fs = free_pages_of (f # fs) - chunk (start_va f) (num_pages f)"
proof -
  have pos: "0 < unat (num_pages f)" using assms(1) by (simp add: free_ok_def unat_gt_0)
  then show "unat (start_va f) div 4096 \<in> free_pages_of (f # fs)" by (simp add: chunk_def)
  have later: "unat (start_va f) div 4096 + unat (num_pages f) < unat (start_va y) div 4096" if y: "y \<in> set fs" for y
  proof -
    obtain i j where i: "unat (start_va f) = 4096 * i" and j: "unat (start_va y) = 4096 * j"
      using assms(1) y unfolding free_ok_def by (metis dvdE list.set_intros)
    have "before_gap f y" using assms(2) y by simp
    then show ?thesis by (simp add: before_gap_def i j)
  qed
  then show "p \<in> free_pages_of (f # fs) \<Longrightarrow> unat (start_va f) div 4096 \<le> p"
    by (fastforce simp: free_pages_of_def chunk_def)
  show "unat (start_va f) div 4096 + unat (num_pages f) \<notin> free_pages_of (f # fs)"
    using later by (fastforce simp: free_pages_of_def chunk_def)
  show "free_pages_of fs = free_pages_of (f # fs) - chunk (start_va f) (num_pages f)"
    using later by (fastforce simp: free_pages_of_def chunk_def)
qed

lemma gapped_unique:
  assumes "\<forall>x \<in> set fs \<union> set gs. free_ok lo x" and "sorted_wrt before_gap fs" and "sorted_wrt before_gap gs"
    and "free_pages_of fs = free_pages_of gs"
  shows "map extent fs = map extent gs"
  using assms
proof (induction fs arbitrary: gs)
  case Nil
  then show ?case using gapped_bounds(1) [of _ _ lo] by (cases gs) fastforce+
next
  case (Cons f fs)
  have "unat (start_va f) div 4096 \<in> free_pages_of gs" using gapped_bounds(1) [of f fs lo] Cons.prems by auto
  then obtain g gs' where gs: "gs = g # gs'" by (cases gs) auto
  have f: "\<forall>x \<in> set (f # fs). free_ok lo x" and g: "\<forall>x \<in> set (g # gs'). free_ok lo x" and sg: "sorted_wrt before_gap (g # gs')"
    using Cons.prems(1,3) gs by auto
  note F = gapped_bounds [OF f Cons.prems(2)] and G = gapped_bounds [OF g sg]
  have P: "free_pages_of (f # fs) = free_pages_of (g # gs')" using Cons.prems(4) gs by simp
  have "unat (start_va f) div 4096 = unat (start_va g) div 4096"
    using F(1) F(2) G(1) G(2) unfolding P by (meson le_antisym)
  moreover have "4096 dvd unat (start_va f)" "4096 dvd unat (start_va g)" using f g by (simp_all add: free_ok_def)
  ultimately have st: "start_va f = start_va g" by (metis dvd_div_eq_cancel unat_eq_zero word_unat_eq_iff dvd_mult_div_cancel)
  have "unat (num_pages f) = unat (num_pages g)"
  proof (rule linorder_cases [of "unat (num_pages f)" "unat (num_pages g)"])
    assume "unat (num_pages f) < unat (num_pages g)"
    then have "unat (start_va f) div 4096 + unat (num_pages f) \<in> free_pages_of (g # gs')" by (simp add: chunk_def st)
    then show ?thesis using F(3) unfolding P by blast
  next
    assume "unat (num_pages g) < unat (num_pages f)"
    then have "unat (start_va g) div 4096 + unat (num_pages g) \<in> free_pages_of (f # fs)" by (simp add: chunk_def st)
    then show ?thesis using G(3) unfolding P by blast
  qed
  then have nm: "num_pages f = num_pages g" by (simp add: word_unat_eq_iff)
  have "free_pages_of fs = free_pages_of gs'" using F(4) G(4) P st nm by simp
  then have "map extent fs = map extent gs'"
    using Cons.prems(1,2) sg g by (intro Cons.IH) auto
  moreover have "extent f = extent g" using st nm by (simp add: extent_def)
  ultimately show ?case by (simp add: gs)
qed

section \<open>Freeing pages\<close>

lemma unlink_allocation_find:
  "find (\<lambda>n. Bedayet_eladd n = va) as = Some n \<Longrightarrow>
     \<exists>xs ys. as = xs @ n # ys \<and> unlink_allocation va as = Some (n, xs @ ys) \<and> Bedayet_eladd n = va"
proof (induction as)
  case (Cons x as)
  show ?case
  proof (cases "Bedayet_eladd x = va")
    case True
    then show ?thesis using Cons.prems by (intro exI [of _ "[]"] exI [of _ as]) auto
  next
    case False
    then obtain xs ys where "as = xs @ n # ys" "unlink_allocation va as = Some (n, xs @ ys)" "Bedayet_eladd n = va"
      using Cons by auto
    then show ?thesis using False by (intro exI [of _ "x # xs"] exI [of _ ys]) auto
  qed
qed simp

lemma last_end_spec:
  assumes "\<forall>n \<in> set ns. alloc_ok lo n" and "4096 dvd unat hi" and "unat hi \<le> 0xA0000000"
  shows "4096 dvd unat (last_end ns hi) \<and> hi \<le> last_end ns hi \<and> unat (last_end ns hi) \<le> 0xA0000000
    \<and> (\<forall>n \<in> set ns. unat (Bedayet_eladd n) + unat (an_size n) \<le> unat (last_end ns hi))
    \<and> (last_end ns hi = hi \<or> (\<exists>n \<in> set ns. unat (last_end ns hi) = unat (Bedayet_eladd n) + unat (an_size n)))"
  using assms
proof (induction ns arbitrary: hi)
  case (Cons n ns)
  let ?e = "Bedayet_eladd n + an_size n"
  have n: "4096 dvd unat (Bedayet_eladd n)" "4096 dvd unat (an_size n)" "unat (Bedayet_eladd n) + unat (an_size n) \<le> 0xA0000000"
    using Cons.prems(1) by (simp_all add: alloc_ok_def)
  have e: "unat ?e = unat (Bedayet_eladd n) + unat (an_size n)" using n(3) by (intro unat_u32_plus) simp
  define hi1 where "hi1 = (if hi < ?e \<and> ?e \<le> USER_HEAP_MAX then ?e else hi)"
  have eq: "last_end (n # ns) hi = last_end ns hi1" by (simp add: hi1_def Let_def)
  have h1: "4096 dvd unat hi1" "unat hi1 \<le> 0xA0000000" "unat hi \<le> unat hi1" "unat ?e \<le> unat hi1" "hi1 = hi \<or> hi1 = ?e"
    using Cons.prems(2,3) n e by (auto simp: hi1_def word_less_nat_alt word_le_nat_alt)
  from Cons.IH [OF _ h1(1,2)] Cons.prems(1) h1(3-5) e show ?case unfolding eq by (auto simp: word_le_nat_alt)
qed simp

lemma user_ROUNDUP_idem: "\<lbrakk>4096 dvd unat a; unat a \<le> 0xA0000000\<rbrakk> \<Longrightarrow> ROUNDUP a PAGE_SIZE = a"
  by (elim dvdE) (simp add: word_unat_eq_iff unat_ROUNDUP)

lemma ta7deth_ok:
  assumes "uh_core h"
  shows "\<exists>b. ta7dethEL_breakTofree h = h\<lparr>uheapPageAllocBreak := b\<rparr> \<and> b = last_end (alloc_head h) (uheapPageAllocStart h)
    \<and> 4096 dvd unat b \<and> uheapPageAllocStart h \<le> b \<and> b \<le> USER_HEAP_MAX"
proof -
  let ?b = "last_end (alloc_head h) (uheapPageAllocStart h)"
  have "uheapPageAllocStart h \<le> USER_HEAP_MAX" using assms unfolding uh_core_def by (meson order_trans)
  then have b: "4096 dvd unat ?b" "uheapPageAllocStart h \<le> ?b" "unat ?b \<le> 0xA0000000"
    using last_end_spec [of "alloc_head h" "unat (uheapPageAllocStart h)" "uheapPageAllocStart h"] assms
    by (auto simp: uh_core_def word_le_nat_alt)
  then have le: "?b \<le> USER_HEAP_MAX" by (simp add: word_le_nat_alt)
  have "ROUNDUP ?b PAGE_SIZE = ?b" using b(1) 
    by (intro user_ROUNDUP_idem) (use b(3) in auto)
  then have "ta7dethEL_breakTofree h = h\<lparr>uheapPageAllocBreak := ?b\<rparr>"
    using b(2) le by (simp add: ta7dethEL_breakTofree_def Let_def not_less [symmetric])
  then show ?thesis using b le by blast
qed

lemma FREEblockk_ok:
  assumes "serving sc ok" and "ok k" and "uh_wf h" and "spare h" and "pages \<noteq> 0" and "4096 dvd unat va"
    and "unat (uheapPageAllocStart h) \<le> unat va" and "unat va + 4096 * unat pages \<le> 0xA0000000"
    and "chunk va pages \<inter> free_pages_of (free_head h) = {}"
  shows "\<exists>d fs k'. FREEblockk sc va pages (h, k) = Inr ((with_da h d)\<lparr>free_head := fs\<rparr>, k') \<and> ok k'
    \<and> uh_core ((with_da h d)\<lparr>free_head := fs\<rparr>) \<and> sorted_wrt apart fs \<and> reserve h \<le> Suc (reserve (with_da h d))
    \<and> free_pages_of fs = free_pages_of (free_head h) \<union> chunk va pages"
proof -
  let ?lo = "unat (uheapPageAllocStart h)"
  have wf: "area_ok h" "\<forall>x \<in> set (free_head h). free_ok ?lo x" "sorted_wrt before_gap (free_head h)" "distinct (nodes h)"
    "set (nodes h) \<subseteq> live (uh_da h)" using assms(3) by (simp_all add: uh_wf_def)
  obtain b d k' where r: "malloc_node sc 12 (h, k) = Inr (b, with_da h d, k')" "area_ok (with_da h d)" "b \<noteq> 0" "b \<notin> live (uh_da h)"
    "live d = insert b (live (uh_da h))" "ok k'" "reserve h \<le> Suc (reserve (with_da h d))" using malloc_node_ok [OF assms(1,2) wf(1) assms(4), of 12] by auto
  define x where "x = \<lparr>fb_addr = b, start_va = va, num_pages = pages\<rparr>"
  let ?fs = "insert_free x (free_head h)"
  have x: "free_ok ?lo x" using assms(5-8) by (simp add: free_ok_def x_def)
  have ap: "apart x y" if "y \<in> set (free_head h)" for y
    using assms(9) that by (auto simp: apart_def x_def free_pages_of_def)
  have none: "start_va y \<noteq> va" if y: "y \<in> set (free_head h)" for y
  proof
    assume e: "start_va y = va"
    have "0 < unat (num_pages y)" "0 < unat pages" using wf(2) y assms(5) by (auto simp: free_ok_def unat_gt_0)
    then have "unat va div 4096 \<in> chunk (start_va y) (num_pages y)" "unat va div 4096 \<in> chunk va pages"
      by (simp_all add: chunk_def e)
    then show False using assms(9) y by (auto simp: free_pages_of_def)
  qed
  have "sorted_wrt touching (free_head h)"
    using wf(3) by (rule sorted_wrt_mono_rel [rotated]) (simp add: before_gap_def touching_def)
  then have s: "sorted_wrt touching ?fs" "mset ?fs = add_mset x (mset (free_head h))"
    using sort_after_ok [of "free_head h" ?lo x] x ap wf(2) unfolding insert_free_eq by auto
  then have set_fs: "set ?fs = insert x (set (free_head h))" by (metis set_mset_add_mset_insert set_mset_mset)
  have "mset (map an_addr (alloc_head h) @ map fb_addr ?fs) = mset (b # nodes h)" by (simp add: nodes_def s(2)) (simp add: x_def)
  then have nd: "distinct (map an_addr (alloc_head h) @ map fb_addr ?fs) = distinct (b # nodes h)"
    "set (map an_addr (alloc_head h) @ map fb_addr ?fs) = set (b # nodes h)"
    using mset_eq_imp_distinct_iff mset_eq_setD by blast+
  have "uh_core ((with_da h d)\<lparr>free_head := ?fs\<rparr>)"
  proof (rule uh_core_free [OF uh_core_core [OF assms(3)] r(2)])
    show "\<forall>n \<in> set ?fs. free_ok ?lo n" using set_fs x wf(2) by auto
    show "distinct (map an_addr (alloc_head h) @ map fb_addr ?fs)" unfolding nd using wf(4,5) r(4) by auto
    show "set (map an_addr (alloc_head h) @ map fb_addr ?fs) \<subseteq> live d" unfolding nd using wf(5) r(5) by auto
  qed
  moreover have "sorted_wrt apart ?fs" using s(1) by (rule sorted_wrt_mono_rel [rotated]) (rule touching_apart)
  moreover have "free_pages_of ?fs = free_pages_of (free_head h) \<union> chunk va pages"
    unfolding free_pages_of_def set_fs by (auto simp: x_def)
  moreover have "FREEblockk sc va pages (h, k) = Inr ((with_da h d)\<lparr>free_head := ?fs\<rparr>, k')"
    using r(1,3) assms(5) none by (auto simp: FREEblockk_def x_def [symmetric])
  ultimately show ?thesis using r(6,7) by blast
qed

lemma free_pages_ok:
  assumes "serving sc ok" and "ok k" and "uh_wf h" and "spare h" and "find_allocation (ROUNDDOWN a PAGE_SIZE) h = Some n"
    and "chunk (Bedayet_eladd n) (an_size n div PAGE_SIZE) \<inter> free_pages_of (free_head h) = {}"
  shows "\<exists>xs ys d fs k'. alloc_head h = xs @ n # ys \<and> Bedayet_eladd n = ROUNDDOWN a PAGE_SIZE
    \<and> free_pages sc a (h, k) = Inr ((with_da h d)\<lparr>alloc_head := xs @ ys, free_head := fs,
         uheapPageAllocBreak := last_end (xs @ ys) (uheapPageAllocStart h)\<rparr>, k') \<and> ok k'
    \<and> uh_wf ((with_da h d)\<lparr>alloc_head := xs @ ys, free_head := fs, uheapPageAllocBreak := last_end (xs @ ys) (uheapPageAllocStart h)\<rparr>)
    \<and> reserve h \<le> Suc (reserve (with_da h d))
    \<and> free_pages_of fs = free_pages_of (free_head h) \<union> chunk (Bedayet_eladd n) (an_size n div PAGE_SIZE)"
proof -
  let ?va = "ROUNDDOWN a PAGE_SIZE" and ?lo = "unat (uheapPageAllocStart h)"
  obtain xs ys where A: "alloc_head h = xs @ n # ys" "unlink_allocation ?va (alloc_head h) = Some (n, xs @ ys)" "Bedayet_eladd n = ?va"
    using unlink_allocation_find assms(5) unfolding find_allocation_def by blast
  let ?as = "xs @ ys" and ?b = "last_end (xs @ ys) (uheapPageAllocStart h)"
  have wf: "area_ok h" "distinct (nodes h)" "set (nodes h) \<subseteq> live (uh_da h)" "\<forall>x \<in> set (alloc_head h). alloc_ok ?lo x"
    using assms(3) by (simp_all add: uh_wf_def)
  have "an_addr n \<in> live (uh_da (h\<lparr>alloc_head := ?as\<rparr>))" using wf(3) A(1) by (auto simp: nodes_def)
  from free_node_ok [OF assms(1,2) _ this] wf(1) assms(4)
  obtain d1 k1 where f1: "free_node sc (an_addr n) (h\<lparr>alloc_head := ?as\<rparr>, k) = Inr ((with_da h d1)\<lparr>alloc_head := ?as\<rparr>, k1)"
    "area_ok (with_da h d1)" "live d1 = live (uh_da h) - {an_addr n}" "ok k1" "reserve h \<le> reserve (with_da h d1)" by auto
  let ?h1 = "(with_da h d1)\<lparr>alloc_head := ?as\<rparr>"
  let ?L = "map an_addr xs" and ?R = "map an_addr ys @ map fb_addr (free_head h)"
  have "nodes h = ?L @ an_addr n # ?R" by (simp add: nodes_def A(1))
  then have dd: "distinct (?L @ ?R) \<and> set (?L @ ?R) = set (nodes h) - {an_addr n}"
    using distinct_drop_mid [of ?L "an_addr n" ?R] wf(2) by (simp only:)
  have "nodes ?h1 = ?L @ ?R" by (simp add: nodes_def)
  then have "distinct (nodes ?h1)" "set (nodes ?h1) \<subseteq> live (uh_da ?h1)" using dd wf(3) f1(3) by (simp_all only: with_da_simps) auto
  then have wf1: "uh_wf ?h1" using assms(3) f1(2) A(1) by (simp add: uh_wf_def)
  obtain b where b: "ta7dethEL_breakTofree ?h1 = ?h1\<lparr>uheapPageAllocBreak := b\<rparr>" "b = ?b" "4096 dvd unat b"
    "uheapPageAllocStart h \<le> b" "b \<le> USER_HEAP_MAX" using ta7deth_ok [OF uh_core_core [OF wf1]] by auto
  let ?h2 = "?h1\<lparr>uheapPageAllocBreak := b\<rparr>"
  have wf2: "uh_wf ?h2" using b by (intro uh_wf_break [OF wf1]) simp_all
  obtain k2 where k2: "sys_free_user_mem sc ?va (an_size n) k1 = Inr k2" "ok k2" using servingD(4) [OF assms(1) f1(4)] by blast
  have n: "4096 dvd unat ?va" "4096 dvd unat (an_size n)" "an_size n \<noteq> 0" "?lo \<le> unat ?va" "unat ?va + unat (an_size n) \<le> 0xA0000000"
    using wf(4) A(1,3) by (simp_all add: alloc_ok_def)
  let ?p = "an_size n div PAGE_SIZE"
  have p: "4096 * unat ?p = unat (an_size n)" using n(2) by (simp add: unat_div_distrib)
  then have p0: "?p \<noteq> 0" using n(3) by (metis mult_zero_right unat_0 unat_eq_zero)
  obtain d3 fs3 k3 where f3: "FREEblockk sc ?va ?p (?h2, k2) = Inr ((with_da ?h2 d3)\<lparr>free_head := fs3\<rparr>, k3)" "ok k3"
    "uh_core ((with_da ?h2 d3)\<lparr>free_head := fs3\<rparr>)" "sorted_wrt apart fs3" "free_pages_of fs3 = free_pages_of (free_head h) \<union> chunk ?va ?p"
    "reserve ?h2 \<le> Suc (reserve (with_da ?h2 d3))"
    using FREEblockk_ok [OF assms(1) k2(2) wf2 _ p0 n(1)] n(4,5) p f1(5) assms(4,6) A(3) by auto
  obtain d4 fs k4 where f4: "MERGEE sc ((with_da ?h2 d3)\<lparr>free_head := fs3\<rparr>, k3) = Inr ((with_da ?h2 d4)\<lparr>free_head := fs\<rparr>, k4)" "ok k4"
    "uh_wf ((with_da ?h2 d4)\<lparr>free_head := fs\<rparr>)" "free_pages_of fs = free_pages_of fs3" "reserve (with_da ?h2 d3) \<le> reserve (with_da ?h2 d4)"
    using MERGEE_ok [OF assms(1) f3(2,3)] f3(4) by auto
  have eq: "(with_da ?h2 d4)\<lparr>free_head := fs\<rparr> = (with_da h d4)\<lparr>alloc_head := ?as, free_head := fs, uheapPageAllocBreak := ?b\<rparr>"
    by (simp add: with_da_def b(2))
  have "free_pages sc a (h, k) = Inr ((with_da ?h2 d4)\<lparr>free_head := fs\<rparr>, k4)"
    unfolding free_pages_def prod.case Let_def assms(5) option.case Nemsa7allocation_def A(2) f1(1) bindE.simps b(1) k2(1) f3(1) f4(1) ..
  moreover have "reserve h \<le> Suc (reserve (with_da h d4))" using f1(5) f3(6) f4(5) by (simp add: reserve_def)
  ultimately show ?thesis using A(1,3) f4(2-4) f3(5) unfolding eq by (intro exI [of _ xs] exI [of _ ys] exI [of _ d4] exI [of _ fs] exI [of _ k4]) simp
qed

section \<open>The invariant of the heap\<close>

definition node_pages :: "OURAllocationNode \<Rightarrow> nat set" where
  "node_pages n = chunk (Bedayet_eladd n) (an_size n div PAGE_SIZE)"

definition separate :: "OURAllocationNode list \<Rightarrow> bool" where
  "separate ns \<longleftrightarrow> sorted_wrt (\<lambda>x y. node_pages x \<inter> node_pages y = {}) ns"

text \<open>No page belongs to two allocations, or to an allocation and a free chunk, and the break is above all allocations.\<close>

definition uh_ok :: "uheap \<Rightarrow> bool" where
  "uh_ok h \<longleftrightarrow> uh_wf h \<and> separate (alloc_head h) \<and> used_pages_of (alloc_head h) \<inter> free_pages_of (free_head h) = {}
     \<and> (\<forall>p \<in> used_pages_of (alloc_head h). 4096 * p < unat (uheapPageAllocBreak h))"

text \<open>Free chunks lie below the break.  \<open>malloc\<close> relies on this when it takes new pages at the break.\<close>

definition below_break :: "uheap \<Rightarrow> bool" where
  "below_break h \<longleftrightarrow> (\<forall>p \<in> free_pages_of (free_head h). 4096 * p < unat (uheapPageAllocBreak h))"

definition heap_same :: "uheap \<Rightarrow> uheap \<Rightarrow> bool" where
  "heap_same h h' \<longleftrightarrow> uheapPageAllocStart h' = uheapPageAllocStart h \<and> uheapPlaceStrategy h' = uheapPlaceStrategy h
     \<and> reserve h \<le> Suc (reserve h')"

lemma heap_sameD: "heap_same h h' \<Longrightarrow> uheapPageAllocStart h' = uheapPageAllocStart h \<and> reserve h \<le> Suc (reserve h')"
  by (simp add: heap_same_def)

lemma used_pages_node: "used_pages_of ns = (\<Union>n \<in> set ns. node_pages n)"
  by (simp add: used_pages_of_def node_pages_def)

lemma page_count_size:
  assumes "page_count sz \<noteq> 0"
  shows "unat sz \<le> 4096 * unat (page_count sz)" and "4096 * unat (page_count sz) < unat sz + 4096"
proof -
  have le: "unat sz + 4096 \<le> 4294967296"
  proof (rule ccontr)
    assume "\<not> unat sz + 4096 \<le> 4294967296"
    moreover have "unat sz < 4294967296" using unsigned_less [of sz] by simp
    ultimately have "unat (sz + 4095) < 4096" by (simp add: unat_word_ariths(1) mod_if) linarith
    then have "unat (ROUNDUP sz PAGE_SIZE) = 0" by (simp add: ROUNDUP_def unat_ROUNDDOWN' add_diff_eq [symmetric])
    then have "ROUNDUP sz PAGE_SIZE = 0" by (rule unat_0_iff [THEN iffD1])
    then show False using assms by (simp add: page_count_def)
  qed
  then have "unat (page_count sz) = (unat sz + 4095) div 4096"
    by (simp add: page_count_def unat_div_distrib unat_ROUNDUP)
  then show "unat sz \<le> 4096 * unat (page_count sz)" "4096 * unat (page_count sz) < unat sz + 4096" by linarith+
qed

lemma chunk_bound: "\<lbrakk>4096 dvd unat a; p \<in> chunk a n\<rbrakk> \<Longrightarrow> unat a \<le> 4096 * p \<and> 4096 * p < unat a + 4096 * unat n"
  by (elim dvdE) (auto simp: chunk_def)

lemma malloc_large: "\<lbrakk>firstTimeFlag h = 0; 2048 < sz\<rbrakk> \<Longrightarrow> malloc sc sz (h, k) = malloc_pages sc sz (h, k)"
  by (auto simp: malloc_def uheap_init_started not_le)


text \<open>What a request for pages yields: the address comes from the free chunks by custom fit, or from the break.\<close>

definition custom_fit :: "FreeBlockNode list \<Rightarrow> u32 \<Rightarrow> u32 \<Rightarrow> u32 \<Rightarrow> bool" where
  "custom_fit fs brk pages r \<longleftrightarrow>
     (if \<exists>n \<in> set fs. pages \<le> num_pages n
      then \<exists>n \<in> set fs. r = start_va n \<and> pages \<le> num_pages n
             \<and> (num_pages n = pages \<or> (\<forall>m \<in> set fs. num_pages m \<noteq> pages \<and> num_pages m \<le> num_pages n))
      else r = brk)"

lemma malloc_large_ok:
  assumes "serving sc ok" and "ok k" and "uh_ok h" and "below_break h" and "spare h" and "2048 < sz" and False: "\<not> too_big h sz"
  shows "\<exists>r h' k' n. malloc sc sz (h, k) = Inr (r, h', k') \<and> ok k' \<and> uh_ok h' \<and> below_break h' \<and> heap_same h h'
      \<and> alloc_head h' = n # alloc_head h \<and> Bedayet_eladd n = r
      \<and> uheapPageAllocBreak h' = max (uheapPageAllocBreak h) (r + an_size n) \<and> unat r mod 4096 = 0
      \<and> unat sz \<le> unat (an_size n) \<and> unat (an_size n) < unat sz + 4096
      \<and> node_pages n \<inter> used_pages_of (alloc_head h) = {}
      \<and> free_pages_of (free_head h') = free_pages_of (free_head h) - node_pages n
      \<and> custom_fit (free_head h) (uheapPageAllocBreak h) (page_count sz) r"
proof -
  let ?p = "page_count sz" and ?brk = "uheapPageAllocBreak h"
  have wf: "uh_wf h" and first: "firstTimeFlag h = 0" using assms(3) by (simp_all add: uh_ok_def uh_wf_def area_ok_def)
  obtain r d fs n k' where m: "malloc_pages sc sz (h, k) = Inr (r, (with_da h d)\<lparr>free_head := fs, alloc_head := n # alloc_head h,
      uheapPageAllocBreak := max ?brk (r + ?p * PAGE_SIZE)\<rparr>, k')"
    "ok k'" "reserve h \<le> Suc (reserve (with_da h d))" "Bedayet_eladd n = r" "an_size n = ?p * PAGE_SIZE"
    "uh_wf ((with_da h d)\<lparr>free_head := fs, alloc_head := n # alloc_head h, uheapPageAllocBreak := max ?brk (r + ?p * PAGE_SIZE)\<rparr>)"
    "unat (?p * PAGE_SIZE) = 4096 * unat ?p"
    and fit: "if \<exists>n \<in> set (free_head h). ?p \<le> num_pages n
       then (\<exists>n \<in> set (free_head h). r = start_va n \<and> ?p \<le> num_pages n
               \<and> (num_pages n = ?p \<or> (\<forall>m \<in> set (free_head h). num_pages m \<noteq> ?p \<and> num_pages m \<le> num_pages n)))
         \<and> chunk r ?p \<subseteq> free_pages_of (free_head h) \<and> free_pages_of fs = free_pages_of (free_head h) - chunk r ?p
       else r = ?brk \<and> fs = free_head h"
    using malloc_pages_ok [OF assms(1,2) wf assms(5) False] by blast
  let ?h = "(with_da h d)\<lparr>free_head := fs, alloc_head := n # alloc_head h, uheapPageAllocBreak := max ?brk (r + ?p * PAGE_SIZE)\<rparr>"
  have p: "?p \<noteq> 0" using False by (simp add: too_big_def)
  have np: "node_pages n = chunk r ?p"
    using m(4,5,7) by (simp add: node_pages_def word_unat_eq_iff unat_div_distrib chunk_def)
  have n: "4096 dvd unat r" "unat r + 4096 * unat ?p \<le> 0xA0000000" using m(4-7) by (simp_all add: uh_wf_def alloc_ok_def)
  then have end_r: "unat (r + ?p * PAGE_SIZE) = unat r + 4096 * unat ?p" using m(7) by (subst unat_u32_plus) simp_all
  have inv: "used_pages_of (alloc_head h) \<inter> free_pages_of (free_head h) = {}" "separate (alloc_head h)"
    "\<And>q. q \<in> used_pages_of (alloc_head h) \<Longrightarrow> 4096 * q < unat ?brk" using assms(3) by (simp_all add: uh_ok_def)
  have low: "\<And>q. q \<in> free_pages_of (free_head h) \<Longrightarrow> 4096 * q < unat ?brk" using assms(4) by (simp add: below_break_def)
  have new: "node_pages n \<inter> used_pages_of (alloc_head h) = {} \<and> free_pages_of fs = free_pages_of (free_head h) - node_pages n"
  proof (cases "\<exists>n \<in> set (free_head h). ?p \<le> num_pages n")
    case True
    then show ?thesis using fit inv(1) np by auto
  next
    case False
    then have rb: "r = ?brk" "fs = free_head h" using fit by simp_all
    have "q \<notin> chunk r ?p" if "4096 * q < unat ?brk" for q using chunk_bound [OF n(1)] that rb(1) by (meson not_le)
    then show ?thesis using inv(3) low np rb(2) by auto
  qed
  have brk: "unat ?brk \<le> unat (max ?brk (r + ?p * PAGE_SIZE))" "unat r + 4096 * unat ?p \<le> unat (max ?brk (r + ?p * PAGE_SIZE))"
    using end_r by (simp_all add: max_def word_le_nat_alt)
  have "uh_ok ?h"
  proof -
    have "separate (n # alloc_head h)" using inv(2) new by (auto simp: separate_def used_pages_node)
    moreover have "used_pages_of (n # alloc_head h) \<inter> free_pages_of fs = {}"
      using new inv(1) by (auto simp: node_pages_def [symmetric])
    moreover have "4096 * q < unat (max ?brk (r + ?p * PAGE_SIZE))" if "q \<in> used_pages_of (n # alloc_head h)" for q
      using that inv(3) [of q] chunk_bound [OF n(1), of q ?p] np brk by (fastforce simp: node_pages_def [symmetric])
    ultimately show ?thesis using m(6) by (simp add: uh_ok_def)
  qed
  moreover have "below_break ?h" using new low brk(1) by (auto simp: below_break_def intro: less_le_trans)
  moreover have "malloc sc sz (h, k) = Inr (r, ?h, k')"
    using m(1) by (simp add: malloc_large [OF first assms(6)])
  moreover have "heap_same h ?h" using m(3) by (simp add: heap_same_def with_da_def reserve_def)
  moreover have "custom_fit (free_head h) ?brk ?p r" using fit by (auto simp: custom_fit_def)
  ultimately show ?thesis using m(2,4,5,7) n(1) new page_count_size [OF p]
    by (intro exI [of _ r] exI [of _ ?h] exI [of _ k'] exI [of _ n]) simp
qed


lemma area_start: "uh_wf h \<Longrightarrow> uheapPageAllocStart h \<noteq> 0 \<and> USER_HEAP_START \<le> uheapPageAllocStart h"
proof -
  assume "uh_wf h"
  then have "dynAllocStart (uh_da h) \<le> dynAllocEnd (uh_da h)" "dynAllocEnd (uh_da h) \<le> uheapPageAllocStart h" "dynAllocStart (uh_da h) = USER_HEAP_START"
    by (auto simp: uh_wf_def area_ok_def da_wf_def da_inv_def layout_ok_def)
  then have "USER_HEAP_START \<le> uheapPageAllocStart h" by (metis order_trans)
  then show ?thesis by auto
qed

lemma free_large:
  assumes "uh_ok h" and "uheapPageAllocStart h \<le> va" and "va < USER_HEAP_MAX"
  shows "free sc va (h, k) = free_pages sc va (h, k)"
proof -
  have "uh_wf h" "firstTimeFlag h = 0" using assms(1) by (simp_all add: uh_ok_def uh_wf_def area_ok_def)
  moreover from this(1) have "va \<noteq> 0" using area_start assms(2) by fastforce
  ultimately show ?thesis using assms(2,3) by (simp add: free_def uheap_init_started not_less [symmetric])
qed

lemma free_large_ok:
  assumes "serving sc ok" and "ok k" and "uh_ok h" and "spare h" and "uheapPageAllocStart h \<le> va" and "va < USER_HEAP_MAX"
    and Some: "find_allocation (ROUNDDOWN va PAGE_SIZE) h = Some n"
  shows "\<exists>h' k' xs ys. free sc va (h, k) = Inr (h', k') \<and> ok k' \<and> uh_ok h' \<and> heap_same h h'
        \<and> alloc_head h = xs @ n # ys \<and> alloc_head h' = xs @ ys
        \<and> free_pages_of (free_head h') = free_pages_of (free_head h) \<union> node_pages n
        \<and> used_pages_of (alloc_head h') = used_pages_of (alloc_head h) - node_pages n
        \<and> uheapPageAllocBreak h' = last_end (xs @ ys) (uheapPageAllocStart h)"
proof -
  have wf: "uh_wf h" and first: "firstTimeFlag h = 0" and sep: "separate (alloc_head h)"
    and dis: "used_pages_of (alloc_head h) \<inter> free_pages_of (free_head h) = {}"
    using assms(3) by (simp_all add: uh_ok_def uh_wf_def area_ok_def)
  have fr: "free sc va (h, k) = free_pages sc va (h, k)" using free_large [OF assms(3,5,6)] .
  have "n \<in> set (alloc_head h)" using Some by (auto simp: find_allocation_def find_Some_iff)
  then have "node_pages n \<inter> free_pages_of (free_head h) = {}" using dis by (auto simp: used_pages_node)
  then obtain xs ys d fs k' where r: "alloc_head h = xs @ n # ys"
    "free_pages sc va (h, k) = Inr ((with_da h d)\<lparr>alloc_head := xs @ ys, free_head := fs,
       uheapPageAllocBreak := last_end (xs @ ys) (uheapPageAllocStart h)\<rparr>, k')" "ok k'"
    "uh_wf ((with_da h d)\<lparr>alloc_head := xs @ ys, free_head := fs, uheapPageAllocBreak := last_end (xs @ ys) (uheapPageAllocStart h)\<rparr>)"
    "reserve h \<le> Suc (reserve (with_da h d))" "free_pages_of fs = free_pages_of (free_head h) \<union> node_pages n"
    using free_pages_ok [OF assms(1,2) wf assms(4) Some] by (auto simp: node_pages_def)
  let ?h = "(with_da h d)\<lparr>alloc_head := xs @ ys, free_head := fs, uheapPageAllocBreak := last_end (xs @ ys) (uheapPageAllocStart h)\<rparr>"
  have sx: "separate (xs @ ys)" and off: "node_pages n \<inter> used_pages_of (xs @ ys) = {}"
    using sep by (auto simp: r(1) separate_def sorted_wrt_append used_pages_node)
  have used: "used_pages_of (alloc_head h) = used_pages_of (xs @ ys) \<union> node_pages n"
    by (auto simp: r(1) node_pages_def)
  have ao: "\<forall>x \<in> set (xs @ ys). alloc_ok (unat (uheapPageAllocStart h)) x" "4096 dvd unat (uheapPageAllocStart h)"
    "unat (uheapPageAllocStart h) \<le> 0xA0000000"
    using wf by (auto simp: uh_wf_def r(1) word_le_nat_alt)
  have le: "4096 * q < unat (last_end (xs @ ys) (uheapPageAllocStart h))" if q: "q \<in> used_pages_of (xs @ ys)" for q
  proof -
    obtain x where x: "x \<in> set (xs @ ys)" "q \<in> chunk (Bedayet_eladd x) (an_size x div PAGE_SIZE)"
      using q by (auto simp: used_pages_of_def)
    then have "alloc_ok (unat (uheapPageAllocStart h)) x" using ao(1) by blast
    then have a: "4096 dvd unat (Bedayet_eladd x)" "4096 dvd unat (an_size x)" by (simp_all add: alloc_ok_def)
    have "4096 * q < unat (Bedayet_eladd x) + unat (an_size x)"
      using chunk_bound [OF a(1) x(2)] a(2) by (simp add: unat_div_distrib)
    then show ?thesis using last_end_spec [OF ao] x(1) by (meson less_le_trans)
  qed
  have "uh_ok ?h" using r(4,6) sx off used dis le by (auto simp: uh_ok_def)
  moreover have "heap_same h ?h" using r(5) by (simp add: heap_same_def with_da_def reserve_def)
  moreover have "used_pages_of (xs @ ys) = used_pages_of (alloc_head h) - node_pages n" using used off by blast
  ultimately show ?thesis unfolding fr r(2)
    using r(1,3,6) by (intro exI [of _ ?h] exI [of _ k'] exI [of _ xs] exI [of _ ys]) simp
qed

text \<open>Claim C4.  \<open>free\<close> of an address inside the first page of an allocation of pages gives exactly the pages of that
  allocation back: the free chunks cover them in addition to what they covered, the other allocations stay, no page is
  lost or in two places, and the break drops to the end of the highest remaining allocation.  An address of no
  allocation stops the process.\<close>

theorem user_free_spec:
  assumes "serving sc ok" and "ok k" and "uh_ok h" and "spare h" and "uheapPageAllocStart h \<le> va" and "va < USER_HEAP_MAX"
  shows "case find_allocation (ROUNDDOWN va PAGE_SIZE) h of
      None \<Rightarrow> free sc va (h, k) = Inl (Panic ''free: allocation not found'')
    | Some n \<Rightarrow> \<exists>h' k' xs ys. free sc va (h, k) = Inr (h', k') \<and> ok k' \<and> uh_ok h' \<and> heap_same h h'
        \<and> alloc_head h = xs @ n # ys \<and> alloc_head h' = xs @ ys
        \<and> free_pages_of (free_head h') = free_pages_of (free_head h) \<union> node_pages n
        \<and> used_pages_of (alloc_head h') = used_pages_of (alloc_head h) - node_pages n
        \<and> uheapPageAllocBreak h' = last_end (xs @ ys) (uheapPageAllocStart h)"
proof (cases "find_allocation (ROUNDDOWN va PAGE_SIZE) h")
  case None
  then show ?thesis by (simp add: free_large [OF assms(3,5,6)] free_pages_def Let_def)
next
  case (Some n)
  show ?thesis unfolding Some option.case by (rule free_large_ok [OF assms Some])
qed

text \<open>Claim C6.  \<open>MERGEE\<close> turns any list of disjoint free chunks into the one list of the same pages that is in the order of
  addresses with a gap after each chunk: nothing else has these properties and the same pages.\<close>

theorem merge_canonical:
  assumes "serving sc ok" and "ok k" and "uh_core h" and "sorted_wrt apart (free_head h)"
  shows "\<exists>h' k'. MERGEE sc (h, k) = Inr (h', k') \<and> ok k' \<and> uh_wf h' \<and> alloc_head h' = alloc_head h
    \<and> sorted_wrt before_gap (free_head h') \<and> free_pages_of (free_head h') = free_pages_of (free_head h)
    \<and> (\<forall>fs. sorted_wrt before_gap fs \<and> (\<forall>n \<in> set fs. free_ok (unat (uheapPageAllocStart h)) n)
         \<and> free_pages_of fs = free_pages_of (free_head h) \<longrightarrow> map extent fs = map extent (free_head h'))"
proof -
  obtain d gs k' where r: "MERGEE sc (h, k) = Inr ((with_da h d)\<lparr>free_head := gs\<rparr>, k')" "ok k'"
    "uh_wf ((with_da h d)\<lparr>free_head := gs\<rparr>)" "free_pages_of gs = free_pages_of (free_head h)" using MERGEE_ok [OF assms] by blast
  have g: "sorted_wrt before_gap gs" "\<forall>n \<in> set gs. free_ok (unat (uheapPageAllocStart h)) n" using r(3) by (simp_all add: uh_wf_def)
  let ?h = "(with_da h d)\<lparr>free_head := gs\<rparr>"
  have u: "\<forall>fs. sorted_wrt before_gap fs \<and> (\<forall>n \<in> set fs. free_ok (unat (uheapPageAllocStart h)) n)
      \<and> free_pages_of fs = free_pages_of (free_head h) \<longrightarrow> map extent fs = map extent (free_head ?h)"
  proof (intro allI impI, elim conjE)
    fix fs
    assume fs: "sorted_wrt before_gap fs" "\<forall>n \<in> set fs. free_ok (unat (uheapPageAllocStart h)) n"
      "free_pages_of fs = free_pages_of (free_head h)"
    have "map extent fs = map extent gs"
      by (rule gapped_unique [OF _ fs(1) g(1)]) (use fs(2,3) g(2) r(4) in auto)
    then show "map extent fs = map extent (free_head ?h)" by simp
  qed
  have "alloc_head ?h = alloc_head h" "sorted_wrt before_gap (free_head ?h)" "free_pages_of (free_head ?h) = free_pages_of (free_head h)"
    using g(1) r(4) by simp_all
  with r(1-3) u show ?thesis by blast
qed

section \<open>The start of the heap\<close>

text \<open>The first call of \<open>uheap_init\<close> sets up an empty heap with the page area one page above the 32 MB of the block
  allocator and all 8192 pages of the latter free; every later call changes nothing.\<close>

lemma uheap_init_spec:
  assumes "serving sc ok" and "ok k" and "firstTimeFlag h \<noteq> 0" and "alloc_head h = []" and "free_head h = []"
  shows "\<exists>h' k'. uheap_init sc (h, k) = Inr (h', k') \<and> ok k' \<and> uh_ok h' \<and> below_break h' \<and> alloc_head h' = [] \<and> free_head h' = []
    \<and> uheapPageAllocStart h' = 0x82001000 \<and> uheapPageAllocBreak h' = 0x82001000 \<and> reserve h' = 8192
    \<and> (\<forall>k2. uheap_init sc (h', k2) = Inr (h', k2))"
proof -
  have "layout_ok ((uh_da h)\<lparr>dynAllocStart := 0x80000000, dynAllocEnd := 0x82000000\<rparr>)" by (simp add: layout_ok_def)
  from initialize_ok [OF this] obtain d where d: "initialize_dynamic_allocator 0x80000000 0x82000000 (uh_da h) = Inr d" "da_wf d"
    "live d = {}" "dynAllocStart d = 0x80000000" "dynAllocEnd d = 0x82000000" "freePagesList d = [0..<npages d]" by auto
  obtain n k' where k': "sys_get_uheap_strategy sc k = Inr (n, k')" "ok k'" using assms(1,2) unfolding serving_def by blast
  define h' where "h' = h\<lparr>uh_da := d, uheapPlaceStrategy := n, uheapPageAllocStart := 0x82001000, uheapPageAllocBreak := 0x82001000, firstTimeFlag := 0\<rparr>"
  have r: "uheap_init sc (h, k) = Inr (h', k')" using assms(3) d(1,5) k'(1) by (simp add: uheap_init_def h'_def)
  have "npages d = 8192" by (simp add: npages_def d(4,5))
  then have res: "reserve h' = 8192" using d(6) by (simp add: reserve_def h'_def)
  have "uh_wf h'" using d(2-5) assms(4,5) by (simp add: uh_wf_def area_ok_def h'_def nodes_def)
  then have "uh_ok h'" using assms(4,5) by (simp add: uh_ok_def separate_def h'_def)
  moreover have "below_break h'" using assms(5) by (simp add: below_break_def h'_def)
  moreover have "uheap_init sc (h', k2) = Inr (h', k2)" for k2 by (simp add: uheap_init_started h'_def)
  ultimately show ?thesis using r res k'(2) assms(4,5)
    by (intro exI [of _ h'] exI [of _ k']) (simp add: h'_def)
qed

lemma malloc_nodes_step:
  assumes "serving sc ok" and "ok k" and "uh_wf h" and "spare h" and "\<not> too_big h sz" and "2048 < sz"
    and "\<forall>n \<in> set (free_head h). num_pages n < page_count sz"
  shows "\<exists>h' k' n. malloc sc sz (h, k) = Inr (uheapPageAllocBreak h, h', k') \<and> ok k' \<and> uh_wf h' \<and> reserve h \<le> Suc (reserve h')
    \<and> alloc_head h' = n # alloc_head h \<and> free_head h' = free_head h \<and> uheapPageAllocStart h' = uheapPageAllocStart h
    \<and> Bedayet_eladd n = uheapPageAllocBreak h \<and> an_size n = page_count sz * PAGE_SIZE"
proof -
  have "firstTimeFlag h = 0" using assms(3) by (simp add: uh_wf_def area_ok_def)
  note large = malloc_large [OF this assms(6), of sc k]
  have "\<not> (\<exists>n \<in> set (free_head h). page_count sz \<le> num_pages n)" using assms(7) by (auto simp: not_le)
  then show ?thesis using malloc_pages_ok [OF assms(1-5)] unfolding large
    by (elim exE conjE) (intro exI conjI, (simp add: reserve_def)+)
qed

lemma one_chunk:
  assumes "uh_wf h" and "free_pages_of (free_head h) = chunk a 1" and "4096 dvd unat a" and "uheapPageAllocStart h \<le> a"
    and "unat a + 4096 \<le> 0xA0000000"
  shows "\<exists>x. free_head h = [x] \<and> start_va x = a \<and> num_pages x = 1"
proof -
  let ?x = "\<lparr>fb_addr = 0, start_va = a, num_pages = 1\<rparr>"
  have "map extent (free_head h) = map extent [?x]"
    using assms by (intro gapped_unique [where lo = "unat (uheapPageAllocStart h)"])
      (auto simp: uh_wf_def free_ok_def word_le_nat_alt)
  then show ?thesis by (auto simp: extent_def)
qed

text \<open>Claim C5.  Pages are handed out twice: on a heap without allocations, \<open>malloc(4096)\<close>, \<open>free\<close> of the result,
  \<open>malloc(8192)\<close> and \<open>malloc(4096)\<close> succeed and return the same address three times, so the last two allocations share a
  page.  \<open>free\<close> lowers the break below the chunk that it puts into the free list; the next allocation takes the page at the
  break, and the one after it takes the same page from the free list.\<close>

theorem malloc_hands_out_a_page_twice:
  assumes "serving sc ok" and "ok k" and "uh_ok h" and "4 \<le> reserve h" and "alloc_head h = []" and "free_head h = []"
    and "uheapPageAllocBreak h = uheapPageAllocStart h" and "uheapPageAllocStart h \<le> USER_HEAP_MAX - 8192"
  shows "\<exists>p h1 k1 h2 k2 h3 k3 h4 k4. malloc sc 4096 (h, k) = Inr (p, h1, k1) \<and> free sc p (h1, k1) = Inr (h2, k2)
    \<and> malloc sc 8192 (h2, k2) = Inr (p, h3, k3) \<and> malloc sc 4096 (h3, k3) = Inr (p, h4, k4)"
proof -
  let ?s = "uheapPageAllocStart h"
  have wf: "uh_wf h" using assms(3) by (simp add: uh_ok_def)
  have al: "4096 dvd unat ?s" using wf by (simp add: uh_wf_def)
  have s: "unat ?s + 8192 \<le> 0xA0000000" using assms(8) by (simp add: word_le_nat_alt)
  have pc: "page_count 4096 = 1" "page_count 8192 = 2" by (simp_all add: page_count_def ROUNDUP_def ROUNDDOWN_def)
  have u: "unat (USER_HEAP_MAX - ?s) = 0xA0000000 - unat ?s" using s by (subst unat_u32_minus) (simp_all add: word_le_nat_alt)
  then have room: "\<not> (USER_HEAP_MAX - ?s) div PAGE_SIZE < 1" "\<not> (USER_HEAP_MAX - ?s) div PAGE_SIZE < 2"
    using s by (simp_all add: word_less_nat_alt unat_div_distrib)
  have e: "unat (?s + 4096) = unat ?s + 4096" "unat (?s + 8192) = unat ?s + 8192" using s by (simp_all add: unat_u32_plus)
  have fits: "\<not> USER_HEAP_MAX < ?s + 4096" "\<not> USER_HEAP_MAX < ?s + 8192" using s e by (simp_all add: word_less_nat_alt)
  have below: "below_break h" using assms(6) by (simp add: below_break_def)
  have "\<not> too_big h 4096" using room fits assms(6,7) by (simp add: too_big_def pc)
  then obtain p h1 k1 n1 where 1: "malloc sc 4096 (h, k) = Inr (p, h1, k1)" "ok k1" "uh_ok h1" "heap_same h h1" "alloc_head h1 = [n1]"
    "Bedayet_eladd n1 = p" "p = ?s" "free_pages_of (free_head h1) = {}" "4096 \<le> unat (an_size n1)" "unat (an_size n1) < 8192"
    using malloc_large_ok [OF assms(1-3) below, of 4096] assms(4-7) by (auto simp: custom_fit_def)
  have same1: "uheapPageAllocStart h1 = ?s" "3 \<le> reserve h1" using heap_sameD [OF 1(4)] assms(4) by auto
  have "alloc_ok (unat ?s) n1" using 1(3,5) same1(1) by (auto simp: uh_ok_def uh_wf_def)
  then have "an_size n1 = 4096" using 1(9,10) by (auto simp: alloc_ok_def word_unat_eq_iff)
  then have np: "node_pages n1 = chunk ?s 1" using 1(6,7) by (simp add: node_pages_def)
  have rd: "ROUNDDOWN p PAGE_SIZE = p" using al 1(7) by (intro ROUNDDOWN_idem) simp
  have "p < USER_HEAP_MAX" using s 1(7) by (simp add: word_less_nat_alt)
  moreover have "find_allocation (ROUNDDOWN p PAGE_SIZE) h1 = Some n1" using 1(5,6) rd by (simp add: find_allocation_def)
  ultimately obtain h2 k2 xs ys where 2: "free sc p (h1, k1) = Inr (h2, k2)" "ok k2" "uh_ok h2" "heap_same h1 h2"
    "alloc_head h1 = xs @ n1 # ys" "alloc_head h2 = xs @ ys" "free_pages_of (free_head h2) = node_pages n1"
    "uheapPageAllocBreak h2 = last_end (xs @ ys) ?s"
    using free_large_ok [OF assms(1) 1(2,3), of p n1] same1 1(7,8) by auto
  have same2: "uheapPageAllocStart h2 = ?s" "2 \<le> reserve h2" using heap_sameD [OF 2(4)] same1 by auto
  have "xs = [] \<and> ys = []" using 2(5) unfolding 1(5) by (cases xs) auto
  then have brk2: "uheapPageAllocBreak h2 = ?s" using 2(8) by simp
  have wf2: "uh_wf h2" using 2(3) by (simp add: uh_ok_def)
  obtain x where x: "free_head h2 = [x]" "start_va x = ?s" "num_pages x = 1"
    using one_chunk [OF wf2, of ?s] 2(7) np al same2(1) s by auto
  have "\<not> too_big h2 8192" using room fits brk2 same2(1) by (simp add: too_big_def pc)
  then obtain h3 k3 n3 where 3: "malloc sc 8192 (h2, k2) = Inr (?s, h3, k3)" "ok k3" "uh_wf h3" "reserve h2 \<le> Suc (reserve h3)"
    "free_head h3 = [x]" "uheapPageAllocStart h3 = ?s"
    using malloc_nodes_step [OF assms(1) 2(2) wf2, of 8192] same2 brk2 x by (auto simp: pc)
  have "spare h3" using 3(4) same2(2) by simp
  moreover have nb: "\<not> too_big h3 4096" using room 3(5,6) x(3) by (simp add: too_big_def pc)
  ultimately obtain h4 k4 where "malloc_pages sc 4096 (h3, k3) = Inr (?s, h4, k4)"
    using malloc_pages_ok [OF assms(1) 3(2,3) _ nb] 3(5) x by (auto simp: pc)
  moreover have "firstTimeFlag h3 = 0" using 3(3) by (simp add: uh_wf_def area_ok_def)
  ultimately have "malloc sc 4096 (h3, k3) = Inr (?s, h4, k4)" by (simp add: malloc_large)
  then show ?thesis using 1(1,7) 2(1) 3(1) by blast
qed

section \<open>The properties on a concrete heap\<close>

definition idle_kernel :: "unit syscalls" where
  "idle_kernel = \<lparr>sys_get_uheap_strategy = (\<lambda>k. Inr (5, k)), sys_allocate_page = (\<lambda>va p k. Inr (0, k)),
     sys_unmap_frame = (\<lambda>va k. Inr (0, k)), sys_allocate_user_mem = (\<lambda>va n k. Inr k), sys_free_user_mem = (\<lambda>va n k. Inr k),
     sys_create_shared_object = (\<lambda>name n w va k. Inr (0, k)), sys_size_of_shared_object = (\<lambda>id name k. Inr (0, k)),
     sys_get_shared_object = (\<lambda>id name va k. Inr (0, k)), sys_delete_shared_object = (\<lambda>id va k. Inr (0, k))\<rparr>"

definition boot_heap :: uheap where
  "boot_heap = \<lparr>firstTimeFlag = 1, uheapPageAllocStart = 0, uheapPageAllocBreak = 0, uheapPlaceStrategy = 0, alloc_head = [], free_head = [],
     uh_da = \<lparr>dynAllocStart = 0, dynAllocEnd = 0, pageBlockInfoArr = \<lambda>_. \<lparr>block_size = 0, num_of_free_blocks = 0\<rparr>, freePagesList = [],
       freeBlockLists = \<lambda>_. [], blockedVar = 0\<rparr>, stale = \<lambda>_. 0\<rparr>"

definition ready_heap :: uheap where
  "ready_heap = (case uheap_init idle_kernel (boot_heap, ()) of Inr (h, _) \<Rightarrow> h | Inl _ \<Rightarrow> boot_heap)"

lemma idle_serves: "serving idle_kernel (\<lambda>_. True)"
  by (simp add: serving_def idle_kernel_def)

lemma ready_heap:
  "uh_ok ready_heap \<and> below_break ready_heap \<and> alloc_head ready_heap = [] \<and> free_head ready_heap = []
     \<and> uheapPageAllocStart ready_heap = 0x82001000 \<and> uheapPageAllocBreak ready_heap = 0x82001000 \<and> reserve ready_heap = 8192"
proof -
  have "firstTimeFlag boot_heap \<noteq> 0" "alloc_head boot_heap = []" "free_head boot_heap = []" by (simp_all add: boot_heap_def)
  from uheap_init_spec [OF idle_serves TrueI this, of "()"] show ?thesis by (auto simp: ready_heap_def)
qed

lemma ready_fits: "\<not> too_big ready_heap 5000"
  using ready_heap by (simp add: too_big_def page_count_def ROUNDUP_def ROUNDDOWN_def)


theorem malloc_hands_out_a_page_twice_witness:
  "\<exists>p h1 h2 h3 h4. malloc idle_kernel 4096 (ready_heap, ()) = Inr (p, h1, ()) \<and> free idle_kernel p (h1, ()) = Inr (h2, ())
     \<and> malloc idle_kernel 8192 (h2, ()) = Inr (p, h3, ()) \<and> malloc idle_kernel 4096 (h3, ()) = Inr (p, h4, ())"
  using malloc_hands_out_a_page_twice [OF idle_serves TrueI, of ready_heap "()"] ready_heap by auto

theorem user_free_spec_witness:
  "\<exists>h n h'. malloc idle_kernel 5000 (ready_heap, ()) = Inr (0x82001000, h, ()) \<and> alloc_head h = [n]
     \<and> free idle_kernel 0x82001000 (h, ()) = Inr (h', ()) \<and> uh_ok h' \<and> alloc_head h' = [] \<and> free_pages_of (free_head h') = node_pages n"
proof -
  obtain h n where m: "malloc idle_kernel 5000 (ready_heap, ()) = Inr (0x82001000, h, ())" "uh_ok h" "heap_same ready_heap h" "alloc_head h = [n]"
    "Bedayet_eladd n = 0x82001000" "free_pages_of (free_head h) = {}"
    using malloc_large_ok [OF idle_serves TrueI _ _ _ _ ready_fits, where k = "()"] ready_heap by (auto simp: custom_fit_def)
  have s: "uheapPageAllocStart h = 0x82001000" "spare h" using heap_sameD [OF m(3)] ready_heap by auto
  have "find_allocation (ROUNDDOWN 0x82001000 PAGE_SIZE) h = Some n"
    using m(4,5) by (simp add: find_allocation_def ROUNDDOWN_def)
  with user_free_spec [OF idle_serves TrueI m(2) s(2), where va = "0x82001000" and k = "()"] s(1) m show ?thesis
    by (auto simp: append_eq_Cons_conv Cons_eq_append_conv)
qed


text \<open>A heap with two chunks, one right after the other, listed in the wrong order.\<close>

theorem merge_canonical_witness:
  "\<exists>h h' x y z. free_head h = [y, x] \<and> extent y = (0x82002000, 2) \<and> extent x = (0x82001000, 1)
     \<and> MERGEE idle_kernel (h, ()) = Inr (h', ()) \<and> free_head h' = [z] \<and> extent z = (0x82001000, 3)"
proof -
  let ?r = ready_heap
  have r: "area_ok ?r" "3 \<le> reserve ?r" using ready_heap by (simp_all add: uh_ok_def uh_wf_def)
  then have "spare ?r" by simp
  then obtain b d where b: "area_ok (with_da ?r d)" "b \<notin> live (uh_da ?r)" "live d = insert b (live (uh_da ?r))"
    "reserve ?r \<le> Suc (reserve (with_da ?r d))"
    using malloc_node_ok [OF idle_serves TrueI r(1), of 12 "()"] by auto
  have "spare (with_da ?r d)" using b(4) r(2) by simp
  then obtain c e where c: "area_ok (with_da ?r e)" "c \<notin> live d" "live e = insert c (live d)"
    using malloc_node_ok [OF idle_serves TrueI b(1), of 12 "()"] by auto
  define x where "x = \<lparr>fb_addr = b, start_va = 0x82001000, num_pages = 1\<rparr>"
  define y where "y = \<lparr>fb_addr = c, start_va = 0x82002000, num_pages = 2\<rparr>"
  let ?h = "(with_da ?r e)\<lparr>free_head := [y, x]\<rparr>"
  have "uh_core ?r" using ready_heap by (simp add: uh_ok_def uh_core_core)
  then have core: "uh_core ?h"
    using c b(2,3) ready_heap by (intro uh_core_free) (auto simp: x_def y_def free_ok_def)
  have ap: "sorted_wrt apart [y, x]" by (auto simp: apart_def chunk_def x_def y_def)
  let ?z = "\<lparr>fb_addr = b, start_va = 0x82001000, num_pages = 3\<rparr>"
  have pages: "free_pages_of [?z] = free_pages_of (free_head ?h)" by (auto simp: chunk_def x_def y_def)
  obtain h' where h': "MERGEE idle_kernel (?h, ()) = Inr (h', ())" "map extent [?z] = map extent (free_head h')"
    using merge_canonical [OF idle_serves TrueI core, of "()"] ap pages ready_heap
    by (auto dest!: spec [of _ "[?z]"] simp: free_ok_def)
  then show ?thesis
    by (intro exI [of _ ?h] exI [of _ h'] exI [of _ x] exI [of _ y] exI [of _ "hd (free_head h')"])
       (auto simp: extent_def x_def y_def)
qed

end
