(* ===== verification/FOS_Chunk.thy ===== *)
theory FOS_Chunk
  imports FOS_Replace
begin

text \<open>
  User memory: \<^verbatim>\<open>kern/mem/chunk_operations.c\<close>.  \<open>allocate_user_mem\<close> and \<open>free_user_mem\<close> are what the system
  calls of the user heap do in the kernel: they mark and unmark pages of the heap in the page tables.  The loops run
  over the pages between two page boundaries, so they have as many rounds as there are pages.  The kernel has its own
  copy of the variable \<open>uheapPageAllocStart\<close>, which only the user library sets; it stays 0 in the kernel.
\<close>

section \<open>State\<close>

record pchunk = pfault +
  kern_uheapPageAllocStart :: u32


section \<open>Marking pages\<close>

definition pages_between :: "u32 \<Rightarrow> u32 \<Rightarrow> nat" where
  "pages_between sva eva = (unat eva - unat sva) div 4096"

text \<open>The entry of a page that belongs to the heap; an absent page gets fresh permissions.\<close>

definition mark_entry :: "u32 \<Rightarrow> u32" where
  "mark_entry var = (if var AND PERM_PRESENT = 0 then PERM_USER OR PERM_WRITEABLE OR PERM_UHPAGE else var OR PERM_UHPAGE)"

text \<open>\<open>create_page_table\<close> returns a pointer, which is never negative, so the code does not skip the page.\<close>

definition mark_page :: "u32 \<Rightarrow> u32 \<Rightarrow> 'a pchunk_scheme \<Rightarrow> 'a pchunk_scheme res" where
  "mark_page dir va s =
     bindE (get_page_table dir va s) (\<lambda>(_, table, s1).
     if USER_HEAP_MAX < va \<or> va < kern_uheapPageAllocStart s1 then Inr s1
     else
       bindE (if table = 0 then
                bindE (kernel_create_page_table dir va s1) (\<lambda>(_, s2).
                bindE (get_page_table dir va s2) (\<lambda>(_, p, s3). Inr (p, s3)))
              else Inr (table, s1)) (\<lambda>(p, s4).
       if p = 0 then Inr s4
       else bindE (load p (PTX va) s4) (\<lambda>var. store p (PTX va) (mark_entry var) s4)))"

fun allocate_loop :: "nat \<Rightarrow> u32 \<Rightarrow> u32 \<Rightarrow> 'a pchunk_scheme \<Rightarrow> 'a pchunk_scheme res" where
  "allocate_loop 0 dir va s = Inr s"
| "allocate_loop (Suc n) dir va s = bindE (mark_page dir va s) (allocate_loop n dir (va + PAGE_SIZE))"

definition allocate_user_mem :: "nat \<Rightarrow> u32 \<Rightarrow> u32 \<Rightarrow> 'a pchunk_scheme \<Rightarrow> 'a pchunk_scheme res" where
  "allocate_user_mem e va sz s =
     (if va = 0 \<or> sz = 0 then Inr s
      else let sva = ROUNDDOWN va PAGE_SIZE; eva = ROUNDUP (va + sz) PAGE_SIZE
           in allocate_loop (pages_between sva eva) (env_page_directory (envs s e)) sva s)"

section \<open>Unmarking pages\<close>

text \<open>The page leaves the working set and the page file, then its entry loses the mark.  The table pointer is the one
  found before, and the code does not test it.\<close>

definition unmark_page :: "nat \<Rightarrow> u32 \<Rightarrow> 'a pchunk_scheme \<Rightarrow> 'a pchunk_scheme res" where
  "unmark_page e va s =
     bindE (get_page_table (env_page_directory (envs s e)) va s) (\<lambda>(_, table, s1).
     bindE (env_page_ws_invalidate e va s1) (\<lambda>s2.
     bindE (pf_remove_env_page e va s2) (\<lambda>s3.
     bindE (load table (PTX va) s3) (\<lambda>entry.
     store table (PTX va) (entry AND NOT PERM_UHPAGE) s3))))"

fun free_loop :: "nat \<Rightarrow> nat \<Rightarrow> u32 \<Rightarrow> 'a pchunk_scheme \<Rightarrow> 'a pchunk_scheme res" where
  "free_loop 0 e va s = Inr s"
| "free_loop (Suc n) e va s = bindE (unmark_page e va s) (free_loop n e (va + PAGE_SIZE))"

definition free_user_mem :: "nat \<Rightarrow> u32 \<Rightarrow> u32 \<Rightarrow> 'a pchunk_scheme \<Rightarrow> 'a pchunk_scheme res" where
  "free_user_mem e va sz s =
     (let sva = ROUNDDOWN va PAGE_SIZE; eva = ROUNDUP (va + sz) PAGE_SIZE in free_loop (pages_between sva eva) e sva s)"

section \<open>Operations that are left to students\<close>

definition cut_paste_pages :: "u32 \<Rightarrow> u32 \<Rightarrow> u32 \<Rightarrow> u32 \<Rightarrow> 'a kmem_scheme \<Rightarrow> (u32 \<times> 'a kmem_scheme) res" where
  "cut_paste_pages dir source_va dest_va num_of_pages s = Inl (Panic ''cut_paste_pages() is not implemented yet...!!'')"

definition copy_paste_chunk :: "u32 \<Rightarrow> u32 \<Rightarrow> u32 \<Rightarrow> u32 \<Rightarrow> 'a kmem_scheme \<Rightarrow> (u32 \<times> 'a kmem_scheme) res" where
  "copy_paste_chunk dir source_va dest_va sz s = Inl (Panic ''copy_paste_chunk() is not implemented yet...!!'')"

definition share_chunk :: "u32 \<Rightarrow> u32 \<Rightarrow> u32 \<Rightarrow> u32 \<Rightarrow> u32 \<Rightarrow> 'a kmem_scheme \<Rightarrow> (u32 \<times> 'a kmem_scheme) res" where
  "share_chunk dir source_va dest_va sz perms s = Inl (Panic ''share_chunk() is not implemented yet...!!'')"

definition allocate_chunk :: "u32 \<Rightarrow> u32 \<Rightarrow> u32 \<Rightarrow> u32 \<Rightarrow> 'a kmem_scheme \<Rightarrow> (u32 \<times> 'a kmem_scheme) res" where
  "allocate_chunk dir va sz perms s = Inl (Panic ''allocate_chunk() is not implemented yet...!!'')"

definition calculate_free_space :: "u32 \<Rightarrow> u32 \<Rightarrow> u32 \<Rightarrow> 'a kmem_scheme \<Rightarrow> (u32 \<times> 'a kmem_scheme) res" where
  "calculate_free_space dir sva eva s = Inl (Panic ''calculate_free_space() is not implemented yet...!!'')"

definition calculate_allocated_space :: "u32 \<Rightarrow> u32 \<Rightarrow> u32 \<Rightarrow> 'a kmem_scheme \<Rightarrow> (u32 \<times> u32 \<times> 'a kmem_scheme) res" where
  "calculate_allocated_space dir sva eva s = Inl (Panic ''calculate_allocated_space() is not implemented yet...!!'')"

definition calculate_required_frames :: "u32 \<Rightarrow> u32 \<Rightarrow> u32 \<Rightarrow> 'a kmem_scheme \<Rightarrow> (u32 \<times> 'a kmem_scheme) res" where
  "calculate_required_frames dir sva sz s = Inl (Panic ''calculate_required_frames() is not implemented yet...!!'')"

definition sys_sbrk :: "int \<Rightarrow> 'a kmem_scheme \<Rightarrow> (u32 \<times> 'a kmem_scheme) res" where
  "sys_sbrk numOfPages s = Inl (Panic ''not implemented function'')"

definition free_user_mem_with_buffering :: "nat \<Rightarrow> u32 \<Rightarrow> u32 \<Rightarrow> 'a pchunk_scheme \<Rightarrow> 'a pchunk_scheme res" where
  "free_user_mem_with_buffering e va sz s = Inl (Panic ''__free_user_mem_with_buffering() is not implemented yet...!!'')"

definition move_user_mem :: "nat \<Rightarrow> u32 \<Rightarrow> u32 \<Rightarrow> u32 \<Rightarrow> 'a pchunk_scheme \<Rightarrow> 'a pchunk_scheme res" where
  "move_user_mem e src_va dst_va sz s = Inl (Panic ''move_user_mem() is not implemented yet...!!'')"

section \<open>The pages of a range\<close>

definition page_no :: "u32 \<Rightarrow> nat \<Rightarrow> u32" where "page_no va i = va + word_of_nat (4096 * i)"

lemma page_no_simps [simp]: "page_no va 0 = va" "page_no (va + 4096) i = page_no va (Suc i)"
  by (simp_all add: page_no_def algebra_simps)

text \<open>Every page of the range has a page table, and the entries of different pages are different words.\<close>

definition tables_for :: "(nat \<Rightarrow> u32) \<Rightarrow> nat \<Rightarrow> u32 \<Rightarrow> u32 \<Rightarrow> 'a kmem_scheme \<Rightarrow> bool" where
  "tables_for tab n dir va s \<longleftrightarrow> (\<forall>i < n. table_ok s dir (page_no va i) (tab i) \<and> tab i \<noteq> dir)
     \<and> inj_on (\<lambda>i. (tab i, unat (PTX (page_no va i)))) {..<n}"

definition slot :: "(nat \<Rightarrow> u32) \<Rightarrow> u32 \<Rightarrow> 'a kmem_scheme \<Rightarrow> nat \<Rightarrow> u32" where
  "slot tab va s i = mem s (tab i) (unat (PTX (page_no va i)))"

text \<open>The state after \<open>f\<close> has been applied to the entries of the first \<open>n\<close> pages.\<close>

definition entry_places :: "nat \<Rightarrow> (nat \<Rightarrow> u32) \<Rightarrow> u32 \<Rightarrow> (u32 \<times> nat) set" where
  "entry_places n tab va = (\<lambda>i. (tab i, unat (PTX (page_no va i)))) ` {..<n}"

definition on_entries :: "(u32 \<Rightarrow> u32) \<Rightarrow> nat \<Rightarrow> (nat \<Rightarrow> u32) \<Rightarrow> u32 \<Rightarrow> 'a kmem_scheme \<Rightarrow> 'a kmem_scheme" where
  "on_entries f n tab va s =
     s\<lparr>mem := \<lambda>p j. if (p, j) \<in> entry_places n tab va then f (mem s p j) else mem s p j\<rparr>"

lemma entry_places_Suc:
  "entry_places (Suc n) tab va = insert (tab 0, unat (PTX va)) (entry_places n (\<lambda>i. tab (Suc i)) (va + 4096))"
  by (simp add: entry_places_def lessThan_Suc_eq_insert_0 image_image)

lemma set_entry_same: "v = mem s p i \<Longrightarrow> set_entry p i v s = s"
  by (simp add: set_entry_def)

lemma on_entries_0: "on_entries f 0 tab va s = s"
  by (simp add: on_entries_def entry_places_def)

lemma tables_for_step:
  assumes "tables_for tab (Suc n) dir va s"
  shows "table_ok s dir va (tab 0)" and "tab 0 \<noteq> dir"
    and "tables_for (\<lambda>i. tab (Suc i)) n dir (va + 4096) (set_entry (tab 0) j v s)"
    and "(tab 0, unat (PTX va)) \<notin> entry_places n (\<lambda>i. tab (Suc i)) (va + 4096)"
proof -
  show "table_ok s dir va (tab 0)" "tab 0 \<noteq> dir" using assms unfolding tables_for_def by (auto dest: spec [of _ 0])
  have "inj_on (\<lambda>i. (tab (Suc i), unat (PTX (page_no va (Suc i))))) {..<n}"
    using assms unfolding tables_for_def inj_on_def by auto
  then show "tables_for (\<lambda>i. tab (Suc i)) n dir (va + 4096) (set_entry (tab 0) j v s)"
    using assms \<open>tab 0 \<noteq> dir\<close> by (auto simp: tables_for_def intro!: table_ok_set_entry)
  have "(tab 0, unat (PTX (page_no va 0))) \<noteq> (tab (Suc i), unat (PTX (page_no va (Suc i))))" if "i < n" for i
    using assms that unfolding tables_for_def inj_on_def by (metis lessThan_iff Suc_less_eq zero_less_Suc old.nat.distinct(1))
  then show "(tab 0, unat (PTX va)) \<notin> entry_places n (\<lambda>i. tab (Suc i)) (va + 4096)"
    by (auto simp: entry_places_def)
qed

lemma on_entries_Suc:
  assumes "(tab 0, unat (PTX va)) \<notin> entry_places n (\<lambda>i. tab (Suc i)) (va + 4096)"
  shows "on_entries f n (\<lambda>i. tab (Suc i)) (va + 4096) (set_entry (tab 0) (unat (PTX va)) (f (mem s (tab 0) (unat (PTX va)))) s)
    = on_entries f (Suc n) tab va s"
  using assms by (auto simp: on_entries_def set_entry_def entry_places_Suc fun_eq_iff)

lemma page_range:
  assumes "unat va + 4096 * n \<le> 4294967296" and "i < n"
  shows "unat (page_no va i) = unat va + 4096 * i"
proof -
  have "4096 * i < 4294967296" using assms by simp
  then have o: "unat (word_of_nat (4096 * i) :: u32) = 4096 * i" by (intro unat_of_nat_u32) simp
  have "unat va + unat (word_of_nat (4096 * i) :: u32) < 4294967296" unfolding o using assms by simp
  then have "unat (va + word_of_nat (4096 * i)) = unat va + unat (word_of_nat (4096 * i) :: u32)" by (rule unat_u32_plus)
  then show ?thesis unfolding page_no_def o .
qed

lemma mark_page_ok:
  assumes "table_ok s dir va p" and "va \<le> USER_HEAP_MAX" and "kern_uheapPageAllocStart s \<le> va"
  shows "mark_page dir va s = Inr (set_entry p (unat (PTX va)) (mark_entry (mem s p (unat (PTX va)))) s)"
proof -
  have "p \<noteq> 0" using assms(1) by (simp add: table_ok_def)
  then show ?thesis using assms(2,3)
    by (simp add: mark_page_def get_page_table_ok [OF assms(1)] load_def store_set_entry not_less)
qed

lemma kern_start_entry [simp]: "kern_uheapPageAllocStart (set_entry p i v s) = kern_uheapPageAllocStart s"
  by (simp add: set_entry_def)

lemma allocate_loop_ok:
  assumes "tables_for tab n dir va s" and "unat va + 4096 * n \<le> 0xA0000000" and "kern_uheapPageAllocStart s \<le> va"
  shows "allocate_loop n dir va s = Inr (on_entries mark_entry n tab va s)"
  using assms
proof (induction n arbitrary: tab va s)
  case 0
  then show ?case by (simp add: on_entries_0)
next
  case (Suc n)
  note st = tables_for_step [OF Suc.prems(1)]
  have le: "va \<le> USER_HEAP_MAX" using Suc.prems(2) by (simp add: word_le_nat_alt)
  have u: "unat (va + 4096) = unat va + 4096" using Suc.prems(2) by (intro unat_u32_plus [of va 4096, simplified]) simp
  have "allocate_loop n dir (va + 4096) (set_entry (tab 0) (unat (PTX va)) (mark_entry (mem s (tab 0) (unat (PTX va)))) s)
      = Inr (on_entries mark_entry n (\<lambda>i. tab (Suc i)) (va + 4096)
              (set_entry (tab 0) (unat (PTX va)) (mark_entry (mem s (tab 0) (unat (PTX va)))) s))"
    using Suc.prems(2,3) u by (intro Suc.IH st(3)) (simp_all add: word_le_nat_alt)
  then show ?case
    by (simp add: mark_page_ok [OF st(1) le Suc.prems(3)] on_entries_Suc [OF st(4)])
qed

lemma page_bounds:
  assumes "0 < sz" and "unat va + unat sz \<le> 0xA0000000"
  shows "unat (ROUNDDOWN va PAGE_SIZE) + 4096 * pages_between (ROUNDDOWN va PAGE_SIZE) (ROUNDUP (va + sz) PAGE_SIZE) \<le> 0xA0000000"
    and "unat va + unat sz \<le> unat (ROUNDDOWN va PAGE_SIZE) + 4096 * pages_between (ROUNDDOWN va PAGE_SIZE) (ROUNDUP (va + sz) PAGE_SIZE)"
proof -
  have s: "unat (va + sz) = unat va + unat sz" using assms(2) by (intro unat_u32_plus) simp
  have d: "unat (ROUNDDOWN va PAGE_SIZE) = 4096 * (unat va div 4096)" by (simp add: unat_ROUNDDOWN')
  have u: "unat (ROUNDUP (va + sz) PAGE_SIZE) = 4096 * ((unat va + unat sz + 4095) div 4096)"
    using assms(2) s by (subst unat_ROUNDUP) simp_all
  show "unat (ROUNDDOWN va PAGE_SIZE) + 4096 * pages_between (ROUNDDOWN va PAGE_SIZE) (ROUNDUP (va + sz) PAGE_SIZE) \<le> 0xA0000000"
    "unat va + unat sz \<le> unat (ROUNDDOWN va PAGE_SIZE) + 4096 * pages_between (ROUNDDOWN va PAGE_SIZE) (ROUNDUP (va + sz) PAGE_SIZE)"
    using assms(2) by (simp_all add: pages_between_def d u)
qed

section \<open>What the fault handler makes of the marks\<close>

lemma same_page_entry:
  assumes "unat a div 4096 = unat b div 4096"
  shows "PDX a = PDX b" and "PTX a = PTX b"
  using assms by (simp_all add: word_unat_eq_iff unat_PDX unat_PTX)

lemma table_ok_same_page:
  assumes "table_ok s dir b p" and "unat a div 4096 = unat b div 4096" and "a < USER_TOP" and "b < USER_TOP"
  shows "table_ok s dir a p"
  using assms same_page_entry [OF assms(2)]
  by (auto simp: table_ok_def CHECK_IF_KERNEL_ADDRESS_def not_le [symmetric] Let_def)

text \<open>A user access to a heap page is refused when the page is not marked, or when it writes to a page that is present
  and read-only.\<close>

lemma invalid_access_heap:
  assumes "table_ok s (env_page_directory (envs s e)) a p" and "USER_HEAP_START \<le> a" and "a < USER_HEAP_MAX"
  shows "invalid_access tf e a s =
    (let v = mem s p (unat (PTX a)) in
     Inr (v AND PERM_UHPAGE = 0 \<or> (tf_err tf AND FEC_WR \<noteq> 0 \<and> v AND PERM_PRESENT \<noteq> 0 \<and> v AND PERM_WRITEABLE = 0), s))"
proof -
  have "\<not> USER_TOP \<le> a" "\<not> a < UTEXT" using assms(2,3) by (simp_all add: word_le_nat_alt word_less_nat_alt)
  then show ?thesis using assms(2,3)
    by (simp add: invalid_access_def pt_get_page_permissions_ok [OF assms(1)] Let_def)
qed

lemma page_index:
  assumes "unat sva mod 4096 = 0" and "sva \<le> a" and "unat a < unat sva + 4096 * n"
  shows "(unat a - unat sva) div 4096 < n"
    and "unat sva + 4096 * n \<le> 4294967296 \<Longrightarrow> unat a div 4096 = unat (page_no sva ((unat a - unat sva) div 4096)) div 4096"
proof -
  obtain q where q: "unat sva = 4096 * q" using assms(1) by (metis dvd_eq_mod_eq_0 dvdE)
  have "4096 * q \<le> unat a" using assms(2) q by (simp add: word_le_nat_alt)
  then obtain d where d: "unat a = 4096 * q + d" using le_Suc_ex by blast
  show lt: "(unat a - unat sva) div 4096 < n" using assms(3) d q by (simp add: less_mult_imp_div_less mult.commute)
  show "unat a div 4096 = unat (page_no sva ((unat a - unat sva) div 4096)) div 4096" if "unat sva + 4096 * n \<le> 4294967296"
    unfolding page_range [OF that lt] using d q by simp
qed

definition heap_range :: "u32 \<Rightarrow> u32 \<Rightarrow> bool" where
  "heap_range va sz \<longleftrightarrow> 0 < sz \<and> USER_HEAP_START \<le> va \<and> unat va + unat sz \<le> unat USER_HEAP_MAX"

definition first_page :: "u32 \<Rightarrow> u32" where "first_page va = ROUNDDOWN va PAGE_SIZE"

definition page_span :: "u32 \<Rightarrow> u32 \<Rightarrow> nat" where
  "page_span va sz = pages_between (ROUNDDOWN va PAGE_SIZE) (ROUNDUP (va + sz) PAGE_SIZE)"

lemma heap_range_facts:
  assumes "heap_range va sz"
  shows "unat (first_page va) + 4096 * page_span va sz \<le> 0xA0000000"
    and "unat va + unat sz \<le> unat (first_page va) + 4096 * page_span va sz"
    and "unat (first_page va) mod 4096 = 0" and "first_page va \<le> va" and "USER_HEAP_START \<le> first_page va" and "va \<noteq> 0" and "sz \<noteq> 0"
proof -
  have "0 < sz" "unat va + unat sz \<le> 0xA0000000" using assms by (simp_all add: heap_range_def)
  from page_bounds [OF this] show "unat (first_page va) + 4096 * page_span va sz \<le> 0xA0000000"
    "unat va + unat sz \<le> unat (first_page va) + 4096 * page_span va sz" by (simp_all add: first_page_def page_span_def)
  show "unat (first_page va) mod 4096 = 0" by (simp add: first_page_def unat_ROUNDDOWN')
  show "first_page va \<le> va" by (simp add: first_page_def ROUNDDOWN_le)
  have "2147483648 \<le> unat va" using assms by (simp add: heap_range_def word_le_nat_alt)
  then have "524288 \<le> unat va div 4096" using div_le_mono [of 2147483648 "unat va" 4096] by simp
  then show "USER_HEAP_START \<le> first_page va" by (simp add: first_page_def word_le_nat_alt unat_ROUNDDOWN')
  show "va \<noteq> 0" "sz \<noteq> 0" using assms by (auto simp: heap_range_def)
qed

text \<open>The entry of the page of an address.\<close>

definition table_at :: "(nat \<Rightarrow> u32) \<Rightarrow> u32 \<Rightarrow> u32 \<Rightarrow> u32" where
  "table_at tab va a = tab ((unat a - unat (first_page va)) div 4096)"

definition entry_at :: "(nat \<Rightarrow> u32) \<Rightarrow> u32 \<Rightarrow> u32 \<Rightarrow> 'a kmem_scheme \<Rightarrow> u32" where
  "entry_at tab va a s = mem s (table_at tab va a) (unat (PTX a))"

lemma in_range_page:
  assumes "heap_range va sz" and "va \<le> a" and "unat a < unat va + unat sz"
    and "tables_for tab (page_span va sz) dir (first_page va) s"
  shows "table_ok s dir a (table_at tab va a)" and "table_at tab va a \<noteq> dir"
    and "(table_at tab va a, unat (PTX a)) \<in> entry_places (page_span va sz) tab (first_page va)"
    and "USER_HEAP_START \<le> a" and "a < USER_HEAP_MAX"
proof -
  note h = heap_range_facts [OF assms(1)]
  have a: "first_page va \<le> a" "unat a < unat (first_page va) + 4096 * page_span va sz"
    using h(2,4) assms(2,3) by auto
  define i where "i = (unat a - unat (first_page va)) div 4096"
  have i: "i < page_span va sz" "unat a div 4096 = unat (page_no (first_page va) i) div 4096"
    using page_index [OF h(3) a] h(1) by (simp_all add: i_def)
  show r: "USER_HEAP_START \<le> a" "a < USER_HEAP_MAX" using h(5) a h(1) by (simp_all add: word_le_nat_alt word_less_nat_alt)
  have u: "unat (page_no (first_page va) i) < 0xA0000000"
    using page_range [OF _ i(1), of "first_page va"] h(1) i(1) by simp
  have ti: "table_ok s dir (page_no (first_page va) i) (tab i)" "tab i \<noteq> dir" using assms(4) i(1) by (simp_all add: tables_for_def)
  show "table_ok s dir a (table_at tab va a)" unfolding table_at_def i_def [symmetric]
    using r(2) u by (intro table_ok_same_page [OF ti(1) i(2)]) (simp_all add: word_less_nat_alt)
  show "table_at tab va a \<noteq> dir" unfolding table_at_def i_def [symmetric] by (rule ti(2))
  show "(table_at tab va a, unat (PTX a)) \<in> entry_places (page_span va sz) tab (first_page va)"
    unfolding table_at_def i_def [symmetric] entry_places_def using i(1) same_page_entry(2) [OF i(2)] by auto
qed

lemma on_entries_facts:
  shows "(p, j) \<in> entry_places n tab va \<Longrightarrow> mem (on_entries f n tab va s) p j = f (mem s p j)"
    and "(p, j) \<notin> entry_places n tab va \<Longrightarrow> mem (on_entries f n tab va s) p j = mem s p j"
    and "envs (on_entries f n tab va s') = envs s'"
  by (simp_all add: on_entries_def)

lemma table_ok_on_entries:
  assumes "table_ok s dir va p" and "dir \<notin> fst ` entry_places n tab v"
  shows "table_ok (on_entries f n tab v s) dir va p"
proof -
  have "mem (on_entries f n tab v s) dir = mem s dir" using assms(2) by (force simp: on_entries_def fun_eq_iff)
  then show ?thesis using assms(1)
    by (auto simp: table_ok_def Let_def heap_va_of_def heap_calm_def calm_def on_entries_def)
qed

lemma tables_for_dir: "tables_for tab n dir va s \<Longrightarrow> dir \<notin> fst ` entry_places n tab va"
  by (auto simp: tables_for_def entry_places_def)

text \<open>Claim C34.  What \<open>malloc\<close> asks the kernel for is what the fault handler later allows: after
  \<open>allocate_user_mem\<close> the entries of exactly the pages of the range carry the mark of the heap (a present page keeps its
  frame and permissions, an absent one becomes writable for the user), and the fault handler accepts a read or a write at
  every address of the range whose page was absent.\<close>

theorem allocated_memory_is_accessible:
  assumes "heap_range va sz" and "kern_uheapPageAllocStart s \<le> USER_HEAP_START"
    and "tables_for tab (page_span va sz) (env_page_directory (envs s e)) (first_page va) s"
  shows "\<exists>t. allocate_user_mem e va sz s = Inr t
    \<and> (\<forall>p j. mem t p j = (if (p, j) \<in> entry_places (page_span va sz) tab (first_page va) then mark_entry (mem s p j) else mem s p j))
    \<and> (\<forall>a tf. va \<le> a \<and> unat a < unat va + unat sz \<and> entry_at tab va a s AND PERM_PRESENT = 0 \<longrightarrow>
         invalid_access tf e a t = Inr (False, t))"
proof -
  let ?n = "page_span va sz" and ?v = "first_page va" and ?dir = "env_page_directory (envs s e)"
  let ?t = "on_entries mark_entry ?n tab ?v s"
  note h = heap_range_facts [OF assms(1)]
  have start: "kern_uheapPageAllocStart s \<le> ?v" using assms(2) h(5) by (rule order_trans)
  have "allocate_user_mem e va sz s = Inr ?t"
    using allocate_loop_ok [OF assms(3) h(1) start] h(6,7)
    by (simp add: allocate_user_mem_def Let_def first_page_def page_span_def)
  moreover have "invalid_access tf e a ?t = Inr (False, ?t)"
    if a: "va \<le> a" "unat a < unat va + unat sz" and np: "entry_at tab va a s AND PERM_PRESENT = 0" for a tf
  proof -
    note ip = in_range_page [OF assms(1) a assms(3)]
    have "table_ok ?t ?dir a (table_at tab va a)"
      by (rule table_ok_on_entries [OF ip(1) tables_for_dir [OF assms(3)]])
    then have "table_ok ?t (env_page_directory (envs ?t e)) a (table_at tab va a)" by (simp add: on_entries_facts(3))
    from invalid_access_heap [OF this ip(4,5), of tf]
    show ?thesis using on_entries_facts(1) [OF ip(3), of mark_entry s] np
      by (simp add: mark_entry_def entry_at_def Let_def)
  qed
  ultimately show ?thesis by (intro exI [of _ ?t]) (auto simp: on_entries_def)
qed

section \<open>Giving memory back\<close>

text \<open>A page that was never brought in: it is in no working set and its page of the disk directory does not exist.\<close>

definition untouched :: "nat \<Rightarrow> u32 \<Rightarrow> 'a pchunk_scheme \<Rightarrow> bool" where
  "untouched e va s \<longleftrightarrow> PageRepAlgoType s \<noteq> PG_REP_LRU_LISTS_APPROX \<and> ws_find va (page_WS_list (envs s e)) s = None
     \<and> disk_env_pgdir (envs s e) \<noteq> 0 \<and> mem s (disk_env_pgdir (envs s e)) (unat (PDX va)) = 0"


lemma untouched_removed:
  assumes "untouched e va s" and "heap_calm s" and "0 < number_of_frames s" and "va < USER_TOP"
  shows "env_page_ws_invalidate e va s = Inr s" and "pf_remove_env_page e va s = Inr s"
proof -
  show "env_page_ws_invalidate e va s = Inr s"
    using assms(1) by (simp add: untouched_def env_page_ws_invalidate_def isPageReplacmentAlgorithmLRU_def Let_def)
  have "PPN (EXTRACT_ADDRESS 0) < number_of_frames s" using assms(3) by (simp add: PPN_def EXTRACT_ADDRESS_def)
  then have "table_pointer va 0 s = Inr (heap_va_of s (EXTRACT_ADDRESS 0), s)"
    using assms(2,4) by (simp add: table_pointer_def CHECK_IF_KERNEL_ADDRESS_def not_le [symmetric] kheap_virtual_address_calm)
  then show "pf_remove_env_page e va s = Inr s"
    using assms(1) by (simp add: untouched_def pf_remove_env_page_def get_disk_page_table_def load_def)
qed






text \<open>\<open>free_user_mem\<close> does not test whether a page has a page table: for an untouched address whose directory
  entry is empty the kernel follows a null pointer.\<close>

theorem free_user_mem_without_table_faults:
  assumes "heap_range va sz" and "heap_calm s" and "0 < number_of_frames s"
    and "env_page_directory (envs s e) \<noteq> 0" and "mem s (env_page_directory (envs s e)) (unat (PDX va)) = 0"
    and "untouched e (first_page va) s"
  shows "free_user_mem e va sz s = Inl Fault"
proof -
  let ?v = "first_page va"
  note h = heap_range_facts [OF assms(1)]
  have "unat ?v < unat ?v + 4096 * page_span va sz" using h(2,4) assms(1) by (auto simp: heap_range_def word_le_nat_alt word_less_nat_alt)
  then obtain n where n: "page_span va sz = Suc n" by (cases "page_span va sz") simp_all
  have "unat ?v div 4096 = unat va div 4096" by (simp add: first_page_def unat_ROUNDDOWN')
  then have "PDX ?v = PDX va" by (rule same_page_entry)
  then have none: "get_page_table (env_page_directory (envs s e)) ?v s = Inr (TABLE_NOT_EXIST, 0, s)"
    using assms(4,5) by (intro get_page_table_none) simp_all
  have "unat ?v < 0xA0000000" using h(1) n by simp
  then have top: "?v < USER_TOP" by (simp add: word_less_nat_alt)
  have "unmark_page e ?v s = Inl Fault"
    by (simp add: unmark_page_def none untouched_removed [OF assms(6,2,3) top] load_def)
  then show ?thesis using n by (simp add: free_user_mem_def Let_def first_page_def page_span_def)
qed

section \<open>The properties on a small example\<close>

text \<open>Environment 2 has one page table, for the first pages of its page heap.\<close>

definition chunk_example :: "u32 list \<Rightarrow> pchunk" where
  "chunk_example ents = pfault.extend (pf_example (\<lambda>_. 0)) (pchunk.fields 0)
     \<lparr>frames_info := (\<lambda>f. if f = 1000 then null_frame_info\<lparr>fi_va := 0xF6004000\<rparr> else null_frame_info),
      mem := (\<lambda>p i. if p = 0xF6003000 \<and> i = 520 then 0x3E8001 else if p = 0xF6004000 \<and> i < length ents then ents ! i else 0),
      envs := (ex_envs 0)(2 := (ex_envs 0 2)\<lparr>page_WS_list := [], env_page_directory := 0xF6003000, disk_env_pgdir := 0xF6005000\<rparr>)\<rparr>"

lemma chunk_example_fields [simp]:
  "env_page_directory (envs (chunk_example es) 2) = 0xF6003000" "page_WS_list (envs (chunk_example es) 2) = []"
  "disk_env_pgdir (envs (chunk_example es) 2) = 0xF6005000" "kern_uheapPageAllocStart (chunk_example es) = 0"
  "number_of_frames (chunk_example es) = 4096" "PageRepAlgoType (chunk_example es) = 3"
  "mem (chunk_example es) p i = (if p = 0xF6003000 \<and> i = 520 then 0x3E8001 else if p = 0xF6004000 \<and> i < length es then es ! i else 0)"
  by (simp_all add: chunk_example_def pf_example_def rr_example_def sched_example_def kheap.defs psched.defs pfile.defs pfault.defs pchunk.defs heap_example_def)

lemma chunk_example_calm: "heap_calm (chunk_example es)"
  using heap_example_calm
  by (simp add: heap_calm_def calm_def chunk_example_def pf_example_def rr_example_def sched_example_def kheap.defs psched.defs pfile.defs pfault.defs pchunk.defs)

lemma chunk_example_tables: "tables_for (\<lambda>_. 0xF6004000) 2 0xF6003000 0x82001000 (chunk_example es)"
proof -
  have "table_ok (chunk_example es) 0xF6003000 va 0xF6004000" if "va = 0x82001000 \<or> va = 0x82002000" for va
  proof -
    have "unat (PDX va) = 520" "\<not> CHECK_IF_KERNEL_ADDRESS va" using that by (auto simp: unat_PDX CHECK_IF_KERNEL_ADDRESS_def)
    moreover have "PPN (0x3E8000 :: u32) = 1000" by (simp add: PPN_def)
    ultimately show ?thesis using chunk_example_calm [of es]
      by (simp add: table_ok_def present_def EXTRACT_ADDRESS_def heap_va_of_def)
        (simp add: chunk_example_def pf_example_def rr_example_def sched_example_def kheap.defs psched.defs pfile.defs pfault.defs pchunk.defs)
  qed
  moreover have "page_no 0x82001000 1 = 0x82002000" by (simp add: page_no_def)
  moreover have i2: "i = 0 \<or> i = 1" if "i < 2" for i :: nat using that by linarith
  ultimately show ?thesis unfolding tables_for_def inj_on_def using i2 by (fastforce simp: unat_PTX)
qed

lemma chunk_example_range: "heap_range 0x82001000 5000" "first_page 0x82001000 = 0x82001000" "page_span 0x82001000 5000 = 2"
  by (simp_all add: heap_range_def first_page_def page_span_def pages_between_def ROUNDUP_def ROUNDDOWN_def)

theorem allocated_memory_is_accessible_witness:
  "\<exists>t. allocate_user_mem 2 0x82001000 5000 (chunk_example []) = Inr t \<and> mem t 0xF6004000 2 = 0x406
     \<and> invalid_access \<lparr>tf_err = FEC_WR, tf_eip = 0, tf_cs = 3\<rparr> 2 0x82002004 t = Inr (False, t)"
proof -
  let ?s = "chunk_example []"
  obtain t where t: "allocate_user_mem 2 0x82001000 5000 ?s = Inr t"
    "\<And>p j. mem t p j = (if (p, j) \<in> entry_places 2 (\<lambda>_. 0xF6004000) 0x82001000 then mark_entry (mem ?s p j) else mem ?s p j)"
    "\<And>a tf. \<lbrakk>0x82001000 \<le> a; unat a < 2181047176; entry_at (\<lambda>_. 0xF6004000) 0x82001000 a ?s AND PERM_PRESENT = 0\<rbrakk>
       \<Longrightarrow> invalid_access tf 2 a t = Inr (False, t)"
    using allocated_memory_is_accessible [OF chunk_example_range(1), of ?s "\<lambda>_. 0xF6004000" 2] chunk_example_tables [of "[]"]
    by (auto simp: chunk_example_range)
  have "(0xF6004000, 2) \<in> entry_places 2 (\<lambda>_. 0xF6004000) 0x82001000"
    by (auto simp: entry_places_def page_no_def unat_PTX intro!: image_eqI [of _ _ 1])
  then have "mem t 0xF6004000 2 = 0x406" by (simp add: t(2) mark_entry_def)
  moreover have "invalid_access \<lparr>tf_err = FEC_WR, tf_eip = 0, tf_cs = 3\<rparr> 2 0x82002004 t = Inr (False, t)"
    by (rule t(3)) (simp_all add: entry_at_def table_at_def)
  ultimately show ?thesis using t(1) by blast
qed


theorem free_user_mem_without_table_faults_witness: "free_user_mem 2 0x90000000 4096 (chunk_example []) = Inl Fault"
proof (rule free_user_mem_without_table_faults)
  show "heap_range 0x90000000 4096" by (simp add: heap_range_def)
  show "mem (chunk_example []) (env_page_directory (envs (chunk_example []) 2)) (unat (PDX 0x90000000)) = 0" by (simp add: unat_PDX)
  show "untouched 2 (first_page 0x90000000) (chunk_example [])" by (simp add: untouched_def ws_find_def)
qed (simp_all add: chunk_example_calm)

end
