(* ===== verification/FOS_Share.thy ===== *)
theory FOS_Share
  imports FOS_Chunk
begin

text \<open>
  Shared memory: \<^verbatim>\<open>kern/mem/shared_memory_manager.c\<close>.  A share object is named by its heap address
  and lives in \<open>shr_at\<close>; its array of frame pointers lives in \<open>storage_at\<close> at its own heap address.  The name of a share is
  the list of its characters before the terminating NUL: \<^verbatim>\<open>strncpy\<close> of 63 characters into the 64 bytes of the object keeps
  the first 63, and \<^verbatim>\<open>strcmp\<close> compares the character lists (\<open>FOS_String\<close>).  \<open>allocate_frame\<close> and \<open>map_frame\<close> return 0 or
  panic, so the undoing code after them has no branch.
\<close>

section \<open>State\<close>

abbreviation (input) E_NO_SHARE :: u32 where "E_NO_SHARE \<equiv> - 14"
abbreviation (input) E_SHARED_MEM_EXISTS :: u32 where "E_SHARED_MEM_EXISTS \<equiv> - 15"
abbreviation (input) E_SHARED_MEM_NOT_EXISTS :: u32 where "E_SHARED_MEM_NOT_EXISTS \<equiv> - 16"
abbreviation (input) sizeof_Share :: u32 where "sizeof_Share \<equiv> 96"

record Share =
  sh_ID :: u32
  ownerID :: u32
  sh_name :: "u8 list"
  sh_size :: u32
  sh_references :: u32
  isWritable :: u8
  framesStorage :: u32

record pshare = pchunk +
  shares_list :: "u32 list"
  shareslock :: kspinlock
  shr_at :: "u32 \<Rightarrow> Share"
  storage_at :: "u32 \<Rightarrow> nat \<Rightarrow> nat option"

definition upd_share :: "u32 \<Rightarrow> (Share \<Rightarrow> Share) \<Rightarrow> 'a pshare_scheme \<Rightarrow> 'a pshare_scheme" where
  "upd_share p f s = s\<lparr>shr_at := (shr_at s)(p := f (shr_at s p))\<rparr>"

definition set_storage :: "u32 \<Rightarrow> nat \<Rightarrow> nat option \<Rightarrow> 'a pshare_scheme \<Rightarrow> 'a pshare_scheme" where
  "set_storage p i f s = s\<lparr>storage_at := (storage_at s)(p := (storage_at s p)(i := f))\<rparr>"

definition shares_acquire :: "'a pshare_scheme \<Rightarrow> 'a pshare_scheme res" where
  "shares_acquire s = bindE (acquire_kspinlock (kcpu s, shareslock s)) (\<lambda>(c, lk). Inr (s\<lparr>kcpu := c, shareslock := lk\<rparr>))"

definition shares_release :: "'a pshare_scheme \<Rightarrow> 'a pshare_scheme res" where
  "shares_release s = bindE (release_kspinlock (kcpu s, shareslock s)) (\<lambda>(c, lk). Inr (s\<lparr>kcpu := c, shareslock := lk\<rparr>))"

definition sharing_init :: "'a pshare_scheme \<Rightarrow> 'a pshare_scheme" where
  "sharing_init s = s\<lparr>shares_list := [], shareslock := init_kspinlock (shareslock s)\<rparr>"

section \<open>Looking up a share\<close>

definition find_share :: "u32 \<Rightarrow> u8 list \<Rightarrow> 'a pshare_scheme \<Rightarrow> (u32 \<times> 'a pshare_scheme) res" where
  "find_share owner name s =
     bindE (holding_kspinlock (kcpu s) (shareslock s)) (\<lambda>(wasHeld, c).
     let s1 = s\<lparr>kcpu := c\<rparr> in
     bindE (if wasHeld then Inr s1 else shares_acquire s1) (\<lambda>s2.
     let r = LIST_FIRST (filter (\<lambda>p. ownerID (shr_at s2 p) = owner \<and> sh_name (shr_at s2 p) = name) (shares_list s2))
     in bindE (if wasHeld then Inr s2 else shares_release s2) (\<lambda>s3. Inr (r, s3))))"

definition size_of_shared_object :: "u32 \<Rightarrow> u8 list \<Rightarrow> 'a pshare_scheme \<Rightarrow> (u32 \<times> 'a pshare_scheme) res" where
  "size_of_shared_object owner name s =
     bindE (find_share owner name s) (\<lambda>(p, s1). Inr (if p = 0 then E_SHARED_MEM_NOT_EXISTS else sh_size (shr_at s1 p), s1))"

section \<open>Allocating a share object\<close>

text \<open>The number of frames: unsigned where the size is a parameter, signed where it is read from the
  object (a negative number of frames is none).\<close>

definition frames_of :: "u32 \<Rightarrow> nat" where
  "frames_of sz = unat ((sz + PAGE_SIZE - 1) div PAGE_SIZE)"

definition frames_of_int :: "u32 \<Rightarrow> nat" where
  "frames_of_int sz = nat (sint (sz + PAGE_SIZE - 1)) div 4096"

definition alloc_share :: "u32 \<Rightarrow> u8 list \<Rightarrow> u32 \<Rightarrow> u8 \<Rightarrow> 'a pshare_scheme \<Rightarrow> (u32 \<times> 'a pshare_scheme) res" where
  "alloc_share owner name sz writable s =
     bindE (kmalloc sizeof_Share s) (\<lambda>(p, s1).
     if p = 0 then Inr (0, s1)
     else
       let s2 = upd_share p (\<lambda>v. v\<lparr>sh_references := 1, sh_ID := p AND 0x7FFFFFFF, sh_size := sz, isWritable := writable,
                  ownerID := owner, sh_name := take 63 name\<rparr>) s1;
           n = frames_of sz
       in bindE (kmalloc (word_of_nat n * 4) s2) (\<lambda>(q, s3).
          let s4 = upd_share p (\<lambda>v. v\<lparr>framesStorage := q\<rparr>) s3 in
          if q = 0 then bindE (kfree p s4) (\<lambda>s5. Inr (0, s5))
          else Inr (p, s4\<lparr>storage_at := (storage_at s4)(q := \<lambda>i. if i < n then None else storage_at s4 q i)\<rparr>)))"

section \<open>Creating and getting a share\<close>

definition proc_dir :: "nat option \<Rightarrow> 'a psched_scheme \<Rightarrow> u32 res" where
  "proc_dir e s = (case e of None \<Rightarrow> Inl Fault | Some i \<Rightarrow> Inr (env_page_directory (envs s i)))"

fun create_loop :: "nat list \<Rightarrow> nat option \<Rightarrow> u32 \<Rightarrow> u32 \<Rightarrow> 'a pshare_scheme \<Rightarrow> 'a pshare_scheme res" where
  "create_loop [] e p va s = Inr s"
| "create_loop (i # is) e p va s =
     bindE (allocate_frame s) (\<lambda>(f, s1).
     let s2 = set_storage (framesStorage (shr_at s1 p)) i (Some f) s1 in
     bindE (proc_dir e s2) (\<lambda>dir.
     bindE (map_frame kernel_create_page_table dir f (page_no va i) (PERM_USER OR PERM_WRITEABLE OR PERM_PRESENT) s2)
       (create_loop is e p va)))"

definition create_shared_object ::
  "u32 \<Rightarrow> u8 list \<Rightarrow> u32 \<Rightarrow> u8 \<Rightarrow> u32 \<Rightarrow> 'a pshare_scheme \<Rightarrow> (u32 \<times> 'a pshare_scheme) res" where
  "create_shared_object owner name sz writable va s =
     bindE (shares_acquire s) (\<lambda>s1.
     bindE (get_cpu_proc s1) (\<lambda>(e, s2).
     bindE (find_share owner name s2) (\<lambda>(q, s3).
     if q \<noteq> 0 then bindE (shares_release s3) (\<lambda>s4. Inr (E_SHARED_MEM_EXISTS, s4))
     else
       bindE (alloc_share owner name sz writable s3) (\<lambda>(p, s4).
       if p = 0 then bindE (shares_release s4) (\<lambda>s5. Inr (E_NO_SHARE, s5))
       else
         let s5 = s4\<lparr>shares_list := p # shares_list s4\<rparr> in
         if va mod PAGE_SIZE \<noteq> 0 then bindE (shares_release s5) (\<lambda>s6. Inr (E_NO_SHARE, s6))
         else
           bindE (create_loop [0 ..< frames_of sz] e p va s5) (\<lambda>s6.
           bindE (shares_release s6) (\<lambda>s7. Inr (sh_ID (shr_at s7 p), s7)))))))"

definition share_perms :: "u8 \<Rightarrow> u32" where
  "share_perms writable = (if writable = 0 then PERM_USER OR PERM_PRESENT else PERM_USER OR PERM_PRESENT OR PERM_WRITEABLE)"

fun get_loop :: "nat list \<Rightarrow> nat option \<Rightarrow> u32 \<Rightarrow> u32 \<Rightarrow> 'a pshare_scheme \<Rightarrow> 'a pshare_scheme res" where
  "get_loop [] e p va s = Inr s"
| "get_loop (i # is) e p va s =
     bindE (proc_dir e s) (\<lambda>dir.
     case storage_at s (framesStorage (shr_at s p)) i of
       None \<Rightarrow> Inl Fault
     | Some f \<Rightarrow> bindE (map_frame kernel_create_page_table dir f (page_no va i) (share_perms (isWritable (shr_at s p))) s)
                  (get_loop is e p va))"

definition get_shared_object :: "u32 \<Rightarrow> u8 list \<Rightarrow> u32 \<Rightarrow> 'a pshare_scheme \<Rightarrow> (u32 \<times> 'a pshare_scheme) res" where
  "get_shared_object owner name va s =
     bindE (shares_acquire s) (\<lambda>s1.
     bindE (get_cpu_proc s1) (\<lambda>(e, s2).
     bindE (find_share owner name s2) (\<lambda>(p, s3).
     if p = 0 then bindE (shares_release s3) (\<lambda>s4. Inr (E_SHARED_MEM_NOT_EXISTS, s4))
     else
       bindE (get_loop [0 ..< frames_of_int (sh_size (shr_at s3 p))] e p va s3) (\<lambda>s4.
       bindE (shares_release (upd_share p (\<lambda>v. v\<lparr>sh_references := sh_references v + 1\<rparr>) s4)) (\<lambda>s5.
       Inr (sh_ID (shr_at s5 p), s5))))))"

section \<open>Deleting a share\<close>

fun free_frames_loop :: "nat list \<Rightarrow> u32 \<Rightarrow> 'a pshare_scheme \<Rightarrow> 'a pshare_scheme res" where
  "free_frames_loop [] p s = Inr s"
| "free_frames_loop (i # is) p s =
     (let q = framesStorage (shr_at s p) in
      case storage_at s q i of
        None \<Rightarrow> free_frames_loop is p s
      | Some f \<Rightarrow> bindE (free_frame (Some f) s) (\<lambda>s1. free_frames_loop is p (set_storage q i None s1)))"

definition free_share :: "u32 \<Rightarrow> 'a pshare_scheme \<Rightarrow> 'a pshare_scheme res" where
  "free_share p s =
     (if p = 0 then Inr s
      else
        bindE (shares_acquire s) (\<lambda>s1.
        if p \<notin> set (shares_list s1) then Inl Fault
        else
          bindE (shares_release (s1\<lparr>shares_list := remove1 p (shares_list s1)\<rparr>)) (\<lambda>s2.
          bindE (free_frames_loop [0 ..< frames_of_int (sh_size (shr_at s2 p))] p s2) (\<lambda>s3.
          bindE (kfree (framesStorage (shr_at s3 p)) s3) (\<lambda>s4.
          kfree p (upd_share p (\<lambda>v. v\<lparr>framesStorage := 0\<rparr>) s4))))))"

definition table_empty :: "u32 \<Rightarrow> 'a kmem_scheme \<Rightarrow> bool" where
  "table_empty table s \<longleftrightarrow> (\<forall>j \<in> set [0 ..< 1024]. mem s table j AND PERM_PRESENT = 0)"

fun delete_loop :: "nat list \<Rightarrow> nat option \<Rightarrow> u32 \<Rightarrow> 'a pshare_scheme \<Rightarrow> 'a pshare_scheme res" where
  "delete_loop [] e va s = Inr s"
| "delete_loop (i # is) e va s =
     bindE (proc_dir e s) (\<lambda>dir.
     bindE (unmap_frame dir (page_no va i) s) (\<lambda>s1.
     bindE (get_page_table dir (page_no va i) s1) (\<lambda>(_, table, s2).
     bindE (if table \<noteq> 0 \<and> table_empty table s2 then del_page_table dir (page_no va i) s2 else Inr s2)
       (delete_loop is e va))))"

definition delete_shared_object :: "u32 \<Rightarrow> u32 \<Rightarrow> 'a pshare_scheme \<Rightarrow> (u32 \<times> 'a pshare_scheme) res" where
  "delete_shared_object sharedObjectID startVA s =
     bindE (shares_acquire s) (\<lambda>s1.
     bindE (get_cpu_proc s1) (\<lambda>(e, s2).
     let p = LIST_FIRST (filter (\<lambda>p. sh_ID (shr_at s2 p) = sharedObjectID) (shares_list s2)) in
     if p = 0 then bindE (shares_release s2) (\<lambda>s3. Inr (E_SHARED_MEM_NOT_EXISTS, s3))
     else
       bindE (delete_loop [0 ..< frames_of_int (sh_size (shr_at s2 p))] e startVA s2) (\<lambda>s3.
       let s4 = upd_share p (\<lambda>v. v\<lparr>sh_references := sh_references v - 1\<rparr>) s3 in
       bindE (if sh_references (shr_at s4 p) = 0 then free_share p s4 else Inr s4) (\<lambda>s5.
       bindE (shares_release s5) (\<lambda>s6. Inr (0, s6))))))"

section \<open>Mapping the frames of a share\<close>

text \<open>The entry that maps frame \<open>f\<close> where an absent entry \<open>old\<close> was.\<close>

definition shared_entry :: "nat \<Rightarrow> u32 \<Rightarrow> u32 \<Rightarrow> u32" where
  "shared_entry f perm old = CONSTRUCT_ENTRY (to_physical_address f) ((old AND PERM_AVAILABLE) OR perm OR PERM_PRESENT)"

definition map_step :: "u32 \<Rightarrow> nat \<Rightarrow> u32 \<Rightarrow> u32 \<Rightarrow> 'a kmem_scheme \<Rightarrow> 'a kmem_scheme" where
  "map_step perm f va p s = set_entry p (unat (PTX va)) (shared_entry f perm (mem s p (unat (PTX va)))) (add_ref f (note_va f va s))"

text \<open>Page \<open>va\<close> is absent and has the table \<open>p\<close>, whose own frame is not \<open>f\<close>.\<close>

definition room_for :: "u32 \<Rightarrow> nat \<Rightarrow> u32 \<Rightarrow> u32 \<Rightarrow> 'a kmem_scheme \<Rightarrow> bool" where
  "room_for dir f va p s \<longleftrightarrow> va < USER_TOP \<and> table_ok s dir va p \<and> p \<noteq> dir \<and> f < 1048576 \<and> f \<noteq> frame_of (mem s dir (unat (PDX va)))
     \<and> entry_ok (number_of_frames s) (mem s p (unat (PTX va))) \<and> \<not> present (mem s p (unat (PTX va)))"

lemma map_frame_step:
  assumes "room_for dir f va p s"
  shows "map_frame ct dir f va perm s = Inr (map_step perm f va p s)"
proof -
  have k: "\<not> CHECK_IF_KERNEL_ADDRESS va" using assms by (simp add: room_for_def CHECK_IF_KERNEL_ADDRESS_def not_le [symmetric])
  then have "calm s" using assms by (auto simp: room_for_def table_ok_def heap_calm_def Let_def)
  then have "map_frame ct dir f va perm s = Inr (mapped f p (unat (PTX va)) perm (note_va f va s))"
    using assms by (intro map_frame_ok) (simp_all add: room_for_def)
  moreover have "mapped f p (unat (PTX va)) perm (note_va f va s) = map_step perm f va p s"
    using assms by (simp add: room_for_def mapped_def unmapped_def map_step_def shared_entry_def Let_def)
  ultimately show ?thesis by simp
qed

lemma table_ok_add_ref: "table_ok (add_ref f s) dir va p = table_ok s dir va p"
  by (simp add: table_ok_def add_ref_def set_frame_def heap_va_of_def heap_calm_def calm_def Let_def)

lemma room_for_step:
  assumes "room_for dir g wa q s" and "room_for dir f va p s" and "(q, unat (PTX wa)) \<noteq> (p, unat (PTX va))"
    and "f \<noteq> frame_of (mem s dir (unat (PDX wa)))"
  shows "room_for dir g wa q (map_step perm f va p s)"
proof -
  have "table_ok (note_va f va s) dir wa q" using assms(1,4) by (intro table_ok_note_va) (simp_all add: room_for_def)
  then have "table_ok (map_step perm f va p s) dir wa q"
    unfolding map_step_def using assms(2) by (intro table_ok_set_entry) (simp_all add: table_ok_add_ref room_for_def)
  moreover have "mem (map_step perm f va p s) q (unat (PTX wa)) = mem s q (unat (PTX wa))"
    "mem (map_step perm f va p s) dir = mem s dir"
    using assms(2,3) by (auto simp: map_step_def room_for_def)
  ultimately show ?thesis using assms(1) by (simp add: room_for_def) (simp add: map_step_def)
qed

lemma map_step_simps [simp]:
  fixes s :: "'a pshare_scheme"
  shows "envs (map_step perm f va p s) = envs s" "shr_at (map_step perm f va p s) = shr_at s"
    "storage_at (map_step perm f va p s) = storage_at s" "shares_list (map_step perm f va p s) = shares_list s"
    "shareslock (map_step perm f va p s) = shareslock s" "cpu_proc (map_step perm f va p s) = cpu_proc s"
    "kcpu (map_step perm f va p s) = kcpu s" "free_frame_list (map_step perm f va p s) = free_frame_list s"
  by (simp_all add: map_step_def set_entry_def add_ref_def note_va_def set_frame_def)

lemma map_step_refs:
  "references (frames_info (map_step perm f va p s) g) = (if g = f then references (frames_info s f) + 1 else references (frames_info s g))"
  by (simp add: map_step_def set_entry_def add_ref_def note_va_def set_frame_def)

lemma map_step_mem:
  "mem (map_step perm f va p s) q j = (if (q, j) = (p, unat (PTX va)) then shared_entry f perm (mem s p (unat (PTX va))) else mem s q j)"
  by (auto simp: map_step_def)

text \<open>The pages of a share: frame \<open>fr i\<close> goes to the \<open>i\<close>-th page of the range, whose table is \<open>tab i\<close>.\<close>

definition share_room :: "nat list \<Rightarrow> u32 \<Rightarrow> (nat \<Rightarrow> nat) \<Rightarrow> u32 \<Rightarrow> (nat \<Rightarrow> u32) \<Rightarrow> 'a kmem_scheme \<Rightarrow> bool" where
  "share_room is dir fr va tab s \<longleftrightarrow> inj_on fr (set is) \<and> inj_on (\<lambda>i. (tab i, unat (PTX (page_no va i)))) (set is) \<and> distinct is
     \<and> (\<forall>i \<in> set is. room_for dir (fr i) (page_no va i) (tab i) s \<and> (\<forall>k \<in> set is. fr i \<noteq> frame_of (mem s dir (unat (PDX (page_no va k))))))"

lemma share_roomD:
  assumes "share_room (i # is) dir fr va tab s"
  shows "room_for dir (fr i) (page_no va i) (tab i) s" and "share_room is dir fr va tab (map_step perm (fr i) (page_no va i) (tab i) s)"
    and "\<forall>k \<in> set is. (tab k, unat (PTX (page_no va k))) \<noteq> (tab i, unat (PTX (page_no va i))) \<and> fr k \<noteq> fr i"
proof -
  show r: "room_for dir (fr i) (page_no va i) (tab i) s" using assms by (simp add: share_room_def)
  show n: "\<forall>k \<in> set is. (tab k, unat (PTX (page_no va k))) \<noteq> (tab i, unat (PTX (page_no va i))) \<and> fr k \<noteq> fr i"
  proof
    fix k assume k: "k \<in> set is"
    then have "k \<noteq> i" using assms by (auto simp: share_room_def)
    then show "(tab k, unat (PTX (page_no va k))) \<noteq> (tab i, unat (PTX (page_no va i))) \<and> fr k \<noteq> fr i"
      using assms k unfolding share_room_def inj_on_def by (metis list.set_intros)
  qed
  have "mem (map_step perm (fr i) (page_no va i) (tab i) s) dir = mem s dir" using r by (auto simp: map_step_def room_for_def)
  then show "share_room is dir fr va tab (map_step perm (fr i) (page_no va i) (tab i) s)"
    using assms n by (auto simp: share_room_def intro!: room_for_step [OF _ r])
qed

fun map_all :: "u32 \<Rightarrow> nat list \<Rightarrow> (nat \<Rightarrow> nat) \<Rightarrow> u32 \<Rightarrow> (nat \<Rightarrow> u32) \<Rightarrow> 'a kmem_scheme \<Rightarrow> 'a kmem_scheme" where
  "map_all perm [] fr va tab s = s"
| "map_all perm (i # is) fr va tab s = map_all perm is fr va tab (map_step perm (fr i) (page_no va i) (tab i) s)"

lemma map_all_simps [simp]:
  fixes s :: "'a pshare_scheme"
  shows "envs (map_all perm is fr va tab s) = envs s" "shr_at (map_all perm is fr va tab s) = shr_at s"
    "storage_at (map_all perm is fr va tab s) = storage_at s" "shares_list (map_all perm is fr va tab s) = shares_list s"
    "shareslock (map_all perm is fr va tab s) = shareslock s" "cpu_proc (map_all perm is fr va tab s) = cpu_proc s"
    "kcpu (map_all perm is fr va tab s) = kcpu s"
  by (induction "is" arbitrary: s) simp_all

lemma map_all_other:
  "(q, j) \<notin> (\<lambda>i. (tab i, unat (PTX (page_no va i)))) ` set is \<Longrightarrow> mem (map_all perm is fr va tab s) q j = mem s q j"
  by (induction "is" arbitrary: s) (auto simp: map_step_mem)

lemma map_all_mem:
  assumes "distinct is" and "inj_on (\<lambda>i. (tab i, unat (PTX (page_no va i)))) (set is)" and "i \<in> set is"
  shows "mem (map_all perm is fr va tab s) (tab i) (unat (PTX (page_no va i)))
      = shared_entry (fr i) perm (mem s (tab i) (unat (PTX (page_no va i))))"
  using assms
proof (induction "is" arbitrary: s)
  case (Cons k "is")
  show ?case
  proof (cases "i = k")
    case True
    have "(tab i, unat (PTX (page_no va i))) \<notin> (\<lambda>i. (tab i, unat (PTX (page_no va i)))) ` set is"
      using Cons.prems(1,2) True by auto
    then show ?thesis using True by (simp add: map_all_other map_step_mem)
  next
    case False
    then have "(tab i, unat (PTX (page_no va i))) \<noteq> (tab k, unat (PTX (page_no va k)))"
      using Cons.prems(2,3) by (auto simp: inj_on_def)
    then show ?thesis using Cons False by (auto simp: map_step_mem)
  qed
qed simp

lemma map_all_refs:
  assumes "distinct is" and "inj_on fr (set is)"
  shows "references (frames_info (map_all perm is fr va tab s) g)
    = (if g \<in> fr ` set is then references (frames_info s g) + 1 else references (frames_info s g))"
  using assms
proof (induction "is" arbitrary: s)
  case (Cons k "is")
  have "fr k \<notin> fr ` set is" using Cons.prems by auto
  then show ?case using Cons by (auto simp: map_step_refs)
qed simp

lemma get_loop_ok:
  fixes s :: "'a pshare_scheme"
  assumes "share_room is (env_page_directory (envs s e)) fr va tab s"
    and "\<forall>i \<in> set is. storage_at s (framesStorage (shr_at s p)) i = Some (fr i)"
  shows "get_loop is (Some e) p va s = Inr (map_all (share_perms (isWritable (shr_at s p))) is fr va tab s)"
  using assms
proof (induction "is" arbitrary: s)
  case (Cons i "is")
  let ?pm = "share_perms (isWritable (shr_at s p))"
  note d = share_roomD [OF Cons.prems(1)]
  show ?case using Cons.IH [of "map_step ?pm (fr i) (page_no va i) (tab i) s"] d(2) [of ?pm] Cons.prems(2) by (simp add: proc_dir_def map_frame_step [OF d(1)])
qed simp

section \<open>Getting and creating a share\<close>

text \<open>The lock of the list is free and the process is on the CPU.\<close>

definition shares_calm :: "nat \<Rightarrow> 'a pshare_scheme \<Rightarrow> bool" where
  "shares_calm e s \<longleftrightarrow> cpu_ok (kcpu s) \<and> noted (kcpu s) = kcpu s \<and> shareslock s = unlocked \<and> cpu_proc s = Some e"

definition share_named :: "u32 \<Rightarrow> u8 list \<Rightarrow> 'a pshare_scheme \<Rightarrow> u32" where
  "share_named owner name s = LIST_FIRST (filter (\<lambda>p. ownerID (shr_at s p) = owner \<and> sh_name (shr_at s p) = name) (shares_list s))"

definition in_shares :: "'a pshare_scheme \<Rightarrow> 'a pshare_scheme" where
  "in_shares s = s\<lparr>kcpu := pushcli (kcpu s), shareslock := held_lock (kcpu s)\<rparr>"

lemma shares_acquire_calm: "shares_calm e s \<Longrightarrow> shares_acquire s = Inr (in_shares s)"
  by (simp add: shares_acquire_def shares_calm_def acquire_unlocked in_shares_def)

lemma shares_release_held:
  "\<lbrakk>shares_calm e s; kcpu t = pushcli (kcpu s); shareslock t = held_lock (kcpu s)\<rbrakk> \<Longrightarrow>
   shares_release t = Inr (t\<lparr>kcpu := kcpu s, shareslock := unlocked\<rparr>)"
  by (simp add: shares_release_def shares_calm_def release_held_lock)

lemma get_cpu_proc_in_shares: "shares_calm e s \<Longrightarrow> get_cpu_proc (in_shares s) = Inr (Some e, in_shares s)"
  by (simp add: get_cpu_proc_def in_shares_def shares_calm_def popcli_pushcli pushcli_ok)

lemma find_share_in_shares:
  "shares_calm e s \<Longrightarrow> find_share owner name (in_shares s) = Inr (share_named owner name s, in_shares s)"
  by (simp add: find_share_def shares_calm_def in_shares_def holding_kspinlock_eq pushcli_ok held_by_def held_lock_def
      share_named_def Let_def)

text \<open>Claim C37.  Getting a shared object maps its frames: if the object exists and the pages of the range are absent, the
  call returns the ID of the object, the \<open>i\<close>-th page of the range of the calling process is mapped to the \<open>i\<close>-th frame of
  the object, writable exactly when the object is, every one of these frames gains one reference and so does the object,
  and no other page-table entry changes.  Without such an object the call fails and nothing changes.\<close>

theorem get_shared_object_maps_frames:
  fixes s :: "'a pshare_scheme" and owner va :: u32 and name :: "u8 list" and tab :: "nat \<Rightarrow> u32"
  defines "p \<equiv> share_named owner name s" and "spot \<equiv> \<lambda>i. (tab i, unat (PTX (page_no va i)))"
  assumes "shares_calm e s"
    and "p \<noteq> 0 \<longrightarrow> share_room [0 ..< frames_of_int (sh_size (shr_at s p))] (env_page_directory (envs s e)) fr va tab (in_shares s)
      \<and> (\<forall>i < frames_of_int (sh_size (shr_at s p)). storage_at s (framesStorage (shr_at s p)) i = Some (fr i))"
  shows "if p = 0 then get_shared_object owner name va s = Inr (E_SHARED_MEM_NOT_EXISTS, s)
    else \<exists>t. get_shared_object owner name va s = Inr (sh_ID (shr_at s p), t)
      \<and> (\<forall>i < frames_of_int (sh_size (shr_at s p)). mem t (tab i) (unat (PTX (page_no va i)))
            = shared_entry (fr i) (share_perms (isWritable (shr_at s p))) (mem s (tab i) (unat (PTX (page_no va i))))
          \<and> references (frames_info t (fr i)) = references (frames_info s (fr i)) + 1)
      \<and> (\<forall>q j. (q, j) \<notin> spot ` {..<frames_of_int (sh_size (shr_at s p))} \<longrightarrow> mem t q j = mem s q j)
      \<and> shr_at t = (shr_at s)(p := (shr_at s p)\<lparr>sh_references := sh_references (shr_at s p) + 1\<rparr>)
      \<and> shares_list t = shares_list s \<and> shares_calm e t"
proof (cases "p = 0")
  case True
  have "shares_release (in_shares s) = Inr ((in_shares s)\<lparr>kcpu := kcpu s, shareslock := unlocked\<rparr>)"
    by (rule shares_release_held [OF assms(3)]) (simp_all add: in_shares_def)
  moreover have "(in_shares s)\<lparr>kcpu := kcpu s, shareslock := unlocked\<rparr> = s"
    using assms(3) by (simp add: in_shares_def shares_calm_def)
  ultimately show ?thesis using True
    by (simp add: get_shared_object_def shares_acquire_calm [OF assms(3)] get_cpu_proc_in_shares [OF assms(3)]
        find_share_in_shares [OF assms(3)] p_def)
next
  case False
  let ?is = "[0 ..< frames_of_int (sh_size (shr_at s p))]" and ?pm = "share_perms (isWritable (shr_at s p))"
  let ?t = "upd_share p (\<lambda>v. v\<lparr>sh_references := sh_references v + 1\<rparr>) (map_all ?pm ?is fr va tab (in_shares s))"
  have sh: "shr_at (in_shares s) = shr_at s" "storage_at (in_shares s) = storage_at s" "envs (in_shares s) = envs s"
    "mem (in_shares s) = mem s" "frames_info (in_shares s) = frames_info s" "shares_list (in_shares s) = shares_list s"
    "cpu_proc (in_shares s) = cpu_proc s"
    by (simp_all add: in_shares_def)
  have room: "share_room ?is (env_page_directory (envs s e)) fr va tab (in_shares s)"
    and st: "\<forall>i \<in> set ?is. storage_at s (framesStorage (shr_at s p)) i = Some (fr i)" using assms(4) False by simp_all
  have loop: "get_loop ?is (Some e) p va (in_shares s) = Inr (map_all ?pm ?is fr va tab (in_shares s))"
    using get_loop_ok [of ?is "in_shares s" e fr va tab p] room st by (simp add: sh)
  let ?u = "?t\<lparr>kcpu := kcpu s, shareslock := unlocked\<rparr>"
  have rel: "shares_release ?t = Inr ?u"
    by (rule shares_release_held [OF assms(3)]) (simp_all add: upd_share_def, simp_all add: in_shares_def)
  have "get_shared_object owner name va s = Inr (sh_ID (shr_at s p), ?u)"
    using False
    by (simp add: get_shared_object_def shares_acquire_calm [OF assms(3)] get_cpu_proc_in_shares [OF assms(3)]
        find_share_in_shares [OF assms(3)] p_def [symmetric] sh loop rel) (simp add: upd_share_def sh)
  moreover have inj: "inj_on fr (set ?is)" "inj_on (\<lambda>i. (tab i, unat (PTX (page_no va i)))) (set ?is)"
    using room by (simp_all add: share_room_def)
  have "mem ?u (tab i) (unat (PTX (page_no va i))) = shared_entry (fr i) ?pm (mem s (tab i) (unat (PTX (page_no va i))))"
    "references (frames_info ?u (fr i)) = references (frames_info s (fr i)) + 1" if "i < frames_of_int (sh_size (shr_at s p))" for i
    using map_all_mem [OF _ inj(2), of i ?pm fr "in_shares s"] map_all_refs [OF _ inj(1), of ?pm va tab "in_shares s" "fr i"] that
    by (simp_all add: upd_share_def sh)
  moreover have "mem ?u q j = mem s q j" if "(q, j) \<notin> spot ` {..<frames_of_int (sh_size (shr_at s p))}" for q j
    using map_all_other [of q j tab va ?is ?pm fr "in_shares s"] that by (simp add: upd_share_def sh spot_def atLeast0LessThan)
  moreover have "shr_at ?u = (shr_at s)(p := (shr_at s p)\<lparr>sh_references := sh_references (shr_at s p) + 1\<rparr>)" "shares_list ?u = shares_list s"
    "shares_calm e ?u"
    using assms(3) by (simp_all add: upd_share_def sh shares_calm_def)
  ultimately show ?thesis unfolding if_not_P [OF False] by blast
qed

definition take_frame :: "nat \<Rightarrow> u32 \<Rightarrow> nat \<Rightarrow> 'a pshare_scheme \<Rightarrow> 'a pshare_scheme" where
  "take_frame f q i s = set_storage q i (Some f) (set_frame f null_frame_info (s\<lparr>free_frame_list := tl (free_frame_list s)\<rparr>))"

lemma set_storage_simps [simp]:
  "envs (set_storage q i v s) = envs s" "shr_at (set_storage q i v s) = shr_at s" "shares_list (set_storage q i v s) = shares_list s"
  "shareslock (set_storage q i v s) = shareslock s" "cpu_proc (set_storage q i v s) = cpu_proc s" "kcpu (set_storage q i v s) = kcpu s"
  "mem (set_storage q i v s) = mem s" "free_frame_list (set_storage q i v s) = free_frame_list s"
  "number_of_frames (set_storage q i v s) = number_of_frames s" "frames_info (set_storage q i v s) = frames_info s"
  "storage_at (set_storage q i v s) = (storage_at s)(q := (storage_at s q)(i := v))"
  "mfllock (set_storage q i v s) = mfllock s" "heap_lock (set_storage q i v s) = heap_lock s"
  by (simp_all add: set_storage_def)

lemma set_frame_simps [simp]:
  fixes s :: "'a pshare_scheme"
  shows "envs (set_frame f v s) = envs s" "shr_at (set_frame f v s) = shr_at s" "shares_list (set_frame f v s) = shares_list s"
    "shareslock (set_frame f v s) = shareslock s" "cpu_proc (set_frame f v s) = cpu_proc s" "kcpu (set_frame f v s) = kcpu s"
    "mem (set_frame f v s) = mem s" "free_frame_list (set_frame f v s) = free_frame_list s"
    "number_of_frames (set_frame f v s) = number_of_frames s" "frames_info (set_frame f v s) = (frames_info s)(f := v)"
    "storage_at (set_frame f v s) = storage_at s" "mfllock (set_frame f v s) = mfllock s" "heap_lock (set_frame f v s) = heap_lock s"
  by (simp_all add: set_frame_def)

lemma take_frame_simps [simp]:
  "envs (take_frame f q i s) = envs s" "shr_at (take_frame f q i s) = shr_at s" "shares_list (take_frame f q i s) = shares_list s"
  "shareslock (take_frame f q i s) = shareslock s" "cpu_proc (take_frame f q i s) = cpu_proc s" "kcpu (take_frame f q i s) = kcpu s"
  "mem (take_frame f q i s) = mem s" "free_frame_list (take_frame f q i s) = tl (free_frame_list s)"
  "number_of_frames (take_frame f q i s) = number_of_frames s"
  "storage_at (take_frame f q i s) = (storage_at s)(q := (storage_at s q)(i := Some f))"
  "frames_info (take_frame f q i s) = (frames_info s)(f := null_frame_info)"
  "mfllock (take_frame f q i s) = mfllock s" "heap_lock (take_frame f q i s) = heap_lock s"
  by (simp_all add: take_frame_def)

lemma table_ok_shares_list: "table_ok (s\<lparr>shares_list := xs\<rparr>) dir va p = table_ok s dir va p"
  by (simp add: table_ok_def heap_va_of_def heap_calm_def calm_def Let_def)

lemma share_room_shares_list:
  "share_room is dir fr va tab (s\<lparr>shares_list := xs\<rparr>) = share_room is dir fr va tab s"
  by (simp add: share_room_def room_for_def table_ok_shares_list)

lemma table_ok_take_frame:
  assumes "table_ok s dir va p" and "va < USER_TOP" and "f \<noteq> frame_of (mem s dir (unat (PDX va)))"
  shows "table_ok (take_frame f q i s) dir va p"
proof -
  have c: "heap_calm (take_frame f q i s) = heap_calm s" by (simp add: heap_calm_def calm_def)
  have "heap_va_of (take_frame f q i s) (EXTRACT_ADDRESS (mem s dir (unat (PDX va)))) = heap_va_of s (EXTRACT_ADDRESS (mem s dir (unat (PDX va))))"
    using assms(3) by (simp add: heap_va_of_def frame_of_def)
  then show ?thesis using assms(1) by (simp add: table_ok_def c Let_def)
qed

lemma room_for_take_frame:
  "\<lbrakk>room_for dir g wa r s; f \<noteq> frame_of (mem s dir (unat (PDX wa)))\<rbrakk> \<Longrightarrow> room_for dir g wa r (take_frame f q i s)"
  by (simp add: room_for_def table_ok_take_frame)

lemma share_room_take_frame:
  "\<lbrakk>share_room is dir fr va tab s; \<forall>k \<in> set is. f \<noteq> frame_of (mem s dir (unat (PDX (page_no va k))))\<rbrakk> \<Longrightarrow>
   share_room is dir fr va tab (take_frame f q i s)"
  by (auto simp: share_room_def intro!: room_for_take_frame)

abbreviation (input) create_perms :: u32 where "create_perms \<equiv> PERM_USER OR PERM_WRITEABLE OR PERM_PRESENT"

fun create_all :: "nat list \<Rightarrow> (nat \<Rightarrow> nat) \<Rightarrow> u32 \<Rightarrow> u32 \<Rightarrow> (nat \<Rightarrow> u32) \<Rightarrow> 'a pshare_scheme \<Rightarrow> 'a pshare_scheme" where
  "create_all [] fr q va tab s = s"
| "create_all (i # is) fr q va tab s =
     create_all is fr q va tab (map_step create_perms (fr i) (page_no va i) (tab i) (take_frame (fr i) q i s))"

lemma create_all_simps [simp]:
  "envs (create_all is fr q va tab s) = envs s" "shr_at (create_all is fr q va tab s) = shr_at s"
  "shares_list (create_all is fr q va tab s) = shares_list s" "shareslock (create_all is fr q va tab s) = shareslock s"
  "cpu_proc (create_all is fr q va tab s) = cpu_proc s" "kcpu (create_all is fr q va tab s) = kcpu s"
  by (induction "is" arbitrary: s) simp_all

lemma create_all_other:
  "(r, j) \<notin> (\<lambda>i. (tab i, unat (PTX (page_no va i)))) ` set is \<Longrightarrow> mem (create_all is fr q va tab s) r j = mem s r j"
  by (induction "is" arbitrary: s) (auto simp: map_step_mem)

lemma create_all_storage:
  "storage_at (create_all is fr q va tab s) = (storage_at s)(q := \<lambda>i. if i \<in> set is then Some (fr i) else storage_at s q i)"
  by (induction "is" arbitrary: s) (auto simp: fun_eq_iff)

lemma create_all_mem:
  assumes "distinct is" and "inj_on (\<lambda>i. (tab i, unat (PTX (page_no va i)))) (set is)" and "i \<in> set is"
  shows "mem (create_all is fr q va tab s) (tab i) (unat (PTX (page_no va i)))
      = shared_entry (fr i) create_perms (mem s (tab i) (unat (PTX (page_no va i))))"
  using assms
proof (induction "is" arbitrary: s)
  case (Cons k "is")
  show ?case
  proof (cases "i = k")
    case True
    have "(tab i, unat (PTX (page_no va i))) \<notin> (\<lambda>i. (tab i, unat (PTX (page_no va i)))) ` set is"
      using Cons.prems(1,2) True by auto
    then show ?thesis using True by (simp add: create_all_other map_step_mem)
  next
    case False
    then have "(tab i, unat (PTX (page_no va i))) \<noteq> (tab k, unat (PTX (page_no va k)))"
      using Cons.prems(2,3) by (auto simp: inj_on_def)
    then show ?thesis using Cons False by (auto simp: map_step_mem)
  qed
qed simp

lemma create_all_refs:
  assumes "distinct is" and "inj_on fr (set is)"
  shows "references (frames_info (create_all is fr q va tab s) g) = (if g \<in> fr ` set is then 1 else references (frames_info s g))"
  using assms
proof (induction "is" arbitrary: s)
  case (Cons k "is")
  have "fr k \<notin> fr ` set is" using Cons.prems by auto
  then show ?case using Cons by (auto simp: map_step_refs null_frame_info_def)
qed simp

lemma create_all_free:
  "free_frame_list s = map fr is @ rest \<Longrightarrow> free_frame_list (create_all is fr q va tab s) = rest"
  by (induction "is" arbitrary: s) simp_all

lemma create_loop_ok:
  fixes s :: "'a pshare_scheme"
  assumes "share_room is (env_page_directory (envs s e)) fr va tab s" and "free_frame_list s = map fr is @ rest"
  shows "create_loop is (Some e) p va s = Inr (create_all is fr (framesStorage (shr_at s p)) va tab s)"
  using assms
proof (induction "is" arbitrary: s)
  case (Cons i "is")
  let ?dir = "env_page_directory (envs s e)" and ?q = "framesStorage (shr_at s p)"
  let ?s = "take_frame (fr i) ?q i s"
  have r0: "room_for ?dir (fr i) (page_no va i) (tab i) s" using share_roomD(1) [OF Cons.prems(1)] .
  have "share_room (i # is) ?dir fr va tab ?s"
    by (rule share_room_take_frame [OF Cons.prems(1)]) (use Cons.prems(1) in \<open>simp add: share_room_def\<close>)
  note d = share_roomD [OF this]
  have "calm s" using r0 by (auto simp: room_for_def table_ok_def heap_calm_def Let_def CHECK_IF_KERNEL_ADDRESS_def not_le [symmetric])
  moreover have "free_frame_list s = fr i # map fr is @ rest" using Cons.prems(2) by simp
  ultimately have al: "allocate_frame s = Inr (fr i, set_frame (fr i) null_frame_info (s\<lparr>free_frame_list := map fr is @ rest\<rparr>))"
    by (rule allocate_frame_calm)
  have tk: "set_storage ?q i (Some (fr i)) (set_frame (fr i) null_frame_info (s\<lparr>free_frame_list := map fr is @ rest\<rparr>)) = ?s"
    "shr_at (set_frame (fr i) null_frame_info (s\<lparr>free_frame_list := map fr is @ rest\<rparr>)) = shr_at s"
    using Cons.prems(2) by (simp_all add: take_frame_def set_frame_def)
  have "create_loop is (Some e) p va (map_step create_perms (fr i) (page_no va i) (tab i) ?s)
    = Inr (create_all is fr ?q va tab (map_step create_perms (fr i) (page_no va i) (tab i) ?s))"
    using Cons.IH [of "map_step create_perms (fr i) (page_no va i) (tab i) ?s"] d(2) [of create_perms] Cons.prems(2) by simp
  then show ?case by (simp add: al tk Let_def proc_dir_def map_frame_step [OF d(1)])
qed simp

text \<open>Claim C36.  Creating a shared object gives the process its frames: when no object of that name exists and the object
  itself could be allocated (as \<open>p\<close>, in state \<open>s1\<close>), the call puts it at the head of the list and returns its ID; its
  \<open>i\<close>-th frame is the \<open>i\<close>-th frame of the free list, is recorded in the object, has exactly one reference, and is mapped
  writable at the \<open>i\<close>-th page of the range; no other entry changes.  An existing name is refused and nothing changes.\<close>

theorem create_shared_object_maps_frames:
  fixes s s1 :: "'a pshare_scheme" and tab :: "nat \<Rightarrow> u32" and p va sz :: u32
  defines "q \<equiv> framesStorage (shr_at s1 p)" and "fr \<equiv> \<lambda>i. free_frame_list s1 ! i"
  assumes "shares_calm e s" and "va mod PAGE_SIZE = 0"
    and "alloc_share owner name sz w (in_shares s) = Inr (p, s1)" and "p \<noteq> 0" and "kcpu s1 = pushcli (kcpu s)"
    and "shareslock s1 = held_lock (kcpu s)" and "cpu_proc s1 = Some e" and "frames_of sz \<le> length (free_frame_list s1)"
    and "share_room [0 ..< frames_of sz] (env_page_directory (envs s1 e)) fr va tab s1"
  shows "if share_named owner name s \<noteq> 0 then create_shared_object owner name sz w va s = Inr (E_SHARED_MEM_EXISTS, s)
    else \<exists>t. create_shared_object owner name sz w va s = Inr (sh_ID (shr_at s1 p), t)
      \<and> shares_list t = p # shares_list s1 \<and> shr_at t = shr_at s1 \<and> shares_calm e t
      \<and> (\<forall>i < frames_of sz. storage_at t q i = Some (fr i) \<and> references (frames_info t (fr i)) = 1
          \<and> mem t (tab i) (unat (PTX (page_no va i))) = shared_entry (fr i) create_perms (mem s1 (tab i) (unat (PTX (page_no va i)))))
      \<and> (\<forall>r j. (r, j) \<notin> (\<lambda>i. (tab i, unat (PTX (page_no va i)))) ` {..<frames_of sz} \<longrightarrow> mem t r j = mem s1 r j)
      \<and> free_frame_list t = drop (frames_of sz) (free_frame_list s1)"
proof (cases "share_named owner name s = 0")
  case False
  have "shares_release (in_shares s) = Inr ((in_shares s)\<lparr>kcpu := kcpu s, shareslock := unlocked\<rparr>)"
    by (rule shares_release_held [OF assms(3)]) (simp_all add: in_shares_def)
  moreover have "(in_shares s)\<lparr>kcpu := kcpu s, shareslock := unlocked\<rparr> = s"
    using assms(3) by (simp add: in_shares_def shares_calm_def)
  ultimately show ?thesis using False
    by (simp add: create_shared_object_def shares_acquire_calm [OF assms(3)] get_cpu_proc_in_shares [OF assms(3)]
        find_share_in_shares [OF assms(3)])
next
  case True
  let ?is = "[0 ..< frames_of sz]" and ?s1 = "s1\<lparr>shares_list := p # shares_list s1\<rparr>"
  have "map fr ?is = take (frames_of sz) (free_frame_list s1)" using assms(10) by (intro nth_equalityI) (simp_all add: fr_def)
  then have free: "free_frame_list ?s1 = map fr ?is @ drop (frames_of sz) (free_frame_list s1)" by simp
  have room: "share_room ?is (env_page_directory (envs ?s1 e)) fr va tab ?s1"
    using assms(11) by (simp add: share_room_shares_list)
  have loop: "create_loop ?is (Some e) p va ?s1 = Inr (create_all ?is fr q va tab ?s1)"
    using create_loop_ok [OF room free, of p] by (simp add: q_def)
  let ?t = "create_all ?is fr q va tab ?s1"
  let ?u = "?t\<lparr>kcpu := kcpu s, shareslock := unlocked\<rparr>"
  have rel: "shares_release ?t = Inr ?u"
    by (rule shares_release_held [OF assms(3)]) (simp_all add: assms(7,8))
  have "create_shared_object owner name sz w va s = Inr (sh_ID (shr_at s1 p), ?u)"
    using True assms(4,6)
    by (simp add: create_shared_object_def shares_acquire_calm [OF assms(3)] get_cpu_proc_in_shares [OF assms(3)]
        find_share_in_shares [OF assms(3)] assms(5) loop rel)
  moreover have inj: "inj_on fr (set ?is)" "inj_on (\<lambda>i. (tab i, unat (PTX (page_no va i)))) (set ?is)"
    using assms(11) by (simp_all add: share_room_def)
  have "storage_at ?u q i = Some (fr i) \<and> references (frames_info ?u (fr i)) = 1
      \<and> mem ?u (tab i) (unat (PTX (page_no va i))) = shared_entry (fr i) create_perms (mem s1 (tab i) (unat (PTX (page_no va i))))"
    if "i < frames_of sz" for i
    using that create_all_mem [OF _ inj(2), of i fr q ?s1] create_all_refs [OF _ inj(1), of q va tab ?s1 "fr i"]
    by (simp add: create_all_storage)
  moreover have "mem ?u r j = mem s1 r j" if "(r, j) \<notin> (\<lambda>i. (tab i, unat (PTX (page_no va i)))) ` {..<frames_of sz}" for r j
    using that by (simp add: create_all_other atLeast0LessThan)
  moreover have "free_frame_list ?u = drop (frames_of sz) (free_frame_list s1)" using create_all_free [OF free] by simp
  moreover have "shares_list ?u = p # shares_list s1" "shr_at ?u = shr_at s1" "shares_calm e ?u"
    using assms(3,9) by (simp_all add: shares_calm_def)
  ultimately show ?thesis using True by (simp only: simp_thms if_False) blast
qed


section \<open>Deleting a share\<close>

text \<open>Every page of the range is mapped, to a frame that holds none of the tables, and every table keeps a present entry
  outside the range.\<close>

definition del_room :: "nat list \<Rightarrow> u32 \<Rightarrow> u32 \<Rightarrow> (nat \<Rightarrow> u32) \<Rightarrow> 'a kmem_scheme \<Rightarrow> bool" where
  "del_room is dir va tab s \<longleftrightarrow> inj_on (\<lambda>i. (tab i, unat (PTX (page_no va i)))) (set is) \<and> distinct is
     \<and> (\<forall>i \<in> set is. page_no va i < USER_TOP \<and> table_ok s dir (page_no va i) (tab i) \<and> tab i \<noteq> dir
          \<and> entry_ok (number_of_frames s) (mem s (tab i) (unat (PTX (page_no va i))))
          \<and> present (mem s (tab i) (unat (PTX (page_no va i))))
          \<and> (\<forall>k \<in> set is. frame_of (mem s (tab i) (unat (PTX (page_no va i)))) \<noteq> frame_of (mem s dir (unat (PDX (page_no va k)))))
          \<and> (\<exists>j < 1024. present (mem s (tab i) j) \<and> (tab i, j) \<notin> (\<lambda>i. (tab i, unat (PTX (page_no va i)))) ` set is))"

lemma heap_calm_user_table: "\<lbrakk>table_ok s dir va p; va < USER_TOP\<rbrakk> \<Longrightarrow> heap_calm s"
  by (simp add: table_ok_def Let_def CHECK_IF_KERNEL_ADDRESS_def not_le [symmetric])

lemma unmapped_kept [simp]:
  fixes s :: "'a pshare_scheme"
  shows "envs (unmapped p i s) = envs s" "shr_at (unmapped p i s) = shr_at s" "shares_list (unmapped p i s) = shares_list s"
    "storage_at (unmapped p i s) = storage_at s" "shareslock (unmapped p i s) = shareslock s"
    "cpu_proc (unmapped p i s) = cpu_proc s" "kcpu (unmapped p i s) = kcpu s"
  by (simp_all add: unmapped_def drop_ref_def set_entry_def set_frame_def)

lemma unmapped_mem:
  "present (mem s p i) \<Longrightarrow> mem (unmapped p i s) q j = (if (q, j) = (p, i) then mem s p i AND PERM_AVAILABLE else mem s q j)"
  by (auto simp: unmapped_def)

lemma table_ok_drop_ref:
  assumes "table_ok s dir va p" and "f \<noteq> frame_of (mem s dir (unat (PDX va)))"
  shows "table_ok (drop_ref f s) dir va p"
proof -
  have "heap_va_of (drop_ref f s) (EXTRACT_ADDRESS (mem s dir (unat (PDX va)))) = heap_va_of s (EXTRACT_ADDRESS (mem s dir (unat (PDX va))))"
    using assms(2) by (simp add: heap_va_of_def frame_of_def) (simp add: drop_ref_def set_frame_def)
  then show ?thesis using assms(1) by (simp add: table_ok_def Let_def)
qed

lemma table_ok_unmapped:
  assumes "table_ok s dir va p" and "q \<noteq> dir" and "frame_of (mem s q i) \<noteq> frame_of (mem s dir (unat (PDX va)))"
  shows "table_ok (unmapped q i s) dir va p"
  using assms by (simp add: unmapped_def table_ok_set_entry table_ok_drop_ref)

lemma del_roomD:
  assumes "del_room (i # is) dir va tab s"
  defines "t \<equiv> unmapped (tab i) (unat (PTX (page_no va i))) s"
  shows "unmap_frame dir (page_no va i) s = Inr t" and "get_page_table dir (page_no va i) t = Inr (TABLE_IN_MEMORY, tab i, t)"
    and "\<not> table_empty (tab i) t" and "del_room is dir va tab t"
proof -
  let ?at = "\<lambda>i. (tab i, unat (PTX (page_no va i)))" and ?e = "mem s (tab i) (unat (PTX (page_no va i)))"
  have r: "page_no va i < USER_TOP" "table_ok s dir (page_no va i) (tab i)" "tab i \<noteq> dir" "entry_ok (number_of_frames s) ?e"
    "present ?e" "\<forall>k \<in> set (i # is). frame_of ?e \<noteq> frame_of (mem s dir (unat (PDX (page_no va k))))"
    using assms(1) by (simp_all add: del_room_def)
  have "calm s" using heap_calm_user_table [OF r(2,1)] by (simp add: heap_calm_def)
  then show "unmap_frame dir (page_no va i) s = Inr t" unfolding t_def by (rule unmap_frame_ok [OF r(2,4)])
  have tk: "table_ok t dir (page_no va k) (tab k)" if "k \<in> set (i # is)" for k
    unfolding t_def using assms(1) that r(3,6) by (intro table_ok_unmapped) (auto simp: del_room_def)
  then show "get_page_table dir (page_no va i) t = Inr (TABLE_IN_MEMORY, tab i, t)" by (simp add: get_page_table_ok)
  note m = unmapped_mem [OF r(5)]
  have keep: "\<exists>j < 1024. present (mem t (tab k) j) \<and> (tab k, j) \<notin> ?at ` set (i # is)" if "k \<in> set (i # is)" for k
  proof -
    have "\<exists>j < 1024. present (mem s (tab k) j) \<and> (tab k, j) \<notin> ?at ` set (i # is)"
      using assms(1) that unfolding del_room_def by (elim conjE) (drule (1) bspec, elim conjE)
    then obtain j where j: "j < 1024" "present (mem s (tab k) j)" "(tab k, j) \<notin> ?at ` set (i # is)" by blast
    then have "(tab k, j) \<noteq> ?at i" by auto
    then have "mem t (tab k) j = mem s (tab k) j" unfolding t_def m by auto
    then show ?thesis using j by (intro exI [of _ j]) simp
  qed
  from keep [of i] show "\<not> table_empty (tab i) t" by (auto simp: table_empty_def present_def)
  have n: "?at k \<noteq> ?at i" if "k \<in> set is" for k
  proof -
    have "k \<noteq> i" using assms(1) that by (auto simp: del_room_def)
    then show ?thesis using assms(1) that unfolding del_room_def inj_on_def by (metis list.set_intros)
  qed
  have e: "mem t (tab k) (unat (PTX (page_no va k))) = mem s (tab k) (unat (PTX (page_no va k)))" if "k \<in> set is" for k
    unfolding t_def m using n [OF that] by auto
  have d: "mem t dir = mem s dir" "number_of_frames t = number_of_frames s"
    using r(3) by (auto simp: t_def m fun_eq_iff)
  show "del_room is dir va tab t"
    unfolding del_room_def d
  proof (intro conjI ballI)
    show "inj_on ?at (set is)" "distinct is" using assms(1) by (simp_all add: del_room_def)
    fix k assume k: "k \<in> set is"
    show "\<exists>j < 1024. present (mem t (tab k) j) \<and> (tab k, j) \<notin> ?at ` set is"
      using keep [OF list.set_intros(2) [OF k]] by (elim exE conjE) (simp, blast)
  qed (use assms(1) tk e in \<open>auto simp: del_room_def\<close>)
qed

fun unmap_all :: "nat list \<Rightarrow> u32 \<Rightarrow> (nat \<Rightarrow> u32) \<Rightarrow> 'a kmem_scheme \<Rightarrow> 'a kmem_scheme" where
  "unmap_all [] va tab s = s"
| "unmap_all (i # is) va tab s = unmap_all is va tab (unmapped (tab i) (unat (PTX (page_no va i))) s)"

lemma unmap_all_simps [simp]:
  fixes s :: "'a pshare_scheme"
  shows "envs (unmap_all is va tab s) = envs s" "shr_at (unmap_all is va tab s) = shr_at s"
    "storage_at (unmap_all is va tab s) = storage_at s" "shares_list (unmap_all is va tab s) = shares_list s"
    "shareslock (unmap_all is va tab s) = shareslock s" "cpu_proc (unmap_all is va tab s) = cpu_proc s"
    "kcpu (unmap_all is va tab s) = kcpu s"
  by (induction "is" arbitrary: s) simp_all

lemma unmap_all_mem:
  assumes "inj_on (\<lambda>i. (tab i, unat (PTX (page_no va i)))) (set is)" and "distinct is"
    and "\<forall>i \<in> set is. present (mem s (tab i) (unat (PTX (page_no va i))))"
  shows "mem (unmap_all is va tab s) q j
    = (if (q, j) \<in> (\<lambda>i. (tab i, unat (PTX (page_no va i)))) ` set is then mem s q j AND PERM_AVAILABLE else mem s q j)"
  using assms
proof (induction "is" arbitrary: s)
  case (Cons i "is")
  let ?at = "\<lambda>i. (tab i, unat (PTX (page_no va i)))"
  have i: "present (mem s (tab i) (unat (PTX (page_no va i))))" using Cons.prems(3) by simp
  have n: "?at k \<noteq> ?at i" if "k \<in> set is" for k
    using Cons.prems(1,2) that unfolding inj_on_def by (metis distinct.simps(2) list.set_intros)
  have "present (mem (unmapped (tab i) (unat (PTX (page_no va i))) s) (tab k) (unat (PTX (page_no va k))))" if "k \<in> set is" for k
    using n [OF that] Cons.prems(3) that by (auto simp: unmapped_mem [OF i])
  then have ih: "mem (unmap_all is va tab (unmapped (tab i) (unat (PTX (page_no va i))) s)) q j
    = (if (q, j) \<in> ?at ` set is then mem (unmapped (tab i) (unat (PTX (page_no va i))) s) q j AND PERM_AVAILABLE
       else mem (unmapped (tab i) (unat (PTX (page_no va i))) s) q j)"
    using Cons.prems(1,2) by (intro Cons.IH) (auto simp: inj_on_def)
  have "?at i \<notin> ?at ` set is" using n by force
  then show ?case by (auto simp: ih unmapped_mem [OF i])
qed simp

lemma delete_loop_ok:
  fixes s :: "'a pshare_scheme"
  assumes "del_room is (env_page_directory (envs s e)) va tab s"
  shows "delete_loop is (Some e) va s = Inr (unmap_all is va tab s)"
  using assms
proof (induction "is" arbitrary: s)
  case (Cons i "is")
  note d = del_roomD [OF Cons.prems]
  show ?case using Cons.IH d(4) by (simp add: proc_dir_def d(1,2,3))
qed simp

lemma shares_reacquire:
  "\<lbrakk>shares_calm e s; kcpu t = pushcli (kcpu s); shareslock t = held_lock (kcpu s)\<rbrakk> \<Longrightarrow>
   shares_acquire t = Inl (Panic ''acquire_spinlock: lock is already held by the same CPU.'')"
  by (simp add: shares_acquire_def shares_calm_def acquire_kspinlock_def holding_kspinlock_eq pushcli_ok held_by_def held_lock_def)

definition share_with_id :: "u32 \<Rightarrow> 'a pshare_scheme \<Rightarrow> u32" where
  "share_with_id i s = LIST_FIRST (filter (\<lambda>p. sh_ID (shr_at s p) = i) (shares_list s))"

text \<open>Claim C38.  Deleting a shared object unmaps it from the process: while other processes use the object, the call
  clears the entries of exactly the pages of the range, keeping their software bits, takes one reference from the object
  and leaves the list as it is; an ID of no object is refused and nothing changes.  Deleting the last reference panics:
  the object is to be freed while the lock of the list is held, and \<open>free_share\<close> acquires that lock.\<close>

theorem delete_shared_object_spec:
  fixes s :: "'a pshare_scheme" and va sid :: u32 and tab :: "nat \<Rightarrow> u32"
  defines "p \<equiv> share_with_id sid s" and "spot \<equiv> \<lambda>i. (tab i, unat (PTX (page_no va i)))"
  assumes "shares_calm e s"
    and "p \<noteq> 0 \<longrightarrow> del_room [0 ..< frames_of_int (sh_size (shr_at s p))] (env_page_directory (envs s e)) va tab (in_shares s)"
  shows "if p = 0 then delete_shared_object sid va s = Inr (E_SHARED_MEM_NOT_EXISTS, s)
    else if sh_references (shr_at s p) = 1
    then delete_shared_object sid va s = Inl (Panic ''acquire_spinlock: lock is already held by the same CPU.'')
    else \<exists>t. delete_shared_object sid va s = Inr (0, t)
      \<and> (\<forall>q j. mem t q j = (if (q, j) \<in> spot ` {..<frames_of_int (sh_size (shr_at s p))} then mem s q j AND PERM_AVAILABLE else mem s q j))
      \<and> shr_at t = (shr_at s)(p := (shr_at s p)\<lparr>sh_references := sh_references (shr_at s p) - 1\<rparr>)
      \<and> shares_list t = shares_list s \<and> shares_calm e t"
proof (cases "p = 0")
  case True
  have "shares_release (in_shares s) = Inr ((in_shares s)\<lparr>kcpu := kcpu s, shareslock := unlocked\<rparr>)"
    by (rule shares_release_held [OF assms(3)]) (simp_all add: in_shares_def)
  moreover have "(in_shares s)\<lparr>kcpu := kcpu s, shareslock := unlocked\<rparr> = s"
    using assms(3) by (simp add: in_shares_def shares_calm_def)
  moreover have "LIST_FIRST (filter (\<lambda>p. sh_ID (shr_at (in_shares s) p) = sid) (shares_list (in_shares s))) = 0"
    using True by (simp add: p_def share_with_id_def in_shares_def)
  ultimately show ?thesis using True
    by (simp add: delete_shared_object_def shares_acquire_calm [OF assms(3)] get_cpu_proc_in_shares [OF assms(3)] Let_def)
next
  case False
  let ?is = "[0 ..< frames_of_int (sh_size (shr_at s p))]"
  let ?m = "unmap_all ?is va tab (in_shares s)"
  let ?t = "upd_share p (\<lambda>v. v\<lparr>sh_references := sh_references v - 1\<rparr>) ?m"
  have sh: "shr_at (in_shares s) = shr_at s" "shares_list (in_shares s) = shares_list s" "envs (in_shares s) = envs s"
    "mem (in_shares s) = mem s" "cpu_proc (in_shares s) = cpu_proc s" "kcpu (in_shares s) = pushcli (kcpu s)"
    "shareslock (in_shares s) = held_lock (kcpu s)"
    by (simp_all add: in_shares_def)
  have room: "del_room ?is (env_page_directory (envs s e)) va tab (in_shares s)" using assms(4) False by simp
  have loop: "delete_loop ?is (Some e) va (in_shares s) = Inr ?m"
    using delete_loop_ok [of ?is "in_shares s" e va tab] room by (simp add: sh)
  have fst: "LIST_FIRST (filter (\<lambda>p. sh_ID (shr_at s p) = sid) (shares_list s)) = p" by (simp add: p_def share_with_id_def)
  have k: "kcpu ?t = pushcli (kcpu s)" "shareslock ?t = held_lock (kcpu s)" "shr_at ?t p = (shr_at s p)\<lparr>sh_references := sh_references (shr_at s p) - 1\<rparr>"
    by (simp_all add: upd_share_def sh)
  have del: "delete_shared_object sid va s =
    bindE (if sh_references (shr_at s p) = 1 then free_share p ?t else Inr ?t) (\<lambda>s5. bindE (shares_release s5) (\<lambda>s6. Inr (0, s6)))"
    using False
    by (simp add: delete_shared_object_def shares_acquire_calm [OF assms(3)] get_cpu_proc_in_shares [OF assms(3)] Let_def sh fst loop k(3))
  show ?thesis
  proof (cases "sh_references (shr_at s p) = 1")
    case True
    then show ?thesis using False
      by (simp add: del free_share_def shares_reacquire [OF assms(3) k(1,2)])
  next
    case ref: False
    let ?u = "?t\<lparr>kcpu := kcpu s, shareslock := unlocked\<rparr>"
    have "delete_shared_object sid va s = Inr (0, ?u)"
      using ref by (simp add: del shares_release_held [OF assms(3) k(1,2)])
    moreover have "mem ?u q j = (if (q, j) \<in> spot ` {..<frames_of_int (sh_size (shr_at s p))} then mem s q j AND PERM_AVAILABLE else mem s q j)" for q j
      using unmap_all_mem [of tab va ?is "in_shares s" q j] room
      by (simp add: upd_share_def del_room_def sh spot_def atLeast0LessThan)
    moreover have "shr_at ?u = (shr_at s)(p := (shr_at s p)\<lparr>sh_references := sh_references (shr_at s p) - 1\<rparr>)"
      "shares_list ?u = shares_list s" "shares_calm e ?u"
      using assms(3) by (simp_all add: upd_share_def sh shares_calm_def)
    ultimately show ?thesis using False ref by (simp only: simp_thms if_False) blast
  qed
qed


section \<open>The properties on a small example\<close>

text \<open>A read-only object of 5000 bytes, in frames 1500 and 1501, and an allocator with free blocks of 128 and of 8 bytes.\<close>

definition share_example :: "u32 list \<Rightarrow> u32 \<Rightarrow> pshare" where
  "share_example ents refs = pchunk.extend (chunk_example ents) (pshare.fields [0xF6000200] unlocked
       (\<lambda>_. \<lparr>sh_ID = 0x76000200, ownerID = 7, sh_name = [97], sh_size = 5000, sh_references = refs, isWritable = 0,
             framesStorage = 0xF6001100\<rparr>) (\<lambda>_ i. Some (1500 + i)))
     \<lparr>free_frame_list := [2000, 2001, 2002],
      cpu_proc := Some 2, kh_da := da_example\<lparr>freeBlockLists := (\<lambda>k. if k = 4 then [0xF6000280] else if k = 0 then [0xF6001008] else [])\<rparr>\<rparr>"

lemmas share_example_unfold = share_example_def chunk_example_def pf_example_def rr_example_def sched_example_def heap_example_def
  kheap.defs psched.defs pfile.defs pfault.defs pchunk.defs pshare.defs

lemma share_example_fields [simp]:
  "env_page_directory (envs (share_example es r) 2) = 0xF6003000" "number_of_frames (share_example es r) = 4096"
  "shares_list (share_example es r) = [0xF6000200]" "shareslock (share_example es r) = unlocked"
  "shr_at (share_example es r) p = \<lparr>sh_ID = 0x76000200, ownerID = 7, sh_name = [97], sh_size = 5000, sh_references = r, isWritable = 0,
             framesStorage = 0xF6001100\<rparr>"
  "storage_at (share_example es r) p i = Some (1500 + i)" "free_frame_list (share_example es r) = [2000, 2001, 2002]"
  "mem (share_example es r) p i = (if p = 0xF6003000 \<and> i = 520 then 0x3E8001 else if p = 0xF6004000 \<and> i < length es then es ! i else 0)"
  by (simp_all add: share_example_unfold)

lemma share_example_calm: "shares_calm 2 (share_example es r)" "heap_calm (share_example es r)"
  using heap_example_calm
  by (simp_all add: shares_calm_def heap_calm_def calm_def share_example_unfold)

lemma share_example_tables:
  assumes "heap_calm s" and "mem s 0xF6003000 = mem (share_example es r) 0xF6003000" and "number_of_frames s = 4096"
    and "frames_info s 1000 = null_frame_info\<lparr>fi_va := 0xF6004000\<rparr>" and "va = 0x82001000 \<or> va = 0x82002000"
  shows "table_ok s 0xF6003000 va 0xF6004000"
proof -
  have "unat (PDX va) = 520" "\<not> CHECK_IF_KERNEL_ADDRESS va" using assms(5) by (auto simp: unat_PDX CHECK_IF_KERNEL_ADDRESS_def)
  moreover have "PPN (0x3E8000 :: u32) = 1000" by (simp add: PPN_def)
  ultimately show ?thesis using assms(1-4)
    by (simp add: table_ok_def present_def EXTRACT_ADDRESS_def heap_va_of_def null_frame_info_def)
qed

lemma share_example_frame: "frames_info (share_example es r) f = (if f = 1000 then null_frame_info\<lparr>fi_va := 0xF6004000\<rparr> else null_frame_info)"
  by (simp add: share_example_unfold)

lemma share_example_pages: "page_no 0x82001000 0 = 0x82001000" "page_no 0x82001000 1 = 0x82002000" "page_no 0x82001000 (Suc 0) = 0x82002000"
  "frames_of_int 5000 = 2" "frames_of 5000 = 2" "[0 ..< 2] = [0, 1 :: nat]"
proof -
  have "sint (9095 :: u32) = 9095" by (simp add: sint_uint signed_take_bit_eq_if_positive)
  then show "frames_of_int 5000 = 2" by (simp add: frames_of_int_def)
  show "[0 ..< 2] = [0, 1 :: nat]" by (simp add: numeral_2_eq_2)
qed (simp_all add: page_no_def frames_of_def)

lemma less_2: "(\<forall>i < 2. P i) \<longleftrightarrow> P 0 \<and> P (1 :: nat)"
  by (auto simp: numeral_2_eq_2 less_Suc_eq)

lemma share_example_calm':
  "heap_calm (in_shares (share_example es r))"
  using share_example_calm [of es r]
  by (simp add: heap_calm_def calm_def in_shares_def shares_calm_def pushcli_ok)

theorem get_shared_object_maps_frames_witness:
  "\<exists>t. get_shared_object 7 [97] 0x82001000 (share_example [] 1) = Inr (0x76000200, t) \<and> mem t 0xF6004000 2 = 0x5DD005
     \<and> references (frames_info t 1501) = 1 \<and> sh_references (shr_at t 0xF6000200) = 2"
proof -
  let ?s = "share_example [] 1"
  have fr: "frame_of 0x3E8001 = 1000" by (simp add: frame_of_eq)
  have n: "share_named 7 [97] ?s = 0xF6000200" by (simp add: share_named_def LIST_FIRST_def first_of_def)
  have i: "mem (in_shares ?s) = mem ?s" "number_of_frames (in_shares ?s) = 4096" "frames_info (in_shares ?s) = frames_info ?s"
    by (simp_all add: in_shares_def)
  have tk: "table_ok (in_shares ?s) 0xF6003000 va 0xF6004000" if "va = 0x82001000 \<or> va = 0x82002000" for va
    by (rule share_example_tables [OF share_example_calm' _ _ _ that, of "[]" 1]) (simp_all add: i share_example_frame)
  have "share_room [0, 1] 0xF6003000 (\<lambda>i. 1500 + i) 0x82001000 (\<lambda>_. 0xF6004000) (in_shares ?s)"
    by (simp add: share_room_def room_for_def share_example_pages tk unat_PTX unat_PDX inj_on_def i entry_ok_def present_def fr)
  then have "\<exists>t. get_shared_object 7 [97] 0x82001000 ?s = Inr (0x76000200, t)
      \<and> (\<forall>i < 2. mem t 0xF6004000 (unat (PTX (page_no 0x82001000 i)))
            = shared_entry (1500 + i) (share_perms 0) (mem ?s 0xF6004000 (unat (PTX (page_no 0x82001000 i))))
          \<and> references (frames_info t (1500 + i)) = references (frames_info ?s (1500 + i)) + 1)
      \<and> shr_at t = (shr_at ?s)(0xF6000200 := (shr_at ?s 0xF6000200)\<lparr>sh_references := 2\<rparr>)"
    using get_shared_object_maps_frames [OF share_example_calm(1) [of "[]" 1], where owner = 7 and name = "[97]" and fr = "\<lambda>i. 1500 + i"
        and va = "0x82001000" and tab = "\<lambda>_. 0xF6004000"]
    by (auto simp: n share_example_pages)
  then show ?thesis
    by (auto simp: less_2 share_example_pages unat_PTX shared_entry_def share_perms_def share_example_frame null_frame_info_def
        to_physical_address_def CONSTRUCT_ENTRY_def)
qed


lemma lessThan_2: "{..<2} = {0, 1 :: nat}"
  by auto

lemma delete_example_room:
  "del_room [0, 1] 0xF6003000 0x82001000 (\<lambda>_. 0xF6004000) (in_shares (share_example [0, 0x5DC407, 0x5DD407, 0, 0, 0x123007] r))"
proof -
  let ?s = "share_example [0, 0x5DC407, 0x5DD407, 0, 0, 0x123007] r"
  have i: "mem (in_shares ?s) = mem ?s" "number_of_frames (in_shares ?s) = 4096" "frames_info (in_shares ?s) = frames_info ?s"
    by (simp_all add: in_shares_def)
  have fr: "frame_of 0x3E8001 = 1000" "frame_of 0x5DC407 = 1500" "frame_of 0x5DD407 = 1501" by (simp_all add: frame_of_eq)
  have tk: "table_ok (in_shares ?s) 0xF6003000 va 0xF6004000" if "va = 0x82001000 \<or> va = 0x82002000" for va
    by (rule share_example_tables [OF share_example_calm' _ _ _ that]) (simp_all add: i share_example_frame)
  have "\<exists>j < 1024. present (mem ?s 0xF6004000 j) \<and> j \<noteq> 1 \<and> j \<noteq> 2" by (rule exI [of _ 5]) (simp add: present_def)
  moreover have "present 0x5DC407" "present 0x5DD407" by (simp_all add: present_def)
  ultimately show ?thesis
    by (simp add: del_room_def share_example_pages tk unat_PTX unat_PDX inj_on_def i entry_ok_def fr)
qed

theorem delete_shared_object_spec_witness:
  "\<exists>t. delete_shared_object 0x76000200 0x82001000 (share_example [0, 0x5DC407, 0x5DD407, 0, 0, 0x123007] 2) = Inr (0, t)
     \<and> mem t 0xF6004000 1 = 0x400 \<and> mem t 0xF6004000 5 = 0x123007 \<and> sh_references (shr_at t 0xF6000200) = 1
     \<and> delete_shared_object 0x76000200 0x82001000 (share_example [0, 0x5DC407, 0x5DD407, 0, 0, 0x123007] 1)
       = Inl (Panic ''acquire_spinlock: lock is already held by the same CPU.'')"
proof -
  let ?s = "share_example [0, 0x5DC407, 0x5DD407, 0, 0, 0x123007]"
  have n: "share_with_id 0x76000200 (?s r) = 0xF6000200" for r by (simp add: share_with_id_def LIST_FIRST_def first_of_def)
  note spec1 = delete_shared_object_spec [where s = "?s 1" and sid = "0x76000200" and va = "0x82001000" and tab = "\<lambda>_. 0xF6004000",
      OF share_example_calm(1), unfolded n share_example_fields share_example_pages Share.simps, OF impI [OF delete_example_room]]
  note spec2 = delete_shared_object_spec [where s = "?s 2" and sid = "0x76000200" and va = "0x82001000" and tab = "\<lambda>_. 0xF6004000",
      OF share_example_calm(1), unfolded n share_example_fields share_example_pages Share.simps, OF impI [OF delete_example_room]]
  have "(\<lambda>i. (0xF6004000 :: u32, unat (PTX (page_no 0x82001000 i)))) ` {..<2} = {(0xF6004000, 2), (0xF6004000, 1)}"
    by (simp add: lessThan_2 share_example_pages unat_PTX insert_commute)
  then show ?thesis using spec1 spec2 by auto
qed


lemma kmalloc_reuse:
  assumes "heap_calm s" and "0 < sz" and "sz \<le> 2048" and "class_loop class_fuel sz 8 0 = Some (c, k)"
    and "freeBlockLists (kh_da s) k \<noteq> []" and "take_block k (kh_da s) = Inr (b, d)"
  shows "kmalloc sz s = Inr (b, s\<lparr>kh_da := d\<rparr>)"
proof -
  let ?s = "s\<lparr>kcpu := pushcli (kcpu s), heap_lock := held_lock (kcpu s)\<rparr>"
  have al: "alloc_block gp sz (kh_da s, ?s) = Inr (Ret b, d, ?s)" for gp
    using assms(2-6) by (auto simp: alloc_block_def)
  have "locked_heap (kcpu s) ((?s)\<lparr>kh_da := d\<rparr>)" using locked_after_acquire [OF assms(1)] by (simp add: locked_heap_def)
  from finish_locked [OF this, of b] al show ?thesis
    using assms(1) by (simp add: kmalloc_small_unfold [OF assms(1-3)] heap_calm_def)
qed

lemma class_loop_small: "class_loop class_fuel 96 8 0 = Some (128, 4)" "class_loop class_fuel 8 8 0 = Some (8, 0)"
  by code_simp+

definition created_example :: pshare where
  "created_example = (in_shares (share_example [] 1))
     \<lparr>kh_da := (kh_da (share_example [] 1))\<lparr>freeBlockLists := (\<lambda>_. []),
        pageBlockInfoArr := (pageBlockInfoArr (kh_da (share_example [] 1)))
          (0 := \<lparr>block_size = 0, num_of_free_blocks = - 1\<rparr>, 1 := \<lparr>block_size = 0, num_of_free_blocks = - 1\<rparr>)\<rparr>,
      shr_at := (shr_at (share_example [] 1))(0xF6000280 := \<lparr>sh_ID = 0x76000280, ownerID = 7, sh_name = [98], sh_size = 5000,
         sh_references = 1, isWritable = 1, framesStorage = 0xF6001008\<rparr>),
      storage_at := (storage_at (share_example [] 1))(0xF6001008 := (\<lambda>i. if i < 2 then None else storage_at (share_example [] 1) 0xF6001008 i))\<rparr>"

lemma share_example_alloc: "alloc_share 7 [98] 5000 1 (in_shares (share_example [] 1)) = Inr (0xF6000280, created_example)"
proof -
  let ?s = "in_shares (share_example [] 1)"
  have da: "kh_da ?s = da_example\<lparr>freeBlockLists := (\<lambda>k. if k = 4 then [0xF6000280] else if k = 0 then [0xF6001008] else [])\<rparr>"
    by (simp add: in_shares_def share_example_unfold)
  let ?d1 = "(kh_da ?s)\<lparr>freeBlockLists := (freeBlockLists (kh_da ?s))(4 := []),
    pageBlockInfoArr := (pageBlockInfoArr (kh_da ?s))(0 := \<lparr>block_size = 0, num_of_free_blocks = - 1\<rparr>)\<rparr>"
  let ?d2 = "(?d1)\<lparr>freeBlockLists := (\<lambda>_. []),
    pageBlockInfoArr := (pageBlockInfoArr ?d1)(1 := \<lparr>block_size = 0, num_of_free_blocks = - 1\<rparr>)\<rparr>"
  have t1: "take_block 4 (kh_da ?s) = Inr (0xF6000280, ?d1)"
    by (simp add: da take_block_def to_page_info_def da_example_def Let_def)
  have t2: "take_block 0 ?d1 = Inr (0xF6001008, ?d2)"
    by (simp add: da take_block_def to_page_info_def da_example_def Let_def fun_eq_iff)
  have k1: "kmalloc 96 ?s = Inr (0xF6000280, ?s\<lparr>kh_da := ?d1\<rparr>)"
    by (rule kmalloc_reuse [OF share_example_calm' _ _ class_loop_small(1) _ t1]) (simp_all add: da)
  have k2: "kmalloc 8 t = Inr (0xF6001008, t\<lparr>kh_da := ?d2\<rparr>)" if "heap_calm t" "kh_da t = ?d1" for t :: pshare
    by (rule kmalloc_reuse [OF that(1) _ _ class_loop_small(2)]) (simp_all add: that(2) t2, simp add: da)
  define t where "t = upd_share 0xF6000280 (\<lambda>v. v\<lparr>sh_references := 1, sh_ID := 0x76000280, sh_size := 5000, isWritable := 1,
    ownerID := 7, sh_name := [98]\<rparr>) (?s\<lparr>kh_da := ?d1\<rparr>)"
  have "heap_calm t" using share_example_calm' [of "[]" 1] by (simp add: t_def heap_calm_def calm_def upd_share_def)
  moreover have "kh_da t = ?d1" by (simp add: t_def upd_share_def)
  ultimately have k3: "kmalloc 8 t = Inr (0xF6001008, t\<lparr>kh_da := ?d2\<rparr>)" by (rule k2)
  have st: "storage_at t = storage_at (share_example [] 1)" by (simp add: t_def upd_share_def in_shares_def)
  have "t\<lparr>kh_da := ?d2, shr_at := (shr_at t)(0xF6000280 := (shr_at t 0xF6000280)\<lparr>framesStorage := 0xF6001008\<rparr>),
      storage_at := (storage_at t)(0xF6001008 := (\<lambda>i. if i < 2 then None else storage_at t 0xF6001008 i))\<rparr> = created_example"
    unfolding st by (simp add: t_def created_example_def upd_share_def) (simp add: in_shares_def)
  then show ?thesis
    by (simp add: alloc_share_def k1 Let_def share_example_pages t_def [symmetric] k3) (simp add: upd_share_def cong: if_cong)
qed

theorem create_shared_object_maps_frames_witness:
  "\<exists>t. create_shared_object 7 [98] 5000 1 0x82001000 (share_example [] 1) = Inr (0x76000280, t)
     \<and> shares_list t = [0xF6000280, 0xF6000200] \<and> mem t 0xF6004000 2 = 0x7D1007 \<and> references (frames_info t 2001) = 1
     \<and> storage_at t 0xF6001008 1 = Some 2001 \<and> free_frame_list t = [2002]"
proof -
  let ?s = "share_example [] 1" and ?c = created_example
  have n: "share_named 7 [98] ?s = 0" by (simp add: share_named_def LIST_FIRST_def first_of_def)
  have c: "mem ?c = mem ?s" "number_of_frames ?c = 4096" "frames_info ?c = frames_info ?s" "shares_list ?c = shares_list ?s"
    "env_page_directory (envs ?c 2) = 0xF6003000" "free_frame_list ?c = free_frame_list ?s" "kcpu ?c = pushcli (kcpu ?s)"
    "shareslock ?c = held_lock (kcpu ?s)" "cpu_proc ?c = cpu_proc ?s" "framesStorage (shr_at ?c 0xF6000280) = 0xF6001008"
    "sh_ID (shr_at ?c 0xF6000280) = 0x76000280" "heap_calm ?c"
    using share_example_calm' [of "[]" 1] by (simp_all add: created_example_def heap_calm_def calm_def) (simp_all add: in_shares_def)
  have fr: "frame_of 0x3E8001 = 1000" by (simp add: frame_of_eq)
  have tk: "table_ok ?c 0xF6003000 va 0xF6004000" if "va = 0x82001000 \<or> va = 0x82002000" for va
    by (rule share_example_tables [OF c(12) _ _ _ that, of "[]" 1]) (simp_all add: c share_example_frame)
  have "share_room [0, 1] 0xF6003000 (\<lambda>i. [2000, 2001, 2002] ! i) 0x82001000 (\<lambda>_. 0xF6004000) ?c"
    by (simp add: share_room_def room_for_def share_example_pages tk unat_PTX unat_PDX inj_on_def c entry_ok_def present_def fr)
  then have "\<exists>t. create_shared_object 7 [98] 5000 1 0x82001000 ?s = Inr (0x76000280, t)
      \<and> shares_list t = [0xF6000280, 0xF6000200]
      \<and> (\<forall>i < 2. storage_at t 0xF6001008 i = Some ([2000, 2001, 2002] ! i) \<and> references (frames_info t ([2000, 2001, 2002] ! i)) = 1
          \<and> mem t 0xF6004000 (unat (PTX (page_no 0x82001000 i)))
            = shared_entry ([2000, 2001, 2002] ! i) create_perms (mem ?s 0xF6004000 (unat (PTX (page_no 0x82001000 i)))))
      \<and> free_frame_list t = [2002]"
    using create_shared_object_maps_frames [OF share_example_calm(1) _ share_example_alloc, where va = "0x82001000" and tab = "\<lambda>_. 0xF6004000"]
      share_example_calm(1) [of "[]" 1]
    by (auto simp: n c share_example_pages shares_calm_def)
  then show ?thesis
    by (auto simp: less_2 share_example_pages unat_PTX shared_entry_def to_physical_address_def CONSTRUCT_ENTRY_def)
qed

end
