(* ===== verification/FOS_Env.thy ===== *)
theory FOS_Env
  imports FOS_Share FOS_Conc FOS_Optimal
begin

text \<open>
  Environments: \<^verbatim>\<open>kern/proc/user_environment.c\<close> and \<^verbatim>\<open>kern/proc/user_programs.c\<close>, and the killing of processes in
  \<^verbatim>\<open>kern/cpu/sched_helpers.c\<close>.  The fields of \<^verbatim>\<open>struct Env\<close> that no other component uses are in a second record, \<open>EnvX\<close>.

  The program images are bytes of the kernel's memory.  Loading a program switches to the address space of the new
  process with \<open>lcr3\<close>: the words of the user pages of the current address space are \<open>mem\<close>, those of the other ones
  are kept in \<open>user_pages\<close> under the physical address of their directory, and \<open>lcr3\<close> exchanges them.  The kernel's own
  addresses are the same in all address spaces.  A loop over a range of addresses has as many rounds as there are
  steps in the range.
\<close>

section \<open>State\<close>

abbreviation (input) KERNEL_STACK_SIZE :: u32 where "KERNEL_STACK_SIZE \<equiv> 8 * PAGE_SIZE"
abbreviation (input) sizeof_Trapframe :: u32 where "sizeof_Trapframe \<equiv> 0x44"
abbreviation (input) sizeof_Context :: u32 where "sizeof_Context \<equiv> 32"
abbreviation (input) ELF_MAGIC :: u32 where "ELF_MAGIC \<equiv> 0x464C457F"
abbreviation (input) ELF_PROG_LOAD :: u32 where "ELF_PROG_LOAD \<equiv> 1"
abbreviation (input) VPT :: u32 where "VPT \<equiv> KERNEL_BASE - PTSIZE"
abbreviation (input) UVPT :: u32 where "UVPT \<equiv> USER_LIMIT - PTSIZE"
abbreviation (input) PROGNAMELEN :: nat where "PROGNAMELEN \<equiv> 64"
abbreviation (input) DEFAULT_PERCENT_OF_PAGE_WS_TO_REMOVE :: u32 where "DEFAULT_PERCENT_OF_PAGE_WS_TO_REMOVE \<equiv> 10"
abbreviation (input) ptr_temp_page :: u32 where "ptr_temp_page \<equiv> KERNEL_BASE + 2 * PAGE_SIZE"
abbreviation (input) FL_IF :: u32 where "FL_IF \<equiv> 0x200"

record EnvX =
  prog_name :: "u8 list"
  env_cr3 :: u32
  env_tf :: u32
  context_at :: u32
  env_channel :: u32
  prepagedVAs :: u32
  numOfPrepagedVAs :: u32
  table_last_WS_index :: u32
  ActiveListSize :: u32
  SecondListSize :: u32
  uptr_pws :: u32
  percentage_of_WS_pages_to_be_removed :: u32
  freeingFullWSCounter :: u32
  freeingScarceMemCounter :: u32
  nModifiedPages :: u32
  nNotModifiedPages :: u32
  env_runs :: u32

text \<open>\<open>env_start_va\<close> and \<open>trapret_va\<close> are the addresses of the two routines of these names.\<close>

record penv = pshare +
  env_free_list :: "nat list"
  envx :: "nat \<Rightarrow> EnvX"
  userPrograms :: "(u8 list \<times> u32) list"
  cr3 :: u32
  user_pages :: "u32 \<Rightarrow> u32 \<Rightarrow> nat \<Rightarrow> u32"
  channel_at :: "u32 \<Rightarrow> nat list"
  trapret_va :: u32
  env_start_va :: u32

definition upd_envx :: "nat \<Rightarrow> (EnvX \<Rightarrow> EnvX) \<Rightarrow> 'a penv_scheme \<Rightarrow> 'a penv_scheme" where
  "upd_envx e f s = s\<lparr>envx := (envx s)(e := f (envx s e))\<rparr>"

definition lcr3 :: "u32 \<Rightarrow> 'a penv_scheme \<Rightarrow> 'a penv_scheme" where
  "lcr3 pa s = (let saved = (user_pages s)(cr3 s := mem s)
     in s\<lparr>user_pages := saved, mem := (\<lambda>p. if p < USER_TOP then saved pa p else mem s p), cr3 := pa\<rparr>)"

definition enter_cli :: "'a kmem_scheme \<Rightarrow> 'a kmem_scheme" where
  "enter_cli s = s\<lparr>kcpu := pushcli (kcpu s)\<rparr>"

definition leave_cli :: "'a kmem_scheme \<Rightarrow> 'a kmem_scheme res" where
  "leave_cli s = bindE (popcli (kcpu s)) (\<lambda>c. Inr (s\<lparr>kcpu := c\<rparr>))"

section \<open>Bytes of memory\<close>

definition load_byte :: "u32 \<Rightarrow> 'a kmem_scheme \<Rightarrow> u8" where
  "load_byte a s = ucast (drop_bit (8 * (unat a mod 4)) (word_at a s))"

definition store_byte :: "u32 \<Rightarrow> u8 \<Rightarrow> 'a kmem_scheme \<Rightarrow> 'a kmem_scheme" where
  "store_byte a b s = (let k = 8 * (unat a mod 4)
     in set_word a ((word_at a s AND NOT (push_bit k 0xFF)) OR push_bit k (ucast b)) s)"

fun copy_bytes :: "nat \<Rightarrow> u32 \<Rightarrow> u32 \<Rightarrow> 'a kmem_scheme \<Rightarrow> 'a kmem_scheme" where
  "copy_bytes 0 dst src s = s"
| "copy_bytes (Suc n) dst src s = copy_bytes n (dst + 1) (src + 1) (store_byte dst (load_byte src s) s)"

fun zero_bytes :: "nat \<Rightarrow> u32 \<Rightarrow> 'a kmem_scheme \<Rightarrow> 'a kmem_scheme" where
  "zero_bytes 0 dst s = s"
| "zero_bytes (Suc n) dst s = zero_bytes n (dst + 1) (store_byte dst 0 s)"

definition load16 :: "u32 \<Rightarrow> 'a kmem_scheme \<Rightarrow> u32" where
  "load16 a s = ucast (load_byte a s) OR push_bit 8 (ucast (load_byte (a + 1) s))"

definition load32 :: "u32 \<Rightarrow> 'a kmem_scheme \<Rightarrow> u32" where
  "load32 a s = load16 a s OR push_bit 16 (load16 (a + 2) s)"

text \<open>The number of rounds of a loop from \<open>a\<close> up to \<open>b\<close> in steps of one.\<close>

definition rounds :: "u32 \<Rightarrow> u32 \<Rightarrow> nat" where
  "rounds a b = unat b - unat a"

section \<open>The table of environments\<close>



definition allocate_environment :: "'a penv_scheme \<Rightarrow> nat option \<times> 'a penv_scheme" where
  "allocate_environment s = (case env_free_list s of
     [] \<Rightarrow> (None, s) | e # _ \<Rightarrow> (Some e, set_status e ENV_UNKNOWN s))"

definition zero_Env :: Env where
  "zero_Env = \<lparr>env_id = 0, env_parent_id = 0, env_status = 0, priority = 0, samawaiting_ticks = 0, env_page_directory = 0,
     initNumStackPages = 0, kstack = 0, disk_env_pgdir = 0, disk_env_pgdir_PA = 0, disk_env_tabledir = 0,
     disk_env_tabledir_PA = 0, page_WS_max_size = 0, page_WS_list = [], page_last_WS_element = 0, referenceStreamList = [],
     ActiveWorkingSet = [], ptr_tws = replicate TWS_MAX_SIZE \<lparr>virtual_address = 0, ws_empty = 0, time_stamp = 0, sweeps_counter = 0\<rparr>,
     ActiveList = [], SecondList = [], pageFaultsCounter = 0, tableFaultsCounter = 0, nPageIn = 0, nPageOut = 0,
     nNewPageAdded = 0, nClocks = 0, k_intena = False, k_started = False\<rparr>"

definition zero_EnvX :: EnvX where
  "zero_EnvX = \<lparr>prog_name = [], env_cr3 = 0, env_tf = 0, context_at = 0, env_channel = 0, prepagedVAs = 0, numOfPrepagedVAs = 0,
     table_last_WS_index = 0, ActiveListSize = 0, SecondListSize = 0, uptr_pws = 0,
     percentage_of_WS_pages_to_be_removed = 0, freeingFullWSCounter = 0, freeingScarceMemCounter = 0, nModifiedPages = 0,
     nNotModifiedPages = 0, env_runs = 0\<rparr>"

definition free_environment :: "nat \<Rightarrow> 'a penv_scheme \<Rightarrow> 'a penv_scheme" where
  "free_environment e s = (let s1 = upd_envx e (\<lambda>_. zero_EnvX) (upd_env e (\<lambda>_. zero_Env\<lparr>env_status := ENV_FREE\<rparr>) s)
     in s1\<lparr>env_free_list := e # env_free_list s1\<rparr>)"

definition get_user_program_info :: "u8 list \<Rightarrow> 'a penv_scheme \<Rightarrow> (u8 list \<times> u32) option" where
  "get_user_program_info name s = find (\<lambda>p. fst p = name) (userPrograms s)"

definition get_user_program_info_by_env :: "nat \<Rightarrow> 'a penv_scheme \<Rightarrow> (u8 list \<times> u32) option" where
  "get_user_program_info_by_env e s = find (\<lambda>p. fst p = prog_name (envx s e)) (userPrograms s)"

section \<open>Program images\<close>

text \<open>\<open>e_phoff\<close>, \<open>e_phnum\<close> and \<open>e_entry\<close> of the file header, and the fields of a program header of 32 bytes.\<close>

definition elf_phoff :: "u32 \<Rightarrow> 'a kmem_scheme \<Rightarrow> u32" where "elf_phoff start s = load32 (start + 28) s"
definition elf_phnum :: "u32 \<Rightarrow> 'a kmem_scheme \<Rightarrow> u32" where "elf_phnum start s = load16 (start + 44) s"
definition elf_entry :: "u32 \<Rightarrow> 'a kmem_scheme \<Rightarrow> u32" where "elf_entry start s = load32 (start + 24) s"

definition ph_at :: "u32 \<Rightarrow> u32 \<Rightarrow> 'a kmem_scheme \<Rightarrow> u32" where
  "ph_at start i s = start + elf_phoff start s + 32 * i"

record ProgramSegment =
  ptr_start :: u32
  size_in_file :: u32
  size_in_memory :: u32
  seg_virtual_address :: u32
  segment_id :: u32

text \<open>The search for the next header of type \<open>ELF_PROG_LOAD\<close> ends at the number of headers at the latest.\<close>

fun seek_load :: "nat \<Rightarrow> u32 \<Rightarrow> u32 \<Rightarrow> 'a kmem_scheme \<Rightarrow> u32" where
  "seek_load 0 start i s = i"
| "seek_load (Suc n) start i s =
     (if load32 (ph_at start i s) s \<noteq> ELF_PROG_LOAD \<and> i < elf_phnum start s then seek_load n start (i + 1) s else i)"

definition segment_from :: "u32 \<Rightarrow> u32 \<Rightarrow> 'a kmem_scheme \<Rightarrow> ProgramSegment option res" where
  "segment_from start i s =
     (if load32 start s \<noteq> ELF_MAGIC then Inl (Panic ''Matafa2nash 3ala Keda'')
      else let j = seek_load (rounds i (elf_phnum start s)) start i s; ph = ph_at start j s in
        if j < elf_phnum start s then
          Inr (Some \<lparr>ptr_start = start + load32 (ph + 4) s, size_in_file = load32 (ph + 16) s, size_in_memory = load32 (ph + 20) s,
                     seg_virtual_address = load32 (ph + 8) s, segment_id = j\<rparr>)
        else Inr None)"

definition PROGRAM_SEGMENT_FIRST :: "u32 \<Rightarrow> 'a kmem_scheme \<Rightarrow> ProgramSegment option res" where
  "PROGRAM_SEGMENT_FIRST start s = segment_from start 0 s"

definition PROGRAM_SEGMENT_NEXT :: "ProgramSegment \<Rightarrow> u32 \<Rightarrow> 'a kmem_scheme \<Rightarrow> ProgramSegment option res" where
  "PROGRAM_SEGMENT_NEXT seg start s = segment_from start (segment_id seg + 1) s"

definition set_environment_entry_point :: "nat \<Rightarrow> u32 \<Rightarrow> 'a penv_scheme \<Rightarrow> 'a penv_scheme res" where
  "set_environment_entry_point e start s =
     (if load32 start s \<noteq> ELF_MAGIC then Inl (Panic ''Matafa2nash 3ala Keda'')
      else Inr (set_word (env_tf (envx s e) + 48) (elf_entry start s) s))"

section \<open>Directory and kernel stack\<close>

definition create_user_directory :: "'a penv_scheme \<Rightarrow> (u32 \<times> 'a penv_scheme) res" where
  "create_user_directory s = bindE (kmalloc PAGE_SIZE s) (\<lambda>(p, s1).
     if p = 0 then Inl (Panic ''NOT ENOUGH KERNEL HEAP SPACE'') else Inr (p, s1))"

definition create_user_kern_stack :: "u32 \<Rightarrow> 'a penv_scheme \<Rightarrow> (u32 \<times> 'a penv_scheme) res" where
  "create_user_kern_stack dir s = bindE (kmalloc KERNEL_STACK_SIZE s) (\<lambda>(p, s1).
     if p = 0 then Inl (Panic ''Failed to allocate memory for user kernel stack'')
     else bindE (pt_set_page_permissions dir p 0 PERM_PRESENT s1) (\<lambda>s2. Inr (p, s2)))"

definition delete_user_kern_stack :: "nat \<Rightarrow> 'a penv_scheme \<Rightarrow> 'a penv_scheme res" where
  "delete_user_kern_stack e s =
     (if kstack (envs s e) \<noteq> 0 then bindE (kfree (kstack (envs s e)) s) (\<lambda>s1. Inr (upd_env e (\<lambda>v. v\<lparr>kstack := 0\<rparr>) s1))
      else Inr s)"

section \<open>Initialising an environment\<close>

fun bits_loop :: "nat \<Rightarrow> u32 \<Rightarrow> nat \<Rightarrow> nat" where
  "bits_loop 0 x k = k"
| "bits_loop (Suc n) x k = (let x1 = drop_bit 1 x in if x1 = 0 then k else bits_loop n x1 (Suc k))"

definition log2_ceil :: "u32 \<Rightarrow> nat" where
  "log2_ceil x = (if x \<le> 1 then 1 else bits_loop 32 (x - 1) 2)"

text \<open>The number of an environment: a generation, which is positive, and the index.\<close>

definition next_generation :: "nat \<Rightarrow> u32 \<Rightarrow> u32" where
  "next_generation n envid =
     (let shift = log2_ceil (word_of_nat n);
          generation = (envid + push_bit shift 1) AND NOT (nearest_pow2_ceil (word_of_nat n) - 1)
      in if sint generation \<le> 0 then push_bit shift 1 else generation)"

text \<open>The user part of a directory is emptied, the kernel part copied from the directory of the kernel.\<close>

definition copy_kernel_part :: "u32 \<Rightarrow> 'a kmem_scheme \<Rightarrow> 'a kmem_scheme" where
  "copy_kernel_part dir s = s\<lparr>mem := (mem s)(dir := (\<lambda>i. if i < unat (PDX USER_TOP) then 0
     else if i < 1024 then mem s (ptr_page_directory s) i else mem s dir i))\<rparr>"

text \<open>The words of the trap frame: \<open>tf_es\<close>, \<open>tf_ds\<close>, \<open>tf_cs\<close>, \<open>tf_eflags\<close>, \<open>tf_esp\<close> and \<open>tf_ss\<close> are set, the rest is 0.\<close>

fun set_words :: "u32 \<Rightarrow> u32 list \<Rightarrow> 'a kmem_scheme \<Rightarrow> 'a kmem_scheme" where
  "set_words a [] s = s"
| "set_words a (w # ws) s = set_words (a + 4) ws (set_word a w s)"

definition initial_trapframe :: "u32 list" where
  "initial_trapframe = replicate 8 0 @ [0x23, 0x23, 0, 0, 0, 0x1B, FL_IF, USTACKTOP, 0x23]"

definition complete_environment_initialization :: "nat \<Rightarrow> 'a penv_scheme \<Rightarrow> 'a penv_scheme res" where
  "complete_environment_initialization e s =
     (let dir = env_page_directory (envs s e); pa = env_cr3 (envx s e) in
      bindE (store dir (PDX VPT) (pa OR PERM_PRESENT OR PERM_WRITEABLE) s) (\<lambda>s1.
      bindE (store dir (PDX UVPT) (pa OR PERM_PRESENT OR PERM_USER) s1) (\<lambda>s2.
      let s3 = upd_env e (\<lambda>v. v\<lparr>disk_env_pgdir := 0, disk_env_pgdir_PA := 0, disk_env_tabledir := 0, disk_env_tabledir_PA := 0,
                 env_id := next_generation (nenv s2) (env_id v) OR word_of_nat e\<rparr>) s2 in
      bindE (get_cpu_proc s3) (\<lambda>(cur, s4).
      let s5 = upd_env e (\<lambda>v. v\<lparr>env_parent_id := (case cur of None \<Rightarrow> 0 | Some c \<Rightarrow> env_id (envs s4 c)), env_status := ENV_NEW\<rparr>) s4;
          s6 = set_words (env_tf (envx s5 e)) initial_trapframe (upd_envx e (\<lambda>x. x\<lparr>env_runs := 0\<rparr>) s5)
      in if e \<in> set (env_free_list s6) then Inr (s6\<lparr>env_free_list := remove1 e (env_free_list s6)\<rparr>) else Inl Fault))))"

definition initialize_environment :: "nat \<Rightarrow> u32 \<Rightarrow> u32 \<Rightarrow> 'a penv_scheme \<Rightarrow> 'a penv_scheme res" where
  "initialize_environment e dir pa s =
     (let s1 = copy_kernel_part dir (upd_envx e (\<lambda>x. x\<lparr>env_cr3 := pa\<rparr>) (upd_env e (\<lambda>v. v\<lparr>env_page_directory := dir\<rparr>) s)) in
      bindE (create_user_kern_stack dir s1) (\<lambda>(stk, s2).
      let tf = stk + KERNEL_STACK_SIZE - sizeof_Trapframe;
          ctx = tf - 4 - sizeof_Context;
          s3 = upd_envx e (\<lambda>x. x\<lparr>env_tf := tf, context_at := ctx\<rparr>) (upd_env e (\<lambda>v. v\<lparr>kstack := stk, k_started := False\<rparr>) s2);
          s4 = set_words ctx (replicate 7 0 @ [env_start_va s3]) (set_word (tf - 4) (trapret_va s3) s3);
          s5 = upd_env e (\<lambda>v. v\<lparr>page_WS_list := [], referenceStreamList := [],
                 ptr_tws := map (\<lambda>w. w\<lparr>virtual_address := 0, ws_empty := 1, time_stamp := 0\<rparr>) (ptr_tws v),
                 pageFaultsCounter := 0, tableFaultsCounter := 0, nClocks := 0, nPageIn := 0, nPageOut := 0, nNewPageAdded := 0\<rparr>) s4
      in complete_environment_initialization e (upd_envx e (\<lambda>x. x\<lparr>table_last_WS_index := 0, freeingFullWSCounter := 0,
           freeingScarceMemCounter := 0, nModifiedPages := 0, nNotModifiedPages := 0\<rparr>) s5)))"

section \<open>Loading a segment\<close>

definition lists_approx :: "'a psched_scheme \<Rightarrow> bool" where
  "lists_approx s \<longleftrightarrow> isPageReplacmentAlgorithmLRU PG_REP_LRU_LISTS_APPROX s \<noteq> 0"

text \<open>A new element at the tail of the working set or, for the two-list approximation of LRU, at the head of one of
  the two lists; \<open>room\<close> is the number of elements of the active list from which on the second list is used.\<close>

definition add_to_ws :: "nat \<Rightarrow> u32 \<Rightarrow> u32 \<Rightarrow> 'a penv_scheme \<Rightarrow> 'a penv_scheme" where
  "add_to_ws e w room s =
     (if lists_approx s then
        (if word_of_nat (length (ActiveList (envs s e))) < room then upd_env e (\<lambda>v. v\<lparr>ActiveList := w # ActiveList v\<rparr>) s
         else upd_env e (\<lambda>v. v\<lparr>SecondList := w # SecondList v\<rparr>) s)
      else upd_env e (\<lambda>v. v\<lparr>page_WS_list := page_WS_list v @ [w]\<rparr>) s)"

definition set_last_ws :: "nat \<Rightarrow> u32 list \<Rightarrow> 'a penv_scheme \<Rightarrow> 'a penv_scheme" where
  "set_last_ws e ws s = upd_env e (\<lambda>v. v\<lparr>page_last_WS_element :=
     (if word_of_nat (length ws) = page_WS_max_size v then LIST_FIRST ws else 0)\<rparr>) s"

text \<open>A table that is met for the first time goes to the table working set.\<close>

definition note_table :: "nat \<Rightarrow> u32 \<Rightarrow> u32 \<Rightarrow> 'a penv_scheme \<Rightarrow> (u32 \<times> 'a penv_scheme) res" where
  "note_table e iVA lastTable s =
     (if PDX iVA = lastTable then Inr (lastTable, s)
      else
        let k = table_last_WS_index (envx s e); k1 = (k + 1) mod word_of_nat TWS_MAX_SIZE in
        if length (ptr_tws (envs s e)) \<le> unat k then Inl Fault
        else
          let s1 = upd_env e (\<lambda>v. v\<lparr>ptr_tws := (ptr_tws v)[unat k := (ptr_tws v ! unat k)\<lparr>virtual_address := ROUNDDOWN iVA PTSIZE,
                     ws_empty := 0, time_stamp := 0\<rparr>]\<rparr>) s;
              s2 = upd_envx e (\<lambda>x. x\<lparr>table_last_WS_index := k1\<rparr>) s1
          in if k1 = 0 then Inl (Panic ''env_create: Table working set become FULL during the application loading'')
             else Inr (PDX iVA, s2))"

text \<open>The loop over the pages of a segment, at most \<open>n\<close> of them; it returns the number of pages.\<close>

fun segment_pages :: "nat \<Rightarrow> nat \<Rightarrow> u32 \<Rightarrow> u32 \<Rightarrow> u32 \<Rightarrow> u32 \<Rightarrow> 'a penv_scheme \<Rightarrow> (u32 \<times> u32 \<times> 'a penv_scheme) res" where
  "segment_pages 0 e iVA end_vaddr allocated lastTable s = Inr (allocated, lastTable, s)"
| "segment_pages (Suc n) e iVA end_vaddr allocated lastTable s =
     (if iVA < end_vaddr then
        bindE (allocate_frame s) (\<lambda>(f, s1).
        bindE (loadtime_map_frame kernel_create_page_table (env_page_directory (envs s1 e)) f iVA (PERM_USER OR PERM_WRITEABLE) s1) (\<lambda>s2.
        bindE (env_page_ws_list_create_element iVA s2) (\<lambda>(w, s3).
        let s4 = upd_wse w (\<lambda>v. v\<lparr>time_stamp := 0\<rparr>) s3;
            s5 = add_to_ws e w (ActiveListSize (envx s4 e) - 1) s4;
            s6 = set_last_ws e (page_WS_list (envs s5 e)) s5
        in bindE (note_table e iVA lastTable s6) (\<lambda>(lastTable1, s7).
           segment_pages n e (iVA + PAGE_SIZE) end_vaddr (allocated + 1) lastTable1 s7))))
      else Inr (allocated, lastTable, s))"

text \<open>The names of the test programs whose data segment is loaded in part: \<open>tpp\<close>, \<open>tia\<close> and \<open>tia_slave1\<close> to \<open>4\<close>.\<close>

definition capped_programs :: "u8 list set" where
  "capped_programs = {[116, 112, 112], [116, 105, 97], [116, 105, 97, 95, 115, 108, 97, 118, 101, 49],
     [116, 105, 97, 95, 115, 108, 97, 118, 101, 50], [116, 105, 97, 95, 115, 108, 97, 118, 101, 51],
     [116, 105, 97, 95, 115, 108, 97, 118, 101, 52]}"

definition segment_cap :: "u8 list \<Rightarrow> u32 \<Rightarrow> u32 \<Rightarrow> u32" where
  "segment_cap name iVA remaining =
     (let r = (if iVA = 0x200000 then 0 else remaining)
      in if iVA = 0x803000 \<and> name \<in> capped_programs then (if r < 9 then r else 9) else r)"

definition program_segment_alloc_map_copy_workingset ::
  "nat \<Rightarrow> ProgramSegment \<Rightarrow> u32 \<Rightarrow> u32 \<Rightarrow> 'a penv_scheme \<Rightarrow> (u32 \<times> u32 \<times> 'a penv_scheme) res" where
  "program_segment_alloc_map_copy_workingset e seg remaining lastTable s =
     (let vaddr = seg_virtual_address seg; iVA = ROUNDDOWN vaddr PAGE_SIZE;
          n = segment_cap (prog_name (envx s e)) iVA remaining
      in bindE (segment_pages (unat n) e iVA (ROUNDUP (vaddr + size_in_memory seg) PAGE_SIZE) 0 lastTable s) (\<lambda>(allocated, lastTable1, s1).
         let lim = iVA + allocated * PAGE_SIZE;
             c = min (rounds vaddr lim) (rounds vaddr (vaddr + size_in_file seg));
             dst = vaddr + word_of_nat c
         in Inr (allocated, lastTable1, zero_bytes (rounds dst lim) dst (copy_bytes c vaddr (ptr_start seg) s1))))"

text \<open>Writing the segment to the page file: the first page when the segment starts inside it, the pages up to the one that
  holds the end of the file part, that page, and pages of zeros.\<close>

definition pf_put :: "nat \<Rightarrow> u32 \<Rightarrow> u32 \<Rightarrow> 'a penv_scheme \<Rightarrow> 'a penv_scheme res" where
  "pf_put e va src s = bindE (pf_add_env_page e va src s) (\<lambda>(r, s1).
     if r = E_NO_PAGE_FILE_SPACE then Inl (Panic ''ERROR: Page File OUT OF SPACE'') else Inr s1)"

fun pf_put_pages :: "nat \<Rightarrow> nat \<Rightarrow> u32 \<Rightarrow> u32 \<Rightarrow> 'a penv_scheme \<Rightarrow> 'a penv_scheme res" where
  "pf_put_pages 0 e va src s = Inr s"
| "pf_put_pages (Suc n) e va src s = bindE (pf_put e va src s) (pf_put_pages n e (va + PAGE_SIZE) (src + PAGE_SIZE))"

fun pf_put_zeros :: "nat \<Rightarrow> nat \<Rightarrow> u32 \<Rightarrow> 'a penv_scheme \<Rightarrow> 'a penv_scheme res" where
  "pf_put_zeros 0 e va s = Inr s"
| "pf_put_zeros (Suc n) e va s = bindE (pf_add_empty_env_page e va 1 s) (\<lambda>(r, s1).
     if r = E_NO_PAGE_FILE_SPACE then Inl (Panic ''ERROR: Page File OUT OF SPACE'') else pf_put_zeros n e (va + PAGE_SIZE) s1)"

definition segment_to_page_file :: "nat \<Rightarrow> ProgramSegment \<Rightarrow> 'a penv_scheme \<Rightarrow> 'a penv_scheme res" where
  "segment_to_page_file e seg s =
     (let seg_va = seg_virtual_address seg; src = ptr_start seg;
          start_first_page = ROUNDDOWN seg_va PAGE_SIZE; end_first_page = ROUNDUP seg_va PAGE_SIZE;
          offset_first_page = seg_va - start_first_page;
          c1 = (if offset_first_page = 0 then 0 else rounds seg_va end_first_page);
          start_last_page = ROUNDDOWN (seg_va + size_in_file seg) PAGE_SIZE; end_last_page = seg_va + size_in_file seg;
          src1 = src + word_of_nat c1;
          n = rounds end_first_page start_last_page div 4096;
          src2 = src1 + word_of_nat (4096 * n);
          start_remaining = ROUNDUP (seg_va + size_in_file seg) PAGE_SIZE;
          remaining = seg_va + size_in_memory seg - start_remaining
      in bindE (if offset_first_page = 0 then Inr s
                else pf_put e start_first_page ptr_temp_page
                       (copy_bytes c1 (ptr_temp_page + offset_first_page) src (zero_bytes 4096 ptr_temp_page s))) (\<lambda>s1.
         bindE (pf_put_pages n e end_first_page src1 s1) (\<lambda>s2.
         bindE (pf_put e start_last_page ptr_temp_page
                  (copy_bytes (rounds start_last_page end_last_page) ptr_temp_page src2 (zero_bytes 4096 ptr_temp_page s2))) (\<lambda>s3.
         pf_put_zeros (unat (ROUNDUP remaining PAGE_SIZE) div 4096) e start_remaining s3))))"

text \<open>The loop over the segments; there are at most as many as program headers.\<close>

fun load_segments :: "nat \<Rightarrow> nat \<Rightarrow> u32 \<Rightarrow> ProgramSegment option \<Rightarrow> u32 \<Rightarrow> u32 \<Rightarrow> 'a penv_scheme \<Rightarrow> 'a penv_scheme res" where
  "load_segments n e start None remaining lastTable s = Inr s"
| "load_segments 0 e start (Some seg) remaining lastTable s = Inl Spin"
| "load_segments (Suc n) e start (Some seg) remaining lastTable s =
     bindE (program_segment_alloc_map_copy_workingset e seg remaining lastTable s) (\<lambda>(allocated, lastTable1, s1).
     bindE (segment_to_page_file e seg s1) (\<lambda>s2.
     bindE (PROGRAM_SEGMENT_NEXT seg start s2) (\<lambda>next.
     load_segments n e start next (remaining - allocated) lastTable1 s2)))"

section \<open>Creating an environment\<close>

fun clean_loop :: "u32 list \<Rightarrow> nat \<Rightarrow> 'a penv_scheme \<Rightarrow> 'a penv_scheme res" where
  "clean_loop [] e s = Inr s"
| "clean_loop (w # ws) e s =
     (let va = wse_va s w in
      bindE (get_page_table (env_page_directory (envs s e)) va s) (\<lambda>(_, table, s1).
      bindE (load table (PTX va) s1) (\<lambda>v.
      bindE (store table (PTX va) (v AND NOT PERM_MODIFIED) s1) (clean_loop ws e))))"

text \<open>The one page of the initial stack.\<close>

definition initial_stack :: "nat \<Rightarrow> 'a penv_scheme \<Rightarrow> 'a penv_scheme res" where
  "initial_stack e s =
     (let stackVa = USTACKTOP - PAGE_SIZE in
      bindE (allocate_frame (upd_env e (\<lambda>v. v\<lparr>initNumStackPages := 1\<rparr>) s)) (\<lambda>(f, s1).
      bindE (loadtime_map_frame kernel_create_page_table (env_page_directory (envs s1 e)) f stackVa (PERM_USER OR PERM_WRITEABLE) s1) (\<lambda>s2.
      bindE (env_page_ws_list_create_element stackVa (clear_page stackVa s2)) (\<lambda>(w, s3).
      let s4 = set_last_ws e (page_WS_list (envs s3 e) @ [w]) s3;
          s5 = add_to_ws e w (ActiveListSize (envx s4 e)) s4
      in bindE (pf_add_empty_env_page e stackVa 1 s5) (\<lambda>(_, s6). Inr s6)))))"

fun hide_second :: "u32 list \<Rightarrow> nat \<Rightarrow> 'a penv_scheme \<Rightarrow> 'a penv_scheme res" where
  "hide_second [] e s = Inr s"
| "hide_second (w # ws) e s =
     bindE (pt_set_page_permissions (env_page_directory (envs s e)) (wse_va s w) 0 PERM_PRESENT s) (hide_second ws e)"

definition record_prepaged :: "nat \<Rightarrow> 'a penv_scheme \<Rightarrow> 'a penv_scheme res" where
  "record_prepaged e s =
     (let ws = page_WS_list (envs s e); n = word_of_nat (length ws) in
      bindE (kmalloc (4 * n) s) (\<lambda>(q, s1).
      let s2 = upd_envx e (\<lambda>x. x\<lparr>numOfPrepagedVAs := n, prepagedVAs := q\<rparr>) s1
      in if ws \<noteq> [] \<and> q = 0 then Inl Fault else Inr (set_words q (map (wse_va s2) ws) s2)))"

definition set_sizes :: "nat \<Rightarrow> u32 \<Rightarrow> u32 \<Rightarrow> u32 \<Rightarrow> 'a penv_scheme \<Rightarrow> 'a penv_scheme" where
  "set_sizes e page_WS_size LRU_size percent s =
     (let s1 = upd_env e (\<lambda>v. v\<lparr>page_WS_max_size := page_WS_size\<rparr>) s;
          s2 = (if lists_approx s1 then upd_envx e (\<lambda>x. x\<lparr>SecondListSize := LRU_size, ActiveListSize := page_WS_size - LRU_size\<rparr>) s1 else s1)
      in upd_envx e (\<lambda>x. x\<lparr>percentage_of_WS_pages_to_be_removed :=
           (if percent = 0 then DEFAULT_PERCENT_OF_PAGE_WS_TO_REMOVE else percent)\<rparr>) s2)"

text \<open>Everything that runs in the address space of the new process.\<close>

definition load_program :: "nat \<Rightarrow> u32 \<Rightarrow> 'a penv_scheme \<Rightarrow> 'a penv_scheme res" where
  "load_program e start s =
     bindE (PROGRAM_SEGMENT_FIRST start s) (\<lambda>first.
     bindE (load_segments (unat (elf_phnum start s)) e start first (page_WS_max_size (envs s e) - 1) 0xFFFFFFFF s) (\<lambda>s1.
     bindE (clean_loop (page_WS_list (envs s1 e)) e s1) (\<lambda>s2.
     bindE (set_environment_entry_point e start s2) (\<lambda>s3.
     bindE (initial_stack e s3) (\<lambda>s4.
     if lists_approx s4 then hide_second (SecondList (envs s4 e)) e s4 else Inr s4)))))"

definition env_create :: "u8 list \<Rightarrow> u32 \<Rightarrow> u32 \<Rightarrow> u32 \<Rightarrow> 'a penv_scheme \<Rightarrow> (nat option \<times> 'a penv_scheme) res" where
  "env_create name page_WS_size LRU_size percent s =
     (let s0 = enter_cli s in
      case get_user_program_info name s0 of
        None \<Rightarrow> bindE (leave_cli s0) (\<lambda>s1. Inr (None, s1))
      | Some (pname, start) \<Rightarrow>
          (case allocate_environment s0 of
             (None, s1) \<Rightarrow> bindE (leave_cli s1) (\<lambda>s2. Inr (None, s2))
           | (Some e, s1) \<Rightarrow>
               let s2 = upd_envx e (\<lambda>x. x\<lparr>prog_name := take (PROGNAMELEN - 1) pname\<rparr>) s1 in
               bindE (create_user_directory s2) (\<lambda>(dir, s3).
               bindE (kheap_physical_address dir s3) (\<lambda>(pa, s4).
               bindE (initialize_environment e dir pa (set_sizes e page_WS_size LRU_size percent s4)) (\<lambda>s5.
               let old = cr3 s5 in
               bindE (load_program e start (lcr3 (env_cr3 (envx s5 e)) s5)) (\<lambda>s6.
               bindE (leave_cli (lcr3 old s6)) (\<lambda>s7.
               bindE (record_prepaged e s7) (\<lambda>s8. Inr (Some e, s8)))))))))"

section \<open>Freeing an environment\<close>

fun unmap_ws :: "u32 list \<Rightarrow> nat \<Rightarrow> 'a penv_scheme \<Rightarrow> 'a penv_scheme res" where
  "unmap_ws [] e s = Inr s"
| "unmap_ws (w # ws) e s = bindE (unmap_frame (env_page_directory (envs s e)) (wse_va s w) s) (unmap_ws ws e)"

fun kfree_all :: "u32 list \<Rightarrow> 'a penv_scheme \<Rightarrow> 'a penv_scheme res" where
  "kfree_all [] s = Inr s"
| "kfree_all (w # ws) s = bindE (kfree w s) (kfree_all ws)"

definition freeWSELementsEnvExitFunc :: "nat \<Rightarrow> 'a penv_scheme \<Rightarrow> 'a penv_scheme res" where
  "freeWSELementsEnvExitFunc e s =
     bindE (kfree_all (page_WS_list (envs s e)) s) (\<lambda>s1. Inr (upd_env e (\<lambda>v. v\<lparr>page_WS_list := []\<rparr>) s1))"

definition freeActiveListEnvExitFunc :: "nat \<Rightarrow> 'a penv_scheme \<Rightarrow> 'a penv_scheme res" where
  "freeActiveListEnvExitFunc e s =
     bindE (kfree_all (ActiveList (envs s e)) s) (\<lambda>s1. Inr (upd_env e (\<lambda>v. v\<lparr>ActiveList := []\<rparr>) s1))"

definition freeSecondListEnvExitFunc :: "nat \<Rightarrow> 'a penv_scheme \<Rightarrow> 'a penv_scheme res" where
  "freeSecondListEnvExitFunc e s =
     bindE (kfree_all (SecondList (envs s e)) s) (\<lambda>s1. Inr (upd_env e (\<lambda>v. v\<lparr>SecondList := []\<rparr>) s1))"

definition free_ws_pages :: "nat \<Rightarrow> 'a penv_scheme \<Rightarrow> 'a penv_scheme res" where
  "free_ws_pages e s = bindE (unmap_ws (page_WS_list (envs s e)) e s) (\<lambda>s1.
     if lists_approx s1 then
       bindE (unmap_ws (ActiveList (envs s1 e)) e s1) (\<lambda>s2. unmap_ws (SecondList (envs s2 e)) e s2)
     else Inr s1)"

definition free_ws_elements :: "nat \<Rightarrow> 'a penv_scheme \<Rightarrow> 'a penv_scheme res" where
  "free_ws_elements e s = bindE (freeWSELementsEnvExitFunc e s) (\<lambda>s1.
     bindE (if lists_approx s1 then bindE (freeActiveListEnvExitFunc e s1) (freeSecondListEnvExitFunc e) else Inr s1) (\<lambda>s2.
     bindE (if isPageReplacmentAlgorithmOPTIMAL s2 \<noteq> 0
            then bindE (kfree_all (referenceStreamList (envs s2 e)) s2) (\<lambda>s3. Inr (upd_env e (\<lambda>v. v\<lparr>referenceStreamList := []\<rparr>) s3))
            else Inr s2) (\<lambda>s4.
     bindE (if prepagedVAs (envx s4 e) \<noteq> 0
            then bindE (kfree (prepagedVAs (envx s4 e)) s4) (\<lambda>s5. Inr (upd_envx e (\<lambda>x. x\<lparr>prepagedVAs := 0\<rparr>) s5))
            else Inr s4) (\<lambda>s6.
     if uptr_pws (envx s6 e) \<noteq> 0
     then bindE (kfree (uptr_pws (envx s6 e)) s6) (\<lambda>s7. Inr (upd_envx e (\<lambda>x. x\<lparr>uptr_pws := 0\<rparr>) s7))
     else Inr s6))))"

text \<open>The table working set is searched for shared objects: an entry in use is taken for the address of one.\<close>

fun free_shares :: "nat list \<Rightarrow> nat \<Rightarrow> 'a penv_scheme \<Rightarrow> 'a penv_scheme res" where
  "free_shares [] e s = Inr s"
| "free_shares (i # is) e s =
     (if length (ptr_tws (envs s e)) \<le> i then Inl Fault
      else
        let t = ptr_tws (envs s e) ! i; va = virtual_address t in
        if va \<noteq> 0 \<and> ws_empty t = 0 then
          bindE (delete_shared_object (va AND 0x7FFFFFFF) va s) (\<lambda>(_, s1).
          free_shares is e (upd_env e (\<lambda>v. v\<lparr>ptr_tws := (ptr_tws v)[i := (ptr_tws v ! i)\<lparr>virtual_address := 0, ws_empty := 1\<rparr>]\<rparr>) s1))
        else free_shares is e s)"

definition free_channel :: "nat \<Rightarrow> 'a penv_scheme \<Rightarrow> 'a penv_scheme res" where
  "free_channel e s = (let c = env_channel (envx s e) in
     if c \<noteq> 0 then bindE (wakeup_all (channel_at s c) s) (\<lambda>(ch, s1).
       Inr (upd_envx e (\<lambda>x. x\<lparr>env_channel := 0\<rparr>) (s1\<lparr>channel_at := (channel_at s1)(c := ch)\<rparr>)))
     else Inr s)"

fun free_tables :: "nat list \<Rightarrow> nat \<Rightarrow> 'a penv_scheme \<Rightarrow> 'a penv_scheme res" where
  "free_tables [] e s = Inr s"
| "free_tables (i # is) e s =
     bindE (load (env_page_directory (envs s e)) (word_of_nat i) s) (\<lambda>pde.
     if pde AND PERM_PRESENT \<noteq> 0 then
       bindE (kheap_virtual_address (EXTRACT_ADDRESS pde) s) (\<lambda>(table, s1).
       bindE (kfree table s1) (\<lambda>s2.
       bindE (store (env_page_directory (envs s2 e)) (word_of_nat i) 0 s2) (free_tables is e)))
     else free_tables is e s)"

text \<open>The kernel stack of the process that runs is the stack the code runs on: once it is unmapped the next
  access to it faults, and so does the fault.\<close>

definition free_kernel_stack :: "nat \<Rightarrow> 'a penv_scheme \<Rightarrow> 'a penv_scheme res" where
  "free_kernel_stack e s =
     (if kstack (envs s e) \<noteq> 0 then
        bindE (kfree (kstack (envs s e)) s) (\<lambda>s1.
        if cpu_proc s1 = Some e then Inl Fault else Inr (upd_env e (\<lambda>v. v\<lparr>kstack := 0\<rparr>) s1))
      else Inr s)"

definition env_free :: "nat \<Rightarrow> 'a penv_scheme \<Rightarrow> 'a penv_scheme res" where
  "env_free e s =
     bindE (free_ws_pages e s) (\<lambda>s1.
     bindE (free_ws_elements e s1) (\<lambda>s2.
     bindE (free_shares [0 ..< TWS_MAX_SIZE] e s2) (\<lambda>s3.
     bindE (free_channel e (upd_env e (\<lambda>v. v\<lparr>nPageIn := 0, nPageOut := 0, nNewPageAdded := 0\<rparr>) s3)) (\<lambda>s4.
     bindE (free_tables [0 ..< unat (PDX USER_TOP)] e s4) (\<lambda>s5.
     bindE (kfree (env_page_directory (envs s5 e)) s5) (\<lambda>s6.
     bindE (free_kernel_stack e (upd_envx e (\<lambda>x. x\<lparr>env_cr3 := 0\<rparr>) (upd_env e (\<lambda>v. v\<lparr>env_page_directory := 0\<rparr>) s6))) (\<lambda>s7.
     bindE (pf_free_env e s7) (\<lambda>s8.
     Inr (free_environment e s8)))))))))"

section \<open>Killing processes\<close>

definition find_to_kill :: "u32 \<Rightarrow> 'a penv_scheme \<Rightarrow> (nat option \<times> 'a penv_scheme) res" where
  "find_to_kill envId s =
     (case find_env_in_queue (env_new_queue s) envId s of
        Some e \<Rightarrow> bindE (sched_remove_new (Some e) s) (\<lambda>s1. Inr (Some e, s1))
      | None \<Rightarrow>
          bindE (take_ready_loop [0 ..< unat (num_of_ready_queues s)] envId s) (\<lambda>(p, s1).
          case p of
            Some e \<Rightarrow> Inr (Some e, s1)
          | None \<Rightarrow>
              (case find_env_in_queue (env_exit_queue s1) envId s1 of
                 Some e \<Rightarrow> bindE (sched_remove_exit (Some e) s1) (\<lambda>s2. Inr (Some e, s2))
               | None \<Rightarrow> Inr (None, s1))))"

definition sched_kill_env :: "u32 \<Rightarrow> 'a penv_scheme \<Rightarrow> (ending \<times> 'a penv_scheme) res" where
  "sched_kill_env envId s = bindE (qlock_acquire s) (\<lambda>s1.
     bindE (find_to_kill envId s1) (\<lambda>(p, s2).
     bindE (qlock_release s2) (\<lambda>s3.
     case p of
       Some e \<Rightarrow> bindE (env_free e s3) (\<lambda>s4. Inr (Returns, s4))
     | None \<Rightarrow>
         bindE (cpu_env s3) (\<lambda>(cur, s4).
         if env_id (envs s4 cur) = envId then
           (if env_status (envs s4 cur) \<noteq> ENV_RUNNING then Inl (Panic ''assertion failed'')
            else bindE (env_free cur s4) (\<lambda>s5. bindE (qlock_acquire s5) (\<lambda>s6. bindE (sched_enter s6) (\<lambda>s7. Inr (Switches, s7)))))
         else Inr (Returns, s4)))))"

fun kill_new_loop :: "nat list \<Rightarrow> 'a penv_scheme \<Rightarrow> 'a penv_scheme res" where
  "kill_new_loop [] s = Inr s"
| "kill_new_loop (e # es) s = bindE (sched_remove_new (Some e) s) (\<lambda>s1. bindE (env_free e s1) (kill_new_loop es))"

fun kill_queue_loop :: "nat \<Rightarrow> nat list \<Rightarrow> 'a penv_scheme \<Rightarrow> 'a penv_scheme res" where
  "kill_queue_loop i [] s = Inr s"
| "kill_queue_loop i (e # es) s = bindE (ready_take i e s) (\<lambda>s1. bindE (env_free e s1) (kill_queue_loop i es))"

fun kill_ready_loop :: "nat list \<Rightarrow> 'a penv_scheme \<Rightarrow> 'a penv_scheme res" where
  "kill_ready_loop [] s = Inr s"
| "kill_ready_loop (i # is) s =
     (if i < length (env_ready_queues s)
      then bindE (kill_queue_loop i (env_ready_queues s ! i) s) (kill_ready_loop is) else Inl Fault)"

fun kill_exit_loop :: "nat list \<Rightarrow> 'a penv_scheme \<Rightarrow> 'a penv_scheme res" where
  "kill_exit_loop [] s = Inr s"
| "kill_exit_loop (e # es) s = bindE (sched_remove_exit (Some e) s) (\<lambda>s1. bindE (env_free e s1) (kill_exit_loop es))"

text \<open>Up to the call of \<open>sched\<close>, or to the prompt when no process runs.\<close>

definition sched_kill_all :: "'a penv_scheme \<Rightarrow> (ending \<times> 'a penv_scheme) res" where
  "sched_kill_all s = bindE (qlock_acquire s) (\<lambda>s1.
     bindE (kill_new_loop (env_new_queue s1) s1) (\<lambda>s2.
     bindE (kill_ready_loop [0 ..< unat (num_of_ready_queues s2)] s2) (\<lambda>s3.
     bindE (kill_exit_loop (env_exit_queue s3) s3) (\<lambda>s4.
     bindE (get_cpu_proc s4) (\<lambda>(p, s5).
     case p of
       Some cur \<Rightarrow>
         if env_status (envs s5 cur) \<noteq> ENV_RUNNING then Inl (Panic ''assertion failed'')
         else bindE (env_free cur s5) (\<lambda>s6. bindE (sched_enter s6) (\<lambda>s7. Inr (Switches, s7)))
     | None \<Rightarrow> bindE (qlock_release s5) (\<lambda>s6. Inr (Returns, s6)))))))"

section \<open>Words and bytes of memory\<close>

lemma word_place:
  "ROUNDDOWN a PAGE_SIZE = ROUNDDOWN b PAGE_SIZE \<and> unat (a mod PAGE_SIZE) div 4 = unat (b mod PAGE_SIZE) div 4
   \<longleftrightarrow> unat a div 4 = unat b div 4"
proof -
  have d: "x div 4 = x div 4096 * 1024 + x mod 4096 div 4" "x mod 4096 div 4 < 1024" for x :: nat
  proof -
    have "x = 4 * (x div 4096 * 1024) + x mod 4096" by simp
    then have "x div 4 = (4 * (x div 4096 * 1024) + x mod 4096) div 4" by (rule arg_cong)
    then show "x div 4 = x div 4096 * 1024 + x mod 4096 div 4" by (simp only: div_mult_self4 zero_neq_numeral not_False_eq_True)
    show "x mod 4096 div 4 < 1024" by (simp add: less_mult_imp_div_less)
  qed
  have "ROUNDDOWN a PAGE_SIZE = ROUNDDOWN b PAGE_SIZE \<longleftrightarrow> unat a div 4096 = unat b div 4096"
    by (simp add: word_unat_eq_iff unat_ROUNDDOWN')
  then show ?thesis using d [of "unat a"] d [of "unat b"] by (auto simp: unat_mod_distrib)
qed

lemma word_at_set_word: "word_at a (set_word b v s) = (if unat a div 4 = unat b div 4 then v else word_at a s)"
  using word_place [of a b] by (auto simp: word_at_def set_word_def Let_def)

lemma word_at_cong: "unat a div 4 = unat b div 4 \<Longrightarrow> word_at a s = word_at b s"
  using word_place [of a b] by (simp add: word_at_def)

lemma bit_FF: "bit (0xFF :: u32) n \<longleftrightarrow> n < 8"
proof -
  have "(0xFF :: u32) = mask 8" by (simp add: mask_eq_exp_minus_1)
  then show ?thesis by (simp only: bit_mask_iff) auto
qed

lemma load_byte_store_byte: "load_byte a (store_byte b v s) = (if a = b then v else load_byte a s)"
proof (cases "unat a div 4 = unat b div 4")
  case False
  then show ?thesis by (auto simp: load_byte_def store_byte_def Let_def word_at_set_word)
next
  case same: True
  let ?j = "unat a mod 4" and ?k = "unat b mod 4" and ?w = "word_at b s"
  let ?new = "(?w AND NOT (push_bit (8 * ?k) 0xFF)) OR push_bit (8 * ?k) (ucast v)"
  have l: "load_byte a (store_byte b v s) = ucast (drop_bit (8 * ?j) ?new)"
    using same by (simp add: load_byte_def store_byte_def Let_def word_at_set_word)
  have r: "load_byte a s = ucast (drop_bit (8 * ?j) ?w)" by (simp add: load_byte_def word_at_cong [OF same])
  have jk: "?j < 4" "?k < 4" by simp_all
  have i8: "i < 8" if "i < LENGTH(8)" for i using that by simp
  show ?thesis
  proof (cases "?j = ?k")
    case True
    have "a = b" using True same by (metis div_mult_mod_eq word_unat_eq_iff)
    moreover have "ucast (drop_bit (8 * ?k) ?new) = v"
      by (rule bit_word_eqI) (use jk in \<open>auto simp: bit_ucast_iff u32_bits bit_FF\<close>)
    ultimately show ?thesis using l True by simp
  next
    case False
    have "(ucast (drop_bit (8 * ?j) ?new) :: u8) = ucast (drop_bit (8 * ?j) ?w)"
    proof (rule bit_word_eqI)
      fix i assume "i < LENGTH(8)"
      then have i: "i < 8" by simp
      have "\<not> (8 * ?k \<le> 8 * ?j + i \<and> 8 * ?j + i - 8 * ?k < 8)" using False i by linarith
      moreover have "bit v n \<Longrightarrow> n < 8" for n using bit_imp_le_length [of v n] by simp
      ultimately show "bit (ucast (drop_bit (8 * ?j) ?new) :: u8) i = bit (ucast (drop_bit (8 * ?j) ?w) :: u8) i"
        using i jk by (auto simp: bit_ucast_iff u32_bits bit_FF)
    qed
    moreover have "a \<noteq> b" using False by auto
    ultimately show ?thesis using l r by simp
  qed
qed

text \<open>The distance of an address from the start of a range decides whether it is in the range.\<close>

lemma range_step:
  fixes a dst :: u32
  assumes "n < 4294967296"
  shows "unat (a - (dst + 1)) < n \<longleftrightarrow> a \<noteq> dst \<and> unat (a - dst) < Suc n"
proof (cases "a = dst")
  case True
  have "unat (- 1 :: u32) = 4294967295" by (simp add: unsigned_minus_1_eq_mask mask_eq_exp_minus_1)
  then show ?thesis using assms True by simp
next
  case False
  then have "a - dst \<noteq> 0" by simp
  then have "unat (a - dst - 1) = unat (a - dst) - 1" "0 < unat (a - dst)" by (simp_all add: unat_minus_one unat_gt_0)
  then show ?thesis using False by (simp add: diff_diff_eq) linarith
qed

lemma load_byte_copy_bytes:
  fixes a dst src :: u32 and s :: "'a kmem_scheme"
  assumes "n < 4294967296" and "\<forall>i < n. \<forall>j < n. src + word_of_nat i \<noteq> dst + word_of_nat j"
  shows "load_byte a (copy_bytes n dst src s) = (if unat (a - dst) < n then load_byte (src + (a - dst)) s else load_byte a s)"
  using assms
proof (induction n arbitrary: dst src s)
  case (Suc n)
  have apart: "src + word_of_nat i \<noteq> dst + word_of_nat j" if "i \<le> n" "j \<le> n" for i j using Suc.prems(2) that by simp
  have "\<forall>i < n. \<forall>j < n. src + 1 + word_of_nat i \<noteq> dst + 1 + word_of_nat j"
    using apart [of "Suc _" "Suc _"] by (simp add: add.assoc)
  then have ih: "load_byte a (copy_bytes n (dst + 1) (src + 1) t)
    = (if unat (a - (dst + 1)) < n then load_byte (src + 1 + (a - (dst + 1))) t else load_byte a t)" for t :: "'a kmem_scheme"
    using Suc.IH [where dst = "dst + 1" and src = "src + 1" and s = t] Suc.prems(1) by simp
  have x: "src + 1 + (a - (dst + 1)) = src + (a - dst)" by simp
  have "src + (a - dst) \<noteq> dst" if "unat (a - dst) < Suc n"
  proof -
    have "src + word_of_nat (unat (a - dst)) \<noteq> dst + word_of_nat 0" using that by (intro apart) simp_all
    then show ?thesis by simp
  qed
  moreover have "load_byte src s = load_byte (src + (a - dst)) s" if "a = dst" using that by simp
  ultimately show ?case using Suc.prems(1) by (auto simp: ih range_step x load_byte_store_byte)
qed simp

lemma load_byte_zero_bytes:
  fixes a dst :: u32
  assumes "n < 4294967296"
  shows "load_byte a (zero_bytes n dst s) = (if unat (a - dst) < n then 0 else load_byte a s)"
  using assms by (induction n arbitrary: dst s) (auto simp: range_step load_byte_store_byte)

section \<open>The numbers of environments\<close>

lemma bit_loops:
  assumes "0 < x" and "unat x < 2 ^ Suc m"
  shows "\<exists>j. pow2_loop m x pw = push_bit j pw \<and> bits_loop m x k = k + j \<and> 2 ^ j \<le> unat x \<and> unat x < 2 ^ Suc j"
  using assms
proof (induction m arbitrary: x pw k)
  case 0
  then show ?case by (intro exI [of _ 0]) (simp add: word_less_nat_alt)
next
  case (Suc m)
  have half: "unat (drop_bit 1 x) = unat x div 2" by (simp add: unat_drop_bit_eq drop_bit_eq_div unat_div_distrib)
  show ?case
  proof (cases "drop_bit 1 x = 0")
    case True
    then have "unat x div 2 = 0" using half by simp
    then show ?thesis using True Suc.prems(1) by (intro exI [of _ 0]) (auto simp: word_less_nat_alt)
  next
    case False
    then have "0 < drop_bit 1 x" by (simp add: word_gt_0)
    moreover have "unat (drop_bit 1 x) < 2 ^ Suc m" unfolding half using Suc.prems(2) by (simp add: less_mult_imp_div_less mult.commute)
    ultimately obtain j where "pow2_loop m (drop_bit 1 x) (push_bit 1 pw) = push_bit j (push_bit 1 pw)"
      "bits_loop m (drop_bit 1 x) (Suc k) = Suc k + j" "2 ^ j \<le> unat x div 2" "unat x div 2 < 2 ^ Suc j"
      using Suc.IH [of "drop_bit 1 x" "push_bit 1 pw" "Suc k"] half by auto
    then show ?thesis using False by (intro exI [of _ "Suc j"]) (simp add: Let_def, linarith)
  qed
qed

text \<open>The mask covers the indices, and the step between generations is twice the mask.\<close>

lemma pow2_ceil:
  assumes "1 < n" and "n \<le> 1048576"
  obtains k where "nearest_pow2_ceil (word_of_nat n) = 2 ^ k" and "log2_ceil (word_of_nat n) = Suc k" and "n \<le> 2 ^ k" and "k \<le> 20"
proof -
  let ?x = "word_of_nat n - 1 :: u32"
  have u: "unat (word_of_nat n :: u32) = n" using assms(2) by (simp add: unat_of_nat_u32)
  then have ux: "unat ?x = n - 1" using assms(1) by (subst unat_u32_minus) (simp_all add: word_le_nat_alt)
  then have x: "0 < ?x" "unat ?x < 2 ^ Suc 32" using assms by (simp_all add: word_less_nat_alt)
  obtain j where j: "pow2_loop 32 ?x 2 = push_bit j 2" "bits_loop 32 ?x 2 = 2 + j" "2 ^ j \<le> n - 1" "n - 1 < 2 ^ Suc j"
    using bit_loops [OF x, of 2 2] ux by auto
  have n1: "\<not> (word_of_nat n :: u32) \<le> 1" using u assms(1) by (simp add: word_le_nat_alt)
  have "(1048576 :: nat) = 2 ^ 20" by simp
  then have "(2::nat) ^ j < 2 ^ 20" using j(3) assms by linarith
  then have "j < 20" using power_less_imp_less_exp [of "2::nat" j 20] by simp
  moreover have "push_bit j (2 :: u32) = 2 ^ Suc j" by (simp add: push_bit_eq_mult)
  ultimately show thesis using that [of "Suc j"] j n1 by (simp add: nearest_pow2_ceil_def log2_ceil_def)
qed

lemma pow2_minus_1: "(2 :: u32) ^ k - 1 = mask k"
  by (simp add: mask_eq_exp_minus_1)

lemma sint_positive: "0 < sint (w :: u32) \<longleftrightarrow> \<not> bit w 31 \<and> w \<noteq> 0"
proof -
  have "sint w < 0 \<longleftrightarrow> bit w 31" using bit_last_iff [of w] by simp
  moreover have "sint w = 0 \<longleftrightarrow> w = 0" using signed_eq_0_iff [of w] by simp
  ultimately show ?thesis by linarith
qed

lemma next_generation_facts:
  assumes "1 < n" and "n \<le> 1048576" and "nearest_pow2_ceil (word_of_nat n) = 2 ^ k" and "log2_ceil (word_of_nat n) = Suc k" and "k \<le> 20"
  shows "0 < sint (next_generation n old)" and "\<forall>i < k. \<not> bit (next_generation n old) i"
proof -
  let ?g = "(old + push_bit (Suc k) 1) AND NOT (mask k)"
  have g: "next_generation n old = (if sint ?g \<le> 0 then push_bit (Suc k) 1 else ?g)"
    using assms(3,4) by (simp add: next_generation_def Let_def pow2_minus_1)
  have b: "bit (push_bit (Suc k) 1 :: u32) i \<longleftrightarrow> i = Suc k \<and> i < 32" for i
    by (simp only: bit_push_bit_iff bit_1_iff possible_bit_word) auto
  then have "bit (push_bit (Suc k) 1 :: u32) (Suc k)" using assms(5) by simp
  then have "push_bit (Suc k) 1 \<noteq> (0 :: u32)" by (metis bit_0_eq bot_apply bot_bool_def)
  then have "0 < sint (push_bit (Suc k) 1 :: u32)" using assms(5) b [of 31] by (simp add: sint_positive del: push_bit_Suc)
  then show "0 < sint (next_generation n old)" using g by simp
  show "\<forall>i < k. \<not> bit (next_generation n old) i" using assms(5) unfolding g by (auto simp only: b bit_and_iff bit_not_iff bit_mask_iff split: if_splits)
qed

lemma environment_number:
  assumes "1 < n" and "n \<le> 1048576" and "e < n"
  shows "ENVX n (next_generation n old OR word_of_nat e) = e" and "0 < sint (next_generation n old OR word_of_nat e)"
proof -
  obtain k where k: "nearest_pow2_ceil (word_of_nat n) = 2 ^ k" "log2_ceil (word_of_nat n) = Suc k" "n \<le> 2 ^ k" "k \<le> 20"
    using pow2_ceil [OF assms(1,2)] .
  note g = next_generation_facts [OF assms(1,2) k(1,2,4), of old]
  have e: "e < 2 ^ k" using assms(3) k(3) by simp
  have be: "bit (word_of_nat e :: u32) i \<longleftrightarrow> i < 32 \<and> bit e i" for i by (simp add: bit_of_nat_iff)
  have small: "i < k" if "bit e i" for i
    using e that by (metis bit_take_bit_iff take_bit_nat_eq_self)
  have "(next_generation n old OR word_of_nat e) AND mask k = word_of_nat e"
    by (rule bit_word_eqI) (use g(2) small in \<open>auto simp: u32_bits be bit_mask_iff\<close>)
  then show "ENVX n (next_generation n old OR word_of_nat e) = e"
    using assms(2,3) by (simp add: ENVX_def k(1) pow2_minus_1 unat_of_nat_u32)
  have "\<not> bit (word_of_nat e :: u32) 31" using small [of 31] k(4) by (auto simp: be)
  then show "0 < sint (next_generation n old OR word_of_nat e)"
    using g(1) by (auto simp: sint_positive u32_bits or_eq_0_iff)
qed

lemma word_at_set_words:
  assumes "4 dvd unat a" and "unat a + 4 * length ws \<le> 4294967296"
  shows "word_at b (set_words a ws s) = (if unat a div 4 \<le> unat b div 4 \<and> unat b div 4 < unat a div 4 + length ws
    then ws ! (unat b div 4 - unat a div 4) else word_at b s)"
  using assms
proof (induction ws arbitrary: a s)
  case (Cons w ws)
  show ?case
  proof (cases ws)
    case Nil
    then show ?thesis by (auto simp: word_at_set_word)
  next
    case (Cons v vs)
    then have "unat (a + 4) = unat a + 4" using Cons.prems(2) by (intro unat_u32_plus [of a 4, simplified]) simp
    then have n: "4 dvd unat (a + 4)" "unat (a + 4) + 4 * length ws \<le> 4294967296" "unat (a + 4) div 4 = Suc (unat a div 4)"
      using Cons.prems by simp_all
    show ?thesis
      using Cons.IH [OF n(1,2), of "set_word a w s"]
      by (auto simp: n(3) word_at_set_word nth_Cons' Suc_le_eq)
  qed
next
  case Nil
  then show ?case by auto
qed

lemma set_word_fields [simp]:
  fixes s :: "'a penv_scheme"
  shows "envs (set_word a v s) = envs s" "envx (set_word a v s) = envx s" "env_free_list (set_word a v s) = env_free_list s"
    "nenv (set_word a v s) = nenv s" "cpu_proc (set_word a v s) = cpu_proc s" "kcpu (set_word a v s) = kcpu s"
  by (simp_all add: set_word_def Let_def)

lemma set_words_fields [simp]:
  fixes s :: "'a penv_scheme"
  shows "envs (set_words a ws s) = envs s" "envx (set_words a ws s) = envx s" "env_free_list (set_words a ws s) = env_free_list s"
    "nenv (set_words a ws s) = nenv s" "cpu_proc (set_words a ws s) = cpu_proc s" "kcpu (set_words a ws s) = kcpu s"
  by (induction a ws s rule: set_words.induct) simp_all

lemma complete_defined:
  fixes s :: "'a penv_scheme"
  assumes "e \<in> set (env_free_list s)" and "cpu_ok (kcpu s)" and "env_page_directory (envs s e) \<noteq> 0"
  obtains t and u :: "'a penv_scheme" where "complete_environment_initialization e s = Inr t" and "kcpu t = noted (kcpu s)"
    and "mem t = mem (set_words (env_tf (envx s e)) initial_trapframe u)" and "envx t = (envx s)(e := (envx s e)\<lparr>env_runs := 0\<rparr>)"
    and "env_parent_id (envs t e) = (case cpu_proc s of None \<Rightarrow> 0 | Some c \<Rightarrow> env_id (envs t c))"
proof -
  have st: "store (env_page_directory (envs s e)) i v u = Inr (set_entry (env_page_directory (envs s e)) (unat i) v u)"
    for i v and u :: "'a penv_scheme" using assms(3) by (rule store_set_entry)
  have gp: "get_cpu_proc u = Inr (cpu_proc u, u\<lparr>kcpu := noted (kcpu s)\<rparr>)" if "kcpu u = kcpu s" for u :: "'a penv_scheme"
    using that assms(2) by (simp add: get_cpu_proc_def popcli_pushcli)
  let ?d = "env_page_directory (envs s e)" and ?pa = "env_cr3 (envx s e)"
  let ?cur = "cpu_proc s"
  define s1 where "s1 = set_entry ?d (unat (PDX VPT)) (?pa OR PERM_PRESENT OR PERM_WRITEABLE) s"
  define s2 where "s2 = set_entry ?d (unat (PDX UVPT)) (?pa OR PERM_PRESENT OR PERM_USER) s1"
  define s3 where "s3 = upd_env e (\<lambda>v. v\<lparr>disk_env_pgdir := 0, disk_env_pgdir_PA := 0, disk_env_tabledir := 0, disk_env_tabledir_PA := 0,
    env_id := next_generation (nenv s2) (env_id v) OR word_of_nat e\<rparr>) s2"
  define s4 where "s4 = s3\<lparr>kcpu := noted (kcpu s)\<rparr>"
  define s5 where "s5 = upd_env e (\<lambda>v. v\<lparr>env_parent_id := (case ?cur of None \<Rightarrow> 0 | Some c \<Rightarrow> env_id (envs s4 c)), env_status := ENV_NEW\<rparr>) s4"
  define u where "u = upd_envx e (\<lambda>x. x\<lparr>env_runs := 0\<rparr>) s5"
  define s6 where "s6 = set_words (env_tf (envx s e)) initial_trapframe u"
  define t where "t = s6\<lparr>env_free_list := remove1 e (env_free_list s6)\<rparr>"
  have f2: "nenv s2 = nenv s" "kcpu s2 = kcpu s" "cpu_proc s2 = cpu_proc s" "envs s2 = envs s" "envx s2 = envx s" "env_free_list s2 = env_free_list s"
    by (simp_all add: s2_def s1_def set_entry_def)
  have f3: "kcpu s3 = kcpu s" "cpu_proc s3 = cpu_proc s" "envx s3 = envx s" "env_free_list s3 = env_free_list s"
    by (simp_all add: s3_def f2 upd_env_def)
  have e3: "envs s3 = (envs s)(e := (envs s e)\<lparr>disk_env_pgdir := 0, disk_env_pgdir_PA := 0, disk_env_tabledir := 0, disk_env_tabledir_PA := 0,
    env_id := next_generation (nenv s) (env_id (envs s e)) OR word_of_nat e\<rparr>)"
    by (simp add: s3_def upd_env_def f2)
  have f4: "envs s4 = envs s3" "envx s4 = envx s" "env_free_list s4 = env_free_list s" by (simp_all add: s4_def f3)
  have f5: "envs s5 = (envs s4)(e := (envs s4 e)\<lparr>env_parent_id := (case ?cur of None \<Rightarrow> 0 | Some c \<Rightarrow> env_id (envs s4 c)), env_status := ENV_NEW\<rparr>)"
    "envx s5 = envx s" "env_free_list s5 = env_free_list s"
    by (simp_all add: s5_def upd_env_def f4)
  have fu: "envs u = envs s5" "envx u = (envx s)(e := (envx s e)\<lparr>env_runs := 0\<rparr>)" "env_free_list u = env_free_list s"
    by (simp_all add: u_def upd_envx_def f5)
  have f6: "envs t = envs s5" "envx t = (envx s)(e := (envx s e)\<lparr>env_runs := 0\<rparr>)" "env_free_list t = remove1 e (env_free_list s)" "env_free_list s6 = env_free_list s"
    by (simp_all add: t_def s6_def fu)
  have c: "complete_environment_initialization e s = Inr t"
    unfolding complete_environment_initialization_def Let_def
    by (simp only: st bindE.simps flip: s1_def, simp only: bindE.simps flip: s2_def, simp only: gp [OF f3(1)] f3(2) bindE.simps prod.case flip: s3_def,
      simp only: flip: s4_def, simp only: f5(2) flip: s5_def, simp only: f6(4) assms(1) if_True t_def flip: u_def s6_def)
  have "env_parent_id (envs t e) = (case ?cur of None \<Rightarrow> 0 | Some c \<Rightarrow> env_id (envs t c))"
    by (cases ?cur) (simp_all add: f6 f5 f4 e3)
  moreover have "kcpu t = noted (kcpu s)" by (simp add: t_def s6_def u_def s5_def s4_def upd_env_def upd_envx_def)
  moreover have "mem t = mem (set_words (env_tf (envx s e)) initial_trapframe u)" by (simp add: t_def s6_def)
  ultimately show thesis by (intro that [where u = u, OF c _ _ f6(2)])
qed


lemma get_cpu_proc_result: "get_cpu_proc s = Inr (p, t) \<Longrightarrow> p = cpu_proc s \<and> (\<exists>c. t = s\<lparr>kcpu := c\<rparr>)"
  by (auto simp: get_cpu_proc_def)

lemma complete_result:
  assumes "complete_environment_initialization e s = Inr t"
  shows "env_id (envs t e) = next_generation (nenv s) (env_id (envs s e)) OR word_of_nat e" and "env_status (envs t e) = ENV_NEW"
    and "nenv t = nenv s" and "env_free_list t = remove1 e (env_free_list s)" and "e \<in> set (env_free_list s)"
    and "\<And>e'. e' \<noteq> e \<Longrightarrow> envs t e' = envs s e'"
proof -
  let ?num = "\<lambda>n v. v\<lparr>disk_env_pgdir := 0, disk_env_pgdir_PA := 0, disk_env_tabledir := 0, disk_env_tabledir_PA := 0,
                 env_id := next_generation n (env_id v) OR word_of_nat e\<rparr>"
  from assms obtain s1 s2 cur s4 where s1: "store (env_page_directory (envs s e)) (PDX VPT) (env_cr3 (envx s e) OR PERM_PRESENT OR PERM_WRITEABLE) s = Inr s1"
    and s2: "store (env_page_directory (envs s e)) (PDX UVPT) (env_cr3 (envx s e) OR PERM_PRESENT OR PERM_USER) s1 = Inr s2"
    and g: "get_cpu_proc (upd_env e (?num (nenv s2)) s2) = Inr (cur, s4)"
    and t: "let s5 = upd_env e (\<lambda>v. v\<lparr>env_parent_id := (case cur of None \<Rightarrow> 0 | Some c \<Rightarrow> env_id (envs s4 c)), env_status := ENV_NEW\<rparr>) s4;
          s6 = set_words (env_tf (envx s5 e)) initial_trapframe (upd_envx e (\<lambda>x. x\<lparr>env_runs := 0\<rparr>) s5)
      in (if e \<in> set (env_free_list s6) then Inr (s6\<lparr>env_free_list := remove1 e (env_free_list s6)\<rparr>) else Inl Fault) = (Inr t :: 'a penv_scheme res)"
    unfolding complete_environment_initialization_def Let_def bindE_eq_Inr_iff by auto
  have f: "envs s2 = envs s" "nenv s2 = nenv s" "env_free_list s2 = env_free_list s"
    using s1 s2 by (auto simp: store_def split: if_splits)
  obtain c where c: "s4 = (upd_env e (?num (nenv s)) s2)\<lparr>kcpu := c\<rparr>" using get_cpu_proc_result [OF g] f(2) by auto
  note t = t [unfolded c Let_def]
  show "env_id (envs t e) = next_generation (nenv s) (env_id (envs s e)) OR word_of_nat e" "env_status (envs t e) = ENV_NEW"
    "nenv t = nenv s" "env_free_list t = remove1 e (env_free_list s)" "e \<in> set (env_free_list s)"
    "\<And>e'. e' \<noteq> e \<Longrightarrow> envs t e' = envs s e'"
    using t by (auto simp: upd_env_def upd_envx_def f split: if_splits)
qed

text \<open>Claim C30.  A new environment has an identity of its own: completing the initialisation of slot \<open>e\<close> succeeds, takes
  the slot off the free list, and gives it a positive number from which \<open>ENVX\<close> recovers the slot, the status \<open>ENV_NEW\<close>,
  the number of the process that creates it as its parent, and a trap frame with which it will start in user mode, with
  interrupts enabled and the stack pointer at the top of the user stack.  No other environment changes.\<close>

theorem new_environment_identity:
  assumes "1 < nenv s" and "nenv s \<le> 1048576" and "e < nenv s" and "e \<in> set (env_free_list s)" and "cpu_ok (kcpu s)"
    and "env_page_directory (envs s e) \<noteq> 0" and "4 dvd unat (env_tf (envx s e))" and "unat (env_tf (envx s e)) + 68 \<le> 4294967296"
  shows "\<exists>t. complete_environment_initialization e s = Inr t
    \<and> ENVX (nenv s) (env_id (envs t e)) = e \<and> 0 < sint (env_id (envs t e))
    \<and> env_status (envs t e) = ENV_NEW \<and> env_free_list t = remove1 e (env_free_list s) \<and> env_runs (envx t e) = 0
    \<and> env_parent_id (envs t e) = (case cpu_proc s of None \<Rightarrow> 0 | Some c \<Rightarrow> env_id (envs t c))
    \<and> (\<forall>i < 17. word_at (env_tf (envx s e) + 4 * word_of_nat i) t = initial_trapframe ! i)
    \<and> (\<forall>e'. e' \<noteq> e \<longrightarrow> envs t e' = envs s e' \<and> envx t e' = envx s e')"
proof -
  let ?a = "env_tf (envx s e)"
  obtain t and u :: "'a penv_scheme" where t: "complete_environment_initialization e s = Inr t" "kcpu t = noted (kcpu s)" "mem t = mem (set_words ?a initial_trapframe u)"
      "envx t = (envx s)(e := (envx s e)\<lparr>env_runs := 0\<rparr>)"
      "env_parent_id (envs t e) = (case cpu_proc s of None \<Rightarrow> 0 | Some c \<Rightarrow> env_id (envs t c))"
    using complete_defined [OF assms(4,5,6)] .
  note r = complete_result [OF t(1)]
  have len: "length initial_trapframe = 17" by (simp add: initial_trapframe_def)
  have w: "word_at (?a + 4 * word_of_nat i) t = initial_trapframe ! i" if "i < 17" for i
  proof -
    have "unat (4 * word_of_nat i :: u32) = 4 * i"
      using that by (subst unat_u32_mult) (simp_all add: unat_of_nat_u32)
    then have "unat (?a + 4 * word_of_nat i) = unat ?a + 4 * i" using assms(8) that by (subst unat_u32_plus) simp_all
    then have "word_at (?a + 4 * word_of_nat i) (set_words ?a initial_trapframe u) = initial_trapframe ! i"
      using that assms(7,8) by (subst word_at_set_words) (auto simp: len)
    then show ?thesis by (simp add: word_at_def t(3))
  qed
  show ?thesis
    by (intro exI [of _ t] conjI t(1,5)) (use r in \<open>simp_all add: w t(4) environment_number [OF assms(1-3)]\<close>)
qed

lemma free_environment_fields:
  "env_free_list (free_environment e s) = e # env_free_list s" "nenv (free_environment e s) = nenv s"
  "env_id (envs (free_environment e s) e) = 0" "env_status (envs (free_environment e s) i) = (if i = e then ENV_FREE else env_status (envs s i))"
  by (simp_all add: free_environment_def Let_def upd_env_def upd_envx_def) (simp add: zero_Env_def)

section \<open>The number of a process does not outlive it\<close>

text \<open>Claim C32.  The number of a process is used again: when a slot was filled for the first time, freed and filled again,
  the new process gets the number that the old one had, because freeing clears the number that the generation is computed
  from; a stale number is then taken by \<open>envid2env\<close> for the new process.  The freed slot is the next one to be allocated.\<close>

theorem environment_number_is_reused:
  assumes "1 < nenv s" and "nenv s \<le> 1048576" and "e < nenv s" and "env_id (envs s e) = 0"
    and first: "complete_environment_initialization e s = Inr t"
    and freed: "allocate_environment (free_environment e t) = (p, u)"
    and again: "env_id (envs v e) = env_id (envs u e)" "nenv v = nenv u" "complete_environment_initialization e v = Inr w"
    and cpu: "cpu_ok (kcpu w)"
  shows "p = Some e \<and> env_id (envs w e) = env_id (envs t e)
    \<and> (\<exists>x. envid2env (env_id (envs t e)) False w = Inr (0, Some e, x))"
proof -
  note f = complete_result [OF first] and a = complete_result [OF again(3)]
  have u: "p = Some e" "env_id (envs u e) = 0" "nenv u = nenv s"
    using freed f(3) by (auto simp: allocate_environment_def free_environment_fields set_status_def upd_env_def)
  then have same: "env_id (envs w e) = env_id (envs t e)" using a(1) f(1) again(1,2) assms(4) by simp
  note n = environment_number [OF assms(1-3), of 0]
  have "env_id (envs t e) \<noteq> 0" using f(1) assms(4) n(2) by auto
  moreover have "ENVX (nenv w) (env_id (envs t e)) = e" using a(3) again(2) u(3) f(1) assms(4) n(1) by simp
  ultimately have "envid2env (env_id (envs t e)) False w = Inr (0, Some e, w\<lparr>kcpu := noted (kcpu w)\<rparr>)"
    using same a(2) cpu by (simp add: envid2env_def Let_def get_cpu_proc_def popcli_pushcli)
  then show ?thesis using u(1) same by blast
qed

section \<open>The list of free environments\<close>








section \<open>The segments of a program\<close>

text \<open>The numbers of the headers of type \<open>ELF_PROG_LOAD\<close> from number \<open>k\<close> on, and the segment of a header.\<close>

definition loads :: "u32 \<Rightarrow> nat \<Rightarrow> 'a kmem_scheme \<Rightarrow> u32 list" where
  "loads start k s = filter (\<lambda>i. load32 (ph_at start i s) s = ELF_PROG_LOAD) (map word_of_nat [k ..< unat (elf_phnum start s)])"

definition segment_of :: "u32 \<Rightarrow> 'a kmem_scheme \<Rightarrow> u32 \<Rightarrow> ProgramSegment" where
  "segment_of start s i = \<lparr>ptr_start = start + load32 (ph_at start i s + 4) s, size_in_file = load32 (ph_at start i s + 16) s,
     size_in_memory = load32 (ph_at start i s + 20) s, seg_virtual_address = load32 (ph_at start i s + 8) s, segment_id = i\<rparr>"

text \<open>The segments that the loop of \<open>PROGRAM_SEGMENT_FOREACH\<close> visits.\<close>

fun foreach_segment :: "nat \<Rightarrow> u32 \<Rightarrow> ProgramSegment option \<Rightarrow> 'a kmem_scheme \<Rightarrow> ProgramSegment list res" where
  "foreach_segment n start None s = Inr []"
| "foreach_segment 0 start (Some seg) s = Inl Spin"
| "foreach_segment (Suc n) start (Some seg) s =
     bindE (PROGRAM_SEGMENT_NEXT seg start s) (\<lambda>next.
     bindE (foreach_segment n start next s) (\<lambda>segs. Inr (seg # segs)))"

lemma elf_phnum_bound: "unat (elf_phnum start s) < 65536"
proof -
  have "elf_phnum start s = take_bit 16 (elf_phnum start s)"
  proof (rule bit_word_eqI)
    fix n
    have "bit (b :: u8) m \<Longrightarrow> m < 8" for b m using bit_imp_le_length [of b m] by simp
    then have "n < 16" if "bit (elf_phnum start s) n"
      using that by (fastforce simp: elf_phnum_def load16_def u32_bits bit_ucast_iff)
    then show "bit (elf_phnum start s) n = bit (take_bit 16 (elf_phnum start s)) n" by (auto simp: bit_take_bit_iff)
  qed
  then have "unat (elf_phnum start s) = take_bit 16 (unat (elf_phnum start s))" by (metis unsigned_take_bit_eq)
  then show ?thesis using take_bit_nat_less_exp [of 16 "unat (elf_phnum start s)"] by simp
qed

lemma loads_step:
  "k < unat (elf_phnum start s) \<Longrightarrow> loads start k s
   = (if load32 (ph_at start (word_of_nat k) s) s = ELF_PROG_LOAD then word_of_nat k # loads start (Suc k) s else loads start (Suc k) s)"
  by (simp add: loads_def upt_conv_Cons)

lemma seek_load_spec:
  assumes "k \<le> unat (elf_phnum start s)"
  shows "seek_load (unat (elf_phnum start s) - k) start (word_of_nat k) s
    = (case loads start k s of [] \<Rightarrow> elf_phnum start s | i # _ \<Rightarrow> i)"
  using assms
proof (induction "unat (elf_phnum start s) - k" arbitrary: k)
  case 0
  then have "k = unat (elf_phnum start s)" by simp
  then show ?case by (simp add: loads_def)
next
  case (Suc n)
  have u: "unat (word_of_nat k :: u32) = k" using Suc.prems elf_phnum_bound [of start s] by (simp add: unat_of_nat_u32)
  have "n = unat (elf_phnum start s) - Suc k" using Suc.hyps(2) by linarith
  then have ih: "seek_load n start (word_of_nat (Suc k)) s = (case loads start (Suc k) s of [] \<Rightarrow> elf_phnum start s | i # _ \<Rightarrow> i)"
    using Suc.hyps(1) [of "Suc k"] Suc.hyps(2) by simp
  have "k < unat (elf_phnum start s)" using Suc.hyps(2) by linarith
  then show ?case using ih u by (simp add: Suc.hyps(2) [symmetric] loads_step word_less_nat_alt add.commute)
qed

lemma loads_drop:
  assumes "loads start k s = i # is"
  shows "k \<le> unat i \<and> unat i < unat (elf_phnum start s) \<and> is = loads start (Suc (unat i)) s"
  using assms
proof (induction "unat (elf_phnum start s) - k" arbitrary: k)
  case 0
  then show ?case by (simp add: loads_def)
next
  case (Suc n)
  have k: "k < unat (elf_phnum start s)" using Suc.hyps(2) by linarith
  then have u: "unat (word_of_nat k :: u32) = k" using elf_phnum_bound [of start s] by (simp add: unat_of_nat_u32)
  show ?case
  proof (cases "load32 (ph_at start (word_of_nat k) s) s = ELF_PROG_LOAD")
    case True
    then show ?thesis using Suc.prems k u by (auto simp: loads_step)
  next
    case False
    then have "loads start (Suc k) s = i # is" using Suc.prems k by (simp add: loads_step)
    moreover have "n = unat (elf_phnum start s) - Suc k" using Suc.hyps(2) by linarith
    ultimately show ?thesis using Suc.hyps(1) [of "Suc k"] by simp
  qed
qed

lemma segment_from_spec:
  assumes "load32 start s = ELF_MAGIC" and "k \<le> unat (elf_phnum start s)"
  shows "segment_from start (word_of_nat k) s = Inr (case loads start k s of [] \<Rightarrow> None | i # _ \<Rightarrow> Some (segment_of start s i))"
proof -
  have "rounds (word_of_nat k) (elf_phnum start s) = unat (elf_phnum start s) - k"
    using assms(2) elf_phnum_bound [of start s] by (simp add: rounds_def unat_of_nat_u32)
  then show ?thesis using assms seek_load_spec [OF assms(2)] loads_drop [of start k s]
    by (auto simp: segment_from_def Let_def segment_of_def word_less_nat_alt split: list.splits)
qed

lemma foreach_segment_spec:
  assumes "load32 start s = ELF_MAGIC" and "loads start k s = is" and "length is \<le> n"
  shows "foreach_segment n start (case is of [] \<Rightarrow> None | i # _ \<Rightarrow> Some (segment_of start s i)) s = Inr (map (segment_of start s) is)"
  using assms(2,3)
proof (induction "is" arbitrary: k n)
  case (Cons i "is")
  from Cons.prems(2) obtain m where m: "n = Suc m" "length is \<le> m" by (cases n) simp_all
  have i: "unat i < unat (elf_phnum start s)" "is = loads start (Suc (unat i)) s" using loads_drop [OF Cons.prems(1)] by simp_all
  have "PROGRAM_SEGMENT_NEXT (segment_of start s i) start s = segment_from start (word_of_nat (Suc (unat i))) s"
    by (simp add: PROGRAM_SEGMENT_NEXT_def segment_of_def add.commute)
  also have "\<dots> = Inr (case is of [] \<Rightarrow> None | i # _ \<Rightarrow> Some (segment_of start s i))"
    using segment_from_spec [OF assms(1), of "Suc (unat i)"] i by simp
  finally show ?case using Cons.IH [OF i(2) [symmetric] m(2)] m(1) by simp
qed simp

text \<open>The iteration over a program image visits exactly its loadable segments: on an image with the right magic
  number, \<open>PROGRAM_SEGMENT_FIRST\<close> followed by \<open>PROGRAM_SEGMENT_NEXT\<close> until it returns NULL yields the headers of type
  \<open>ELF_PROG_LOAD\<close>, in order and each of them once, with the addresses and sizes of the header, and ends after at most
  as many rounds as there are headers; on any other image it panics.\<close>

theorem segments_are_the_load_headers:
  "bindE (PROGRAM_SEGMENT_FIRST start s) (\<lambda>seg. foreach_segment (unat (elf_phnum start s)) start seg s)
   = (if load32 start s = ELF_MAGIC then Inr (map (segment_of start s) (loads start 0 s)) else Inl (Panic ''Matafa2nash 3ala Keda''))"
proof (cases "load32 start s = ELF_MAGIC")
  case True
  have "length (loads start 0 s) \<le> unat (elf_phnum start s)" unfolding loads_def by (rule order_trans [OF length_filter_le]) simp
  then show ?thesis using segment_from_spec [OF True, of 0] foreach_segment_spec [OF True refl] True
    by (simp add: PROGRAM_SEGMENT_FIRST_def)
qed (simp add: PROGRAM_SEGMENT_FIRST_def segment_from_def)

section \<open>Refusing to create an environment\<close>

lemma leave_enter_cli: "cpu_ok (kcpu s) \<Longrightarrow> leave_cli (enter_cli s) = Inr (s\<lparr>kcpu := noted (kcpu s)\<rparr>)"
  by (simp add: leave_cli_def enter_cli_def popcli_pushcli)

text \<open>\<open>env_create\<close> returns NULL for the name of a program that does not exist and when every environment is
  in use; then nothing has changed: no frame or heap page is taken, the tables and lists are as before and interrupts
  are enabled again if they were.  In every other case it does not return NULL.\<close>

theorem env_create_refuses:
  assumes "cpu_ok (kcpu s)"
  shows "if get_user_program_info name s = None \<or> env_free_list s = []
    then env_create name n l p s = Inr (None, s\<lparr>kcpu := noted (kcpu s)\<rparr>) else (\<nexists>t. env_create name n l p s = Inr (None, t))"
proof -
  have g: "get_user_program_info name (enter_cli s) = get_user_program_info name s" by (simp add: get_user_program_info_def enter_cli_def)
  have a: "allocate_environment (enter_cli s) = (None, enter_cli s)" if "env_free_list s = []"
    using that by (simp add: allocate_environment_def enter_cli_def)
  have b: "fst (allocate_environment (enter_cli s)) \<noteq> None" if "env_free_list s \<noteq> []"
    using that by (auto simp: allocate_environment_def enter_cli_def split: list.splits)
  have r: "(get_user_program_info name s = None \<or> env_free_list s = []) \<longrightarrow> env_create name n l p s = Inr (None, s\<lparr>kcpu := noted (kcpu s)\<rparr>)"
    using leave_enter_cli [OF assms] a g by (auto simp: env_create_def Let_def split: option.split)
  have "\<nexists>t. env_create name n l p s = Inr (None, t)" if "get_user_program_info name s \<noteq> None" "env_free_list s \<noteq> []"
    using that g b by (auto simp: env_create_def Let_def split: option.splits prod.splits)
  then show ?thesis using r by auto
qed

section \<open>Loading a segment into memory\<close>

lemma segment_pages_count:
  assumes "segment_pages n e iVA end_vaddr allocated lastTable s = Inr (allocated', lastTable', t)"
    and "4096 dvd unat iVA" and "4096 dvd unat end_vaddr" and "unat end_vaddr \<le> unat USER_TOP"
  shows "\<exists>k \<le> n. allocated' = allocated + word_of_nat k \<and> (0 < k \<longrightarrow> unat iVA + 4096 * k \<le> unat end_vaddr)"
  using assms(1,2)
proof (induction n arbitrary: iVA allocated lastTable s)
  case (Suc n)
  show ?case
  proof (cases "iVA < end_vaddr")
    case True
    obtain lastTable1 s1 where rest: "segment_pages n e (iVA + PAGE_SIZE) end_vaddr (allocated + 1) lastTable1 s1 = Inr (allocated', lastTable', t)"
      using Suc.prems(1) True by (auto simp: Let_def)
    have step: "unat iVA + 4096 \<le> unat end_vaddr"
      using True Suc.prems(2) assms(3) by (auto simp: word_less_nat_alt elim!: dvdE)
    then have u: "unat (iVA + PAGE_SIZE) = unat iVA + 4096" using assms(4) by (subst unat_u32_plus) simp_all
    then have "4096 dvd unat (iVA + PAGE_SIZE)" using Suc.prems(2) by simp
    from Suc.IH [OF rest this] obtain k where k: "k \<le> n" "allocated' = allocated + 1 + word_of_nat k"
      "0 < k \<longrightarrow> unat iVA + 4096 + 4096 * k \<le> unat end_vaddr" using u by auto
    then show ?thesis using step by (intro exI [of _ "Suc k"]) (cases k, simp_all)
  qed (use Suc.prems in auto)
qed auto

lemma in_range:
  fixes a p :: u32
  assumes "unat p + n \<le> 4294967296"
  shows "unat (a - p) < n \<longleftrightarrow> p \<le> a \<and> unat a < unat p + n"
proof (cases "p \<le> a")
  case True
  then have "unat (a - p) = unat a - unat p" by (rule unat_u32_minus)
  then show ?thesis using True by (auto simp: word_le_nat_alt)
next
  case False
  then have "unat (p - a) = unat p - unat a" "0 < unat (p - a)" by (simp_all add: unat_u32_minus word_le_nat_alt)
  moreover have "unat ((a - p) + (p - a)) = (unat (a - p) + unat (p - a)) mod 4294967296" by (simp only: unat_word_ariths) simp
  then have "4294967296 dvd unat (a - p) + unat (p - a)" by (simp add: mod_eq_0_iff_dvd)
  ultimately have "4294967296 \<le> unat (a - p) + unat (p - a)" by (intro dvd_imp_le) simp_all
  then show ?thesis using \<open>unat (p - a) = _\<close> False assms by (auto simp: word_le_nat_alt)
qed

lemma copy_then_zero:
  fixes va src lim :: u32 and s :: "'a kmem_scheme"
  assumes "KERNEL_BASE \<le> src" and "unat src + n \<le> 4294967296" and "unat va + n \<le> unat USER_TOP" and "unat lim \<le> unat USER_TOP"
    and c: "c = min (unat lim - unat va) n" and dst: "dst = va + word_of_nat c"
  shows "load_byte a (zero_bytes (rounds dst lim) dst (copy_bytes c va src s))
    = (if va \<le> a \<and> a < lim then if unat a < unat va + n then load_byte (src + (a - va)) s else 0 else load_byte a s)"
proof -
  have b: "unat src + c \<le> 4294967296" "unat va + c \<le> unat USER_TOP" "c < 4294967296" using assms(2,3) c by auto
  have u: "unat (p + word_of_nat i) = unat p + i" if "unat p + n \<le> 4294967296" "i < c" for p :: u32 and i
    using that b(3) c by (subst unat_u32_plus) (simp_all add: unat_of_nat_u32)
  have "src + word_of_nat i \<noteq> va + word_of_nat j" if "i < c" "j < c" for i j
  proof -
    have "unat (src + word_of_nat i) = unat src + i" "unat (va + word_of_nat j) = unat va + j"
      using that assms(2,3) by (simp_all add: u)
    moreover have "unat va + j < unat src + i" using that(2) b(2) assms(1) by (simp add: word_le_nat_alt)
    ultimately show ?thesis by auto
  qed
  then have cp: "load_byte a (copy_bytes c va src s) = (if unat (a - va) < c then load_byte (src + (a - va)) s else load_byte a s)"
    by (intro load_byte_copy_bytes) (use b(3) in auto)
  have ud: "unat dst = unat va + c" using b c by (simp add: dst, subst unat_u32_plus) (simp_all add: unat_of_nat_u32)
  have r1: "unat (a - va) < c \<longleftrightarrow> va \<le> a \<and> unat a < unat va + c" using b(2) by (intro in_range) simp
  have r2: "unat (a - dst) < rounds dst lim \<longleftrightarrow> dst \<le> a \<and> unat a < unat dst + rounds dst lim"
    using ud b(2) assms(4) by (intro in_range) (simp add: rounds_def)
  have "rounds dst lim < 4294967296" using unat_u32_lt [of lim] by (simp add: rounds_def)
  then have z: "load_byte a (zero_bytes (rounds dst lim) dst (copy_bytes c va src s)) = (if dst \<le> a \<and> unat a < unat dst + rounds dst lim then 0
      else if va \<le> a \<and> unat a < unat va + c then load_byte (src + (a - va)) s else load_byte a s)"
    by (simp add: load_byte_zero_bytes cp r1 r2)
  show ?thesis unfolding z using ud c assms(3,4)
    by (auto simp: rounds_def word_le_nat_alt word_less_nat_alt min_def split: if_splits)
qed

text \<open>Claim C33.  Loading a segment puts the program into memory: when the loop over the pages has mapped \<open>allocated\<close> pages,
  at most as many as the segment has and the limit allows, then every byte of the segment in these pages is the byte of
  the file where the file part reaches, and 0 behind it; no other byte of memory is changed by the copy.\<close>

theorem segment_is_loaded:
  assumes "program_segment_alloc_map_copy_workingset e seg remaining lastTable s = Inr (allocated, lastTable', t)"
    and va: "va = seg_virtual_address seg" and pages: "pages = unat allocated"
    and "KERNEL_BASE \<le> ptr_start seg" and "unat (ptr_start seg) + unat (size_in_file seg) \<le> 4294967296"
    and "size_in_file seg \<le> size_in_memory seg" and "unat va + unat (size_in_memory seg) \<le> unat USER_TOP"
  shows "\<exists>s1. segment_pages (unat (segment_cap (prog_name (envx s e)) (ROUNDDOWN va PAGE_SIZE) remaining)) e (ROUNDDOWN va PAGE_SIZE)
        (ROUNDUP (va + size_in_memory seg) PAGE_SIZE) 0 lastTable s = Inr (allocated, lastTable', s1)
    \<and> allocated \<le> segment_cap (prog_name (envx s e)) (ROUNDDOWN va PAGE_SIZE) remaining
    \<and> (0 < pages \<longrightarrow> unat (ROUNDDOWN va PAGE_SIZE) + 4096 * pages \<le> unat (ROUNDUP (va + size_in_memory seg) PAGE_SIZE))
    \<and> (\<forall>a. load_byte a t =
        (if va \<le> a \<and> unat a < unat (ROUNDDOWN va PAGE_SIZE) + 4096 * pages
         then if unat a < unat va + unat (size_in_file seg) then load_byte (ptr_start seg + (a - va)) s1 else 0
         else load_byte a s1))"
proof -
  let ?iVA = "ROUNDDOWN va PAGE_SIZE" and ?last = "ROUNDUP (va + size_in_memory seg) PAGE_SIZE"
  let ?n = "segment_cap (prog_name (envx s e)) ?iVA remaining"
  let ?lim = "?iVA + allocated * PAGE_SIZE" and ?fsz = "size_in_file seg"
  let ?c = "min (rounds va ?lim) (rounds va (va + ?fsz))"
  obtain s1 where s1: "segment_pages (unat ?n) e ?iVA ?last 0 lastTable s = Inr (allocated, lastTable', s1)"
    and t: "t = zero_bytes (rounds (va + word_of_nat ?c) ?lim) (va + word_of_nat ?c) (copy_bytes ?c va (ptr_start seg) s1)"
    using assms(1) by (auto simp: program_segment_alloc_map_copy_workingset_def Let_def va)
  have "4096 dvd unat ?iVA" using ROUNDDOWN_dvd [of "PAGE_SIZE" va] by simp
  have "unat (va + size_in_memory seg) = unat va + unat (size_in_memory seg)" using assms(7) by (subst unat_u32_plus) simp_all
  then have e: "unat ?last = (unat va + unat (size_in_memory seg) + 4095) div 4096 * 4096" using assms(7) by (subst unat_ROUNDUP) simp_all
  then have top: "4096 dvd unat ?last" "unat ?last \<le> unat USER_TOP" using assms(7) by auto
  obtain k where k: "k \<le> unat ?n" "allocated = word_of_nat k" "0 < k \<longrightarrow> unat ?iVA + 4096 * k \<le> unat ?last"
    using segment_pages_count [OF s1 \<open>4096 dvd unat ?iVA\<close> top] by auto
  have pk: "pages = k" using k unat_u32_lt [of ?n] by (simp add: pages unat_of_nat_u32)
  have small: "4096 * k < 4294967296" using k(3) top(2) by (cases "k = 0") simp_all
  have le: "unat ?iVA \<le> unat va" using ROUNDDOWN_le [of va "PAGE_SIZE"] by (simp add: word_le_nat_alt)
  have "unat (allocated * PAGE_SIZE) = 4096 * k" using small k(2) by (subst unat_u32_mult) (simp_all add: unat_of_nat_u32)
  then have lim: "unat ?lim = unat ?iVA + 4096 * k" using k(3) top(2) le assms(7) by (cases "k = 0") (simp_all add: unat_u32_plus)
  then have lt: "unat ?lim \<le> unat USER_TOP" using k(3) top(2) le assms(7) by (cases "k = 0") simp_all
  have fz: "unat va + unat ?fsz \<le> unat USER_TOP" using assms(6,7) by (simp add: word_le_nat_alt)
  then have "unat (va + ?fsz) = unat va + unat ?fsz" by (subst unat_u32_plus) simp_all
  then have c: "?c = min (unat ?lim - unat va) (unat ?fsz)" by (simp add: rounds_def)
  have "load_byte a t = (if va \<le> a \<and> a < ?lim then if unat a < unat va + unat ?fsz then load_byte (ptr_start seg + (a - va)) s1 else 0
      else load_byte a s1)" for a
    unfolding t by (rule copy_then_zero [OF assms(4,5) fz lt c refl])
  moreover have "a < ?lim \<longleftrightarrow> unat a < unat ?iVA + 4096 * pages" for a by (simp add: word_less_nat_alt lim pk)
  moreover have "allocated \<le> ?n" using k(1) pk pages by (simp add: word_le_nat_alt)
  ultimately show ?thesis using s1 k(3) pk by (intro exI [of _ s1]) simp
qed

section \<open>The properties on a small example\<close>

text \<open>Slots 4 and 5 are free; a program image of two bytes lies at \<open>0xF0300000\<close>, and the allocator has a free block for a
  working-set element.\<close>

definition env_example :: penv where
  "env_example = pshare.extend (share_example [] 1) (penv.fields [4, 5] (\<lambda>_. zero_EnvX\<lparr>env_tf := 0xF6007FBC, context_at := 0xF6007F98\<rparr>)
       [([102], 0xF0300000)] 0x100000 (\<lambda>_ _ _. 0) (\<lambda>_. []) 0xF0101000 0xF0102000)
     \<lparr>kh_da := da_example\<lparr>freeBlockLists := (\<lambda>k. if k = 2 then [0xF6000020] else [])\<rparr>,
      envs := (\<lambda>i. if i = 4 \<or> i = 5 then zero_Env\<lparr>env_page_directory := 0xF6003000, page_WS_max_size := 10\<rparr>
        else envs (share_example [] 1) i),
      mem := (\<lambda>p i. if p = 0xF0300000 \<and> i = 0 then 0xBBAA else mem (share_example [] 1) p i)\<rparr>"

lemma env_example_fields:
  "kcpu env_example = kcpu heap_example" "nenv env_example = 64" "env_free_list env_example = [4, 5]"
  "userPrograms env_example = [([102], 0xF0300000)]" "env_tf (envx env_example e) = 0xF6007FBC" "prog_name (envx env_example e) = []"
  "env_page_directory (envs env_example 4) = 0xF6003000" "env_id (envs env_example 4) = 0" "env_status (envs env_example 4) = ENV_FREE"
  "cpu_proc env_example = Some 2" "env_id (envs env_example 2) = env_id (ex_envs 0 2)"
  by (simp_all add: env_example_def share_example_unfold penv.defs zero_EnvX_def zero_Env_def)

lemma env_example_cpu: "cpu_ok (kcpu env_example)"
  using heap_example_calm by (simp add: env_example_fields heap_calm_def calm_def)

lemma log2_ceil_64: "log2_ceil 64 = 7"
  by code_simp

theorem new_environment_identity_witness:
  "\<exists>t. complete_environment_initialization 4 env_example = Inr t \<and> ENVX 64 (env_id (envs t 4)) = 4 \<and> env_status (envs t 4) = ENV_NEW
     \<and> word_at (0xF6007FBC + 4 * word_of_nat 15) t = USTACKTOP \<and> env_free_list t = [5]"
proof -
  have "\<exists>t. complete_environment_initialization 4 env_example = Inr t
    \<and> ENVX (nenv env_example) (env_id (envs t 4)) = 4 \<and> 0 < sint (env_id (envs t 4))
    \<and> env_status (envs t 4) = ENV_NEW \<and> env_free_list t = remove1 4 (env_free_list env_example) \<and> env_runs (envx t 4) = 0
    \<and> env_parent_id (envs t 4) = (case cpu_proc env_example of None \<Rightarrow> 0 | Some c \<Rightarrow> env_id (envs t c))
    \<and> (\<forall>i < 17. word_at (env_tf (envx env_example 4) + 4 * word_of_nat i) t = initial_trapframe ! i)
    \<and> (\<forall>e'. e' \<noteq> 4 \<longrightarrow> envs t e' = envs env_example e' \<and> envx t e' = envx env_example e')"
    by (rule new_environment_identity [OF _ _ _ _ env_example_cpu])
      (simp_all only: env_example_fields, simp_all add: dvd_eq_mod_eq_0)
  then obtain t where "complete_environment_initialization 4 env_example = Inr t" "ENVX 64 (env_id (envs t 4)) = 4"
    "env_status (envs t 4) = ENV_NEW" "env_free_list t = [5]" "\<forall>i < 17. word_at (0xF6007FBC + 4 * word_of_nat i) t = initial_trapframe ! i"
    by (auto simp: env_example_fields)
  moreover have "initial_trapframe ! 15 = USTACKTOP" by (simp add: initial_trapframe_def nth_append)
  ultimately show ?thesis by (metis (mono_tags) numeral_less_iff less_num_simps)
qed

lemma pow2_64: "nearest_pow2_ceil 64 = 64"
  by code_simp
lemma next_generation_64: "next_generation 64 0 OR 4 = 132"
proof -
  have "0 < sint (128 :: u32)" by (simp add: sint_uint signed_take_bit_eq_if_positive)
  then show ?thesis by (simp add: next_generation_def Let_def log2_ceil_64 pow2_64)
qed

lemma free_environment_kcpu: "kcpu (free_environment e s) = kcpu s"
  by (simp add: free_environment_def upd_env_def upd_envx_def Let_def)

theorem environment_number_is_reused_witness:
  "\<exists>t u (v :: penv) w x. complete_environment_initialization 4 env_example = Inr t \<and> allocate_environment (free_environment 4 t) = (Some 4, u)
     \<and> complete_environment_initialization 4 v = Inr w \<and> env_id (envs w 4) = 132
     \<and> envid2env 132 False w = Inr (0, Some 4, x) \<and> env_id (envs t 4) = 132"
proof -
  have e: "1 < nenv env_example" "nenv env_example \<le> 1048576" "4 < nenv env_example" "env_id (envs env_example 4) = 0"
    by (simp_all add: env_example_fields)
  obtain t where t: "complete_environment_initialization 4 env_example = Inr t" "kcpu t = noted (kcpu env_example)"
    by (rule complete_defined [of 4 env_example]) (simp_all add: env_example_fields env_example_cpu [unfolded env_example_fields])
  obtain p u where u: "allocate_environment (free_environment 4 t) = (p, u)" by fastforce
  have fu: "kcpu u = kcpu t" "nenv u = nenv t" "4 \<in> set (env_free_list u)" "env_id (envs u 4) = 0"
    using u by (auto simp: allocate_environment_def free_environment_fields set_status_def upd_env_def free_environment_kcpu)
  define v where "v = upd_env 4 (\<lambda>v. v\<lparr>env_page_directory := 0xF6003000\<rparr>) u"
  have fv: "kcpu v = kcpu t" "nenv v = nenv u" "4 \<in> set (env_free_list v)" "env_id (envs v 4) = env_id (envs u 4)"
    "env_page_directory (envs v 4) \<noteq> 0" by (simp_all add: v_def upd_env_def fu)
  have n: "cpu_ok (noted (kcpu env_example))" using env_example_cpu by (simp add: cpu_ok_def)
  obtain w where w: "complete_environment_initialization 4 v = Inr w" "kcpu w = noted (kcpu v)"
    by (rule complete_defined [of 4 v]) (use fv t(2) n in simp_all)
  have "cpu_ok (kcpu w)" using n t(2) w(2) fv(1) by (simp add: cpu_ok_def)
  note r = environment_number_is_reused [OF e t(1) u fv(4,2) w(1) this]
  have "env_id (envs t 4) = next_generation 64 0 OR word_of_nat 4" using complete_result(1) [OF t(1)] by (simp only: env_example_fields)
  then have i: "env_id (envs t 4) = 132" using next_generation_64 by simp
  from r obtain x where "envid2env 132 False w = Inr (0, Some 4, x)" unfolding i by blast
  with r t(1) u w(1) i have "complete_environment_initialization 4 env_example = Inr t \<and> allocate_environment (free_environment 4 t) = (Some 4, u)
     \<and> complete_environment_initialization 4 v = Inr w \<and> env_id (envs w 4) = 132
     \<and> envid2env 132 False w = Inr (0, Some 4, x) \<and> env_id (envs t 4) = 132" by simp
  then show ?thesis by blast
qed



theorem env_create_refuses_witness:
  "env_create [120] 10 0 0 env_example = Inr (None, env_example\<lparr>kcpu := noted (kcpu env_example)\<rparr>)
   \<and> (\<nexists>t. env_create [102] 10 0 0 env_example = Inr (None, t))"
proof -
  have "get_user_program_info [120] env_example = None" "get_user_program_info [102] env_example \<noteq> None" "env_free_list env_example \<noteq> []"
    by (simp_all add: get_user_program_info_def env_example_fields)
  then show ?thesis using env_create_refuses [OF env_example_cpu] by metis
qed

text \<open>A segment of 0x200 bytes, two of them in the file, that starts in the middle of a page.\<close>

definition seg_example :: ProgramSegment where
  "seg_example = \<lparr>ptr_start = 0xF0300000, size_in_file = 2, size_in_memory = 0x200, seg_virtual_address = 0x82001100, segment_id = 0\<rparr>"

lemma loadtime_map_present:
  assumes "table_ok s dir va p" and "mem s dir (unat (PDX va)) \<noteq> 0"
  shows "loadtime_map_frame ct dir f va perm s = Inr (set_entry p (unat (PTX va)) (CONSTRUCT_ENTRY (to_physical_address f) (perm OR PERM_PRESENT)) (add_ref f s))"
proof -
  have "table_pointer va (mem s dir (unat (PDX va))) s = Inr (p, s)"
    using assms(1) by (auto simp: table_ok_def table_pointer_def Let_def not_le [symmetric] STATIC_KERNEL_VIRTUAL_ADDRESS_def
      kheap_virtual_address_calm split: if_splits)
  then show ?thesis using assms by (simp add: loadtime_map_frame_def load_def store_def table_ok_def Let_def add_ref_def set_entry_def)
qed

lemma class_loop_24: "class_loop class_fuel 24 8 0 = Some (32, 2)"
  by code_simp

lemma env_example_more_fields:
  "number_of_frames env_example = 4096" "mfllock env_example = unlocked" "heap_lock env_example = unlocked"
  "free_frame_list env_example = [2000, 2001, 2002]" "PageRepAlgoType env_example = 3"
  "kh_da env_example = da_example\<lparr>freeBlockLists := (\<lambda>k. if k = 2 then [0xF6000020] else [])\<rparr>"
  "frames_info env_example f = (if f = 1000 then null_frame_info\<lparr>fi_va := 0xF6004000\<rparr> else null_frame_info)"
  "mem env_example p i = (if p = 0xF0300000 \<and> i = 0 then 0xBBAA else if p = 0xF6003000 \<and> i = 520 then 0x3E8001 else 0)"
  "page_WS_max_size (envs env_example 4) = 10" "page_WS_list (envs env_example 4) = []"
  "ptr_tws (envs env_example 4) = ptr_tws zero_Env" "table_last_WS_index (envx env_example 4) = 0"
  by (simp_all add: env_example_def share_example_unfold penv.defs zero_EnvX_def zero_Env_def)

lemma env_example_calm: "heap_calm env_example"
  using heap_example_calm by (simp add: heap_calm_def calm_def env_example_fields env_example_more_fields)

lemma set_entry_heap_calm [simp]: "heap_calm (set_entry p i v s) = heap_calm s" "heap_calm (add_ref f s) = heap_calm s"
  "heap_calm (set_frame f fi s) = heap_calm s" "heap_calm (s\<lparr>free_frame_list := fs\<rparr>) = heap_calm s"
  by (simp_all add: heap_calm_def calm_def set_entry_def add_ref_def set_frame_def)

theorem segment_is_loaded_witness:
  "\<exists>t. program_segment_alloc_map_copy_workingset 4 seg_example 5 0xFFFFFFFF env_example = Inr (1, 520, t)
     \<and> load_byte 0x82001100 t = 0xAA \<and> load_byte 0x82001101 t = 0xBB \<and> load_byte 0x82001102 t = 0"
proof -
  let ?e = env_example
  define s1 where "s1 = set_frame 2000 null_frame_info (?e\<lparr>free_frame_list := [2001, 2002]\<rparr>)"
  have a: "allocate_frame ?e = Inr (2000, s1)"
    using env_example_calm by (simp add: s1_def heap_calm_def allocate_frame_calm env_example_more_fields)
  have f1: "heap_calm s1" "mem s1 = mem ?e" "number_of_frames s1 = 4096" "frames_info s1 1000 = null_frame_info\<lparr>fi_va := 0xF6004000\<rparr>"
    "envs s1 = envs ?e"
    using env_example_calm by (simp_all add: s1_def, simp_all add: set_frame_def env_example_more_fields)
  define s2 where "s2 = set_entry 0xF6004000 1 (CONSTRUCT_ENTRY (to_physical_address 2000) (PERM_USER OR PERM_WRITEABLE OR PERM_PRESENT)) (add_ref 2000 s1)"
  have pd: "unat (PDX 0x82001000) = 520" "unat (PTX 0x82001000) = 1" "\<not> CHECK_IF_KERNEL_ADDRESS 0x82001000"
    by (simp_all add: unat_PDX unat_PTX CHECK_IF_KERNEL_ADDRESS_def)
  have ppn: "PPN (EXTRACT_ADDRESS 0x3E8001) = 1000" by (simp add: PPN_def EXTRACT_ADDRESS_def)
  have "table_ok s1 0xF6003000 0x82001000 0xF6004000"
    using f1 ppn pd by (simp add: table_ok_def env_example_more_fields present_def heap_va_of_def)
       (simp add: EXTRACT_ADDRESS_def null_frame_info_def)
  then have l: "loadtime_map_frame ct (env_page_directory (envs s1 4)) 2000 0x82001000 (PERM_USER OR PERM_WRITEABLE) s1 = Inr s2" for ct
    by (simp only: loadtime_map_present f1 env_example_fields) (simp add: loadtime_map_present f1 pd env_example_more_fields s2_def)
  have f2: "heap_calm s2" "kh_da s2 = kh_da ?e" using f1(1) by (simp_all add: s2_def, simp_all add: s1_def set_entry_def add_ref_def set_frame_def)
  obtain d where d: "take_block 2 (kh_da ?e) = Inr (0xF6000020, d)"
    by (simp add: env_example_more_fields take_block_def to_page_info_def da_example_def Let_def)
  have k: "kmalloc 24 s2 = Inr (0xF6000020, s2\<lparr>kh_da := d\<rparr>)"
    by (rule kmalloc_reuse [OF f2(1) _ _ class_loop_24]) (simp_all add: f2 d, simp add: env_example_more_fields)
  define s3 where "s3 = upd_wse 0xF6000020 (\<lambda>v. v\<lparr>virtual_address := 0x82001000, sweeps_counter := 0, time_stamp := 0\<rparr>) (s2\<lparr>kh_da := d\<rparr>)"
  have c: "env_page_ws_list_create_element 0x82001000 s2 = Inr (0xF6000020, s3)"
    by (simp add: env_page_ws_list_create_element_def k s3_def ROUNDDOWN_def)
  have f3: "mem s3 = mem s2" "envs s3 = envs ?e" "envx s3 = envx ?e" "PageRepAlgoType s3 = 3"
    by (simp_all add: s3_def upd_wse_def, simp_all add: s2_def s1_def set_entry_def add_ref_def set_frame_def env_example_more_fields)
  define s6 where "s6 = set_last_ws 4 (page_WS_list (envs (add_to_ws 4 0xF6000020 (ActiveListSize (envx (upd_wse 0xF6000020 (\<lambda>v. v\<lparr>time_stamp := 0\<rparr>) s3) 4) - 1)
      (upd_wse 0xF6000020 (\<lambda>v. v\<lparr>time_stamp := 0\<rparr>) s3)) 4)) (add_to_ws 4 0xF6000020 (ActiveListSize (envx (upd_wse 0xF6000020 (\<lambda>v. v\<lparr>time_stamp := 0\<rparr>) s3) 4) - 1)
      (upd_wse 0xF6000020 (\<lambda>v. v\<lparr>time_stamp := 0\<rparr>) s3))"
  have tws: "length (ptr_tws (envs s6 4)) = 50" "table_last_WS_index (envx s6 4) = 0" "mem s6 = mem s2"
    using f3 by (simp_all add: s6_def set_last_ws_def add_to_ws_def upd_env_def upd_wse_def lists_approx_def isPageReplacmentAlgorithmLRU_def env_example_more_fields)
      (simp_all add: zero_Env_def)
  obtain s7 where n: "note_table 4 0x82001000 0xFFFFFFFF s6 = Inr (520, s7)" and m7: "mem s7 = mem s2"
    using tws by (simp add: note_table_def PDX_def Let_def upd_env_def upd_envx_def)
  have stop: "segment_pages n 4 0x82002000 0x82002000 1 520 s7 = Inr (1, 520, s7)" for n by (cases n) simp_all
  have "segment_pages (Suc 4) 4 0x82001000 0x82002000 0 0xFFFFFFFF ?e = Inr (1, 520, s7)"
    unfolding segment_pages.simps(2) Let_def using n stop [of 4] by (simp add: a l [simplified] c s6_def del: segment_pages.simps)
  then have s7: "segment_pages 5 4 0x82001000 0x82002000 0 0xFFFFFFFF ?e = Inr (1, 520, s7)" "mem s7 = mem s2" using m7 by simp_all
  have r: "ROUNDDOWN 0x82001100 PAGE_SIZE = 0x82001000" "ROUNDUP (0x82001100 + 0x200) PAGE_SIZE = 0x82002000"
    by (simp_all add: ROUNDUP_def ROUNDDOWN_def)
  have cap: "segment_cap (prog_name (envx ?e 4)) 0x82001000 5 = 5" by (simp add: segment_cap_def)
  obtain t where t: "program_segment_alloc_map_copy_workingset 4 seg_example 5 0xFFFFFFFF ?e = Inr (1, 520, t)"
    using s7(1) r cap by (simp add: program_segment_alloc_map_copy_workingset_def seg_example_def Let_def)
  have "\<exists>s1. segment_pages (unat (segment_cap (prog_name (envx ?e 4)) (ROUNDDOWN 0x82001100 PAGE_SIZE) 5)) 4 (ROUNDDOWN 0x82001100 PAGE_SIZE)
        (ROUNDUP (0x82001100 + size_in_memory seg_example) PAGE_SIZE) 0 0xFFFFFFFF ?e = Inr (1, 520, s1)
    \<and> 1 \<le> segment_cap (prog_name (envx ?e 4)) (ROUNDDOWN 0x82001100 PAGE_SIZE) 5
    \<and> (0 < (1::nat) \<longrightarrow> unat (ROUNDDOWN 0x82001100 PAGE_SIZE) + 4096 * 1 \<le> unat (ROUNDUP (0x82001100 + size_in_memory seg_example) PAGE_SIZE))
    \<and> (\<forall>a. load_byte a t =
        (if 0x82001100 \<le> a \<and> unat a < unat (ROUNDDOWN 0x82001100 PAGE_SIZE) + 4096 * 1
         then if unat a < unat (0x82001100 :: u32) + unat (size_in_file seg_example) then load_byte (ptr_start seg_example + (a - 0x82001100)) s1 else 0
         else load_byte a s1))"
    by (rule segment_is_loaded [OF t]) (simp_all add: seg_example_def)
  then have b: "load_byte a t = (if unat a < 0x82001102 then load_byte (0xF0300000 + (a - 0x82001100)) s7 else 0)"
    if "0x82001100 \<le> a" "unat a < 0x82002000" for a
    using that s7(1) r cap by (simp add: seg_example_def)
  have w: "word_at a s7 = 0xBBAA" if "a = 0xF0300000 \<or> a = 0xF0300001" for a
    using that f1(2) by (auto simp: word_at_def ROUNDDOWN_def s7(2) s2_def env_example_more_fields)
  have "load_byte 0xF0300000 s7 = 0xAA" "load_byte 0xF0300001 s7 = 0xBB" by (simp_all add: load_byte_def w)
  then have "load_byte 0x82001100 t = 0xAA" "load_byte 0x82001101 t = 0xBB" "load_byte 0x82001102 t = 0"
    using b [of "0x82001100"] b [of "0x82001101"] b [of "0x82001102"] by simp_all
  then show ?thesis using t by blast
qed

end
