(* ===== verification/FOS_Print.thy ===== *)
theory FOS_Print
  imports FOS_String FOS_Spinlock
begin

text \<open>
  Formatted printing: \<^verbatim>\<open>lib/printfmt.c\<close>, \<^verbatim>\<open>kern/cons/printf.c\<close> and \<^verbatim>\<open>lib/printf.c\<close>.  A format is the list of its characters
  before the terminating NUL.  The variable arguments are the words of the argument area from the next one on.  The
  function pointer \<^verbatim>\<open>putch\<close> is called once for every character: \<open>vprintfmt\<close> returns the list of what it does, the
  characters it puts and its assignments of \<open>printProgName\<close>, and the callers fold their own \<open>putch\<close> over it.  The
  texts that \<open>%s\<close> prints are bytes of memory, and a buffer that is printed into does not overlap them.
\<close>

section \<open>Arguments\<close>

type_synonym va_list = "nat \<Rightarrow> u32"

datatype event = Put i32 | ProgName bool

definition va_shift :: "nat \<Rightarrow> va_list \<Rightarrow> va_list" where
  "va_shift n ap = (\<lambda>i. ap (n + i))"

definition va_long_long :: "va_list \<Rightarrow> 64 word" where
  "va_long_long ap = ucast (ap 0) OR push_bit 32 (ucast (ap 1))"

definition getuint :: "va_list \<Rightarrow> nat \<Rightarrow> 64 word \<times> va_list" where
  "getuint ap lflag = (if 2 \<le> lflag then (va_long_long ap, va_shift 2 ap) else (ucast (ap 0), va_shift 1 ap))"

definition getint :: "va_list \<Rightarrow> nat \<Rightarrow> 64 word \<times> va_list" where
  "getint ap lflag = (if 2 \<le> lflag then (va_long_long ap, va_shift 2 ap) else (scast (ap 0), va_shift 1 ap))"

section \<open>Numbers\<close>

text \<open>A number of 64 bits has at most 64 digits in a base of at least two.\<close>

definition hex_digit :: "64 word \<Rightarrow> i32" where
  "hex_digit d = (if d < 10 then 48 + ucast d else 87 + ucast d)"

fun printnum :: "nat \<Rightarrow> 64 word \<Rightarrow> 64 word \<Rightarrow> int \<Rightarrow> i32 \<Rightarrow> i32 list res" where
  "printnum 0 num base width padc = Inl Spin"
| "printnum (Suc n) num base width padc =
     bindE (if base \<le> num then printnum n (num div base) base (width - 1) padc else Inr (replicate (nat (width - 1)) padc)) (\<lambda>before.
     Inr (before @ [hex_digit (num mod base)]))"

abbreviation (input) print_fuel :: nat where "print_fuel \<equiv> 64"

section \<open>One conversion\<close>

record flags =
  padc :: i32
  width :: int
  precision :: int
  lflag :: nat
  altflag :: bool

definition no_flags :: flags where
  "no_flags = \<lparr>padc = 32, width = - 1, precision = - 1, lflag = 0, altflag = False\<rparr>"

definition process_precision :: "flags \<Rightarrow> flags" where
  "process_precision f = (if width f < 0 then f\<lparr>width := precision f, precision := - 1\<rparr> else f)"

abbreviation (input) is_digit :: "u8 \<Rightarrow> bool" where "is_digit c \<equiv> 48 \<le> c \<and> c \<le> 57"

fun read_digits :: "int \<Rightarrow> u8 list \<Rightarrow> int \<times> u8 list" where
  "read_digits n [] = (n, [])"
| "read_digits n (c # cs) = (if is_digit c then read_digits (n * 10 + uint c - 48) cs else (n, c # cs))"

lemma length_read_digits: "length (snd (read_digits n cs)) \<le> length cs"
  by (induction n cs rule: read_digits.induct) auto

text \<open>Flags, width and precision, up to the conversion character, which is 0 at the end of the format.\<close>

function read_escape :: "flags \<Rightarrow> u8 list \<Rightarrow> va_list \<Rightarrow> u8 \<times> flags \<times> u8 list \<times> va_list" where
  "read_escape f [] ap = (0, f, [], ap)"
| "read_escape f (c # cs) ap =
     (if c = 45 then read_escape (f\<lparr>padc := 45\<rparr>) cs ap
      else if c = 48 then read_escape (f\<lparr>padc := 48\<rparr>) cs ap
      else if is_digit c then
        let (n, rest) = read_digits (uint c - 48) cs in read_escape (process_precision (f\<lparr>precision := n\<rparr>)) rest ap
      else if c = 42 then read_escape (process_precision (f\<lparr>precision := sint (ap 0)\<rparr>)) cs (va_shift 1 ap)
      else if c = 46 then read_escape (if width f < 0 then f\<lparr>width := 0\<rparr> else f) cs ap
      else if c = 35 then read_escape (f\<lparr>altflag := True\<rparr>) cs ap
      else if c = 108 then read_escape (f\<lparr>lflag := lflag f + 1\<rparr>) cs ap
      else (c, f, cs, ap))"
  by pat_completeness auto
termination
  by (relation "measure (\<lambda>(f, cs, ap). length cs)") (simp_all add: less_Suc_eq_le, metis length_read_digits snd_conv)

declare read_escape.simps(2) [simp del]

lemma length_read_escape: "read_escape f cs ap = (c, g, rest, aq) \<Longrightarrow> length rest \<le> length cs"
proof (induction f cs ap rule: read_escape.induct)
  case (2 f d cs ap)
  obtain n r where nr: "read_digits (uint d - 48) cs = (n, r)" by (cases "read_digits (uint d - 48) cs")
  then have len: "length r \<le> length cs" using length_read_digits [of "uint d - 48" cs] by simp
  note third = "2.IH"(3) [OF _ _ _ nr [symmetric] refl]
  note e = "2.prems" [unfolded read_escape.simps(2), simplified nr Let_def prod.case]
  show ?case
    using e "2.IH"(1,2,4-7) third len by (auto split: if_splits)
qed simp

text \<open>The text of \<open>%s\<close>: the padding before it, the characters, and the width that is left.\<close>

partial_function (option) string_loop :: "bytes \<Rightarrow> u32 \<Rightarrow> int \<Rightarrow> int \<Rightarrow> bool \<Rightarrow> i32 list \<Rightarrow> (i32 list \<times> int) option" where
  "string_loop m p prec w alt acc =
     (let ch = (scast (m p) :: i32) in
      if ch \<noteq> 0 \<and> (prec < 0 \<or> 0 < prec) then
        string_loop m (p + 1) (if prec < 0 then prec else prec - 1) (w - 1) alt (acc @ [if alt \<and> (sint ch < 32 \<or> 126 < sint ch) then 63 else ch])
      else Some (acc, w))"

definition null_text :: "u8 list" where
  "null_text = [40, 110, 117, 108, 108, 41]"

text \<open>The literal \<open>(null)\<close> that a null pointer stands for is given as a memory of its own.\<close>

definition print_string :: "bytes \<Rightarrow> u32 \<Rightarrow> flags \<Rightarrow> i32 list res" where
  "print_string m p f =
     (let (m1, q) = (if p = 0 then (put (\<lambda>_. 0) 0 null_text, 0) else (m, p));
          lead = (if 0 < width f \<and> padc f \<noteq> 45 then nat (width f - sint (strnlen m1 q (word_of_int (precision f)))) else 0);
          w = (if 0 < width f \<and> padc f \<noteq> 45 then width f - sint (strnlen m1 q (word_of_int (precision f))) - int lead else width f)
      in case string_loop m1 q (precision f) w (altflag f) [] of
           None \<Rightarrow> Inl Spin
         | Some (cs, w1) \<Rightarrow> Inr (replicate lead (padc f) @ cs @ replicate (nat w1) 32))"

text \<open>The first seven error codes have a text, of up to 100.\<close>

abbreviation (input) MAXERROR :: int where "MAXERROR \<equiv> 100"

definition error_string :: "nat \<Rightarrow> string" where
  "error_string i = (if i = 1 then ''unspecified error'' else if i = 2 then ''bad environment'' else if i = 3 then ''invalid parameter''
     else if i = 4 then ''out of memory'' else if i = 5 then ''out of environments'' else if i = 6 then ''segmentation fault'' else '''')"

definition chars :: "string \<Rightarrow> i32 list" where
  "chars s = map of_char s"

definition print_decimal :: "64 word \<Rightarrow> flags \<Rightarrow> i32 list res" where
  "print_decimal num f =
     (if sint num < 0 then bindE (printnum print_fuel (- num) 10 (width f) (padc f)) (\<lambda>ds. Inr (45 # ds))
      else printnum print_fuel num 10 (width f) (padc f))"

text \<open>\<open>None\<close> is the unrecognised escape: a percent sign is printed, and the format is resumed after the one that began it.
  The calls of \<open>printfmt\<close> with the formats \<open>error %d\<close> and \<open>%s\<close> are written out.\<close>

definition print_error :: "i32 \<Rightarrow> i32 list res" where
  "print_error err =
     (let e = (if sint err < 0 then - err else err) in
      if MAXERROR < sint e then bindE (print_decimal (scast e) no_flags) (\<lambda>ds. Inr (chars ''error '' @ ds))
      else if sint e < 0 then Inl Fault
      else if error_string (nat (sint e)) = '''' then bindE (print_decimal (scast e) no_flags) (\<lambda>ds. Inr (chars ''error '' @ ds))
      else Inr (chars (error_string (nat (sint e)))))"

definition convert :: "bytes \<Rightarrow> u8 \<Rightarrow> flags \<Rightarrow> va_list \<Rightarrow> (event list \<times> va_list) option res" where
  "convert m ch f ap =
     (if ch = 99 then Inr (Some ([Put (ap 0)], va_shift 1 ap))
      else if ch = 101 then bindE (print_error (ap 0)) (\<lambda>cs. Inr (Some (map Put cs, va_shift 1 ap)))
      else if ch = 115 then bindE (print_string m (ap 0) f) (\<lambda>cs. Inr (Some (map Put cs, va_shift 1 ap)))
      else if ch = 100 then
        let (num, aq) = getint ap (lflag f) in bindE (print_decimal num f) (\<lambda>cs. Inr (Some (map Put cs, aq)))
      else if ch = 117 then
        let (num, aq) = getuint ap (lflag f) in bindE (printnum print_fuel num 10 (width f) (padc f)) (\<lambda>cs. Inr (Some (map Put cs, aq)))
      else if ch = 111 then Inr (Some (map Put (chars ''XXX''), ap))
      else if ch = 112 then
        bindE (printnum print_fuel (ucast (ap 0)) 16 (width f) (padc f)) (\<lambda>cs. Inr (Some (map Put (chars ''0x'' @ cs), va_shift 1 ap)))
      else if ch = 120 then
        let (num, aq) = getuint ap (lflag f) in bindE (printnum print_fuel num 16 (width f) (padc f)) (\<lambda>cs. Inr (Some (map Put cs, aq)))
      else if ch = 37 then Inr (Some ([Put 37], ap))
      else if ch = 126 then Inr (Some ([ProgName False], ap))
      else if ch = 64 then Inr (Some ([ProgName True], ap))
      else Inr None)"

function vprintfmt :: "bytes \<Rightarrow> u8 list \<Rightarrow> va_list \<Rightarrow> event list res" where
  "vprintfmt m [] ap = Inr []"
| "vprintfmt m (c # cs) ap =
     (if c \<noteq> 37 then bindE (vprintfmt m cs ap) (\<lambda>es. Inr (Put (ucast c) # es))
      else case read_escape no_flags cs ap of (ch, f, rest, aq) \<Rightarrow>
        bindE (convert m ch f aq) (\<lambda>r. case r of
          None \<Rightarrow> bindE (vprintfmt m cs aq) (\<lambda>es. Inr (Put 37 # es))
        | Some (out, ar) \<Rightarrow> bindE (vprintfmt m rest ar) (\<lambda>es. Inr (out @ es))))"
  by pat_completeness auto
termination
  by (relation "measure (\<lambda>(m, cs, ap). length cs)") (auto simp: less_Suc_eq_le dest: length_read_escape [OF sym])

declare vprintfmt.simps(2) [simp del]

section \<open>Printing into a buffer and onto the console\<close>

record sprintbuf =
  sp_buf :: u32
  sp_ebuf :: u32
  sp_cnt :: i32

fun sprintputch :: "event \<Rightarrow> sprintbuf \<times> bytes \<Rightarrow> sprintbuf \<times> bytes" where
  "sprintputch (Put ch) (b, m) =
     (let b1 = b\<lparr>sp_cnt := sp_cnt b + 1\<rparr> in
      if sp_buf b1 < sp_ebuf b1 then (b1\<lparr>sp_buf := sp_buf b1 + 1\<rparr>, m(sp_buf b1 := ucast ch)) else (b1, m))"
| "sprintputch (ProgName v) (b, m) = (b, m)"

abbreviation (input) E_INVAL :: i32 where "E_INVAL \<equiv> - 3"

definition vsnprintf :: "u32 \<Rightarrow> i32 \<Rightarrow> u8 list \<Rightarrow> va_list \<Rightarrow> bytes \<Rightarrow> (i32 \<times> bytes) res" where
  "vsnprintf buf n fmt ap m =
     (if buf = 0 \<or> sint n < 1 then Inr (- E_INVAL, m)
      else bindE (vprintfmt m fmt ap) (\<lambda>es.
        let (b, m1) = fold sprintputch es (\<lparr>sp_buf = buf, sp_ebuf = buf + n - 1, sp_cnt = 0\<rparr>, m)
        in Inr (sp_cnt b, m1(sp_buf b := 0))))"

text \<open>The kernel: \<open>cputchar\<close> for each character, between \<open>pushcli\<close> and \<open>popcli\<close>; the result is the count.\<close>

definition put_chars :: "event list \<Rightarrow> i32 list" where
  "put_chars es = concat (map (\<lambda>e. case e of Put c \<Rightarrow> [c] | ProgName _ \<Rightarrow> []) es)"

definition kern_vcprintf :: "('c \<Rightarrow> i32 \<Rightarrow> 'c) \<Rightarrow> u8 list \<Rightarrow> va_list \<Rightarrow> bytes \<Rightarrow> 'c \<Rightarrow> (i32 \<times> 'c) res" where
  "kern_vcprintf cputchar fmt ap m c = bindE (vprintfmt m fmt ap) (\<lambda>es.
     Inr (word_of_nat (length (put_chars es)), foldl cputchar c (put_chars es)))"

definition kern_cprintf :: "('c \<Rightarrow> i32 \<Rightarrow> 'c) \<Rightarrow> u8 list \<Rightarrow> va_list \<Rightarrow> bytes \<Rightarrow> cpu \<Rightarrow> 'c \<Rightarrow> (i32 \<times> cpu \<times> 'c) res" where
  "kern_cprintf cputchar fmt ap m cp c = bindE (kern_vcprintf cputchar fmt ap m c) (\<lambda>(n, c1).
     bindE (popcli (pushcli cp)) (\<lambda>cp1. Inr (n, cp1, c1)))"

text \<open>A process: characters are collected, and \<open>sys_cputs\<close> is called when 255 are there and at the end.  A call is the text
  and the value of \<open>printProgName\<close>.\<close>

record printbuf =
  pb_buf :: "u8 list"
  pb_cnt :: i32
  pb_prog :: bool
  pb_calls :: "(u8 list \<times> bool) list"

fun user_putch :: "event \<Rightarrow> printbuf \<Rightarrow> printbuf" where
  "user_putch (Put ch) b =
     (let buf = pb_buf b @ [ucast ch];
          b1 = (if length buf = 255 then b\<lparr>pb_buf := [], pb_calls := pb_calls b @ [(buf, pb_prog b)]\<rparr> else b\<lparr>pb_buf := buf\<rparr>)
      in b1\<lparr>pb_cnt := pb_cnt b1 + 1\<rparr>)"
| "user_putch (ProgName v) b = b\<lparr>pb_prog := v\<rparr>"

definition user_vcprintf :: "u8 list \<Rightarrow> va_list \<Rightarrow> bytes \<Rightarrow> bool \<Rightarrow> (i32 \<times> (u8 list \<times> bool) list) res" where
  "user_vcprintf fmt ap m prog = bindE (vprintfmt m fmt ap) (\<lambda>es.
     let b = fold user_putch es \<lparr>pb_buf = [], pb_cnt = 0, pb_prog = prog, pb_calls = []\<rparr>
     in Inr (pb_cnt b, pb_calls b @ [(pb_buf b, pb_prog b)]))"

definition user_cprintf :: "u8 list \<Rightarrow> va_list \<Rightarrow> bytes \<Rightarrow> (i32 \<times> (u8 list \<times> bool) list) res" where
  "user_cprintf fmt ap m = user_vcprintf fmt ap m True"

text \<open>The coloured variants put the colour into the upper byte for the time of the call; the atomic one takes the lock of the
  console around the calls.\<close>

definition kern_cprintf_colored :: "(i32 \<Rightarrow> 'c \<Rightarrow> 'c) \<Rightarrow> ('c \<Rightarrow> i32 \<Rightarrow> 'c) \<Rightarrow> i32 \<Rightarrow> i32 \<Rightarrow> u8 list \<Rightarrow> va_list \<Rightarrow> bytes \<Rightarrow> cpu \<Rightarrow> 'c
    \<Rightarrow> (i32 \<times> cpu \<times> 'c) res" where
  "kern_cprintf_colored set_color cputchar default_color textClr fmt ap m cp c =
     bindE (kern_cprintf cputchar fmt ap m cp (set_color (push_bit 8 textClr) c)) (\<lambda>(n, cp1, c1). Inr (n, cp1, set_color default_color c1))"

datatype console_call = LockCons | UnlockCons | Cputs "u8 list" bool i32

definition user_cprintf_colored :: "i32 \<Rightarrow> u8 list \<Rightarrow> va_list \<Rightarrow> bytes \<Rightarrow> (i32 \<times> console_call list) res" where
  "user_cprintf_colored textClr fmt ap m = bindE (user_vcprintf fmt ap m True) (\<lambda>(n, calls).
     Inr (n, map (\<lambda>(t, p). Cputs t p (push_bit 8 textClr)) calls))"

definition atomic_cprintf :: "u8 list \<Rightarrow> va_list \<Rightarrow> bytes \<Rightarrow> bool \<Rightarrow> i32 \<Rightarrow> (i32 \<times> console_call list) res" where
  "atomic_cprintf fmt ap m prog curTextClr = bindE (user_vcprintf fmt ap m prog) (\<lambda>(n, calls).
     Inr (n, LockCons # map (\<lambda>(t, p). Cputs t p curTextClr) calls @ [UnlockCons]))"

section \<open>The text of a number\<close>

fun text_of :: "nat \<Rightarrow> nat \<Rightarrow> i32 list" where
  "text_of b n = (if n < b \<or> b < 2 then [hex_digit (word_of_nat n)] else text_of b (n div b) @ [hex_digit (word_of_nat (n mod b))])"

declare text_of.simps [simp del]

lemma text_of_small: "n < b \<Longrightarrow> text_of b n = [hex_digit (word_of_nat n)]"
  by (subst text_of.simps) simp

lemma text_of_step: "\<lbrakk>b \<le> n; 2 \<le> b\<rbrakk> \<Longrightarrow> text_of b n = text_of b (n div b) @ [hex_digit (word_of_nat (n mod b))]"
  by (subst text_of.simps) simp

lemma unat_of_nat_64: "n < 18446744073709551616 \<Longrightarrow> unat (word_of_nat n :: 64 word) = n"
  by (simp add: unat_of_nat take_bit_nat_eq_self)

lemma printnum_text:
  assumes "2 \<le> b" and "b \<le> 16" and "unat num < b ^ k" and "0 < k"
  shows "printnum k num (word_of_nat b) w p
    = Inr (replicate (nat (w - int (length (text_of b (unat num))))) p @ text_of b (unat num))"
  using assms(3,4)
proof (induction k arbitrary: num w)
  case (Suc k)
  have b: "unat (word_of_nat b :: 64 word) = b" using assms(2) by (simp add: unat_of_nat_64)
  have m: "num mod word_of_nat b = word_of_nat (unat num mod b)"
  proof -
    have "unat num mod b < 18446744073709551616" using assms(1,2) mod_less_divisor [of b "unat num"] by linarith
    then show ?thesis by (simp only: word_unat_eq_iff unat_mod_distrib b unat_of_nat_64)
  qed
  show ?case
  proof (cases "unat num < b")
    case True
    then have "\<not> word_of_nat b \<le> num" by (simp add: word_le_nat_alt b)
    then show ?thesis using True by (simp add: m text_of_small)
  next
    case False
    then have le: "word_of_nat b \<le> num" by (simp add: word_le_nat_alt b)
    have "unat num div b < b ^ k" using Suc.prems(1) by (simp add: less_mult_imp_div_less mult.commute)
    moreover have "0 < k" using Suc.prems(1) False by (cases k) auto
    ultimately have "printnum k (num div word_of_nat b) (word_of_nat b) (w - 1) p
      = Inr (replicate (nat (w - 1 - int (length (text_of b (unat num div b))))) p @ text_of b (unat num div b))"
      using Suc.IH [of "num div word_of_nat b" "w - 1"] by (simp add: unat_div_distrib b)
    moreover have "text_of b (unat num) = text_of b (unat num div b) @ [hex_digit (word_of_nat (unat num mod b))]"
      using False assms(1) by (intro text_of_step) simp_all
    ultimately show ?thesis using le by (simp add: m algebra_simps)
  qed
qed simp

lemma printnum_print_fuel:
  assumes "b = 10 \<or> b = 16"
  shows "printnum print_fuel num (word_of_nat b) w p = Inr (replicate (nat (w - int (length (text_of b (unat num))))) p @ text_of b (unat num))"
proof (rule printnum_text)
  have "unat num < 18446744073709551616" using unsigned_less [of num] by simp
  also have "\<dots> = (2::nat) ^ 64" by simp
  also have "\<dots> \<le> b ^ 64" using assms by (intro power_mono) auto
  finally show "unat num < b ^ 64" .
qed (use assms in auto)





lemma text_of_10: "text_of 10 n = map ucast (decs n)"
proof (induction n rule: decs.induct)
  case (1 n)
  have d: "hex_digit (word_of_nat d) = ucast (48 + word_of_nat d :: u8)" if "d < 10" for d
  proof -
    have "d \<in> set [0 ..< 10]" using that by simp
    moreover have "\<forall>d \<in> set [0 ..< 10]. hex_digit (word_of_nat d) = ucast (48 + word_of_nat d :: u8)"
      by (simp add: upt_rec [of _ 10] hex_digit_def)
    ultimately show ?thesis by blast
  qed
  show ?case
  proof (cases "n < 10")
    case True
    then show ?thesis by (simp add: decs.simps [of n] text_of_small d)
  next
    case False
    then show ?thesis using 1 by (simp add: decs_rec [of n] text_of_step d)
  qed
qed

section \<open>Reading a conversion\<close>

lemma read_digits_eq:
  assumes "\<forall>c \<in> set ds. is_digit c" and "rest = [] \<or> \<not> is_digit (hd rest)"
  shows "read_digits n (ds @ rest) = (foldl (\<lambda>v c. v * 10 + uint c - 48) n ds, rest)"
  using assms
proof (induction ds arbitrary: n)
  case Nil
  then show ?case by (cases rest) auto
qed simp

lemma digit_char_value: "d < 10 \<Longrightarrow> uint (48 + word_of_nat d :: u8) = 48 + int d"
proof -
  assume d: "d < 10"
  have "unat (word_of_nat d :: u8) = d" using d by (simp add: unat_of_nat take_bit_nat_eq_self)
  then have "unat (48 + word_of_nat d :: u8) = 48 + d" using d by (simp add: unat_word_ariths)
  from arg_cong [OF this, of int] show ?thesis by simp
qed

lemma decs_value: "foldl (\<lambda>v c. v * 10 + uint c - 48) 0 (decs n) = int n"
proof (induction n rule: decs.induct)
  case (1 n)
  have "n mod 10 < 10" by simp
  note v = digit_char_value [OF this]
  show ?case
  proof (cases "n < 10")
    case True
    then show ?thesis using digit_char_value [of n] by (simp add: decs.simps [of n])
  next
    case False
    then have "foldl (\<lambda>v c. v * 10 + uint c - 48) 0 (decs n) = int (n div 10) * 10 + int (n mod 10)"
      using 1 by (simp add: decs_rec [of n] v)
    also have "\<dots> = int n" using div_mult_mod_eq [of n 10] by linarith
    finally show ?thesis .
  qed
qed

lemma decs_first: "0 < n \<Longrightarrow> \<exists>d xs. decs n = (48 + word_of_nat d) # xs \<and> 0 < d \<and> d < 10"
proof (induction n rule: decs.induct)
  case (1 n)
  show ?case
  proof (cases "n < 10")
    case True
    then show ?thesis using 1(2) by (auto simp: decs.simps [of n])
  next
    case False
    then have "0 < n div 10" by simp
    then show ?thesis using 1(1) False by (auto simp: decs_rec [of n])
  qed
qed

lemma decs_digits: "\<forall>c \<in> set (decs n). is_digit c"
  using decs_chars digit_char(3,4) by blast

text \<open>The text of a field: a flag, and a width without leading zeros when it is positive.\<close>

definition field_text :: "u8 list \<Rightarrow> nat \<Rightarrow> u8 list" where
  "field_text flag w = flag @ (if w = 0 then [] else decs w)"

lemma read_escape_width:
  assumes "\<not> is_digit c" and "c \<notin> {45, 42, 46, 35, 108}"
  shows "read_escape f ((if w = 0 then [] else decs w) @ c # rest) ap
    = (c, if w = 0 then f else process_precision (f\<lparr>precision := int w\<rparr>), rest, ap)"
proof (cases "w = 0")
  case True
  have "c \<noteq> 48" using assms(1) by auto
  then show ?thesis using True assms by (auto simp: read_escape.simps(2))
next
  case False
  then obtain d xs where x: "decs w = (48 + word_of_nat d) # xs" "0 < d" "d < 10" using decs_first by blast
  let ?x = "48 + word_of_nat d :: u8"
  have xv: "uint ?x = 48 + int d" using x(3) by (rule digit_char_value)
  have dig: "is_digit ?x" using decs_digits [of w] x(1) by simp
  have ne: "?x \<noteq> k" if "uint k \<noteq> 48 + int d" for k using that xv by metis
  have ne: "?x \<noteq> 45" "?x \<noteq> 48" using ne [of 45] ne [of 48] x(2) by simp_all
  have "read_digits (uint ?x - 48) (xs @ c # rest) = (int w, c # rest)"
    using read_digits_eq [of xs "c # rest" "uint ?x - 48"] decs_digits [of w] decs_value [of w] assms(1) x(1) by simp
  then have "read_escape f (?x # xs @ c # rest) ap = read_escape (process_precision (f\<lparr>precision := int w\<rparr>)) (c # rest) ap"
    by (subst read_escape.simps(2)) (use dig ne in simp)
  also have "\<dots> = (c, process_precision (f\<lparr>precision := int w\<rparr>), rest, ap)"
    using assms by (subst read_escape.simps(2)) auto
  finally show ?thesis using False x(1) by simp
qed

lemma read_escape_field:
  assumes "flag = [] \<or> flag = [48] \<or> flag = [45]" and "\<not> is_digit c" and "c \<notin> {45, 42, 46, 35, 108}"
  shows "read_escape no_flags (field_text flag w @ c # rest) ap
    = (c, \<lparr>padc = (if flag = [] then 32 else ucast (hd flag)), width = (if w = 0 then - 1 else int w), precision = - 1, lflag = 0, altflag = False\<rparr>, rest, ap)"
  using assms(1)
proof (elim disjE)
  assume "flag = []"
  then show ?thesis using read_escape_width [OF assms(2,3), of no_flags w rest ap]
    by (auto simp: field_text_def no_flags_def process_precision_def)
next
  assume "flag = [48]"
  then show ?thesis using read_escape_width [OF assms(2,3), of "no_flags\<lparr>padc := 48\<rparr>" w rest ap]
    by (simp add: field_text_def no_flags_def process_precision_def read_escape.simps(2))
next
  assume "flag = [45]"
  then show ?thesis using read_escape_width [OF assms(2,3), of "no_flags\<lparr>padc := 45\<rparr>" w rest ap]
    by (simp add: field_text_def no_flags_def process_precision_def read_escape.simps(2))
qed

section \<open>The printed numbers\<close>

definition pad_to :: "nat \<Rightarrow> i32 \<Rightarrow> i32 list \<Rightarrow> i32 list" where
  "pad_to w p ds = replicate (w - length ds) p @ ds"

lemma printnum_field:
  assumes "b = 10 \<or> b = 16"
  shows "printnum print_fuel num (word_of_nat b) (if w = 0 then - 1 else int w) p = Inr (pad_to w p (text_of b (unat num)))"
proof -
  have "nat ((if w = 0 then - 1 else int w) - int (length (text_of b (unat num)))) = w - length (text_of b (unat num))" by auto
  then show ?thesis using printnum_print_fuel [OF assms, of num _ p] by (simp add: pad_to_def)
qed

lemma unat_ucast_up: "unat (ucast (x :: u32) :: 64 word) = unat x"
  using uint_up_ucast [of x, where 'b = 64] by (simp add: is_up flip: nat_uint_eq)

lemma unat_word_of_int: "\<lbrakk>0 \<le> k; k < 2 ^ 64\<rbrakk> \<Longrightarrow> unat (word_of_int k :: 64 word) = nat k"
  by (simp add: unsigned_of_int take_bit_int_eq_self)

lemma number_text:
  assumes "flag = [] \<or> flag = [48] \<or> flag = [45]" and "c = 100 \<or> c = 117 \<or> c = 120"
    and "b = (if c = 120 then 16 else 10)" and "n = (if c = 100 then nat \<bar>sint (ap 0)\<bar> else unat (ap 0))"
  shows "vprintfmt m (37 # field_text flag w @ [c]) ap
      = Inr (map Put ((if c = 100 \<and> sint (ap 0) < 0 then [45] else []) @ pad_to w (if flag = [] then 32 else ucast (hd flag)) (text_of b n)))"
proof -
  let ?w = "if w = 0 then - 1 else int w" and ?p = "if flag = [] then 32 else ucast (hd flag) :: i32"
  let ?f = "\<lparr>padc = ?p, width = ?w, precision = - 1, lflag = 0, altflag = False\<rparr>"
  have c: "\<not> is_digit c" "c \<notin> {45, 42, 46, 35, 108}" using assms(2) by auto
  note re = read_escape_field [OF assms(1) c, of w "[]" ap]
  have u: "unat (ucast (ap 0) :: 64 word) = unat (ap 0)" by (rule unat_ucast_up)
  have si: "sint (scast (ap 0) :: 64 word) = sint (ap 0)" by (simp add: sint_up_scast is_up)
  have sb: "- (2 ^ 31) \<le> sint (ap 0)" "sint (ap 0) < 2 ^ 31" using sint_ge [of "ap 0"] sint_lt [of "ap 0"] by simp_all
  have sc: "scast (ap 0) = (word_of_int (sint (ap 0)) :: 64 word)" by (rule scast_eq)
  have pos: "unat (scast (ap 0) :: 64 word) = nat (sint (ap 0))" if "0 \<le> sint (ap 0)"
    using that sb(2) unfolding sc by (intro unat_word_of_int) simp_all
  have neg: "unat (- scast (ap 0) :: 64 word) = nat (- sint (ap 0))" if "sint (ap 0) < 0"
    using that sb(1) unfolding sc of_int_minus [symmetric] by (intro unat_word_of_int) simp_all
  note ten = printnum_field [of 10, unfolded of_nat_numeral, OF disjI1 [OF refl]]
  note sixteen = printnum_field [of 16, unfolded of_nat_numeral, OF disjI2 [OF refl]]
  let ?out = "(if c = 100 \<and> sint (ap 0) < 0 then [45] else []) @ pad_to w ?p (text_of b n)"
  have "convert m c ?f ap = Inr (Some (map Put ?out, va_shift 1 ap))"
  proof -
    consider "c = 100" "0 \<le> sint (ap 0)" | "c = 100" "sint (ap 0) < 0" | "c = 117" | "c = 120" using assms(2) by linarith
    then show ?thesis
    proof cases
      case 1
      then have "unat (scast (ap 0) :: 64 word) = n" "b = 10" using assms(3,4) pos by simp_all
      then show ?thesis using 1 ten [of "scast (ap 0)" w ?p] by (simp add: convert_def getint_def print_decimal_def si)
    next
      case 2
      then have "unat (- scast (ap 0) :: 64 word) = n" "b = 10" using assms(3,4) neg by simp_all
      then show ?thesis using 2 ten [of "- scast (ap 0)" w ?p] by (simp add: convert_def getint_def print_decimal_def si)
    next
      case 3
      then have "unat (ucast (ap 0) :: 64 word) = n" "b = 10" using assms(3,4) u by simp_all
      then show ?thesis using 3 ten [of "ucast (ap 0)" w ?p] by (simp add: convert_def getuint_def)
    next
      case 4
      then have "unat (ucast (ap 0) :: 64 word) = n" "b = 16" using assms(3,4) u by simp_all
      then show ?thesis using 4 sixteen [of "ucast (ap 0)" w ?p] by (simp add: convert_def getuint_def)
    qed
  qed
  moreover have "vprintfmt m (37 # field_text flag w @ [c]) ap = bindE (convert m c ?f ap) (\<lambda>r. case r of
          None \<Rightarrow> bindE (vprintfmt m (field_text flag w @ [c]) ap) (\<lambda>es. Inr (Put 37 # es))
        | Some (out, ar) \<Rightarrow> bindE (vprintfmt m [] ar) (\<lambda>es. Inr (out @ es)))"
    by (subst vprintfmt.simps(2)) (simp add: re)
  ultimately show ?thesis by simp
qed


section \<open>Printing into a buffer\<close>

lemma put_chars_simps [simp]: "put_chars [] = []" "put_chars (Put c # es) = c # put_chars es" "put_chars (ProgName v # es) = put_chars es"
  by (simp_all add: put_chars_def)

lemma put_chars_append [simp]: "put_chars (es @ fs) = put_chars es @ put_chars fs"
  by (simp add: put_chars_def)

lemma put_chars_map [simp]: "put_chars (map Put cs) = cs"
  by (induction cs) simp_all

lemma fold_sprintputch:
  assumes "unat p \<le> unat q"
  shows "fold sprintputch es (\<lparr>sp_buf = p, sp_ebuf = q, sp_cnt = k\<rparr>, m)
    = (\<lparr>sp_buf = p + word_of_nat (min (unat q - unat p) (length (put_chars es))), sp_ebuf = q, sp_cnt = k + word_of_nat (length (put_chars es))\<rparr>,
       put m p (take (unat q - unat p) (map ucast (put_chars es))))"
  using assms
proof (induction es arbitrary: p k m)
  case (Cons e es)
  show ?case
  proof (cases e)
    case (Put c)
    show ?thesis
    proof (cases "p < q")
      case True
      then have n: "unat (p + 1) = unat p + 1" using unat_u32_lt [of q] by (subst unat_u32_plus) (simp_all add: word_less_nat_alt)
      define r where "r = unat q - unat p - 1"
      have r: "unat q - unat p = Suc r" "unat q - unat (p + 1) = r" "unat (p + 1) \<le> unat q"
        using True n by (simp_all add: r_def word_less_nat_alt)
      have "length (take r (map ucast (put_chars es))) < 2 ^ 32" using r(1) unat_u32_lt [of q] by simp
      note cons = put_Cons [OF this, of m p "ucast c"]
      define m1 where "m1 = m(p := ucast c)"
      show ?thesis using True Put Cons.IH [OF r(3), of "k + 1" m1] cons
        by (simp add: Let_def r add.assoc m1_def [symmetric] del: fun_upd_apply)
    next
      case False
      then have "unat q - unat p = 0" using Cons.prems by (simp add: word_less_nat_alt)
      then show ?thesis using False Put Cons.IH [OF Cons.prems, of "k + 1" m] by (simp add: Let_def add.assoc)
    qed
  qed (use Cons in simp)
qed simp

lemma unat_sint: "0 \<le> sint (n :: i32) \<Longrightarrow> unat n = nat (sint n)"
proof -
  assume p: "0 \<le> sint n"
  have "sint n < 2 ^ 31" using sint_lt [of n] by simp
  then have "unat (word_of_int (sint n) :: i32) = nat (sint n)" using p by (simp add: unsigned_of_int take_bit_int_eq_self del: of_int_sint)
  then show ?thesis by simp
qed

lemma vsnprintf_result:
  assumes "vprintfmt m fmt ap = Inr es" and "buf \<noteq> 0" and "1 \<le> sint n" and "unat buf + nat (sint n) \<le> 4294967296"
  shows "vsnprintf buf n fmt ap m = Inr (word_of_nat (length (put_chars es)), put m buf (take (nat (sint n) - 1) (map ucast (put_chars es)) @ [0]))"
proof -
  note True = conjI [OF assms(2,3)]
  let ?q = "buf + n - 1" and ?cs = "map ucast (put_chars es) :: u8 list"
  have un: "unat n = nat (sint n)" using True by (intro unat_sint) simp
  have q: "unat ?q = unat buf + (nat (sint n) - 1)"
  proof -
    have n1: "1 \<le> nat (sint n)" using True by linarith
    then have e: "unat (n - 1) = nat (sint n) - 1" using un by (subst unat_u32_minus) (simp_all add: word_le_nat_alt)
    moreover have "unat buf + (nat (sint n) - 1) < 4294967296" using assms(4) n1 by linarith
    ultimately have "unat (buf + (n - 1)) = unat buf + (nat (sint n) - 1)" by (subst unat_u32_plus) simp_all
    then show ?thesis by (simp add: add_diff_eq)
  qed
  let ?k = "nat (sint n) - 1"
  have f: "fold sprintputch es (\<lparr>sp_buf = buf, sp_ebuf = ?q, sp_cnt = 0\<rparr>, m)
    = (\<lparr>sp_buf = buf + word_of_nat (min ?k (length ?cs)), sp_ebuf = ?q, sp_cnt = word_of_nat (length (put_chars es))\<rparr>, put m buf (take ?k ?cs))"
    using fold_sprintputch [of buf ?q es 0 m] q by simp
  have len: "length (take ?k ?cs) = min ?k (length ?cs)" by simp
  have "?k < 2 ^ 32" using un unat_u32_lt [of n] by simp
  then have "length (take ?k ?cs) < 2 ^ 32" by (auto simp: min_def)
  then have "(put m buf (take ?k ?cs))(buf + word_of_nat (min ?k (length ?cs)) := 0) = put m buf (take ?k ?cs @ [0])"
    using put_end [of "take ?k ?cs" m buf 0] len by simp
  then show "vsnprintf buf n fmt ap m = Inr (word_of_nat (length (put_chars es)), put m buf (take ?k ?cs @ [0]))"
    using True f assms(1) by (simp add: vsnprintf_def Let_def)
qed

text \<open>Claim C29.  \<open>vsnprintf\<close> stays inside its buffer: it writes the first \<open>n - 1\<close> characters of the formatted text, or all of them
  when they are fewer, and a terminating NUL, and no byte outside the \<open>n\<close> bytes of the buffer; it returns the length of
  the whole text.  Without a buffer or with a size below one it writes nothing and returns 3, which is not negative:
  \<open>E_INVAL\<close> is defined as -3 and is negated once more.\<close>

theorem vsnprintf_bounds:
  assumes "buf \<noteq> 0 \<and> 1 \<le> sint n \<Longrightarrow> unat buf + nat (sint n) \<le> 4294967296" and "vprintfmt m fmt ap = Inr es"
  shows "if buf \<noteq> 0 \<and> 1 \<le> sint n
    then vsnprintf buf n fmt ap m = Inr (word_of_nat (length (put_chars es)), put m buf (take (nat (sint n) - 1) (map ucast (put_chars es)) @ [0]))
      \<and> (\<forall>a. nat (sint n) \<le> unat (a - buf) \<longrightarrow> put m buf (take (nat (sint n) - 1) (map ucast (put_chars es)) @ [0]) a = m a)
    else vsnprintf buf n fmt ap m = Inr (3, m)"
proof (cases "buf \<noteq> 0 \<and> 1 \<le> sint n")
  case True
  let ?k = "nat (sint n) - 1" and ?cs = "map ucast (put_chars es) :: u8 list"
  have "put m buf (take ?k ?cs @ [0]) a = m a" if "nat (sint n) \<le> unat (a - buf)" for a
  proof (rule put_other)
    have "1 \<le> nat (sint n)" using True by linarith
    then show "length (take ?k ?cs @ [0]) \<le> unat (a - buf)" using that by (auto simp: min_def)
  qed
  then show ?thesis using True vsnprintf_result [OF assms(2)] assms(1) by simp
next
  case False
  then show ?thesis by (auto simp: vsnprintf_def)
qed

section \<open>Printing from a process\<close>

lemma fold_user_putch:
  assumes "length (pb_buf b) < 255" and "\<forall>c \<in> set (pb_calls b). length (fst c) = 255"
  shows "let d = fold user_putch es b in length (pb_buf d) < 255 \<and> (\<forall>c \<in> set (pb_calls d). length (fst c) = 255)
    \<and> concat (map fst (pb_calls d)) @ pb_buf d = concat (map fst (pb_calls b)) @ pb_buf b @ map ucast (put_chars es)
    \<and> pb_cnt d = pb_cnt b + word_of_nat (length (put_chars es))"
  using assms
proof (induction es arbitrary: b)
  case (Cons e es)
  show ?case
  proof (cases e)
    case (Put c)
    have "length (pb_buf (user_putch e b)) < 255 \<and> (\<forall>c \<in> set (pb_calls (user_putch e b)). length (fst c) = 255)"
      using Cons.prems Put by (auto simp: Let_def)
    moreover have "concat (map fst (pb_calls (user_putch e b))) @ pb_buf (user_putch e b) = concat (map fst (pb_calls b)) @ pb_buf b @ [ucast c]"
      "pb_cnt (user_putch e b) = pb_cnt b + 1"
      using Put by (simp_all add: Let_def)
    ultimately show ?thesis using Cons.IH [of "user_putch e b"] Put by (simp add: Let_def add.assoc)
  next
    case (ProgName v)
    then show ?thesis using Cons.IH [of "b\<lparr>pb_prog := v\<rparr>"] Cons.prems by simp
  qed
qed simp

text \<open>A process prints all of its text, in order and in pieces that fit its buffer of 256 bytes: the texts of the
  calls of \<open>sys_cputs\<close> are, one after the other, the formatted text; every call but the last one has 255 characters,
  the last one has fewer, and the result is the number of characters.\<close>

theorem user_printing_batches:
  assumes "vprintfmt m fmt ap = Inr es"
  shows "\<exists>calls. user_vcprintf fmt ap m prog = Inr (word_of_nat (length (put_chars es)), calls)
    \<and> concat (map fst calls) = map ucast (put_chars es)
    \<and> (\<forall>c \<in> set (butlast calls). length (fst c) = 255) \<and> calls \<noteq> [] \<and> length (fst (last calls)) < 255"
  using fold_user_putch [of "\<lparr>pb_buf = [], pb_cnt = 0, pb_prog = prog, pb_calls = []\<rparr>" es] assms
  by (simp add: user_vcprintf_def Let_def butlast_append)

section \<open>Printing and reading\<close>

text \<open>What \<open>snprintf\<close> prints with \<open>%d\<close>, \<open>strtol\<close> reads back: for every value but the least one and a buffer of at
  least twelve bytes, reading the buffer in base ten gives the value and stops at the terminating NUL.\<close>

theorem snprintf_strtol_round_trip:
  assumes "ap 0 \<noteq> 0x80000000" and "buf \<noteq> 0" and "12 \<le> sint n" and "unat buf + nat (sint n) \<le> 4294967296"
  shows "\<exists>k m1. vsnprintf buf n [37, 100] ap m = Inr (k, m1) \<and> strtol m1 buf 10 = Some (ap 0, buf + k) \<and> m1 (buf + k) = 0"
proof -
  let ?ds = "dec_text (ap 0)"
  have "vprintfmt m (37 # field_text [] 0 @ [100]) ap
      = Inr (map Put ((if sint (ap 0) < 0 then [45] else []) @ pad_to 0 32 (text_of 10 (nat \<bar>sint (ap 0)\<bar>))))"
    using number_text [of "[]" 100 10 "nat \<bar>sint (ap 0)\<bar>" ap m 0] by simp
  moreover have "(if sint (ap 0) < 0 then [45] else []) @ pad_to 0 32 (text_of 10 (nat \<bar>sint (ap 0)\<bar>)) = map ucast ?ds"
    by (simp add: dec_text_def pad_to_def text_of_10)
  ultimately have v: "vprintfmt m [37, 100] ap = Inr (map Put (map ucast ?ds))" by (simp add: field_text_def del: map_map)
  have up: "ucast (ucast x :: i32) = (x :: u8)" for x by (rule bit_word_eqI) (auto simp: bit_ucast_iff dest: bit_imp_le_length)
  define d where "d = nat \<bar>sint (ap 0)\<bar>"
  have "length (decs d) \<le> 10" using decs_short [OF sint_parts(2) [OF assms(1)]] by (simp only: d_def)
  then have len: "length ?ds \<le> 11" unfolding dec_text_def d_def [symmetric] by simp
  have "11 \<le> nat (sint n) - 1" using assms(3) by linarith
  then have all: "take (nat (sint n) - 1) ?ds = ?ds" using len by simp
  define es where "es = map Put (map ucast ?ds)"
  have es: "put_chars es = map ucast ?ds" by (simp only: es_def put_chars_map)
  have r: "vsnprintf buf n [37, 100] ap m = Inr (word_of_nat (length ?ds), put m buf (?ds @ [0]))"
    using vsnprintf_result [OF v [folded es_def], of buf n] assms(2-4) es all by (simp add: up o_def)
  have nz: "0 \<notin> set ?ds" using decs_chars digit_char(2) by (fastforce simp: dec_text_def)
  have "length ?ds < 2 ^ 32" using len by simp
  then have c: "cstr (put m buf (?ds @ [0])) buf ?ds" using nz by (intro cstr_put)
  have "put m buf (?ds @ [0]) (buf + word_of_nat (length ?ds)) = 0"
    using put_at [of "length ?ds" "?ds @ [0]" m buf] len by simp
  then show ?thesis using r strtol_dec_text [OF assms(1) c] by simp
qed

section \<open>The properties on small examples\<close>

lemma plain_text: "37 \<notin> set fmt \<Longrightarrow> vprintfmt m fmt ap = Inr (map (\<lambda>c. Put (ucast c)) fmt)"
  by (induction fmt) (simp_all add: vprintfmt.simps)



theorem vsnprintf_bounds_witness:
  "vsnprintf 0x1000 4 [97, 98, 99, 100, 101] (\<lambda>_. 0) (\<lambda>_. 7) = Inr (5, put (\<lambda>_. 7) 0x1000 [97, 98, 99, 0])
   \<and> vsnprintf 0x1000 0 [97, 98, 99, 100, 101] (\<lambda>_. 0) (\<lambda>_. 7) = Inr (3, \<lambda>_. 7)"
proof -
  have v: "vprintfmt (\<lambda>_. 7) [97, 98, 99, 100, 101] (\<lambda>_. 0) = Inr (map Put [97, 98, 99, 100, 101])"
    by (subst plain_text) simp_all
  have "take 3 [97, 98, 99, 100, 101 :: u8] = [97, 98, 99]" by (simp add: numeral_eq_Suc)
  then show ?thesis
    using vsnprintf_bounds [OF _ v, of "0x1000" 4] vsnprintf_bounds [OF _ v, of "0x1000" 0] by simp
qed

lemma put_chars_replicate: "put_chars (replicate n (Put c)) = replicate n c"
  by (induction n) simp_all

theorem user_printing_batches_witness:
  "\<exists>calls. user_vcprintf (replicate 300 97) (\<lambda>_. 0) (\<lambda>_. 0) True = Inr (300, calls) \<and> concat (map fst calls) = replicate 300 97
     \<and> (\<forall>c \<in> set (butlast calls). length (fst c) = 255) \<and> length (fst (last calls)) < 255"
proof -
  have "vprintfmt (\<lambda>_. 0) (replicate 300 97) (\<lambda>_. 0) = Inr (map Put (replicate 300 97))" by (subst plain_text) (simp_all add: map_replicate)
  from user_printing_batches [OF this, of True] show ?thesis by (auto simp: put_chars_replicate)
qed

theorem snprintf_strtol_round_trip_witness:
  "\<exists>k m1. vsnprintf 0x1000 16 [37, 100] (\<lambda>_. - 1025) (\<lambda>_. 7) = Inr (k, m1) \<and> strtol m1 0x1000 10 = Some (- 1025, 0x1000 + k)"
  using snprintf_strtol_round_trip [of "\<lambda>_. - 1025" "0x1000" 16 "\<lambda>_. 7"] by auto

end
