(* ===== verification/FOS_Console.thy ===== *)
theory FOS_Console
  imports FOS_Print FOS_Mmu
begin

text \<open>
  The console: \<^verbatim>\<open>kern/cons/console.c\<close>, \<^verbatim>\<open>lib/console.c\<close> and \<^verbatim>\<open>lib/readline.c\<close>.  The record holds the variables of the file and
  the devices: the cells of the video memory, the cursor register, the bytes that wait in the keyboard controller
  and in the serial port (the status bit is set while there are any), and the bytes sent to the printer port.  The
  printer port is polled a bounded number of times before a byte is sent, which has no effect.  The console is
  configured to be protected by disabling interrupts.
\<close>

section \<open>State\<close>

record console =
  serial_exists :: bool
  addr_6845 :: u32
  crt_buf :: u32
  crt_pos :: u16
  text_length :: int
  current_text_color :: i32
  kbd_shift :: u32
  con_buf :: "nat \<Rightarrow> u8"
  rpos :: u32
  wpos :: u32
  video :: "u32 \<Rightarrow> nat \<Rightarrow> u16"
  cga_present :: bool
  cursor_reg :: u16
  kbd_codes :: "u8 list"
  serial_in :: "u8 list"
  lpt_out :: "u8 list"

abbreviation (input) MONO_BASE :: u32 where "MONO_BASE \<equiv> 0x3B4"
abbreviation (input) MONO_BUF :: u32 where "MONO_BUF \<equiv> 0xB0000"
abbreviation (input) CGA_BASE :: u32 where "CGA_BASE \<equiv> 0x3D4"
abbreviation (input) CGA_BUF :: u32 where "CGA_BUF \<equiv> 0xB8000"

definition cell :: "console \<Rightarrow> nat \<Rightarrow> u16" where
  "cell k i = video k (crt_buf k) i"

definition set_cell :: "nat \<Rightarrow> u16 \<Rightarrow> console \<Rightarrow> console" where
  "set_cell i v k = k\<lparr>video := (video k)(crt_buf k := (video k (crt_buf k))(i := v))\<rparr>"

section \<open>Output\<close>

definition lpt_putc :: "i32 \<Rightarrow> console \<Rightarrow> console" where
  "lpt_putc c k = k\<lparr>lpt_out := lpt_out k @ [ucast c]\<rparr>"

text \<open>The test of \<open>cga_init\<close> writes a pattern and reads it back: only present memory keeps it.\<close>

definition cga_init :: "console \<Rightarrow> console" where
  "cga_init k = (if cga_present k then k\<lparr>crt_buf := KERNEL_BASE + CGA_BUF, addr_6845 := CGA_BASE, crt_pos := cursor_reg k\<rparr>
     else k\<lparr>crt_buf := KERNEL_BASE + MONO_BUF, addr_6845 := MONO_BASE, crt_pos := cursor_reg k\<rparr>)"

definition with_color :: "i32 \<Rightarrow> console \<Rightarrow> i32" where
  "with_color c k = (if c AND NOT 0xFF = 0 then c OR (if current_text_color k = 0 then 0x700 else current_text_color k) else c)"

text \<open>The cases of the switch but the tabulator.\<close>

definition cga_step :: "i32 \<Rightarrow> console \<Rightarrow> console" where
  "cga_step c k =
     (let ch = c AND 0xFF in
      if ch = 8 then
        (if 0 < crt_pos k then set_cell (unat (crt_pos k - 1)) (ucast ((c AND NOT 0xFF) OR 32)) (k\<lparr>crt_pos := crt_pos k - 1\<rparr>) else k)
      else if ch = 10 then let p = crt_pos k + 80 in k\<lparr>crt_pos := p - p mod 80, text_length := 0\<rparr>
      else if ch = 13 then k\<lparr>crt_pos := crt_pos k - crt_pos k mod 80\<rparr>
      else if ch = 0xE4 then (if 0 < crt_pos k then k\<lparr>crt_pos := crt_pos k - 1\<rparr> else k)
      else if ch = 0xE5 then (if crt_pos k < 2000 then k\<lparr>crt_pos := crt_pos k + 1\<rparr> else k)
      else let k1 = set_cell (unat (crt_pos k)) (ucast c) (k\<lparr>crt_pos := crt_pos k + 1\<rparr>)
           in if 1920 + text_length k1 < uint (crt_pos k1) then k1\<lparr>text_length := text_length k1 + 1\<rparr> else k1)"

text \<open>Scrolling by one line, and the cursor.\<close>

definition scrolled :: "(nat \<Rightarrow> u16) \<Rightarrow> nat \<Rightarrow> u16" where
  "scrolled f i = (if i < 1920 then f (i + 80) else if i < 2000 then 0x720 else f i)"

definition scroll :: "console \<Rightarrow> console" where
  "scroll k = (if 2000 \<le> crt_pos k
     then k\<lparr>video := (video k)(crt_buf k := scrolled (video k (crt_buf k))), crt_pos := crt_pos k - 80\<rparr> else k)"

definition show_cursor :: "console \<Rightarrow> console" where
  "show_cursor k = k\<lparr>cursor_reg := crt_pos k\<rparr>"

text \<open>A tabulator is five spaces, each of them sent to the printer port too.\<close>

definition cga_char :: "i32 \<Rightarrow> console \<Rightarrow> console" where
  "cga_char c k = show_cursor (scroll (cga_step c k))"

definition put_space :: "console \<Rightarrow> console" where
  "put_space k = (let k1 = lpt_putc 32 k in cga_char (with_color 32 k1) k1)"

definition cga_putc :: "i32 \<Rightarrow> console \<Rightarrow> console" where
  "cga_putc c0 k =
     (let c = with_color c0 k in
      if c AND 0xFF = 9 then show_cursor (scroll (put_space (put_space (put_space (put_space (put_space k))))))
      else cga_char c k)"

definition cons_putc :: "i32 \<Rightarrow> console \<Rightarrow> console" where
  "cons_putc c k = cga_putc c (lpt_putc c k)"

definition cputchar :: "console \<Rightarrow> i32 \<Rightarrow> console" where
  "cputchar k c = cons_putc c k"

text \<open>The screen is cleared through a pointer to 32-bit words: every other cell gets the upper half, which is 0.\<close>

definition clear_screen_buffer :: "console \<Rightarrow> console" where
  "clear_screen_buffer k = k\<lparr>crt_pos := 0,
     video := (video k)(KERNEL_BASE + CGA_BUF := (\<lambda>i. if i < 4000 then (if even i then 0x720 else 0) else video k (KERNEL_BASE + CGA_BUF) i))\<rparr>"

section \<open>Keyboard\<close>

abbreviation (input) SHIFT :: u32 where "SHIFT \<equiv> 1"
abbreviation (input) CTL :: u32 where "CTL \<equiv> 2"
abbreviation (input) ALT :: u32 where "ALT \<equiv> 4"
abbreviation (input) CAPSLOCK :: u32 where "CAPSLOCK \<equiv> 8"
abbreviation (input) NUMLOCK :: u32 where "NUMLOCK \<equiv> 16"
abbreviation (input) SCROLLLOCK :: u32 where "SCROLLLOCK \<equiv> 32"
abbreviation (input) E0ESC :: u32 where "E0ESC \<equiv> 64"
abbreviation (input) KEY_DEL :: i32 where "KEY_DEL \<equiv> 0xE9"

definition shiftcode :: "u8 \<Rightarrow> u32" where
  "shiftcode d = (if d = 0x1D \<or> d = 0x9D then CTL else if d = 0x2A \<or> d = 0x36 then SHIFT else if d = 0x38 \<or> d = 0xB8 then ALT else 0)"

definition togglecode :: "u8 \<Rightarrow> u32" where
  "togglecode d = (if d = 0x3A then CAPSLOCK else if d = 0x45 then NUMLOCK else if d = 0x46 then SCROLLLOCK else 0)"

definition cursor_keys :: "u8 \<Rightarrow> i32" where
  "cursor_keys d = (if d = 0x97 then 0xE0 else if d = 0xC8 then 0xE2 else if d = 0xC9 then 0xE6 else if d = 0xCB then 0xE4
     else if d = 0xCD then 0xE5 else if d = 0xCF then 0xE1 else if d = 0xD0 then 0xE3 else if d = 0xD1 then 0xE7
     else if d = 0xD2 then 0xE8 else if d = 0xD3 then KEY_DEL else 0)"

definition normal_keys :: "i32 list" where
  "normal_keys = [0, 27, 49, 50, 51, 52, 53, 54, 55, 56, 57, 48, 45, 61, 8, 9, 113, 119, 101, 114, 116, 121, 117, 105, 111, 112, 91, 93,
     10, 0, 97, 115, 100, 102, 103, 104, 106, 107, 108, 59, 39, 96, 0, 92, 122, 120, 99, 118, 98, 110, 109, 44, 46, 47, 0, 42, 0, 32,
     0, 0, 0, 0, 0, 0, 0, 0, 0, 0, 0, 0, 0, 55, 56, 57, 45, 52, 53, 54, 43, 49, 50, 51, 48, 46, 0, 0, 0, 0]"

definition shift_keys :: "i32 list" where
  "shift_keys = [0, 27, 33, 64, 35, 36, 37, 94, 38, 42, 40, 41, 95, 43, 8, 9, 81, 87, 69, 82, 84, 89, 85, 73, 79, 80, 123, 125,
     10, 0, 65, 83, 68, 70, 71, 72, 74, 75, 76, 58, 34, 126, 0, 124, 90, 88, 67, 86, 66, 78, 77, 60, 62, 63, 0, 42, 0, 32,
     0, 0, 0, 0, 0, 0, 0, 0, 0, 0, 0, 0, 0, 55, 56, 57, 45, 52, 53, 54, 43, 49, 50, 51, 48, 46, 0, 0, 0, 0]"

definition ctl_keys :: "i32 list" where
  "ctl_keys = [0, 0, 0, 0, 0, 0, 0, 0, 0, 0, 0, 0, 0, 0, 0, 0, 17, 23, 5, 18, 20, 25, 21, 9, 15, 16, 0, 0, 13, 0, 1, 19, 4, 6, 7, 8, 10,
     11, 12, 0, 0, 0, 0, 28, 26, 24, 3, 22, 2, 14, 13, 0, 0, 239, 0, 0, 0, 255]"

definition key_at :: "i32 list \<Rightarrow> u8 \<Rightarrow> i32" where
  "key_at ks d = (if unat d < length ks then ks ! unat d else 0)"

definition normalmap :: "u8 \<Rightarrow> i32" where
  "normalmap d = (if d = 0x9C then 10 else if d = 0xB5 then 47 else if 0x60 \<le> d then cursor_keys d else key_at normal_keys d)"

definition shiftmap :: "u8 \<Rightarrow> i32" where
  "shiftmap d = (if d = 0x9C then 10 else if d = 0xB5 then 47 else if 0x60 \<le> d then cursor_keys d else key_at shift_keys d)"

definition ctlmap :: "u8 \<Rightarrow> i32" where
  "ctlmap d = (if d = 0xB5 then 0xEF else if 0x60 \<le> d then cursor_keys d else key_at ctl_keys d)"

definition charcode :: "u32 \<Rightarrow> u8 \<Rightarrow> i32" where
  "charcode m d = (if m = 0 then normalmap d else if m = SHIFT then shiftmap d else ctlmap d)"

text \<open>The rest of the line moves one cell to the left.\<close>

fun pull_left :: "nat \<Rightarrow> nat \<Rightarrow> console \<Rightarrow> console" where
  "pull_left 0 i k = k"
| "pull_left (Suc n) i k = pull_left n (i + 1) (set_cell i (cell k (i + 1)) k)"

definition delete_key :: "console \<Rightarrow> i32 \<times> console" where
  "delete_key k =
     (if 0 < text_length k \<and> uint (crt_pos k) \<noteq> 1920 + text_length k then
        let k1 = k\<lparr>text_length := text_length k - 1\<rparr>
        in (KEY_DEL, pull_left (nat (text_length k1 - (uint (crt_pos k1) - 1925) + 1)) (unat (crt_pos k1)) k1)
      else (0, k))"

definition caps :: "u32 \<Rightarrow> i32 \<Rightarrow> i32" where
  "caps sh c = (if sh AND CAPSLOCK \<noteq> 0 then (if 97 \<le> c \<and> c \<le> 122 then c - 32 else if 65 \<le> c \<and> c \<le> 90 then c + 32 else c) else c)"

text \<open>The test for Ctrl-Alt-Del comes after every return for \<open>KEY_DEL\<close>, so it never holds.\<close>

definition kbd_key :: "u8 \<Rightarrow> console \<Rightarrow> i32 \<times> console" where
  "kbd_key data k =
     (let sh = (kbd_shift k OR shiftcode data) XOR togglecode data;
          k1 = k\<lparr>kbd_shift := sh\<rparr>;
          c = charcode (sh AND (CTL OR SHIFT)) data
      in if c = KEY_DEL then delete_key k1
         else let c1 = caps sh c
              in if sh = NUMLOCK \<and> 48 \<le> c1 \<and> c1 \<le> 57 then (0, k1) else if c1 = 255 then (0, k1) else (c1, k1))"

definition kbd_proc_data :: "console \<Rightarrow> i32 \<times> console" where
  "kbd_proc_data k = (case kbd_codes k of
       [] \<Rightarrow> (- 1, k)
     | data # rest \<Rightarrow>
         let k1 = k\<lparr>kbd_codes := rest\<rparr> in
         if data = 0xE0 then (0, k1\<lparr>kbd_shift := kbd_shift k1 OR E0ESC\<rparr>)
         else if data AND 0x80 \<noteq> 0 then
           let d = (if kbd_shift k1 AND E0ESC \<noteq> 0 then data else data AND 0x7F)
           in (0, k1\<lparr>kbd_shift := kbd_shift k1 AND NOT (shiftcode d OR E0ESC)\<rparr>)
         else if kbd_shift k1 AND E0ESC \<noteq> 0 then kbd_key (data OR 0x80) (k1\<lparr>kbd_shift := kbd_shift k1 AND NOT E0ESC\<rparr>)
         else kbd_key data k1)"

definition serial_proc_data :: "console \<Rightarrow> i32 \<times> console" where
  "serial_proc_data k = (case serial_in k of [] \<Rightarrow> (- 1, k) | b # bs \<Rightarrow> (ucast b, k\<lparr>serial_in := bs\<rparr>))"

section \<open>The ring of characters read\<close>

definition cons_put :: "i32 \<Rightarrow> console \<Rightarrow> console" where
  "cons_put c k =
     (let w = wpos k + 1 in k\<lparr>con_buf := (con_buf k)(unat (wpos k) := ucast c), wpos := if w = 512 then 0 else w\<rparr>)"

text \<open>The loop ends when the device has no more data, after at most one turn for each byte.\<close>

fun cons_intr :: "nat \<Rightarrow> (console \<Rightarrow> i32 \<times> console) \<Rightarrow> console \<Rightarrow> console res" where
  "cons_intr 0 proc k = Inl Spin"
| "cons_intr (Suc n) proc k = (case proc k of (c, k1) \<Rightarrow>
     if c = - 1 then Inr k1 else if c = 0 then cons_intr n proc k1 else cons_intr n proc (cons_put c k1))"

definition kbd_intr :: "console \<Rightarrow> console res" where
  "kbd_intr k = cons_intr (Suc (length (kbd_codes k))) kbd_proc_data k"

definition serial_intr :: "console \<Rightarrow> console res" where
  "serial_intr k = (if serial_exists k then cons_intr (Suc (length (serial_in k))) serial_proc_data k else Inr k)"

definition cons_getc2 :: "console \<Rightarrow> i32 \<times> console" where
  "cons_getc2 k =
     (if rpos k \<noteq> wpos k then
        let r = rpos k + 1 in (ucast (con_buf k (unat (rpos k))), k\<lparr>rpos := if r = 512 then 0 else r\<rparr>)
      else (0, k))"

definition cons_getc :: "console \<Rightarrow> (i32 \<times> console) res" where
  "cons_getc k = bindE (serial_intr k) (\<lambda>k1. bindE (kbd_intr k1) (\<lambda>k2. Inr (cons_getc2 k2)))"

text \<open>Waiting for a character when none is there and no device has one.\<close>

definition getchar :: "console \<Rightarrow> (i32 \<times> console) res" where
  "getchar k = bindE (cons_getc k) (\<lambda>(c, k1). if c = 0 then Inl Spin else Inr (c, k1))"

definition iscons :: "i32 \<Rightarrow> i32" where
  "iscons fdnum = 1"

text \<open>\<open>serial_init\<close> drops one byte that was there before; the registers it sets have no other effect here.\<close>

definition serial_init :: "bool \<Rightarrow> console \<Rightarrow> console" where
  "serial_init port_there k = k\<lparr>serial_exists := port_there, serial_in := drop 1 (serial_in k)\<rparr>"

text \<open>The interrupt of the keyboard wakes nobody in this configuration.  The table entry that \<open>kbd_init\<close> sets is not modelled.\<close>

definition keyboard_interrupt_handler :: "console \<Rightarrow> console res" where
  "keyboard_interrupt_handler k = kbd_intr k"

definition cons_init :: "bool \<Rightarrow> console \<Rightarrow> console res" where
  "cons_init port_there k =
     (let k1 = serial_init port_there (cga_init k) in
      if \<not> serial_exists k1 then
        bindE (kern_vcprintf cputchar (map of_char ''Serial port does not exist!'' @ [10]) (\<lambda>_. 0) (\<lambda>_. 0) k1) (\<lambda>(_, k2). Inr k2)
      else Inr k1)"

section \<open>Reading a line\<close>

abbreviation (input) BUFLEN :: nat where "BUFLEN \<equiv> 1024"

text \<open>Every turn takes a character that waits, so the number of turns is bounded by what waits; the fuel is this bound.\<close>

fun readline_loop :: "nat \<Rightarrow> u32 \<Rightarrow> nat \<Rightarrow> bytes \<Rightarrow> console \<Rightarrow> (bytes \<times> console) res" where
  "readline_loop 0 buf i m k = Inl Spin"
| "readline_loop (Suc n) buf i m k =
     bindE (getchar k) (\<lambda>(c, k1).
     if sint c < 0 then
       bindE (if c \<noteq> 7 then kern_vcprintf cputchar (map of_char ''read error: %e'' @ [10]) (\<lambda>_. c) m k1 else Inr (0, k1)) (\<lambda>(_, k2). Inr (m, k2))
     else if 32 \<le> sint c \<and> i < BUFLEN - 1 then
       readline_loop n buf (i + 1) (m(buf + word_of_nat i := ucast c)) (if iscons 0 \<noteq> 0 then cputchar k1 c else k1)
     else if c = 8 \<and> 0 < i then readline_loop n buf (i - 1) m (if iscons 0 \<noteq> 0 then cputchar k1 c else k1)
     else if c = 10 \<or> c = 13 then Inr (m(buf + word_of_nat i := 0), if iscons 0 \<noteq> 0 then cputchar k1 c else k1)
     else readline_loop n buf i m k1)"

definition readline :: "nat \<Rightarrow> u32 \<Rightarrow> u32 \<Rightarrow> bytes \<Rightarrow> console \<Rightarrow> (bytes \<times> console) res" where
  "readline n prompt buf m k =
     bindE (if prompt \<noteq> 0 then kern_vcprintf cputchar (map of_char ''%s'') (\<lambda>_. prompt) m k else Inr (0, k)) (\<lambda>(_, k1).
     readline_loop n buf 0 m k1)"

text \<open>The variant for processes repeats the loop between two system calls, which are given by what they do.\<close>

definition atomic_readline :: "(console \<Rightarrow> console res) \<Rightarrow> (console \<Rightarrow> console res) \<Rightarrow> nat \<Rightarrow> u32 \<Rightarrow> u32 \<Rightarrow> bytes \<Rightarrow> console \<Rightarrow> (bytes \<times> console) res" where
  "atomic_readline sys_lock_cons sys_unlock_cons n prompt buf m k = bindE (sys_lock_cons k) (\<lambda>k1.
     bindE (readline n prompt buf m k1) (\<lambda>(m1, k2). bindE (sys_unlock_cons k2) (\<lambda>k3. Inr (m1, k3))))"

section \<open>The ring is a queue\<close>

text \<open>
  A queue of bounded capacity that loses all of its contents when it overflows, as an interface: whatever is read
  from it and what stays in it is what was in it and what was written, in this order, while it never overflows.
\<close>

datatype 'a ring_op = Write 'a | Read

fun run_ring :: "('a \<Rightarrow> 'q \<Rightarrow> 'q) \<Rightarrow> ('q \<Rightarrow> 'a option \<times> 'q) \<Rightarrow> 'a ring_op list \<Rightarrow> 'q \<Rightarrow> 'a list \<times> 'q" where
  "run_ring enq deq [] q = ([], q)"
| "run_ring enq deq (Write x # ops) q = run_ring enq deq ops (enq x q)"
| "run_ring enq deq (Read # ops) q = (case deq q of (r, q1) \<Rightarrow> case run_ring enq deq ops q1 of (rs, q2) \<Rightarrow>
     ((case r of None \<Rightarrow> rs | Some x \<Rightarrow> x # rs), q2))"

fun written :: "'a ring_op list \<Rightarrow> 'a list" where
  "written [] = []"
| "written (Write x # ops) = x # written ops"
| "written (Read # ops) = written ops"

fun fits :: "nat \<Rightarrow> nat \<Rightarrow> 'a ring_op list \<Rightarrow> bool" where
  "fits cap n [] = True"
| "fits cap n (Write x # ops) = (n < cap \<and> fits cap (n + 1) ops)"
| "fits cap n (Read # ops) = fits cap (n - 1) ops"

locale lossy_queue =
  fixes enq :: "'a \<Rightarrow> 'q \<Rightarrow> 'q"
    and deq :: "'q \<Rightarrow> 'a option \<times> 'q"
    and contents :: "'q \<Rightarrow> 'a list"
    and ok :: "'q \<Rightarrow> bool"
    and cap :: nat
  assumes ok_enq: "ok q \<Longrightarrow> ok (enq x q)"
    and ok_deq: "ok q \<Longrightarrow> ok (snd (deq q))"
    and contents_enq: "ok q \<Longrightarrow> contents (enq x q) = (if length (contents q) < cap then contents q @ [x] else [])"
    and contents_deq: "ok q \<Longrightarrow> contents (snd (deq q)) = tl (contents q)"
    and deq_first: "ok q \<Longrightarrow> fst (deq q) = (if contents q = [] then None else Some (hd (contents q)))"
begin

lemma fifo:
  "\<lbrakk>ok q; fits cap (length (contents q)) ops\<rbrakk> \<Longrightarrow>
    (case run_ring enq deq ops q of (rs, q1) \<Rightarrow> ok q1 \<and> rs @ contents q1 = contents q @ written ops)"
proof (induction ops arbitrary: q)
  case (Cons e es)
  show ?case
  proof (cases e)
    case (Write x)
    then show ?thesis using Cons.IH [of "enq x q"] Cons.prems by (simp add: ok_enq contents_enq split: prod.splits)
  next
    case Read
    obtain r q1 where g: "deq q = (r, q1)" by (cases "deq q")
    have q1: "ok q1" "contents q1 = tl (contents q)" "r = (if contents q = [] then None else Some (hd (contents q)))"
      using ok_deq [of q] contents_deq [of q] deq_first [of q] Cons.prems(1) g by simp_all
    have "fits cap (length (contents q1)) es" using Cons.prems(2) Read q1(2) by simp
    from Cons.IH [OF q1(1) this] show ?thesis using Read g q1 by (cases "contents q") (auto split: prod.splits)
  qed
qed simp

lemma write_all:
  "\<lbrakk>ok q; length (contents q) + length xs \<le> cap\<rbrakk> \<Longrightarrow> ok (fold enq xs q) \<and> contents (fold enq xs q) = contents q @ xs"
  by (induction xs arbitrary: q) (simp_all add: ok_enq contents_enq)

end

definition ring_ok :: "console \<Rightarrow> bool" where
  "ring_ok k \<longleftrightarrow> rpos k < 512 \<and> wpos k < 512"

definition ring_length :: "console \<Rightarrow> nat" where
  "ring_length k = (unat (wpos k) + 512 - unat (rpos k)) mod 512"

definition pending :: "console \<Rightarrow> u8 list" where
  "pending k = map (\<lambda>i. con_buf k ((unat (rpos k) + i) mod 512)) [0 ..< ring_length k]"

lemma length_pending [simp]: "length (pending k) = ring_length k"
  by (simp add: pending_def)

lemma next_pos: "unat p < 512 \<Longrightarrow> unat (if p + 1 = 512 then 0 else p + 1 :: u32) = (if unat p = 511 then 0 else unat p + 1)"
proof -
  assume p: "unat p < 512"
  have n: "unat (p + 1) = unat p + 1" using p by (subst unat_u32_plus) simp_all
  have "p + 1 = 512 \<longleftrightarrow> unat (p + 1) = unat (512 :: u32)" by (simp only: word_unat_eq_iff)
  also have "\<dots> \<longleftrightarrow> unat p = 511" by (simp only: n unat_numeral) simp
  finally show ?thesis using n by simp
qed

lemma ring_length_alt: "ring_ok k \<Longrightarrow>
  ring_length k = (if unat (rpos k) \<le> unat (wpos k) then unat (wpos k) - unat (rpos k) else unat (wpos k) + 512 - unat (rpos k))"
  by (auto simp: ring_length_def ring_ok_def word_less_nat_alt mod_if)

lemma ring_at: "\<lbrakk>r < 512; i < 512\<rbrakk> \<Longrightarrow> (r + i) mod 512 = (if r + i < 512 then r + i else r + i - 512 :: nat)"
  by (simp add: mod_if)

lemma ring_put:
  assumes "ring_ok k"
  shows "ring_ok (cons_put c k) \<and> pending (cons_put c k) = (if length (pending k) < 511 then pending k @ [ucast c] else [])"
proof -
  let ?k = "cons_put c k"
  define r w where "r = unat (rpos k)" and "w = unat (wpos k)"
  have r: "r < 512" and w: "w < 512" using assms by (simp_all add: ring_ok_def word_less_nat_alt r_def w_def)
  have pos: "unat (rpos ?k) = r" "unat (wpos ?k) = (if w = 511 then 0 else w + 1)" "con_buf ?k = (con_buf k)(w := ucast c)"
    using next_pos [of "wpos k"] w by (simp_all add: cons_put_def Let_def r_def w_def)
  have ok: "ring_ok ?k" using r w pos(1,2) by (simp add: ring_ok_def word_less_nat_alt split: if_splits)
  have l: "ring_length k = (if r \<le> w then w - r else w + 512 - r)"
    using ring_length_alt [OF assms] by (simp only: r_def w_def)
  have l': "ring_length ?k = (if r \<le> unat (wpos ?k) then unat (wpos ?k) - r else unat (wpos ?k) + 512 - r)"
    using ring_length_alt [OF ok] by (simp only: pos(1))
  show ?thesis
  proof (cases "ring_length k < 511")
    case True
    have len: "ring_length ?k = ring_length k + 1" using r w True l l' pos(2) by (auto split: if_splits)
    have at: "(r + ring_length k) mod 512 = w" using r w True l ring_at [of r "ring_length k"] by (auto split: if_splits)
    have old: "(r + i) mod 512 \<noteq> w" if "i < ring_length k" for i
      using r w True l ring_at [of r i] that by (auto split: if_splits)
    show ?thesis using ok True old by (simp add: pending_def len pos at r_def [symmetric])
  next
    case False
    then have "ring_length ?k = 0" using r w l l' pos(2) by (auto split: if_splits)
    then show ?thesis using ok False by (simp add: pending_def)
  qed
qed

lemma ring_get:
  assumes "ring_ok k"
  shows "ring_ok (snd (cons_getc2 k)) \<and> pending (snd (cons_getc2 k)) = tl (pending k)
    \<and> fst (cons_getc2 k) = (if pending k = [] then 0 else ucast (hd (pending k))) \<and> (pending k = [] \<longrightarrow> snd (cons_getc2 k) = k)"
proof (cases "rpos k = wpos k")
  case True
  then have "pending k = []" by (simp add: pending_def ring_length_def)
  then show ?thesis using assms True by (simp add: cons_getc2_def)
next
  case False
  let ?k = "snd (cons_getc2 k)"
  define r w where "r = unat (rpos k)" and "w = unat (wpos k)"
  have r: "r < 512" and w: "w < 512" using assms by (simp_all add: ring_ok_def word_less_nat_alt r_def w_def)
  have ne: "r \<noteq> w" using False by (simp add: word_unat_eq_iff r_def w_def)
  have pos: "unat (wpos ?k) = w" "unat (rpos ?k) = (if r = 511 then 0 else r + 1)" "con_buf ?k = con_buf k"
    using False next_pos [of "rpos k"] r by (simp_all add: cons_getc2_def Let_def r_def w_def)
  have ok: "ring_ok ?k" using r w pos(1,2) by (simp add: ring_ok_def word_less_nat_alt split: if_splits)
  have l: "ring_length k = (if r \<le> w then w - r else w + 512 - r)"
    using ring_length_alt [OF assms] by (simp only: r_def w_def)
  have l': "ring_length ?k = (if unat (rpos ?k) \<le> w then w - unat (rpos ?k) else w + 512 - unat (rpos ?k))"
    using ring_length_alt [OF ok] by (simp only: pos(1))
  have len: "ring_length k = Suc (ring_length ?k)" using r w ne l l' pos(2) by (auto split: if_splits)
  have at: "(r + Suc i) mod 512 = (unat (rpos ?k) + i) mod 512" if "i < ring_length ?k" for i
    using r pos(2) by auto
  have "[0 ..< ring_length k] = 0 # map Suc [0 ..< ring_length ?k]" by (simp add: len upt_conv_Cons map_Suc_upt del: upt_Suc)
  then have split: "pending k = con_buf k r # pending ?k"
    using r at by (simp add: pending_def pos(3) r_def [symmetric] o_def del: add_Suc_right)
  have c: "fst (cons_getc2 k) = ucast (con_buf k r)" using False by (simp add: cons_getc2_def Let_def r_def)
  show ?thesis using ok by (simp add: split c)
qed

definition ring_write :: "u8 \<Rightarrow> console \<Rightarrow> console" where
  "ring_write c k = cons_put (ucast c) k"

definition ring_read :: "console \<Rightarrow> u8 option \<times> console" where
  "ring_read k = (if pending k = [] then None else Some (ucast (fst (cons_getc2 k))), snd (cons_getc2 k))"

lemma ucast_u8_i32 [simp]: "ucast (ucast x :: i32) = (x :: u8)"
  by (rule bit_word_eqI) (auto simp: bit_ucast_iff dest: bit_imp_le_length)

interpretation ring: lossy_queue ring_write ring_read pending ring_ok 511
  by unfold_locales (simp_all add: ring_write_def ring_read_def ring_put ring_get)

text \<open>Claim C25.  The ring of characters is a queue: in any sequence of characters stored by an interrupt and characters
  fetched, with never more than 511 waiting, what is fetched and what is left are what was there and what was stored,
  in this order.  One character more empties the ring: the position for writing catches up with the one for reading,
  and all 512 characters are lost.\<close>

theorem console_ring_fifo:
  assumes "ring_ok k"
  shows "(fits 511 (length (pending k)) ops \<longrightarrow>
      (case run_ring ring_write ring_read ops k of (cs, k1) \<Rightarrow> ring_ok k1 \<and> cs @ pending k1 = pending k @ written ops))
    \<and> (length (pending k) = 511 \<longrightarrow> pending (ring_write c k) = [])"
proof -
  have "fits 511 (length (pending k)) ops \<longrightarrow>
      (case run_ring ring_write ring_read ops k of (cs, k1) \<Rightarrow> ring_ok k1 \<and> cs @ pending k1 = pending k @ written ops)"
    by (intro impI ring.fifo [OF assms])
  moreover have "length (pending k) = 511 \<longrightarrow> pending (ring_write c k) = []"
    using ring.contents_enq [OF assms, of c] by simp
  ultimately show ?thesis by blast
qed

section \<open>What the devices deliver\<close>

text \<open>The characters a device procedure produces until it has no more data, without storing them.\<close>

fun produced :: "nat \<Rightarrow> (console \<Rightarrow> i32 \<times> console) \<Rightarrow> console \<Rightarrow> u8 list \<times> console" where
  "produced 0 proc k = ([], k)"
| "produced (Suc n) proc k = (case proc k of (c, k1) \<Rightarrow>
     if c = - 1 then ([], k1)
     else case produced n proc k1 of (cs, k2) \<Rightarrow> ((if c = 0 then cs else ucast c # cs), k2))"

definition set_ring :: "(nat \<Rightarrow> u8) \<Rightarrow> u32 \<Rightarrow> console \<Rightarrow> console" where
  "set_ring b w k = k\<lparr>con_buf := b, wpos := w\<rparr>"

definition blind :: "(console \<Rightarrow> i32 \<times> console) \<Rightarrow> bool" where
  "blind proc \<longleftrightarrow> (\<forall>b w k. proc (set_ring b w k) = map_prod id (set_ring b w) (proc k)) \<and> (\<forall>k. rpos (snd (proc k)) = rpos k)"

lemma cons_put_set_ring: "cons_put c k = set_ring ((con_buf k)(unat (wpos k) := ucast c)) (if wpos k + 1 = 512 then 0 else wpos k + 1) k"
  by (simp add: cons_put_def set_ring_def Let_def)

lemma set_ring_idem [simp]: "set_ring b w (set_ring b1 w1 k) = set_ring b w k"
  by (simp add: set_ring_def)

lemma set_ring_same: "set_ring (con_buf k) (wpos k) k = k"
  by (simp add: set_ring_def)

lemma ring_write_set_ring: "ring_write c (set_ring b w k) = set_ring (b(unat w := c)) (if w + 1 = 512 then 0 else w + 1) k"
  by (simp add: ring_write_def cons_put_set_ring) (simp add: set_ring_def)

lemma produced_set_ring:
  "blind proc \<Longrightarrow> produced n proc (set_ring b w k) = map_prod id (set_ring b w) (produced n proc k)"
proof (induction n arbitrary: k)
  case (Suc n)
  then show ?case by (cases "proc k") (auto simp: blind_def split: prod.splits)
qed simp

lemma fold_ring_write_set_ring: "fold ring_write cs (set_ring b w k) = (case fold (\<lambda>c (b, w). (b(unat w := c), if w + 1 = 512 then 0 else w + 1)) cs (b, w) of (b1, w1) \<Rightarrow> set_ring b1 w1 k)"
  by (induction cs arbitrary: b w) (simp_all add: ring_write_set_ring)

text \<open>The interrupt stores what the device produces; afterwards the device has nothing left.\<close>

lemma fold_ring_write_commute:
  assumes "blind proc"
  shows "snd (produced n proc (fold ring_write cs k)) = fold ring_write cs (snd (produced n proc k))
    \<and> fst (produced n proc (fold ring_write cs k)) = fst (produced n proc k)"
proof -
  obtain b w where k: "k = set_ring b w k" using set_ring_same [of k] by metis
  obtain b1 w1 where f: "fold (\<lambda>c (b, w). (b(unat w := c), if w + 1 = 512 then 0 else w + 1)) cs (b, w) = (b1, w1)" by fastforce
  have r: "fold ring_write cs (set_ring b w h) = set_ring b1 w1 h" for h
    using fold_ring_write_set_ring [of cs b w h] f by simp
  have "fold ring_write cs k = set_ring b1 w1 k" using r [of k] k by simp
  moreover have "snd (produced n proc k) = set_ring b w (snd (produced n proc k))"
    using produced_set_ring [OF assms, of n b w k] k by (metis snd_map_prod)
  ultimately show ?thesis
    using produced_set_ring [OF assms, of n b1 w1 k] r [of "snd (produced n proc k)"] by (metis fst_map_prod id_apply snd_map_prod)
qed

lemma cons_intr_produced:
  assumes "blind proc" and "\<And>k. left k \<noteq> 0 \<Longrightarrow> fst (proc k) \<noteq> - 1 \<and> left (snd (proc k)) < (left k :: nat)"
    and "\<And>k. left k = 0 \<Longrightarrow> proc k = (- 1, k)" and "\<And>b w k. left (set_ring b w k) = left k" and "left k < n"
  shows "cons_intr n proc k = Inr (fold ring_write (fst (produced n proc k)) (snd (produced n proc k))) \<and> left (snd (produced n proc k)) = 0"
  using assms(5)
proof (induction n arbitrary: k)
  case (Suc n)
  show ?case
  proof (cases "left k = 0")
    case True
    then show ?thesis using assms(3) [OF True] by simp
  next
    case False
    obtain c k1 where p: "proc k = (c, k1)" by (cases "proc k")
    have c: "c \<noteq> - 1" and s: "left k1 < n" using assms(2) [OF False] p Suc.prems by auto
    obtain cs k2 where q: "produced n proc k1 = (cs, k2)" by (cases "produced n proc k1")
    show ?thesis
    proof (cases "c = 0")
      case True
      then show ?thesis using Suc.IH [OF s] p q c by simp
    next
      case False
      have w: "cons_put c k1 = fold ring_write [ucast c] k1" by (simp add: ring_write_def cons_put_def)
      have "left (cons_put c k1) < n" using s assms(4) by (simp add: cons_put_set_ring)
      from Suc.IH [OF this] have "cons_intr n proc (cons_put c k1) = Inr (fold ring_write cs (fold ring_write [ucast c] k2))"
        using fold_ring_write_commute [OF assms(1), of n "[ucast c]" k1] q unfolding w by simp
      moreover have "left k2 = 0" using Suc.IH [OF s] q by simp
      ultimately show ?thesis using p q c False by simp
    qed
  qed
qed simp

lemma set_ring_fields [simp]:
  "kbd_codes (set_ring b w k) = kbd_codes k" "serial_in (set_ring b w k) = serial_in k" "kbd_shift (set_ring b w k) = kbd_shift k"
  "text_length (set_ring b w k) = text_length k" "crt_pos (set_ring b w k) = crt_pos k" "rpos (set_ring b w k) = rpos k"
  "serial_exists (set_ring b w k) = serial_exists k"
  by (simp_all add: set_ring_def)

lemma set_ring_update:
  "(set_ring b w k)\<lparr>kbd_codes := x\<rparr> = set_ring b w (k\<lparr>kbd_codes := x\<rparr>)" "(set_ring b w k)\<lparr>kbd_shift := y\<rparr> = set_ring b w (k\<lparr>kbd_shift := y\<rparr>)"
  "(set_ring b w k)\<lparr>text_length := z\<rparr> = set_ring b w (k\<lparr>text_length := z\<rparr>)" "(set_ring b w k)\<lparr>serial_in := x\<rparr> = set_ring b w (k\<lparr>serial_in := x\<rparr>)"
  by (simp_all add: set_ring_def)

lemma set_cell_set_ring: "set_cell i v (set_ring b w k) = set_ring b w (set_cell i v k)" "cell (set_ring b w k) i = cell k i"
  by (simp_all add: set_cell_def cell_def set_ring_def)

lemma pull_left_set_ring: "pull_left n i (set_ring b w k) = set_ring b w (pull_left n i k)"
  by (induction n arbitrary: i k) (simp_all add: set_cell_set_ring)

lemma set_cell_fields [simp]: "rpos (set_cell i v k) = rpos k" "kbd_codes (set_cell i v k) = kbd_codes k" "serial_in (set_cell i v k) = serial_in k"
  "serial_exists (set_cell i v k) = serial_exists k" "crt_pos (set_cell i v k) = crt_pos k" "crt_buf (set_cell i v k) = crt_buf k"
  "text_length (set_cell i v k) = text_length k" "wpos (set_cell i v k) = wpos k" "con_buf (set_cell i v k) = con_buf k"
  by (simp_all add: set_cell_def)

lemma pull_left_fields [simp]: "rpos (pull_left n i k) = rpos k" "kbd_codes (pull_left n i k) = kbd_codes k"
  "serial_in (pull_left n i k) = serial_in k" "serial_exists (pull_left n i k) = serial_exists k"
  by (induction n arbitrary: i k) simp_all

lemma delete_key_set_ring: "delete_key (set_ring b w k) = map_prod id (set_ring b w) (delete_key k)"
  by (simp add: delete_key_def Let_def set_ring_update pull_left_set_ring)

lemma kbd_key_set_ring: "kbd_key d (set_ring b w k) = map_prod id (set_ring b w) (kbd_key d k)"
  unfolding kbd_key_def Let_def set_ring_fields set_ring_update delete_key_set_ring if_distrib [where f = "map_prod id (set_ring b w)"]
    map_prod_simp id_apply ..

lemma kbd_key_fields [simp]: "rpos (snd (kbd_key d k)) = rpos k" "kbd_codes (snd (kbd_key d k)) = kbd_codes k"
  "serial_in (snd (kbd_key d k)) = serial_in k" "serial_exists (snd (kbd_key d k)) = serial_exists k"
  by (simp_all add: kbd_key_def delete_key_def Let_def)

lemma blind_kbd: "blind kbd_proc_data"
  by (auto simp: blind_def kbd_proc_data_def Let_def set_ring_update kbd_key_set_ring split: list.split)

lemma blind_serial: "blind serial_proc_data"
  by (auto simp: blind_def serial_proc_data_def set_ring_update split: list.split)

lemma key_at_bound: "\<forall>c \<in> set ks. c \<le> 255 \<Longrightarrow> key_at ks d \<le> 255"
  by (simp add: key_at_def)

lemma charcode_bound: "charcode m d \<le> 255"
proof -
  have n: "\<forall>c \<in> set normal_keys. c \<le> 255" by (simp add: normal_keys_def)
  have s: "\<forall>c \<in> set shift_keys. c \<le> 255" by (simp add: shift_keys_def)
  have t: "\<forall>c \<in> set ctl_keys. c \<le> 255" by (simp add: ctl_keys_def)
  show ?thesis
    using key_at_bound [OF n, of d] key_at_bound [OF s, of d] key_at_bound [OF t, of d]
    by (simp add: charcode_def normalmap_def shiftmap_def ctlmap_def cursor_keys_def)
qed

lemma caps_bound: "c \<le> 255 \<Longrightarrow> caps sh c \<le> 255"
proof -
  assume c: "c \<le> 255"
  have "unat (c - 32) \<le> 255" if "97 \<le> c" using that c by (subst unat_u32_minus) (simp_all add: word_le_nat_alt)
  moreover have "unat (c + 32) \<le> 255" if "c \<le> 90" using that by (subst unat_u32_plus) (simp_all add: word_le_nat_alt)
  ultimately show ?thesis using c by (auto simp: caps_def word_le_nat_alt)
qed

lemma kbd_key_char: "fst (kbd_key d k) \<le> 255"
  using caps_bound [OF charcode_bound] by (simp add: kbd_key_def delete_key_def Let_def)

lemma not_minus_1: "(c :: i32) \<le> 255 \<Longrightarrow> c \<noteq> - 1"
proof
  assume "c \<le> 255" and "c = - 1"
  moreover have "(- 1 :: i32) = 0xFFFFFFFF" by simp
  ultimately have "unat (0xFFFFFFFF :: i32) \<le> 255" by (simp only: word_le_nat_alt) simp
  then show False by simp
qed

lemma kbd_proc_data_char: "kbd_codes k \<noteq> [] \<Longrightarrow> fst (kbd_proc_data k) \<le> 255"
  using kbd_key_char by (auto simp: kbd_proc_data_def Let_def split: list.split)

lemma kbd_proc_data_codes: "kbd_codes (snd (kbd_proc_data k)) = tl (kbd_codes k)"
  by (auto simp: kbd_proc_data_def Let_def split: list.split)

lemma kbd_intr_produced:
  assumes "produced (Suc (length (kbd_codes k))) kbd_proc_data k = (cs, k1)"
  shows "kbd_intr k = Inr (fold ring_write cs k1) \<and> kbd_codes k1 = []"
proof -
  have "cons_intr (Suc (length (kbd_codes k))) kbd_proc_data k
      = Inr (fold ring_write (fst (produced (Suc (length (kbd_codes k))) kbd_proc_data k)) (snd (produced (Suc (length (kbd_codes k))) kbd_proc_data k)))
    \<and> length (kbd_codes (snd (produced (Suc (length (kbd_codes k))) kbd_proc_data k))) = 0"
  proof (rule cons_intr_produced [OF blind_kbd])
    fix k :: console assume "length (kbd_codes k) \<noteq> 0"
    then show "fst (kbd_proc_data k) \<noteq> - 1 \<and> length (kbd_codes (snd (kbd_proc_data k))) < length (kbd_codes k)"
      using kbd_proc_data_char [of k] not_minus_1 by (simp add: kbd_proc_data_codes)
  next
    fix k :: console assume "length (kbd_codes k) = 0"
    then show "kbd_proc_data k = (- 1, k)" by (simp add: kbd_proc_data_def)
  qed simp_all
  then show ?thesis using assms by (simp add: kbd_intr_def)
qed

lemma serial_intr_produced:
  assumes "serial_exists k" and "produced (Suc (length (serial_in k))) serial_proc_data k = (cs, k1)"
  shows "serial_intr k = Inr (fold ring_write cs k1) \<and> serial_in k1 = []"
proof -
  have "cons_intr (Suc (length (serial_in k))) serial_proc_data k
      = Inr (fold ring_write (fst (produced (Suc (length (serial_in k))) serial_proc_data k)) (snd (produced (Suc (length (serial_in k))) serial_proc_data k)))
    \<and> length (serial_in (snd (produced (Suc (length (serial_in k))) serial_proc_data k))) = 0"
  proof (rule cons_intr_produced [OF blind_serial])
    fix k :: console assume a: "length (serial_in k) \<noteq> 0"
    have "(ucast (b :: u8) :: i32) \<le> 255" for b
    proof -
      have b: "unat b < 256" using unsigned_less [of b] by simp
      then have "unat (ucast b :: i32) = unat b" by (simp add: unsigned_ucast_eq take_bit_nat_eq_self)
      then show ?thesis using b by (simp add: word_le_nat_alt)
    qed
    then show "fst (serial_proc_data k) \<noteq> - 1 \<and> length (serial_in (snd (serial_proc_data k))) < length (serial_in k)"
      using a not_minus_1 by (auto simp: serial_proc_data_def split: list.split)
  next
    fix k :: console assume "length (serial_in k) = 0"
    then show "serial_proc_data k = (- 1, k)" by (simp add: serial_proc_data_def)
  qed simp_all
  then show ?thesis using assms by (simp add: serial_intr_def)
qed

text \<open>Nothing waits in a device.\<close>

definition quiet :: "console \<Rightarrow> bool" where
  "quiet k \<longleftrightarrow> kbd_codes k = [] \<and> (serial_exists k \<longrightarrow> serial_in k = [])"

definition typed :: "console \<Rightarrow> u8 list" where
  "typed k = fst (produced (Suc (length (kbd_codes k))) kbd_proc_data k)"

lemma fold_ring_write_fields [simp]: "kbd_codes (fold ring_write cs k) = kbd_codes k" "serial_in (fold ring_write cs k) = serial_in k"
  "serial_exists (fold ring_write cs k) = serial_exists k"
  by (induction cs arbitrary: k) (simp_all add: ring_write_def cons_put_def Let_def)

lemma produced_fields:
  assumes "\<And>k. rpos (snd (proc k)) = rpos k" and "\<And>k. wpos (snd (proc k)) = wpos k" and "\<And>k. con_buf (snd (proc k)) = con_buf k"
    and "\<And>k. serial_in (snd (proc k)) = serial_in k" and "\<And>k. serial_exists (snd (proc k)) = serial_exists k"
  shows "rpos (snd (produced n proc k)) = rpos k \<and> wpos (snd (produced n proc k)) = wpos k \<and> con_buf (snd (produced n proc k)) = con_buf k
    \<and> serial_in (snd (produced n proc k)) = serial_in k \<and> serial_exists (snd (produced n proc k)) = serial_exists k"
proof (induction n arbitrary: k)
  case (Suc n)
  obtain c k1 where p: "proc k = (c, k1)" by (cases "proc k")
  obtain cs k2 where q: "produced n proc k1 = (cs, k2)" by (cases "produced n proc k1")
  show ?case using p q Suc [of k1] assms(1-5) [of k] by auto
qed simp

lemma pull_left_ring [simp]: "wpos (pull_left n i k) = wpos k" "con_buf (pull_left n i k) = con_buf k"
  by (induction n arbitrary: i k) simp_all

lemma kbd_key_ring [simp]: "wpos (snd (kbd_key d k)) = wpos k" "con_buf (snd (kbd_key d k)) = con_buf k"
  by (simp_all add: kbd_key_def delete_key_def Let_def)

lemma kbd_proc_data_fields: "rpos (snd (kbd_proc_data k)) = rpos k" "wpos (snd (kbd_proc_data k)) = wpos k" "con_buf (snd (kbd_proc_data k)) = con_buf k"
  "serial_in (snd (kbd_proc_data k)) = serial_in k" "serial_exists (snd (kbd_proc_data k)) = serial_exists k"
  by (auto simp: kbd_proc_data_def Let_def split: list.split)

lemma same_pending: "\<lbrakk>con_buf j = con_buf k; rpos j = rpos k; wpos j = wpos k\<rbrakk> \<Longrightarrow> pending j = pending k \<and> ring_ok j = ring_ok k"
  by (simp add: pending_def ring_length_def ring_ok_def)

lemma kbd_intr_stores:
  assumes "ring_ok k" and "length (pending k) + length (typed k) \<le> 511"
  obtains k1 where "kbd_intr k = Inr k1" "ring_ok k1" "pending k1 = pending k @ typed k" "kbd_codes k1 = []"
    "serial_in k1 = serial_in k" "serial_exists k1 = serial_exists k"
proof -
  obtain cs k2 where p: "produced (Suc (length (kbd_codes k))) kbd_proc_data k = (cs, k2)"
    by (cases "produced (Suc (length (kbd_codes k))) kbd_proc_data k")
  have cs: "typed k = cs" by (simp only: typed_def p fst_conv)
  have f: "rpos k2 = rpos k" "wpos k2 = wpos k" "con_buf k2 = con_buf k" "serial_in k2 = serial_in k" "serial_exists k2 = serial_exists k"
    using produced_fields [of kbd_proc_data "Suc (length (kbd_codes k))" k, OF kbd_proc_data_fields] unfolding p by simp_all
  then have "pending k2 = pending k" "ring_ok k2" using same_pending [of k2 k] assms(1) by simp_all
  then have "ring_ok (fold ring_write cs k2) \<and> pending (fold ring_write cs k2) = pending k @ typed k"
    using ring.write_all [of k2 cs] assms(2) cs by simp
  then show ?thesis using that kbd_intr_produced [OF p] f by simp
qed

lemma produced_nonzero: "(\<And>k. fst (proc k) \<le> 255 \<or> fst (proc k) = - 1) \<Longrightarrow> 0 \<notin> set (fst (produced n proc k))"
proof (induction n arbitrary: k)
  case (Suc n)
  obtain c k1 where p: "proc k = (c, k1)" by (cases "proc k")
  obtain cs k2 where q: "produced n proc k1 = (cs, k2)" by (cases "produced n proc k1")
  have "ucast c \<noteq> (0 :: u8)" if "c \<noteq> - 1" "c \<noteq> 0"
  proof
    assume z: "ucast c = (0 :: u8)"
    have "c \<le> 255" using Suc.prems [of k] p that(1) by simp
    then have "unat c < 256" by (simp add: word_le_nat_alt)
    moreover have "unat (ucast c :: u8) = take_bit 8 (unat c)" by (simp add: unsigned_ucast_eq)
    ultimately have "unat c = 0" using z by (simp add: take_bit_nat_eq_self)
    then show False using that(2) by (simp add: unat_eq_0)
  qed
  then show ?case using p q Suc.IH [OF Suc.prems, of k1] by auto
qed simp

lemma typed_nonzero: "0 \<notin> set (typed k)"
  unfolding typed_def
proof (rule produced_nonzero)
  fix k show "fst (kbd_proc_data k) \<le> 255 \<or> fst (kbd_proc_data k) = - 1"
    using kbd_proc_data_char [of k] by (cases "kbd_codes k") (simp_all add: kbd_proc_data_def)
qed

lemma cons_getc_quiet: "quiet k \<Longrightarrow> cons_getc k = Inr (cons_getc2 k)"
  by (simp add: quiet_def cons_getc_def serial_intr_def kbd_intr_def kbd_proc_data_def serial_proc_data_def)

lemma getc2_fields [simp]: "kbd_codes (snd (cons_getc2 k)) = kbd_codes k" "serial_in (snd (cons_getc2 k)) = serial_in k"
  "serial_exists (snd (cons_getc2 k)) = serial_exists k"
  by (simp_all add: cons_getc2_def Let_def)

lemma getchar_quiet:
  assumes "quiet k" and "ring_ok k" and "pending k = c # cs" and "c \<noteq> 0"
  obtains k1 where "getchar k = Inr (ucast c, k1)" "quiet k1" "ring_ok k1" "pending k1 = cs"
proof -
  obtain d k1 where g: "cons_getc2 k = (d, k1)" by (cases "cons_getc2 k")
  have r: "ring_ok k1" "pending k1 = cs" "d = ucast c" using ring_get [OF assms(2)] assms(3) g by simp_all
  have q: "quiet k1" using getc2_fields [of k] assms(1) g by (simp add: quiet_def)
  have "(ucast c :: i32) \<noteq> 0" using assms(4) ucast_u8_i32 [of c] unsigned_0 by metis
  then have "getchar k = Inr (ucast c, k1)" using cons_getc_quiet [OF assms(1)] g r(3) by (simp add: getchar_def)
  then show ?thesis using that r q by blast
qed

section \<open>The screen\<close>

text \<open>What output leaves alone: the ring and the input devices.\<close>

definition input_side :: "console \<Rightarrow> ((nat \<Rightarrow> u8) \<times> u32 \<times> u32) \<times> u8 list \<times> u8 list \<times> bool" where
  "input_side k = ((con_buf k, rpos k, wpos k), kbd_codes k, serial_in k, serial_exists k)"

lemma input_side_step [simp]: "input_side (lpt_putc c k) = input_side k" "input_side (cga_step c k) = input_side k"
  "input_side (scroll k) = input_side k" "input_side (show_cursor k) = input_side k"
  by (simp_all add: input_side_def lpt_putc_def cga_step_def scroll_def show_cursor_def Let_def)

lemma input_side_cons_putc [simp]: "input_side (cons_putc c k) = input_side k"
  by (simp add: cons_putc_def cga_putc_def cga_char_def put_space_def Let_def)

lemma input_side_cputchar:
  "pending (cputchar k c) = pending k \<and> ring_ok (cputchar k c) = ring_ok k \<and> quiet (cputchar k c) = quiet k"
proof -
  have "input_side (cputchar k c) = input_side k" by (simp add: cputchar_def)
  then have "con_buf (cputchar k c) = con_buf k" "rpos (cputchar k c) = rpos k" "wpos (cputchar k c) = wpos k"
    "kbd_codes (cputchar k c) = kbd_codes k" "serial_in (cputchar k c) = serial_in k" "serial_exists (cputchar k c) = serial_exists k"
    by (simp_all add: input_side_def)
  then show ?thesis using same_pending [of "cputchar k c" k] by (simp add: quiet_def)
qed

text \<open>The position stays on the screen, and only its 2000 cells are written.\<close>

definition on_screen :: "console \<Rightarrow> bool" where
  "on_screen k \<longleftrightarrow> crt_pos k < 2000"

definition only_screen :: "console \<Rightarrow> console \<Rightarrow> bool" where
  "only_screen k j \<longleftrightarrow> crt_buf j = crt_buf k \<and> (\<forall>b i. b \<noteq> crt_buf k \<or> 2000 \<le> i \<longrightarrow> video j b i = video k b i)"

lemma only_screen_refl [simp]: "only_screen k k"
  by (simp add: only_screen_def)

lemma only_screen_trans: "\<lbrakk>only_screen k j; only_screen j h\<rbrakk> \<Longrightarrow> only_screen k h"
  by (simp add: only_screen_def)

lemma only_screen_set_cell: "i < 2000 \<Longrightarrow> only_screen k (set_cell i v k)"
  by (simp add: only_screen_def set_cell_def)

lemma only_screen_fields: "only_screen k j \<Longrightarrow> only_screen k (j\<lparr>crt_pos := p\<rparr>)" "only_screen k j \<Longrightarrow> only_screen k (j\<lparr>text_length := t\<rparr>)"
  "only_screen k j \<Longrightarrow> only_screen k (j\<lparr>cursor_reg := r\<rparr>)" "only_screen k j \<Longrightarrow> only_screen k (j\<lparr>lpt_out := l\<rparr>)"
  by (simp_all add: only_screen_def)

lemma only_screen_set: "\<lbrakk>i < 2000; only_screen k j\<rbrakk> \<Longrightarrow> only_screen k (set_cell i v j)"
  using only_screen_trans only_screen_set_cell by blast

lemma u16_plus: "unat (p :: u16) + unat q < 65536 \<Longrightarrow> unat (p + q) = unat p + unat q"
  by (simp add: unat_word_ariths)

lemma mod_le_u16: "(p :: u16) mod q \<le> p"
  by (simp add: word_le_nat_alt unat_mod_distrib)

text \<open>After a step the position is at most one row beyond the screen.\<close>

lemma cga_step_screen:
  assumes "on_screen k"
  shows "only_screen k (cga_step c k) \<and> crt_pos (cga_step c k) < 2080"
proof -
  let ?p = "crt_pos k"
  have p: "unat ?p < 2000" using assms by (simp add: on_screen_def word_less_nat_alt)
  have down: "unat (?p - 1) < 2000" if "0 < ?p" using that p by (simp add: unat_sub word_less_nat_alt word_le_nat_alt Suc_leI)
  have up: "unat (?p + 1) = unat ?p + 1" using p by (simp add: u16_plus)
  have row: "unat (?p + 80 - (?p + 80) mod 80) \<le> unat ?p + 80"
  proof -
    have "unat (?p + 80) = unat ?p + 80" using p by (simp add: u16_plus)
    moreover have "(?p + 80) mod 80 \<le> ?p + 80" by (rule mod_le_u16)
    ultimately show ?thesis by (simp add: unat_sub)
  qed
  have left: "unat (?p - ?p mod 80) \<le> unat ?p" by (simp add: unat_sub mod_le_u16)
  have l: "?p - 1 < 2080" if "0 < ?p" using down [OF that] by (simp add: word_less_nat_alt)
  have u: "?p + 1 < 2080" using p up by (simp add: word_less_nat_alt)
  have r: "?p + 80 - (?p + 80) mod 80 < 2080" using p row by (simp add: word_less_nat_alt)
  have m: "?p - ?p mod 80 < 2080" using p left by (simp add: word_less_nat_alt)
  have k: "?p < 2080" using p by (simp add: word_less_nat_alt)
  show ?thesis
    by (simp add: cga_step_def Let_def only_screen_fields only_screen_set only_screen_set_cell p down l u r m k)
qed

lemma scroll_screen:
  assumes "crt_pos k < 2080"
  shows "only_screen k (scroll k) \<and> on_screen (scroll k)"
proof -
  have p: "unat (crt_pos k) < 2080" using assms by (simp add: word_less_nat_alt)
  have "unat (crt_pos k - 80) < 2000" if "2000 \<le> crt_pos k"
  proof -
    have "2000 \<le> unat (crt_pos k)" using that by (simp add: word_le_nat_alt)
    then have "unat (crt_pos k - 80) = unat (crt_pos k) - 80" by (simp add: unat_sub word_le_nat_alt)
    then show ?thesis using p by simp
  qed
  then show ?thesis
    by (auto simp: scroll_def on_screen_def only_screen_def scrolled_def word_less_nat_alt word_le_nat_alt)
qed

lemma cga_char_screen:
  assumes "on_screen k"
  shows "only_screen k (cga_char c k) \<and> on_screen (cga_char c k) \<and> cursor_reg (cga_char c k) = crt_pos (cga_char c k)"
proof -
  have "only_screen k (scroll (cga_step c k)) \<and> on_screen (scroll (cga_step c k))"
    using cga_step_screen [OF assms, of c] scroll_screen only_screen_trans by blast
  then show ?thesis by (simp add: cga_char_def show_cursor_def only_screen_fields on_screen_def)
qed

lemma lpt_putc_screen [simp]: "on_screen (lpt_putc c k) = on_screen k" "only_screen k (lpt_putc c k)"
  by (simp_all add: lpt_putc_def on_screen_def only_screen_fields)

lemma put_space_screen:
  assumes "on_screen k"
  shows "only_screen k (put_space k) \<and> on_screen (put_space k) \<and> cursor_reg (put_space k) = crt_pos (put_space k)"
proof -
  define j where "j = lpt_putc 32 k"
  have "only_screen k j" "on_screen j" using assms by (simp_all add: j_def)
  then show ?thesis
    using cga_char_screen [of j "with_color 32 j"] only_screen_trans unfolding put_space_def Let_def j_def [symmetric] by blast
qed

text \<open>Claim C27.  Output stays on the screen: putting any character leaves the position inside the 2000 cells of the screen,
  the cursor register at this position, and every cell outside the screen as it was, whether the character is printed,
  moves the position, ends a row or scrolls.\<close>

theorem output_stays_on_screen:
  assumes "on_screen k"
  shows "on_screen (cons_putc c k) \<and> cursor_reg (cons_putc c k) = crt_pos (cons_putc c k) \<and> only_screen k (cons_putc c k)"
proof -
  define j where "j = lpt_putc c k"
  have j: "on_screen j" "only_screen k j" using assms by (simp_all add: j_def)
  have spaces: "only_screen j s \<and> on_screen s" if "s = put_space (put_space (put_space (put_space (put_space j))))" for s
    unfolding that using put_space_screen j(1) only_screen_trans by meson
  have "on_screen (cga_putc c j) \<and> cursor_reg (cga_putc c j) = crt_pos (cga_putc c j) \<and> only_screen j (cga_putc c j)"
  proof (cases "with_color c j AND 0xFF = 9")
    case True
    define s where "s = put_space (put_space (put_space (put_space (put_space j))))"
    have s: "only_screen j s" "on_screen s" using spaces [OF s_def] by simp_all
    then have "\<not> 2000 \<le> crt_pos s" by (simp add: on_screen_def)
    then have "cga_putc c j = show_cursor s" using True by (simp add: cga_putc_def Let_def s_def [symmetric] scroll_def)
    then show ?thesis using s by (simp add: show_cursor_def only_screen_fields on_screen_def)
  next
    case False
    then show ?thesis using cga_char_screen [OF j(1)] by (simp add: cga_putc_def Let_def)
  qed
  then show ?thesis using j(2) only_screen_trans unfolding cons_putc_def j_def [symmetric] by blast
qed

section \<open>A typed line\<close>

text \<open>The editing of \<open>readline\<close> on a list of characters: a backspace takes the last character away, other control characters
  are ignored, and characters beyond the capacity are dropped.\<close>

definition edit_step :: "u8 \<Rightarrow> u8 list \<Rightarrow> u8 list" where
  "edit_step c acc = (if 32 \<le> c \<and> length acc < 1023 then acc @ [c] else if c = 8 then butlast acc else acc)"

definition edited :: "u8 list \<Rightarrow> u8 list" where
  "edited cs = fold edit_step cs []"

definition holds :: "bytes \<Rightarrow> u32 \<Rightarrow> u8 list \<Rightarrow> bool" where
  "holds m p cs \<longleftrightarrow> (\<forall>j < length cs. m (p + word_of_nat j) = cs ! j)"

definition only_buffer :: "bytes \<Rightarrow> bytes \<Rightarrow> u32 \<Rightarrow> bool" where
  "only_buffer m m1 p \<longleftrightarrow> (\<forall>a. 1024 \<le> unat (a - p) \<longrightarrow> m1 a = m a)"

lemma offset_eq: "\<lbrakk>i < 1024; j < 1024\<rbrakk> \<Longrightarrow> (word_of_nat i :: u32) = word_of_nat j \<longleftrightarrow> i = j"
proof -
  assume a: "i < 1024" "j < 1024"
  have "unat (word_of_nat i :: u32) = i" "unat (word_of_nat j :: u32) = j" using a by (simp_all add: unat_of_nat_u32)
  then show ?thesis by metis
qed

lemma holds_write: "\<lbrakk>holds m p cs; length cs < 1024\<rbrakk> \<Longrightarrow> holds (m(p + word_of_nat (length cs) := c)) p cs"
  by (simp add: holds_def offset_eq)

lemma holds_append: "\<lbrakk>holds m p cs; length cs < 1024\<rbrakk> \<Longrightarrow> holds (m(p + word_of_nat (length cs) := c)) p (cs @ [c])"
  using holds_write [of m p cs c] by (auto simp: holds_def nth_append less_Suc_eq)

lemma holds_butlast: "holds m p cs \<Longrightarrow> holds m p (butlast cs)"
  by (simp add: holds_def nth_butlast)

lemma only_buffer_write: "\<lbrakk>only_buffer m m1 p; i < 1024\<rbrakk> \<Longrightarrow> only_buffer m (m1(p + word_of_nat i := c)) p"
  by (auto simp: only_buffer_def unat_of_nat_u32)

lemma length_edit_step: "length acc \<le> 1023 \<Longrightarrow> length (edit_step c acc) \<le> 1023"
  by (auto simp: edit_step_def)

lemma sint_char: "sint (ucast (c :: u8) :: i32) = uint c"
proof -
  have "uint c < 2 ^ LENGTH(8)" by (rule unsigned_less)
  then have lt: "uint c < 256" by simp
  have "signed_take_bit 31 (uint c) = uint c"
  proof (rule signed_take_bit_int_eq_self)
    show "- (2 ^ 31) \<le> uint c" by (rule order_trans [of _ 0]) simp_all
    show "uint c < 2 ^ 31" by (rule less_trans [OF lt]) simp
  qed
  then show ?thesis using lt by (simp add: sint_uint unsigned_ucast_eq take_bit_int_eq_self)
qed

lemma char_eq: "(ucast (c :: u8) :: i32) = ucast (d :: u8) \<longleftrightarrow> c = d"
  using ucast_u8_i32 by metis

declare readline_loop.simps(2) [simp del]

lemma readline_step:
  assumes "quiet k" and "ring_ok k" and "pending k = c # cs" and "c \<noteq> 0" and "c \<noteq> 10" and "c \<noteq> 13"
    and "holds m buf acc" and "length acc \<le> 1023" and "only_buffer m0 m buf"
  obtains k1 m1 where "readline_loop (Suc n) buf (length acc) m k = readline_loop n buf (length (edit_step c acc)) m1 k1"
    "quiet k1" "ring_ok k1" "pending k1 = cs" "holds m1 buf (edit_step c acc)" "only_buffer m0 m1 buf"
proof -
  obtain k1 where g: "getchar k = Inr (ucast c, k1)" and k1: "quiet k1" "ring_ok k1" "pending k1 = cs"
    using getchar_quiet [OF assms(1-4)] .
  have ge: "\<not> uint c < 0" "32 \<le> uint c \<longleftrightarrow> 32 \<le> c" by (simp_all add: word_le_def)
  have eq: "(ucast c :: i32) = 8 \<longleftrightarrow> c = 8" "(ucast c :: i32) = 10 \<longleftrightarrow> c = 10" "(ucast c :: i32) = 13 \<longleftrightarrow> c = 13"
    using char_eq [of c 8] char_eq [of c 10] char_eq [of c 13] by simp_all
  note out = input_side_cputchar [of k1 "ucast c"]
  have l: "readline_loop (Suc n) buf (length acc) m k =
     (if 32 \<le> c \<and> length acc < 1023 then
        readline_loop n buf (length acc + 1) (m(buf + word_of_nat (length acc) := c)) (cputchar k1 (ucast c))
      else if c = 8 \<and> 0 < length acc then readline_loop n buf (length acc - 1) m (cputchar k1 (ucast c))
      else readline_loop n buf (length acc) m k1)"
    using assms(5,6) by (simp only: readline_loop.simps g bindE.simps prod.case sint_char ge eq iscons_def) simp
  show ?thesis
  proof (cases "32 \<le> c \<and> length acc < 1023")
    case True
    then show ?thesis
      using that [of "m(buf + word_of_nat (length acc) := c)" "cputchar k1 (ucast c)"] l out k1 assms(7-9)
        holds_append [of m buf acc c] only_buffer_write [of m0 m buf "length acc" c]
      by (simp add: edit_step_def)
  next
    case False
    show ?thesis
    proof (cases "c = 8 \<and> 0 < length acc")
      case True
      then have "edit_step c acc = butlast acc" by (simp add: edit_step_def)
      then show ?thesis
        using that [of m "cputchar k1 (ucast c)"] False True l out k1 assms(9) holds_butlast [OF assms(7)]
        by simp
    next
      case none: False
      then have "edit_step c acc = acc" using False by (auto simp: edit_step_def)
      then show ?thesis using that [of m k1] False none l k1 assms(7,9) by (simp split: if_splits)
    qed
  qed
qed

lemma readline_loop_line:
  assumes "quiet k" and "ring_ok k" and "pending k = cs @ e # rest" and "e = 10 \<or> e = 13"
    and "10 \<notin> set cs" and "13 \<notin> set cs" and "0 \<notin> set cs" and "length cs < n"
    and "holds m buf acc" and "length acc \<le> 1023" and "only_buffer m0 m buf"
  shows "\<exists>m1 k1. readline_loop n buf (length acc) m k = Inr (m1, k1)
    \<and> holds m1 buf (fold edit_step cs acc) \<and> m1 (buf + word_of_nat (length (fold edit_step cs acc))) = 0
    \<and> only_buffer m0 m1 buf \<and> pending k1 = rest \<and> ring_ok k1 \<and> quiet k1 \<and> length (fold edit_step cs acc) \<le> 1023"
  using assms
proof (induction cs arbitrary: k m acc n)
  case Nil
  obtain n' where n: "n = Suc n'" using Nil.prems(8) by (cases n) auto
  have "e \<noteq> 0" using Nil.prems(4) by auto
  then obtain k1 where g: "getchar k = Inr (ucast e, k1)" and k1: "quiet k1" "ring_ok k1" "pending k1 = rest"
    using getchar_quiet [OF Nil.prems(1,2)] Nil.prems(3) by auto
  have "readline_loop n buf (length acc) m k = Inr (m(buf + word_of_nat (length acc) := 0), cputchar k1 (ucast e))"
    using Nil.prems(4) g unfolding n by (auto simp: iscons_def readline_loop.simps(2))
  moreover have "holds (m(buf + word_of_nat (length acc) := 0)) buf acc"
    using holds_write [of m buf acc 0] Nil.prems(9,10) by simp
  ultimately show ?case
    using input_side_cputchar [of k1 "ucast e"] k1 only_buffer_write [OF Nil.prems(11), of "length acc" 0] Nil.prems(10) by simp
next
  case (Cons c cs)
  obtain n' where n: "n = Suc n'" using Cons.prems(8) by (cases n) auto
  have c: "pending k = c # (cs @ e # rest)" "c \<noteq> 0" "c \<noteq> 10" "c \<noteq> 13" using Cons.prems(3,5-7) by auto
  obtain k1 m1 where s: "readline_loop (Suc n') buf (length acc) m k = readline_loop n' buf (length (edit_step c acc)) m1 k1"
    and k1: "quiet k1" "ring_ok k1" "pending k1 = cs @ e # rest" "holds m1 buf (edit_step c acc)" "only_buffer m0 m1 buf"
    using readline_step [OF Cons.prems(1,2) c Cons.prems(9,10,11), of n'] .
  show ?case
    using Cons.IH [OF k1(1-3) Cons.prems(4) _ _ _ _ k1(4) length_edit_step [OF Cons.prems(10)] k1(5), of n'] Cons.prems(5-8)
    unfolding n s by simp
qed

text \<open>Claim C26.  A typed line is read: when the keys typed since the last poll give the characters of a line, a return or
  newline, and what was typed after it, and they fit the ring, then \<open>readline\<close> returns with the line in its buffer, edited by
  the backspaces in it and cut to 1023 characters, and terminated; it writes only the 1024 bytes of the buffer and leaves
  exactly the characters after the line in the ring.\<close>

theorem typed_line_is_read:
  assumes "ring_ok k" and "pending k = []" and "serial_exists k \<longrightarrow> serial_in k = []"
    and "typed k = cs @ e # rest" and "length (typed k) \<le> 511" and "e = 10 \<or> e = 13" and "10 \<notin> set cs" and "13 \<notin> set cs"
    and "length cs < n"
  shows "\<exists>m1 k1. readline n 0 buf m k = Inr (m1, k1) \<and> holds m1 buf (edited cs) \<and> m1 (buf + word_of_nat (length (edited cs))) = 0
    \<and> length (edited cs) \<le> 1023 \<and> only_buffer m m1 buf \<and> pending k1 = rest"
proof -
  obtain k1 where k: "kbd_intr k = Inr k1" "ring_ok k1" "pending k1 = typed k" "kbd_codes k1 = []"
      "serial_in k1 = serial_in k" "serial_exists k1 = serial_exists k"
    using kbd_intr_stores [OF assms(1)] assms(2,5) by (metis add_0 append_Nil list.size(3))
  have q: "quiet k1" using k assms(3) by (simp add: quiet_def)
  have "serial_intr k = Inr k" using assms(3) by (simp add: serial_intr_def serial_proc_data_def)
  then have "cons_getc k = cons_getc k1" using k(1) cons_getc_quiet [OF q] by (simp add: cons_getc_def)
  then have "getchar k = getchar k1" by (simp add: getchar_def)
  then have same: "readline_loop n buf 0 m k = readline_loop n buf 0 m k1" using assms(9) by (cases n) (simp_all add: readline_loop.simps(2))
  have "0 \<notin> set cs" using typed_nonzero [of k] assms(4) by simp
  moreover have "holds m buf []" "only_buffer m m buf" by (simp_all add: holds_def only_buffer_def)
  moreover have "pending k1 = cs @ e # rest" using k(3) assms(4) by simp
  ultimately obtain m1 k2 where "readline_loop n buf (length []) m k1 = Inr (m1, k2)" "holds m1 buf (fold edit_step cs [])"
    "m1 (buf + word_of_nat (length (fold edit_step cs []))) = 0" "only_buffer m m1 buf" "pending k2 = rest"
    "length (fold edit_step cs []) \<le> 1023"
    using readline_loop_line [OF q k(2) _ assms(6-8) _ assms(9), of rest m buf "[]" m] by auto
  then show ?thesis using same by (simp add: readline_def edited_def)
qed

section \<open>Letters and the text on the screen\<close>

text \<open>The scan codes of the letters.\<close>

definition letter_codes :: "u8 list" where
  "letter_codes = [0x10, 0x11, 0x12, 0x13, 0x14, 0x15, 0x16, 0x17, 0x18, 0x19, 0x1E, 0x1F, 0x20, 0x21, 0x22, 0x23, 0x24, 0x25, 0x26,
     0x2C, 0x2D, 0x2E, 0x2F, 0x30, 0x31, 0x32]"

lemma letter_code:
  assumes "d \<in> set letter_codes"
  shows "97 \<le> normalmap d \<and> normalmap d \<le> 122 \<and> shiftmap d = normalmap d - 32 \<and> 65 \<le> shiftmap d \<and> shiftmap d \<le> 90
    \<and> shiftcode d = 0 \<and> togglecode d = 0 \<and> d \<noteq> 0xE0 \<and> d AND 0x80 = 0"
proof -
  have "\<forall>d \<in> set letter_codes. 97 \<le> normalmap d \<and> normalmap d \<le> 122 \<and> shiftmap d = normalmap d - 32 \<and> 65 \<le> shiftmap d \<and> shiftmap d \<le> 90
    \<and> shiftcode d = 0 \<and> togglecode d = 0 \<and> d \<noteq> 0xE0 \<and> d AND 0x80 = 0"
    by code_simp
  then show ?thesis using assms by blast
qed

text \<open>Letter keys give the letter that Shift and Caps Lock call for: without Ctrl, pressing a letter key gives the
  upper-case letter exactly when one of Shift and Caps Lock is on but not both, and the lower-case letter otherwise, and
  leaves the state of the keyboard as it was.\<close>

theorem letter_keys:
  assumes "d \<in> set letter_codes" and "kbd_codes k = d # rest" and "kbd_shift k AND E0ESC = 0" and "kbd_shift k AND CTL = 0"
  shows "kbd_proc_data k = (if (kbd_shift k AND SHIFT \<noteq> 0) \<noteq> (kbd_shift k AND CAPSLOCK \<noteq> 0) then normalmap d - 32 else normalmap d,
    k\<lparr>kbd_codes := rest\<rparr>)"
proof -
  define n where "n = normalmap d"
  note d = letter_code [OF assms(1), folded n_def]
  have big: "n \<noteq> 233" "n \<noteq> 255" "n - 32 \<noteq> 233" "n - 32 \<noteq> 255" "\<not> n \<le> 57" "\<not> n - 32 \<le> 57"
    using d by (auto simp: word_le_nat_alt)
  have upper: "\<not> 97 \<le> n - 32" "65 \<le> n - 32" "n - 32 \<le> 90" using d by (auto simp: word_le_nat_alt)
  have m: "kbd_shift k AND 3 = kbd_shift k AND 1"
    using bit.conj_disj_distrib [of "kbd_shift k" 1 2] assms(4) by simp
  have one: "kbd_shift k AND 1 = (if kbd_shift k AND 1 \<noteq> 0 then 1 else 0)" by (simp add: and_one_eq)
  have map: "charcode (kbd_shift k AND 3) d = (if kbd_shift k AND 1 \<noteq> 0 then n - 32 else n)"
    using d one by (auto simp: charcode_def m n_def)
  have "kbd_key d (k\<lparr>kbd_codes := rest\<rparr>) = (if (kbd_shift k AND 1 \<noteq> 0) \<noteq> (kbd_shift k AND 8 \<noteq> 0) then n - 32 else n, k\<lparr>kbd_codes := rest\<rparr>)"
    using d map big upper by (auto simp: kbd_key_def Let_def caps_def)
  then show ?thesis using d assms(2,3) by (simp add: kbd_proc_data_def Let_def n_def)
qed

text \<open>With Num Lock as the only modifier every digit key is silent, those above the letters too.\<close>

lemma numlock_silences_digits:
  assumes "d \<in> set [2, 3, 4, 5, 6, 7, 8, 9, 10, 11]" and "kbd_codes k = d # rest" and "kbd_shift k = NUMLOCK"
  shows "kbd_proc_data k = (0, k\<lparr>kbd_codes := rest\<rparr>)"
proof -
  have "\<forall>d \<in> set [2, 3, 4, 5, 6, 7, 8, 9, 10, 11]. 48 \<le> normalmap d \<and> normalmap d \<le> 57 \<and> shiftcode d = 0 \<and> togglecode d = 0 \<and> d \<noteq> 0xE0 \<and> d AND 0x80 = 0"
    by code_simp
  then have d: "48 \<le> normalmap d" "normalmap d \<le> 57" "shiftcode d = 0" "togglecode d = 0" "d \<noteq> 0xE0" "d AND 0x80 = 0"
    using assms(1) by blast+
  have "normalmap d \<noteq> 233" using d(2) by auto
  then show ?thesis using d assms(2,3) by (auto simp: kbd_proc_data_def kbd_key_def Let_def charcode_def caps_def)
qed

text \<open>The cell of a character in the current colour.\<close>

definition shown :: "console \<Rightarrow> u8 \<Rightarrow> u16" where
  "shown k c = ucast (with_color (ucast c) k)"

abbreviation (input) printable :: "u8 \<Rightarrow> bool" where "printable c \<equiv> 32 \<le> c \<and> c \<le> 126"

lemma with_color_char:
  assumes "current_text_color k AND 0xFF = 0"
  shows "with_color (ucast (c :: u8)) k AND 0xFF = ucast c"
proof -
  have m: "(0xFF :: i32) = mask 8" by (simp add: mask_eq_exp_minus_1)
  have u: "ucast c AND (0xFF :: i32) = ucast c"
    unfolding m by (rule bit_word_eqI) (auto simp: bit_and_iff bit_mask_iff bit_ucast_iff dest: bit_imp_le_length)
  have "ucast c AND NOT (0xFF :: i32) = 0"
    unfolding m by (rule bit_word_eqI) (auto simp: bit_and_iff bit_not_iff bit_mask_iff bit_ucast_iff dest: bit_imp_le_length)
  moreover have "(0x700 :: i32) AND 0xFF = 0" by simp
  ultimately show ?thesis using assms u by (simp add: with_color_def bit.conj_disj_distrib2)
qed

lemma put_printable:
  assumes "printable c" and "current_text_color k AND 0xFF = 0" and "unat (crt_pos k) < 1999"
  shows "cell (cputchar k (ucast c)) = (cell k)(unat (crt_pos k) := shown k c) \<and> crt_pos (cputchar k (ucast c)) = crt_pos k + 1
    \<and> current_text_color (cputchar k (ucast c)) = current_text_color k"
proof -
  define j where "j = lpt_putc (ucast c) k"
  have j: "crt_pos j = crt_pos k" "current_text_color j = current_text_color k" "cell j = cell k" "with_color x j = with_color x k" for x
    by (simp_all add: j_def lpt_putc_def cell_def fun_eq_iff with_color_def)
  have ch: "with_color (ucast c) j AND 0xFF = ucast c" using with_color_char assms(2) j(2) by simp
  have ne: "(ucast c :: i32) \<noteq> 8" "(ucast c :: i32) \<noteq> 9" "(ucast c :: i32) \<noteq> 10" "(ucast c :: i32) \<noteq> 13" "(ucast c :: i32) \<noteq> 0xE4" "(ucast c :: i32) \<noteq> 0xE5"
    using assms(1) char_eq [of c 8] char_eq [of c 9] char_eq [of c 10] char_eq [of c 13] char_eq [of c "0xE4"] char_eq [of c "0xE5"]
    by (simp_all, safe, simp_all)
  have up: "unat (crt_pos k + 1) = unat (crt_pos k) + 1" using assms(3) by (simp add: u16_plus)
  have "\<not> 2000 \<le> crt_pos k + 1" using assms(3) up by (simp add: word_le_nat_alt)
  moreover define w where "w = with_color (ucast c) j"
  define h where "h = cga_step w j"
  define i where "i = set_cell (unat (crt_pos j)) (ucast w) (j\<lparr>crt_pos := crt_pos j + 1\<rparr>)"
  have "h = (if 1920 + text_length i < uint (crt_pos i) then i\<lparr>text_length := text_length i + 1\<rparr> else i)"
    using ne ch by (simp add: h_def w_def [symmetric] cga_step_def Let_def i_def)
  then have h: "crt_pos h = crt_pos k + 1" "current_text_color h = current_text_color k" "cell h = (cell k)(unat (crt_pos k) := shown k c)"
    using j by (simp_all add: i_def set_cell_def cell_def shown_def w_def fun_eq_iff)
  ultimately have "scroll h = h" by (simp add: scroll_def)
  moreover have "cputchar k (ucast c) = show_cursor (scroll h)"
    using ne ch by (simp add: cputchar_def cons_putc_def j_def [symmetric] cga_putc_def Let_def w_def [symmetric] cga_char_def h_def)
  ultimately show ?thesis using h by (simp add: show_cursor_def cell_def fun_eq_iff)
qed

lemma foldl_cputchar_text:
  assumes "\<forall>c \<in> set cs. printable c" and "current_text_color k AND 0xFF = 0" and "unat (crt_pos k) + length cs < 2000"
  shows "cell (foldl cputchar k (map ucast cs)) = (\<lambda>j. if unat (crt_pos k) \<le> j \<and> j < unat (crt_pos k) + length cs
      then shown k (cs ! (j - unat (crt_pos k))) else cell k j)
    \<and> unat (crt_pos (foldl cputchar k (map ucast cs))) = unat (crt_pos k) + length cs"
  using assms
proof (induction cs arbitrary: k)
  case (Cons c cs)
  let ?k = "cputchar k (ucast c)"
  have p: "cell ?k = (cell k)(unat (crt_pos k) := shown k c)" "crt_pos ?k = crt_pos k + 1" "current_text_color ?k = current_text_color k"
    using put_printable [of c k] Cons.prems by simp_all
  have up: "unat (crt_pos k + 1) = unat (crt_pos k) + 1" using Cons.prems(3) by (simp add: u16_plus)
  have s: "shown ?k = shown k" using p(3) by (simp add: shown_def with_color_def fun_eq_iff)
  have "unat (crt_pos ?k) + length cs < 2000" using Cons.prems(3) p(2) up by simp
  from Cons.IH [OF _ _ this] show ?case
    using Cons.prems(1,2) by (auto simp: p up s fun_eq_iff nth_Cons')
qed (auto simp: fun_eq_iff)

text \<open>What the kernel prints appears on the screen: printing a text of printable characters that fits the screen puts
  the characters, in the current colour, into the cells from the position of the cursor on, in order, moves the position
  behind them, and leaves every other cell of the screen as it was.\<close>

theorem printed_text_appears:
  assumes "\<forall>c \<in> set cs. printable c \<and> c \<noteq> 37" and "current_text_color k AND 0xFF = 0" and "unat (crt_pos k) + length cs < 2000"
  shows "\<exists>k1. kern_vcprintf cputchar cs ap m k = Inr (word_of_nat (length cs), k1)
    \<and> cell k1 = (\<lambda>j. if unat (crt_pos k) \<le> j \<and> j < unat (crt_pos k) + length cs then shown k (cs ! (j - unat (crt_pos k))) else cell k j)
    \<and> unat (crt_pos k1) = unat (crt_pos k) + length cs"
proof -
  have "put_chars (map (\<lambda>c. Put (ucast c)) cs) = map ucast cs" by (induction cs) simp_all
  moreover have "37 \<notin> set cs" using assms(1) by auto
  ultimately show ?thesis
    using foldl_cputchar_text [of cs k] assms by (simp add: kern_vcprintf_def plain_text)
qed

section \<open>The properties on an example\<close>

definition con_example :: "u8 list \<Rightarrow> console" where
  "con_example codes = \<lparr>serial_exists = False, addr_6845 = CGA_BASE, crt_buf = 0xF00B8000, crt_pos = 1919, text_length = 0,
     current_text_color = 0, kbd_shift = 0, con_buf = (\<lambda>_. 0), rpos = 510, wpos = 510, video = (\<lambda>_ _. 0x720), cga_present = True,
     cursor_reg = 1919, kbd_codes = codes, serial_in = [], lpt_out = []\<rparr>"

lemma con_example_fields [simp]: "serial_exists (con_example cs) = False" "crt_pos (con_example cs) = 1919" "current_text_color (con_example cs) = 0"
  "kbd_shift (con_example cs) = 0" "kbd_codes (con_example cs) = cs" "rpos (con_example cs) = 510" "wpos (con_example cs) = 510"
  by (simp_all add: con_example_def)

lemma con_example_ring [simp]: "ring_ok (con_example cs)" "pending (con_example cs) = []"
  by (simp_all add: ring_ok_def pending_def ring_length_def)

theorem console_ring_fifo_witness:
  "case run_ring ring_write ring_read [Write 97, Write 98, Read, Write 99, Read] (con_example []) of (cs, k1) \<Rightarrow>
     ring_ok k1 \<and> cs @ pending k1 = [97, 98, 99]"
  using console_ring_fifo [of "con_example []" "[Write 97, Write 98, Read, Write 99, Read]"] by (simp split: prod.splits)

theorem output_stays_on_screen_witness:
  "on_screen (cons_putc 10 (con_example [])) \<and> only_screen (con_example []) (cons_putc 10 (con_example []))"
  using output_stays_on_screen [of "con_example []" 10] by (simp add: on_screen_def)

lemma typed_example: "typed (con_example [0x1E, 0x30, 0x0E, 0x2E, 0x1C, 0x2D]) = [97, 98, 8, 99, 10, 120]"
  by (simp add: typed_def kbd_proc_data_def kbd_key_def Let_def shiftcode_def togglecode_def charcode_def normalmap_def
      key_at_def normal_keys_def caps_def)

theorem typed_line_is_read_witness:
  "\<exists>m1 k1. readline 5 0 0x1000 (\<lambda>_. 7) (con_example [0x1E, 0x30, 0x0E, 0x2E, 0x1C, 0x2D]) = Inr (m1, k1)
     \<and> m1 0x1000 = 97 \<and> m1 0x1001 = 99 \<and> m1 0x1002 = 0 \<and> pending k1 = [120]"
proof -
  have e: "edited [97, 98, 8, 99] = [97, 99]" by (simp add: edited_def edit_step_def)
  show ?thesis
    using typed_line_is_read [of "con_example [0x1E, 0x30, 0x0E, 0x2E, 0x1C, 0x2D]" "[97, 98, 8, 99]" 10 "[120]" 5 "0x1000" "\<lambda>_. 7"]
    by (auto simp: typed_example e holds_def less_Suc_eq all_conj_distrib)
qed

theorem letter_keys_witness:
  "kbd_proc_data (con_example [0x1E] \<lparr>kbd_shift := 1\<rparr>) = (65, con_example [] \<lparr>kbd_shift := 1\<rparr>)
   \<and> kbd_proc_data (con_example [0x1E] \<lparr>kbd_shift := 9\<rparr>) = (97, con_example [] \<lparr>kbd_shift := 9\<rparr>)"
proof -
  have "normalmap 0x1E = 97" by (simp add: normalmap_def key_at_def normal_keys_def)
  moreover have "con_example [0x1E] \<lparr>kbd_shift := s, kbd_codes := []\<rparr> = con_example [] \<lparr>kbd_shift := s\<rparr>" for s
    by (simp add: con_example_def)
  ultimately show ?thesis
    using letter_keys [of "0x1E" "con_example [0x1E] \<lparr>kbd_shift := 1\<rparr>" "[]"]
      letter_keys [of "0x1E" "con_example [0x1E] \<lparr>kbd_shift := 9\<rparr>" "[]"]
    by (simp add: letter_codes_def)
qed

theorem printed_text_appears_witness:
  "\<exists>k1. kern_vcprintf cputchar [70, 79, 83] (\<lambda>_. 0) (\<lambda>_. 0) (con_example []) = Inr (3, k1) \<and> cell k1 1920 = 0x74F"
proof -
  have "shown (con_example []) 79 = 0x74F" by (simp add: shown_def with_color_def)
  then show ?thesis using printed_text_appears [of "[70, 79, 83]" "con_example []" "\<lambda>_. 0" "\<lambda>_. 0"] by auto
qed


end
