(* ===== verification/FOS_Syscall.thy ===== *)
theory FOS_Syscall
  imports FOS_Env FOS_Optimal FOS_SchedTurn FOS_Console
begin

text \<open>
  System calls: \<^verbatim>\<open>kern/trap/syscall.c\<close>, the dispatch of \<^verbatim>\<open>kern/trap/trap.c\<close> for them, and the stubs of \<^verbatim>\<open>lib/syscall.c\<close>.  The
  state is the whole kernel with its console.  A call ends by returning a value, or by switching away from a process
  that has exited.  A string argument is read from memory up to its terminating NUL.  The services of \<^verbatim>\<open>kern/tests\<close> that
  some numbers lead to are arguments of the dispatcher; \<open>time_stamp_counter\<close> is what \<open>rdtsc\<close> reads.
\<close>

section \<open>State\<close>

record psys = penv +
  con :: console
  UHeapPlacementStrategy :: u32
  bypassInstrLength :: u8
  fault_address :: u32
  time_stamp_counter :: "64 word"

record tests =
  scarce_memory :: "psys \<Rightarrow> psys res"
  calc_no_pages_tobe_removed :: "u32 \<Rightarrow> psys \<Rightarrow> (u32 \<times> psys) res"
  rsttst :: "psys \<Rightarrow> psys res"
  inctst :: "psys \<Rightarrow> psys res"
  chktst :: "u32 \<Rightarrow> psys \<Rightarrow> psys res"
  gettst :: "psys \<Rightarrow> (u32 \<times> psys) res"
  tst :: "u32 \<Rightarrow> u32 \<Rightarrow> u32 \<Rightarrow> u8 \<Rightarrow> u32 \<Rightarrow> psys \<Rightarrow> psys res"
  check_LRU_lists :: "u32 \<Rightarrow> u32 \<Rightarrow> u32 \<Rightarrow> u32 \<Rightarrow> psys \<Rightarrow> (u32 \<times> psys) res"
  check_LRU_lists_free :: "u32 \<Rightarrow> u32 \<Rightarrow> psys \<Rightarrow> (u32 \<times> psys) res"
  check_WS_list :: "u32 \<Rightarrow> u32 \<Rightarrow> u32 \<Rightarrow> bool \<Rightarrow> psys \<Rightarrow> (u32 \<times> psys) res"
  sys_utilities :: "u8 list \<Rightarrow> u32 \<Rightarrow> psys \<Rightarrow> psys res"

type_synonym outcome = "(ending \<times> u32 \<times> psys) res"

abbreviation (input) E_BAD_ENV_u :: u32 where "E_BAD_ENV_u \<equiv> - 2"
abbreviation (input) E_INVAL_u :: u32 where "E_INVAL_u \<equiv> - 3"
abbreviation (input) E_NO_MEM_u :: u32 where "E_NO_MEM_u \<equiv> - 4"
abbreviation (input) E_ENV_CREATION_ERROR :: u32 where "E_ENV_CREATION_ERROR \<equiv> - 17"
abbreviation (input) TEXT_DEFAULT_CLR :: u32 where "TEXT_DEFAULT_CLR \<equiv> 0x700"
abbreviation (input) tf_eflags_offset :: u32 where "tf_eflags_offset \<equiv> 56"

section \<open>Strings and printing\<close>

partial_function (option) string_from :: "u32 \<Rightarrow> u8 list \<Rightarrow> psys \<Rightarrow> u8 list option" where
  "string_from a acc s = (let c = load_byte a s in if c = 0 then Some acc else string_from (a + 1) (acc @ [c]) s)"

definition user_string :: "u32 \<Rightarrow> psys \<Rightarrow> u8 list res" where
  "user_string a s = (case string_from a [] s of None \<Rightarrow> Inl Spin | Some cs \<Rightarrow> Inr cs)"

definition cprintf :: "u8 list \<Rightarrow> va_list \<Rightarrow> bytes \<Rightarrow> psys \<Rightarrow> psys res" where
  "cprintf fmt ap m s = bindE (kern_cprintf cputchar fmt ap m (kcpu s) (con s)) (\<lambda>(n, c, k). Inr (s\<lparr>kcpu := c, con := k\<rparr>))"

definition set_color :: "i32 \<Rightarrow> psys \<Rightarrow> psys" where
  "set_color c s = s\<lparr>con := (con s)\<lparr>current_text_color := c\<rparr>\<rparr>"

definition args :: "u32 list \<Rightarrow> va_list" where
  "args ws i = (if i < length ws then ws ! i else 0)"

definition no_bytes :: bytes where
  "no_bytes = (\<lambda>_. 0)"

section \<open>Characters\<close>

text \<open>The name of a process is an array of its environment; it is given to \<open>%s\<close> as a memory of its own.\<close>

definition sys_cputs :: "u32 \<Rightarrow> u32 \<Rightarrow> bool \<Rightarrow> i32 \<Rightarrow> psys \<Rightarrow> psys res" where
  "sys_cputs str len printProgName color s = bindE (cpu_env s) (\<lambda>(e, s1).
     let s2 = set_color color (enter_cli s1) in
     bindE (if printProgName then cprintf (map of_char ''[%s %d] '') (args [1, env_id (envs s2 e)]) (put no_bytes 1 (prog_name (envx s2 e))) s2
            else Inr s2) (\<lambda>s3.
     bindE (cprintf (map of_char ''%.*s'') (args [len, str]) (\<lambda>a. load_byte a s3) s3) (\<lambda>s4.
     leave_cli (set_color TEXT_DEFAULT_CLR s4))))"

definition sys_cputc :: "u8 \<Rightarrow> psys \<Rightarrow> psys res" where
  "sys_cputc c s = cprintf (map of_char ''%c'') (args [scast c]) no_bytes s"

text \<open>With interrupts enabled the ring is read, otherwise the devices are; where the code waits for a character, asleep on the
  keyboard channel in the first case and in a loop in the second, the model ends with \<open>Spin\<close>.\<close>

definition sys_cgetc :: "psys \<Rightarrow> (u32 \<times> psys) res" where
  "sys_cgetc s =
     (if int_flag (kcpu s) then (case cons_getc2 (con s) of (c, k) \<Rightarrow> if c = 0 then Inl Spin else Inr (c, s\<lparr>con := k\<rparr>))
      else bindE (cons_getc (con s)) (\<lambda>(c, k). if c = 0 then Inl Spin else Inr (c, s\<lparr>con := k\<rparr>)))"

text \<open>The console is locked by stopping the clock and clearing the interrupt flag, now and in the saved flags of the process.\<close>

definition set_saved_flag :: "bool \<Rightarrow> psys \<Rightarrow> psys res" where
  "set_saved_flag on s =
     (let s1 = s\<lparr>kcpu := cli (kcpu s)\<rparr> in
      bindE (get_cpu_proc s1) (\<lambda>(p, s2). case p of
        None \<Rightarrow> Inl (Panic ''no running process to block'')
      | Some e \<Rightarrow> let a = env_tf (envx s2 e) + tf_eflags_offset
                  in Inr (set_word a (if on then word_at a s2 OR FL_IF else word_at a s2 AND NOT FL_IF) s2)))"

definition cons_lock :: "psys \<Rightarrow> psys res" where
  "cons_lock s = set_saved_flag False s"

definition cons_unlock :: "psys \<Rightarrow> psys res" where
  "cons_unlock s = set_saved_flag True s"

definition sys_lock_cons :: "psys \<Rightarrow> psys res" where
  "sys_lock_cons s = cons_lock s"

definition sys_unlock_cons :: "psys \<Rightarrow> psys res" where
  "sys_unlock_cons s = cons_unlock s"

section \<open>Memory\<close>

definition sys_allocate_page :: "u32 \<Rightarrow> u32 \<Rightarrow> psys \<Rightarrow> (u32 \<times> psys) res" where
  "sys_allocate_page va perm s = bindE (get_cpu_proc s) (\<lambda>(p, s1). case p of
       None \<Rightarrow> Inr (E_BAD_ENV_u, s1)
     | Some e \<Rightarrow>
         if USER_TOP \<le> va \<or> va mod PAGE_SIZE \<noteq> 0 then Inr (E_INVAL_u, s1)
         else if perm AND (NOT PERM_AVAILABLE AND NOT PERM_WRITEABLE) \<noteq> PERM_USER then Inr (E_INVAL_u, s1)
         else bindE (alloc_page kernel_create_page_table (env_page_directory (envs s1 e)) va perm True s1) (\<lambda>(ret, s2).
              if ret = E_NO_MEM_u then Inr (ret, s2) else Inr (0, s2)))"

definition sys_map_frame :: "u32 \<Rightarrow> u32 \<Rightarrow> u32 \<Rightarrow> u32 \<Rightarrow> u32 \<Rightarrow> psys \<Rightarrow> (u32 \<times> psys) res" where
  "sys_map_frame srcenvid srcva dstenvid dstva perm s = Inl (Panic ''sys_map_frame not implemented'')"

definition sys_unmap_frame :: "u32 \<Rightarrow> psys \<Rightarrow> (u32 \<times> psys) res" where
  "sys_unmap_frame va s = bindE (get_cpu_proc s) (\<lambda>(p, s1). case p of
       None \<Rightarrow> Inr (E_BAD_ENV_u, s1)
     | Some e \<Rightarrow>
         if USER_TOP \<le> va \<or> va mod PAGE_SIZE \<noteq> 0 then Inr (E_INVAL_u, s1)
         else bindE (unmap_frame (env_page_directory (envs s1 e)) va s1) (\<lambda>s2. Inr (0, s2)))"

definition sys_calculate_required_frames :: "u32 \<Rightarrow> u32 \<Rightarrow> psys \<Rightarrow> (u32 \<times> psys) res" where
  "sys_calculate_required_frames va sz s = bindE (cpu_env s) (\<lambda>(e, s1). calculate_required_frames (env_page_directory (envs s1 e)) va sz s1)"

definition sys_calculate_free_frames :: "psys \<Rightarrow> (u32 \<times> psys) res" where
  "sys_calculate_free_frames s = bindE (calculate_available_frames s) (\<lambda>(c, s1). Inr (word_of_nat (freeBuffered c + freeNotBuffered c), s1))"

definition sys_calculate_modified_frames :: "psys \<Rightarrow> (u32 \<times> psys) res" where
  "sys_calculate_modified_frames s = bindE (calculate_available_frames s) (\<lambda>(c, s1). Inr (word_of_nat (modified c), s1))"

definition sys_calculate_notmod_frames :: "psys \<Rightarrow> (u32 \<times> psys) res" where
  "sys_calculate_notmod_frames s = bindE (calculate_available_frames s) (\<lambda>(c, s1). Inr (word_of_nat (freeBuffered c), s1))"

fun allocate_frames :: "nat \<Rightarrow> psys \<Rightarrow> psys res" where
  "allocate_frames 0 s = Inr s"
| "allocate_frames (Suc n) s = bindE (allocate_frame s) (\<lambda>(f, s1). allocate_frames n s1)"

definition sys_clearFFL :: "psys \<Rightarrow> psys res" where
  "sys_clearFFL s = bindE (acquire_kspinlock (kcpu s, mfllock s)) (\<lambda>(c, lk).
     let s1 = s\<lparr>kcpu := c, mfllock := lk\<rparr> in
     bindE (allocate_frames (length (free_frame_list s1)) s1) (\<lambda>s2.
     bindE (release_kspinlock (kcpu s2, mfllock s2)) (\<lambda>(c1, lk1). Inr (s2\<lparr>kcpu := c1, mfllock := lk1\<rparr>))))"

definition sys_pf_calculate_allocated_pages :: "psys \<Rightarrow> (u32 \<times> psys) res" where
  "sys_pf_calculate_allocated_pages s = bindE (cpu_env s) (\<lambda>(e, s1). pf_calculate_allocated_pages e s1)"

text \<open>The check of the two calls for the user heap: a bad range ends the process.  Both print the same message.\<close>

definition illegal_range :: "u32 \<Rightarrow> u32 \<Rightarrow> bool" where
  "illegal_range va sz \<longleftrightarrow> va = 0 \<or> USER_HEAP_MAX \<le> va \<or> va < USER_HEAP_START \<or> USER_HEAP_MAX \<le> va + sz \<or> va + sz < USER_HEAP_START"

definition illegal_text :: "u8 list" where
  "illegal_text = 10 # map of_char ''sys_free_user_mem(): ILLEGAL ADDRESS! Process will be terminated...'' @ [10]"

definition check_range :: "u32 \<Rightarrow> u32 \<Rightarrow> psys \<Rightarrow> (ending \<times> psys) res" where
  "check_range va sz s =
     (if illegal_range va sz then bindE (cprintf illegal_text (args []) no_bytes s) (\<lambda>s1. env_exit s1) else Inr (Returns, s))"

definition sys_free_user_mem :: "u32 \<Rightarrow> u32 \<Rightarrow> psys \<Rightarrow> (ending \<times> psys) res" where
  "sys_free_user_mem va sz s = bindE (cpu_env s) (\<lambda>(e, s1).
     bindE (check_range va sz s1) (\<lambda>(en, s2).
     if en \<noteq> Returns then Inr (en, s2)
     else bindE (if isBufferingEnabled s2 \<noteq> 0 then free_user_mem_with_buffering e va sz s2 else free_user_mem e va sz s2) (\<lambda>s3.
          Inr (Returns, s3))))"

definition sys_allocate_user_mem :: "u32 \<Rightarrow> u32 \<Rightarrow> psys \<Rightarrow> (ending \<times> psys) res" where
  "sys_allocate_user_mem va sz s = bindE (cpu_env s) (\<lambda>(e, s1).
     bindE (check_range va sz s1) (\<lambda>(en, s2).
     if en \<noteq> Returns then Inr (en, s2)
     else bindE (allocate_user_mem e va sz s2) (\<lambda>s3. Inr (Returns, s3))))"

definition sys_allocate_chunk :: "u32 \<Rightarrow> u32 \<Rightarrow> u32 \<Rightarrow> psys \<Rightarrow> psys res" where
  "sys_allocate_chunk va sz perms s = bindE (cpu_env s) (\<lambda>(e, s1).
     bindE (allocate_chunk (env_page_directory (envs s1 e)) va sz perms s1) (\<lambda>(r, s2). Inr s2))"

definition sys_move_user_mem :: "u32 \<Rightarrow> u32 \<Rightarrow> u32 \<Rightarrow> psys \<Rightarrow> psys res" where
  "sys_move_user_mem src dst sz s = bindE (cpu_env s) (\<lambda>(e, s1). move_user_mem e src dst sz s1)"

definition sys_get_heap_strategy :: "psys \<Rightarrow> u32" where
  "sys_get_heap_strategy s = UHeapPlacementStrategy s"

definition sys_set_uheap_strategy :: "u32 \<Rightarrow> psys \<Rightarrow> psys" where
  "sys_set_uheap_strategy heapStrategy s = s\<lparr>UHeapPlacementStrategy := heapStrategy\<rparr>"

definition sys_create_shared_object :: "u8 list \<Rightarrow> u32 \<Rightarrow> u8 \<Rightarrow> u32 \<Rightarrow> psys \<Rightarrow> (u32 \<times> psys) res" where
  "sys_create_shared_object name sz isWrit va s = bindE (cpu_env s) (\<lambda>(e, s1). create_shared_object (env_id (envs s1 e)) name sz isWrit va s1)"

definition sys_size_of_shared_object :: "u32 \<Rightarrow> u8 list \<Rightarrow> psys \<Rightarrow> (u32 \<times> psys) res" where
  "sys_size_of_shared_object owner name s = size_of_shared_object owner name s"

definition sys_get_shared_object :: "u32 \<Rightarrow> u8 list \<Rightarrow> u32 \<Rightarrow> psys \<Rightarrow> (u32 \<times> psys) res" where
  "sys_get_shared_object owner name va s = get_shared_object owner name va s"

definition sys_delete_shared_object :: "u32 \<Rightarrow> u32 \<Rightarrow> psys \<Rightarrow> (u32 \<times> psys) res" where
  "sys_delete_shared_object sharedObjectID startVA s = delete_shared_object sharedObjectID startVA s"


section \<open>Environments\<close>

definition sys_getenvid :: "psys \<Rightarrow> (u32 \<times> psys) res" where
  "sys_getenvid s = bindE (cpu_env s) (\<lambda>(e, s1). Inr (env_id (envs s1 e), s1))"

definition sys_getenvindex :: "psys \<Rightarrow> (u32 \<times> psys) res" where
  "sys_getenvindex s = bindE (cpu_env s) (\<lambda>(e, s1). Inr (word_of_nat e, s1))"

definition sys_getparentenvid :: "psys \<Rightarrow> (u32 \<times> psys) res" where
  "sys_getparentenvid s = bindE (cpu_env s) (\<lambda>(e, s1). Inr (env_parent_id (envs s1 e), s1))"

definition exit_message :: "bool \<Rightarrow> u8 list" where
  "exit_message self = (if self then map of_char ''[%08x] exiting gracefully'' else map of_char ''[%08x] destroying %08x'') @ [10]"

definition sys_destroy_env :: "u32 \<Rightarrow> psys \<Rightarrow> outcome" where
  "sys_destroy_env envid s = bindE (cpu_env s) (\<lambda>(cur, s1).
     bindE (if envid = 0 then Inr (0, Some cur, s1) else envid2env envid False s1) (\<lambda>(r, p, s2).
     if sint r < 0 then Inr (Returns, r, s2)
     else case p of
       None \<Rightarrow> Inl Fault
     | Some e \<Rightarrow>
         bindE (cprintf (exit_message (e = cur)) (args [env_id (envs s2 cur), env_id (envs s2 e)]) no_bytes s2) (\<lambda>s3.
         bindE (sched_kill_env (env_id (envs s3 e)) s3) (\<lambda>(en, s4). Inr (en, 0, s4)))))"

definition sys_exit_env :: "psys \<Rightarrow> (ending \<times> psys) res" where
  "sys_exit_env s = env_exit s"

definition sys_create_env :: "u8 list \<Rightarrow> u32 \<Rightarrow> u32 \<Rightarrow> u32 \<Rightarrow> psys \<Rightarrow> (u32 \<times> psys) res" where
  "sys_create_env name page_WS_size LRU_second_list_size percent s =
     bindE (env_create name page_WS_size LRU_second_list_size percent s) (\<lambda>(p, s1). case p of
       None \<Rightarrow> Inr (E_ENV_CREATION_ERROR, s1)
     | Some e \<Rightarrow> bindE (sched_new_env (Some e) s1) (\<lambda>s2. Inr (env_id (envs s2 e), s2)))"

definition sys_run_env :: "u32 \<Rightarrow> psys \<Rightarrow> (ending \<times> psys) res" where
  "sys_run_env envId s = sched_run_env envId s"

text \<open>The working set must hold the pages it was loaded with, in their order.\<close>

fun same_as_prepaged :: "u32 list \<Rightarrow> u32 \<Rightarrow> psys \<Rightarrow> bool" where
  "same_as_prepaged [] p s = True"
| "same_as_prepaged (w # ws) p s =
     (ROUNDDOWN (virtual_address (wse_at s w)) PAGE_SIZE = ROUNDDOWN (word_at p s) PAGE_SIZE \<and> same_as_prepaged ws (p + 4) s)"

definition sys_get_optimal_num_faults :: "psys \<Rightarrow> (u32 \<times> psys) res" where
  "sys_get_optimal_num_faults s = bindE (cpu_env s) (\<lambda>(e, s1).
     if \<not> same_as_prepaged (page_WS_list (envs s1 e)) (prepagedVAs (envx s1 e)) s1
     then Inl (Panic ''page working set is changed during the OPTIMAL replacement while it's not expected to'')
     else bindE (get_optimal_num_faults (page_WS_list (envs s1 e)) (page_WS_max_size (envs s1 e)) (referenceStreamList (envs s1 e)) s1)
            (\<lambda>(n, s2). Inr (word_of_int n, s2)))"

definition sys_get_virtual_time :: "psys \<Rightarrow> u32 \<times> u32" where
  "sys_get_virtual_time s = (ucast (time_stamp_counter s), ucast (drop_bit 32 (time_stamp_counter s)))"

definition sys_rcr2 :: "psys \<Rightarrow> u32" where
  "sys_rcr2 s = fault_address s"

definition sys_bypassPageFault :: "u8 \<Rightarrow> psys \<Rightarrow> psys" where
  "sys_bypassPageFault instrLength s = s\<lparr>bypassInstrLength := instrLength\<rparr>"

section \<open>The dispatcher\<close>

text \<open>The numbers of \<^verbatim>\<open>inc/syscall.h\<close>, in its order.\<close>

datatype call = SYS_cputs | SYS_cputc | SYS_cgetc | SYS_lock_cons | SYS_unlock_cons | SYS_getenvid | SYS_getenvindex | SYS_getparentenvid
  | SYS_allocate_page | SYS_map_frame | SYS_unmap_frame | SYS_calc_req_frames | SYS_calc_free_frames | SYS_calc_modified_frames
  | SYS_calc_notmod_frames | SYS_pf_calc_allocated_pages | SYS_calculate_pages_tobe_removed_ready_exit | SYS_scarce_memory
  | SYS_allocate_chunk_in_mem | SYS_move_user_mem | SYS_clearFFL | SYS_create_shared_object | SYS_get_size_of_shared_object
  | SYS_get_shared_object | SYS_free_shared_object | SYS_create_env | SYS_run_env | SYS_destroy_env | SYS_exit_env | SYS_get_virtual_time
  | SYS_rcr2 | SYS_bypassPageFault | SYS_testNum | SYS_rsttst | SYS_chktst | SYS_inctst | SYS_gettst | SYS_get_heap_strategy
  | SYS_set_heap_strategy | SYS_check_LRU_lists | SYS_check_LRU_lists_free | SYS_check_WS_list | SYS_utilities
  | SYS_get_optimal_num_faults | SYS_allocate_user_mem | SYS_free_user_mem | SYS_env_set_priority

definition calls :: "call list" where
  "calls = [SYS_cputs, SYS_cputc, SYS_cgetc, SYS_lock_cons, SYS_unlock_cons, SYS_getenvid, SYS_getenvindex, SYS_getparentenvid,
     SYS_allocate_page, SYS_map_frame, SYS_unmap_frame, SYS_calc_req_frames, SYS_calc_free_frames, SYS_calc_modified_frames,
     SYS_calc_notmod_frames, SYS_pf_calc_allocated_pages, SYS_calculate_pages_tobe_removed_ready_exit, SYS_scarce_memory,
     SYS_allocate_chunk_in_mem, SYS_move_user_mem, SYS_clearFFL, SYS_create_shared_object, SYS_get_size_of_shared_object,
     SYS_get_shared_object, SYS_free_shared_object, SYS_create_env, SYS_run_env, SYS_destroy_env, SYS_exit_env, SYS_get_virtual_time,
     SYS_rcr2, SYS_bypassPageFault, SYS_testNum, SYS_rsttst, SYS_chktst, SYS_inctst, SYS_gettst, SYS_get_heap_strategy,
     SYS_set_heap_strategy, SYS_check_LRU_lists, SYS_check_LRU_lists_free, SYS_check_WS_list, SYS_utilities,
     SYS_get_optimal_num_faults, SYS_allocate_user_mem, SYS_free_user_mem, SYS_env_set_priority]"

definition value_out :: "(u32 \<times> psys) res \<Rightarrow> outcome" where
  "value_out m = bindE m (\<lambda>(r, s). Inr (Returns, r, s))"

definition done_out :: "psys res \<Rightarrow> outcome" where
  "done_out m = bindE m (\<lambda>s. Inr (Returns, 0, s))"

definition ends_out :: "(ending \<times> psys) res \<Rightarrow> outcome" where
  "ends_out m = bindE m (\<lambda>(en, s). Inr (en, 0, s))"

fun handle :: "tests \<Rightarrow> call \<Rightarrow> u32 \<Rightarrow> u32 \<Rightarrow> u32 \<Rightarrow> u32 \<Rightarrow> u32 \<Rightarrow> psys \<Rightarrow> outcome" where
  "handle t SYS_env_set_priority a1 a2 a3 a4 a5 s = done_out (env_set_priority a1 (sint a2) s)"
| "handle t SYS_allocate_user_mem a1 a2 a3 a4 a5 s = ends_out (sys_allocate_user_mem a1 a2 s)"
| "handle t SYS_free_user_mem a1 a2 a3 a4 a5 s = ends_out (sys_free_user_mem a1 a2 s)"
| "handle t SYS_cputs a1 a2 a3 a4 a5 s = done_out (sys_cputs a1 a2 ((ucast a3 :: u8) \<noteq> 0) a4 s)"
| "handle t SYS_cgetc a1 a2 a3 a4 a5 s = value_out (sys_cgetc s)"
| "handle t SYS_cputc a1 a2 a3 a4 a5 s = done_out (sys_cputc (ucast a1) s)"
| "handle t SYS_lock_cons a1 a2 a3 a4 a5 s = done_out (sys_lock_cons s)"
| "handle t SYS_unlock_cons a1 a2 a3 a4 a5 s = done_out (sys_unlock_cons s)"
| "handle t SYS_calc_req_frames a1 a2 a3 a4 a5 s = value_out (sys_calculate_required_frames a1 a2 s)"
| "handle t SYS_calc_free_frames a1 a2 a3 a4 a5 s = value_out (sys_calculate_free_frames s)"
| "handle t SYS_calc_modified_frames a1 a2 a3 a4 a5 s = value_out (sys_calculate_modified_frames s)"
| "handle t SYS_calc_notmod_frames a1 a2 a3 a4 a5 s = value_out (sys_calculate_notmod_frames s)"
| "handle t SYS_pf_calc_allocated_pages a1 a2 a3 a4 a5 s = value_out (sys_pf_calculate_allocated_pages s)"
| "handle t SYS_calculate_pages_tobe_removed_ready_exit a1 a2 a3 a4 a5 s = value_out (calc_no_pages_tobe_removed t a1 s)"
| "handle t SYS_scarce_memory a1 a2 a3 a4 a5 s = done_out (scarce_memory t s)"
| "handle t SYS_allocate_chunk_in_mem a1 a2 a3 a4 a5 s = done_out (sys_allocate_chunk a1 a2 a3 s)"
| "handle t SYS_allocate_page a1 a2 a3 a4 a5 s = value_out (sys_allocate_page a1 a2 s)"
| "handle t SYS_map_frame a1 a2 a3 a4 a5 s = value_out (bindE (sys_map_frame a1 a2 a3 a4 a5 s) (\<lambda>(r, s1). Inr (0, s1)))"
| "handle t SYS_unmap_frame a1 a2 a3 a4 a5 s = value_out (sys_unmap_frame a1 s)"
| "handle t SYS_clearFFL a1 a2 a3 a4 a5 s = done_out (sys_clearFFL s)"
| "handle t SYS_create_shared_object a1 a2 a3 a4 a5 s =
     value_out (bindE (user_string a1 s) (\<lambda>name. sys_create_shared_object name a2 (ucast a3) a4 s))"
| "handle t SYS_get_shared_object a1 a2 a3 a4 a5 s = value_out (bindE (user_string a2 s) (\<lambda>name. sys_get_shared_object a1 name a3 s))"
| "handle t SYS_free_shared_object a1 a2 a3 a4 a5 s = value_out (sys_delete_shared_object a1 a2 s)"
| "handle t SYS_get_size_of_shared_object a1 a2 a3 a4 a5 s = value_out (bindE (user_string a2 s) (\<lambda>name. sys_size_of_shared_object a1 name s))"
| "handle t SYS_create_env a1 a2 a3 a4 a5 s = value_out (bindE (user_string a1 s) (\<lambda>name. sys_create_env name a2 a3 a4 s))"
| "handle t SYS_run_env a1 a2 a3 a4 a5 s = ends_out (sys_run_env a1 s)"
| "handle t SYS_getenvindex a1 a2 a3 a4 a5 s = value_out (sys_getenvindex s)"
| "handle t SYS_getenvid a1 a2 a3 a4 a5 s = value_out (sys_getenvid s)"
| "handle t SYS_getparentenvid a1 a2 a3 a4 a5 s = value_out (sys_getparentenvid s)"
| "handle t SYS_destroy_env a1 a2 a3 a4 a5 s = sys_destroy_env a1 s"
| "handle t SYS_exit_env a1 a2 a3 a4 a5 s = ends_out (sys_exit_env s)"
| "handle t SYS_get_virtual_time a1 a2 a3 a4 a5 s =
     (case sys_get_virtual_time s of (low, hi) \<Rightarrow> Inr (Returns, 0, set_word a2 hi (set_word a1 low s)))"
| "handle t SYS_move_user_mem a1 a2 a3 a4 a5 s = done_out (sys_move_user_mem a1 a2 a3 s)"
| "handle t SYS_rcr2 a1 a2 a3 a4 a5 s = Inr (Returns, sys_rcr2 s, s)"
| "handle t SYS_bypassPageFault a1 a2 a3 a4 a5 s = Inr (Returns, 0, sys_bypassPageFault (ucast a1) s)"
| "handle t SYS_rsttst a1 a2 a3 a4 a5 s = done_out (rsttst t s)"
| "handle t SYS_inctst a1 a2 a3 a4 a5 s = done_out (inctst t s)"
| "handle t SYS_chktst a1 a2 a3 a4 a5 s = done_out (chktst t a1 s)"
| "handle t SYS_gettst a1 a2 a3 a4 a5 s = value_out (gettst t s)"
| "handle t SYS_testNum a1 a2 a3 a4 a5 s = done_out (tst t a1 a2 a3 (ucast a4) a5 s)"
| "handle t SYS_get_heap_strategy a1 a2 a3 a4 a5 s = Inr (Returns, sys_get_heap_strategy s, s)"
| "handle t SYS_set_heap_strategy a1 a2 a3 a4 a5 s = Inr (Returns, 0, sys_set_uheap_strategy a1 s)"
| "handle t SYS_check_LRU_lists a1 a2 a3 a4 a5 s = value_out (check_LRU_lists t a1 a2 a3 a4 s)"
| "handle t SYS_check_LRU_lists_free a1 a2 a3 a4 a5 s = value_out (check_LRU_lists_free t a1 a2 s)"
| "handle t SYS_check_WS_list a1 a2 a3 a4 a5 s = value_out (check_WS_list t a1 a2 a3 (a4 \<noteq> 0) s)"
| "handle t SYS_utilities a1 a2 a3 a4 a5 s = done_out (bindE (user_string a1 s) (\<lambda>name. sys_utilities t name a2 s))"
| "handle t SYS_get_optimal_num_faults a1 a2 a3 a4 a5 s = value_out (sys_get_optimal_num_faults s)"

text \<open>A number that is not in the list gives \<open>-E_INVAL\<close>, where \<open>E_INVAL\<close> is -3.\<close>

definition syscall :: "tests \<Rightarrow> u32 \<Rightarrow> u32 \<Rightarrow> u32 \<Rightarrow> u32 \<Rightarrow> u32 \<Rightarrow> u32 \<Rightarrow> psys \<Rightarrow> outcome" where
  "syscall t syscallno a1 a2 a3 a4 a5 s = bindE (cpu_env s) (\<lambda>(e, s1).
     if unat syscallno < length calls then handle t (calls ! unat syscallno) a1 a2 a3 a4 a5 s1
     else Inr (Returns, - E_INVAL_u, s1))"


section \<open>Traps\<close>

text \<open>The frame that the entry code pushes lies in memory at \<open>tf\<close>; its words are read and written there.  The handler table
  holds the handlers that the drivers install.  The clock is stopped during a trap, which has no effect in the model.\<close>

datatype irq_handler = Clock | Keyboard | Serial

abbreviation (input) IRQ_OFFSET :: u32 where "IRQ_OFFSET \<equiv> 32"
abbreviation (input) MAX_IRQS :: u32 where "MAX_IRQS \<equiv> 16"
abbreviation (input) T_DBLFLT :: u32 where "T_DBLFLT \<equiv> 8"
abbreviation (input) T_PGFLT :: u32 where "T_PGFLT \<equiv> 14"
abbreviation (input) T_SYSCALL :: u32 where "T_SYSCALL \<equiv> 48"
abbreviation (input) GD_KT :: u16 where "GD_KT \<equiv> 8"

definition tf_trapno :: "u32 \<Rightarrow> psys \<Rightarrow> u32" where "tf_trapno tf s = word_at (tf + 40) s"
definition tf_eflags :: "u32 \<Rightarrow> psys \<Rightarrow> u32" where "tf_eflags tf s = word_at (tf + 56) s"

definition frame_of :: "u32 \<Rightarrow> psys \<Rightarrow> Trapframe" where
  "frame_of tf s = \<lparr>tf_err = word_at (tf + 44) s, tf_eip = word_at (tf + 48) s, tf_cs = ucast (word_at (tf + 52) s)\<rparr>"

type_synonym irq_table = "nat \<Rightarrow> irq_handler option"

definition irq_install_handler :: "nat \<Rightarrow> irq_handler \<Rightarrow> irq_table \<Rightarrow> irq_table" where
  "irq_install_handler irq handler tab = tab(irq := Some handler)"

definition irq_uninstall_handler :: "nat \<Rightarrow> irq_table \<Rightarrow> irq_table" where
  "irq_uninstall_handler irq tab = tab(irq := None)"

definition on_console :: "(console \<Rightarrow> console res) \<Rightarrow> psys \<Rightarrow> psys res" where
  "on_console f s = bindE (f (con s)) (\<lambda>k. Inr (s\<lparr>con := k\<rparr>))"

definition serial_interrupt_handler :: "psys \<Rightarrow> psys res" where
  "serial_interrupt_handler s = bindE (cprintf (10 # map of_char ''serial interrupt'' @ [10]) (args []) no_bytes s) (on_console serial_intr)"

definition irq_dispatch :: "irq_table \<Rightarrow> nat \<Rightarrow> psys \<Rightarrow> (ending \<times> psys) res" where
  "irq_dispatch tab irq s = (case tab irq of
       None \<Rightarrow> Inr (Returns, s)
     | Some Clock \<Rightarrow> clock_interrupt_handler s
     | Some Keyboard \<Rightarrow> bindE (on_console keyboard_interrupt_handler s) (\<lambda>s1. Inr (Returns, s1))
     | Some Serial \<Rightarrow> bindE (serial_interrupt_handler s) (\<lambda>s1. Inr (Returns, s1)))"

definition set_eip :: "u32 \<Rightarrow> u32 \<Rightarrow> psys \<Rightarrow> psys" where
  "set_eip tf v s = set_word (tf + 48) v s"

definition serve_system_call :: "tests \<Rightarrow> u32 \<Rightarrow> psys \<Rightarrow> (ending \<times> psys) res" where
  "serve_system_call t tf s =
     (let s1 = (if tf_eflags tf s AND FL_IF \<noteq> 0 then s\<lparr>kcpu := sti (kcpu s)\<rparr> else s) in
      bindE (syscall t (word_at (tf + 28) s1) (word_at (tf + 20) s1) (word_at (tf + 24) s1) (word_at (tf + 16) s1) (word_at tf s1)
               (word_at (tf + 4) s1) s1) (\<lambda>(en, ret, s2).
      if en \<noteq> Returns then Inr (en, s2)
      else let s3 = set_word (tf + 28) ret s2 in Inr (Returns, if int_flag (kcpu s3) then s3\<lparr>kcpu := cli (kcpu s3)\<rparr> else s3)))"

definition trap_dispatch :: "tests \<Rightarrow> u32 \<Rightarrow> psys \<Rightarrow> (ending \<times> psys) res" where
  "trap_dispatch t tf s =
     (if tf_trapno tf s = T_PGFLT then
        (if bypassInstrLength s \<noteq> 0 then Inr (Returns, set_eip tf (tf_eip (frame_of tf s) + ucast (bypassInstrLength s)) s)
         else bindE (if isPageReplacmentAlgorithmLRU PG_REP_LRU_TIME_APPROX s \<noteq> 0 then update_WS_time_stamps s else Inr s) (\<lambda>s1.
              fault_handler (frame_of tf s1) (fault_address s1) s1))
      else if tf_trapno tf s = T_SYSCALL then serve_system_call t tf s
      else if tf_trapno tf s = T_DBLFLT then Inl (Panic ''double fault!!'')
      else if tf_cs (frame_of tf s) = GD_KT then Inl (Panic ''unhandled trap in kernel'')
      else Inl (Panic ''unhandled trap in user program''))"

definition trap :: "tests \<Rightarrow> irq_table \<Rightarrow> u32 \<Rightarrow> psys \<Rightarrow> (ending \<times> psys) res" where
  "trap t tab tf s =
     (if int_flag (kcpu s) then Inl (Panic ''trap(): interrupt is enabled while it's expected to be disabled'')
      else bindE (get_cpu_proc s) (\<lambda>(p, s1).
        let user = (tf_cs (frame_of tf s1) AND 3 = 3);
            bad = (case p of None \<Rightarrow> True | Some e \<Rightarrow> env_status (envs s1 e) \<noteq> ENV_RUNNING);
            other = (case p of None \<Rightarrow> True | Some e \<Rightarrow> env_tf (envx s1 e) \<noteq> tf)
        in if user \<and> bad then Inl (Panic ''assertion failed'')
           else if user \<and> other then Inl (Panic ''USER TRAP: unexpected trapframe!'')
           else
             bindE (if IRQ_OFFSET \<le> tf_trapno tf s1 \<and> tf_trapno tf s1 < IRQ_OFFSET + MAX_IRQS
                    then irq_dispatch tab (unat (tf_trapno tf s1 - IRQ_OFFSET)) s1 else trap_dispatch t tf s1) (\<lambda>(en, s2).
             if en \<noteq> Returns then Inr (en, s2)
             else if int_flag (kcpu s2) then Inl (Panic ''assertion failed'') else Inr (Returns, s2))))"

section \<open>The stubs of processes\<close>

text \<open>A stub puts the number and five arguments into registers and raises trap 48; the number of a call is its place in the list.\<close>

definition call_number :: "call \<Rightarrow> u32" where
  "call_number c = word_of_nat (length (takeWhile (\<lambda>x. x \<noteq> c) calls))"

definition user_frame :: "u32 \<Rightarrow> call \<Rightarrow> u32 \<Rightarrow> u32 \<Rightarrow> u32 \<Rightarrow> u32 \<Rightarrow> u32 \<Rightarrow> psys \<Rightarrow> bool" where
  "user_frame tf num a1 a2 a3 a4 a5 s \<longleftrightarrow> tf_trapno tf s = T_SYSCALL \<and> word_at (tf + 28) s = call_number num \<and> word_at (tf + 20) s = a1
     \<and> word_at (tf + 24) s = a2 \<and> word_at (tf + 16) s = a3 \<and> word_at tf s = a4 \<and> word_at (tf + 4) s = a5"


text \<open>The stubs themselves: the call they make and its five arguments.  A character is sign-extended into its register.\<close>

type_synonym request = "call \<times> u32 \<times> u32 \<times> u32 \<times> u32 \<times> u32"

definition u_cgetc :: request where "u_cgetc = (SYS_cgetc, 0, 0, 0, 0, 0)"
definition u_lock_cons :: request where "u_lock_cons = (SYS_lock_cons, 0, 0, 0, 0, 0)"
definition u_unlock_cons :: request where "u_unlock_cons = (SYS_unlock_cons, 0, 0, 0, 0, 0)"
definition u_allocate_page :: "u32 \<Rightarrow> i32 \<Rightarrow> request" where "u_allocate_page va perm = (SYS_allocate_page, va, perm, 0, 0, 0)"
definition u_map_frame :: "i32 \<Rightarrow> u32 \<Rightarrow> i32 \<Rightarrow> u32 \<Rightarrow> i32 \<Rightarrow> request" where
  "u_map_frame srcenv srcva dstenv dstva perm = (SYS_map_frame, srcenv, srcva, dstenv, dstva, perm)"
definition u_unmap_frame :: "u32 \<Rightarrow> request" where "u_unmap_frame va = (SYS_unmap_frame, va, 0, 0, 0, 0)"
definition u_calculate_required_frames :: "u32 \<Rightarrow> u32 \<Rightarrow> request" where
  "u_calculate_required_frames start_virtual_address sz = (SYS_calc_req_frames, start_virtual_address, sz, 0, 0, 0)"
definition u_calculate_free_frames :: request where "u_calculate_free_frames = (SYS_calc_free_frames, 0, 0, 0, 0, 0)"
definition u_calculate_modified_frames :: request where "u_calculate_modified_frames = (SYS_calc_modified_frames, 0, 0, 0, 0, 0)"
definition u_calculate_notmod_frames :: request where "u_calculate_notmod_frames = (SYS_calc_notmod_frames, 0, 0, 0, 0, 0)"
definition u_pf_calculate_allocated_pages :: request where
  "u_pf_calculate_allocated_pages = (SYS_pf_calc_allocated_pages, 0, 0, 0, 0, 0)"
definition u_calculate_pages_tobe_removed_ready_exit :: "u32 \<Rightarrow> request" where
  "u_calculate_pages_tobe_removed_ready_exit WS_or_MEMORY_flag = (SYS_calculate_pages_tobe_removed_ready_exit, WS_or_MEMORY_flag, 0, 0, 0, 0)"
definition u_scarce_memory :: request where "u_scarce_memory = (SYS_scarce_memory, 0, 0, 0, 0, 0)"
definition u_clear_ffl :: request where "u_clear_ffl = (SYS_clearFFL, 0, 0, 0, 0, 0)"
definition u_size_of_shared_object :: "i32 \<Rightarrow> u32 \<Rightarrow> request" where
  "u_size_of_shared_object owner shareName = (SYS_get_size_of_shared_object, owner, shareName, 0, 0, 0)"
definition u_delete_shared_object :: "i32 \<Rightarrow> u32 \<Rightarrow> request" where
  "u_delete_shared_object sharedObjectID startVA = (SYS_free_shared_object, sharedObjectID, startVA, 0, 0, 0)"
definition u_create_env :: "u32 \<Rightarrow> u32 \<Rightarrow> u32 \<Rightarrow> u32 \<Rightarrow> request" where
  "u_create_env programName page_WS_size LRU_second_list_size percent =
     (SYS_create_env, programName, page_WS_size, LRU_second_list_size, percent, 0)"
definition u_run_env :: "i32 \<Rightarrow> request" where "u_run_env envId = (SYS_run_env, envId, 0, 0, 0, 0)"
definition u_destroy_env :: "i32 \<Rightarrow> request" where "u_destroy_env envid = (SYS_destroy_env, envid, 0, 0, 0, 0)"
definition u_getenvid :: request where "u_getenvid = (SYS_getenvid, 0, 0, 0, 0, 0)"
definition u_getenvindex :: request where "u_getenvindex = (SYS_getenvindex, 0, 0, 0, 0, 0)"
definition u_getparentenvid :: request where "u_getparentenvid = (SYS_getparentenvid, 0, 0, 0, 0, 0)"
definition u_exit_env :: request where "u_exit_env = (SYS_exit_env, 0, 0, 0, 0, 0)"
definition u_move_user_mem :: "u32 \<Rightarrow> u32 \<Rightarrow> u32 \<Rightarrow> request" where "u_move_user_mem src dst sz = (SYS_move_user_mem, src, dst, sz, 0, 0)"
definition u_rcr2 :: request where "u_rcr2 = (SYS_rcr2, 0, 0, 0, 0, 0)"
definition u_rsttst :: request where "u_rsttst = (SYS_rsttst, 0, 0, 0, 0, 0)"
definition u_chktst :: "u32 \<Rightarrow> request" where "u_chktst n = (SYS_chktst, n, 0, 0, 0, 0)"
definition u_inctst :: request where "u_inctst = (SYS_inctst, 0, 0, 0, 0, 0)"
definition u_gettst :: request where "u_gettst = (SYS_gettst, 0, 0, 0, 0, 0)"
definition u_get_uheap_strategy :: request where "u_get_uheap_strategy = (SYS_get_heap_strategy, 0, 0, 0, 0, 0)"
definition u_set_uheap_strategy :: "u32 \<Rightarrow> request" where "u_set_uheap_strategy heapStrategy = (SYS_set_heap_strategy, heapStrategy, 0, 0, 0, 0)"
definition u_check_LRU_lists :: "u32 \<Rightarrow> u32 \<Rightarrow> i32 \<Rightarrow> i32 \<Rightarrow> request" where
  "u_check_LRU_lists active second active_size second_size = (SYS_check_LRU_lists, active, second, active_size, second_size, 0)"
definition u_check_LRU_lists_free :: "u32 \<Rightarrow> i32 \<Rightarrow> request" where
  "u_check_LRU_lists_free list_content list_size = (SYS_check_LRU_lists_free, list_content, list_size, 0, 0, 0)"
definition u_allocate_chunk :: "u32 \<Rightarrow> u32 \<Rightarrow> u32 \<Rightarrow> request" where "u_allocate_chunk va sz perms = (SYS_allocate_chunk_in_mem, va, sz, perms, 0, 0)"
definition u_utilities :: "u32 \<Rightarrow> i32 \<Rightarrow> request" where "u_utilities utilityName v = (SYS_utilities, utilityName, v, 0, 0, 0)"
definition u_get_optimal_num_faults :: request where "u_get_optimal_num_faults = (SYS_get_optimal_num_faults, 0, 0, 0, 0, 0)"



section \<open>Calls with checked arguments\<close>

lemma con_update_fields [simp]:
  "kcpu (s\<lparr>con := k\<rparr>) = kcpu s" "qlock (s\<lparr>con := k\<rparr>) = qlock s" "envs (s\<lparr>con := k\<rparr>) = envs s" "mem (s\<lparr>con := k\<rparr>) = mem s"
  "cpu_proc (s\<lparr>con := k\<rparr>) = cpu_proc s" "env_ready_queues (s\<lparr>con := k\<rparr>) = env_ready_queues s" "env_new_queue (s\<lparr>con := k\<rparr>) = env_new_queue s"
  "env_exit_queue (s\<lparr>con := k\<rparr>) = env_exit_queue s" "num_of_ready_queues (s\<lparr>con := k\<rparr>) = num_of_ready_queues s" "quantums (s\<lparr>con := k\<rparr>) = quantums s"
  "scheduler_method (s\<lparr>con := k\<rparr>) = scheduler_method s" "EnableBuffering (s\<lparr>con := k\<rparr>) = EnableBuffering s" "nenv (s\<lparr>con := k\<rparr>) = nenv s"
  by simp_all

lemma running_con:
  assumes "running s e" and "own_id s e"
  shows "running (s\<lparr>con := k\<rparr>) e \<and> own_id (s\<lparr>con := k\<rparr>) e"
proof -
  have q: "queued (s\<lparr>con := k\<rparr>) = queued s" by (simp add: queued_def)
  have fit: "env_fit (s\<lparr>con := k\<rparr>) x = env_fit s x" for x by (simp add: env_fit_def)
  have "config_ok (s\<lparr>con := k\<rparr>) = config_ok s" by (rule config_ok_cong) simp_all
  moreover have "queues_ok (s\<lparr>con := k\<rparr>) = queues_ok s" by (simp add: queues_ok_def q fit)
  ultimately show ?thesis using assms by (simp add: running_def own_id_def q fit freeq_def)
qed

lemma cprintf_plain:
  assumes "freeq s" and "37 \<notin> set fmt"
  shows "\<exists>k. cprintf fmt ap m s = Inr (s\<lparr>con := k\<rparr>)"
proof -
  have "popcli (pushcli (kcpu s)) = Inr (kcpu s)" using freeq_cpu [OF assms(1)] by (simp add: popcli_pushcli)
  then have "cprintf fmt ap m s = Inr (s\<lparr>con := foldl cputchar (con s) (put_chars (map (\<lambda>c. Put (ucast c)) fmt))\<rparr>)"
    by (simp add: cprintf_def kern_cprintf_def kern_vcprintf_def plain_text [OF assms(2)])
  then show ?thesis by blast
qed

lemma illegal_text_plain: "37 \<notin> set illegal_text"
  by (simp add: illegal_text_def of_char_def)

lemma cpu_env_running: "running s e \<Longrightarrow> cpu_env s = Inr (e, s)"
  by (simp add: running_def cpu_env_def get_cpu_proc_free)

lemma check_range_refuses:
  assumes "running s e" and "own_id s e" and "illegal_range va sz"
  shows "\<exists>t. check_range va sz s = Inr (Switches, t) \<and> mem t = mem s \<and> env_status (envs t e) = ENV_EXIT \<and> e \<in> set (env_exit_queue t)"
proof -
  have "freeq s" using assms(1) by (simp add: running_def)
  then obtain k where k: "cprintf illegal_text (args []) no_bytes s = Inr (s\<lparr>con := k\<rparr>)" using cprintf_plain illegal_text_plain by blast
  obtain t where "env_exit (s\<lparr>con := k\<rparr>) = Inr (Switches, t)" "env_status (envs t e) = ENV_EXIT"
    "env_exit_queue t = e # env_exit_queue (s\<lparr>con := k\<rparr>)" "mem t = mem (s\<lparr>con := k\<rparr>)"
    using env_exit_ok running_con [OF assms(1,2)] by blast
  then show ?thesis using k assms(3) by (simp add: check_range_def)
qed

text \<open>Claim C22.  The calls for the user heap check their range first: a range inside the heap goes to the chunk operations for
  the calling process; any other range ends the process, which is put into the exit queue, before memory is touched.  For a
  size that does not wrap around, the ranges that pass are exactly those that start in the heap and end strictly
  below its limit: a range that ends exactly at the limit, which \<open>malloc\<close> hands out, ends the process.\<close>

theorem heap_calls_are_checked:
  assumes "running s e" and "own_id s e" and "EnableBuffering s = 0"
  shows "(if illegal_range va sz
      then \<exists>t. sys_allocate_user_mem va sz s = Inr (Switches, t) \<and> sys_free_user_mem va sz s = Inr (Switches, t)
        \<and> mem t = mem s \<and> env_status (envs t e) = ENV_EXIT \<and> e \<in> set (env_exit_queue t)
      else sys_allocate_user_mem va sz s = bindE (allocate_user_mem e va sz s) (\<lambda>s1. Inr (Returns, s1))
        \<and> sys_free_user_mem va sz s = bindE (free_user_mem e va sz s) (\<lambda>s1. Inr (Returns, s1)))
    \<and> (unat va + unat sz < 4294967296 \<longrightarrow>
        illegal_range va sz = (\<not> (USER_HEAP_START \<le> va \<and> unat va + unat sz < unat USER_HEAP_MAX)))"
proof (rule conjI)
  show "if illegal_range va sz
      then \<exists>t. sys_allocate_user_mem va sz s = Inr (Switches, t) \<and> sys_free_user_mem va sz s = Inr (Switches, t)
        \<and> mem t = mem s \<and> env_status (envs t e) = ENV_EXIT \<and> e \<in> set (env_exit_queue t)
      else sys_allocate_user_mem va sz s = bindE (allocate_user_mem e va sz s) (\<lambda>s1. Inr (Returns, s1))
        \<and> sys_free_user_mem va sz s = bindE (free_user_mem e va sz s) (\<lambda>s1. Inr (Returns, s1))"
    using check_range_refuses [OF assms(1,2), of va sz] cpu_env_running [OF assms(1)] assms(3)
    by (auto simp: sys_allocate_user_mem_def sys_free_user_mem_def check_range_def)
  show "unat va + unat sz < 4294967296 \<longrightarrow>
      illegal_range va sz = (\<not> (USER_HEAP_START \<le> va \<and> unat va + unat sz < unat USER_HEAP_MAX))"
    by (auto simp: illegal_range_def word_le_nat_alt word_less_nat_alt unat_u32_plus)
qed

definition noted_cpu :: "psys \<Rightarrow> psys" where
  "noted_cpu s = s\<lparr>kcpu := noted (kcpu s)\<rparr>"

lemma get_cpu_proc_noted: "cpu_ok (kcpu s) \<Longrightarrow> get_cpu_proc s = Inr (cpu_proc s, noted_cpu s)"
  by (simp add: get_cpu_proc_def popcli_pushcli noted_cpu_def)






section \<open>A system call from trap to return\<close>

lemma calls_number: "unat (call_number c) < length calls \<and> calls ! unat (call_number c) = c"
  by (cases c) (simp_all add: call_number_def calls_def)

definition entered :: "u32 \<Rightarrow> psys \<Rightarrow> psys" where
  "entered tf s = (let c = noted (kcpu s) in s\<lparr>kcpu := noted (if tf_eflags tf s AND FL_IF \<noteq> 0 then sti c else c)\<rparr>)"

lemma word_at_kcpu [simp]: "word_at a (s\<lparr>kcpu := c\<rparr>) = word_at a s"
  by (simp add: word_at_def)

lemma frame_kcpu [simp]: "tf_trapno tf (s\<lparr>kcpu := c\<rparr>) = tf_trapno tf s" "tf_eflags tf (s\<lparr>kcpu := c\<rparr>) = tf_eflags tf s"
  "frame_of tf (s\<lparr>kcpu := c\<rparr>) = frame_of tf s"
  by (simp_all add: tf_trapno_def tf_eflags_def frame_of_def)

lemma cpu_ok_sti: "\<lbrakk>cpu_ok c; ncli c = 0\<rbrakk> \<Longrightarrow> cpu_ok (sti c)"
  by (simp add: cpu_ok_def sti_def)

text \<open>Claim C20.  A system call does what its handler does, on the right arguments, and hands the result back: when the running
  process traps with the number and the arguments in its registers, the handler of this number gets exactly these
  arguments, and if it returns, its result is in the register for results, every other word of memory is as the handler
  left it, and the process resumes with interrupts disabled until the frame is restored.\<close>

theorem system_call_returns:
  assumes "cpu_ok (kcpu s)" and "ncli (kcpu s) = 0" and "\<not> int_flag (kcpu s)" and "cpu_proc s = Some e"
    and "env_status (envs s e) = ENV_RUNNING" and "env_tf (envx s e) = tf" and "user_frame tf num a1 a2 a3 a4 a5 s"
    and "handle t num a1 a2 a3 a4 a5 (entered tf s) = Inr (Returns, r, s1)"
  shows "\<exists>s2. trap t tab tf s = Inr (Returns, s2) \<and> word_at (tf + 28) s2 = r \<and> \<not> int_flag (kcpu s2)
    \<and> (\<forall>b. unat b div 4 \<noteq> unat (tf + 28) div 4 \<longrightarrow> word_at b s2 = word_at b s1)"
proof -
  let ?n = "s\<lparr>kcpu := noted (kcpu s)\<rparr>"
  define i where "i = (if tf_eflags tf s AND FL_IF \<noteq> 0 then ?n\<lparr>kcpu := sti (kcpu ?n)\<rparr> else ?n)"
  have g: "get_cpu_proc s = Inr (Some e, ?n)" using assms(1,4) by (simp add: get_cpu_proc_def popcli_pushcli)
  have u: "tf_trapno tf s = 48" "word_at (tf + 28) s = call_number num" "word_at (tf + 20) s = a1" "word_at (tf + 24) s = a2"
    "word_at (tf + 16) s = a3" "word_at tf s = a4" "word_at (tf + 4) s = a5" using assms(7) by (simp_all add: user_frame_def)
  have wi: "word_at a i = word_at a s" for a by (simp add: i_def)
  have ok: "cpu_ok (kcpu i)" using assms(1,2) by (simp add: i_def cpu_ok_sti)
  have "cpu_proc i = Some e" using assms(4) by (simp add: i_def)
  moreover have "i\<lparr>kcpu := noted (kcpu i)\<rparr> = entered tf s" by (simp add: i_def entered_def Let_def)
  ultimately have gi: "get_cpu_proc i = Inr (Some e, entered tf s)"
    using ok by (simp add: get_cpu_proc_def popcli_pushcli)
  have sc: "syscall t (call_number num) a1 a2 a3 a4 a5 i = Inr (Returns, r, s1)"
    using calls_number [of num] assms(8) unfolding syscall_def cpu_env_def gi by simp
  define s3 where "s3 = set_word (tf + 28) r s1"
  have c3: "kcpu s3 = kcpu s1" by (simp add: s3_def)
  define s4 where "s4 = (if int_flag (kcpu s3) then s3\<lparr>kcpu := cli (kcpu s3)\<rparr> else s3)"
  have sv: "serve_system_call t tf ?n = Inr (Returns, s4)"
    unfolding serve_system_call_def Let_def frame_kcpu i_def [symmetric] wi u sc by (simp add: s3_def [symmetric] s4_def c3)
  have cl: "\<not> int_flag (kcpu s4)" by (simp add: s4_def cli_def)
  have "trap t tab tf s = Inr (Returns, s4)"
    using assms(3,5,6) cl by (simp add: trap_def g u trap_dispatch_def sv Let_def)
  moreover have "word_at (tf + 28) s4 = r" by (simp add: s4_def s3_def word_at_set_word)
  moreover have "word_at b s4 = word_at b s1" if "unat b div 4 \<noteq> unat (tf + 28) div 4" for b
    using that by (simp add: s4_def s3_def word_at_set_word)
  ultimately show ?thesis using cl by blast
qed

text \<open>The call that reads the time writes to any address a process names: the two halves of the counter are stored
  without a test, so a process can overwrite any word of the kernel, such as an entry of a page table.\<close>

theorem virtual_time_writes_anywhere:
  assumes "low = ucast (time_stamp_counter s)"
  shows "\<exists>t. handle ts SYS_get_virtual_time a1 a2 0 0 0 s = Inr (Returns, 0, t) \<and> word_at a2 t = ucast (drop_bit 32 (time_stamp_counter s))
    \<and> (unat a1 div 4 \<noteq> unat a2 div 4 \<longrightarrow> word_at a1 t = low)"
  using assms by (simp add: sys_get_virtual_time_def word_at_set_word)

text \<open>A number that names no call gives the result 3 and changes nothing but the note of the interrupt flag: the code
  means to return an error, but \<open>E_INVAL\<close> is negative already and is negated once more.\<close>

theorem unknown_call_returns_three:
  assumes "47 \<le> no" and "cpu_ok (kcpu s)" and "cpu_proc s = Some e"
  shows "syscall ts no a1 a2 a3 a4 a5 s = Inr (Returns, 3, noted_cpu s)"
proof -
  have "\<not> unat no < length calls" using assms(1) by (simp add: calls_def word_le_nat_alt)
  then show ?thesis using get_cpu_proc_noted [OF assms(2)] assms(3) by (simp add: syscall_def cpu_env_def)
qed






section \<open>The text of a process on the screen\<close>

definition bytes_at :: "bytes \<Rightarrow> u32 \<Rightarrow> u8 list \<Rightarrow> bool" where
  "bytes_at m p cs \<longleftrightarrow> (\<forall>i < length cs. m (p + word_of_nat i) = cs ! i)"

lemma bytes_at_Cons: "bytes_at m p (c # cs) \<longleftrightarrow> m p = c \<and> bytes_at m (p + 1) cs"
proof
  assume a: "bytes_at m p (c # cs)"
  have "m (p + 1 + word_of_nat i) = cs ! i" if "i < length cs" for i
    using a that by (auto simp: bytes_at_def add.assoc word_of_nat_Suc_u32 dest: spec [of _ "Suc i"])
  moreover have "m p = c" using a by (auto simp: bytes_at_def dest: spec [of _ 0])
  ultimately show "m p = c \<and> bytes_at m (p + 1) cs" by (simp add: bytes_at_def)
next
  assume a: "m p = c \<and> bytes_at m (p + 1) cs"
  show "bytes_at m p (c # cs)"
    unfolding bytes_at_def
  proof (intro allI impI)
    fix i assume "i < length (c # cs)"
    then show "m (p + word_of_nat i) = (c # cs) ! i"
      using a by (cases i) (auto simp: bytes_at_def word_of_nat_Suc_u32 algebra_simps)
  qed
qed

lemma scast_char_nonzero: "c \<noteq> 0 \<Longrightarrow> (scast (c :: u8) :: i32) \<noteq> 0"
proof
  assume "c \<noteq> 0" and "(scast c :: i32) = 0"
  then have "sint (scast c :: i32) = 0" by simp
  moreover have "sint (scast c :: i32) = sint c" by (rule sint_up_scast) (simp add: is_up)
  ultimately have "sint c = sint (0 :: u8)" by simp
  then have "c = 0" by (rule signed_word_eqI)
  then show False using \<open>c \<noteq> 0\<close> by contradiction
qed

lemma string_loop_bytes:
  "\<lbrakk>bytes_at m p cs; 0 \<notin> set cs\<rbrakk> \<Longrightarrow> string_loop m p (int (length cs)) w False acc = Some (acc @ map scast cs, w - int (length cs))"
proof (induction cs arbitrary: p w acc)
  case Nil
  then show ?case by (subst string_loop.simps) (simp add: Let_def)
next
  case (Cons c cs)
  have c: "m p = c" "bytes_at m (p + 1) cs" "0 \<notin> set cs" "(scast c :: i32) \<noteq> 0"
    using Cons.prems scast_char_nonzero by (auto simp: bytes_at_Cons)
  have "string_loop m p (int (length (c # cs))) w False acc = string_loop m (p + 1) (int (length cs)) (w - 1) False (acc @ [scast c])"
    using c by (subst string_loop.simps) (simp add: Let_def)
  then show ?case using Cons.IH [OF c(2,3), of "w - 1" "acc @ [scast c]"] by simp
qed

lemma print_bounded_text:
  assumes "bytes_at m str cs" and "0 \<notin> set cs" and "length cs < 2147483648" and "str \<noteq> 0"
  shows "vprintfmt m (map of_char ''%.*s'') (args [word_of_nat (length cs), str]) = Inr (map Put (map scast cs))"
proof -
  let ?n = "word_of_nat (length cs) :: u32"
  have n: "sint ?n = int (length cs)"
    using assms(3) by (simp add: sint_uint uint_nat unat_of_nat_u32 signed_take_bit_int_eq_self)
  let ?f = "no_flags\<lparr>width := 0, precision := int (length cs)\<rparr>"
  have esc: "read_escape no_flags [46, 42, 115] (args [?n, str]) = (115, ?f, [], va_shift 1 (args [?n, str]))"
    by (simp add: read_escape.simps(2) no_flags_def process_precision_def args_def n)
  have "print_string m str ?f = Inr (map scast cs)"
    using string_loop_bytes [OF assms(1,2), of 0 "[]"] assms(4) by (simp add: print_string_def Let_def no_flags_def)
  then have "convert m 115 ?f (va_shift 1 (args [?n, str])) = Inr (Some (map Put (map scast cs), va_shift 1 (va_shift 1 (args [?n, str]))))"
    by (simp add: convert_def va_shift_def args_def)
  moreover have "map of_char ''%.*s'' = [37, 46, 42, 115 :: u8]" by (simp add: of_char_def)
  ultimately show ?thesis by (simp add: vprintfmt.simps(2) esc)
qed

lemma scast_printable: "printable c \<Longrightarrow> (scast (c :: u8) :: i32) = ucast c"
proof -
  assume p: "printable c"
  have "\<forall>i \<in> set [32 ..< 127]. (scast (word_of_nat i :: u8) :: i32) = ucast (word_of_nat i :: u8)" by code_simp
  moreover have "unat c \<in> set [32 ..< 127]" using p by (simp only: set_upt atLeastLessThan_iff) (simp add: word_le_nat_alt)
  ultimately have "(scast (word_of_nat (unat c) :: u8) :: i32) = ucast (word_of_nat (unat c) :: u8)" by blast
  then show ?thesis by simp
qed

text \<open>Claim C24.  What a process prints appears on the screen: a batch of printable characters that it hands to \<open>sys_cputs\<close>, without
  the name of the program, is put into the cells from the cursor on, in the colour it asks for, and nothing else on the
  screen changes; the length, and not a terminator, ends the text, and the default colour is restored.\<close>

theorem process_text_appears:
  assumes "freeq s" and "cpu_proc s = Some e" and "bytes_at (\<lambda>a. load_byte a s) str cs" and "\<forall>c \<in> set cs. printable c"
    and "str \<noteq> 0" and "color AND 0xFF = 0" and "unat (crt_pos (con s)) + length cs < 2000"
  shows "\<exists>k. sys_cputs str (word_of_nat (length cs)) False color s = Inr (s\<lparr>con := k\<rparr>)
    \<and> cell k = (\<lambda>j. if unat (crt_pos (con s)) \<le> j \<and> j < unat (crt_pos (con s)) + length cs
        then shown ((con s)\<lparr>current_text_color := color\<rparr>) (cs ! (j - unat (crt_pos (con s)))) else cell (con s) j)
    \<and> unat (crt_pos k) = unat (crt_pos (con s)) + length cs \<and> current_text_color k = TEXT_DEFAULT_CLR"
proof -
  let ?c = "(con s)\<lparr>current_text_color := color\<rparr>" and ?p = "pushcli (kcpu s)"
  let ?k = "foldl cputchar ?c (map ucast cs)"
  have f: "cpu_ok (kcpu s)" "noted (kcpu s) = kcpu s" using freeq_cpu [OF assms(1)] by simp_all
  have pp: "popcli (pushcli ?p) = Inr ?p"
    using pushcli_ok [OF f(1)] by (simp add: popcli_pushcli noted_def)
  have nz: "0 \<notin> set cs" using assms(4) by auto
  define s2 where "s2 = set_color color (enter_cli s)"
  have s2: "kcpu s2 = ?p" "con s2 = ?c" "\<And>a. load_byte a s2 = load_byte a s" "\<And>k. s2\<lparr>con := k\<rparr> = s\<lparr>kcpu := ?p, con := k\<rparr>" "\<And>c k. s2\<lparr>kcpu := c, con := k\<rparr> = s\<lparr>kcpu := c, con := k\<rparr>"
    by (simp_all add: s2_def set_color_def enter_cli_def load_byte_def word_at_def)
  have "vprintfmt (\<lambda>a. load_byte a s2) (map of_char ''%.*s'') (args [word_of_nat (length cs), str]) = Inr (map Put (map scast cs))"
    using print_bounded_text [of "\<lambda>a. load_byte a s2" str cs] assms(3,5,7) nz s2(3) by simp
  moreover have "map scast cs = (map ucast cs :: i32 list)" using assms(4) scast_printable by (intro map_cong) auto
  ultimately have v: "vprintfmt (\<lambda>a. load_byte a s2) (map of_char ''%.*s'') (args [word_of_nat (length cs), str]) = Inr (map Put (map ucast cs))"
    by (simp only:)
  have p: "cprintf (map of_char ''%.*s'') (args [word_of_nat (length cs), str]) (\<lambda>a. load_byte a s2) s2 = Inr (s2\<lparr>con := ?k\<rparr>)"
    unfolding cprintf_def kern_cprintf_def kern_vcprintf_def v s2(1,2) by (simp add: pp s2(4,5) del: map_map)
  have l: "leave_cli (set_color TEXT_DEFAULT_CLR (s2\<lparr>con := ?k\<rparr>)) = Inr (s\<lparr>con := ?k\<lparr>current_text_color := TEXT_DEFAULT_CLR\<rparr>\<rparr>)"
    using f by (simp add: leave_cli_def set_color_def s2(4) popcli_pushcli)
  have "cpu_env s = Inr (e, s)" using assms(1,2) by (simp add: cpu_env_def get_cpu_proc_free)
  then have "sys_cputs str (word_of_nat (length cs)) False color s = Inr (s\<lparr>con := ?k\<lparr>current_text_color := TEXT_DEFAULT_CLR\<rparr>\<rparr>)"
    using p l by (simp add: sys_cputs_def Let_def s2_def [symmetric])
  moreover have "cell (?k\<lparr>current_text_color := TEXT_DEFAULT_CLR\<rparr>) = cell ?k" by (simp add: cell_def fun_eq_iff)
  moreover have "cell ?c = cell (con s)" by (simp add: cell_def fun_eq_iff)
  ultimately show ?thesis
    using foldl_cputchar_text [of cs ?c] assms(4,6,7) by (intro exI [of _ "?k\<lparr>current_text_color := TEXT_DEFAULT_CLR\<rparr>"])
      (simp cong: if_cong cong del: if_weak_cong)
qed


section \<open>A concrete kernel\<close>

text \<open>Process 1 runs and asks for its own number; the two characters of ''hi'' lie at \<open>0x800000\<close>.\<close>

definition psys_example :: "bool \<Rightarrow> psys" where
  "psys_example fl = (penv.extend env_example (psys.fields (con_example []) 5 0 0 0x500000007))
     \<lparr>kcpu := \<lparr>cpu_id = 0, ncli = 0, intena = fl, int_flag = fl\<rparr>, cpu_proc := Some 1, qlock := unlocked, envs := ex_envs 0,
      env_new_queue := [6], env_exit_queue := [], env_ready_queues := [[3, 2]], quantums := [10], num_of_ready_queues := 1,
      scheduler_method := SCH_RR, EnableBuffering := 0,
      mem := (\<lambda>p i. if p = 0xF6007000 \<and> i = 1014 then 5 else if p = 0xF6007000 \<and> i = 1017 then 48
               else if p = 0x800000 \<and> i = 0 then 0x6968 else 0)\<rparr>"

definition no_tests :: tests where
  "no_tests = \<lparr>scarce_memory = Inr, calc_no_pages_tobe_removed = (\<lambda>_ s. Inr (0, s)), rsttst = Inr, inctst = Inr, chktst = (\<lambda>_. Inr),
     gettst = (\<lambda>s. Inr (0, s)), tst = (\<lambda>_ _ _ _ _. Inr), check_LRU_lists = (\<lambda>_ _ _ _ s. Inr (0, s)),
     check_LRU_lists_free = (\<lambda>_ _ s. Inr (0, s)), check_WS_list = (\<lambda>_ _ _ _ s. Inr (0, s)), sys_utilities = (\<lambda>_ _. Inr)\<rparr>"

lemma psys_example_fields [simp]:
  "kcpu (psys_example fl) = \<lparr>cpu_id = 0, ncli = 0, intena = fl, int_flag = fl\<rparr>" "qlock (psys_example fl) = unlocked"
  "cpu_proc (psys_example fl) = Some 1" "envs (psys_example fl) = ex_envs 0" "env_new_queue (psys_example fl) = [6]"
  "env_exit_queue (psys_example fl) = []" "env_ready_queues (psys_example fl) = [[3, 2]]" "quantums (psys_example fl) = [10]"
  "num_of_ready_queues (psys_example fl) = 1" "scheduler_method (psys_example fl) = SCH_RR" "EnableBuffering (psys_example fl) = 0"
  "env_tf (envx (psys_example fl) e) = 0xF6007FBC" "con (psys_example fl) = con_example []"
  "time_stamp_counter (psys_example fl) = 0x500000007"
  "mem (psys_example fl) = (\<lambda>p i. if p = 0xF6007000 \<and> i = 1014 then 5 else if p = 0xF6007000 \<and> i = 1017 then 48
               else if p = 0x800000 \<and> i = 0 then 0x6968 else 0)"
  by (simp_all add: psys_example_def env_example_def share_example_unfold penv.defs psys.defs zero_EnvX_def)

lemma psys_example_freeq: "freeq (psys_example fl)"
  by (simp add: freeq_def)

lemma psys_example_cpu: "cpu_ok (kcpu (psys_example fl))"
  by (simp add: cpu_ok_def)

lemma psys_example_running: "running (psys_example fl) 1" "own_id (psys_example fl) 1"
  by (auto simp: running_def own_id_def psys_example_freeq config_ok_def queues_ok_def queued_def env_fit_def ex_envs_def ex_env_def)

theorem heap_calls_are_checked_witness:
  "\<exists>t. sys_allocate_user_mem 0x10 4096 (psys_example True) = Inr (Switches, t) \<and> env_status (envs t 1) = ENV_EXIT"
proof -
  have "illegal_range 0x10 4096" by (simp add: illegal_range_def)
  then show ?thesis using heap_calls_are_checked [of "psys_example True" 1 "0x10" 4096] psys_example_running [of True] by auto
qed


theorem virtual_time_writes_anywhere_witness:
  "\<exists>t. handle no_tests SYS_get_virtual_time 0xEFBFD000 0xF0100000 0 0 0 (psys_example True) = Inr (Returns, 0, t)
    \<and> word_at 0xF0100000 t = 5"
  using virtual_time_writes_anywhere [of 7 "psys_example True" no_tests "0xEFBFD000" "0xF0100000"] by auto

theorem unknown_call_returns_three_witness:
  "syscall no_tests 47 1 2 3 4 5 (psys_example True) = Inr (Returns, 3, noted_cpu (psys_example True))"
  by (rule unknown_call_returns_three [of _ _ 1]) (simp_all add: cpu_ok_def)

lemma psys_example_frame: "user_frame 0xF6007FBC SYS_getenvid 0 0 0 0 0 (psys_example fl)"
  by (simp add: user_frame_def tf_trapno_def word_at_def call_number_def calls_def ROUNDDOWN_def)

theorem system_call_returns_witness:
  "\<exists>s2. trap no_tests (\<lambda>_. None) 0xF6007FBC (psys_example False) = Inr (Returns, s2) \<and> word_at 0xF6007FD8 s2 = env_id (ex_envs 0 1)"
proof -
  let ?s = "entered 0xF6007FBC (psys_example False)"
  have e: "?s = psys_example False"
    by (simp add: entered_def tf_eflags_def word_at_def noted_def ROUNDDOWN_def)
  have n: "noted_cpu (psys_example False) = psys_example False" by (simp add: noted_cpu_def noted_def)
  have "get_cpu_proc (psys_example False) = Inr (Some 1, psys_example False)"
    using get_cpu_proc_noted [OF psys_example_cpu] n by simp
  then have "handle no_tests SYS_getenvid 0 0 0 0 0 ?s = Inr (Returns, env_id (ex_envs 0 1), psys_example False)"
    by (simp add: e value_out_def sys_getenvid_def cpu_env_def)
  then have "\<exists>s2. trap no_tests (\<lambda>_. None) 0xF6007FBC (psys_example False) = Inr (Returns, s2) \<and> word_at (0xF6007FBC + 28) s2 = env_id (ex_envs 0 1)
    \<and> \<not> int_flag (kcpu s2) \<and> (\<forall>b. unat b div 4 \<noteq> unat (0xF6007FBC + 28 :: u32) div 4 \<longrightarrow> word_at b s2 = word_at b (psys_example False))"
    by (intro system_call_returns [OF _ _ _ _ _ _ psys_example_frame]) (simp_all add: cpu_ok_def ex_envs_def ex_env_def)
  then show ?thesis by auto
qed

theorem process_text_appears_witness:
  "\<exists>k. sys_cputs 0x800000 2 False 0x700 (psys_example True) = Inr ((psys_example True)\<lparr>con := k\<rparr>)
    \<and> cell k 1920 = shown ((con_example [])\<lparr>current_text_color := 0x700\<rparr>) 105"
proof -
  have "bytes_at (\<lambda>a. load_byte a (psys_example True)) 0x800000 [104, 105]"
    by (simp add: bytes_at_Cons load_byte_def word_at_def ROUNDDOWN_def) (simp add: bytes_at_def)
  then show ?thesis
    using process_text_appears [OF psys_example_freeq, of True 1 "0x800000" "[104, 105]" "0x700"] by auto
qed



end
