(* ===== verification/FOS_Fixed.thy ===== *)
theory FOS_Fixed
  imports FOS_Prelude "HOL-Library.Signed_Division"
begin

text \<open>
  Fixed-point arithmetic: \<^verbatim>\<open>inc/fixed_point.h\<close>.  A number holds its value times \<open>2 ^ 14\<close> in an \<open>int\<close>.  Arithmetic on
  \<open>int\<close> wraps around, as the compiled code does; intermediate results of type \<open>long long\<close> never overflow, so they are
  integers that are cut to 32 bits at the end.  Division truncates towards zero.  A failed assertion panics, and a
  division by zero, or of the least \<open>int\<close> by -1, is a fault of the processor.
\<close>

section \<open>Definitions\<close>

abbreviation (input) FIX_P :: nat where "FIX_P \<equiv> 17"
abbreviation (input) FIX_Q :: nat where "FIX_Q \<equiv> 14"
definition FIX_F :: i32 where "FIX_F = push_bit FIX_Q 1"
definition FIX_MAX_INT :: i32 where "FIX_MAX_INT = push_bit FIX_P 1 - 1"
definition FIX_MIN_INT :: i32 where "FIX_MIN_INT = - FIX_MAX_INT"

record fixed_point_t =
  fx :: i32

definition mk_fix :: "i32 \<Rightarrow> fixed_point_t" where
  "mk_fix v = \<lparr>fx = v\<rparr>"

text \<open>The quotient of two values of type \<open>int\<close>, and of two of type \<open>long long\<close> that is cut to an \<open>int\<close>.\<close>

definition int_div :: "i32 \<Rightarrow> i32 \<Rightarrow> i32 res" where
  "int_div a b = (if b = 0 \<or> (sint a = - 2147483648 \<and> sint b = - 1) then Inl Fault else Inr (word_of_int (sint a sdiv sint b)))"

definition long_div :: "int \<Rightarrow> int \<Rightarrow> i32 res" where
  "long_div a b = (if b = 0 then Inl Fault else Inr (word_of_int (a sdiv b)))"

definition fix_int :: "i32 \<Rightarrow> fixed_point_t res" where
  "fix_int n = (if sint FIX_MIN_INT \<le> sint n \<and> sint n \<le> sint FIX_MAX_INT then Inr (mk_fix (n * FIX_F)) else Inl (Panic ''assertion failed''))"

definition fix_frac :: "i32 \<Rightarrow> i32 \<Rightarrow> fixed_point_t res" where
  "fix_frac n d =
     (if d = 0 then Inl (Panic ''assertion failed'')
      else bindE (int_div n d) (\<lambda>q.
        if sint FIX_MIN_INT \<le> sint q \<and> sint q \<le> sint FIX_MAX_INT
        then bindE (long_div (sint n * sint FIX_F) (sint d)) (\<lambda>v. Inr (mk_fix v))
        else Inl (Panic ''assertion failed'')))"

definition fix_round :: "fixed_point_t \<Rightarrow> i32 res" where
  "fix_round x = (if 0 \<le> sint (fx x) then int_div (fx x + 8192) FIX_F else int_div (fx x - 8192) FIX_F)"

definition fix_trunc :: "fixed_point_t \<Rightarrow> i32 res" where
  "fix_trunc x = int_div (fx x) FIX_F"

definition fix_add :: "fixed_point_t \<Rightarrow> fixed_point_t \<Rightarrow> fixed_point_t" where
  "fix_add x y = mk_fix (fx x + fx y)"

definition fix_sub :: "fixed_point_t \<Rightarrow> fixed_point_t \<Rightarrow> fixed_point_t" where
  "fix_sub x y = mk_fix (fx x - fx y)"

definition fix_mul :: "fixed_point_t \<Rightarrow> fixed_point_t \<Rightarrow> fixed_point_t res" where
  "fix_mul x y = bindE (long_div (sint (fx x) * sint (fx y)) (sint FIX_F)) (\<lambda>v. Inr (mk_fix v))"

definition fix_scale :: "fixed_point_t \<Rightarrow> i32 \<Rightarrow> fixed_point_t res" where
  "fix_scale x n = (if 0 \<le> sint n then Inr (mk_fix (fx x * n)) else Inl (Panic ''assertion failed''))"

definition fix_div :: "fixed_point_t \<Rightarrow> fixed_point_t \<Rightarrow> fixed_point_t res" where
  "fix_div x y = bindE (long_div (sint (fx x) * sint FIX_F) (sint (fx y))) (\<lambda>v. Inr (mk_fix v))"

definition fix_unscale :: "fixed_point_t \<Rightarrow> i32 \<Rightarrow> fixed_point_t res" where
  "fix_unscale x n = (if 0 < sint n then bindE (int_div (fx x) n) (\<lambda>v. Inr (mk_fix v)) else Inl (Panic ''assertion failed''))"

definition fix_inv :: "fixed_point_t \<Rightarrow> fixed_point_t res" where
  "fix_inv x = bindE (fix_int 1) (\<lambda>one. fix_div one x)"

definition fix_compare :: "fixed_point_t \<Rightarrow> fixed_point_t \<Rightarrow> i32" where
  "fix_compare x y = (if sint (fx x) < sint (fx y) then - 1 else of_bool (sint (fx y) < sint (fx x)))"

section \<open>Truncating division\<close>

lemma fix_consts [simp]: "sint FIX_F = 16384" "FIX_F = 16384" "FIX_F \<noteq> 0" "sint FIX_MAX_INT = 131071" "sint FIX_MIN_INT = - 131071"
  by (simp_all add: FIX_F_def FIX_MAX_INT_def FIX_MIN_INT_def sint_uint push_bit_eq_mult signed_take_bit_numeral_minus_bit1)

lemma sint_of_int: "\<lbrakk>- 2147483648 \<le> v; v < 2147483648\<rbrakk> \<Longrightarrow> sint (word_of_int v :: i32) = v"
  by (simp add: signed_of_int signed_take_bit_int_eq_self)

lemma sint_range_i32: "- 2147483648 \<le> sint (x :: i32)" "sint (x :: i32) < 2147483648"
  using sint_greater_eq [of x] sint_less [of x] by simp_all

lemma sdiv_near: "b \<noteq> 0 \<Longrightarrow> \<bar>a - (a sdiv b) * b\<bar> < \<bar>b\<bar>" for a b :: int
  using smod_int_range [of b a] by (simp add: minus_sdiv_mult_eq_smod abs_if split: if_splits)

lemma abs_sdiv: "\<bar>a sdiv b\<bar> = \<bar>a\<bar> div \<bar>b\<bar>" for a b :: int
proof (cases "a = 0 \<or> b = 0")
  case False
  then have "\<bar>sgn a\<bar> = 1 \<and> \<bar>sgn b\<bar> = 1" by simp
  moreover have "0 \<le> \<bar>a\<bar> div \<bar>b\<bar>" using False by (simp add: pos_imp_zdiv_nonneg_iff)
  ultimately show ?thesis by (simp add: signed_divide_int_def abs_mult)
qed (auto simp: signed_divide_int_def)

lemma int_div_less:
  fixes k m n :: int
  assumes "0 < k"
  shows "m div k < n \<longleftrightarrow> m < n * k"
proof
  assume "m div k < n"
  then have "(m div k + 1) * k \<le> n * k" using assms by (intro mult_right_mono) simp_all
  then have "m div k * k + k \<le> n * k" by (simp only: distrib_right mult_1)
  then show "m < n * k" using pos_mod_bound [OF assms, of m] div_mult_mod_eq [of m k] by linarith
next
  assume m: "m < n * k"
  show "m div k < n"
  proof (rule ccontr)
    assume "\<not> m div k < n"
    then have "n * k \<le> m div k * k" using assms by (intro mult_right_mono) simp_all
    then show False using m pos_mod_sign [OF assms, of m] div_mult_mod_eq [of m k] by linarith
  qed
qed

lemma sdiv_bound:
  fixes a b c :: int
  assumes "b \<noteq> 0" and "\<bar>a\<bar> < c * \<bar>b\<bar>"
  shows "\<bar>a sdiv b\<bar> < c"
proof -
  have "0 < \<bar>b\<bar>" using assms(1) by simp
  from int_div_less [OF this, of "\<bar>a\<bar>" c] have "\<bar>a\<bar> div \<bar>b\<bar> < c" using assms(2) by blast
  then show ?thesis by (simp add: abs_sdiv)
qed

lemma sdiv_bound_converse:
  fixes a b c :: int
  assumes "b \<noteq> 0" and "\<bar>a sdiv b\<bar> < c"
  shows "\<bar>a\<bar> < c * \<bar>b\<bar>"
proof -
  have "0 < \<bar>b\<bar>" using assms(1) by simp
  from int_div_less [OF this, of "\<bar>a\<bar>" c] show ?thesis using assms(2) by (simp add: abs_sdiv)
qed

lemma int_div_F: "int_div a 16384 = Inr (word_of_int (sint a sdiv 16384))"
  by (simp add: int_div_def)

lemma sint_div_F: "sint (word_of_int (sint (a :: i32) sdiv 16384) :: i32) = sint a sdiv 16384"
proof -
  have "\<bar>sint a sdiv 16384\<bar> < 131073" using sint_range_i32 [of a] by (intro sdiv_bound) auto
  then show ?thesis by (intro sint_of_int) auto
qed

lemma sint_plus: "\<lbrakk>- 2147483648 \<le> sint x + sint y; sint x + sint y < 2147483648\<rbrakk> \<Longrightarrow> sint (x + y) = sint x + sint y" for x y :: i32
  using sint_of_int [of "sint x + sint y"] by (simp add: of_int_add)

section \<open>Integers\<close>

lemma fix_int_value: "\<bar>sint n\<bar> \<le> 131071 \<Longrightarrow> \<exists>x. fix_int n = Inr x \<and> sint (fx x) = sint n * 16384"
  using sint_of_int [of "sint n * 16384"] by (auto simp: fix_int_def mk_fix_def abs_le_iff)

lemma sdiv_exact: "(n * 16384) sdiv 16384 = n" for n :: int
  using sdiv_near [of 16384 "n * 16384"] by simp

lemma sdiv_rounded: "\<lbrakk>0 \<le> n\<rbrakk> \<Longrightarrow> (n * 16384 + 8192) sdiv 16384 = n" "\<lbrakk>n \<le> 0\<rbrakk> \<Longrightarrow> (n * 16384 - 8192) sdiv 16384 = n" for n :: int
proof -
  assume "0 \<le> n"
  then show "(n * 16384 + 8192) sdiv 16384 = n" by (simp add: signed_divide_int_eq_divide_int)
next
  assume "n \<le> 0"
  then have "(- n * 16384 + 8192) sdiv 16384 = - n" by (simp add: signed_divide_int_eq_divide_int)
  moreover have "n * 16384 - 8192 = - (- n * 16384 + 8192)" by simp
  ultimately show "(n * 16384 - 8192) sdiv 16384 = n" by (simp only: minus_sdiv_eq)
qed

text \<open>Rounding to the nearest integer, and where the addition of a half overflows.\<close>

lemma fix_round_value:
  assumes "\<bar>sint (fx x)\<bar> < 2147475456"
  shows "\<exists>r. fix_round x = Inr r \<and> sint r = (if 0 \<le> sint (fx x) then sint (fx x) + 8192 else sint (fx x) - 8192) sdiv 16384"
proof (cases "0 \<le> sint (fx x)")
  case True
  have "sint (fx x + 8192) = sint (fx x) + 8192" using sint_plus [of "fx x" 8192] True assms by simp
  then show ?thesis using True sint_div_F [of "fx x + 8192"] by (simp add: fix_round_def int_div_F)
next
  case False
  have "sint (fx x + (- 8192)) = sint (fx x) - 8192" using sint_plus [of "fx x" "- 8192"] False assms by simp
  then show ?thesis using False sint_div_F [of "fx x - 8192"] by (simp add: fix_round_def int_div_F)
qed

text \<open>An integer of at most 17 bits survives the way into a fixed-point number and back, by truncation and by
  rounding; any other one is refused by an assertion.\<close>

theorem fixed_point_integers:
  "(if \<bar>sint n\<bar> \<le> 131071 then \<exists>x. fix_int n = Inr x \<and> fix_trunc x = Inr n \<and> fix_round x = Inr n
    else fix_int n = Inl (Panic ''assertion failed''))"
proof (cases "\<bar>sint n\<bar> \<le> 131071")
  case True
  then obtain x where x: "fix_int n = Inr x" "sint (fx x) = sint n * 16384" using fix_int_value by blast
  have "fix_trunc x = Inr n" by (simp add: fix_trunc_def int_div_F x(2) sdiv_exact)
  moreover have "\<bar>sint (fx x)\<bar> < 2147475456" using True x(2) by auto
  then obtain r where r: "fix_round x = Inr r" "sint r = (if 0 \<le> sint (fx x) then sint (fx x) + 8192 else sint (fx x) - 8192) sdiv 16384"
    using fix_round_value by blast
  have "sint r = sint n" using sdiv_rounded [of "sint n"] by (simp add: r(2) x(2))
  then have "fix_round x = Inr n" using r(1) by (simp add: signed_word_eqI)
  ultimately show ?thesis using True x(1) by auto
next
  case False
  then show ?thesis by (auto simp: fix_int_def)
qed

section \<open>Accuracy\<close>

lemma long_div_value:
  assumes "b \<noteq> 0" and "\<bar>a\<bar> < 2147483648 * \<bar>b\<bar>"
  shows "\<exists>v. long_div a b = Inr v \<and> \<bar>a - sint v * b\<bar> < \<bar>b\<bar>"
proof -
  have "sint (word_of_int (a sdiv b) :: i32) = a sdiv b" using sdiv_bound [OF assms] by (intro sint_of_int) auto
  then show ?thesis using assms(1) sdiv_near [OF assms(1), of a] by (simp add: long_div_def)
qed

lemma nonzero_sint: "d \<noteq> 0 \<Longrightarrow> sint (d :: i32) \<noteq> 0"
  using signed_word_eqI [of d 0] by auto

lemma nearest: "2 * \<bar>a - ((if 0 \<le> a then a + 8192 else a - 8192) sdiv 16384) * 16384\<bar> \<le> 16384" for a :: int
proof (cases "0 \<le> a")
  case True
  then have "(a + 8192) sdiv 16384 = (a + 8192) div 16384" by (simp add: signed_divide_int_eq_divide_int)
  then show ?thesis using True by simp
next
  case False
  have "(a - 8192) sdiv 16384 = - ((- a + 8192) sdiv 16384)" using minus_sdiv_eq [of "- a + 8192" 16384] by simp
  also have "\<dots> = - ((- a + 8192) div 16384)" using False by (simp add: signed_divide_int_eq_divide_int)
  finally show ?thesis using False by simp
qed

lemma quotient_fits:
  fixes n d :: i32
  assumes "d \<noteq> 0" and "\<not> (sint n = - 2147483648 \<and> sint d = - 1)"
  shows "- 2147483648 \<le> sint n sdiv sint d \<and> sint n sdiv sint d < 2147483648"
proof (cases "sint d = - 1")
  case True
  then show ?thesis using assms(2) sint_range_i32 [of n] by simp
next
  case False
  have "\<bar>sint n sdiv sint d\<bar> < 2147483648" if "sint d \<noteq> 1"
  proof (rule sdiv_bound [OF nonzero_sint [OF assms(1)]])
    have "2 \<le> \<bar>sint d\<bar>" using that False nonzero_sint [OF assms(1)] by auto
    then show "\<bar>sint n\<bar> < 2147483648 * \<bar>sint d\<bar>" using sint_range_i32 [of n] by auto
  qed
  then show ?thesis using sint_range_i32 [of n] by (cases "sint d = 1") auto
qed

lemma frac_guard:
  assumes "fix_frac n d = Inr z"
  shows "d \<noteq> 0 \<and> \<bar>sint n sdiv sint d\<bar> \<le> 131071 \<and> (\<exists>v. long_div (sint n * 16384) (sint d) = Inr v \<and> z = mk_fix v)"
proof -
  have d: "d \<noteq> 0" using assms by (auto simp: fix_frac_def)
  then obtain q where q: "int_div n d = Inr q" "\<not> (sint n = - 2147483648 \<and> sint d = - 1)" "q = word_of_int (sint n sdiv sint d)"
    using assms by (auto simp: fix_frac_def int_div_def split: if_splits)
  have "sint q = sint n sdiv sint d"
    using q(2,3) d quotient_fits [of d n] by (simp add: sint_of_int)
  then show ?thesis using assms d q(1) by (auto simp: fix_frac_def bindE_eq_Inr_iff split: if_splits)
qed

text \<open>Claim C19.  Products, quotients and fractions are exact up to the last bit: where the result fits, the fixed-point number
  differs from the exact value by less than \<open>2 ^ - 14\<close>, and a fraction that passes the assertions always fits.  Rounding is to
  the nearest integer as long as adding a half does not overflow; from there on it gives a negative number.\<close>

theorem fixed_point_accuracy:
  "(\<bar>sint (fx x) * sint (fx y)\<bar> < 2147483648 * 16384 \<longrightarrow>
      (\<exists>z. fix_mul x y = Inr z \<and> \<bar>sint (fx x) * sint (fx y) - sint (fx z) * 16384\<bar> < 16384))
    \<and> (fx y \<noteq> 0 \<and> \<bar>sint (fx x) * 16384\<bar> < 2147483648 * \<bar>sint (fx y)\<bar> \<longrightarrow>
      (\<exists>z. fix_div x y = Inr z \<and> \<bar>sint (fx x) * 16384 - sint (fx z) * sint (fx y)\<bar> < \<bar>sint (fx y)\<bar>))
    \<and> (fix_frac n d = Inr z \<longrightarrow> \<bar>sint n * 16384 - sint (fx z) * sint d\<bar> < \<bar>sint d\<bar>)
    \<and> (\<bar>sint (fx x)\<bar> < 2147475456 \<longrightarrow> (\<exists>r. fix_round x = Inr r \<and> 2 * \<bar>sint (fx x) - sint r * 16384\<bar> \<le> 16384))
    \<and> (2147475456 \<le> sint (fx x) \<longrightarrow> (\<exists>r. fix_round x = Inr r \<and> sint r \<le> - 131071))"
proof (intro conjI impI)
  assume "\<bar>sint (fx x) * sint (fx y)\<bar> < 2147483648 * 16384"
  then obtain v where "long_div (sint (fx x) * sint (fx y)) 16384 = Inr v"
    "\<bar>sint (fx x) * sint (fx y) - sint v * 16384\<bar> < 16384"
    using long_div_value [of 16384 "sint (fx x) * sint (fx y)"] by auto
  then show "\<exists>z. fix_mul x y = Inr z \<and> \<bar>sint (fx x) * sint (fx y) - sint (fx z) * 16384\<bar> < 16384"
    by (simp add: fix_mul_def mk_fix_def)
next
  assume "fx y \<noteq> 0 \<and> \<bar>sint (fx x) * 16384\<bar> < 2147483648 * \<bar>sint (fx y)\<bar>"
  then obtain v where "long_div (sint (fx x) * 16384) (sint (fx y)) = Inr v"
    "\<bar>sint (fx x) * 16384 - sint v * sint (fx y)\<bar> < \<bar>sint (fx y)\<bar>"
    using long_div_value [of "sint (fx y)" "sint (fx x) * 16384"] nonzero_sint by blast
  then show "\<exists>z. fix_div x y = Inr z \<and> \<bar>sint (fx x) * 16384 - sint (fx z) * sint (fx y)\<bar> < \<bar>sint (fx y)\<bar>"
    by (simp add: fix_div_def mk_fix_def)
next
  assume "fix_frac n d = Inr z"
  then obtain v where d: "d \<noteq> 0" "\<bar>sint n sdiv sint d\<bar> \<le> 131071" and v: "long_div (sint n * 16384) (sint d) = Inr v" "z = mk_fix v"
    using frac_guard by blast
  have "\<bar>sint n\<bar> < 131072 * \<bar>sint d\<bar>" using d nonzero_sint by (intro sdiv_bound_converse) auto
  then have "\<bar>sint n * 16384\<bar> < 2147483648 * \<bar>sint d\<bar>" by (simp add: abs_mult)
  then show "\<bar>sint n * 16384 - sint (fx z) * sint d\<bar> < \<bar>sint d\<bar>"
    using long_div_value [of "sint d" "sint n * 16384"] d(1) nonzero_sint v by (auto simp: mk_fix_def)
next
  assume "\<bar>sint (fx x)\<bar> < 2147475456"
  from fix_round_value [OF this] obtain r where r: "fix_round x = Inr r"
    "sint r = (if 0 \<le> sint (fx x) then sint (fx x) + 8192 else sint (fx x) - 8192) sdiv 16384" by blast
  have "2 * \<bar>sint (fx x) - sint r * 16384\<bar> \<le> 16384"
    using nearest [of "sint (fx x)"] by (simp only: r(2))
  then show "\<exists>r. fix_round x = Inr r \<and> 2 * \<bar>sint (fx x) - sint r * 16384\<bar> \<le> 16384" using r(1) by blast
next
  assume big: "2147475456 \<le> sint (fx x)"
  have wrap: "word_of_int (a - 4294967296) = (word_of_int a :: i32)" for a by simp
  have "sint (word_of_int (sint (fx x) + 8192 - 4294967296) :: i32) = sint (fx x) + 8192 - 4294967296"
    using big sint_range_i32 [of "fx x"] by (intro sint_of_int) simp_all
  then have "sint (fx x + 8192) = sint (fx x) + 8192 - 4294967296" unfolding wrap by (simp add: of_int_add)
  moreover have "(sint (fx x) + 8192 - 4294967296) sdiv 16384 \<le> - 131071"
    using big sint_range_i32 [of "fx x"] sdiv_near [of 16384 "sint (fx x) + 8192 - 4294967296"] by (simp add: abs_if split: if_splits)
  ultimately show "\<exists>r. fix_round x = Inr r \<and> sint r \<le> - 131071"
    using big sint_div_F [of "fx x + 8192"] by (simp add: fix_round_def int_div_F)
qed

section \<open>Order\<close>

text \<open>Comparison is the order of the values: it is antisymmetric and transitive, gives 0 exactly for equal numbers, and
  adding a number on both sides keeps it as long as nothing overflows.\<close>

theorem fixed_point_order:
  "(fix_compare x y = 0 \<longleftrightarrow> fx x = fx y) \<and> fix_compare y x = - fix_compare x y
    \<and> (fix_compare x y = - 1 \<and> fix_compare y z = - 1 \<longrightarrow> fix_compare x z = - 1)
    \<and> (\<bar>sint (fx x) + sint (fx z)\<bar> < 2147483648 \<and> \<bar>sint (fx y) + sint (fx z)\<bar> < 2147483648
        \<longrightarrow> fix_compare (fix_add x z) (fix_add y z) = fix_compare x y)"
proof -
  have "sint (fx x) = sint (fx y) \<longleftrightarrow> fx x = fx y" by (auto intro: signed_word_eqI)
  moreover have "sint (fx (fix_add a b)) = sint (fx a) + sint (fx b)" if "\<bar>sint (fx a) + sint (fx b)\<bar> < 2147483648" for a b
    using that sint_plus [of "fx a" "fx b"] by (simp add: fix_add_def mk_fix_def)
  ultimately show ?thesis by (auto simp: fix_compare_def)
qed

section \<open>Instances\<close>

theorem fixed_point_integers_witness:
  "(\<exists>x. fix_int 131071 = Inr x \<and> fix_trunc x = Inr 131071 \<and> fix_round x = Inr 131071)
    \<and> fix_int 131072 = Inl (Panic ''assertion failed'')"
  using fixed_point_integers [of 131071] fixed_point_integers [of 131072] by simp

theorem fixed_point_accuracy_witness:
  "\<exists>z. fix_div (mk_fix 16384) (mk_fix 49152) = Inr z \<and> \<bar>268435456 - sint (fx z) * 49152\<bar> < (49152 :: int)"
  using fixed_point_accuracy [of "mk_fix 16384" "mk_fix 49152"] by (simp add: mk_fix_def)

theorem fixed_point_order_witness: "fix_compare (fix_add (mk_fix 1) (mk_fix 3)) (fix_add (mk_fix 2) (mk_fix 3)) = - 1"
proof -
  have "fix_compare (mk_fix 1) (mk_fix 2) = - 1" by (simp add: fix_compare_def mk_fix_def)
  then show ?thesis using fixed_point_order [of "mk_fix 1" "mk_fix 2" "mk_fix 3"] by (simp add: mk_fix_def)
qed

end
