(* ===== verification/Spec2Isabelle.thy ===== *)
theory Spec2Isabelle
  imports FOS_Mmu FOS_Queue FOS_Spinlock FOS_DynAlloc FOS_Kheap FOS_SchedTurn FOS_Conc FOS_Optimal FOS_Replace FOS_String FOS_UheapSafe FOS_Share FOS_Env FOS_Console FOS_Syscall FOS_Fixed
begin

text \<open>
  A verification development for FOS, a teaching operating system written in C.  All paths below are
  relative to \<^verbatim>\<open>src/FOS_PROJECT_2025_TEMPLATE\<close>.

  \<^bold>\<open>The program.\<close>  FOS is a 32-bit kernel with user processes.  Physical memory is an array of frames with
  reference counts; a two-level page table per process maps pages to frames.  On top of it the kernel keeps
  a heap (a block allocator for small requests, whole pages by custom fit for large ones) from which page
  tables, working-set elements and the arrays of the scheduler come.  Processes are scheduled by round
  robin or by priorities with ageing; they block on channels, sleep locks and semaphores.  Pages of a process
  are brought in by page faults, evicted by a replacement strategy and kept in a page file on disk.  The
  library linked to every process holds the process's own heap and the string functions.

  \<^bold>\<open>How a C function is modelled.\<close>  A C function is a HOL function from the state before to a result
  \<open>Inl e\<close> (the call never returns: \<open>Panic\<close> for \<open>panic\<close> or a failed assertion, \<open>Fault\<close> for an access through a
  null or invalid pointer, \<open>Spin\<close> for waiting without end) or \<open>Inr\<close> of its value and the state after it
  (\<open>FOS_Prelude\<close>); \<open>bindE\<close> is sequencing.  Unsigned integers are words of their width, so arithmetic wraps as in C; a
  signed comparison is written with \<open>sint\<close> or \<open><s\<close>.  Objects on the heap are named by their address, a null pointer
  is the address 0, and an intrusive list is the list of its elements, which \<open>FOS_Queue\<close> justifies.  The state is
  one extensible record: frames and page tables, extended by the kernel heap, the scheduler, the page file and
  the fault handler in that order.  Where \<open>sched()\<close> switches to another process, the C function is cut in two:
  what runs before the switch, and what runs when the process is dispatched again.

  \<^bold>\<open>Theories and sources.\<close>
    \<^item> \<open>FOS_Prelude\<close>, \<open>FOS_Mmu\<close>: results and errors, word lemmas; the macros of \<^verbatim>\<open>inc/types.h\<close> and \<^verbatim>\<open>inc/mmu.h\<close>.
    \<^item> \<open>FOS_Queue\<close> (\<^verbatim>\<open>inc/queue.h\<close>): the list macros on explicit next and previous links.  A representation predicate
      relates links to sequences; every sequence of macro calls implements the operations on sequences.  The
      locale \<open>list_provider\<close> is that contract, interpreted on the macros.
    \<^item> \<open>FOS_Spinlock\<close> (\<^verbatim>\<open>kern/conc/kspinlock.c\<close>, \<^verbatim>\<open>kern/cpu/cpu.c\<close>): nested interrupt disabling and spin locks; mutual
      exclusion as an invariant of an inductive step relation (locale \<open>mutex\<close>), and the round trip of one processor.
    \<^item> \<open>FOS_DynAlloc\<close> (\<^verbatim>\<open>lib/dynamic_allocator.c\<close>): the block allocator.  \<open>da_wf\<close> is its invariant and \<open>live\<close> the abstract
      state, the set of blocks in use; allocation adds one fresh block, freeing removes one, live blocks are
      disjoint.  The pages come through the locale \<open>page_provider\<close>, which \<open>FOS_Kheap\<close> interprets.
    \<^item> \<open>FOS_Frames\<close> (\<^verbatim>\<open>kern/mem/memory_manager.c\<close>) and \<open>FOS_Paging\<close> (\<^verbatim>\<open>kern/mem/paging_helpers.c\<close>): frames, reference
      counts, page-table walks.  \<open>mm_inv\<close> says that the counts are exact; every operation keeps it.
    \<^item> \<open>FOS_Kheap\<close> (\<^verbatim>\<open>kern/mem/kheap.c\<close>): kmalloc, kfree and the two address translations; functional
      specifications of the page part (custom fit over holes) and of the block part.
    \<^item> \<open>FOS_Sched\<close>, \<open>FOS_SchedTurn\<close> (\<^verbatim>\<open>kern/cpu/sched.c\<close>, \<^verbatim>\<open>sched_helpers.c\<close>, \<^verbatim>\<open>kclock.c\<close>): queues, round robin and
      priorities, the clock interrupt with ageing; the safety of all sequences of legal requests, progress under
      round robin, priority of the dispatched process.
    \<^item> \<open>FOS_Conc\<close> (\<^verbatim>\<open>kern/conc/channel.c\<close>, \<^verbatim>\<open>sleeplock.c\<close>, \<^verbatim>\<open>ksemaphore.c\<close>): sleeping, waking, sleep locks, semaphores.
    \<^item> \<open>FOS_Pagefile\<close> (\<^verbatim>\<open>kern/disk/pagefile_manager.c\<close>, \<^verbatim>\<open>lib/disk.c\<close>), \<open>FOS_WorkingSet\<close>
      (\<^verbatim>\<open>kern/mem/working_set_manager.c\<close>), \<open>FOS_Fault\<close> (\<^verbatim>\<open>kern/trap/fault_handler.c\<close>): the page file over a drive that
      may report errors, working sets, the fault handler with its strategies.
    \<^item> \<open>FOS_Blocks\<close>, \<open>FOS_Belady\<close>, \<open>FOS_Optimal\<close>: small allocations in a row; optimal replacement as a relation on
      reference streams with the exchange argument; the count of the OPTIMAL strategy is the least one.
    \<^item> \<open>FOS_Replace\<close>: CLOCK, modified CLOCK and LRU against reference definitions.
    \<^item> \<open>FOS_Uheap\<close>, \<open>FOS_UheapSafe\<close> (\<^verbatim>\<open>lib/uheap.c\<close>): the heap of a process over a record of system calls; malloc and
      free keep allocations disjoint as long as free chunks lie below the break, which free can break.
    \<^item> \<open>FOS_String\<close> (\<^verbatim>\<open>lib/string.c\<close>): strings and block operations on a byte-addressed memory.

    \<^item> \<open>FOS_Chunk\<close> (\<^verbatim>\<open>kern/mem/chunk_operations.c\<close>): user memory is marked in the page tables of the process when it is
      allocated and unmarked when it is freed; the fault handler accepts accesses in the first case and refuses
      them in the second.
    \<^item> \<open>FOS_Share\<close> (\<^verbatim>\<open>kern/mem/shared_memory_manager.c\<close>): shared objects.  Creating, getting and deleting one, with the exact
      page-table entries, reference counts and list; deleting the last reference panics.
    \<^item> \<open>FOS_Env\<close> (\<^verbatim>\<open>kern/proc/user_environment.c\<close>, \<^verbatim>\<open>user_programs.c\<close>): the table of environments, creating one and loading its
      program from the image in the kernel, freeing and killing.  Identity of new environments, the list of free ones, the
      segments of an image and their bytes in memory, refusals.
    \<^item> \<open>FOS_Print\<close> (\<^verbatim>\<open>lib/printfmt.c\<close>, \<^verbatim>\<open>lib/printf.c\<close>, \<^verbatim>\<open>kern/cons/printf.c\<close>): formatted printing.  The text of a
      number and its value, the bounds of \<open>vsnprintf\<close>, the batches a process prints in, printing and reading back.
    \<^item> \<open>FOS_Console\<close> (\<^verbatim>\<open>kern/cons/console.c\<close>, \<^verbatim>\<open>lib/readline.c\<close>): the screen, the keyboard and the ring of typed
      characters.  The interface \<open>lossy_queue\<close> and the ring as its instance, output within the screen, printed text in
      its cells, the line that is typed and the line that is read.
    \<^item> \<open>FOS_Syscall\<close> (\<^verbatim>\<open>kern/trap/syscall.c\<close>, \<^verbatim>\<open>kern/trap/trap.c\<close>, \<^verbatim>\<open>lib/syscall.c\<close>): the whole kernel as one state,
      every system call, the dispatch of traps and interrupts, and the stubs of processes.  A call from the trap to the result in
      its register, the checks of arguments, the text of a process on the screen.
    \<^item> \<open>FOS_Fixed\<close> (\<^verbatim>\<open>inc/fixed_point.h\<close>): fixed-point arithmetic, exact up to the last bit where the result fits.

  \<^bold>\<open>Loops and fuel.\<close>  A loop over a list recurses on the list.  The size-class loops of the block allocator have fuel 32
  (\<open>class_fuel\<close>): a 32-bit size doubles at most 32 times, and the lemmas show that nine rounds are used.  The loops over the
  pages of the kernel heap have one round per page of the address space (\<open>heap_fuel\<close>).  \<open>wakeup_loop\<close>, the rotation of the
  working set and the clock hand have one round per element and one more; modified CLOCK has two outer rounds, because
  the first clears every used bit.  In each case a lemma shows that the fuel is not used up under the invariant of the
  component, and running out of it is the error \<open>Spin\<close>, which no property identifies with success.  The loops of
  \<^verbatim>\<open>lib/string.c\<close> that look for a terminator are partial functions, and their properties state that they return.

  \<^bold>\<open>Modelling decisions to keep in mind.\<close>  The translation cache has no modelled effect.  \<open>NENV\<close> is a parameter of the state.
  A semaphore's count is an unbounded integer.  The contents of the disk are its sectors, and waiting for the drive
  ends.  A user address means that address in the current address space.  The first field left uninitialised by
  \<open>allocationGded\<close> reads whatever \<open>stale\<close> holds.

  \<^bold>\<open>Not modelled.\<close>
    \<^item> The interrupt descriptor table and the entry code of traps; page faults of the kernel on memory of a process.
    \<^item> \<open>krealloc\<close> of \<^verbatim>\<open>kheap.c\<close>; the functions of \<^verbatim>\<open>paging_helpers.c\<close> that only panic; \<open>__static_cpt\<close>, which builds tables before
      the heap exists; printing of queues, working sets and lists.
    \<^item> Timer and interrupt-controller drivers, the kernel prompt with its commands:
      device registers, the parsing of arguments and printing.
    \<^item> Boot loader and start-up (\<^verbatim>\<open>boot\<close>, \<^verbatim>\<open>kern/init.c\<close>, \<^verbatim>\<open>kern/mem/boot_memory_manager.c\<close>): the machine before paging is on.
    \<^item> \<^verbatim>\<open>kern/tests\<close> and \<^verbatim>\<open>user\<close>: test drivers and the programs that run on the kernel.
    \<^item> The semaphores of \<^verbatim>\<open>lib/semaphore.c\<close>, whose operations only panic, and the spin lock of \<^verbatim>\<open>lib/uspinlock.c\<close>, an exchange in a loop.
\<close>

end
